(* ===== verification/Prelude.thy ===== *)
theory Prelude
  imports Main "HOL-Library.Sublist" "HOL-Library.Multiset"
begin

text \<open>
  Shared vocabulary of the development: clocks and machine integers, the list idioms the Go code
  repeats (keep the newest n elements, replace the first match or append, iterate a map in some
  order), and the collections of rewrite rules the component theories fill.
\<close>

section \<open>Collections of rules\<close>

named_theorems model_defs \<open>definitions of operations, unfolded by the proofs about them\<close>
named_theorems go_simps \<open>evaluation rules for the string and list helpers\<close>

section \<open>Time and integers\<close>

text \<open>
  A \<open>time.Time\<close> is the number of nanoseconds since the zero \<open>time.Time\<close>, so that
  \<open>IsZero\<close> is equality with 0. A \<open>time.Duration\<close> is a number of nanoseconds.
\<close>

type_synonym time = int
type_synonym duration = int

abbreviation is_zero :: "time \<Rightarrow> bool" where
  "is_zero t \<equiv> t = 0"

definition millisecond :: duration where "millisecond = 1000000"
definition second :: duration where "second = 1000 * millisecond"
definition minute :: duration where "minute = 60 * second"
definition hour :: duration where "hour = 60 * minute"

lemmas duration_defs = millisecond_def second_def minute_def hour_def

lemma durations_pos [simp]: "0 < millisecond" "0 < second" "0 < minute" "0 < hour"
  by (simp_all add: duration_defs)

text \<open>An \<open>int64\<close> counter wraps around; an \<open>uint64\<close> counter does so modulo \<open>2 ^ 64\<close>.\<close>

definition wrap64 :: "int \<Rightarrow> int" where
  "wrap64 x = (x + 2 ^ 63) mod 2 ^ 64 - 2 ^ 63"

definition max_int64 :: int where
  "max_int64 = 2 ^ 63 - 1"

lemma wrap64_id: "- (2 ^ 63) \<le> x \<Longrightarrow> x \<le> max_int64 \<Longrightarrow> wrap64 x = x"
  by (simp add: wrap64_def max_int64_def)

lemma wrap64_Suc: "0 \<le> x \<Longrightarrow> x < max_int64 \<Longrightarrow> wrap64 (x + 1) = x + 1"
  by (rule wrap64_id) (auto simp: max_int64_def)

definition wrap_u64 :: "nat \<Rightarrow> nat" where
  "wrap_u64 n = n mod 2 ^ 64"

lemma wrap_u64_id: "n < 2 ^ 64 \<Longrightarrow> wrap_u64 n = n"
  by (simp add: wrap_u64_def)

section \<open>Lists\<close>

text \<open>\<open>xs[len(xs)-n:]\<close> when the slice is longer than n: the newest n elements.\<close>

definition last_n :: "nat \<Rightarrow> 'a list \<Rightarrow> 'a list" where
  "last_n n xs = drop (length xs - n) xs"

lemma length_last_n [simp]: "length (last_n n xs) = min n (length xs)"
  by (simp add: last_n_def)

lemma last_n_id: "length xs \<le> n \<Longrightarrow> last_n n xs = xs"
  by (simp add: last_n_def)

lemma suffix_last_n: "suffix (last_n n xs) xs"
  by (simp add: last_n_def suffix_drop)

lemma set_last_n: "set (last_n n xs) \<subseteq> set xs"
  by (simp add: last_n_def set_drop_subset)

lemma sorted_wrt_last_n: "sorted_wrt P xs \<Longrightarrow> sorted_wrt P (last_n n xs)"
  by (simp add: last_n_def sorted_wrt_drop)

lemma last_n_append:
  "last_n n (xs @ ys) = (if length ys \<le> n then last_n (n - length ys) xs @ ys else last_n n ys)"
  by (auto simp: last_n_def)

text \<open>The loop that replaces the first element that matches and appends when none does.\<close>

fun upsert_first :: "('a \<Rightarrow> bool) \<Rightarrow> ('a \<Rightarrow> 'a) \<Rightarrow> 'a \<Rightarrow> 'a list \<Rightarrow> 'a list" where
  "upsert_first p f x [] = [x]"
| "upsert_first p f x (y # ys) = (if p y then f y # ys else y # upsert_first p f x ys)"

lemma upsert_first_none: "\<forall>y\<in>set ys. \<not> p y \<Longrightarrow> upsert_first p f x ys = ys @ [x]"
  by (induction ys) auto

lemma upsert_first_some:
  "\<forall>y\<in>set us. \<not> p y \<Longrightarrow> p y \<Longrightarrow> upsert_first p f x (us @ y # vs) = us @ f y # vs"
  by (induction us) auto

lemma length_upsert_first:
  "length (upsert_first p f x ys) = (if \<exists>y\<in>set ys. p y then length ys else Suc (length ys))"
  by (induction ys) auto

lemma set_upsert_first:
  "set (upsert_first p f x ys) \<subseteq> insert x (set ys \<union> f ` {y \<in> set ys. p y})"
  by (induction ys) auto

lemma map_upsert_first:
  assumes "\<And>y. p y \<Longrightarrow> g (f y) = g y"
  shows "map g (upsert_first p f x ys) =
    (if \<exists>y\<in>set ys. p y then map g ys else map g ys @ [g x])"
  using assms by (induction ys) auto

lemma distinct_upsert_first:
  assumes "distinct (map g ys)" and "\<And>y. p y \<longleftrightarrow> g y = g x" and "\<And>y. p y \<Longrightarrow> g (f y) = g y"
  shows "distinct (map g (upsert_first p f x ys))"
proof -
  have "map g (upsert_first p f x ys) = (if \<exists>y\<in>set ys. p y then map g ys else map g ys @ [g x])"
    by (rule map_upsert_first) (rule assms(3))
  then show ?thesis
    using assms(1) by (auto simp: assms(2))
qed

text \<open>Prefixes, suffixes and subsequences.\<close>

lemma subseq_append_right: "subseq xs ys \<Longrightarrow> subseq xs (ys @ [y])"
  by (metis subseq_rev_drop_many)

lemma subseq_snoc: "subseq xs ys \<Longrightarrow> subseq (xs @ [y]) (ys @ [y])"
  by (simp add: list_emb_append_mono)

lemma subseq_distinct: "subseq xs ys \<Longrightarrow> distinct ys \<Longrightarrow> distinct xs"
  by (induction rule: list_emb.induct) (auto dest: list_emb_set)

lemma subseq_map_distinct: "subseq xs ys \<Longrightarrow> distinct (map f ys) \<Longrightarrow> distinct (map f xs)"
  by (rule subseq_distinct [OF subseq_map])

lemma subseq_sorted_wrt: "subseq xs ys \<Longrightarrow> sorted_wrt P ys \<Longrightarrow> sorted_wrt P xs"
  by (induction rule: list_emb.induct) (auto dest: list_emb_set)

section \<open>Maps\<close>

lemma dom_minus: "dom (m(k := None)) = dom m - {k}"
  by auto

lemma finite_dom_upd [simp]: "finite (dom m) \<Longrightarrow> finite (dom (m(k \<mapsto> v)))"
  by simp

lemma finite_dom_del [simp]: "finite (dom m) \<Longrightarrow> finite (dom (m(k := None)))"
  by (simp add: dom_minus)

text \<open>
  Go iterates a map in an unspecified order: an iteration order of \<open>m\<close> is a list of its keys
  without repetition.
\<close>

definition iter_order :: "('k \<rightharpoonup> 'v) \<Rightarrow> 'k list \<Rightarrow> bool" where
  "iter_order m ks \<longleftrightarrow> distinct ks \<and> set ks = dom m"

definition values_in :: "('k \<rightharpoonup> 'v) \<Rightarrow> 'k list \<Rightarrow> 'v list" where
  "values_in m ks = List.map_filter m ks"

lemma map_filter_Cons: "List.map_filter f (x # xs) =
    (case f x of None \<Rightarrow> List.map_filter f xs | Some y \<Rightarrow> y # List.map_filter f xs)"
  by (simp add: List.map_filter_simps split: option.split)

lemma values_in_simps [simp]:
  "values_in m [] = []"
  "values_in m (k # ks) = (case m k of None \<Rightarrow> values_in m ks | Some v \<Rightarrow> v # values_in m ks)"
  by (simp_all add: values_in_def List.map_filter_simps split: option.split)

lemma set_values_in: "set (values_in m ks) = {v. \<exists>k\<in>set ks. m k = Some v}"
  by (induction ks) (auto split: option.splits)

lemma iter_order_set: "iter_order m ks \<Longrightarrow> set (values_in m ks) = ran m"
  by (auto simp: set_values_in iter_order_def ran_def dom_def)

lemma length_values_in: "set ks \<subseteq> dom m \<Longrightarrow> length (values_in m ks) = length ks"
  by (induction ks) (auto split: option.splits)

lemma iter_order_length: "iter_order m ks \<Longrightarrow> length (values_in m ks) = card (dom m)"
  by (simp add: iter_order_def length_values_in distinct_card[symmetric])

section \<open>Removing one element\<close>

definition remove_nth :: "nat \<Rightarrow> 'a list \<Rightarrow> 'a list" where
  "remove_nth i xs = take i xs @ drop (Suc i) xs"

lemma set_remove_nth: "set (remove_nth i xs) \<subseteq> set xs"
  by (auto simp: remove_nth_def dest: in_set_takeD in_set_dropD)

lemma mset_remove_nth: "i < length xs \<Longrightarrow> mset xs = add_mset (xs ! i) (mset (remove_nth i xs))"
  unfolding remove_nth_def
  by (subst id_take_nth_drop [of i xs]) (simp_all add: union_commute)

lemma length_remove_nth [simp]: "i < length xs \<Longrightarrow> length (remove_nth i xs) = length xs - 1"
  by (simp add: remove_nth_def)

lemma in_set_remove_nth:
  "x \<in> set xs \<Longrightarrow> i < length xs \<Longrightarrow> x = xs ! i \<or> x \<in> set (remove_nth i xs)"
  using mset_remove_nth [of i xs] by (metis insert_iff set_mset_add_mset_insert set_mset_mset)

end
