(* ===== verification/GoStrings.thy ===== *)
theory GoStrings
  imports Prelude
begin

text \<open>
  Go strings and the functions of package \<open>strings\<close> the program calls. A Go string is its
  sequence of bytes (UTF-8), modelled as a \<^typ>\<open>char list\<close>; \<open>len\<close> is \<^const>\<open>length\<close>.
  White space is that of \<open>unicode.IsSpace\<close>, in ASCII and in its multi-byte UTF-8 forms
  (U+0085, U+00A0, U+1680, U+2000..U+200A, U+2028, U+2029, U+202F, U+205F, U+3000). Case
  conversion maps the ASCII letters and leaves every other byte alone, which is
  \<open>strings.ToLower\<close> and \<open>strings.ToUpper\<close> on valid UTF-8 text whose letters outside ASCII have
  no case (as the Chinese literals of the program).
\<close>

section \<open>Bytes and white space\<close>

definition byte :: "char \<Rightarrow> nat" where
  "byte c = of_char c"

lemma byte_inj: "byte c = byte d \<longleftrightarrow> c = d"
  by (simp add: byte_def)

definition ascii_space :: "char \<Rightarrow> bool" where
  "ascii_space c \<longleftrightarrow> byte c \<in> {9, 10, 11, 12, 13, 32}"

definition space2 :: "char \<Rightarrow> char \<Rightarrow> bool" where
  "space2 a b \<longleftrightarrow> byte a = 0xC2 \<and> (byte b = 0x85 \<or> byte b = 0xA0)"

definition space3 :: "char \<Rightarrow> char \<Rightarrow> char \<Rightarrow> bool" where
  "space3 a b c \<longleftrightarrow>
     byte a = 0xE1 \<and> byte b = 0x9A \<and> byte c = 0x80 \<or>
     byte a = 0xE2 \<and> byte b = 0x80 \<and>
       (0x80 \<le> byte c \<and> byte c \<le> 0x8A \<or> byte c = 0xA8 \<or> byte c = 0xA9 \<or> byte c = 0xAF) \<or>
     byte a = 0xE2 \<and> byte b = 0x81 \<and> byte c = 0x9F \<or>
     byte a = 0xE3 \<and> byte b = 0x80 \<and> byte c = 0x80"

text \<open>The number of bytes of the white-space character a string starts with, 0 if it has none.\<close>

fun space_len :: "string \<Rightarrow> nat" where
  "space_len [] = 0"
| "space_len [a] = (if ascii_space a then 1 else 0)"
| "space_len [a, b] = (if ascii_space a then 1 else if space2 a b then 2 else 0)"
| "space_len (a # b # c # s) =
     (if ascii_space a then 1 else if space2 a b then 2 else if space3 a b c then 3 else 0)"

text \<open>The same at the end of a string, which is given reversed.\<close>

fun rspace_len :: "string \<Rightarrow> nat" where
  "rspace_len [] = 0"
| "rspace_len [a] = (if ascii_space a then 1 else 0)"
| "rspace_len [b, a] = (if ascii_space b then 1 else if space2 a b then 2 else 0)"
| "rspace_len (c # b # a # s) =
     (if ascii_space c then 1 else if space2 b c then 2 else if space3 a b c then 3 else 0)"

function trim_left :: "string \<Rightarrow> string" where
  "trim_left s = (if space_len s = 0 \<or> s = [] then s else trim_left (drop (space_len s) s))"
  by pat_completeness auto
termination
  by (relation "measure length") auto

function trim_rev :: "string \<Rightarrow> string" where
  "trim_rev s = (if rspace_len s = 0 \<or> s = [] then s else trim_rev (drop (rspace_len s) s))"
  by pat_completeness auto
termination
  by (relation "measure length") auto

declare trim_left.simps [simp del] trim_rev.simps [simp del]

definition trim_right :: "string \<Rightarrow> string" where
  "trim_right s = rev (trim_rev (rev s))"

definition trim_space :: "string \<Rightarrow> string" where
  "trim_space s = trim_right (trim_left s)"

lemma trim_left_unfold [go_simps]:
  "trim_left [] = []"
  "trim_left (c # s) =
     (if space_len (c # s) = 0 then c # s else trim_left (drop (space_len (c # s)) (c # s)))"
  by (simp_all add: trim_left.simps [of "[]"] trim_left.simps [of "c # s"])

lemma trim_rev_unfold [go_simps]:
  "trim_rev [] = []"
  "trim_rev (c # s) =
     (if rspace_len (c # s) = 0 then c # s else trim_rev (drop (rspace_len (c # s)) (c # s)))"
  by (simp_all add: trim_rev.simps [of "[]"] trim_rev.simps [of "c # s"])

lemma space_len_le: "space_len s \<le> length s"
  by (cases s rule: space_len.cases) auto

lemma trim_left_no_space: "space_len (trim_left s) = 0"
  by (induction s rule: trim_left.induct) (metis space_len.simps(1) trim_left.simps)

lemma trim_rev_no_space: "rspace_len (trim_rev s) = 0"
  by (induction s rule: trim_rev.induct) (metis rspace_len.simps(1) trim_rev.simps)

lemma trim_left_id: "space_len s = 0 \<Longrightarrow> trim_left s = s"
  by (simp add: trim_left.simps)

lemma trim_rev_id: "rspace_len s = 0 \<Longrightarrow> trim_rev s = s"
  by (simp add: trim_rev.simps)

lemma suffix_trim_rev: "suffix (trim_rev s) s"
proof (induction s rule: trim_rev.induct)
  case (1 s)
  then show ?case
    by (metis suffix_drop suffix_order.dual_order.refl suffix_order.dual_order.trans trim_rev.simps)
qed

lemma prefix_trim_right: "prefix (trim_right s) s"
  using suffix_trim_rev [of "rev s"] by (simp add: trim_right_def suffix_to_prefix)

lemma space_len_append: "space_len s = 0 \<Longrightarrow> s = u @ v \<Longrightarrow> space_len u = 0"
  by (cases s rule: space_len.cases; cases u rule: space_len.cases) (auto split: if_splits)

lemma trim_space_idem [simp]: "trim_space (trim_space s) = trim_space s"
proof -
  let ?t = "trim_right (trim_left s)"
  obtain z where z: "trim_left s = ?t @ z"
    using prefix_trim_right by (auto simp: prefix_def)
  have "space_len ?t = 0"
    by (rule space_len_append [OF trim_left_no_space z])
  then have "trim_left ?t = ?t" by (rule trim_left_id)
  moreover have "trim_right ?t = ?t"
    by (simp add: trim_right_def trim_rev_no_space trim_rev_id)
  ultimately show ?thesis by (simp add: trim_space_def)
qed

lemma trim_space_Nil [simp]: "trim_space [] = []"
  by (simp add: trim_space_def trim_right_def go_simps)

text \<open>A string without white space anywhere.\<close>

fun no_space :: "string \<Rightarrow> bool" where
  "no_space [] = True"
| "no_space (c # s) = (space_len (c # s) = 0 \<and> no_space s)"

lemma byte_blank [simp]: "byte CHR '' '' = 32"
  by (simp add: byte_def)

lemma ascii_space_blank [simp]: "ascii_space CHR '' ''"
  by (simp add: ascii_space_def)

lemma space_len_blank [simp]: "space_len (CHR '' '' # s) = 1"
  by (cases s rule: space_len.cases) auto

lemma space2_blank [simp]: "\<not> space2 a CHR '' ''"
  by (simp add: space2_def)

lemma space3_blank [simp]: "\<not> space3 a b CHR '' ''" "\<not> space3 a CHR '' '' b"
  by (auto simp: space3_def)

lemma space_len_blank_after:
  "space_len (a # s) = 0 \<Longrightarrow> space_len (a # s @ CHR '' '' # t) = 0"
  by (cases "(a # s)" rule: space_len.cases; cases t) (auto split: if_splits)

text \<open>Printable ASCII characters other than the blank are not white space, whatever follows.\<close>

definition printable :: "char \<Rightarrow> bool" where
  "printable c \<longleftrightarrow> 33 \<le> byte c \<and> byte c < 127"

lemma space_len_printable: "printable c \<Longrightarrow> space_len (c # s) = 0"
  by (cases "c # s" rule: space_len.cases)
    (auto simp: printable_def ascii_space_def space2_def space3_def)

lemma no_space_printable: "(\<forall>c\<in>set u. printable c) \<Longrightarrow> no_space v \<Longrightarrow> no_space (u @ v)"
  by (induction u) (auto simp: space_len_printable)

section \<open>Fields, splitting and joining\<close>

text \<open>\<open>strings.Fields\<close>; the accumulator holds the current word reversed.\<close>

function fields_from :: "string \<Rightarrow> string \<Rightarrow> string list" where
  "fields_from cur [] = (if cur = [] then [] else [rev cur])"
| "fields_from cur (c # s) =
     (if space_len (c # s) = 0 then fields_from (c # cur) s
      else (if cur = [] then [] else [rev cur]) @ fields_from [] (drop (space_len (c # s)) (c # s)))"
  by pat_completeness auto
termination
  by (relation "measure (\<lambda>(cur, s). length s)") auto

definition fields :: "string \<Rightarrow> string list" where
  "fields s = fields_from [] s"

lemma fields_from_word:
  "no_space w \<Longrightarrow> fields_from cur w = (if cur = [] \<and> w = [] then [] else [rev cur @ w])"
  by (induction w arbitrary: cur) auto

lemma fields_from_word_blank:
  "no_space w \<Longrightarrow>
   fields_from cur (w @ CHR '' '' # s) = (if cur = [] \<and> w = [] then [] else [rev cur @ w]) @ fields s"
proof (induction w arbitrary: cur)
  case Nil
  then show ?case by (simp add: fields_def)
next
  case (Cons c w)
  then have "space_len (c # w @ CHR '' '' # s) = 0"
    by (simp add: space_len_blank_after)
  with Cons show ?case by simp
qed

lemma fields_word [simp]: "no_space w \<Longrightarrow> w \<noteq> [] \<Longrightarrow> fields w = [w]"
  by (simp add: fields_def fields_from_word)

lemma fields_blank_Cons [simp]:
  "no_space w \<Longrightarrow> w \<noteq> [] \<Longrightarrow> fields (w @ CHR '' '' # s) = w # fields s"
  by (simp add: fields_def [of "w @ _"] fields_from_word_blank)

lemma fields_from_nonempty: "[] \<notin> set (fields_from cur s)"
  by (induction cur s rule: fields_from.induct) auto

lemma fields_nonempty: "w \<in> set (fields s) \<Longrightarrow> w \<noteq> []"
  using fields_from_nonempty by (auto simp: fields_def)

text \<open>\<open>strings.Split(s, sep)\<close> for a separator of one byte: never the empty list.\<close>

fun split_on :: "char \<Rightarrow> string \<Rightarrow> string list" where
  "split_on c [] = [[]]"
| "split_on c (x # xs) =
     (if x = c then [] # split_on c xs
      else (case split_on c xs of [] \<Rightarrow> [[x]] | w # ws \<Rightarrow> (x # w) # ws))"

fun join :: "string \<Rightarrow> string list \<Rightarrow> string" where
  "join sep [] = []"
| "join sep [w] = w"
| "join sep (w # ws) = w @ sep @ join sep ws"

lemma split_on_nonempty [simp]: "split_on c s \<noteq> []"
  by (cases s) (auto split: list.split)

lemma join_split_on [simp]: "join [c] (split_on c s) = s"
proof (induction s)
  case (Cons x xs)
  obtain w ws where ws: "split_on c xs = w # ws"
    by (cases "split_on c xs") auto
  with Cons show ?case by (cases ws) auto
qed simp

lemma split_on_no_sep: "w \<in> set (split_on c s) \<Longrightarrow> c \<notin> set w"
  by (induction s arbitrary: w) (auto split: if_splits list.splits)

text \<open>
  \<open>strings.SplitN(s, sep, 2)\<close>: the parts before and after the first separator, or the whole
  string.
\<close>

definition has_prefix :: "string \<Rightarrow> string \<Rightarrow> bool" where
  "has_prefix s p \<longleftrightarrow> take (length p) s = p"

definition has_suffix :: "string \<Rightarrow> string \<Rightarrow> bool" where
  "has_suffix s p \<longleftrightarrow> length p \<le> length s \<and> drop (length s - length p) s = p"

text \<open>\<open>TrimPrefix\<close> and \<open>TrimSuffix\<close>.\<close>

definition trim_prefix :: "string \<Rightarrow> string \<Rightarrow> string" where
  "trim_prefix s p = (if has_prefix s p then drop (length p) s else s)"

definition trim_suffix :: "string \<Rightarrow> string \<Rightarrow> string" where
  "trim_suffix s t = (if has_suffix s t then take (length s - length t) s else s)"

fun str_contains :: "string \<Rightarrow> string \<Rightarrow> bool" where
  "str_contains [] t = (t = [])"
| "str_contains (c # s) t = (has_prefix (c # s) t \<or> str_contains s t)"

fun index_of :: "string \<Rightarrow> string \<Rightarrow> nat option" where
  "index_of [] t = (if t = [] then Some 0 else None)"
| "index_of (c # s) t = (if has_prefix (c # s) t then Some 0 else map_option Suc (index_of s t))"

definition splitn2 :: "string \<Rightarrow> string \<Rightarrow> string list" where
  "splitn2 s sep = (case index_of s sep of
     None \<Rightarrow> [s] | Some i \<Rightarrow> [take i s, drop (i + length sep) s])"

lemma has_prefix_iff: "has_prefix s p \<longleftrightarrow> (\<exists>t. s = p @ t)"
  by (auto simp: has_prefix_def) (metis append_take_drop_id)

lemma has_prefix_append [simp]: "has_prefix (p @ t) p"
  by (simp add: has_prefix_def)

lemma has_prefix_Nil [simp]: "has_prefix s []"
  by (simp add: has_prefix_def)

lemma has_prefix_trans: "has_prefix s p \<Longrightarrow> has_prefix p q \<Longrightarrow> has_prefix s q"
  by (auto simp: has_prefix_iff)

lemma has_suffix_iff: "has_suffix s p \<longleftrightarrow> (\<exists>t. s = t @ p)"
  by (auto simp: has_suffix_def) (metis append_take_drop_id)

lemma str_contains_iff: "str_contains s t \<longleftrightarrow> (\<exists>u v. s = u @ t @ v)"
proof (induction s)
  case (Cons c s)
  show ?case
  proof
    assume "str_contains (c # s) t"
    then show "\<exists>u v. c # s = u @ t @ v"
      using Cons.IH by (auto simp: has_prefix_iff) (metis append_Cons append_Nil)+
  next
    assume "\<exists>u v. c # s = u @ t @ v"
    then obtain u v where uv: "c # s = u @ t @ v" by blast
    show "str_contains (c # s) t"
    proof (cases u)
      case Nil
      with uv have "has_prefix (c # s) t" unfolding has_prefix_iff by auto
      then show ?thesis by simp
    next
      case (Cons d w)
      with uv Cons.IH show ?thesis by auto
    qed
  qed
qed simp

lemma str_contains_Nil [simp]: "str_contains s []"
  by (cases s) simp_all

lemma str_contains_mid [simp]: "str_contains (u @ t @ v) t"
  by (auto simp: str_contains_iff)

lemma index_of_Some: "index_of s t = Some i \<Longrightarrow> s = take i s @ t @ drop (i + length t) s"
  by (induction s arbitrary: i) (auto simp: has_prefix_iff split: if_splits)

lemma index_of_char:
  "c \<notin> set u \<Longrightarrow> index_of (u @ c # v) [c] = Some (length u)"
  by (induction u) (auto simp: has_prefix_def)

lemma splitn2_char: "c \<notin> set u \<Longrightarrow> splitn2 (u @ c # v) [c] = [u, v]"
  by (simp add: splitn2_def index_of_char)

section \<open>Case\<close>

definition lower_char :: "char \<Rightarrow> char" where
  "lower_char c = (if 65 \<le> byte c \<and> byte c \<le> 90 then char_of (byte c + 32) else c)"

definition upper_char :: "char \<Rightarrow> char" where
  "upper_char c = (if 97 \<le> byte c \<and> byte c \<le> 122 then char_of (byte c - 32) else c)"

definition to_lower :: "string \<Rightarrow> string" where
  "to_lower s = map lower_char s"

definition to_upper :: "string \<Rightarrow> string" where
  "to_upper s = map upper_char s"

definition equal_fold :: "string \<Rightarrow> string \<Rightarrow> bool" where
  "equal_fold s t \<longleftrightarrow> to_lower s = to_lower t"

lemma lower_char_idem [simp]: "lower_char (lower_char c) = lower_char c"
  by (auto simp: lower_char_def byte_def)

lemma to_lower_idem [simp]: "to_lower (to_lower s) = to_lower s"
  by (simp add: to_lower_def)

lemma to_lower_append [simp]: "to_lower (s @ t) = to_lower s @ to_lower t"
  by (simp add: to_lower_def)

lemma to_lower_Nil [simp]: "to_lower [] = []"
  by (simp add: to_lower_def)

lemma to_lower_eq_Nil [simp]: "to_lower s = [] \<longleftrightarrow> s = []"
  by (simp add: to_lower_def)

lemma length_to_lower [simp]: "length (to_lower s) = length s"
  by (simp add: to_lower_def)

lemma has_prefix_refl [simp]: "has_prefix s s"
  by (simp add: has_prefix_def)

text \<open>Trimming keeps printable characters and commutes with the change of case.\<close>

lemma spaces_unprintable:
  "ascii_space c \<Longrightarrow> \<not> printable c"
  "space2 a b \<Longrightarrow> \<not> printable a \<and> \<not> printable b"
  "space3 a b c \<Longrightarrow> \<not> printable a \<and> \<not> printable b \<and> \<not> printable c"
  by (auto simp: printable_def ascii_space_def space2_def space3_def)

lemma take_space_unprintable: "x \<in> set (take (space_len s) s) \<Longrightarrow> \<not> printable x"
  using spaces_unprintable by (cases s rule: space_len.cases) (auto split: if_splits)

lemma take_rspace_unprintable: "x \<in> set (take (rspace_len s) s) \<Longrightarrow> \<not> printable x"
  using spaces_unprintable by (cases s rule: rspace_len.cases) (auto split: if_splits)

lemma printable_drop:
  assumes "printable c" and "c \<in> set s" and "\<And>x. x \<in> set (take n s) \<Longrightarrow> \<not> printable x"
  shows "c \<in> set (drop n s)"
  using assms set_append [of "take n s" "drop n s"] by auto

lemma printable_drop_space: "printable c \<Longrightarrow> c \<in> set s \<Longrightarrow> c \<in> set (drop (space_len s) s)"
  using printable_drop take_space_unprintable by blast

lemma printable_drop_rspace: "printable c \<Longrightarrow> c \<in> set s \<Longrightarrow> c \<in> set (drop (rspace_len s) s)"
  using printable_drop take_rspace_unprintable by blast

lemma printable_trim_left: "printable c \<Longrightarrow> c \<in> set s \<Longrightarrow> c \<in> set (trim_left s)"
proof (induction s rule: trim_left.induct)
  case (1 s)
  then show ?case
    using printable_drop_space by (metis trim_left.simps)
qed

lemma printable_trim_rev: "printable c \<Longrightarrow> c \<in> set s \<Longrightarrow> c \<in> set (trim_rev s)"
proof (induction s rule: trim_rev.induct)
  case (1 s)
  then show ?case
    using printable_drop_rspace by (metis trim_rev.simps)
qed

lemma printable_trim_space: "printable c \<Longrightarrow> c \<in> set s \<Longrightarrow> c \<in> set (trim_space s)"
  using printable_trim_rev [of c "rev (trim_left s)"] printable_trim_left
  by (simp add: trim_space_def trim_right_def)

lemma lower_char_spaces [simp]:
  "ascii_space (lower_char c) = ascii_space c"
  "space2 (lower_char a) (lower_char b) = space2 a b"
  "space3 (lower_char a) (lower_char b) (lower_char c) = space3 a b c"
  by (auto simp: lower_char_def byte_def ascii_space_def space2_def space3_def)

lemma space_len_to_lower [simp]: "space_len (to_lower s) = space_len s"
  by (cases s rule: space_len.cases) (simp_all add: to_lower_def)

lemma rspace_len_to_lower [simp]: "rspace_len (to_lower s) = rspace_len s"
  by (cases s rule: rspace_len.cases) (simp_all add: to_lower_def)

lemma trim_left_to_lower: "trim_left (to_lower s) = to_lower (trim_left s)"
proof (induction s rule: trim_left.induct)
  case (1 s)
  have drop: "drop n (to_lower s) = to_lower (drop n s)" for n
    by (simp add: to_lower_def drop_map)
  show ?case
    using 1 by (subst (1 2) trim_left.simps) (simp add: drop)
qed

lemma trim_rev_to_lower: "trim_rev (to_lower s) = to_lower (trim_rev s)"
proof (induction s rule: trim_rev.induct)
  case (1 s)
  have drop: "drop n (to_lower s) = to_lower (drop n s)" for n
    by (simp add: to_lower_def drop_map)
  show ?case
    using 1 by (subst (1 2) trim_rev.simps) (simp add: drop)
qed

lemma trim_to_lower: "trim_space (to_lower s) = to_lower (trim_space s)"
proof -
  have rev: "rev (to_lower t) = to_lower (rev t)" for t
    by (simp add: to_lower_def rev_map)
  show ?thesis
    by (simp add: trim_space_def trim_right_def trim_left_to_lower rev trim_rev_to_lower)
qed

section \<open>First non-empty value\<close>

text \<open>
  The variadic helper of packages \<open>session\<close>, \<open>engine\<close> and \<open>gateway\<close>: the first value
  that is not blank, trimmed.
\<close>

fun first_non_empty_string :: "string list \<Rightarrow> string" where
  "first_non_empty_string [] = []"
| "first_non_empty_string (v # vs) =
     (if trim_space v \<noteq> [] then trim_space v else first_non_empty_string vs)"

lemma first_non_empty_trimmed [simp]:
  "trim_space (first_non_empty_string vs) = first_non_empty_string vs"
  by (induction vs) auto

lemma first_non_empty_Nil_iff:
  "first_non_empty_string vs = [] \<longleftrightarrow> (\<forall>v\<in>set vs. trim_space v = [])"
  by (induction vs) auto

section \<open>Decimal numbers\<close>

definition digit :: "nat \<Rightarrow> char" where
  "digit d = char_of (48 + d)"

function digits :: "nat \<Rightarrow> string" where
  "digits n = (if n < 10 then [digit n] else digits (n div 10) @ [digit (n mod 10)])"
  by pat_completeness auto
termination
  by (relation "measure id") auto

declare digits.simps [simp del]

lemma digit_lits [go_simps]:
  "digit 0 = CHR ''0''" "digit 1 = CHR ''1''" "digit (Suc 0) = CHR ''1''" "digit 2 = CHR ''2''"
  "digit 3 = CHR ''3''" "digit 4 = CHR ''4''" "digit 5 = CHR ''5''" "digit 6 = CHR ''6''"
  "digit 7 = CHR ''7''" "digit 8 = CHR ''8''" "digit 9 = CHR ''9''"
  by code_simp+

text \<open>\<open>fmt.Sprintf("%d", n)\<close> for \<open>n \<ge> 0\<close>, and the value of a digit string.\<close>

fun val_of :: "string \<Rightarrow> nat" where
  "val_of s = foldl (\<lambda>n c. 10 * n + (byte c - 48)) 0 s"

lemma byte_digit: "d < 10 \<Longrightarrow> byte (digit d) = 48 + d"
  by (simp add: byte_def digit_def)

lemma val_of_digits: "val_of (digits n) = n"
proof (induction n rule: digits.induct)
  case (1 n)
  show ?case
  proof (cases "n < 10")
    case True
    then show ?thesis by (simp add: digits.simps [of n] byte_digit)
  next
    case False
    with 1 have "val_of (digits (n div 10)) = n div 10" by simp
    with False show ?thesis by (simp add: digits.simps [of n] byte_digit)
  qed
qed

lemma digits_inj: "digits m = digits n \<longleftrightarrow> m = n"
  by (metis val_of_digits)

lemma digits_chars: "c \<in> set (digits n) \<Longrightarrow> 48 \<le> byte c \<and> byte c \<le> 57"
proof (induction n rule: digits.induct)
  case (1 n)
  then show ?case
    by (cases "n < 10") (auto simp: digits.simps [of n] byte_digit)
qed

lemma length_digits: "n < 10 ^ k \<Longrightarrow> 0 < k \<Longrightarrow> length (digits n) \<le> k"
proof (induction n arbitrary: k rule: digits.induct)
  case (1 n)
  show ?case
  proof (cases "n < 10")
    case True
    with 1 show ?thesis by (simp add: digits.simps [of n])
  next
    case False
    then obtain j where j: "k = Suc j" "0 < j"
      using 1 by (cases k; cases "k = 1") auto
    with 1 have "n div 10 < 10 ^ j" by (simp add: less_mult_imp_div_less)
    with False 1 j have "length (digits (n div 10)) \<le> j" by blast
    with False j show ?thesis by (simp add: digits.simps [of n])
  qed
qed

end
