(* ===== verification/Protocol.thy ===== *)
theory Protocol
  imports GoStrings
begin

text \<open>
  The wire events of \<open>protocol/event.go\<close>: the runtime metadata every event carries and how two
  of them merge, the event kinds as one datatype, and the operations that dispatch on the Go type
  of an event (\<open>ApplyRuntimeMeta\<close>, \<open>ApplyEventCursor\<close>, \<open>EventCursorFromEvent\<close>, \<open>TopicOf\<close>,
  \<open>SessionIDOf\<close>, \<open>executionIDOf\<close>). An embedded struct is a record extension. The event kinds
  whose bodies no modelled operation reads share the constructor \<open>EvResult\<close>, which keeps their
  embedded \<open>Event\<close> and their kind.
\<close>

section \<open>Runtime metadata\<close>

record runtime_meta =
  m_source :: string
  m_skill_name :: string
  m_target :: string
  m_target_type :: string
  m_target_path :: string
  m_result_view :: string
  m_resume_session_id :: string
  m_execution_id :: string
  m_group_id :: string
  m_group_title :: string
  m_context_id :: string
  m_context_title :: string
  m_target_text :: string
  m_command :: string
  m_engine :: string
  m_model :: string
  m_reasoning_effort :: string
  m_cwd :: string
  m_permission_mode :: string
  m_permission_request_id :: string
  m_claude_session_uuid :: string
  m_claude_lifecycle :: string
  m_blocking_kind :: string

definition empty_meta :: runtime_meta where
  "empty_meta = \<lparr>
    m_source = [],
    m_skill_name = [],
    m_target = [],
    m_target_type = [],
    m_target_path = [],
    m_result_view = [],
    m_resume_session_id = [],
    m_execution_id = [],
    m_group_id = [],
    m_group_title = [],
    m_context_id = [],
    m_context_title = [],
    m_target_text = [],
    m_command = [],
    m_engine = [],
    m_model = [],
    m_reasoning_effort = [],
    m_cwd = [],
    m_permission_mode = [],
    m_permission_request_id = [],
    m_claude_session_uuid = [],
    m_claude_lifecycle = [],
    m_blocking_kind = []\<rparr>"

text \<open>One \<open>if overlay.F != "" { merged.F = overlay.F }\<close> of \<open>MergeRuntimeMeta\<close>.\<close>

definition overlay_str :: "string \<Rightarrow> string \<Rightarrow> string" where
  "overlay_str base over = (if over \<noteq> [] then over else base)"

definition merge_runtime_meta :: "runtime_meta \<Rightarrow> runtime_meta \<Rightarrow> runtime_meta" where
  "merge_runtime_meta base over = \<lparr>
    m_source = overlay_str (m_source base) (m_source over),
    m_skill_name = overlay_str (m_skill_name base) (m_skill_name over),
    m_target = overlay_str (m_target base) (m_target over),
    m_target_type = overlay_str (m_target_type base) (m_target_type over),
    m_target_path = overlay_str (m_target_path base) (m_target_path over),
    m_result_view = overlay_str (m_result_view base) (m_result_view over),
    m_resume_session_id = overlay_str (m_resume_session_id base) (m_resume_session_id over),
    m_execution_id = overlay_str (m_execution_id base) (m_execution_id over),
    m_group_id = overlay_str (m_group_id base) (m_group_id over),
    m_group_title = overlay_str (m_group_title base) (m_group_title over),
    m_context_id = overlay_str (m_context_id base) (m_context_id over),
    m_context_title = overlay_str (m_context_title base) (m_context_title over),
    m_target_text = overlay_str (m_target_text base) (m_target_text over),
    m_command = overlay_str (m_command base) (m_command over),
    m_engine = overlay_str (m_engine base) (m_engine over),
    m_model = overlay_str (m_model base) (m_model over),
    m_reasoning_effort = overlay_str (m_reasoning_effort base) (m_reasoning_effort over),
    m_cwd = overlay_str (m_cwd base) (m_cwd over),
    m_permission_mode = overlay_str (m_permission_mode base) (m_permission_mode over),
    m_permission_request_id = overlay_str (m_permission_request_id base) (m_permission_request_id over),
    m_claude_session_uuid = overlay_str (m_claude_session_uuid base) (m_claude_session_uuid over),
    m_claude_lifecycle = overlay_str (m_claude_lifecycle base) (m_claude_lifecycle over),
    m_blocking_kind = overlay_str (m_blocking_kind base) (m_blocking_kind over)\<rparr>"

lemma overlay_str_simps [simp]:
  "overlay_str b [] = b"
  "overlay_str [] x = x"
  "overlay_str b b = b"
  "overlay_str b (c # x) = c # x"
  by (simp_all add: overlay_str_def)

lemma overlay_str_assoc: "overlay_str (overlay_str a b) c = overlay_str a (overlay_str b c)"
  by (simp add: overlay_str_def)

text \<open>Merging is a monoid with the empty metadata as its unit.\<close>

interpretation meta: monoid merge_runtime_meta empty_meta
  by unfold_locales (simp_all add: merge_runtime_meta_def empty_meta_def overlay_str_assoc)

lemma merge_runtime_meta_sel [simp]:
  "m_source (merge_runtime_meta b x) = overlay_str (m_source b) (m_source x)"
  "m_skill_name (merge_runtime_meta b x) = overlay_str (m_skill_name b) (m_skill_name x)"
  "m_target (merge_runtime_meta b x) = overlay_str (m_target b) (m_target x)"
  "m_target_type (merge_runtime_meta b x) = overlay_str (m_target_type b) (m_target_type x)"
  "m_target_path (merge_runtime_meta b x) = overlay_str (m_target_path b) (m_target_path x)"
  "m_result_view (merge_runtime_meta b x) = overlay_str (m_result_view b) (m_result_view x)"
  "m_resume_session_id (merge_runtime_meta b x) = overlay_str (m_resume_session_id b) (m_resume_session_id x)"
  "m_execution_id (merge_runtime_meta b x) = overlay_str (m_execution_id b) (m_execution_id x)"
  "m_group_id (merge_runtime_meta b x) = overlay_str (m_group_id b) (m_group_id x)"
  "m_group_title (merge_runtime_meta b x) = overlay_str (m_group_title b) (m_group_title x)"
  "m_context_id (merge_runtime_meta b x) = overlay_str (m_context_id b) (m_context_id x)"
  "m_context_title (merge_runtime_meta b x) = overlay_str (m_context_title b) (m_context_title x)"
  "m_target_text (merge_runtime_meta b x) = overlay_str (m_target_text b) (m_target_text x)"
  "m_command (merge_runtime_meta b x) = overlay_str (m_command b) (m_command x)"
  "m_engine (merge_runtime_meta b x) = overlay_str (m_engine b) (m_engine x)"
  "m_model (merge_runtime_meta b x) = overlay_str (m_model b) (m_model x)"
  "m_reasoning_effort (merge_runtime_meta b x) = overlay_str (m_reasoning_effort b) (m_reasoning_effort x)"
  "m_cwd (merge_runtime_meta b x) = overlay_str (m_cwd b) (m_cwd x)"
  "m_permission_mode (merge_runtime_meta b x) = overlay_str (m_permission_mode b) (m_permission_mode x)"
  "m_permission_request_id (merge_runtime_meta b x) = overlay_str (m_permission_request_id b) (m_permission_request_id x)"
  "m_claude_session_uuid (merge_runtime_meta b x) = overlay_str (m_claude_session_uuid b) (m_claude_session_uuid x)"
  "m_claude_lifecycle (merge_runtime_meta b x) = overlay_str (m_claude_lifecycle b) (m_claude_lifecycle x)"
  "m_blocking_kind (merge_runtime_meta b x) = overlay_str (m_blocking_kind b) (m_blocking_kind x)"
  by (simp_all add: merge_runtime_meta_def)

lemma empty_meta_sel [simp]:
  "m_source empty_meta = []"
  "m_skill_name empty_meta = []"
  "m_target empty_meta = []"
  "m_target_type empty_meta = []"
  "m_target_path empty_meta = []"
  "m_result_view empty_meta = []"
  "m_resume_session_id empty_meta = []"
  "m_execution_id empty_meta = []"
  "m_group_id empty_meta = []"
  "m_group_title empty_meta = []"
  "m_context_id empty_meta = []"
  "m_context_title empty_meta = []"
  "m_target_text empty_meta = []"
  "m_command empty_meta = []"
  "m_engine empty_meta = []"
  "m_model empty_meta = []"
  "m_reasoning_effort empty_meta = []"
  "m_cwd empty_meta = []"
  "m_permission_mode empty_meta = []"
  "m_permission_request_id empty_meta = []"
  "m_claude_session_uuid empty_meta = []"
  "m_claude_lifecycle empty_meta = []"
  "m_blocking_kind empty_meta = []"
  by (simp_all add: empty_meta_def)

section \<open>Events\<close>

record event =
  ev_type :: string
  ev_timestamp :: time
  ev_session_id :: string
  ev_cursor :: int
  ev_meta :: runtime_meta

record log_event = event +
  le_message :: string
  le_stream :: string
  le_phase :: string
  le_exit_code :: "int option"

record progress_event = event +
  pe_message :: string
  pe_percent :: int

record error_event = event +
  ee_message :: string
  ee_stack :: string
  ee_code :: string
  ee_target_path :: string
  ee_step :: string
  ee_command :: string

record client_action_ack_event = event +
  ca_action :: string
  ca_client_action_id :: string
  ca_status :: string
  ca_duplicate :: bool

record prompt_request_event = event +
  pr_message :: string
  pr_options :: "string list"

record interaction_action =
  ia_id :: string
  ia_label :: string
  ia_variant :: string
  ia_value :: string
  ia_decision :: string
  ia_submit_mode :: string
  ia_needs_input :: bool
  ia_destructive :: bool

record interaction_request_event = event +
  ir_kind :: string
  ir_title :: string
  ir_message :: string
  ir_options :: "string list"
  ir_actions :: "interaction_action list"
  ir_context_id :: string
  ir_context_title :: string
  ir_target_path :: string
  ir_execution_id :: string
  ir_group_id :: string
  ir_group_title :: string
  ir_resume_session_id :: string
  ir_permission_mode :: string
  ir_input_label :: string
  ir_input_placeholder :: string

record session_state_event = event +
  ss_state :: string
  ss_message :: string

record agent_state_event = event +
  as_state :: string
  as_message :: string
  as_await_input :: bool
  as_command :: string
  as_step :: string
  as_tool :: string

record ai_status_event = event +
  ai_visible :: bool
  ai_label :: string
  ai_phase :: string

record runtime_phase_event = event +
  rp_phase :: string
  rp_kind :: string
  rp_message :: string

record task_snapshot_event = event +
  ts_state :: string
  ts_message :: string
  ts_runtime_alive :: bool
  ts_await_input :: bool
  ts_command :: string
  ts_step :: string
  ts_tool :: string
  ts_latest_cursor :: int
  ts_last_output_at :: time
  ts_syncing :: bool

record step_update_event = event +
  su_message :: string
  su_status :: string
  su_target :: string
  su_tool :: string
  su_command :: string

record file_diff_event = event +
  fd_path :: string
  fd_title :: string
  fd_diff :: string
  fd_lang :: string

datatype result_kind =
    FSListResult | FSReadResult | SessionCreated | SessionListResult | SessionHistory
  | SessionDelta | SessionResumeResult | SessionResumeNotice | ReviewState | SkillCatalogResult
  | MemoryListResult | CatalogAuthoringResult | SessionContextResult | PermissionRuleListResult
  | PermissionAutoApplied | SkillSyncResult | CatalogSyncStatus | CatalogSyncResult
  | RuntimeInfoResult | RuntimeProcessListResult | RuntimeProcessLogResult
  | ADBDevicesResult | ADBStreamState | ADBFrame | ADBWebRTCAnswer | ADBWebRTCState

text \<open>
  A value of Go type \<open>any\<close> that is not nil: an event of one of the kinds, or a value of some other
  type, known by the name of its type only.
\<close>

datatype payload =
    EvEvent event
  | EvLog log_event
  | EvProgress progress_event
  | EvError error_event
  | EvAck client_action_ack_event
  | EvPrompt prompt_request_event
  | EvInteraction interaction_request_event
  | EvSessionState session_state_event
  | EvAgentState agent_state_event
  | EvAIStatus ai_status_event
  | EvRuntimePhase runtime_phase_event
  | EvTaskSnapshot task_snapshot_event
  | EvStepUpdate step_update_event
  | EvFileDiff file_diff_event
  | EvResult result_kind event
  | EvForeign string

definition is_adb :: "result_kind \<Rightarrow> bool" where
  "is_adb k \<longleftrightarrow> k \<in> {ADBDevicesResult, ADBStreamState, ADBFrame, ADBWebRTCAnswer, ADBWebRTCState}"

text \<open>The embedded \<open>Event\<close>; none for a foreign value.\<close>

fun base_event :: "payload \<Rightarrow> event option" where
  "base_event (EvEvent e) = Some e"
| "base_event (EvLog e) = Some (event.truncate e)"
| "base_event (EvProgress e) = Some (event.truncate e)"
| "base_event (EvError e) = Some (event.truncate e)"
| "base_event (EvAck e) = Some (event.truncate e)"
| "base_event (EvPrompt e) = Some (event.truncate e)"
| "base_event (EvInteraction e) = Some (event.truncate e)"
| "base_event (EvSessionState e) = Some (event.truncate e)"
| "base_event (EvAgentState e) = Some (event.truncate e)"
| "base_event (EvAIStatus e) = Some (event.truncate e)"
| "base_event (EvRuntimePhase e) = Some (event.truncate e)"
| "base_event (EvTaskSnapshot e) = Some (event.truncate e)"
| "base_event (EvStepUpdate e) = Some (event.truncate e)"
| "base_event (EvFileDiff e) = Some (event.truncate e)"
| "base_event (EvResult k e) = Some e"
| "base_event (EvForeign n) = None"

section \<open>Operations that dispatch on the event type\<close>

text \<open>\<open>ApplyRuntimeMeta\<close>; acknowledgements and ADB events fall into its default branch.\<close>

fun apply_runtime_meta :: "payload \<Rightarrow> runtime_meta \<Rightarrow> payload" where
  "apply_runtime_meta (EvEvent e) m = EvEvent (e\<lparr>ev_meta := merge_runtime_meta (ev_meta e) m\<rparr>)"
| "apply_runtime_meta (EvLog e) m = EvLog (e\<lparr>ev_meta := merge_runtime_meta (ev_meta e) m\<rparr>)"
| "apply_runtime_meta (EvProgress e) m = EvProgress (e\<lparr>ev_meta := merge_runtime_meta (ev_meta e) m\<rparr>)"
| "apply_runtime_meta (EvError e) m = EvError (e\<lparr>ev_meta := merge_runtime_meta (ev_meta e) m\<rparr>)"
| "apply_runtime_meta (EvInteraction e) m = EvInteraction (e\<lparr>ev_meta := merge_runtime_meta (ev_meta e) m\<rparr>)"
| "apply_runtime_meta (EvPrompt e) m = EvPrompt (e\<lparr>ev_meta := merge_runtime_meta (ev_meta e) m\<rparr>)"
| "apply_runtime_meta (EvSessionState e) m = EvSessionState (e\<lparr>ev_meta := merge_runtime_meta (ev_meta e) m\<rparr>)"
| "apply_runtime_meta (EvAgentState e) m = EvAgentState (e\<lparr>ev_meta := merge_runtime_meta (ev_meta e) m\<rparr>)"
| "apply_runtime_meta (EvAIStatus e) m = EvAIStatus (e\<lparr>ev_meta := merge_runtime_meta (ev_meta e) m\<rparr>)"
| "apply_runtime_meta (EvRuntimePhase e) m = EvRuntimePhase (e\<lparr>ev_meta := merge_runtime_meta (ev_meta e) m\<rparr>)"
| "apply_runtime_meta (EvTaskSnapshot e) m = EvTaskSnapshot (e\<lparr>ev_meta := merge_runtime_meta (ev_meta e) m\<rparr>)"
| "apply_runtime_meta (EvStepUpdate e) m = EvStepUpdate (e\<lparr>ev_meta := merge_runtime_meta (ev_meta e) m\<rparr>)"
| "apply_runtime_meta (EvFileDiff e) m = EvFileDiff (e\<lparr>ev_meta := merge_runtime_meta (ev_meta e) m\<rparr>)"
| "apply_runtime_meta (EvAck e) m = EvAck e"
| "apply_runtime_meta (EvResult k e) m =
     EvResult k (if is_adb k then e else e\<lparr>ev_meta := merge_runtime_meta (ev_meta e) m\<rparr>)"
| "apply_runtime_meta (EvForeign n) m = EvForeign n"

text \<open>The type switch of \<open>ApplyEventCursor\<close>, and its guard.\<close>

fun stamp_cursor :: "payload \<Rightarrow> int \<Rightarrow> payload" where
  "stamp_cursor (EvEvent e) c = EvEvent (e\<lparr>ev_cursor := c\<rparr>)"
| "stamp_cursor (EvLog e) c = EvLog (e\<lparr>ev_cursor := c\<rparr>)"
| "stamp_cursor (EvProgress e) c = EvProgress (e\<lparr>ev_cursor := c\<rparr>)"
| "stamp_cursor (EvError e) c = EvError (e\<lparr>ev_cursor := c\<rparr>)"
| "stamp_cursor (EvInteraction e) c = EvInteraction (e\<lparr>ev_cursor := c\<rparr>)"
| "stamp_cursor (EvPrompt e) c = EvPrompt (e\<lparr>ev_cursor := c\<rparr>)"
| "stamp_cursor (EvSessionState e) c = EvSessionState (e\<lparr>ev_cursor := c\<rparr>)"
| "stamp_cursor (EvAgentState e) c = EvAgentState (e\<lparr>ev_cursor := c\<rparr>)"
| "stamp_cursor (EvAIStatus e) c = EvAIStatus (e\<lparr>ev_cursor := c\<rparr>)"
| "stamp_cursor (EvRuntimePhase e) c = EvRuntimePhase (e\<lparr>ev_cursor := c\<rparr>)"
| "stamp_cursor (EvTaskSnapshot e) c = EvTaskSnapshot (e\<lparr>ev_cursor := c\<rparr>)"
| "stamp_cursor (EvStepUpdate e) c = EvStepUpdate (e\<lparr>ev_cursor := c\<rparr>)"
| "stamp_cursor (EvFileDiff e) c = EvFileDiff (e\<lparr>ev_cursor := c\<rparr>)"
| "stamp_cursor (EvAck e) c = EvAck e"
| "stamp_cursor (EvResult k e) c = EvResult k (if is_adb k then e else e\<lparr>ev_cursor := c\<rparr>)"
| "stamp_cursor (EvForeign n) c = EvForeign n"

definition apply_event_cursor :: "payload \<Rightarrow> int \<Rightarrow> payload" where
  "apply_event_cursor p c = (if c \<le> 0 then p else stamp_cursor p c)"

text \<open>
  \<open>EventCursorFromEvent\<close> of \<open>kernel/registry.go\<close>. Its switch has no case for task snapshots and
  session deltas, which \<open>ApplyEventCursor\<close> does stamp.
\<close>

fun event_cursor_from_event :: "payload \<Rightarrow> int" where
  "event_cursor_from_event (EvEvent e) = ev_cursor e"
| "event_cursor_from_event (EvLog e) = ev_cursor e"
| "event_cursor_from_event (EvProgress e) = ev_cursor e"
| "event_cursor_from_event (EvError e) = ev_cursor e"
| "event_cursor_from_event (EvInteraction e) = ev_cursor e"
| "event_cursor_from_event (EvPrompt e) = ev_cursor e"
| "event_cursor_from_event (EvSessionState e) = ev_cursor e"
| "event_cursor_from_event (EvAgentState e) = ev_cursor e"
| "event_cursor_from_event (EvAIStatus e) = ev_cursor e"
| "event_cursor_from_event (EvRuntimePhase e) = ev_cursor e"
| "event_cursor_from_event (EvStepUpdate e) = ev_cursor e"
| "event_cursor_from_event (EvFileDiff e) = ev_cursor e"
| "event_cursor_from_event (EvResult k e) = (if is_adb k \<or> k = SessionDelta then 0 else ev_cursor e)"
| "event_cursor_from_event _ = 0"

text \<open>\<open>TopicOf\<close> of \<open>kernel/eventbus/topic.go\<close>: the \<open>Type\<close> field, else the name of the Go type.\<close>

fun topic_of :: "payload option \<Rightarrow> string" where
  "topic_of None = []"
| "topic_of (Some (EvForeign n)) = n"
| "topic_of (Some p) = (case base_event p of Some e \<Rightarrow> ev_type e | None \<Rightarrow> [])"

text \<open>\<open>SessionIDOf\<close>: its switch leaves out the ADB events.\<close>

fun session_id_of :: "payload option \<Rightarrow> string" where
  "session_id_of None = []"
| "session_id_of (Some (EvResult k e)) = (if is_adb k then [] else ev_session_id e)"
| "session_id_of (Some p) = (case base_event p of Some e \<Rightarrow> ev_session_id e | None \<Rightarrow> [])"

text \<open>
  \<open>executionIDOf\<close> of the watchdog. An interaction request has a field \<open>ExecutionID\<close> of its own,
  which shadows the one of its metadata.
\<close>

fun execution_id_of :: "payload option \<Rightarrow> string" where
  "execution_id_of (Some (EvInteraction e)) = ir_execution_id e"
| "execution_id_of (Some (EvLog e)) = m_execution_id (ev_meta e)"
| "execution_id_of (Some (EvProgress e)) = m_execution_id (ev_meta e)"
| "execution_id_of (Some (EvError e)) = m_execution_id (ev_meta e)"
| "execution_id_of (Some (EvAgentState e)) = m_execution_id (ev_meta e)"
| "execution_id_of (Some (EvAIStatus e)) = m_execution_id (ev_meta e)"
| "execution_id_of (Some (EvRuntimePhase e)) = m_execution_id (ev_meta e)"
| "execution_id_of (Some (EvStepUpdate e)) = m_execution_id (ev_meta e)"
| "execution_id_of (Some (EvFileDiff e)) = m_execution_id (ev_meta e)"
| "execution_id_of (Some (EvPrompt e)) = m_execution_id (ev_meta e)"
| "execution_id_of _ = []"

text \<open>The events whose cursor survives a stamp followed by a read.\<close>

definition cursor_readable :: "payload \<Rightarrow> bool" where
  "cursor_readable p \<longleftrightarrow> (case p of
      EvAck _ \<Rightarrow> False | EvTaskSnapshot _ \<Rightarrow> False | EvForeign _ \<Rightarrow> False
    | EvResult k _ \<Rightarrow> \<not> is_adb k \<and> k \<noteq> SessionDelta | _ \<Rightarrow> True)"

lemma cursor_of_stamp:
  "0 < c \<Longrightarrow> event_cursor_from_event (apply_event_cursor p c) = (if cursor_readable p then c else 0)"
  by (cases p) (auto simp: apply_event_cursor_def cursor_readable_def is_adb_def)

lemma cursor_readable_stamp [simp]: "cursor_readable (apply_event_cursor p c) = cursor_readable p"
  by (cases p) (auto simp: apply_event_cursor_def cursor_readable_def)

lemma topic_of_stamp [simp]: "topic_of (Some (apply_event_cursor p c)) = topic_of (Some p)"
  by (cases p) (auto simp: apply_event_cursor_def event.defs)

lemma execution_id_of_stamp [simp]:
  "execution_id_of (Some (apply_event_cursor p c)) = execution_id_of (Some p)"
  by (cases p) (auto simp: apply_event_cursor_def)

section \<open>Constructors\<close>

definition new_base_event :: "time \<Rightarrow> string \<Rightarrow> string \<Rightarrow> event" where
  "new_base_event now typ sid =
     \<lparr>ev_type = typ, ev_timestamp = now, ev_session_id = sid, ev_cursor = 0, ev_meta = empty_meta\<rparr>"

definition new_error_event :: "time \<Rightarrow> string \<Rightarrow> string \<Rightarrow> string \<Rightarrow> error_event" where
  "new_error_event now sid message stack =
     event.extend (new_base_event now ''error'' sid)
       (error_event.fields message stack [] [] [] [])"

definition new_prompt_request_event ::
  "time \<Rightarrow> string \<Rightarrow> string \<Rightarrow> string list \<Rightarrow> prompt_request_event" where
  "new_prompt_request_event now sid message options =
     event.extend (new_base_event now ''prompt_request'' sid)
       (prompt_request_event.fields message options)"

definition new_agent_state_event ::
  "time \<Rightarrow> string \<Rightarrow> string \<Rightarrow> string \<Rightarrow> bool \<Rightarrow> string \<Rightarrow> string \<Rightarrow> string \<Rightarrow> agent_state_event" where
  "new_agent_state_event now sid state message await command step tool =
     event.extend (new_base_event now ''agent_state'' sid)
       (agent_state_event.fields state message await command step tool)"

section \<open>Properties\<close>

text \<open>
  Merging runtime metadata is a monoid: merging nothing changes nothing on either side, and
  the way a chain of merges is bracketed does not matter.
\<close>

theorem merge_runtime_meta_monoid:
  "merge_runtime_meta a empty_meta = a \<and> merge_runtime_meta empty_meta a = a \<and>
   merge_runtime_meta (merge_runtime_meta a b) c = merge_runtime_meta a (merge_runtime_meta b c)"
  by (simp add: meta.assoc)

text \<open>
  A positive cursor stamped on an event is read back from it, except on acknowledgements, task
  snapshots, session deltas, ADB events and foreign values, on which 0 is read; stamping changes
  neither the topic nor the execution of the event.
\<close>

theorem cursor_stamp_read:
  assumes "0 < c"
  shows "event_cursor_from_event (apply_event_cursor p c) = (if cursor_readable p then c else 0) \<and>
    topic_of (Some (apply_event_cursor p c)) = topic_of (Some p) \<and>
    execution_id_of (Some (apply_event_cursor p c)) = execution_id_of (Some p)"
  using cursor_of_stamp [OF assms] by simp

theorem cursor_stamp_read_witness:
  "event_cursor_from_event (apply_event_cursor (EvError (new_error_event 5 ''s'' ''m'' [])) 3) = 3 \<and>
   event_cursor_from_event (apply_event_cursor (EvResult SessionDelta (new_base_event 5 ''session_delta'' ''s'')) 3) = 0"
  using cursor_stamp_read [of 3 "EvError (new_error_event 5 ''s'' ''m'' [])"]
    cursor_stamp_read [of 3 "EvResult SessionDelta (new_base_event 5 ''session_delta'' ''s'')"]
  by (simp add: cursor_readable_def)

end
