(* ===== verification/EventBus.thy ===== *)
theory EventBus
  imports Protocol
begin

text \<open>
  The in-memory event bus (\<open>kernel/eventbus\<close>). The state holds the buses's channels as queues and
  one record per subscription object; every atomic action of a publisher, of the dispatcher
  goroutine, of a subscriber goroutine or of \<open>Close\<close> is one function, and \<open>bus_step\<close> is the
  transition system they form. The fields whose names end in \<open>_h\<close> are history: no action reads them.
\<close>

section \<open>Envelopes and filters\<close>

type_synonym source = string

abbreviation source_user :: source where "source_user \<equiv> ''user''"
abbreviation source_session :: source where "source_session \<equiv> ''session''"
abbreviation source_kernel :: source where "source_kernel \<equiv> ''kernel''"
abbreviation source_external :: source where "source_external \<equiv> ''external''"

record envelope =
  en_cursor :: int
  en_source :: source
  en_topic :: string
  en_session_id :: string
  en_timestamp :: time
  en_payload :: "payload option"

record bus_filter =
  bf_sources :: "source list"
  bf_topics :: "string list"
  bf_session_ids :: "string list"

fun contains_string :: "string list \<Rightarrow> string \<Rightarrow> bool" where
  "contains_string [] x = False"
| "contains_string (v # vs) x = (if v = x then True else contains_string vs x)"

definition filter_match :: "bus_filter \<Rightarrow> envelope \<Rightarrow> bool" where
  "filter_match f env =
     (if bf_sources f \<noteq> [] \<and> \<not> contains_string (bf_sources f) (en_source env) then False
      else if bf_topics f \<noteq> [] \<and> \<not> contains_string (bf_topics f) (en_topic env) then False
      else if bf_session_ids f \<noteq> [] \<and> \<not> contains_string (bf_session_ids f) (en_session_id env) then False
      else True)"

lemma contains_string_iff [simp]: "contains_string xs x \<longleftrightarrow> x \<in> set xs"
  by (induction xs) auto

section \<open>Subscription identifiers\<close>

text \<open>
  \<open>itoa\<close> writes the digits of a \<open>uint64\<close> from the end of a buffer of 20 bytes: \<open>i\<close> is the index
  of the first byte written, and writing below index 0 panics (\<^const>\<open>None\<close>).
\<close>

fun itoa_loop :: "nat \<Rightarrow> string \<Rightarrow> nat \<Rightarrow> string option" where
  "itoa_loop n buf i =
     (if n = 0 then Some buf
      else if i = 0 then None
      else itoa_loop (n div 10) (digit (n mod 10) # buf) (i - 1))"

declare itoa_loop.simps [simp del]

definition itoa :: "nat \<Rightarrow> string option" where
  "itoa n = (if n = 0 then Some ''0'' else itoa_loop n [] 20)"

lemma itoa_loop_digits:
  "0 < n \<Longrightarrow> length (digits n) \<le> i \<Longrightarrow> itoa_loop n buf i = Some (digits n @ buf)"
proof (induction n buf i rule: itoa_loop.induct)
  case (1 n buf i)
  have i: "i \<noteq> 0"
    using 1 by (cases "n < 10") (auto simp: digits.simps [of n])
  show ?case
  proof (cases "n < 10")
    case True
    with 1 i show ?thesis
      by (simp add: itoa_loop.simps [of n] itoa_loop.simps [of 0] digits.simps [of n])
  next
    case False
    with 1 i have "itoa_loop (n div 10) (digit (n mod 10) # buf) (i - 1) =
        Some (digits (n div 10) @ digit (n mod 10) # buf)"
      by (simp add: digits.simps [of n])
    with False i show ?thesis
      by (simp add: itoa_loop.simps [of n] digits.simps [of n])
  qed
qed

lemma itoa_digits: "n < 2 ^ 64 \<Longrightarrow> itoa n = Some (digits n)"
  using length_digits [of n 20]
  by (auto simp: itoa_def itoa_loop_digits digits.simps [of 0] digit_lits)

definition sub_id :: "string \<Rightarrow> nat \<Rightarrow> string option" where
  "sub_id name n = map_option (\<lambda>d. (if name = [] then ''sub'' else name) @ ''#'' @ d) (itoa n)"

lemma hash_notin_digits: "CHR ''#'' \<notin> set (digits n)"
  using digits_chars [of "CHR ''#''" n] by (auto simp: byte_def)

lemma hash_split:
  "CHR ''#'' \<notin> set v \<Longrightarrow> CHR ''#'' \<notin> set v' \<Longrightarrow>
   u @ CHR ''#'' # v = u' @ CHR ''#'' # v' \<Longrightarrow> v = v'"
proof (induction u arbitrary: u')
  case Nil
  then show ?case by (cases u') auto
next
  case (Cons a u)
  then show ?case by (cases u') auto
qed

lemma sub_id_eq:
  "n < 2 ^ 64 \<Longrightarrow> sub_id a n = Some ((if a = [] then ''sub'' else a) @ CHR ''#'' # digits n)"
  by (simp add: sub_id_def itoa_digits)

lemma sub_id_inj:
  assumes "m < 2 ^ 64" "n < 2 ^ 64" "sub_id a m = sub_id b n"
  shows "m = n"
proof -
  let ?name = "\<lambda>x. if x = [] then ''sub'' else x"
  have "?name a @ CHR ''#'' # digits m = ?name b @ CHR ''#'' # digits n"
    using assms by (simp only: sub_id_eq option.inject)
  then have "digits m = digits n"
    by (rule hash_split [OF hash_notin_digits hash_notin_digits])
  then show ?thesis by (simp only: digits_inj)
qed

section \<open>State\<close>

record bus_options =
  bo_publish_buffer :: int
  bo_subscriber_buffer :: int
  bo_deliver_timeout :: duration

definition with_defaults :: "bus_options \<Rightarrow> bus_options" where
  "with_defaults opts = \<lparr>
     bo_publish_buffer = (if bo_publish_buffer opts \<le> 0 then 4096 else bo_publish_buffer opts),
     bo_subscriber_buffer = (if bo_subscriber_buffer opts \<le> 0 then 256 else bo_subscriber_buffer opts),
     bo_deliver_timeout =
       (if bo_deliver_timeout opts \<le> 0 then 50 * millisecond else bo_deliver_timeout opts)\<rparr>"

record subscription =
  sb_filter :: bus_filter
  sb_ch :: "envelope list"
  sb_stop :: bool
  sb_done :: bool
  sb_dropped :: nat
  sb_handled_h :: "envelope list"
  sb_offered_h :: nat
  sb_abandoned_h :: nat

datatype deliver_phase = Ready | Checked | Waiting

record bus =
  bus_opts :: bus_options
  bus_cursor :: int
  bus_objs :: "string \<rightharpoonup> subscription"
  bus_subs :: "string list"
  bus_stopping :: "string list"
  bus_seq :: nat
  bus_publishers :: "envelope list"
  bus_inbox :: "envelope list"
  bus_stopped :: bool
  bus_swapped :: bool
  bus_dispatching :: "(envelope \<times> string list \<times> deliver_phase) option"
  bus_dispatcher_done :: bool
  bus_dispatched_h :: "envelope list"
  bus_published_h :: nat
  bus_subscribed_h :: nat

definition new_bus :: "bus_options \<Rightarrow> bus" where
  "new_bus opts = \<lparr>
     bus_opts = with_defaults opts, bus_cursor = 0, bus_objs = Map.empty, bus_subs = [], bus_stopping = [],
     bus_seq = 0,
     bus_publishers = [], bus_inbox = [], bus_stopped = False, bus_swapped = False, bus_dispatching = None,
     bus_dispatcher_done = False, bus_dispatched_h = [], bus_published_h = 0, bus_subscribed_h = 0\<rparr>"

definition publish_cap :: "bus \<Rightarrow> nat" where
  "publish_cap b = nat (bo_publish_buffer (bus_opts b))"

definition subscriber_cap :: "bus \<Rightarrow> nat" where
  "subscriber_cap b = nat (bo_subscriber_buffer (bus_opts b))"

section \<open>Publishing\<close>

text \<open>
  \<open>Publish\<close> takes a cursor and then waits, with the other publishers, for room in the inbox or for
  the bus to stop: two atomic actions, between which other publishers may run.
\<close>

definition stamp_env :: "time \<Rightarrow> int \<Rightarrow> envelope \<Rightarrow> envelope" where
  "stamp_env now c env =
     env\<lparr>en_timestamp := (if is_zero (en_timestamp env) then now else en_timestamp env), en_cursor := c\<rparr>"

definition publish_begin :: "time \<Rightarrow> envelope \<Rightarrow> bus \<Rightarrow> bus" where
  "publish_begin now env b =
     (let c = wrap64 (bus_cursor b + 1)
      in b\<lparr>bus_cursor := c, bus_publishers := bus_publishers b @ [stamp_env now c env],
           bus_published_h := Suc (bus_published_h b)\<rparr>)"

definition publish_send :: "nat \<Rightarrow> bus \<Rightarrow> bus option" where
  "publish_send i b =
     (if i < length (bus_publishers b) \<and> length (bus_inbox b) < publish_cap b
      then Some (b\<lparr>bus_inbox := bus_inbox b @ [bus_publishers b ! i],
                   bus_publishers := remove_nth i (bus_publishers b)\<rparr>)
      else None)"

definition publish_abort :: "nat \<Rightarrow> bus \<Rightarrow> bus option" where
  "publish_abort i b =
     (if i < length (bus_publishers b) \<and> bus_stopped b
      then Some (b\<lparr>bus_publishers := remove_nth i (bus_publishers b)\<rparr>)
      else None)"

section \<open>Subscribing\<close>

definition new_subscription :: "bus_filter \<Rightarrow> subscription" where
  "new_subscription f = \<lparr>sb_filter = f, sb_ch = [], sb_stop = False, sb_done = False, sb_dropped = 0,
     sb_handled_h = [], sb_offered_h = 0, sb_abandoned_h = 0\<rparr>"

text \<open>\<open>Subscribe\<close>; a nil handler gets the no-op subscription and leaves the bus alone.\<close>

definition bus_subscribe :: "string \<Rightarrow> bus_filter \<Rightarrow> bool \<Rightarrow> bus \<Rightarrow> bus option" where
  "bus_subscribe name f handler_given b =
     (if \<not> handler_given then Some b
      else let n = wrap_u64 (Suc (bus_seq b)) in
        case sub_id name n of
          None \<Rightarrow> None
        | Some sid \<Rightarrow> Some (b\<lparr>bus_seq := n, bus_objs := (bus_objs b)(sid \<mapsto> new_subscription f),
              bus_subs := List.insert sid (bus_subs b),
              bus_subscribed_h := Suc (bus_subscribed_h b)\<rparr>))"

definition upd_sub :: "string \<Rightarrow> (subscription \<Rightarrow> subscription) \<Rightarrow> bus \<Rightarrow> bus" where
  "upd_sub sid g b = b\<lparr>bus_objs := (bus_objs b)(sid := map_option g (bus_objs b sid))\<rparr>"

text \<open>
  \<open>detach\<close> takes a subscription out of the registry under the mutex and then closes its \<open>stop\<close>
  channel: \<open>bus_stopping\<close> holds the subscriptions in between. \<open>Close\<close> runs once: it closes
  \<open>stopped\<close>, swaps the registry for an empty one under the mutex, and then shuts the subscriptions
  down one after the other.
\<close>

definition detach :: "string \<Rightarrow> bus \<Rightarrow> bus" where
  "detach sid b =
     (if sid \<in> set (bus_subs b)
      then b\<lparr>bus_subs := removeAll sid (bus_subs b), bus_stopping := bus_stopping b @ [sid]\<rparr>
      else b)"

definition shutdown :: "string \<Rightarrow> bus \<Rightarrow> bus option" where
  "shutdown sid b =
     (if sid \<in> set (bus_stopping b)
      then Some (upd_sub sid (\<lambda>s. s\<lparr>sb_stop := True\<rparr>)
                   (b\<lparr>bus_stopping := removeAll sid (bus_stopping b)\<rparr>))
      else None)"

definition bus_close :: "bus \<Rightarrow> bus" where
  "bus_close b = (if bus_stopped b then b else b\<lparr>bus_stopped := True\<rparr>)"

definition close_swap :: "bus \<Rightarrow> bus option" where
  "close_swap b =
     (if bus_stopped b \<and> \<not> bus_swapped b
      then Some (b\<lparr>bus_swapped := True, bus_subs := [], bus_stopping := bus_stopping b @ bus_subs b\<rparr>)
      else None)"

section \<open>Dispatching\<close>

text \<open>
  The dispatcher takes the next envelope and a snapshot of the subscriptions in some order; if there
  are none the loop turns around at once.
\<close>

definition dispatch_take :: "string list \<Rightarrow> bus \<Rightarrow> bus option" where
  "dispatch_take order b =
     (if bus_dispatching b = None \<and> \<not> bus_dispatcher_done b \<and>
         distinct order \<and> set order = set (bus_subs b)
      then case bus_inbox b of
          [] \<Rightarrow> None
        | env # rest \<Rightarrow> Some (b\<lparr>bus_inbox := rest, bus_dispatched_h := bus_dispatched_h b @ [env],
              bus_dispatching := (if order = [] then None else Some (env, order, Ready))\<rparr>)
      else None)"

definition dispatch_exit :: "bus \<Rightarrow> bus option" where
  "dispatch_exit b =
     (if bus_dispatching b = None \<and> \<not> bus_dispatcher_done b \<and> bus_stopped b
      then Some (b\<lparr>bus_dispatcher_done := True\<rparr>) else None)"

definition next_sub :: "envelope \<Rightarrow> string list \<Rightarrow> bus \<Rightarrow> bus" where
  "next_sub env rest b = b\<lparr>bus_dispatching := (if rest = [] then None else Some (env, rest, Ready))\<rparr>"

text \<open>
  One iteration of the loop over the snapshot: the filter, then the three selects of \<open>deliver\<close>.
\<close>

definition deliver_check :: "bus \<Rightarrow> bus option" where
  "deliver_check b = (case bus_dispatching b of
     Some (env, sid # rest, Ready) \<Rightarrow> (case bus_objs b sid of
         None \<Rightarrow> None
       | Some s \<Rightarrow> if \<not> filter_match (sb_filter s) env \<or> sb_stop s then Some (next_sub env rest b)
           else Some (upd_sub sid (\<lambda>s. s\<lparr>sb_offered_h := Suc (sb_offered_h s)\<rparr>)
                  (b\<lparr>bus_dispatching := Some (env, sid # rest, Checked)\<rparr>)))
   | _ \<Rightarrow> None)"

definition deliver_send :: "bus \<Rightarrow> bus option" where
  "deliver_send b = (case bus_dispatching b of
     Some (env, sid # rest, ph) \<Rightarrow> (case bus_objs b sid of
         None \<Rightarrow> None
       | Some s \<Rightarrow> if ph \<noteq> Ready \<and> length (sb_ch s) < subscriber_cap b
           then Some (upd_sub sid (\<lambda>s. s\<lparr>sb_ch := sb_ch s @ [env]\<rparr>) (next_sub env rest b))
           else None)
   | _ \<Rightarrow> None)"

definition deliver_full :: "bus \<Rightarrow> bus option" where
  "deliver_full b = (case bus_dispatching b of
     Some (env, sid # rest, Checked) \<Rightarrow> (case bus_objs b sid of
         None \<Rightarrow> None
       | Some s \<Rightarrow> if length (sb_ch s) < subscriber_cap b then None
           else Some (b\<lparr>bus_dispatching := Some (env, sid # rest, Waiting)\<rparr>))
   | _ \<Rightarrow> None)"

definition deliver_timeout :: "bus \<Rightarrow> bus option" where
  "deliver_timeout b = (case bus_dispatching b of
     Some (env, sid # rest, Waiting) \<Rightarrow>
       Some (upd_sub sid (\<lambda>s. s\<lparr>sb_dropped := Suc (sb_dropped s)\<rparr>) (next_sub env rest b))
   | _ \<Rightarrow> None)"

definition deliver_stopped :: "bus \<Rightarrow> bus option" where
  "deliver_stopped b = (case bus_dispatching b of
     Some (env, sid # rest, Waiting) \<Rightarrow> (case bus_objs b sid of
         None \<Rightarrow> None
       | Some s \<Rightarrow> if sb_stop s
           then Some (upd_sub sid (\<lambda>s. s\<lparr>sb_abandoned_h := Suc (sb_abandoned_h s)\<rparr>) (next_sub env rest b))
           else None)
   | _ \<Rightarrow> None)"

section \<open>Subscriber goroutines\<close>

text \<open>\<open>run\<close>: hand the oldest queued envelope to the handler, or return once stopped.\<close>

definition run_handle :: "string \<Rightarrow> bus \<Rightarrow> bus option" where
  "run_handle sid b = (case bus_objs b sid of
     None \<Rightarrow> None
   | Some s \<Rightarrow> (case sb_ch s of
       [] \<Rightarrow> None
     | env # rest \<Rightarrow> if sb_done s then None
         else Some (upd_sub sid (\<lambda>s. s\<lparr>sb_ch := rest, sb_handled_h := sb_handled_h s @ [env]\<rparr>) b)))"

definition run_exit :: "string \<Rightarrow> bus \<Rightarrow> bus option" where
  "run_exit sid b = (case bus_objs b sid of
     None \<Rightarrow> None
   | Some s \<Rightarrow> if sb_stop s \<and> \<not> sb_done s then Some (upd_sub sid (\<lambda>s. s\<lparr>sb_done := True\<rparr>) b) else None)"

section \<open>The transition system\<close>

datatype bus_action =
    PublishBegin time envelope
  | PublishSend nat
  | PublishAbort nat
  | Subscribe string bus_filter bool
  | CloseSub string
  | Shutdown string
  | CloseBus
  | CloseSwap
  | DispatchTake "string list"
  | DispatchExit
  | DeliverCheck
  | DeliverSend
  | DeliverFull
  | DeliverTimeout
  | DeliverStopped
  | RunHandle string
  | RunExit string

fun bus_step :: "bus_action \<Rightarrow> bus \<Rightarrow> bus option" where
  "bus_step (PublishBegin now env) b = Some (publish_begin now env b)"
| "bus_step (PublishSend i) b = publish_send i b"
| "bus_step (PublishAbort i) b = publish_abort i b"
| "bus_step (Subscribe name f h) b = bus_subscribe name f h b"
| "bus_step (CloseSub sid) b = Some (detach sid b)"
| "bus_step (Shutdown sid) b = shutdown sid b"
| "bus_step CloseBus b = Some (bus_close b)"
| "bus_step CloseSwap b = close_swap b"
| "bus_step (DispatchTake order) b = dispatch_take order b"
| "bus_step DispatchExit b = dispatch_exit b"
| "bus_step DeliverCheck b = deliver_check b"
| "bus_step DeliverSend b = deliver_send b"
| "bus_step DeliverFull b = deliver_full b"
| "bus_step DeliverTimeout b = deliver_timeout b"
| "bus_step DeliverStopped b = deliver_stopped b"
| "bus_step (RunHandle sid) b = run_handle sid b"
| "bus_step (RunExit sid) b = run_exit sid b"

inductive bus_reach :: "bus_options \<Rightarrow> bus \<Rightarrow> bool" for opts where
  bus_start: "bus_reach opts (new_bus opts)"
| bus_next: "bus_reach opts b \<Longrightarrow> bus_step a b = Some b' \<Longrightarrow> bus_reach opts b'"

fun bus_run :: "bus_action list \<Rightarrow> bus \<Rightarrow> bus option" where
  "bus_run [] b = Some b"
| "bus_run (a # as) b = Option.bind (bus_step a b) (bus_run as)"

lemma bus_run_reach: "bus_reach opts b \<Longrightarrow> bus_run as b = Some b' \<Longrightarrow> bus_reach opts b'"
  by (induction as arbitrary: b) (auto split: bind_splits intro: bus_next)

section \<open>What the auxiliary updates change\<close>

lemma upd_sub_sel [simp]:
  "bus_opts (upd_sub sid g b) = bus_opts b"
  "bus_cursor (upd_sub sid g b) = bus_cursor b"
  "bus_subs (upd_sub sid g b) = bus_subs b"
  "bus_stopping (upd_sub sid g b) = bus_stopping b"
  "bus_swapped (upd_sub sid g b) = bus_swapped b"
  "bus_seq (upd_sub sid g b) = bus_seq b"
  "bus_publishers (upd_sub sid g b) = bus_publishers b"
  "bus_inbox (upd_sub sid g b) = bus_inbox b"
  "bus_stopped (upd_sub sid g b) = bus_stopped b"
  "bus_dispatching (upd_sub sid g b) = bus_dispatching b"
  "bus_dispatcher_done (upd_sub sid g b) = bus_dispatcher_done b"
  "bus_dispatched_h (upd_sub sid g b) = bus_dispatched_h b"
  "bus_published_h (upd_sub sid g b) = bus_published_h b"
  "bus_subscribed_h (upd_sub sid g b) = bus_subscribed_h b"
  "bus_objs (upd_sub sid g b) = (bus_objs b)(sid := map_option g (bus_objs b sid))"
  by (simp_all add: upd_sub_def)

lemma next_sub_sel [simp]:
  "bus_opts (next_sub env rest b) = bus_opts b"
  "bus_cursor (next_sub env rest b) = bus_cursor b"
  "bus_subs (next_sub env rest b) = bus_subs b"
  "bus_stopping (next_sub env rest b) = bus_stopping b"
  "bus_swapped (next_sub env rest b) = bus_swapped b"
  "bus_seq (next_sub env rest b) = bus_seq b"
  "bus_publishers (next_sub env rest b) = bus_publishers b"
  "bus_inbox (next_sub env rest b) = bus_inbox b"
  "bus_stopped (next_sub env rest b) = bus_stopped b"
  "bus_dispatcher_done (next_sub env rest b) = bus_dispatcher_done b"
  "bus_dispatched_h (next_sub env rest b) = bus_dispatched_h b"
  "bus_published_h (next_sub env rest b) = bus_published_h b"
  "bus_subscribed_h (next_sub env rest b) = bus_subscribed_h b"
  "bus_objs (next_sub env rest b) = bus_objs b"
  "bus_dispatching (next_sub env rest b) = (if rest = [] then None else Some (env, rest, Ready))"
  by (simp_all add: next_sub_def)

lemmas bus_op_defs = publish_begin_def publish_send_def publish_abort_def bus_subscribe_def
  detach_def shutdown_def bus_close_def close_swap_def dispatch_take_def dispatch_exit_def deliver_check_def deliver_send_def deliver_full_def
  deliver_timeout_def deliver_stopped_def run_handle_def run_exit_def Let_def

lemmas bus_splits = if_splits option.splits list.splits deliver_phase.splits prod.splits

section \<open>Invariants\<close>

text \<open>Options never change, and the history counters never decrease.\<close>

lemma bus_step_opts: "bus_step a b = Some b' \<Longrightarrow> bus_opts b' = bus_opts b"
  by (cases a) (auto simp: bus_op_defs split: bus_splits)

lemma bus_step_counters:
  "bus_step a b = Some b' \<Longrightarrow> bus_published_h b \<le> bus_published_h b' \<and> bus_subscribed_h b \<le> bus_subscribed_h b'"
  by (cases a) (auto simp: bus_op_defs split: bus_splits)

text \<open>How one action changes one subscription object.\<close>

definition at_head :: "bus \<Rightarrow> string \<Rightarrow> deliver_phase \<Rightarrow> bool" where
  "at_head b sid ph \<longleftrightarrow> (\<exists>env rest. bus_dispatching b = Some (env, sid # rest, ph))"

inductive obj_change :: "bus_action \<Rightarrow> bus \<Rightarrow> string \<Rightarrow> subscription option \<Rightarrow> subscription \<Rightarrow> bool"
  for a b sid where
  same: "obj_change a b sid (Some s) s"
| stopped: "a = Shutdown sid \<Longrightarrow> sid \<in> set (bus_stopping b) \<Longrightarrow>
    obj_change a b sid (Some s) (s\<lparr>sb_stop := True\<rparr>)"
| created: "a = Subscribe name f True \<Longrightarrow> sub_id name (wrap_u64 (Suc (bus_seq b))) = Some sid \<Longrightarrow>
    obj_change a b sid old (new_subscription f)"
| offered: "a = DeliverCheck \<Longrightarrow> bus_dispatching b = Some (env, sid # rest, Ready) \<Longrightarrow>
    filter_match (sb_filter s) env \<Longrightarrow>
    obj_change a b sid (Some s) (s\<lparr>sb_offered_h := Suc (sb_offered_h s)\<rparr>)"
| sent: "a = DeliverSend \<Longrightarrow> bus_dispatching b = Some (env, sid # rest, ph) \<Longrightarrow> ph \<noteq> Ready \<Longrightarrow>
    length (sb_ch s) < subscriber_cap b \<Longrightarrow>
    obj_change a b sid (Some s) (s\<lparr>sb_ch := sb_ch s @ [env]\<rparr>)"
| dropped: "a = DeliverTimeout \<Longrightarrow> at_head b sid Waiting \<Longrightarrow>
    obj_change a b sid (Some s) (s\<lparr>sb_dropped := Suc (sb_dropped s)\<rparr>)"
| abandoned: "a = DeliverStopped \<Longrightarrow> at_head b sid Waiting \<Longrightarrow>
    obj_change a b sid (Some s) (s\<lparr>sb_abandoned_h := Suc (sb_abandoned_h s)\<rparr>)"
| handled: "a = RunHandle sid \<Longrightarrow> sb_ch s = env # rest \<Longrightarrow>
    obj_change a b sid (Some s) (s\<lparr>sb_ch := rest, sb_handled_h := sb_handled_h s @ [env]\<rparr>)"
| exited: "a = RunExit sid \<Longrightarrow> obj_change a b sid (Some s) (s\<lparr>sb_done := True\<rparr>)"

lemmas obj_change_intros = obj_change.same obj_change.stopped obj_change.created obj_change.offered obj_change.sent
  obj_change.dropped obj_change.abandoned obj_change.handled obj_change.exited

lemma obj_change_step:
  assumes "bus_step a b = Some b'" and "bus_objs b' sid = Some s'"
  shows "obj_change a b sid (bus_objs b sid) s'"
  using assms
  by (cases a) (auto simp: bus_op_defs obj_change_intros at_head_def split: bus_splits)

text \<open>The queues respect the capacities of their channels.\<close>

definition inv_caps :: "bus \<Rightarrow> bool" where
  "inv_caps b \<longleftrightarrow> length (bus_inbox b) \<le> publish_cap b \<and>
     (\<forall>sid s. bus_objs b sid = Some s \<longrightarrow> length (sb_ch s) \<le> subscriber_cap b)"

lemma step_inbox:
  "bus_step a b = Some b' \<Longrightarrow> length (bus_inbox b) \<le> publish_cap b \<Longrightarrow>
   length (bus_inbox b') \<le> publish_cap b"
  by (cases a) (auto simp: bus_op_defs split: bus_splits)

lemma inv_caps_step:
  assumes "bus_step a b = Some b'" and "inv_caps b"
  shows "inv_caps b'"
proof -
  have caps: "publish_cap b' = publish_cap b" "subscriber_cap b' = subscriber_cap b"
    using bus_step_opts [OF assms(1)] by (simp_all add: publish_cap_def subscriber_cap_def)
  have "length (sb_ch s) \<le> subscriber_cap b" if "bus_objs b' sid = Some s" for sid s
    using obj_change_step [OF assms(1) that] assms(2)
    by cases (use assms(2) in \<open>force simp: inv_caps_def new_subscription_def dest!: Suc_leD\<close>)+
  with assms step_inbox [OF assms(1)] show ?thesis
    by (auto simp: inv_caps_def caps)
qed

text \<open>The dispatcher's snapshot names known subscriptions, and its envelope is the last one taken.\<close>

definition inv_refs :: "bus \<Rightarrow> bool" where
  "inv_refs b \<longleftrightarrow> set (bus_subs b) \<subseteq> dom (bus_objs b) \<and>
     (\<forall>env rem ph. bus_dispatching b = Some (env, rem, ph) \<longrightarrow>
        rem \<noteq> [] \<and> distinct rem \<and> set rem \<subseteq> dom (bus_objs b) \<and>
        bus_dispatched_h b \<noteq> [] \<and> last (bus_dispatched_h b) = env)"

lemma step_dom: "bus_step a b = Some b' \<Longrightarrow> dom (bus_objs b) \<subseteq> dom (bus_objs b')"
  by (cases a) (auto simp: bus_op_defs dom_def split: bus_splits)

lemma step_subs:
  "bus_step a b = Some b' \<Longrightarrow> set (bus_subs b) \<subseteq> dom (bus_objs b) \<Longrightarrow>
   set (bus_subs b') \<subseteq> dom (bus_objs b')"
  using step_dom [of a b b']
  by (cases a) (auto simp: bus_op_defs split: bus_splits)

lemma step_dispatching:
  assumes "bus_step a b = Some b'" and "bus_dispatching b' = Some (env, rem, ph)"
  shows "(\<exists>order. a = DispatchTake order \<and> rem = order \<and> order \<noteq> [] \<and> distinct order \<and>
            set order = set (bus_subs b) \<and> bus_dispatching b = None \<and> ph = Ready \<and>
            bus_dispatched_h b' = bus_dispatched_h b @ [env]) \<or>
         (\<exists>rem0 ph0. bus_dispatching b = Some (env, rem0, ph0) \<and> rem \<noteq> [] \<and>
            (rem = rem0 \<and> (ph = ph0 \<or> ph \<noteq> Ready) \<or> rem = tl rem0 \<and> ph = Ready) \<and>
            bus_dispatched_h b' = bus_dispatched_h b) \<or>
         bus_dispatching b = Some (env, rem, ph) \<and> bus_dispatched_h b' = bus_dispatched_h b"
  using assms by (cases a) (auto simp: bus_op_defs split: bus_splits)

lemma inv_refs_step:
  assumes "bus_step a b = Some b'" and "inv_refs b"
  shows "inv_refs b'"
proof -
  have "rem \<noteq> [] \<and> distinct rem \<and> set rem \<subseteq> dom (bus_objs b') \<and>
      bus_dispatched_h b' \<noteq> [] \<and> last (bus_dispatched_h b') = env"
    if d: "bus_dispatching b' = Some (env, rem, ph)" for env rem ph
    using step_dispatching [OF assms(1) d]
  proof (elim disjE)
    assume "\<exists>order. a = DispatchTake order \<and> rem = order \<and> order \<noteq> [] \<and> distinct order \<and>
        set order = set (bus_subs b) \<and> bus_dispatching b = None \<and> ph = Ready \<and>
        bus_dispatched_h b' = bus_dispatched_h b @ [env]"
    then show ?thesis
      using assms(2) step_dom [OF assms(1)] by (auto simp: inv_refs_def)
  next
    assume "\<exists>rem0 ph0. bus_dispatching b = Some (env, rem0, ph0) \<and> rem \<noteq> [] \<and>
        (rem = rem0 \<and> (ph = ph0 \<or> ph \<noteq> Ready) \<or> rem = tl rem0 \<and> ph = Ready) \<and>
        bus_dispatched_h b' = bus_dispatched_h b"
    then obtain rem0 ph0 where r: "bus_dispatching b = Some (env, rem0, ph0)" "rem \<noteq> []"
      "rem = rem0 \<or> rem = tl rem0" "bus_dispatched_h b' = bus_dispatched_h b" by blast
    with assms(2) have "distinct rem0" "set rem0 \<subseteq> dom (bus_objs b)" "bus_dispatched_h b \<noteq> []"
      "last (bus_dispatched_h b) = env" by (auto simp: inv_refs_def)
    moreover have "set rem \<subseteq> set rem0"
      using r(3) by (cases rem0) auto
    ultimately have "set rem \<subseteq> dom (bus_objs b')"
      using step_dom [OF assms(1)] by (meson subset_trans)
    with r \<open>distinct rem0\<close> \<open>bus_dispatched_h b \<noteq> []\<close> \<open>last (bus_dispatched_h b) = env\<close>
    show ?thesis by (auto simp: distinct_tl)
  next
    assume "bus_dispatching b = Some (env, rem, ph) \<and> bus_dispatched_h b' = bus_dispatched_h b"
    then show ?thesis
      using assms(2) step_dom [OF assms(1)] unfolding inv_refs_def by (metis subset_trans)
  qed
  then show ?thesis
    using assms(2) step_subs [OF assms(1)] by (auto simp: inv_refs_def)
qed

text \<open>Identifiers are fresh as long as the sequence number has not wrapped around.\<close>

definition inv_ids :: "bus \<Rightarrow> bool" where
  "inv_ids b \<longleftrightarrow> (bus_subscribed_h b < 2 ^ 64 \<longrightarrow> bus_seq b = bus_subscribed_h b \<and>
     (\<forall>sid s. bus_objs b sid = Some s \<longrightarrow> (\<exists>name n. n \<le> bus_seq b \<and> sub_id name n = Some sid)))"

lemma step_dom_cases:
  assumes "bus_step a b = Some b'" and "sid \<in> dom (bus_objs b')"
  shows "sid \<in> dom (bus_objs b) \<or>
    (\<exists>name f. a = Subscribe name f True \<and> sub_id name (wrap_u64 (Suc (bus_seq b))) = Some sid)"
proof -
  from assms(2) obtain s' where "bus_objs b' sid = Some s'" by blast
  from obj_change_step [OF assms(1) this] show ?thesis
    by cases (auto simp: dom_def)
qed

lemma step_seq:
  "bus_step a b = Some b' \<Longrightarrow>
   bus_seq b' = bus_seq b \<and> bus_subscribed_h b' = bus_subscribed_h b \<and> (\<forall>name f. a \<noteq> Subscribe name f True) \<or>
   (\<exists>name f. a = Subscribe name f True) \<and>
     bus_seq b' = wrap_u64 (Suc (bus_seq b)) \<and> bus_subscribed_h b' = Suc (bus_subscribed_h b)"
  by (cases a) (auto simp: bus_op_defs split: bus_splits)

lemma inv_ids_step:
  assumes step: "bus_step a b = Some b'" and inv: "inv_ids b"
  shows "inv_ids b'"
  unfolding inv_ids_def
proof (intro impI conjI allI)
  assume bound: "bus_subscribed_h b' < 2 ^ 64"
  then have "bus_subscribed_h b < 2 ^ 64"
    using bus_step_counters [OF step] by linarith
  with inv have seq: "bus_seq b = bus_subscribed_h b"
    and ids: "\<And>sid. sid \<in> dom (bus_objs b) \<Longrightarrow> \<exists>name n. n \<le> bus_seq b \<and> sub_id name n = Some sid"
    by (auto simp: inv_ids_def)
  show seq': "bus_seq b' = bus_subscribed_h b'"
    using step_seq [OF step] seq bound by (auto simp: wrap_u64_id)
  fix sid s assume "bus_objs b' sid = Some s"
  then have "sid \<in> dom (bus_objs b')" by blast
  from step_dom_cases [OF step this]
  show "\<exists>name n. n \<le> bus_seq b' \<and> sub_id name n = Some sid"
  proof
    assume "sid \<in> dom (bus_objs b)"
    then show ?thesis
      using ids seq seq' bus_step_counters [OF step] by (metis le_trans)
  next
    assume "\<exists>name f. a = Subscribe name f True \<and> sub_id name (wrap_u64 (Suc (bus_seq b))) = Some sid"
    then obtain name f where "a = Subscribe name f True"
      and sid: "sub_id name (wrap_u64 (Suc (bus_seq b))) = Some sid" by blast
    with step_seq [OF step] have "bus_seq b' = wrap_u64 (Suc (bus_seq b))" by blast
    with sid show ?thesis by (intro exI [of _ name] exI [of _ "bus_seq b'"]) simp
  qed
qed

lemma subscribe_fresh:
  assumes "inv_ids b" and "Suc (bus_subscribed_h b) < 2 ^ 64"
    and "sub_id name (wrap_u64 (Suc (bus_seq b))) = Some sid"
  shows "bus_objs b sid = None"
proof (rule ccontr)
  assume "bus_objs b sid \<noteq> None"
  with assms obtain name' n where n: "n \<le> bus_seq b" "sub_id name' n = Some sid"
    by (auto simp: inv_ids_def)
  moreover have seq: "bus_seq b = bus_subscribed_h b"
    using assms by (simp add: inv_ids_def)
  ultimately have "n = Suc (bus_seq b)"
    using assms sub_id_inj [of n "Suc (bus_seq b)" name' name] by (simp add: wrap_u64_id)
  with n show False by simp
qed

text \<open>
  While the dispatcher is past the filter and stop checks of the subscription at the head of its
  snapshot, that subscription wants the envelope.
\<close>

definition in_delivery :: "bus \<Rightarrow> string \<Rightarrow> bool" where
  "in_delivery b sid \<longleftrightarrow> (case bus_dispatching b of
     Some (env, x # rest, ph) \<Rightarrow> x = sid \<and> ph \<noteq> Ready | _ \<Rightarrow> False)"

definition delivery_count :: "bus \<Rightarrow> string \<Rightarrow> subscription \<Rightarrow> nat" where
  "delivery_count b sid s = length (sb_handled_h s) + length (sb_ch s) + sb_dropped s +
     sb_abandoned_h s + (if in_delivery b sid then 1 else 0)"

lemma count_step:
  assumes "bus_step a b = Some b'" and "bus_objs b' sid = Some s'" and "bus_objs b sid = Some s"
    and "sb_offered_h s = delivery_count b sid s"
    and "\<And>name f. a = Subscribe name f True \<Longrightarrow> sub_id name (wrap_u64 (Suc (bus_seq b))) \<noteq> Some sid"
  shows "sb_offered_h s' = delivery_count b' sid s'"
  using assms
  by (cases a; simp add: bus_op_defs split: bus_splits if_split_asm;
      (auto simp: delivery_count_def in_delivery_def split: bus_splits if_split_asm)?)

definition inv_count :: "bus \<Rightarrow> bool" where
  "inv_count b \<longleftrightarrow> (bus_subscribed_h b < 2 ^ 64 \<longrightarrow>
     (\<forall>sid s. bus_objs b sid = Some s \<longrightarrow> sb_offered_h s = delivery_count b sid s))"

lemma not_in_delivery: "inv_refs b \<Longrightarrow> bus_objs b sid = None \<Longrightarrow> \<not> in_delivery b sid"
  by (auto simp: inv_refs_def in_delivery_def split: option.splits list.splits)

lemma step_subscribe_other:
  assumes "bus_step a b = Some b'" and "inv_ids b" and "bus_subscribed_h b' < 2 ^ 64"
    and "bus_objs b sid = Some s" and "a = Subscribe name f True"
  shows "sub_id name (wrap_u64 (Suc (bus_seq b))) \<noteq> Some sid"
proof
  assume eq: "sub_id name (wrap_u64 (Suc (bus_seq b))) = Some sid"
  have "Suc (bus_subscribed_h b) < 2 ^ 64"
    using step_seq [OF assms(1)] assms(3,5) by auto
  from subscribe_fresh [OF assms(2) this eq] assms(4) show False by simp
qed

lemma inv_count_step:
  assumes step: "bus_step a b = Some b'" and inv: "inv_refs b" "inv_ids b" "inv_count b"
  shows "inv_count b'"
  unfolding inv_count_def
proof (intro impI allI)
  fix sid s' assume bound: "bus_subscribed_h b' < 2 ^ 64" and s': "bus_objs b' sid = Some s'"
  have old: "bus_subscribed_h b < 2 ^ 64"
    using bound bus_step_counters [OF step] by linarith
  show "sb_offered_h s' = delivery_count b' sid s'"
  proof (cases "bus_objs b sid")
    case None
    with obj_change_step [OF step s'] obtain name f where new: "a = Subscribe name f True"
      and s'_eq: "s' = new_subscription f" by (auto elim: obj_change.cases)
    have "bus_dispatching b' = bus_dispatching b"
      using step new by (auto simp: bus_subscribe_def Let_def split: option.splits)
    with not_in_delivery [OF inv(1) None] s'_eq show ?thesis
      by (simp add: delivery_count_def in_delivery_def new_subscription_def)
  next
    case (Some s)
    with inv(3) old have "sb_offered_h s = delivery_count b sid s" by (simp add: inv_count_def)
    from count_step [OF step s' Some this] step_subscribe_other [OF step inv(2) bound Some]
    show ?thesis by blast
  qed
qed

text \<open>
  Whatever a subscription has handled or queued is a subsequence of the envelopes its filter selects
  among those the dispatcher has offered it so far, in the order the dispatcher took them.
\<close>

definition pending :: "bus \<Rightarrow> string \<Rightarrow> bool" where
  "pending b sid \<longleftrightarrow> (case bus_dispatching b of
     Some (env, rem, ph) \<Rightarrow> sid \<in> set rem | None \<Rightarrow> False)"

definition seen :: "bus \<Rightarrow> string \<Rightarrow> envelope list" where
  "seen b sid = (if pending b sid then butlast (bus_dispatched_h b) else bus_dispatched_h b)"

definition fifo_sub :: "bus \<Rightarrow> string \<Rightarrow> subscription \<Rightarrow> bool" where
  "fifo_sub b sid s \<longleftrightarrow>
     subseq (sb_handled_h s @ sb_ch s) (filter (filter_match (sb_filter s)) (seen b sid)) \<and>
     (\<forall>env rest ph. bus_dispatching b = Some (env, sid # rest, ph) \<and> ph \<noteq> Ready \<longrightarrow>
        filter_match (sb_filter s) env)"

definition inv_fifo :: "bus \<Rightarrow> bool" where
  "inv_fifo b \<longleftrightarrow> (bus_subscribed_h b < 2 ^ 64 \<longrightarrow>
     (\<forall>sid s. bus_objs b sid = Some s \<longrightarrow> fifo_sub b sid s))"

lemma step_dispatched:
  "bus_step a b = Some b' \<Longrightarrow> bus_dispatched_h b' = bus_dispatched_h b \<or>
     (\<exists>env. bus_dispatched_h b' = bus_dispatched_h b @ [env] \<and> bus_dispatching b = None)"
  by (cases a) (auto simp: bus_op_defs split: bus_splits)

lemma prefix_seen:
  assumes "bus_step a b = Some b'"
  shows "prefix (seen b sid) (seen b' sid)"
proof (cases "bus_dispatched_h b' = bus_dispatched_h b")
  case True
  have "pending b' sid \<Longrightarrow> pending b sid"
    using assms True
    by (cases a) (auto simp: bus_op_defs pending_def split: bus_splits)
  with True show ?thesis
    by (auto simp: seen_def prefixeq_butlast)
next
  case False
  with step_dispatched [OF assms] obtain env
    where "bus_dispatched_h b' = bus_dispatched_h b @ [env]" "bus_dispatching b = None" by blast
  then show ?thesis by (simp add: seen_def pending_def)
qed

lemma subseq_filter_prefix:
  "subseq xs (filter P ys) \<Longrightarrow> prefix ys zs \<Longrightarrow> subseq xs (filter P zs)"
  by (auto simp: prefix_def)

lemma sent_seen:
  assumes "bus_step DeliverSend b = Some b'" and "inv_refs b"
    and d: "bus_dispatching b = Some (env, sid # rest, ph)"
  shows "seen b' sid = seen b sid @ [env]"
proof -
  from assms(2) d have r: "bus_dispatched_h b \<noteq> []" "last (bus_dispatched_h b) = env" "sid \<notin> set rest"
    by (auto simp: inv_refs_def)
  have "bus_dispatched_h b' = bus_dispatched_h b" "\<not> pending b' sid"
    using assms(1) d r(3) by (auto simp: deliver_send_def pending_def split: option.splits if_splits)
  moreover have "pending b sid" using d by (simp add: pending_def)
  ultimately show ?thesis
    using r append_butlast_last_id [of "bus_dispatched_h b"] by (simp add: seen_def)
qed

lemma step_phase:
  assumes "bus_step a b = Some b'" and "bus_dispatching b' = Some (env, sid # rest, ph)" and "ph \<noteq> Ready"
  shows "(\<exists>ph0. bus_dispatching b = Some (env, sid # rest, ph0) \<and> ph0 \<noteq> Ready) \<or>
    a = DeliverCheck \<and> bus_dispatching b = Some (env, sid # rest, Ready) \<and>
      (\<forall>s. bus_objs b sid = Some s \<longrightarrow> filter_match (sb_filter s) env)"
  using assms by (cases a) (auto simp: bus_op_defs split: bus_splits if_split_asm)

lemma fifo_queue_step:
  assumes step: "bus_step a b = Some b'" and refs: "inv_refs b" and "bus_objs b sid = Some s"
    and change: "obj_change a b sid (Some s) s'" and fifo: "fifo_sub b sid s"
    and new: "\<And>name f. a = Subscribe name f True \<Longrightarrow> sub_id name (wrap_u64 (Suc (bus_seq b))) \<noteq> Some sid"
  shows "sb_filter s' = sb_filter s \<and>
    subseq (sb_handled_h s' @ sb_ch s') (filter (filter_match (sb_filter s)) (seen b' sid))"
proof -
  have keep: "subseq (sb_handled_h s @ sb_ch s) (filter (filter_match (sb_filter s)) (seen b' sid))"
    using fifo prefix_seen [OF step] by (auto simp: fifo_sub_def intro: subseq_filter_prefix)
  from change show ?thesis
  proof cases
    case (sent env rest ph)
    then have "seen b' sid = seen b sid @ [env]"
      using step refs sent_seen by blast
    moreover have "filter_match (sb_filter s) env"
      using fifo sent by (auto simp: fifo_sub_def)
    ultimately show ?thesis
      using fifo sent subseq_snoc [of "sb_handled_h s @ sb_ch s"] by (auto simp: fifo_sub_def)
  next
    case (created name f)
    with new show ?thesis by blast
  qed (use keep in auto)
qed

lemma inv_fifo_step:
  assumes step: "bus_step a b = Some b'" and inv: "inv_refs b" "inv_ids b" "inv_fifo b"
  shows "inv_fifo b'"
  unfolding inv_fifo_def
proof (intro impI allI)
  fix sid s' assume bound: "bus_subscribed_h b' < 2 ^ 64" and s': "bus_objs b' sid = Some s'"
  have old: "bus_subscribed_h b < 2 ^ 64"
    using bound bus_step_counters [OF step] by linarith
  show "fifo_sub b' sid s'"
  proof (cases "bus_objs b sid")
    case None
    with obj_change_step [OF step s'] obtain name f where new: "a = Subscribe name f True"
      and s'_eq: "s' = new_subscription f" by (auto elim: obj_change.cases)
    have "bus_dispatching b' = bus_dispatching b"
      using step new by (auto simp: bus_subscribe_def Let_def split: option.splits)
    moreover have "bus_dispatching b \<noteq> Some (env, sid # rest, ph)" for env rest ph
      using inv(1) None by (auto simp: inv_refs_def)
    ultimately show ?thesis
      using s'_eq by (simp add: fifo_sub_def new_subscription_def)
  next
    case (Some s)
    with inv(3) old have fifo: "fifo_sub b sid s" by (simp add: inv_fifo_def)
    have change: "obj_change a b sid (Some s) s'"
      using obj_change_step [OF step s'] Some by simp
    note new = step_subscribe_other [OF step inv(2) bound Some]
    note q = fifo_queue_step [OF step inv(1) Some change fifo new]
    have "filter_match (sb_filter s) env"
      if "bus_dispatching b' = Some (env, sid # rest, ph)" "ph \<noteq> Ready" for env rest ph
      using step_phase [OF step that] fifo Some by (auto simp: fifo_sub_def)
    with q show ?thesis by (auto simp: fifo_sub_def)
  qed
qed

text \<open>Every envelope in flight or dispatched has its own cursor, at most the latest one.\<close>

definition envelopes :: "bus \<Rightarrow> envelope list" where
  "envelopes b = bus_dispatched_h b @ bus_inbox b @ bus_publishers b"

definition inv_cursor :: "bus \<Rightarrow> bool" where
  "inv_cursor b \<longleftrightarrow> (bus_published_h b < 2 ^ 63 \<longrightarrow> bus_cursor b = int (bus_published_h b) \<and>
     distinct (map en_cursor (envelopes b)) \<and>
     (\<forall>e\<in>set (envelopes b). 1 \<le> en_cursor e \<and> en_cursor e \<le> bus_cursor b))"

lemma mset_subset_distinct: "mset xs \<subseteq># mset ys \<Longrightarrow> distinct ys \<Longrightarrow> distinct xs"
proof -
  assume sub: "mset xs \<subseteq># mset ys" and d: "distinct ys"
  have "count (mset xs) x \<le> 1" for x
    using mset_subset_eq_count [OF sub, of x] d
    by (metis distinct_count_atmost_1 dual_order.trans le_numeral_extra(4) zero_le)
  then show "distinct xs"
    by (metis count_greater_zero_iff distinct_count_atmost_1 le_antisym less_one not_less set_mset_mset
        count_eq_zero_iff)
qed

lemma step_envelopes:
  "bus_step a b = Some b' \<Longrightarrow>
     mset (envelopes b') \<subseteq># mset (envelopes b) \<and> bus_cursor b' = bus_cursor b \<and>
       bus_published_h b' = bus_published_h b \<or>
     (\<exists>now env. a = PublishBegin now env \<and>
       envelopes b' = envelopes b @ [stamp_env now (bus_cursor b') env] \<and>
       bus_cursor b' = wrap64 (bus_cursor b + 1) \<and> bus_published_h b' = Suc (bus_published_h b))"
  by (cases a) (auto simp: bus_op_defs envelopes_def mset_remove_nth split: bus_splits)

lemma inv_cursor_step:
  assumes step: "bus_step a b = Some b'" and inv: "inv_cursor b"
  shows "inv_cursor b'"
  unfolding inv_cursor_def
proof (intro impI)
  assume bound: "bus_published_h b' < 2 ^ 63"
  then have "bus_published_h b < 2 ^ 63"
    using bus_step_counters [OF step] by linarith
  with inv have old: "bus_cursor b = int (bus_published_h b)" "distinct (map en_cursor (envelopes b))"
    "\<forall>e\<in>set (envelopes b). 1 \<le> en_cursor e \<and> en_cursor e \<le> bus_cursor b"
    by (auto simp: inv_cursor_def)
  from step_envelopes [OF step]
  show "bus_cursor b' = int (bus_published_h b') \<and> distinct (map en_cursor (envelopes b')) \<and>
    (\<forall>e\<in>set (envelopes b'). 1 \<le> en_cursor e \<and> en_cursor e \<le> bus_cursor b')"
  proof (elim disjE exE conjE)
    assume sub: "mset (envelopes b') \<subseteq># mset (envelopes b)"
      and same: "bus_cursor b' = bus_cursor b" "bus_published_h b' = bus_published_h b"
    have "mset (map en_cursor (envelopes b')) \<subseteq># mset (map en_cursor (envelopes b))"
      using image_mset_subseteq_mono [OF sub] by simp
    then have "distinct (map en_cursor (envelopes b'))"
      by (rule mset_subset_distinct [OF _ old(2)])
    with old same set_mset_mono [OF sub] show ?thesis by auto
  next
    fix now env
    assume app: "envelopes b' = envelopes b @ [stamp_env now (bus_cursor b') env]"
      and c: "bus_cursor b' = wrap64 (bus_cursor b + 1)" and n: "bus_published_h b' = Suc (bus_published_h b)"
    have "bus_cursor b' = bus_cursor b + 1"
      using c old(1) bound n by (simp add: wrap64_Suc max_int64_def)
    with old app n show ?thesis by (force simp: stamp_env_def)
  qed
qed

section \<open>Reachable states\<close>

lemma new_bus_inv:
  "inv_caps (new_bus opts)" "inv_refs (new_bus opts)" "inv_ids (new_bus opts)"
  "inv_count (new_bus opts)" "inv_fifo (new_bus opts)" "inv_cursor (new_bus opts)"
  by (simp_all add: new_bus_def inv_caps_def inv_refs_def inv_ids_def inv_count_def inv_fifo_def
      inv_cursor_def envelopes_def)

lemma reach_inv:
  "bus_reach opts b \<Longrightarrow> inv_caps b \<and> inv_refs b \<and> inv_ids b \<and> inv_count b \<and> inv_fifo b \<and> inv_cursor b"
proof (induction rule: bus_reach.induct)
  case bus_start
  show ?case by (simp add: new_bus_inv)
next
  case (bus_next b a b')
  then show ?case
    using inv_caps_step inv_refs_step inv_ids_step inv_count_step inv_fifo_step inv_cursor_step by blast
qed

lemma reach_opts: "bus_reach opts b \<Longrightarrow> bus_opts b = with_defaults opts"
  by (induction rule: bus_reach.induct) (auto simp: new_bus_def dest: bus_step_opts)

section \<open>Wrapping a session sink\<close>

text \<open>
  \<open>WrapSink\<close>: one call of the returned function on \<open>ev\<close> (a nil interface is \<^const>\<open>None\<close>). The
  result lists what happens, in order: the call of the wrapped sink and the publication.
\<close>

datatype sink_effect = Forward "payload option" | Publish envelope

definition wrap_sink ::
  "bool \<Rightarrow> source \<Rightarrow> string \<Rightarrow> bool \<Rightarrow> time \<Rightarrow> payload option \<Rightarrow> sink_effect list" where
  "wrap_sink sink_given src session_id bus_given now ev =
     (if \<not> bus_given then (if sink_given then [Forward ev] else [])
      else (if sink_given then [Forward ev] else []) @
        (if ev = None then []
         else let sid = (if session_id = [] then session_id_of ev else session_id)
              in [Publish \<lparr>en_cursor = 0, en_source = src, en_topic = topic_of ev, en_session_id = sid,
                    en_timestamp = now, en_payload = ev\<rparr>]))"

section \<open>Delivery rounds\<close>

text \<open>Unless it is done with them, a subscription that was not stopped is registered or being stopped.\<close>

definition inv_live :: "bus \<Rightarrow> bool" where
  "inv_live b \<longleftrightarrow> (\<forall>sid s. bus_objs b sid = Some s \<and> \<not> sb_stop s \<longrightarrow>
     sid \<in> set (bus_subs b) \<union> set (bus_stopping b)) \<and>
     (\<forall>sid s. bus_objs b sid = Some s \<and> sb_done s \<longrightarrow> sb_stop s)"

lemma step_subs_stopping:
  "bus_step a b = Some b' \<Longrightarrow> (\<forall>x. a \<noteq> Shutdown x) \<Longrightarrow>
   set (bus_subs b) \<union> set (bus_stopping b) \<subseteq> set (bus_subs b') \<union> set (bus_stopping b')"
  by (cases a) (auto simp: bus_op_defs split: bus_splits if_split_asm)

lemma inv_live_step:
  assumes step: "bus_step a b = Some b'" and inv: "inv_live b"
  shows "inv_live b'"
proof -
  have "(\<not> sb_stop s' \<longrightarrow> sid \<in> set (bus_subs b') \<union> set (bus_stopping b')) \<and> (sb_done s' \<longrightarrow> sb_stop s')"
    if s': "bus_objs b' sid = Some s'" for sid s'
  proof (cases "\<exists>x. a = Shutdown x")
    case True
    then obtain x where a: "a = Shutdown x" by blast
    then have x: "x \<in> set (bus_stopping b)" "bus_subs b' = bus_subs b"
      "bus_stopping b' = removeAll x (bus_stopping b)"
      "bus_objs b' = (bus_objs b)(x := map_option (\<lambda>s. s\<lparr>sb_stop := True\<rparr>) (bus_objs b x))"
      using step by (auto simp: shutdown_def split: if_splits)
    with s' inv show ?thesis by (auto simp: inv_live_def split: if_splits)
  next
    case False
    then have keep: "set (bus_subs b) \<union> set (bus_stopping b) \<subseteq> set (bus_subs b') \<union> set (bus_stopping b')"
      using step_subs_stopping [OF step] by blast
    from obj_change_step [OF step s'] show ?thesis
    proof cases
      case (created name f)
      then have "sid \<in> set (bus_subs b')"
        using step by (auto simp: bus_subscribe_def Let_def)
      with created show ?thesis by (simp add: new_subscription_def)
    next
      case (exited s)
      then have "sb_stop s"
        using step by (auto simp: run_exit_def split: if_splits)
      with exited show ?thesis by simp
    qed (use inv keep in \<open>auto simp: inv_live_def\<close>)
  qed
  then show ?thesis by (auto simp: inv_live_def)
qed

lemma reach_live: "bus_reach opts b \<Longrightarrow> inv_live b"
proof (induction rule: bus_reach.induct)
  case bus_start
  show ?case by (simp add: inv_live_def new_bus_def)
qed (rule inv_live_step)

text \<open>The actions of the dispatcher that never wait for a subscriber.\<close>

definition round_actions :: "bus_action set" where
  "round_actions = {DeliverCheck, DeliverSend, DeliverFull, DeliverTimeout}"

lemma bus_run_append: "bus_run (as @ bs) b = Option.bind (bus_run as b) (bus_run bs)"
  by (induction as arbitrary: b) (auto split: bind_splits)

lemma deliver_one:
  assumes "bus_dispatching b = Some (env, sid # rest, Ready)" and "bus_objs b sid = Some s"
  shows "\<exists>as b'. length as \<le> 3 \<and> set as \<subseteq> round_actions \<and> bus_run as b = Some b' \<and>
    bus_dispatching b' = (if rest = [] then None else Some (env, rest, Ready)) \<and>
    dom (bus_objs b) \<subseteq> dom (bus_objs b')"
proof -
  consider (skip) "\<not> filter_match (sb_filter s) env \<or> sb_stop s"
    | (room) "filter_match (sb_filter s) env" "\<not> sb_stop s" "length (sb_ch s) < subscriber_cap b"
    | (full) "filter_match (sb_filter s) env" "\<not> sb_stop s" "\<not> length (sb_ch s) < subscriber_cap b"
    by blast
  then show ?thesis
  proof cases
    case skip
    with assms show ?thesis
      by (intro exI [of _ "[DeliverCheck]"]) (auto simp: deliver_check_def round_actions_def)
  next
    case room
    with assms show ?thesis
      by (intro exI [of _ "[DeliverCheck, DeliverSend]"])
        (auto simp: deliver_check_def deliver_send_def subscriber_cap_def round_actions_def)
  next
    case full
    with assms show ?thesis
      by (intro exI [of _ "[DeliverCheck, DeliverFull, DeliverTimeout]"])
        (auto simp: deliver_check_def deliver_full_def deliver_timeout_def subscriber_cap_def
          round_actions_def)
  qed
qed

definition round_ends :: "nat \<Rightarrow> bus \<Rightarrow> bool" where
  "round_ends n b \<longleftrightarrow> (\<exists>as b'. length as \<le> n \<and> set as \<subseteq> round_actions \<and> bus_run as b = Some b' \<and>
     bus_dispatching b' = None)"

lemma round_ends_step:
  assumes "round_ends n b1" "bus_run as b = Some b1" "set as \<subseteq> round_actions" "length as + n \<le> m"
  shows "round_ends m b"
proof -
  from assms(1) obtain bs b2 where "length bs \<le> n" "set bs \<subseteq> round_actions" "bus_run bs b1 = Some b2"
    "bus_dispatching b2 = None" by (auto simp: round_ends_def)
  with assms(2-) show ?thesis
    unfolding round_ends_def by (intro exI [of _ "as @ bs"]) (auto simp: bus_run_append)
qed

lemma round_ends_done: "bus_dispatching b = None \<Longrightarrow> round_ends n b"
  unfolding round_ends_def by (intro exI [of _ "[]"]) simp

lemma deliver_rest:
  "rem \<noteq> [] \<Longrightarrow> set rem \<subseteq> dom (bus_objs b) \<Longrightarrow> bus_dispatching b = Some (env, rem, Ready) \<Longrightarrow>
   round_ends (3 * length rem) b"
proof (induction rem arbitrary: b)
  case (Cons sid rest)
  then obtain s where "bus_objs b sid = Some s" by auto
  from deliver_one [OF Cons.prems(3) this] obtain as b1 where
    1: "length as \<le> 3" "set as \<subseteq> round_actions" "bus_run as b = Some b1"
      "bus_dispatching b1 = (if rest = [] then None else Some (env, rest, Ready))"
      "dom (bus_objs b) \<subseteq> dom (bus_objs b1)" by blast
  have "round_ends (3 * length rest) b1"
  proof (cases "rest = []")
    case False
    with 1 Cons.prems(2) subset_trans [OF _ 1(5), of "set rest"] show ?thesis by (intro Cons.IH) auto
  qed (use 1 in \<open>simp add: round_ends_done\<close>)
  from round_ends_step [OF this 1(3,2)] 1(1) show ?case by simp
qed simp

lemma deliver_any:
  assumes "inv_refs b" and d: "bus_dispatching b = Some (env, rem, ph)"
  shows "round_ends (3 * length rem) b"
proof -
  have rem: "rem \<noteq> []" "set rem \<subseteq> dom (bus_objs b)"
    using assms by (auto simp: inv_refs_def)
  then obtain sid rest s where r: "rem = sid # rest" "bus_objs b sid = Some s"
    by (cases rem) auto
  have first: "\<exists>as b1. length as \<le> 2 \<and> set as \<subseteq> round_actions \<and> bus_run as b = Some b1 \<and>
      bus_dispatching b1 = (if rest = [] then None else Some (env, rest, Ready)) \<and>
      dom (bus_objs b) \<subseteq> dom (bus_objs b1)" if "ph \<noteq> Ready"
  proof (cases "ph = Waiting \<or> length (sb_ch s) < subscriber_cap b")
    case True
    show ?thesis
      by (intro exI [of _ "[if ph = Waiting then DeliverTimeout else DeliverSend]"])
        (use True r d that in \<open>auto simp: deliver_send_def deliver_timeout_def round_actions_def\<close>)
  next
    case False
    then have "ph = Checked" using that by (cases ph) auto
    with False r d show ?thesis
      by (intro exI [of _ "[DeliverFull, DeliverTimeout]"])
        (auto simp: deliver_full_def deliver_timeout_def subscriber_cap_def round_actions_def)
  qed
  show ?thesis
  proof (cases "ph = Ready")
    case True
    with deliver_rest [OF rem] d show ?thesis by blast
  next
    case False
    from first [OF this] obtain as b1 where
      1: "length as \<le> 2" "set as \<subseteq> round_actions" "bus_run as b = Some b1"
        "bus_dispatching b1 = (if rest = [] then None else Some (env, rest, Ready))"
        "dom (bus_objs b) \<subseteq> dom (bus_objs b1)" by blast
    have "round_ends (3 * length rest) b1"
    proof (cases "rest = []")
      case False
      with 1 rem r subset_trans [OF _ 1(5), of "set rest"] show ?thesis by (intro deliver_rest) auto
    qed (use 1 in \<open>simp add: round_ends_done\<close>)
    from round_ends_step [OF this 1(3,2)] 1(1) r show ?thesis by simp
  qed
qed


section \<open>Properties\<close>

text \<open>A run with one subscription of capacity 1, in which the second publisher overtakes the first.\<close>

definition demo_opts :: bus_options where
  "demo_opts = \<lparr>bo_publish_buffer = 2, bo_subscriber_buffer = 1, bo_deliver_timeout = 5\<rparr>"

definition demo_env :: "string \<Rightarrow> envelope" where
  "demo_env topic = \<lparr>en_cursor = 0, en_source = source_session, en_topic = topic, en_session_id = ''s1'',
     en_timestamp = 0, en_payload = None\<rparr>"

definition demo_filter :: bus_filter where
  "demo_filter = \<lparr>bf_sources = [source_session], bf_topics = [''log'', ''error''], bf_session_ids = []\<rparr>"

definition demo_actions :: "bus_action list" where
  "demo_actions =
     [Subscribe ''ui'' demo_filter True, PublishBegin 7 (demo_env ''log''), PublishBegin 8 (demo_env ''error''),
      PublishSend 1, PublishSend 0, DispatchTake [''ui#1''], DeliverCheck, DeliverSend,
      DispatchTake [''ui#1''], DeliverCheck, DeliverFull]"

definition demo_bus :: bus where
  "demo_bus = the (bus_run demo_actions (new_bus demo_opts))"

lemma demo_ids: "sub_id ''ui'' (wrap_u64 (Suc 0)) = Some ''ui#1''"
  by (simp add: sub_id_eq wrap_u64_def digits.simps digit_lits)

lemma demo_wrap: "wrap64 1 = 1" "wrap64 2 = 2"
  by (simp_all add: wrap64_def)

lemmas demo_defs = demo_opts_def demo_env_def demo_filter_def demo_actions_def demo_ids
  new_bus_def with_defaults_def bus_op_defs upd_sub_def next_sub_def remove_nth_def
  publish_cap_def subscriber_cap_def stamp_env_def filter_match_def new_subscription_def wrap64_Suc

lemma demo_run:
  "\<exists>b. bus_run demo_actions (new_bus demo_opts) = Some b \<and>
    bus_run [RunHandle ''ui#1'', DeliverSend, RunHandle ''ui#1''] b \<noteq> None \<and>
    bus_published_h b = 2 \<and> bus_subscribed_h b = 1 \<and> bus_dispatching b \<noteq> None \<and>
    (\<exists>s. bus_objs b ''ui#1'' = Some s \<and> sb_offered_h s = 2)"
  by (simp add: demo_defs)

lemma demo_reach:
  "bus_reach demo_opts demo_bus" "bus_published_h demo_bus = 2" "bus_subscribed_h demo_bus = 1"
  "\<exists>s. bus_objs demo_bus ''ui#1'' = Some s \<and> sb_offered_h s = 2"
  "\<exists>env rem ph. bus_dispatching demo_bus = Some (env, rem, ph)"
proof -
  from demo_run obtain b where b: "bus_run demo_actions (new_bus demo_opts) = Some b"
    "bus_published_h b = 2" "bus_subscribed_h b = 1" "bus_dispatching b \<noteq> None"
    "\<exists>s. bus_objs b ''ui#1'' = Some s \<and> sb_offered_h s = 2" by blast
  then have "demo_bus = b" by (simp add: demo_bus_def)
  with b bus_run_reach [OF bus_start b(1)]
  show "bus_reach demo_opts demo_bus" "bus_published_h demo_bus = 2" "bus_subscribed_h demo_bus = 1"
    "\<exists>s. bus_objs demo_bus ''ui#1'' = Some s \<and> sb_offered_h s = 2"
    "\<exists>env rem ph. bus_dispatching demo_bus = Some (env, rem, ph)"
    by auto
qed

text \<open>
  C4: In every reachable state of the bus, what a subscription has handled, followed by what waits in
  its channel, is a subsequence of the envelopes its filter matches in the order the dispatcher
  took them, and no two of them have the same cursor: delivery is filtered, in order, at most once.
\<close>

theorem bus_delivery_in_order:
  assumes "bus_reach opts b" and "bus_objs b sid = Some s"
    and "bus_subscribed_h b < 2 ^ 64" and "bus_published_h b < 2 ^ 63"
  shows "subseq (sb_handled_h s @ sb_ch s) (filter (filter_match (sb_filter s)) (bus_dispatched_h b)) \<and>
    distinct (map en_cursor (sb_handled_h s @ sb_ch s))"
proof -
  note inv = reach_inv [OF assms(1)]
  have "subseq (sb_handled_h s @ sb_ch s) (filter (filter_match (sb_filter s)) (seen b sid))"
    using inv assms(2,3) by (simp add: inv_fifo_def fifo_sub_def)
  moreover have "prefix (seen b sid) (bus_dispatched_h b)"
    by (simp add: seen_def prefixeq_butlast)
  ultimately have sub:
    "subseq (sb_handled_h s @ sb_ch s) (filter (filter_match (sb_filter s)) (bus_dispatched_h b))"
    by (rule subseq_filter_prefix)
  then have "subseq (sb_handled_h s @ sb_ch s) (bus_dispatched_h b)"
    by (rule subseq_order.trans) (rule subseq_filter_left)
  moreover have "distinct (map en_cursor (bus_dispatched_h b))"
    using inv assms(4) by (simp add: inv_cursor_def envelopes_def)
  ultimately show ?thesis
    using sub subseq_map_distinct by blast
qed

theorem bus_delivery_in_order_witness:
  "\<exists>s. bus_objs demo_bus ''ui#1'' = Some s \<and> sb_offered_h s = 2 \<and>
     subseq (sb_handled_h s @ sb_ch s) (filter (filter_match (sb_filter s)) (bus_dispatched_h demo_bus))"
  using demo_reach bus_delivery_in_order [OF demo_reach(1)] by fastforce

text \<open>
  In every reachable state each envelope that was offered to a subscription is accounted for
  exactly once: handled, waiting in its channel, counted in \<open>Dropped\<close>, abandoned because the
  subscription stopped while the dispatcher waited, or still in the dispatcher's hands.
\<close>

theorem bus_accounting:
  assumes "bus_reach opts b" and "bus_objs b sid = Some s" and "bus_subscribed_h b < 2 ^ 64"
  shows "sb_offered_h s = length (sb_handled_h s) + length (sb_ch s) + sb_dropped s +
    sb_abandoned_h s + (if in_delivery b sid then 1 else 0)"
  using reach_inv [OF assms(1)] assms(2,3) by (simp add: inv_count_def delivery_count_def)

theorem bus_accounting_witness:
  "\<exists>s. bus_objs demo_bus ''ui#1'' = Some s \<and> 2 = length (sb_handled_h s) + length (sb_ch s) +
     sb_dropped s + sb_abandoned_h s + (if in_delivery demo_bus ''ui#1'' then 1 else 0)"
  using demo_reach bus_accounting [OF demo_reach(1)] by fastforce

text \<open>
  \<open>Subscribe\<close> with a handler never fails and returns an identifier no subscription object of the
  bus has or had, which it registers with an empty channel; the identifier is the name (or
  \<open>sub\<close>), a hash sign and the decimal sequence number.
\<close>

theorem bus_subscribe_fresh:
  assumes "bus_reach opts b" and "Suc (bus_subscribed_h b) < 2 ^ 64"
  shows "\<exists>sid b'. bus_subscribe name f True b = Some b' \<and>
    sid = (if name = [] then ''sub'' else name) @ ''#'' @ digits (Suc (bus_subscribed_h b)) \<and>
    bus_objs b sid = None \<and> bus_objs b' = (bus_objs b)(sid \<mapsto> new_subscription f) \<and>
    set (bus_subs b') = insert sid (set (bus_subs b))"
proof -
  have ids: "inv_ids b" using reach_inv [OF assms(1)] by simp
  let ?sid = "(if name = [] then ''sub'' else name) @ ''#'' @ digits (Suc (bus_subscribed_h b))"
  have seq: "wrap_u64 (Suc (bus_seq b)) = Suc (bus_subscribed_h b)"
    using ids assms(2) by (simp add: inv_ids_def wrap_u64_id)
  have sid: "sub_id name (wrap_u64 (Suc (bus_seq b))) = Some ?sid"
    using assms(2) by (simp add: seq sub_id_eq)
  show ?thesis
    by (intro exI [of _ ?sid]) (use subscribe_fresh [OF ids assms(2) sid] sid in
      \<open>auto simp: bus_subscribe_def Let_def\<close>)
qed

theorem bus_subscribe_fresh_witness:
  "\<exists>sid b'. bus_subscribe ''ui'' demo_filter True demo_bus = Some b' \<and> sid = ''ui#2'' \<and>
     bus_objs demo_bus sid = None"
  using bus_subscribe_fresh [OF demo_reach(1), of "''ui''" demo_filter] demo_reach(3)
  by (auto simp: digits.simps digit_lits numeral_2_eq_2 [symmetric])

text \<open>
  A slow subscriber never blocks the bus: from any reachable state in which the dispatcher is
  in the middle of a delivery round it can finish the round by itself, without any step of a
  subscriber, in at most three steps per subscription left.
\<close>

theorem bus_round_ends:
  assumes "bus_reach opts b" and "bus_dispatching b = Some (env, rem, ph)"
  shows "\<exists>as b'. length as \<le> 3 * length rem \<and>
    set as \<subseteq> {DeliverCheck, DeliverSend, DeliverFull, DeliverTimeout} \<and>
    bus_run as b = Some b' \<and> bus_dispatching b' = None"
  using deliver_any [OF _ assms(2)] reach_inv [OF assms(1)]
  by (simp add: round_ends_def round_actions_def)

theorem bus_round_ends_witness:
  "\<exists>as b'. bus_run as demo_bus = Some b' \<and> bus_dispatching b' = None"
proof -
  from demo_reach(5) obtain env rem ph where "bus_dispatching demo_bus = Some (env, rem, ph)" by blast
  from bus_round_ends [OF demo_reach(1) this] show ?thesis by blast
qed

text \<open>
  C40: The queues never exceed the capacities the options give, cursors are the number of
  publications so far, and once \<open>Close\<close> has shut down all it found and no subscription was added
  since, every subscription is stopped.
\<close>

theorem bus_bounds_and_close:
  assumes "bus_reach opts b"
  shows "int (length (bus_inbox b)) \<le> bo_publish_buffer (with_defaults opts) \<and>
    (\<forall>sid s. bus_objs b sid = Some s \<longrightarrow> int (length (sb_ch s)) \<le> bo_subscriber_buffer (with_defaults opts)) \<and>
    (bus_published_h b < 2 ^ 63 \<longrightarrow> bus_cursor b = int (bus_published_h b)) \<and>
    (bus_subs b = [] \<and> bus_stopping b = [] \<longrightarrow> (\<forall>sid s. bus_objs b sid = Some s \<longrightarrow> sb_stop s))"
proof -
  have "0 < bo_publish_buffer (with_defaults opts)" "0 < bo_subscriber_buffer (with_defaults opts)"
    by (auto simp: with_defaults_def)
  moreover have "inv_caps b" "inv_cursor b" "inv_live b"
    using reach_inv [OF assms] reach_live [OF assms] by auto
  moreover from this(3)
  have "bus_subs b = [] \<and> bus_stopping b = [] \<longrightarrow> (\<forall>sid s. bus_objs b sid = Some s \<longrightarrow> sb_stop s)"
    by (fastforce simp: inv_live_def)
  ultimately show ?thesis
    unfolding inv_caps_def inv_cursor_def publish_cap_def subscriber_cap_def reach_opts [OF assms]
    by (simp add: le_nat_iff)
qed

theorem bus_bounds_and_close_witness:
  "int (length (bus_inbox demo_bus)) \<le> 2 \<and> bus_cursor demo_bus = 2"
  using bus_bounds_and_close [OF demo_reach(1)] demo_reach(2)
  by (simp add: with_defaults_def demo_opts_def)

text \<open>
  Cursors do not order delivery: \<open>Publish\<close> takes its cursor before it queues the envelope, so
  there is a run of the bus in which a subscriber handles the envelope with cursor 2 before the one with
  cursor 1.
\<close>

theorem bus_cursor_inversion:
  "\<exists>opts b s. bus_reach opts b \<and> bus_objs b ''ui#1'' = Some s \<and> map en_cursor (sb_handled_h s) = [2, 1]"
proof -
  have "\<exists>b s. bus_run (demo_actions @ [RunHandle ''ui#1'', DeliverSend, RunHandle ''ui#1'']) (new_bus demo_opts)
      = Some b \<and> bus_objs b ''ui#1'' = Some s \<and> map en_cursor (sb_handled_h s) = [2, 1]"
    by (simp add: demo_defs demo_wrap)
  then obtain b s where b: "bus_run (demo_actions @ [RunHandle ''ui#1'', DeliverSend, RunHandle ''ui#1''])
      (new_bus demo_opts) = Some b" and s: "bus_objs b ''ui#1'' = Some s"
      "map en_cursor (sb_handled_h s) = [2, 1]" by (elim exE conjE)
  from bus_run_reach [OF bus_start b] have "bus_reach demo_opts b" .
  with s show ?thesis by (intro exI conjI)
qed

end
