(* ===== verification/LockMgr.thy ===== *)
theory LockMgr
  imports Prelude
begin

text \<open>
  The lock manager (\<open>kernel/lockmgr\<close>): reentrant locks named by strings and bounded by a time to
  live. Timers are modelled as the runtime has them: an armed timer fires once its due time is
  reached, its callback then waits for the mutex (\<open>lm_fired\<close>), evicts the entry or not in one critical
  section, and only afterwards reports the lease (\<open>lm_sending\<close>). Every operation is one critical
  section. \<open>now\<close> is the manager's clock function, \<open>clk\<close> the clock of the runtime's timers.
\<close>

section \<open>State\<close>

record lease =
  ls_key :: string
  ls_owner :: string
  ls_expire_at :: time
  ls_depth :: int

record lock_entry =
  lk_owner :: string
  lk_depth :: int
  lk_expire_at :: time
  lk_timer :: nat

record lock_timer =
  tm_key :: string
  tm_owner :: string
  tm_due :: time

record lock_mgr =
  lm_entries :: "(string \<rightharpoonup> lock_entry) option"
  lm_timers :: "nat \<rightharpoonup> lock_timer"
  lm_next_timer :: nat
  lm_fired :: "(string \<times> string) list"
  lm_sending :: "lease list"
  lm_expired :: "lease list"
  lm_stop_closed :: bool
  lm_expired_closed :: bool
  lm_stop_once :: bool

datatype lock_error = KeyOwnerRequired | ErrConflict | ErrNotHeld | NilMapWrite

definition expired_cap :: nat where
  "expired_cap = 64"

definition new_lock_mgr :: lock_mgr where
  "new_lock_mgr = \<lparr>lm_entries = Some Map.empty, lm_timers = Map.empty, lm_next_timer = 0, lm_fired = [],
     lm_sending = [], lm_expired = [], lm_stop_closed = False, lm_expired_closed = False,
     lm_stop_once = False\<rparr>"

text \<open>Reading a nil map is reading an empty one.\<close>

definition entry_of :: "lock_mgr \<Rightarrow> string \<Rightarrow> lock_entry option" where
  "entry_of m k = (case lm_entries m of None \<Rightarrow> None | Some es \<Rightarrow> es k)"

definition entry_lease :: "string \<Rightarrow> lock_entry \<Rightarrow> lease" where
  "entry_lease k e =
     \<lparr>ls_key = k, ls_owner = lk_owner e, ls_expire_at = lk_expire_at e, ls_depth = lk_depth e\<rparr>"

text \<open>\<open>time.AfterFunc\<close> and \<open>Timer.Stop\<close>; stopping a timer that has fired does nothing.\<close>

definition after_func :: "time \<Rightarrow> duration \<Rightarrow> string \<Rightarrow> string \<Rightarrow> lock_mgr \<Rightarrow> lock_mgr" where
  "after_func clk ttl key owner m =
     m\<lparr>lm_timers := (lm_timers m)(lm_next_timer m \<mapsto> \<lparr>tm_key = key, tm_owner = owner, tm_due = clk + ttl\<rparr>),
       lm_next_timer := Suc (lm_next_timer m)\<rparr>"

definition stop_timer :: "nat \<Rightarrow> lock_mgr \<Rightarrow> lock_mgr" where
  "stop_timer i m = m\<lparr>lm_timers := (lm_timers m)(i := None)\<rparr>"

definition put_entry :: "string \<Rightarrow> lock_entry \<Rightarrow> lock_mgr \<Rightarrow> lock_mgr" where
  "put_entry key e m = m\<lparr>lm_entries := map_option (\<lambda>es. es(key \<mapsto> e)) (lm_entries m)\<rparr>"

definition del_entry :: "string \<Rightarrow> lock_mgr \<Rightarrow> lock_mgr" where
  "del_entry key m = m\<lparr>lm_entries := map_option (\<lambda>es. es(key := None)) (lm_entries m)\<rparr>"

section \<open>Operations\<close>

definition lock_ttl :: "duration \<Rightarrow> duration" where
  "lock_ttl ttl = (if ttl \<le> 0 then 30 * second else ttl)"

definition acquire ::
  "time \<Rightarrow> time \<Rightarrow> string \<Rightarrow> string \<Rightarrow> duration \<Rightarrow> lock_mgr \<Rightarrow> (lock_error + lease) \<times> lock_mgr" where
  "acquire now clk key owner ttl m =
     (if key = [] \<or> owner = [] then (Inl KeyOwnerRequired, m)
      else let ttl = lock_ttl ttl in
        case entry_of m key of
          Some e \<Rightarrow>
            if lk_owner e \<noteq> owner then (Inl ErrConflict, m)
            else let e' = e\<lparr>lk_depth := lk_depth e + 1, lk_expire_at := now + ttl, lk_timer := lm_next_timer m\<rparr>
                 in (Inr (entry_lease key e'),
                     put_entry key e' (after_func clk ttl key owner (stop_timer (lk_timer e) m)))
        | None \<Rightarrow>
            let e = \<lparr>lk_owner = owner, lk_depth = 1, lk_expire_at = now + ttl, lk_timer = lm_next_timer m\<rparr>;
                m' = after_func clk ttl key owner m
            in if lm_entries m = None then (Inl NilMapWrite, m')
               else (Inr (entry_lease key e), put_entry key e m'))"

definition release :: "string \<Rightarrow> string \<Rightarrow> lock_mgr \<Rightarrow> (lock_error + unit) \<times> lock_mgr" where
  "release key owner m =
     (case entry_of m key of
        None \<Rightarrow> (Inl ErrNotHeld, m)
      | Some e \<Rightarrow>
          if lk_owner e \<noteq> owner then (Inl ErrNotHeld, m)
          else let e' = e\<lparr>lk_depth := lk_depth e - 1\<rparr>
               in if lk_depth e' \<le> 0 then (Inr (), del_entry key (stop_timer (lk_timer e) m))
                  else (Inr (), put_entry key e' m))"

definition force_release :: "string \<Rightarrow> lock_mgr \<Rightarrow> lock_mgr" where
  "force_release key m =
     (case entry_of m key of None \<Rightarrow> m | Some e \<Rightarrow> del_entry key (stop_timer (lk_timer e) m))"

definition holder :: "time \<Rightarrow> string \<Rightarrow> lock_mgr \<Rightarrow> string \<times> duration" where
  "holder wall key m =
     (case entry_of m key of None \<Rightarrow> ([], 0) | Some e \<Rightarrow> (lk_owner e, lk_expire_at e - wall))"

definition active :: "lock_mgr \<Rightarrow> nat" where
  "active m = (case lm_entries m of None \<Rightarrow> 0 | Some es \<Rightarrow> card (dom es))"

text \<open>
  \<open>Close\<close> runs once: one critical section that stops the timers of all entries and drops the map,
  then the closing of the two channels. The timer of an entry carries the key of the entry
  (\<open>lock_ok\<close> below), so the timers to stop are found by their keys.
\<close>

definition stop_all_timers :: "(string \<rightharpoonup> lock_entry) \<Rightarrow> (nat \<rightharpoonup> lock_timer) \<Rightarrow> nat \<rightharpoonup> lock_timer" where
  "stop_all_timers es tms i = (case tms i of
     None \<Rightarrow> None
   | Some tm \<Rightarrow> (case es (tm_key tm) of
       Some e \<Rightarrow> if lk_timer e = i then None else Some tm
     | None \<Rightarrow> Some tm))"

definition close_begin :: "lock_mgr \<Rightarrow> lock_mgr option" where
  "close_begin m =
     (if lm_stop_once m then None
      else Some (m\<lparr>lm_stop_once := True, lm_entries := None,
             lm_timers := stop_all_timers (case_option Map.empty id (lm_entries m)) (lm_timers m)\<rparr>))"

definition close_stop :: "lock_mgr \<Rightarrow> lock_mgr option" where
  "close_stop m =
     (if lm_stop_once m \<and> lm_entries m = None \<and> \<not> lm_stop_closed m
      then Some (m\<lparr>lm_stop_closed := True\<rparr>) else None)"

definition close_expired :: "lock_mgr \<Rightarrow> lock_mgr option" where
  "close_expired m =
     (if lm_stop_closed m \<and> \<not> lm_expired_closed m then Some (m\<lparr>lm_expired_closed := True\<rparr>) else None)"

section \<open>Expiry\<close>

definition fire :: "time \<Rightarrow> nat \<Rightarrow> lock_mgr \<Rightarrow> lock_mgr option" where
  "fire clk i m = (case lm_timers m i of
     None \<Rightarrow> None
   | Some tm \<Rightarrow> if tm_due tm \<le> clk
       then Some (m\<lparr>lm_timers := (lm_timers m)(i := None), lm_fired := lm_fired m @ [(tm_key tm, tm_owner tm)]\<rparr>)
       else None)"

text \<open>The critical section of \<open>expire\<close>, run by the callback at position \<open>i\<close>.\<close>

definition expire :: "time \<Rightarrow> string \<Rightarrow> string \<Rightarrow> lock_mgr \<Rightarrow> lock_mgr" where
  "expire now key owner m = (case entry_of m key of
     None \<Rightarrow> m
   | Some e \<Rightarrow>
       if lk_owner e \<noteq> owner then m
       else if now < lk_expire_at e then m
       else (del_entry key m)\<lparr>lm_sending := lm_sending m @ [entry_lease key e]\<rparr>)"

definition expire_run :: "time \<Rightarrow> nat \<Rightarrow> lock_mgr \<Rightarrow> lock_mgr option" where
  "expire_run now i m =
     (if i < length (lm_fired m)
      then case lm_fired m ! i of
        (key, owner) \<Rightarrow> Some (expire now key owner (m\<lparr>lm_fired := remove_nth i (lm_fired m)\<rparr>))
      else None)"

text \<open>
  The select at the end of \<open>expire\<close>. A send to the closed channel panics, also inside a select; the
  default branch is taken only if no other case is ready.
\<close>

datatype send_outcome = Sent | Stopped | Dropped | SendPanic

definition send_ready :: "lock_mgr \<Rightarrow> send_outcome \<Rightarrow> bool" where
  "send_ready m r = (case r of
     Sent \<Rightarrow> \<not> lm_expired_closed m \<and> length (lm_expired m) < expired_cap
   | SendPanic \<Rightarrow> lm_expired_closed m
   | Stopped \<Rightarrow> lm_stop_closed m
   | Dropped \<Rightarrow> \<not> lm_stop_closed m \<and> \<not> lm_expired_closed m \<and> expired_cap \<le> length (lm_expired m))"

definition expire_send :: "nat \<Rightarrow> send_outcome \<Rightarrow> lock_mgr \<Rightarrow> lock_mgr option" where
  "expire_send i r m =
     (if i < length (lm_sending m) \<and> send_ready m r
      then Some (m\<lparr>lm_sending := remove_nth i (lm_sending m),
             lm_expired := (if r = Sent then lm_expired m @ [lm_sending m ! i] else lm_expired m)\<rparr>)
      else None)"

definition recv_expired :: "lock_mgr \<Rightarrow> lock_mgr option" where
  "recv_expired m = (case lm_expired m of [] \<Rightarrow> None | _ # ls \<Rightarrow> Some (m\<lparr>lm_expired := ls\<rparr>))"

section \<open>The transition system\<close>

datatype lock_action =
    Acquire string string duration
  | Release string string
  | ForceRelease string
  | Fire nat
  | ExpireRun nat
  | ExpireSend nat send_outcome
  | RecvExpired
  | CloseBegin
  | CloseStop
  | CloseExpired

text \<open>
  \<open>lock_step t a m\<close> is the action \<open>a\<close> at time \<open>t\<close>, when the manager was built with \<open>New(nil)\<close>, as the kernel
  does: its clock is then the clock of the timers.
\<close>

fun lock_step :: "time \<Rightarrow> lock_action \<Rightarrow> lock_mgr \<Rightarrow> lock_mgr option" where
  "lock_step t (Acquire k ow ttl) m = Some (snd (acquire t t k ow ttl m))"
| "lock_step t (Release k ow) m = Some (snd (release k ow m))"
| "lock_step t (ForceRelease k) m = Some (force_release k m)"
| "lock_step t (Fire i) m = fire t i m"
| "lock_step t (ExpireRun i) m = expire_run t i m"
| "lock_step t (ExpireSend i r) m = expire_send i r m"
| "lock_step t RecvExpired m = recv_expired m"
| "lock_step t CloseBegin m = close_begin m"
| "lock_step t CloseStop m = close_stop m"
| "lock_step t CloseExpired m = close_expired m"

inductive lock_reach :: "time \<Rightarrow> lock_mgr \<Rightarrow> bool" where
  lock_start: "lock_reach t new_lock_mgr"
| lock_next: "lock_reach t m \<Longrightarrow> t \<le> t' \<Longrightarrow> lock_step t' a m = Some m' \<Longrightarrow> lock_reach t' m'"

inductive lock_path :: "time \<Rightarrow> lock_mgr \<Rightarrow> lock_action list \<Rightarrow> time \<Rightarrow> lock_mgr \<Rightarrow> bool" where
  path_done: "lock_path t m [] t m"
| path_step: "t \<le> t1 \<Longrightarrow> lock_step t1 a m = Some m1 \<Longrightarrow> lock_path t1 m1 as t' m' \<Longrightarrow>
    lock_path t m (a # as) t' m'"

inductive_cases lock_path_Nil [elim!]: "lock_path t m [] t' m'"
inductive_cases lock_path_Cons [elim!]: "lock_path t m (a # as) t' m'"

section \<open>What the operations change\<close>

lemma entry_of_put [simp]:
  "entry_of (put_entry k e m) x = (if x = k \<and> lm_entries m \<noteq> None then Some e else entry_of m x)"
  by (auto simp: entry_of_def put_entry_def split: option.splits)

lemma entry_of_del [simp]: "entry_of (del_entry k m) x = (if x = k then None else entry_of m x)"
  by (auto simp: entry_of_def del_entry_def split: option.splits)

lemma entry_of_cong [simp]:
  "entry_of (after_func clk ttl k ow m) x = entry_of m x"
  "entry_of (stop_timer i m) x = entry_of m x"
  "entry_of (m\<lparr>lm_timers := tms\<rparr>) x = entry_of m x"
  "entry_of (m\<lparr>lm_fired := fs\<rparr>) x = entry_of m x"
  "entry_of (m\<lparr>lm_sending := ls\<rparr>) x = entry_of m x"
  "entry_of (m\<lparr>lm_expired := ls\<rparr>) x = entry_of m x"
  "entry_of (m\<lparr>lm_stop_closed := c\<rparr>) x = entry_of m x"
  "entry_of (m\<lparr>lm_expired_closed := c\<rparr>) x = entry_of m x"
  "entry_of (m\<lparr>lm_entries := None\<rparr>) x = None"
  "entry_of (m\<lparr>lm_stop_once := c\<rparr>) x = entry_of m x"
  "entry_of new_lock_mgr x = None"
  by (simp_all add: entry_of_def after_func_def stop_timer_def new_lock_mgr_def)

lemma timer_sel [simp]:
  "lm_entries (after_func clk ttl k ow m) = lm_entries m"
  "lm_entries (stop_timer i m) = lm_entries m"
  "lm_fired (after_func clk ttl k ow m) = lm_fired m"
  "lm_fired (stop_timer i m) = lm_fired m"
  "lm_fired (put_entry k e m) = lm_fired m"
  "lm_fired (del_entry k m) = lm_fired m"
  "lm_timers (put_entry k e m) = lm_timers m"
  "lm_timers (del_entry k m) = lm_timers m"
  "lm_timers (stop_timer i m) = (lm_timers m)(i := None)"
  "lm_timers (after_func clk ttl k ow m) = (lm_timers m)
     (lm_next_timer m \<mapsto> \<lparr>tm_key = k, tm_owner = ow, tm_due = clk + ttl\<rparr>)"
  "lm_next_timer (put_entry k e m) = lm_next_timer m"
  "lm_next_timer (del_entry k m) = lm_next_timer m"
  "lm_next_timer (stop_timer i m) = lm_next_timer m"
  "lm_next_timer (after_func clk ttl k ow m) = Suc (lm_next_timer m)"
  by (simp_all add: after_func_def stop_timer_def put_entry_def del_entry_def)

lemma entry_of_open: "entry_of m k = Some e \<Longrightarrow> lm_entries m \<noteq> None"
  by (auto simp: entry_of_def split: option.splits)

lemma lock_ttl_pos [simp]: "0 < lock_ttl ttl"
  by (simp add: lock_ttl_def)

lemmas lock_op_defs = acquire_def release_def force_release_def fire_def expire_run_def expire_def
  expire_send_def recv_expired_def close_begin_def close_stop_def close_expired_def Let_def

section \<open>Invariant\<close>

text \<open>
  Every entry has its own timer, and will be looked at once its time is up: its timer is armed for
  its expiry, or has fired and its callback waits for the mutex.
\<close>

definition watched :: "time \<Rightarrow> lock_mgr \<Rightarrow> string \<Rightarrow> lock_entry \<Rightarrow> bool" where
  "watched t m k e \<longleftrightarrow>
     lm_timers m (lk_timer e) = Some \<lparr>tm_key = k, tm_owner = lk_owner e, tm_due = lk_expire_at e\<rparr> \<or>
     (k, lk_owner e) \<in> set (lm_fired m) \<and> lk_expire_at e \<le> t"

definition entry_ok :: "time \<Rightarrow> lock_mgr \<Rightarrow> string \<Rightarrow> lock_entry \<Rightarrow> bool" where
  "entry_ok t m k e \<longleftrightarrow> k \<noteq> [] \<and> lk_owner e \<noteq> [] \<and> 1 \<le> lk_depth e \<and> lk_timer e < lm_next_timer m \<and>
     watched t m k e"

definition lock_ok :: "time \<Rightarrow> lock_mgr \<Rightarrow> bool" where
  "lock_ok t m \<longleftrightarrow>
     (\<forall>k e. entry_of m k = Some e \<longrightarrow> entry_ok t m k e) \<and>
     (\<forall>k e k' e'. entry_of m k = Some e \<and> entry_of m k' = Some e' \<and> lk_timer e = lk_timer e' \<longrightarrow> k = k') \<and>
     (lm_stop_once m \<longleftrightarrow> lm_entries m = None) \<and>
     (\<forall>i tm. lm_timers m i = Some tm \<longrightarrow> i < lm_next_timer m)"

lemma lock_okD:
  assumes "lock_ok t m" "entry_of m k = Some e"
  shows "entry_ok t m k e" "\<And>k' e'. entry_of m k' = Some e' \<Longrightarrow> lk_timer e' = lk_timer e \<Longrightarrow> k' = k"
  using assms by (auto simp: lock_ok_def)

lemma entry_ok_mono: "entry_ok t m k e \<Longrightarrow> t \<le> t' \<Longrightarrow> entry_ok t' m k e"
  by (auto simp: entry_ok_def watched_def)

lemma lock_ok_mono: "lock_ok t m \<Longrightarrow> t \<le> t' \<Longrightarrow> lock_ok t' m"
  unfolding lock_ok_def using entry_ok_mono by blast

lemma new_lock_ok: "lock_ok t new_lock_mgr"
  by (simp add: lock_ok_def) (simp add: new_lock_mgr_def)

lemma lock_okI:
  assumes "\<And>k e. entry_of m k = Some e \<Longrightarrow> entry_ok t m k e"
    and "\<And>k e k' e'. entry_of m k = Some e \<Longrightarrow> entry_of m k' = Some e' \<Longrightarrow> lk_timer e = lk_timer e' \<Longrightarrow> k = k'"
    and "lm_stop_once m \<longleftrightarrow> lm_entries m = None"
    and "\<And>i tm. lm_timers m i = Some tm \<Longrightarrow> i < lm_next_timer m"
  shows "lock_ok t m"
  using assms unfolding lock_ok_def by blast

lemma stop_once_sel [simp]:
  "lm_stop_once (after_func clk ttl k ow m) = lm_stop_once m"
  "lm_stop_once (stop_timer i m) = lm_stop_once m"
  "lm_stop_once (put_entry k e m) = lm_stop_once m"
  "lm_stop_once (del_entry k m) = lm_stop_once m"
  "lm_entries (put_entry k e m) = None \<longleftrightarrow> lm_entries m = None"
  "lm_entries (del_entry k m) = None \<longleftrightarrow> lm_entries m = None"
  by (simp_all add: after_func_def stop_timer_def put_entry_def del_entry_def)

text \<open>Stopping the timer of one entry leaves the others watched.\<close>

lemma stop_other_ok:
  assumes "lock_ok t m" "entry_of m key = Some e" "entry_of m k = Some f" "k \<noteq> key"
  shows "entry_ok t (stop_timer (lk_timer e) m) k f"
  using lock_okD(1) [OF assms(1,3)] lock_okD(2) [OF assms(1,2,3)] assms(4)
  by (auto simp: entry_ok_def watched_def)

lemma arm_other_ok:
  "entry_ok t m k f \<Longrightarrow> entry_ok t (put_entry key e (after_func t d key owner m)) k f"
  by (auto simp: entry_ok_def watched_def)

lemma arm_ok:
  assumes others: "\<And>k f. entry_of m k = Some f \<Longrightarrow> k \<noteq> key \<Longrightarrow> entry_ok t m k f"
    and uniq: "\<And>k f k' f'. entry_of m k = Some f \<Longrightarrow> entry_of m k' = Some f' \<Longrightarrow>
      lk_timer f = lk_timer f' \<Longrightarrow> k = k'"
    and "\<not> lm_stop_once m" "lm_entries m \<noteq> None"
    and tms: "\<And>i tm. lm_timers m i = Some tm \<Longrightarrow> i < lm_next_timer m"
    and e: "key \<noteq> []" "lk_owner e \<noteq> []" "1 \<le> lk_depth e" "lk_expire_at e = t + d" "lk_timer e = lm_next_timer m"
  shows "lock_ok t (put_entry key e (after_func t d key (lk_owner e) m))"
proof (rule lock_okI, goal_cases)
  case (1 k f)
  with assms show ?case
    by (auto simp: arm_other_ok split: if_splits) (simp add: entry_ok_def watched_def)
next
  case (2 k f k' f')
  have "lk_timer g \<noteq> lm_next_timer m" if "entry_of m x = Some g" "x \<noteq> key" for x g
    using others [OF that] by (auto simp: entry_ok_def)
  with 2 uniq e(5) show ?case by (auto split: if_splits)
qed (use assms in \<open>auto split: if_splits intro: less_SucI\<close>)

lemma acquire_ok:
  assumes ok: "lock_ok t m" and m': "m' = snd (acquire t t key owner ttl m)"
  shows "lock_ok t m'"
proof -
  consider (same) "m' = m"
    | (more) e where "key \<noteq> []" "owner \<noteq> []" "entry_of m key = Some e" "lk_owner e = owner"
        "m' = put_entry key (e\<lparr>lk_depth := lk_depth e + 1, lk_expire_at := t + lock_ttl ttl,
            lk_timer := lm_next_timer m\<rparr>)
          (after_func t (lock_ttl ttl) key owner (stop_timer (lk_timer e) m))"
    | (fresh) "key \<noteq> []" "owner \<noteq> []" "entry_of m key = None" "lm_entries m \<noteq> None"
        "m' = put_entry key \<lparr>lk_owner = owner, lk_depth = 1, lk_expire_at = t + lock_ttl ttl,
            lk_timer = lm_next_timer m\<rparr> (after_func t (lock_ttl ttl) key owner m)"
    | (closed) "lm_entries m = None" "m' = after_func t (lock_ttl ttl) key owner m"
    using m' by (auto simp: acquire_def Let_def split: if_splits option.splits)
  then show ?thesis
  proof cases
    case same
    with ok show ?thesis by simp
  next
    case (more e)
    have opened: "lm_entries m \<noteq> None" "\<not> lm_stop_once m"
      using ok entry_of_open [OF more(3)] by (auto simp: lock_ok_def)
    have uniq: "k = k'" if "entry_of m k = Some f" "entry_of m k' = Some f'" "lk_timer f = lk_timer f'"
      for k f k' f'
      using lock_okD(2) [OF ok that(2,1)] that(3) by simp
    have tms: "i < lm_next_timer m" if "lm_timers (stop_timer (lk_timer e) m) i = Some tm" for i tm
      using ok that by (auto simp: lock_ok_def split: if_splits)
    have "1 \<le> lk_depth e" using lock_okD(1) [OF ok more(3)] by (simp add: entry_ok_def)
    with arm_ok [of "stop_timer (lk_timer e) m" key t "e\<lparr>lk_depth := lk_depth e + 1,
        lk_expire_at := t + lock_ttl ttl, lk_timer := lm_next_timer m\<rparr>" "lock_ttl ttl"]
      stop_other_ok [OF ok more(3)] uniq tms more opened
    show ?thesis by simp
  next
    case fresh
    have opened: "\<not> lm_stop_once m"
      using ok fresh(4) by (auto simp: lock_ok_def)
    have uniq: "k = k'" if "entry_of m k = Some f" "entry_of m k' = Some f'" "lk_timer f = lk_timer f'"
      for k f k' f'
      using lock_okD(2) [OF ok that(2,1)] that(3) by simp
    have tms: "i < lm_next_timer m" if "lm_timers m i = Some tm" for i tm
      using ok that by (auto simp: lock_ok_def)
    from arm_ok [of m key t "\<lparr>lk_owner = owner, lk_depth = 1, lk_expire_at = t + lock_ttl ttl,
            lk_timer = lm_next_timer m\<rparr>" "lock_ttl ttl"] lock_okD(1) [OF ok] uniq tms fresh opened
    show ?thesis by simp
  next
    case closed
    then have "entry_of m k = None" for k by (simp add: entry_of_def)
    with ok closed show ?thesis
      by (intro lock_okI) (auto simp: lock_ok_def split: if_splits intro: less_SucI)
  qed
qed

text \<open>A step that only removes entries, and keeps the timers of the others, keeps the invariant.\<close>

lemma shrink_ok:
  assumes ok: "lock_ok t m"
    and sub: "\<And>k f. entry_of m' k = Some f \<Longrightarrow> entry_of m k = Some f \<and> entry_ok t m' k f"
    and "lm_stop_once m' \<longleftrightarrow> lm_entries m' = None"
    and "\<And>i tm. lm_timers m' i = Some tm \<Longrightarrow> i < lm_next_timer m'"
  shows "lock_ok t m'"
proof (rule lock_okI)
  fix k e k' e'
  assume "entry_of m' k = Some e" "entry_of m' k' = Some e'" "lk_timer e = lk_timer e'"
  then show "k = k'" using sub lock_okD(2) [OF ok] by metis
qed (use assms in blast)+

lemma timers_lt: "lock_ok t m \<Longrightarrow> lm_timers m i = Some tm \<Longrightarrow> i < lm_next_timer m"
  by (simp add: lock_ok_def)

lemma once_iff: "lock_ok t m \<Longrightarrow> lm_stop_once m \<longleftrightarrow> lm_entries m = None"
  by (simp add: lock_ok_def)

lemma drop_entry_ok:
  assumes ok: "lock_ok t m" and e: "entry_of m key = Some e"
  shows "lock_ok t (del_entry key (stop_timer (lk_timer e) m))"
proof (rule shrink_ok [OF ok])
  fix k f assume f: "entry_of (del_entry key (stop_timer (lk_timer e) m)) k = Some f"
  then have "entry_of m k = Some f" "k \<noteq> key" by (auto split: if_splits)
  with stop_other_ok [OF ok e this]
  show "entry_of m k = Some f \<and> entry_ok t (del_entry key (stop_timer (lk_timer e) m)) k f"
    by (simp add: entry_ok_def watched_def)
qed (use ok in \<open>auto simp: once_iff timers_lt split: if_splits\<close>)

lemma release_ok:
  assumes ok: "lock_ok t m" and m': "m' = snd (release key owner m)"
  shows "lock_ok t m'"
proof (cases "entry_of m key")
  case None
  with ok m' show ?thesis by (simp add: release_def)
next
  case (Some e)
  show ?thesis
  proof (cases "lk_owner e = owner \<and> 1 < lk_depth e")
    case False
    with Some ok m' drop_entry_ok [OF ok Some] show ?thesis
      by (auto simp: release_def Let_def)
  next
    case True
    then have eq: "m' = put_entry key (e\<lparr>lk_depth := lk_depth e - 1\<rparr>) m"
      using Some m' by (simp add: release_def Let_def)
    have opened: "lm_entries m \<noteq> None" by (rule entry_of_open [OF Some])
    show ?thesis
    proof (rule lock_okI)
      fix k f assume f: "entry_of m' k = Some f"
      show "entry_ok t m' k f"
        using f True lock_okD(1) [OF ok Some] lock_okD(1) [OF ok, of k] opened
        by (auto simp: eq entry_ok_def watched_def split: if_splits)
    next
      fix k f k' f'
      assume "entry_of m' k = Some f" "entry_of m' k' = Some f'" "lk_timer f = lk_timer f'"
      then show "k = k'"
        using lock_okD(2) [OF ok Some, of k] lock_okD(2) [OF ok Some, of k'] lock_okD(2) [OF ok, of k' f' k f]
          opened by (auto simp: eq split: if_splits)
    qed (use ok in \<open>auto simp: eq once_iff timers_lt\<close>)
  qed
qed

lemma force_release_ok: "lock_ok t m \<Longrightarrow> lock_ok t (force_release key m)"
  by (auto simp: force_release_def drop_entry_ok split: option.splits)

lemma fire_ok:
  assumes ok: "lock_ok t m" and step: "fire t i m = Some m'"
  shows "lock_ok t m'"
proof -
  obtain tm where tm: "lm_timers m i = Some tm" "tm_due tm \<le> t"
    "m' = m\<lparr>lm_timers := (lm_timers m)(i := None), lm_fired := lm_fired m @ [(tm_key tm, tm_owner tm)]\<rparr>"
    using step by (auto simp: fire_def split: option.splits if_splits)
  show ?thesis
  proof (rule shrink_ok [OF ok])
    fix k f assume f: "entry_of m' k = Some f"
    with tm have e: "entry_of m k = Some f" by (simp add: entry_of_def)
    with lock_okD(1) [OF ok e] tm show "entry_of m k = Some f \<and> entry_ok t m' k f"
      by (auto simp: entry_ok_def watched_def)
  qed (use ok tm in \<open>auto simp: once_iff timers_lt split: if_splits\<close>)
qed

lemma expire_sel [simp]:
  "lm_timers (expire now key owner m) = lm_timers m"
  "lm_fired (expire now key owner m) = lm_fired m"
  "lm_next_timer (expire now key owner m) = lm_next_timer m"
  "lm_stop_once (expire now key owner m) = lm_stop_once m"
  "lm_entries (expire now key owner m) = None \<longleftrightarrow> lm_entries m = None"
  by (auto simp: expire_def split: option.splits)

lemma entry_of_expire [simp]:
  "entry_of (expire now key owner m) k =
     (if k = key \<and> (\<exists>e. entry_of m key = Some e \<and> lk_owner e = owner \<and> lk_expire_at e \<le> now)
      then None else entry_of m k)"
  by (auto simp: expire_def split: option.splits)

lemma expire_run_ok:
  assumes ok: "lock_ok t m" and step: "expire_run t i m = Some m'"
  shows "lock_ok t m'"
proof -
  obtain key owner where i: "i < length (lm_fired m)" "lm_fired m ! i = (key, owner)"
    "m' = expire t key owner (m\<lparr>lm_fired := remove_nth i (lm_fired m)\<rparr>)"
    using step by (auto simp: expire_run_def split: if_splits prod.splits)
  show ?thesis
  proof (rule shrink_ok [OF ok])
    fix k f assume f: "entry_of m' k = Some f"
    with i have e: "entry_of m k = Some f" and live: "(k, lk_owner f) = (key, owner) \<Longrightarrow> t < lk_expire_at f"
      by (auto split: if_splits)
    have "(k, lk_owner f) \<in> set (remove_nth i (lm_fired m))"
      if "(k, lk_owner f) \<in> set (lm_fired m)" "lk_expire_at f \<le> t"
      using in_set_remove_nth [OF that(1) i(1)] i(2) live that(2) by auto
    with lock_okD(1) [OF ok e] i e show "entry_of m k = Some f \<and> entry_ok t m' k f"
      by (auto simp: entry_ok_def watched_def)
  qed (use ok i in \<open>auto simp: once_iff timers_lt\<close>)
qed

lemma cong_ok:
  assumes "lock_ok t m" "entry_of m' = entry_of m" "lm_entries m' = lm_entries m" "lm_timers m' = lm_timers m"
    "lm_fired m' = lm_fired m" "lm_next_timer m' = lm_next_timer m" "lm_stop_once m' = lm_stop_once m"
  shows "lock_ok t m'"
  by (rule shrink_ok [OF assms(1)])
    (use assms lock_okD(1) [OF assms(1)] in \<open>auto simp: entry_ok_def watched_def once_iff timers_lt\<close>)

lemma close_begin_ok: "lock_ok t m \<Longrightarrow> close_begin m = Some m' \<Longrightarrow> lock_ok t m'"
  by (intro lock_okI)
    (auto simp: close_begin_def stop_all_timers_def timers_lt entry_of_def split: if_splits option.splits)

lemma lock_step_ok:
  assumes "lock_ok t m" and "lock_step t a m = Some m'"
  shows "lock_ok t m'"
proof (cases a)
  case (ExpireSend i r)
  with assms show ?thesis
    by (intro cong_ok [OF assms(1)]) (auto simp: expire_send_def entry_of_def split: if_splits)
next
  case RecvExpired
  with assms show ?thesis
    by (intro cong_ok [OF assms(1)]) (auto simp: recv_expired_def entry_of_def split: list.splits)
next
  case CloseStop
  with assms show ?thesis
    by (intro cong_ok [OF assms(1)]) (auto simp: close_stop_def entry_of_def split: if_splits)
next
  case CloseExpired
  with assms show ?thesis
    by (intro cong_ok [OF assms(1)]) (auto simp: close_expired_def entry_of_def split: if_splits)
qed (use assms in \<open>auto intro: acquire_ok release_ok force_release_ok fire_ok expire_run_ok close_begin_ok\<close>)

lemma reach_lock_ok: "lock_reach t m \<Longrightarrow> lock_ok t m"
  by (induction rule: lock_reach.induct) (auto intro: new_lock_ok lock_step_ok lock_ok_mono)

section \<open>The contract of a lock service\<close>

text \<open>
  What the clients of the manager rely on: the owner and the depth of every held key, as a function of
  the state, and how the operations change it.
\<close>

locale lock_service =
  fixes acq :: "time \<Rightarrow> string \<Rightarrow> string \<Rightarrow> duration \<Rightarrow> 's \<Rightarrow> (lock_error + lease) \<times> 's"
    and rel :: "string \<Rightarrow> string \<Rightarrow> 's \<Rightarrow> (lock_error + unit) \<times> 's"
    and force_rel :: "string \<Rightarrow> 's \<Rightarrow> 's"
    and hold :: "time \<Rightarrow> string \<Rightarrow> 's \<Rightarrow> string \<times> duration"
    and held :: "'s \<Rightarrow> string \<Rightarrow> (string \<times> int) option"
    and usable :: "'s \<Rightarrow> bool"
  assumes acq_free: "usable s \<Longrightarrow> k \<noteq> [] \<Longrightarrow> ow \<noteq> [] \<Longrightarrow> held s k = None \<Longrightarrow>
      \<exists>l s'. acq t k ow ttl s = (Inr l, s') \<and> usable s' \<and> held s' = (held s)(k \<mapsto> (ow, 1)) \<and>
        ls_key l = k \<and> ls_owner l = ow \<and> ls_depth l = 1"
    and acq_again: "usable s \<Longrightarrow> k \<noteq> [] \<Longrightarrow> ow \<noteq> [] \<Longrightarrow> held s k = Some (ow, d) \<Longrightarrow>
      \<exists>l s'. acq t k ow ttl s = (Inr l, s') \<and> usable s' \<and> held s' = (held s)(k \<mapsto> (ow, d + 1)) \<and>
        ls_key l = k \<and> ls_owner l = ow \<and> ls_depth l = d + 1"
    and acq_conflict: "k \<noteq> [] \<Longrightarrow> ow \<noteq> [] \<Longrightarrow> held s k = Some (ow', d) \<Longrightarrow> ow' \<noteq> ow \<Longrightarrow>
      acq t k ow ttl s = (Inl ErrConflict, s)"
    and acq_bad: "k = [] \<or> ow = [] \<Longrightarrow> acq t k ow ttl s = (Inl KeyOwnerRequired, s)"
    and rel_held: "usable s \<Longrightarrow> held s k = Some (ow, d) \<Longrightarrow>
      \<exists>s'. rel k ow s = (Inr (), s') \<and> usable s' \<and>
        held s' = (held s)(k := if d \<le> 1 then None else Some (ow, d - 1))"
    and rel_not_held: "(\<forall>d. held s k \<noteq> Some (ow, d)) \<Longrightarrow> rel k ow s = (Inl ErrNotHeld, s)"
    and force_held: "usable s \<Longrightarrow> usable (force_rel k s) \<and> held (force_rel k s) = (held s)(k := None)"
    and hold_held: "fst (hold t k s) = (case held s k of None \<Rightarrow> [] | Some (ow, d) \<Rightarrow> ow)"
    and depth_pos: "usable s \<Longrightarrow> held s k = Some (ow, d) \<Longrightarrow> 1 \<le> d \<and> ow \<noteq> []"
begin

lemma acq_cases:
  assumes "usable s"
  shows "(k = [] \<or> ow = []) \<and> acq t k ow ttl s = (Inl KeyOwnerRequired, s) \<or>
    k \<noteq> [] \<and> ow \<noteq> [] \<and>
      (\<exists>ow' d. held s k = Some (ow', d) \<and> ow' \<noteq> ow \<and> acq t k ow ttl s = (Inl ErrConflict, s)) \<or>
    (\<exists>l s' d. acq t k ow ttl s = (Inr l, s') \<and> k \<noteq> [] \<and> ow \<noteq> [] \<and> usable s' \<and>
       held s' = (held s)(k \<mapsto> (ow, d)) \<and> ls_key l = k \<and> ls_owner l = ow \<and> ls_depth l = d \<and>
       (held s k = None \<and> d = 1 \<or> held s k = Some (ow, d - 1)))"
proof (cases "k = [] \<or> ow = []")
  case True
  then show ?thesis by (simp add: acq_bad)
next
  case False
  then have ne: "k \<noteq> []" "ow \<noteq> []" by auto
  show ?thesis
  proof (cases "held s k")
    case None
    with acq_free [OF assms ne None, of t ttl] show ?thesis by (metis ne)
  next
    case (Some h)
    obtain ow' d where h: "h = (ow', d)" by (cases h)
    show ?thesis
    proof (cases "ow' = ow")
      case True
      with acq_again [OF assms ne, of d t ttl] Some h show ?thesis
        by (metis ne add_diff_cancel_right')
    next
      case False
      with acq_conflict [OF ne _ False, of s d t ttl] Some h show ?thesis using ne by blast
    qed
  qed
qed

lemma acq_usable: "usable s \<Longrightarrow> usable (snd (acq t k ow ttl s))"
  using acq_cases [of s k ow t ttl] by auto

lemma rel_usable: "usable s \<Longrightarrow> usable (snd (rel k ow s))"
proof (cases "\<exists>d. held s k = Some (ow, d)")
  case True
  assume "usable s"
  with True rel_held show ?thesis by (metis snd_conv)
next
  case False
  assume "usable s"
  with False rel_not_held [of s k ow] show ?thesis by simp
qed

text \<open>A call for one key leaves the other keys alone.\<close>

lemma acq_other_key: "usable s \<Longrightarrow> k' \<noteq> k \<Longrightarrow> held (snd (acq t k ow ttl s)) k' = held s k'"
  using acq_cases [of s k ow t ttl] by auto

lemma rel_other_key: "usable s \<Longrightarrow> k' \<noteq> k \<Longrightarrow> held (snd (rel k ow s)) k' = held s k'"
  using rel_held [of s k ow] rel_not_held [of s k ow] by (metis fun_upd_apply snd_conv)

lemma acquire_n:
  assumes "usable s" "k \<noteq> []" "ow \<noteq> []" "held s k = None"
  shows "usable (((\<lambda>s. snd (acq t k ow ttl s)) ^^ n) s) \<and>
    held (((\<lambda>s. snd (acq t k ow ttl s)) ^^ n) s) k = (if n = 0 then None else Some (ow, int n))"
proof (induction n)
  case 0
  with assms show ?case by simp
next
  case (Suc n)
  let ?s = "((\<lambda>s. snd (acq t k ow ttl s)) ^^ n) s"
  show ?case
  proof (cases "n = 0")
    case True
    with acq_free [OF assms, of t ttl] show ?thesis by auto
  next
    case False
    with Suc acq_again [of ?s k ow "int n" t ttl] assms(2,3) show ?thesis by auto
  qed
qed

lemma release_n:
  assumes "usable s" "held s k = Some (ow, int n)"
  shows "j \<le> n \<Longrightarrow> usable (((\<lambda>s. snd (rel k ow s)) ^^ j) s) \<and>
    held (((\<lambda>s. snd (rel k ow s)) ^^ j) s) k = (if j = n then None else Some (ow, int n - int j))"
proof (induction j)
  case 0
  from depth_pos [OF assms] have "n \<noteq> 0" by auto
  with assms show ?case by simp
next
  case (Suc j)
  let ?s = "((\<lambda>s. snd (rel k ow s)) ^^ j) s"
  from Suc have "usable ?s" "held ?s k = Some (ow, int n - int j)" by auto
  from rel_held [OF this] Suc.prems show ?case by auto
qed

end

definition held :: "lock_mgr \<Rightarrow> string \<Rightarrow> (string \<times> int) option" where
  "held m k = map_option (\<lambda>e. (lk_owner e, lk_depth e)) (entry_of m k)"

definition usable :: "lock_mgr \<Rightarrow> bool" where
  "usable m \<longleftrightarrow> lm_entries m \<noteq> None \<and>
     (\<forall>k e. entry_of m k = Some e \<longrightarrow> 1 \<le> lk_depth e \<and> lk_owner e \<noteq> [])"

lemma held_upd [simp]:
  "lm_entries m \<noteq> None \<Longrightarrow> held (put_entry k e m) = (held m)(k \<mapsto> (lk_owner e, lk_depth e))"
  "held (del_entry k m) = (held m)(k := None)"
  "held (after_func clk ttl x ow m) = held m"
  "held (stop_timer i m) = held m"
  by (auto simp: held_def)

lemma heldE: "held m k = Some (ow, d) \<Longrightarrow> (\<And>e. entry_of m k = Some e \<Longrightarrow> lk_owner e = ow \<Longrightarrow> lk_depth e = d \<Longrightarrow> P) \<Longrightarrow> P"
  by (auto simp: held_def)

lemma held_None [simp]: "held m k = None \<longleftrightarrow> entry_of m k = None"
  by (simp add: held_def)

lemma usable_open [simp]: "usable m \<Longrightarrow> \<exists>es. lm_entries m = Some es"
  by (simp add: usable_def)

lemma usable_put: "usable m \<Longrightarrow> 1 \<le> lk_depth e \<Longrightarrow> lk_owner e \<noteq> [] \<Longrightarrow> usable (put_entry k e m)"
  by (auto simp: usable_def)

lemma usable_del: "usable m \<Longrightarrow> usable (del_entry k m)"
  by (auto simp: usable_def)

lemma usable_timer [simp]:
  "usable (after_func clk ttl x ow m) = usable m" "usable (stop_timer i m) = usable m"
  by (simp_all add: usable_def)

interpretation lm: lock_service "\<lambda>t. acquire t t" release force_release holder held usable
proof (unfold_locales, goal_cases)
  case (1 s k ow t ttl)
  then show ?case by (auto simp: acquire_def Let_def entry_lease_def intro!: usable_put)
next
  case (2 s k ow d t ttl)
  then obtain e where "entry_of s k = Some e" "lk_owner e = ow" "lk_depth e = d" by (auto elim: heldE)
  moreover from this 2(1) have "1 \<le> d" by (auto simp: usable_def)
  ultimately show ?case using 2
    by (auto simp: acquire_def Let_def entry_lease_def intro!: usable_put)
next
  case (3 k ow s ow' d t ttl)
  then show ?case by (auto simp: acquire_def Let_def elim!: heldE)
next
  case (4 k ow t ttl s)
  then show ?case by (auto simp: acquire_def)
next
  case (5 s k ow d)
  then obtain e where "entry_of s k = Some e" "lk_owner e = ow" "lk_depth e = d" by (auto elim: heldE)
  moreover from this 5(1) have "lk_owner e \<noteq> []" by (auto simp: usable_def)
  ultimately show ?case using 5
    by (auto simp: release_def Let_def intro!: usable_put usable_del)
next
  case (6 s k ow)
  then show ?case by (auto simp: release_def held_def split: option.splits)
next
  case (7 s k)
  then show ?case by (auto simp: force_release_def usable_del split: option.splits)
next
  case (8 t k s)
  then show ?case by (auto simp: holder_def held_def split: option.splits)
next
  case (9 s k ow d)
  then show ?case by (auto simp: usable_def elim!: heldE)
qed

declare held_None [simp del]

lemma usable_new: "usable new_lock_mgr"
  by (simp add: usable_def) (simp add: new_lock_mgr_def)

lemma reach_usable: "lock_reach t m \<Longrightarrow> lm_entries m \<noteq> None \<Longrightarrow> usable m"
  using reach_lock_ok [of t m] by (auto simp: usable_def lock_ok_def entry_ok_def)

section \<open>Holding a lock over time\<close>

lemma path_time: "lock_path t m as t' m' \<Longrightarrow> t \<le> t'"
  by (induction rule: lock_path.induct) auto

lemma path_reach: "lock_path t m as t' m' \<Longrightarrow> lock_reach t m \<Longrightarrow> lock_reach t' m'"
  by (induction rule: lock_path.induct) (auto intro: lock_next)

text \<open>The actions that can end or change what \<open>owner\<close> holds on \<open>key\<close> before its time is up.\<close>

definition interferes :: "string \<Rightarrow> string \<Rightarrow> lock_action \<Rightarrow> bool" where
  "interferes key owner a \<longleftrightarrow> (case a of
      Acquire k ow _ \<Rightarrow> k = key \<and> ow = owner
    | Release k ow \<Rightarrow> k = key \<and> ow = owner
    | ForceRelease k \<Rightarrow> k = key
    | CloseBegin \<Rightarrow> True
    | _ \<Rightarrow> False)"

lemma acquire_entry:
  "entry_of m key = Some e \<Longrightarrow> \<not> (k = key \<and> ow = lk_owner e) \<Longrightarrow>
   entry_of (snd (acquire t t k ow ttl m)) key = Some e"
  by (auto simp: acquire_def Let_def split: option.splits)

lemma step_keeps_entry:
  assumes e: "entry_of m key = Some e" and a: "\<not> interferes key (lk_owner e) a"
    and step: "lock_step t a m = Some m'" and early: "t < lk_expire_at e"
  shows "entry_of m' key = Some e"
proof (cases a)
  case (Acquire k ow ttl)
  with acquire_entry [OF e, of k ow t ttl] a step show ?thesis by (auto simp: interferes_def)
next
  case (Release k ow)
  with e a step show ?thesis
    by (auto simp: interferes_def release_def Let_def split: option.splits if_splits)
next
  case (ForceRelease k)
  with e a step show ?thesis
    by (auto simp: interferes_def force_release_def split: option.splits)
next
  case (Fire i)
  with e step show ?thesis
    by (auto simp: fire_def entry_of_def split: option.splits if_splits)
next
  case (ExpireRun i)
  with e step early show ?thesis
    by (auto simp: expire_run_def split: if_splits prod.splits)
qed (use e a step in \<open>auto simp: interferes_def expire_send_def recv_expired_def close_stop_def
  close_expired_def entry_of_def split: if_splits list.splits\<close>)

lemma path_keeps_entry:
  "lock_path t m as t' m' \<Longrightarrow> entry_of m key = Some e \<Longrightarrow> t' < lk_expire_at e \<Longrightarrow>
   (\<forall>a\<in>set as. \<not> interferes key (lk_owner e) a) \<Longrightarrow> t \<le> t' \<and> entry_of m' key = Some e"
proof (induction rule: lock_path.induct)
  case (path_step t t1 a m m1 as t' m')
  have "t1 \<le> t'" by (rule path_time [OF path_step.hyps(3)])
  with path_step step_keeps_entry [of m key e a t1 m1] show ?case by auto
qed simp

lemma acquire_granted:
  "acquire t t k ow ttl m = (Inr l, m') \<Longrightarrow>
   \<exists>e. entry_of m' k = Some e \<and> lk_owner e = ow \<and> lk_expire_at e = t + lock_ttl ttl"
  by (auto simp: acquire_def Let_def dest: entry_of_open split: if_splits option.splits)

section \<open>Properties\<close>

text \<open>
  C2: A held lock does not outlive its time to live: whatever happened before, once the expiry of an
  entry has passed, the timer callbacks alone free its key in at most two steps and touch no other key.
\<close>

theorem lock_ttl_liveness:
  assumes reach: "lock_reach t0 m" and e: "entry_of m key = Some e"
    and late: "lk_expire_at e \<le> t" "t0 \<le> t"
  shows "\<exists>as m'. length as \<le> 2 \<and> set as \<subseteq> range Fire \<union> range ExpireRun \<and> lock_path t0 m as t m' \<and>
    entry_of m' key = None \<and> (\<forall>k. k \<noteq> key \<longrightarrow> entry_of m' k = entry_of m k)"
proof -
  have run: "\<exists>i m'. lock_step t (ExpireRun i) n = Some m' \<and> entry_of m' key = None \<and>
      (\<forall>k. k \<noteq> key \<longrightarrow> entry_of m' k = entry_of n k)"
    if "(key, lk_owner e) \<in> set (lm_fired n)" and "entry_of n key = Some e" for n
  proof -
    from that(1) obtain i where i: "i < length (lm_fired n)" "lm_fired n ! i = (key, lk_owner e)"
      by (auto simp: in_set_conv_nth)
    show ?thesis
      by (intro exI [of _ i]) (use i that(2) late in \<open>simp add: expire_run_def\<close>)
  qed
  have "watched t0 m key e"
    using lock_okD(1) [OF reach_lock_ok [OF reach] e] by (simp add: entry_ok_def)
  then consider (armed) "lm_timers m (lk_timer e) =
        Some \<lparr>tm_key = key, tm_owner = lk_owner e, tm_due = lk_expire_at e\<rparr>"
    | (fired) "(key, lk_owner e) \<in> set (lm_fired m)"
    by (auto simp: watched_def)
  then show ?thesis
  proof cases
    case armed
    define n where "n = m\<lparr>lm_timers := (lm_timers m)(lk_timer e := None),
      lm_fired := lm_fired m @ [(key, lk_owner e)]\<rparr>"
    have fire: "lock_step t (Fire (lk_timer e)) m = Some n"
      using armed late by (simp add: fire_def n_def)
    have n: "entry_of n x = entry_of m x" for x by (simp add: n_def entry_of_def)
    from run [of n] n e obtain i m' where step: "lock_step t (ExpireRun i) n = Some m'"
      "entry_of m' key = None" "\<forall>k. k \<noteq> key \<longrightarrow> entry_of m' k = entry_of m k"
      by (auto simp: n_def)
    have "lock_path t0 m [Fire (lk_timer e), ExpireRun i] t m'"
      using late fire step(1) by (blast intro: path_step path_done)
    with step show ?thesis
      by (intro exI [of _ "[Fire (lk_timer e), ExpireRun i]"] exI [of _ m']) auto
  next
    case fired
    from run [OF fired e] obtain i m' where step: "lock_step t (ExpireRun i) m = Some m'"
      "entry_of m' key = None" "\<forall>k. k \<noteq> key \<longrightarrow> entry_of m' k = entry_of m k" by blast
    have "lock_path t0 m [ExpireRun i] t m'"
      using late step(1) by (blast intro: path_step path_done)
    with step show ?thesis
      by (intro exI [of _ "[ExpireRun i]"] exI [of _ m']) auto
  qed
qed

text \<open>One lock, taken at time 5 for 10 nanoseconds.\<close>

definition one_lock :: lock_mgr where
  "one_lock = snd (acquire 5 5 ''s1'' ''alice'' 10 new_lock_mgr)"

lemma one_lock_reach: "lock_reach 5 one_lock"
  using lock_next [OF lock_start, of 5 5 "Acquire ''s1'' ''alice'' 10"] by (simp add: one_lock_def)

lemma one_lock_entry:
  "\<exists>e. entry_of one_lock ''s1'' = Some e \<and> lk_owner e = ''alice'' \<and> lk_expire_at e = 15 \<and> lk_depth e = 1"
  by (simp add: one_lock_def acquire_def Let_def lock_ttl_def) (simp add: new_lock_mgr_def)

theorem lock_ttl_liveness_witness:
  "\<exists>as m'. lock_path 5 one_lock as 15 m' \<and> entry_of m' ''s1'' = None"
proof -
  from one_lock_entry obtain e where "entry_of one_lock ''s1'' = Some e" "lk_expire_at e = 15" by blast
  with lock_ttl_liveness [OF one_lock_reach this(1), of 15] show ?thesis by auto
qed

text \<open>
  C3: A held lock is exclusive until its time is up: along any run of the manager that ends before the
  expiry of an entry and in which its owner does not touch the key, nobody force-releases it and the
  manager is not closed, the entry stays as it is, whatever callbacks of earlier timers run, and
  \<open>Acquire\<close> by anybody else returns \<open>ErrConflict\<close> and changes nothing.
\<close>

theorem lock_exclusive:
  assumes "entry_of m key = Some e" and "lock_path t m as t' m'" and "t' < lk_expire_at e"
    and "\<forall>a\<in>set as. \<not> interferes key (lk_owner e) a"
  shows "entry_of m' key = Some e \<and>
    (key \<noteq> [] \<and> owner \<noteq> [] \<and> owner \<noteq> lk_owner e \<longrightarrow>
       acquire now clk key owner ttl m' = (Inl ErrConflict, m'))"
  using path_keeps_entry [OF assms(2,1,3,4)] by (auto simp: acquire_def Let_def)

theorem lock_exclusive_witness:
  "\<exists>m'. lock_path 5 one_lock [Acquire ''s1'' ''bob'' 3, ForceRelease ''s2''] 9 m' \<and>
     acquire 9 9 ''s1'' ''bob'' 3 m' = (Inl ErrConflict, m')"
proof -
  from one_lock_entry obtain e where e: "entry_of one_lock ''s1'' = Some e" "lk_owner e = ''alice''"
    "lk_expire_at e = 15" by blast
  have "lock_path 5 one_lock [Acquire ''s1'' ''bob'' 3, ForceRelease ''s2''] 9
      (force_release ''s2'' (snd (acquire 9 9 ''s1'' ''bob'' 3 one_lock)))"
    by (rule path_step [OF _ _ path_step [OF _ _ path_done]]) auto
  then obtain m' where path: "lock_path 5 one_lock [Acquire ''s1'' ''bob'' 3, ForceRelease ''s2''] 9 m'" ..
  from e lock_exclusive [OF e(1) path] have "acquire 9 9 ''s1'' ''bob'' 3 m' = (Inl ErrConflict, m')"
    by (simp add: interferes_def)
  with path show ?thesis by (intro exI conjI)
qed

definition acquires :: "nat \<Rightarrow> time \<Rightarrow> string \<Rightarrow> string \<Rightarrow> duration \<Rightarrow> lock_mgr \<Rightarrow> lock_mgr" where
  "acquires n t key owner ttl = (\<lambda>m. snd (acquire t t key owner ttl m)) ^^ n"

definition releases :: "nat \<Rightarrow> string \<Rightarrow> string \<Rightarrow> lock_mgr \<Rightarrow> lock_mgr" where
  "releases j key owner = (\<lambda>m. snd (release key owner m)) ^^ j"

text \<open>
  Reentrancy is balanced: on a free key, \<open>n\<close> calls of \<open>Acquire\<close> by one owner followed by \<open>j\<close> of
  \<open>Release\<close> leave the key held by that owner at depth \<open>n - j\<close>, and free once \<open>j\<close> is \<open>n\<close>, after which one more
  \<open>Release\<close> returns \<open>ErrNotHeld\<close>.
\<close>

theorem lock_reentrancy:
  assumes "lock_reach t m" and "lm_entries m \<noteq> None" and "held m key = None" and "key \<noteq> []" "owner \<noteq> []"
    and "j \<le> n" "0 < n"
  shows "held (acquires n t key owner ttl m) key = Some (owner, int n) \<and>
    held (releases j key owner (acquires n t key owner ttl m)) key =
      (if j = n then None else Some (owner, int n - int j)) \<and>
    (j = n \<longrightarrow> fst (release key owner (releases j key owner (acquires n t key owner ttl m))) = Inl ErrNotHeld)"
proof -
  let ?m1 = "acquires n t key owner ttl m"
  have 1: "usable ?m1" "held ?m1 key = Some (owner, int n)"
    using lm.acquire_n [OF reach_usable [OF assms(1,2)] assms(4,5,3), where n = n and t = t and ttl = ttl] assms(7)
    by (simp_all add: acquires_def)
  then have 2: "held (releases j key owner ?m1) key = (if j = n then None else Some (owner, int n - int j))"
    using lm.release_n [OF 1 assms(6)] by (simp add: releases_def)
  with 1 lm.rel_not_held [of "releases j key owner ?m1" key owner] show ?thesis
    by (cases "j = n") (simp_all add: held_def)
qed

theorem lock_reentrancy_witness:
  "held (releases 1 ''s'' ''a'' (acquires 2 0 ''s'' ''a'' 5 new_lock_mgr)) ''s'' = Some (''a'', 1)"
proof -
  have "lm_entries new_lock_mgr \<noteq> None" by (simp add: new_lock_mgr_def)
  with lock_reentrancy [OF lock_start [of 0], of "''s''" "''a''" 1 2 5] show ?thesis
    by (simp add: held_def)
qed

definition spec_acquire :: "string \<Rightarrow> string \<Rightarrow> (string \<rightharpoonup> string \<times> int) \<Rightarrow> (lock_error + int) \<times> (string \<rightharpoonup> string \<times> int)"
  where "spec_acquire k ow T =
    (if k = [] \<or> ow = [] then (Inl KeyOwnerRequired, T)
     else case T k of
       None \<Rightarrow> (Inr 1, T(k \<mapsto> (ow, 1)))
     | Some (ow', d) \<Rightarrow> if ow' = ow then (Inr (d + 1), T(k \<mapsto> (ow, d + 1))) else (Inl ErrConflict, T))"

definition spec_release :: "string \<Rightarrow> string \<Rightarrow> (string \<rightharpoonup> string \<times> int) \<Rightarrow> (lock_error + unit) \<times> (string \<rightharpoonup> string \<times> int)"
  where "spec_release k ow T = (case T k of
       None \<Rightarrow> (Inl ErrNotHeld, T)
     | Some (ow', d) \<Rightarrow> if ow' \<noteq> ow then (Inl ErrNotHeld, T)
         else (Inr (), T(k := if d \<le> 1 then None else Some (ow, d - 1))))"

text \<open>
  C38: The manager implements the abstract lock table that maps a held key to its owner and depth:
  on that table every operation of an open manager acts as specified, and an operation for one key
  leaves the others alone.
\<close>

theorem lock_refines_table:
  assumes "lock_reach t0 m" and "lm_entries m \<noteq> None"
  shows "map_prod (map_sum id ls_depth) held (acquire t t k ow ttl m) = spec_acquire k ow (held m) \<and>
    map_prod id held (release k ow m) = spec_release k ow (held m) \<and>
    held (force_release k m) = (held m)(k := None) \<and>
    fst (holder t k m) = (case held m k of None \<Rightarrow> [] | Some (ow, d) \<Rightarrow> ow)"
proof (intro conjI)
  note u = reach_usable [OF assms]
  show "map_prod (map_sum id ls_depth) held (acquire t t k ow ttl m) = spec_acquire k ow (held m)"
    using lm.acq_cases [OF u, of k ow t ttl] by (auto simp: spec_acquire_def)
  show "map_prod id held (release k ow m) = spec_release k ow (held m)"
    using lm.rel_held [OF u, of k ow] lm.rel_not_held [of m k ow]
    by (cases "held m k") (fastforce simp: spec_release_def)+
  show "held (force_release k m) = (held m)(k := None)"
    using lm.force_held [OF u] by blast
  show "fst (holder t k m) = (case held m k of None \<Rightarrow> [] | Some (ow, d) \<Rightarrow> ow)"
    by (rule lm.hold_held)
qed

theorem lock_refines_table_witness:
  "map_prod (map_sum id ls_depth) held (acquire 6 6 ''s1'' ''alice'' 4 one_lock)
     = (Inr 2, (held one_lock)(''s1'' \<mapsto> (''alice'', 2)))"
proof -
  from one_lock_entry obtain e where e: "entry_of one_lock ''s1'' = Some e" "lk_owner e = ''alice''"
    "lk_depth e = 1" by blast
  then have "held one_lock ''s1'' = Some (''alice'', 1)" by (simp add: held_def)
  with lock_refines_table [OF one_lock_reach entry_of_open [OF e(1)], of 6 "''s1''" "''alice''" 4]
  show ?thesis by (simp add: spec_acquire_def)
qed

text \<open>
  C39: \<open>Close\<close> is not safe for what is still under way: after its critical section the next \<open>Acquire\<close>
  assigns to a nil map, and there is a run in which the callback of a timer that fired before \<open>Close\<close>
  sends to the channel \<open>Close\<close> has closed. Both panic.
\<close>

theorem lock_close_panics:
  "(\<forall>m m' t k ow ttl. close_begin m = Some m' \<and> k \<noteq> [] \<and> ow \<noteq> [] \<longrightarrow>
      fst (acquire t t k ow ttl m') = Inl NilMapWrite) \<and>
   (\<exists>t m m'. lock_reach t m \<and> expire_send 0 SendPanic m = Some m')"
proof (intro conjI)
  show "\<forall>m m' t k ow ttl. close_begin m = Some m' \<and> k \<noteq> [] \<and> ow \<noteq> [] \<longrightarrow>
      fst (acquire t t k ow ttl m') = Inl NilMapWrite"
    by (auto simp: close_begin_def acquire_def entry_of_def Let_def split: if_splits)
next
  let ?as = "[Fire 0, ExpireRun 0, CloseBegin, CloseStop, CloseExpired]"
  have "\<exists>m'. lock_path 5 one_lock ?as 15 m' \<and> expire_send 0 SendPanic m' \<noteq> None"
    unfolding one_lock_def
    by (rule exI, rule conjI, (rule path_step [of _ 15], simp,
        simp add: lock_op_defs lock_ttl_def new_lock_mgr_def entry_of_def after_func_def put_entry_def
          del_entry_def remove_nth_def entry_lease_def)+, rule path_done)
      (simp add: expire_send_def send_ready_def)
  then obtain m' where "lock_path 5 one_lock ?as 15 m'" "expire_send 0 SendPanic m' \<noteq> None"
    by (elim exE conjE)
  then show "\<exists>t m m'. lock_reach t m \<and> expire_send 0 SendPanic m = Some m'"
    using path_reach [OF _ one_lock_reach] by (metis not_None_eq)
qed

theorem lock_close_panics_witness:
  "\<exists>m'. close_begin new_lock_mgr = Some m' \<and> fst (acquire 0 0 ''k'' ''a'' 1 m') = Inl NilMapWrite"
proof -
  obtain m' where m': "close_begin new_lock_mgr = Some m'"
    by (cases "close_begin new_lock_mgr") (simp_all add: close_begin_def new_lock_mgr_def)
  with lock_close_panics have "fst (acquire 0 0 ''k'' ''a'' 1 m') = Inl NilMapWrite" by auto
  with m' show ?thesis by (intro exI conjI)
qed

end
