(* ===== verification/Scheduler.thy ===== *)
theory Scheduler
  imports GoStrings LockMgr
begin

text \<open>
  The intent scheduler (\<open>kernel/scheduler\<close>): a chain of rules, then one attempt to lock the resource.
  A rule reads and writes what it closes over (\<open>'w\<close>) and may change the request; \<open>None\<close> is a panic of
  the lock manager. Between the failed \<open>Acquire\<close> and \<open>Holder\<close> the mutex is free: \<open>between\<close> is what others
  do to the manager in the meantime.
\<close>

section \<open>Requests, decisions, rules\<close>

record intent_request =
  iq_kind :: string
  iq_session_id :: string
  iq_execution_id :: string
  iq_owner :: string
  iq_resource_key :: string
  iq_engine :: string
  iq_command :: string
  iq_cwd :: string
  iq_tags :: "string list"

type_synonym outcome = string

abbreviation outcome_admit :: outcome where "outcome_admit \<equiv> ''admit''"
abbreviation outcome_deny :: outcome where "outcome_deny \<equiv> ''deny''"
abbreviation outcome_defer :: outcome where "outcome_defer \<equiv> ''defer''"
abbreviation outcome_need_confirm :: outcome where "outcome_need_confirm \<equiv> ''need_confirm''"

record decision =
  dc_outcome :: outcome
  dc_reason :: string
  dc_lock_key :: string
  dc_lock_ttl :: duration
  dc_conflict :: string

definition empty_decision :: decision where
  "empty_decision =
     \<lparr>dc_outcome = [], dc_reason = [], dc_lock_key = [], dc_lock_ttl = 0, dc_conflict = []\<rparr>"

type_synonym 'w rule = "intent_request \<Rightarrow> 'w \<Rightarrow> decision \<times> intent_request \<times> 'w"

record 'w scheduler =
  sc_lock_given :: bool
  sc_default_ttl :: duration
  sc_rules :: "'w rule list"

definition new_scheduler :: "bool \<Rightarrow> duration \<Rightarrow> 'w scheduler" where
  "new_scheduler lock_given ttl =
     \<lparr>sc_lock_given = lock_given, sc_default_ttl = (if ttl \<le> 0 then 10 * minute else ttl), sc_rules = []\<rparr>"

definition add_rule :: "'w rule option \<Rightarrow> 'w scheduler \<Rightarrow> 'w scheduler" where
  "add_rule r s = (case r of None \<Rightarrow> s | Some r \<Rightarrow> s\<lparr>sc_rules := sc_rules s @ [r]\<rparr>)"

section \<open>Deciding\<close>

text \<open>The loop over the rules: the first decision that is neither empty nor an admission is returned.\<close>

fun run_rules :: "'w rule list \<Rightarrow> intent_request \<Rightarrow> 'w \<Rightarrow> decision option \<times> intent_request \<times> 'w" where
  "run_rules [] req w = (None, req, w)"
| "run_rules (r # rs) req w =
     (case r req w of (d, req', w') \<Rightarrow>
        if dc_outcome d \<noteq> [] \<and> dc_outcome d \<noteq> outcome_admit then (Some d, req', w')
        else run_rules rs req' w')"

definition lock_key :: "intent_request \<Rightarrow> string" where
  "lock_key req =
     (let key = trim_space (iq_resource_key req)
      in if key = [] then trim_space (iq_session_id req) else key)"

definition lock_owner :: "intent_request \<Rightarrow> string" where
  "lock_owner req =
     (let owner = trim_space (iq_owner req);
          owner = (if owner = [] then trim_space (iq_execution_id req) else owner)
      in if owner = [] then ''anonymous'' else owner)"

definition default_kind :: "intent_request \<Rightarrow> intent_request" where
  "default_kind req = (if iq_kind req = [] then req\<lparr>iq_kind := ''unknown''\<rparr> else req)"

definition lock_error_text :: "lock_error \<Rightarrow> string" where
  "lock_error_text e = (case e of
      KeyOwnerRequired \<Rightarrow> ''lockmgr: key and owner required''
    | ErrConflict \<Rightarrow> ''lockmgr: held by another owner''
    | ErrNotHeld \<Rightarrow> ''lockmgr: not held by owner''
    | NilMapWrite \<Rightarrow> [])"

definition lock_resource ::
  "time \<Rightarrow> time \<Rightarrow> (lock_mgr \<Rightarrow> lock_mgr) \<Rightarrow> bool \<Rightarrow> duration \<Rightarrow> intent_request \<Rightarrow> lock_mgr \<Rightarrow>
     (decision \<times> lock_mgr) option" where
  "lock_resource now wall between lock_given ttl req m =
     (let key = lock_key req in
      if key = [] \<or> \<not> lock_given
      then Some (empty_decision\<lparr>dc_outcome := outcome_admit, dc_reason := ''no resource to lock''\<rparr>, m)
      else case acquire now now key (lock_owner req) ttl m of
          (Inr l, m') \<Rightarrow>
            Some (empty_decision\<lparr>dc_outcome := outcome_admit, dc_lock_key := ls_key l, dc_lock_ttl := ttl\<rparr>, m')
        | (Inl e, m') \<Rightarrow>
            if e = NilMapWrite then None
            else if e = ErrConflict
            then let m'' = between m' in
              Some (empty_decision\<lparr>dc_outcome := outcome_defer,
                dc_reason := ''resource held by another owner'', dc_conflict := fst (holder wall key m'')\<rparr>, m'')
            else Some (empty_decision\<lparr>dc_outcome := outcome_deny, dc_reason := lock_error_text e\<rparr>, m'))"

definition decide ::
  "time \<Rightarrow> time \<Rightarrow> (lock_mgr \<Rightarrow> lock_mgr) \<Rightarrow> 'w scheduler \<Rightarrow> intent_request \<Rightarrow> 'w \<Rightarrow> lock_mgr \<Rightarrow>
     (decision \<times> 'w \<times> lock_mgr) option" where
  "decide now wall between s req w m =
     (case run_rules (sc_rules s) (default_kind req) w of
        (Some d, req', w') \<Rightarrow> Some (d, w', m)
      | (None, req', w') \<Rightarrow>
          map_option (\<lambda>(d, m'). (d, w', m'))
            (lock_resource now wall between (sc_lock_given s) (sc_default_ttl s) req' m))"

definition sched_release :: "bool \<Rightarrow> string \<Rightarrow> string \<Rightarrow> lock_mgr \<Rightarrow> lock_mgr" where
  "sched_release lock_given key owner m =
     (if \<not> lock_given \<or> key = [] then m else snd (release key owner m))"

section \<open>Lemmas\<close>

lemma lock_owner_nonempty [simp]: "lock_owner req \<noteq> []"
  by (simp add: lock_owner_def Let_def)

lemma empty_decision_sel [simp]:
  "dc_outcome empty_decision = []" "dc_lock_key empty_decision = []" "dc_lock_ttl empty_decision = 0"
  "dc_conflict empty_decision = []" "dc_reason empty_decision = []"
  by (simp_all add: empty_decision_def)

text \<open>What an open manager answers, by who holds the key.\<close>

lemma lock_resource_cases:
  assumes "usable m" and key: "lock_key req = key" "key \<noteq> []"
  shows "lock_resource now wall between True ttl req m =
    (case held m key of
       Some (ow, d) \<Rightarrow>
         if ow = lock_owner req
         then Some (empty_decision\<lparr>dc_outcome := outcome_admit, dc_lock_key := key, dc_lock_ttl := ttl\<rparr>,
                snd (acquire now now key ow ttl m))
         else Some (empty_decision\<lparr>dc_outcome := outcome_defer, dc_reason := ''resource held by another owner'',
                dc_conflict := fst (holder wall key (between m))\<rparr>, between m)
     | None \<Rightarrow>
         Some (empty_decision\<lparr>dc_outcome := outcome_admit, dc_lock_key := key, dc_lock_ttl := ttl\<rparr>,
           snd (acquire now now key (lock_owner req) ttl m)))"
proof (cases "held m key")
  case None
  with lm.acq_free [OF assms(1) key(2) lock_owner_nonempty [of req] None, where t = now and ttl = ttl] key show ?thesis
    by (auto simp: lock_resource_def Let_def)
next
  case (Some h)
  obtain ow d where h: "h = (ow, d)" by (cases h)
  show ?thesis
  proof (cases "ow = lock_owner req")
    case True
    with lm.acq_again [OF assms(1) key(2) lock_owner_nonempty [of req], where t = now and ttl = ttl] Some h key show ?thesis
      by (auto simp: lock_resource_def Let_def)
  next
    case False
    with lm.acq_conflict [OF key(2) lock_owner_nonempty [of req], where t = now and ttl = ttl and s = m] Some h key show ?thesis
      by (auto simp: lock_resource_def Let_def)
  qed
qed

lemma lock_resource_admit:
  "lock_resource now wall between True ttl req m = Some (d, m') \<Longrightarrow> dc_outcome d = outcome_admit \<Longrightarrow>
   lock_key req \<noteq> [] \<Longrightarrow> \<exists>l. acquire now now (lock_key req) (lock_owner req) ttl m = (Inr l, m')"
  by (auto simp: lock_resource_def Let_def split: prod.splits sum.splits if_splits)

text \<open>A rule that always admits and leaves the fields that name the lock alone.\<close>

definition enriching :: "'w rule \<Rightarrow> bool" where
  "enriching r \<longleftrightarrow> (\<forall>req w. case r req w of (d, req', w') \<Rightarrow>
     (dc_outcome d = [] \<or> dc_outcome d = outcome_admit) \<and>
     iq_resource_key req' = iq_resource_key req \<and> iq_session_id req' = iq_session_id req \<and>
     iq_owner req' = iq_owner req \<and> iq_execution_id req' = iq_execution_id req)"

lemma enrichingD:
  assumes "enriching r" and "r req w = (d, req', w')"
  shows "(dc_outcome d = [] \<or> dc_outcome d = outcome_admit) \<and> lock_key req' = lock_key req \<and> lock_owner req' = lock_owner req"
proof -
  have "(dc_outcome d = [] \<or> dc_outcome d = outcome_admit) \<and> iq_resource_key req' = iq_resource_key req \<and>
      iq_session_id req' = iq_session_id req \<and> iq_owner req' = iq_owner req \<and> iq_execution_id req' = iq_execution_id req"
    using spec [OF spec [OF assms(1) [unfolded enriching_def]], of req w] unfolding assms(2) prod.case .
  then show ?thesis
    by (simp only: lock_key_def lock_owner_def)
qed

lemma run_rules_enriching:
  "(\<forall>r\<in>set rs. enriching r) \<Longrightarrow>
   \<exists>req' w'. run_rules rs req w = (None, req', w') \<and> lock_key req' = lock_key req \<and>
     lock_owner req' = lock_owner req"
proof (induction rs arbitrary: req w)
  case (Cons r rs)
  obtain d req1 w1 where r: "r req w = (d, req1, w1)" by (cases "r req w")
  with Cons.prems enrichingD [of r req w d req1 w1]
  have "dc_outcome d = [] \<or> dc_outcome d = outcome_admit"
    and same: "lock_key req1 = lock_key req" "lock_owner req1 = lock_owner req" by auto
  with r have "run_rules (r # rs) req w = run_rules rs req1 w1" by auto
  with Cons.IH [of req1 w1] Cons.prems same show ?case by auto
qed simp

lemma run_rules_append:
  "run_rules (rs @ rs') req w = (case run_rules rs req w of
     (Some d, req', w') \<Rightarrow> (Some d, req', w') | (None, req', w') \<Rightarrow> run_rules rs' req' w')"
  by (induction rs arbitrary: req w) (auto split: prod.splits)

lemma default_kind_lock [simp]:
  "lock_key (default_kind req) = lock_key req" "lock_owner (default_kind req) = lock_owner req"
  by (simp_all add: default_kind_def lock_key_def lock_owner_def Let_def)

text \<open>With enriching rules only, deciding is locking.\<close>

lemma lock_resource_cong:
  "lock_key req = lock_key req' \<Longrightarrow> lock_owner req = lock_owner req' \<Longrightarrow>
   lock_resource now wall between g ttl req m = lock_resource now wall between g ttl req' m"
  by (simp add: lock_resource_def Let_def)

lemma decide_enriching:
  assumes "\<forall>r\<in>set (sc_rules s). enriching r"
  shows "\<exists>w'. decide now wall between s req w m = map_option (\<lambda>(d, m'). (d, w', m'))
    (lock_resource now wall between (sc_lock_given s) (sc_default_ttl s) req m)"
proof -
  from run_rules_enriching [OF assms, of "default_kind req" w] obtain req' w' where
    run: "run_rules (sc_rules s) (default_kind req) w = (None, req', w')"
    and same: "lock_key req' = lock_key req" "lock_owner req' = lock_owner req"
    by auto
  then show ?thesis
    by (simp add: decide_def lock_resource_cong [OF same]) blast
qed

section \<open>Properties\<close>

text \<open>
  With rules that only enrich the request, as the kernel installs them, \<open>Decide\<close> on a non-empty
  key is decided by the lock table alone: it admits exactly if the key is free or held by the request's
  owner, and then holds the key for that owner one level deeper and names key and TTL; otherwise
  it defers, names the owner in the way and changes nothing.
\<close>

theorem decide_by_lock_table:
  assumes "lock_reach t m" and "lm_entries m \<noteq> None" and "\<forall>r\<in>set (sc_rules s). enriching r"
    and "sc_lock_given s" and "lock_key req \<noteq> []"
  shows "\<exists>d w' m'. decide now wall id s req w m = Some (d, w', m') \<and>
    (case held m (lock_key req) of
       Some (ow, n) \<Rightarrow>
         if ow = lock_owner req
         then dc_outcome d = outcome_admit \<and> dc_lock_key d = lock_key req \<and>
           dc_lock_ttl d = sc_default_ttl s \<and> held m' = (held m)(lock_key req \<mapsto> (ow, n + 1))
         else dc_outcome d = outcome_defer \<and> dc_conflict d = ow \<and> m' = m
     | None \<Rightarrow>
         dc_outcome d = outcome_admit \<and> dc_lock_key d = lock_key req \<and>
           dc_lock_ttl d = sc_default_ttl s \<and> held m' = (held m)(lock_key req \<mapsto> (lock_owner req, 1)))"
proof -
  note u = reach_usable [OF assms(1,2)]
  from decide_enriching [OF assms(3), of now wall id req w m] obtain w' where
    eq: "decide now wall id s req w m = map_option (\<lambda>(d, m'). (d, w', m'))
      (lock_resource now wall id True (sc_default_ttl s) req m)" using assms(4) by auto
  show ?thesis
  proof (cases "held m (lock_key req)")
    case None
    with lm.acq_free [OF u assms(5) lock_owner_nonempty [of req] None, where t = now and ttl = "sc_default_ttl s"]
      lock_resource_cases [OF u refl assms(5)] eq show ?thesis by auto
  next
    case (Some h)
    obtain ow n where h: "h = (ow, n)" by (cases h)
    show ?thesis
    proof (cases "ow = lock_owner req")
      case True
      with lm.acq_again [OF u assms(5) lock_owner_nonempty [of req], where t = now and ttl = "sc_default_ttl s"]
        lock_resource_cases [OF u refl assms(5)] eq Some h show ?thesis by fastforce
    next
      case False
      with lm.hold_held [of wall "lock_key req" m] lock_resource_cases [OF u refl assms(5)] eq Some h
      show ?thesis by auto
    qed
  qed
qed

definition demo_req :: "string \<Rightarrow> intent_request" where
  "demo_req owner = \<lparr>iq_kind = ''exec'', iq_session_id = '' s1 '', iq_execution_id = [], iq_owner = owner,
     iq_resource_key = [], iq_engine = [], iq_command = [], iq_cwd = [], iq_tags = []\<rparr>"

lemma demo_req_lock: "lock_key (demo_req ow) = ''s1''" "lock_owner (demo_req ''bob '') = ''bob''"
  "lock_owner (demo_req []) = ''anonymous''" "lock_owner (demo_req ''alice'') = ''alice''"
proof -
  show "lock_key (demo_req ow) = ''s1''"
    by (simp add: lock_key_def demo_req_def) code_simp
  show "lock_owner (demo_req ''bob '') = ''bob''" "lock_owner (demo_req []) = ''anonymous''"
    "lock_owner (demo_req ''alice'') = ''alice''"
    by code_simp+
qed

lemma one_lock_open: "lm_entries one_lock \<noteq> None"
  using one_lock_entry entry_of_open by blast

theorem decide_by_lock_table_witness:
  "\<exists>d w' m'. decide 9 9 id (new_scheduler True 0) (demo_req ''bob '') () one_lock = Some (d, w', m') \<and>
     dc_outcome d = outcome_defer \<and> dc_conflict d = ''alice'' \<and> m' = one_lock"
proof -
  have "held one_lock ''s1'' = Some (''alice'', 1)"
    using one_lock_entry by (auto simp: held_def)
  with decide_by_lock_table [OF one_lock_reach one_lock_open, of "new_scheduler True 0" "demo_req ''bob ''" 9 9 "()"]
  show ?thesis by (simp add: demo_req_lock new_scheduler_def)
qed



text \<open>
  An admission on a free key is undone by \<open>Release\<close> with the key of the decision and the owner the
  scheduler computed, and by no other owner string: the raw \<open>Owner\<close> of the request does not do if it
  is empty or padded, and \<open>Release\<close> does not report that.
\<close>

theorem decide_release:
  assumes "lock_reach t m" and "lm_entries m \<noteq> None" and "\<forall>r\<in>set (sc_rules s). enriching r"
    and "sc_lock_given s" and "lock_key req \<noteq> []" and "held m (lock_key req) = None"
  shows "\<exists>d w' m'. decide t t id s req w m = Some (d, w', m') \<and>
    held (sched_release True (dc_lock_key d) (lock_owner req) m') = held m \<and>
    (\<forall>owner. owner \<noteq> lock_owner req \<longrightarrow> sched_release True (dc_lock_key d) owner m' = m')"
proof -
  from decide_by_lock_table [OF assms(1-5), of t t w] assms(6) obtain d w' m' where
    d: "decide t t id s req w m = Some (d, w', m')" "dc_lock_key d = lock_key req" "dc_outcome d = outcome_admit"
      "held m' = (held m)(lock_key req \<mapsto> (lock_owner req, 1))"
    by auto
  from decide_enriching [OF assms(3), of t t id req w m] d(1) assms(4)
  have "lock_resource t t id True (sc_default_ttl s) req m = Some (d, m')"
    by (cases "lock_resource t t id True (sc_default_ttl s) req m") auto
  from lock_resource_admit [OF this d(3) assms(5)] obtain l where
    "acquire t t (lock_key req) (lock_owner req) (sc_default_ttl s) m = (Inr l, m')" by blast
  then have u: "usable m'"
    using lm.acq_usable [OF reach_usable [OF assms(1,2)], of t "lock_key req" "lock_owner req" "sc_default_ttl s"]
    by simp
  have "held m' (lock_key req) = Some (lock_owner req, 1)" using d(4) by simp
  from lm.rel_held [OF u this] assms(5,6) d have "held (sched_release True (dc_lock_key d) (lock_owner req) m') = held m"
    by (auto simp: sched_release_def)
  moreover have "sched_release True (dc_lock_key d) owner m' = m'" if "owner \<noteq> lock_owner req" for owner
    using lm.rel_not_held [of m' "lock_key req" owner] that d(2,4) by (simp add: sched_release_def)
  ultimately show ?thesis using d(1) by blast
qed

theorem decide_release_witness:
  "\<exists>d w' m'. decide 0 0 id (new_scheduler True 0) (demo_req ''bob '') () new_lock_mgr = Some (d, w', m') \<and>
     held (sched_release True (dc_lock_key d) ''bob'' m') = held new_lock_mgr \<and>
     sched_release True (dc_lock_key d) ''bob '' m' = m'"
proof -
  let ?s = "new_scheduler True 0 :: unit scheduler"
  have op: "lm_entries new_lock_mgr \<noteq> None" and free: "held new_lock_mgr ''s1'' = None"
    by (simp_all add: new_lock_mgr_def held_def entry_of_def)
  from decide_release [OF lock_start op, of ?s "demo_req ''bob ''" 0 "()"] free show ?thesis
    by (auto simp: demo_req_lock new_scheduler_def)
qed

text \<open>
  The first rule with an opinion ends the decision: its decision is returned, the lock manager
  is not touched, and rules added later are not consulted.
\<close>

theorem decide_first_opinion:
  assumes "run_rules (sc_rules s) (default_kind req) w = (Some d, req', w')"
  shows "decide now wall between s req w m = Some (d, w', m) \<and>
    decide now wall between (add_rule r s) req w m = Some (d, w', m) \<and>
    dc_outcome d \<noteq> [] \<and> dc_outcome d \<noteq> outcome_admit"
proof -
  have "dc_outcome d \<noteq> [] \<and> dc_outcome d \<noteq> outcome_admit"
    if "run_rules rs q v = (Some d, req', w')" for rs q v
    using that by (induction rs arbitrary: q v) (auto split: prod.splits if_splits)
  with assms show ?thesis
    by (cases r) (simp_all add: decide_def add_rule_def run_rules_append)
qed

theorem decide_first_opinion_witness:
  "decide 0 0 id (add_rule (Some (\<lambda>req w. (empty_decision\<lparr>dc_outcome := outcome_deny\<rparr>, req, w)))
      (new_scheduler True 0)) (demo_req ''bob'') () new_lock_mgr
    = Some (empty_decision\<lparr>dc_outcome := outcome_deny\<rparr>, (), new_lock_mgr)"
  by (rule conjunct1 [OF decide_first_opinion]) (simp add: add_rule_def new_scheduler_def)

end
