(* ===== verification/Watchdog.thy ===== *)
theory Watchdog
  imports EventBus LockMgr
begin

text \<open>
  The watchdog (\<open>kernel/watchdog\<close>): it watches executions for activity on the bus, and when one stays
  idle past its timeout it forgets the execution, force-releases its lock and publishes an error
  event. As in \<open>LockMgr\<close>, an armed timer fires once due, its callback waits for the mutex
  (\<open>wd_fired\<close>), runs its critical section and then, outside the mutex, releases and publishes.
\<close>

section \<open>State\<close>

record watch_options =
  wo_execution_id :: string
  wo_session_id :: string
  wo_lock_key :: string
  wo_timeout :: duration

record watch_item =
  wi_opts :: watch_options
  wi_deadline :: time
  wi_timer :: nat

datatype timeout_stage = ReleaseLock | PublishError

record watchdog =
  wd_lock_given :: bool
  wd_min_idle :: duration
  wd_items :: "(string \<rightharpoonup> watch_item) option"
  wd_timers :: "nat \<rightharpoonup> string \<times> time"
  wd_next_timer :: nat
  wd_fired :: "string list"
  wd_expired :: "(timeout_stage \<times> watch_options) list"
  wd_closed :: bool

definition default_idle_timeout :: duration where
  "default_idle_timeout = 10 * minute"

definition min_idle_timeout :: duration where
  "min_idle_timeout = 5 * second"

definition new_watchdog :: "bool \<Rightarrow> duration \<Rightarrow> watchdog" where
  "new_watchdog lock_given min_idle = \<lparr>wd_lock_given = lock_given,
     wd_min_idle = (if min_idle \<le> 0 then min_idle_timeout else min_idle), wd_items = Some Map.empty,
     wd_timers = Map.empty, wd_next_timer = 0, wd_fired = [], wd_expired = [], wd_closed = False\<rparr>"

definition watchdog_filter :: bus_filter where
  "watchdog_filter =
     \<lparr>bf_sources = [source_session, source_kernel], bf_topics = [], bf_session_ids = []\<rparr>"

definition item_of :: "watchdog \<Rightarrow> string \<Rightarrow> watch_item option" where
  "item_of w x = (case wd_items w of None \<Rightarrow> None | Some its \<Rightarrow> its x)"

definition put_item :: "string \<Rightarrow> watch_item \<Rightarrow> watchdog \<Rightarrow> watchdog" where
  "put_item x it w = w\<lparr>wd_items := map_option (\<lambda>its. its(x \<mapsto> it)) (wd_items w)\<rparr>"

definition del_item :: "string \<Rightarrow> watchdog \<Rightarrow> watchdog" where
  "del_item x w = w\<lparr>wd_items := map_option (\<lambda>its. its(x := None)) (wd_items w)\<rparr>"

definition arm :: "time \<Rightarrow> duration \<Rightarrow> string \<Rightarrow> watchdog \<Rightarrow> watchdog" where
  "arm now d x w = w\<lparr>wd_timers := (wd_timers w)(wd_next_timer w \<mapsto> (x, now + d)),
     wd_next_timer := Suc (wd_next_timer w)\<rparr>"

definition disarm :: "nat \<Rightarrow> watchdog \<Rightarrow> watchdog" where
  "disarm i w = w\<lparr>wd_timers := (wd_timers w)(i := None)\<rparr>"

section \<open>Operations\<close>

text \<open>A timeout below the floor is raised to it, a missing one is the default.\<close>

definition idle_timeout :: "duration \<Rightarrow> duration \<Rightarrow> duration" where
  "idle_timeout min_idle timeout =
     (if timeout < min_idle then if 0 < timeout then min_idle else default_idle_timeout else timeout)"

text \<open>\<open>Watch\<close>; \<^const>\<open>None\<close> is the panic of the assignment to the nil map that \<open>Close\<close> leaves.\<close>

definition watch :: "time \<Rightarrow> watch_options \<Rightarrow> watchdog \<Rightarrow> watchdog option" where
  "watch now opts w =
     (if wo_execution_id opts = [] then Some w
      else let opts = opts\<lparr>wo_timeout := idle_timeout (wd_min_idle w) (wo_timeout opts)\<rparr>;
               x = wo_execution_id opts;
               w1 = (case item_of w x of Some it \<Rightarrow> disarm (wi_timer it) w | None \<Rightarrow> w);
               w2 = arm now (wo_timeout opts) x w1;
               it = \<lparr>wi_opts = opts, wi_deadline = now + wo_timeout opts, wi_timer = wd_next_timer w1\<rparr>
           in if wd_items w = None then None else Some (put_item x it w2))"

definition heartbeat :: "time \<Rightarrow> string \<Rightarrow> watchdog \<Rightarrow> watchdog" where
  "heartbeat now x w =
     (if x = [] then w
      else case item_of w x of
          None \<Rightarrow> w
        | Some it \<Rightarrow>
            let w1 = disarm (wi_timer it) w;
                w2 = arm now (wo_timeout (wi_opts it)) x w1
            in put_item x (it\<lparr>wi_deadline := now + wo_timeout (wi_opts it), wi_timer := wd_next_timer w1\<rparr>) w2)"

definition settle :: "string \<Rightarrow> watchdog \<Rightarrow> watchdog" where
  "settle x w =
     (if x = [] then w
      else case item_of w x of None \<Rightarrow> w | Some it \<Rightarrow> del_item x (disarm (wi_timer it) w))"

definition pending_count :: "watchdog \<Rightarrow> nat" where
  "pending_count w = (case wd_items w of None \<Rightarrow> 0 | Some its \<Rightarrow> card (dom its))"

definition on_event :: "time \<Rightarrow> envelope \<Rightarrow> watchdog \<Rightarrow> watchdog" where
  "on_event now env w =
     (let x = execution_id_of (en_payload env) in if x \<noteq> [] then heartbeat now x w else w)"

text \<open>\<open>Close\<close>, after it has closed the subscription: the timers of all items are stopped.\<close>

definition stop_item_timers :: "(string \<rightharpoonup> watch_item) \<Rightarrow> (nat \<rightharpoonup> string \<times> time) \<Rightarrow> nat \<rightharpoonup> string \<times> time" where
  "stop_item_timers its tms i = (case tms i of
     None \<Rightarrow> None
   | Some (x, due) \<Rightarrow> (case its x of
       Some it \<Rightarrow> if wi_timer it = i then None else Some (x, due)
     | None \<Rightarrow> Some (x, due)))"

definition watchdog_close :: "watchdog \<Rightarrow> watchdog" where
  "watchdog_close w =
     (if wd_closed w then w
      else w\<lparr>wd_closed := True, wd_items := None,
             wd_timers := stop_item_timers (case_option Map.empty id (wd_items w)) (wd_timers w)\<rparr>)"

section \<open>Timeouts\<close>

definition fire_timer :: "time \<Rightarrow> nat \<Rightarrow> watchdog \<Rightarrow> watchdog option" where
  "fire_timer now i w = (case wd_timers w i of
     None \<Rightarrow> None
   | Some (x, due) \<Rightarrow>
       if due \<le> now then Some (w\<lparr>wd_timers := (wd_timers w)(i := None), wd_fired := wd_fired w @ [x]\<rparr>)
       else None)"

text \<open>The critical section of \<open>onTimeout\<close>: a callback that comes too early arms a new timer.\<close>

definition on_timeout :: "time \<Rightarrow> string \<Rightarrow> watchdog \<Rightarrow> watchdog" where
  "on_timeout now x w = (case item_of w x of
     None \<Rightarrow> w
   | Some it \<Rightarrow>
       if now < wi_deadline it
       then put_item x (it\<lparr>wi_timer := wd_next_timer w\<rparr>) (arm now (wi_deadline it - now) x w)
       else (del_item x w)\<lparr>wd_expired := wd_expired w @ [(ReleaseLock, wi_opts it)]\<rparr>)"

definition timeout_run :: "time \<Rightarrow> nat \<Rightarrow> watchdog \<Rightarrow> watchdog option" where
  "timeout_run now i w =
     (if i < length (wd_fired w)
      then Some (on_timeout now (wd_fired w ! i) (w\<lparr>wd_fired := remove_nth i (wd_fired w)\<rparr>))
      else None)"

text \<open>\<open>Duration.String\<close> is a parameter: only the message of the event depends on it.\<close>

definition timeout_event :: "(duration \<Rightarrow> string) \<Rightarrow> time \<Rightarrow> watch_options \<Rightarrow> error_event" where
  "timeout_event show_duration now opts =
     event.extend (\<lparr>ev_type = ''error'', ev_timestamp = now, ev_session_id = wo_session_id opts, ev_cursor = 0,
         ev_meta = empty_meta\<lparr>m_execution_id := wo_execution_id opts, m_blocking_kind := ''watchdog_timeout''\<rparr>\<rparr>)
       (error_event.fields (''watchdog: execution idle past '' @ show_duration (wo_timeout opts)) []
          ''watchdog_timeout'' [] [] [])"

definition timeout_envelope :: "(duration \<Rightarrow> string) \<Rightarrow> time \<Rightarrow> watch_options \<Rightarrow> envelope" where
  "timeout_envelope show_duration now opts =
     \<lparr>en_cursor = 0, en_source = source_kernel, en_topic = ''error'', en_session_id = wo_session_id opts,
      en_timestamp = now, en_payload = Some (EvError (timeout_event show_duration now opts))\<rparr>"

text \<open>What the callback does after its critical section, one call at a time.\<close>

definition mark_released :: "nat \<Rightarrow> watchdog \<Rightarrow> (watch_options \<times> watchdog) option" where
  "mark_released i w =
     (if i < length (wd_expired w) \<and> fst (wd_expired w ! i) = ReleaseLock
      then let opts = snd (wd_expired w ! i)
           in Some (opts, w\<lparr>wd_expired := (wd_expired w)[i := (PublishError, opts)]\<rparr>)
      else None)"

definition timeout_release :: "nat \<Rightarrow> watchdog \<Rightarrow> lock_mgr \<Rightarrow> (watchdog \<times> lock_mgr) option" where
  "timeout_release i w m = map_option (\<lambda>(opts, w').
     (w', if wd_lock_given w \<and> wo_lock_key opts \<noteq> [] then force_release (wo_lock_key opts) m else m))
     (mark_released i w)"

definition mark_published :: "nat \<Rightarrow> watchdog \<Rightarrow> (watch_options \<times> watchdog) option" where
  "mark_published i w =
     (if i < length (wd_expired w) \<and> fst (wd_expired w ! i) = PublishError
      then Some (snd (wd_expired w ! i), w\<lparr>wd_expired := remove_nth i (wd_expired w)\<rparr>)
      else None)"

definition timeout_publish ::
  "(duration \<Rightarrow> string) \<Rightarrow> time \<Rightarrow> nat \<Rightarrow> watchdog \<Rightarrow> bus \<Rightarrow> (watchdog \<times> bus) option" where
  "timeout_publish show_duration now i w b = map_option (\<lambda>(opts, w').
     (w', publish_begin now (timeout_envelope show_duration now opts) b)) (mark_published i w)"

section \<open>The transitions of the watchdog\<close>

datatype dog_action =
    Watch watch_options
  | Heartbeat string
  | Settle string
  | CloseWatchdog
  | FireTimer nat
  | TimeoutRun nat
  | TimeoutReleased nat
  | TimeoutPublished nat

fun dog_step :: "time \<Rightarrow> dog_action \<Rightarrow> watchdog \<Rightarrow> watchdog option" where
  "dog_step t (Watch opts) w = watch t opts w"
| "dog_step t (Heartbeat x) w = Some (heartbeat t x w)"
| "dog_step t (Settle x) w = Some (settle x w)"
| "dog_step t CloseWatchdog w = Some (watchdog_close w)"
| "dog_step t (FireTimer i) w = fire_timer t i w"
| "dog_step t (TimeoutRun i) w = timeout_run t i w"
| "dog_step t (TimeoutReleased i) w = map_option snd (mark_released i w)"
| "dog_step t (TimeoutPublished i) w = map_option snd (mark_published i w)"

inductive dog_path :: "time \<Rightarrow> watchdog \<Rightarrow> dog_action list \<Rightarrow> time \<Rightarrow> watchdog \<Rightarrow> bool" where
  dog_done: "dog_path t w [] t w"
| dog_next: "t \<le> t1 \<Longrightarrow> dog_step t1 a w = Some w1 \<Longrightarrow> dog_path t1 w1 as t' w' \<Longrightarrow> dog_path t w (a # as) t' w'"

inductive_cases dog_path_NilE [elim!]: "dog_path t w [] t' w'"
inductive_cases dog_path_ConsE [elim!]: "dog_path t w (a # as) t' w'"

section \<open>What the operations change\<close>

lemma item_of_put [simp]:
  "item_of (put_item x it w) y = (if y = x \<and> wd_items w \<noteq> None then Some it else item_of w y)"
  by (auto simp: item_of_def put_item_def split: option.splits)

lemma item_of_del [simp]: "item_of (del_item x w) y = (if y = x then None else item_of w y)"
  by (auto simp: item_of_def del_item_def split: option.splits)

lemma item_of_cong [simp]:
  "item_of (arm now d x w) y = item_of w y"
  "item_of (disarm i w) y = item_of w y"
  "item_of (w\<lparr>wd_timers := tms\<rparr>) y = item_of w y"
  "item_of (w\<lparr>wd_fired := fs\<rparr>) y = item_of w y"
  "item_of (w\<lparr>wd_expired := es\<rparr>) y = item_of w y"
  "item_of (new_watchdog g d) y = None"
  by (simp_all add: item_of_def arm_def disarm_def new_watchdog_def)

lemma wd_sel [simp]:
  "wd_timers (arm now d x w) = (wd_timers w)(wd_next_timer w \<mapsto> (x, now + d))"
  "wd_timers (disarm i w) = (wd_timers w)(i := None)"
  "wd_timers (put_item x it w) = wd_timers w"
  "wd_timers (del_item x w) = wd_timers w"
  "wd_next_timer (arm now d x w) = Suc (wd_next_timer w)"
  "wd_next_timer (disarm i w) = wd_next_timer w"
  "wd_next_timer (put_item x it w) = wd_next_timer w"
  "wd_next_timer (del_item x w) = wd_next_timer w"
  "wd_fired (arm now d x w) = wd_fired w"
  "wd_fired (disarm i w) = wd_fired w"
  "wd_fired (put_item x it w) = wd_fired w"
  "wd_fired (del_item x w) = wd_fired w"
  "wd_expired (arm now d x w) = wd_expired w"
  "wd_expired (disarm i w) = wd_expired w"
  "wd_expired (put_item x it w) = wd_expired w"
  "wd_expired (del_item x w) = wd_expired w"
  "wd_closed (arm now d x w) = wd_closed w"
  "wd_closed (disarm i w) = wd_closed w"
  "wd_closed (put_item x it w) = wd_closed w"
  "wd_closed (del_item x w) = wd_closed w"
  "wd_lock_given (arm now d x w) = wd_lock_given w"
  "wd_lock_given (disarm i w) = wd_lock_given w"
  "wd_lock_given (put_item x it w) = wd_lock_given w"
  "wd_lock_given (del_item x w) = wd_lock_given w"
  "wd_items (arm now d x w) = wd_items w"
  "wd_items (disarm i w) = wd_items w"
  "wd_items (put_item x it w) = None \<longleftrightarrow> wd_items w = None"
  "wd_items (del_item x w) = None \<longleftrightarrow> wd_items w = None"
  by (simp_all add: arm_def disarm_def put_item_def del_item_def)

lemma item_of_open: "item_of w x = Some it \<Longrightarrow> wd_items w \<noteq> None"
  by (auto simp: item_of_def split: option.splits)

section \<open>Invariant\<close>

text \<open>
  Every watched execution has its own timer, armed for its deadline or already fired, and its
  deadline is at most one timeout away.
\<close>

definition item_ok :: "time \<Rightarrow> watchdog \<Rightarrow> string \<Rightarrow> watch_item \<Rightarrow> bool" where
  "item_ok t w x it \<longleftrightarrow> x \<noteq> [] \<and> wo_execution_id (wi_opts it) = x \<and> 0 < wo_timeout (wi_opts it) \<and>
     wi_timer it < wd_next_timer w \<and> wi_deadline it \<le> t + wo_timeout (wi_opts it) \<and>
     (wd_timers w (wi_timer it) = Some (x, wi_deadline it) \<or> x \<in> set (wd_fired w) \<and> wi_deadline it \<le> t)"

definition watch_ok :: "time \<Rightarrow> watchdog \<Rightarrow> bool" where
  "watch_ok t w \<longleftrightarrow> (\<forall>x it. item_of w x = Some it \<longrightarrow> item_ok t w x it) \<and>
     (\<forall>x it y it'. item_of w x = Some it \<longrightarrow> item_of w y = Some it' \<longrightarrow> wi_timer it = wi_timer it' \<longrightarrow> x = y) \<and>
     (\<forall>i p. wd_timers w i = Some p \<longrightarrow> i < wd_next_timer w) \<and>
     (wd_closed w \<longleftrightarrow> wd_items w = None) \<and> 0 < wd_min_idle w"

lemma watch_okD:
  assumes "watch_ok t w"
  shows "item_of w x = Some it \<Longrightarrow> item_ok t w x it"
    "item_of w x = Some it \<Longrightarrow> item_of w y = Some it' \<Longrightarrow> wi_timer it = wi_timer it' \<Longrightarrow> x = y"
    "wd_timers w i = Some p \<Longrightarrow> i < wd_next_timer w"
    "wd_closed w \<longleftrightarrow> wd_items w = None" "0 < wd_min_idle w"
  using assms unfolding watch_ok_def by blast+

lemma watch_okI:
  assumes "\<And>x it. item_of w x = Some it \<Longrightarrow> item_ok t w x it"
    and "\<And>x it y it'. item_of w x = Some it \<Longrightarrow> item_of w y = Some it' \<Longrightarrow> wi_timer it = wi_timer it' \<Longrightarrow> x = y"
    and "\<And>i p. wd_timers w i = Some p \<Longrightarrow> i < wd_next_timer w"
    and "wd_closed w \<longleftrightarrow> wd_items w = None" "0 < wd_min_idle w"
  shows "watch_ok t w"
  using assms unfolding watch_ok_def by blast

lemma item_ok_mono: "item_ok t w x it \<Longrightarrow> t \<le> t' \<Longrightarrow> item_ok t' w x it"
  by (auto simp: item_ok_def)

lemma watch_ok_mono: "watch_ok t w \<Longrightarrow> t \<le> t' \<Longrightarrow> watch_ok t' w"
  unfolding watch_ok_def using item_ok_mono by blast

lemma new_watchdog_ok: "watch_ok t (new_watchdog g d)"
  by (rule watch_okI) (auto simp: new_watchdog_def item_of_def min_idle_timeout_def)

lemma idle_timeout_pos: "0 < min_idle \<Longrightarrow> 0 < idle_timeout min_idle d"
  by (auto simp: idle_timeout_def default_idle_timeout_def)

lemma min_idle_sel [simp]:
  "wd_min_idle (arm now d x w) = wd_min_idle w"
  "wd_min_idle (disarm i w) = wd_min_idle w"
  "wd_min_idle (put_item x it w) = wd_min_idle w"
  "wd_min_idle (del_item x w) = wd_min_idle w"
  by (simp_all add: arm_def disarm_def put_item_def del_item_def)

text \<open>Installing an item with a freshly armed timer, after its old timer was disarmed or not.\<close>

lemma install_ok:
  assumes ok: "watch_ok t w" and items: "wd_items w \<noteq> None"
    and old: "\<And>it. item_of w x = Some it \<Longrightarrow> w1 = w \<or> w1 = disarm (wi_timer it) w"
    and none: "item_of w x = None \<Longrightarrow> w1 = w"
    and it: "x \<noteq> []" "wo_execution_id (wi_opts it) = x" "0 < wo_timeout (wi_opts it)"
      "wi_timer it = wd_next_timer w" "wi_deadline it = t + d" "d \<le> wo_timeout (wi_opts it)"
  shows "watch_ok t (put_item x it (arm t d x w1))"
proof -
  have w1: "wd_next_timer w1 = wd_next_timer w" "wd_items w1 = wd_items w" "wd_fired w1 = wd_fired w"
    "wd_closed w1 = wd_closed w" "wd_min_idle w1 = wd_min_idle w" "item_of w1 = item_of w"
    using old none by (cases "item_of w x"; force)+
  have timers: "wd_timers w1 i = wd_timers w i \<or> (\<exists>f. item_of w x = Some f \<and> i = wi_timer f \<and> wd_timers w1 i = None)" for i
    using old none by (cases "item_of w x") (auto split: if_splits)
  show ?thesis
  proof (rule watch_okI)
    fix y f assume f: "item_of (put_item x it (arm t d x w1)) y = Some f"
    show "item_ok t (put_item x it (arm t d x w1)) y f"
    proof (cases "y = x")
      case True
      with f it items w1 show ?thesis by (auto simp: item_ok_def)
    next
      case False
      with f w1 have y: "item_of w y = Some f" by simp
      then have "wd_timers w1 (wi_timer f) = wd_timers w (wi_timer f)"
        using timers [of "wi_timer f"] watch_okD(2) [OF ok y] False by metis
      with watch_okD(1) [OF ok y] w1 show ?thesis by (auto simp: item_ok_def)
    qed
  next
    fix y f z g
    assume yz: "item_of (put_item x it (arm t d x w1)) y = Some f"
      "item_of (put_item x it (arm t d x w1)) z = Some g" "wi_timer f = wi_timer g"
    have "wi_timer h \<noteq> wd_next_timer w" if "item_of w u = Some h" for u h
      using watch_okD(1) [OF ok that] by (simp add: item_ok_def)
    with yz it w1 items watch_okD(2) [OF ok] show "y = z" by (auto split: if_splits)
  next
    fix i p assume i: "wd_timers (put_item x it (arm t d x w1)) i = Some p"
    show "i < wd_next_timer (put_item x it (arm t d x w1))"
    proof (cases "i = wd_next_timer w")
      case False
      with i w1 timers [of i] have "wd_timers w i = Some p" by auto
      from watch_okD(3) [OF ok this] show ?thesis by (simp add: w1)
    qed (simp add: w1)
  qed (use watch_okD(4,5) [OF ok] w1 items in auto)
qed

lemma watch_watch_ok:
  assumes ok: "watch_ok t w" and step: "watch t opts w = Some w'"
  shows "watch_ok t w'"
proof (cases "wo_execution_id opts = []")
  case True
  with ok step show ?thesis by (simp add: watch_def)
next
  case False
  let ?x = "wo_execution_id opts" and ?d = "idle_timeout (wd_min_idle w) (wo_timeout opts)"
  let ?w1 = "case item_of w ?x of Some it \<Rightarrow> disarm (wi_timer it) w | None \<Rightarrow> w"
  have w1: "wd_next_timer ?w1 = wd_next_timer w" by (simp split: option.splits)
  have "w' = put_item ?x \<lparr>wi_opts = opts\<lparr>wo_timeout := ?d\<rparr>, wi_deadline = t + ?d, wi_timer = wd_next_timer w\<rparr>
      (arm t ?d ?x ?w1)" and items: "wd_items w \<noteq> None"
    using step False w1 by (auto simp: watch_def Let_def split: if_splits)
  then show ?thesis
    using False idle_timeout_pos [OF watch_okD(5) [OF ok]]
    by (simp only:) (intro install_ok [OF ok items], auto)
qed

lemma heartbeat_ok:
  assumes ok: "watch_ok t w"
  shows "watch_ok t (heartbeat t x w)"
proof (cases "x = [] \<or> item_of w x = None")
  case True
  with ok show ?thesis by (auto simp: heartbeat_def)
next
  case False
  then obtain it where it: "item_of w x = Some it" by blast
  let ?d = "wo_timeout (wi_opts it)"
  have "heartbeat t x w = put_item x (it\<lparr>wi_deadline := t + ?d, wi_timer := wd_next_timer w\<rparr>)
      (arm t ?d x (disarm (wi_timer it) w))"
    using False it by (simp add: heartbeat_def Let_def)
  then show ?thesis
    using watch_okD(1) [OF ok it] it
    by (simp only:) (intro install_ok [OF ok item_of_open [OF it]], auto simp: item_ok_def)
qed

text \<open>Steps that only take items away.\<close>

lemma watch_shrink:
  assumes ok: "watch_ok t w"
    and sub: "\<And>y it. item_of w' y = Some it \<Longrightarrow> item_of w y = Some it \<and> item_ok t w' y it"
    and "\<And>i p. wd_timers w' i = Some p \<Longrightarrow> i < wd_next_timer w'"
    and "wd_closed w' \<longleftrightarrow> wd_items w' = None" "wd_min_idle w' = wd_min_idle w"
  shows "watch_ok t w'"
proof (rule watch_okI)
  fix x it y it'
  assume "item_of w' x = Some it" "item_of w' y = Some it'" "wi_timer it = wi_timer it'"
  then show "x = y" using sub watch_okD(2) [OF ok] by blast
qed (use assms watch_okD(5) [OF ok] in \<open>blast | simp\<close>)+

lemma drop_item_ok:
  assumes ok: "watch_ok t w" and it: "item_of w x = Some it"
  shows "watch_ok t (del_item x (disarm (wi_timer it) w))"
proof (rule watch_shrink [OF ok])
  fix y f assume "item_of (del_item x (disarm (wi_timer it) w)) y = Some f"
  then have f: "item_of w y = Some f" "y \<noteq> x" by (auto split: if_splits)
  with watch_okD(1) [OF ok f(1)] watch_okD(2) [OF ok f(1) it]
  show "item_of w y = Some f \<and> item_ok t (del_item x (disarm (wi_timer it) w)) y f"
    by (auto simp: item_ok_def)
qed (use watch_okD(3,4) [OF ok] in \<open>auto split: if_splits\<close>)

lemma settle_ok: "watch_ok t w \<Longrightarrow> watch_ok t (settle x w)"
  by (auto simp: settle_def drop_item_ok split: option.splits)

lemma fire_timer_ok:
  assumes ok: "watch_ok t w" and step: "fire_timer t i w = Some w'"
  shows "watch_ok t w'"
proof -
  obtain x due where f: "wd_timers w i = Some (x, due)" "due \<le> t"
    "w' = w\<lparr>wd_timers := (wd_timers w)(i := None), wd_fired := wd_fired w @ [x]\<rparr>"
    using step by (auto simp: fire_timer_def split: option.splits if_splits)
  show ?thesis
  proof (rule watch_shrink [OF ok])
    fix y it assume "item_of w' y = Some it"
    with f have y: "item_of w y = Some it" by (simp add: item_of_def)
    with watch_okD(1) [OF ok y] f show "item_of w y = Some it \<and> item_ok t w' y it"
      by (auto simp: item_ok_def)
  qed (use watch_okD(3,4) [OF ok] f in \<open>auto split: if_splits\<close>)
qed

lemma timeout_run_cases:
  assumes "timeout_run t i w = Some w'"
  obtains (none) "i < length (wd_fired w)" "item_of w (wd_fired w ! i) = None"
      "w' = w\<lparr>wd_fired := remove_nth i (wd_fired w)\<rparr>"
    | (early) it where "i < length (wd_fired w)" "item_of w (wd_fired w ! i) = Some it" "t < wi_deadline it"
      "w' = put_item (wd_fired w ! i) (it\<lparr>wi_timer := wd_next_timer w\<rparr>)
        (arm t (wi_deadline it - t) (wd_fired w ! i) (w\<lparr>wd_fired := remove_nth i (wd_fired w)\<rparr>))"
    | (expired) it where "i < length (wd_fired w)" "item_of w (wd_fired w ! i) = Some it" "wi_deadline it \<le> t"
      "w' = (del_item (wd_fired w ! i) (w\<lparr>wd_fired := remove_nth i (wd_fired w)\<rparr>))
        \<lparr>wd_expired := wd_expired w @ [(ReleaseLock, wi_opts it)]\<rparr>"
  using assms by (auto simp: timeout_run_def on_timeout_def split: if_splits option.splits)

text \<open>Taking a fired callback whose execution is gone or not yet due.\<close>

lemma unfire_ok:
  assumes ok: "watch_ok t w" and i: "i < length (wd_fired w)"
    and safe: "\<And>it. item_of w (wd_fired w ! i) = Some it \<Longrightarrow> t < wi_deadline it"
  shows "watch_ok t (w\<lparr>wd_fired := remove_nth i (wd_fired w)\<rparr>)"
proof (rule watch_shrink [OF ok])
  fix y it assume "item_of (w\<lparr>wd_fired := remove_nth i (wd_fired w)\<rparr>) y = Some it"
  then have y: "item_of w y = Some it" by simp
  have "y \<in> set (remove_nth i (wd_fired w))" if "y \<in> set (wd_fired w)" "wi_deadline it \<le> t"
    using in_set_remove_nth [OF that(1) i] safe y that(2) by force
  with watch_okD(1) [OF ok y] y
  show "item_of w y = Some it \<and> item_ok t (w\<lparr>wd_fired := remove_nth i (wd_fired w)\<rparr>) y it"
    by (auto simp: item_ok_def)
qed (use watch_okD(3,4) [OF ok] in auto)

lemma timeout_run_ok:
  assumes ok: "watch_ok t w" and step: "timeout_run t i w = Some w'"
  shows "watch_ok t w'"
  using step
proof (cases rule: timeout_run_cases)
  case none
  with unfire_ok [OF ok, of i] show ?thesis by simp
next
  case (early it)
  let ?w = "w\<lparr>wd_fired := remove_nth i (wd_fired w)\<rparr>"
  have ok': "watch_ok t ?w" using unfire_ok [OF ok, of i] early by simp
  have it: "item_of ?w (wd_fired w ! i) = Some it" using early by simp
  show ?thesis
    unfolding early(4)
    by (rule install_ok [OF ok' item_of_open [OF it]])
      (use watch_okD(1) [OF ok' it] it in \<open>auto simp: item_ok_def\<close>)
next
  case (expired it)
  show ?thesis
  proof (rule watch_shrink [OF ok])
    fix y f assume "item_of w' y = Some f"
    with expired have y: "item_of w y = Some f" "y \<noteq> wd_fired w ! i" by (auto split: if_splits)
    have "y \<in> set (remove_nth i (wd_fired w))" if "y \<in> set (wd_fired w)"
      using in_set_remove_nth [OF that expired(1)] y(2) by simp
    with watch_okD(1) [OF ok y(1)] y expired(4) show "item_of w y = Some f \<and> item_ok t w' y f"
      by (auto simp: item_ok_def)
  qed (use watch_okD(3,4) [OF ok] expired in auto)
qed

lemma watchdog_close_ok: "watch_ok t w \<Longrightarrow> watch_ok t (watchdog_close w)"
  by (cases "wd_closed w")
    (auto simp: watchdog_close_def stop_item_timers_def item_of_def watch_okD
      intro!: watch_okI split: option.splits if_splits)

lemma expired_ok: "watch_ok t w \<Longrightarrow> watch_ok t (w\<lparr>wd_expired := es\<rparr>)"
  by (rule watch_shrink) (auto simp: watch_okD item_ok_def dest: watch_okD(1))

lemma dog_step_ok:
  assumes ok: "watch_ok t w" and step: "dog_step t a w = Some w'"
  shows "watch_ok t w'"
  using step
  by (cases a) (auto simp: mark_released_def mark_published_def Let_def intro: watch_watch_ok [OF ok]
      heartbeat_ok [OF ok] settle_ok [OF ok] watchdog_close_ok [OF ok] fire_timer_ok [OF ok]
      timeout_run_ok [OF ok] expired_ok [OF ok] split: if_splits)

lemma dog_path_time: "dog_path t w as t' w' \<Longrightarrow> t \<le> t'"
  by (induction rule: dog_path.induct) auto

lemma dog_path_ok: "dog_path t w as t' w' \<Longrightarrow> watch_ok t w \<Longrightarrow> watch_ok t' w'"
  by (induction rule: dog_path.induct) (auto intro: dog_step_ok watch_ok_mono)

section \<open>Activity keeps an execution watched\<close>

definition ends_watch :: "string \<Rightarrow> dog_action \<Rightarrow> bool" where
  "ends_watch x a \<longleftrightarrow> a = Settle x \<or> a = CloseWatchdog \<or> (\<exists>opts. a = Watch opts \<and> wo_execution_id opts = x)"

lemma dog_step_keeps:
  assumes ok: "watch_ok t w" and it: "item_of w x = Some it" and early: "t < wi_deadline it"
    and keep: "\<not> ends_watch x a" and step: "dog_step t a w = Some w'"
  shows "\<exists>it'. item_of w' x = Some it' \<and> wi_deadline it \<le> wi_deadline it' \<and> wi_opts it' = wi_opts it"
proof (cases a)
  case (Watch opts)
  with step it keep show ?thesis
    by (auto simp: watch_def Let_def ends_watch_def split: if_splits option.splits)
next
  case (Heartbeat y)
  with step it watch_okD(1) [OF ok it] show ?thesis
    by (auto simp: heartbeat_def Let_def item_ok_def split: if_splits option.splits dest: item_of_open)
next
  case (Settle y)
  with step it keep show ?thesis
    by (auto simp: settle_def ends_watch_def split: if_splits option.splits)
next
  case (FireTimer i)
  with step it show ?thesis
    by (auto simp: fire_timer_def item_of_def split: if_splits option.splits)
next
  case (TimeoutRun i)
  then have "timeout_run t i w = Some w'" using step by simp
  then show ?thesis
    by (cases rule: timeout_run_cases) (use it early in \<open>auto dest: item_of_open\<close>)
qed (use step it keep in \<open>auto simp: ends_watch_def mark_released_def mark_published_def Let_def split: if_splits\<close>)

lemma dog_path_keeps:
  "dog_path t w as t' w' \<Longrightarrow> watch_ok t w \<Longrightarrow> item_of w x = Some it \<Longrightarrow> t' < wi_deadline it \<Longrightarrow>
   (\<forall>a\<in>set as. \<not> ends_watch x a) \<Longrightarrow>
   \<exists>it'. item_of w' x = Some it' \<and> wi_deadline it \<le> wi_deadline it' \<and> wi_opts it' = wi_opts it"
proof (induction arbitrary: it rule: dog_path.induct)
  case (dog_next t t1 a w w1 as t' w')
  have ok: "watch_ok t1 w" using dog_next.prems(1) dog_next.hyps(1) by (rule watch_ok_mono)
  have "t1 < wi_deadline it"
    using dog_path_time [OF dog_next.hyps(3)] dog_next.prems(3) by linarith
  from dog_step_keeps [OF ok dog_next.prems(2) this _ dog_next.hyps(2)] dog_next.prems(4)
  obtain it1 where it1: "item_of w1 x = Some it1" "wi_deadline it \<le> wi_deadline it1" "wi_opts it1 = wi_opts it"
    by auto
  from dog_next.IH [OF dog_step_ok [OF ok dog_next.hyps(2)] it1(1)] it1(2,3) dog_next.prems(3,4)
  show ?case by fastforce
qed blast

section \<open>Idle executions are noticed\<close>

lemma watchdog_expires:
  assumes ok: "watch_ok t w" and it: "item_of w x = Some it"
    and late: "wi_deadline it \<le> t'" "t \<le> t'"
  shows "\<exists>as w'. length as \<le> 2 \<and> set as \<subseteq> range FireTimer \<union> range TimeoutRun \<and> dog_path t w as t' w' \<and>
    item_of w' x = None \<and> wd_expired w' = wd_expired w @ [(ReleaseLock, wi_opts it)] \<and>
    (\<forall>y. y \<noteq> x \<longrightarrow> item_of w' y = item_of w y)"
proof -
  have run: "\<exists>i w'. dog_step t' (TimeoutRun i) v = Some w' \<and> item_of w' x = None \<and>
      wd_expired w' = wd_expired v @ [(ReleaseLock, wi_opts it)] \<and> (\<forall>y. y \<noteq> x \<longrightarrow> item_of w' y = item_of v y)"
    if "x \<in> set (wd_fired v)" "item_of v x = Some it" for v
  proof -
    from that(1) obtain i where i: "i < length (wd_fired v)" "wd_fired v ! i = x"
      by (auto simp: in_set_conv_nth)
    show ?thesis
      by (intro exI [of _ i]) (use i that(2) late in \<open>simp add: timeout_run_def on_timeout_def\<close>)
  qed
  have "item_ok t w x it" by (rule watch_okD(1) [OF ok it])
  then consider (armed) "wd_timers w (wi_timer it) = Some (x, wi_deadline it)" | (fired) "x \<in> set (wd_fired w)"
    by (auto simp: item_ok_def)
  then show ?thesis
  proof cases
    case armed
    define v where "v = w\<lparr>wd_timers := (wd_timers w)(wi_timer it := None), wd_fired := wd_fired w @ [x]\<rparr>"
    have fire: "dog_step t' (FireTimer (wi_timer it)) w = Some v"
      using armed late by (simp add: fire_timer_def v_def)
    have v: "item_of v y = item_of w y" "wd_expired v = wd_expired w" for y
      by (simp_all add: v_def item_of_def)
    from run [of v] v it obtain i w' where step: "dog_step t' (TimeoutRun i) v = Some w'" "item_of w' x = None"
      "wd_expired w' = wd_expired w @ [(ReleaseLock, wi_opts it)]" "\<forall>y. y \<noteq> x \<longrightarrow> item_of w' y = item_of w y"
      by (auto simp: v_def)
    have "dog_path t w [FireTimer (wi_timer it), TimeoutRun i] t' w'"
      using late fire step(1) by (blast intro: dog_next dog_done)
    with step show ?thesis
      by (intro exI [of _ "[FireTimer (wi_timer it), TimeoutRun i]"] exI [of _ w']) auto
  next
    case fired
    from run [OF fired it] obtain i w' where step: "dog_step t' (TimeoutRun i) w = Some w'" "item_of w' x = None"
      "wd_expired w' = wd_expired w @ [(ReleaseLock, wi_opts it)]" "\<forall>y. y \<noteq> x \<longrightarrow> item_of w' y = item_of w y"
      by blast
    have "dog_path t w [TimeoutRun i] t' w'"
      using late step(1) by (blast intro: dog_next dog_done)
    with step show ?thesis
      by (intro exI [of _ "[TimeoutRun i]"] exI [of _ w']) auto
  qed
qed

section \<open>Properties\<close>

text \<open>Watching one execution for 20 seconds from time 0.\<close>

definition demo_watch :: watch_options where
  "demo_watch = \<lparr>wo_execution_id = ''e1'', wo_session_id = ''s1'', wo_lock_key = ''s1'', wo_timeout = 20 * second\<rparr>"

definition demo_dog :: watchdog where
  "demo_dog = the (watch 0 demo_watch (new_watchdog True 0))"

lemma demo_dog_item: "\<exists>it. item_of demo_dog ''e1'' = Some it \<and> wi_opts it = demo_watch \<and> wi_deadline it = 20 * second"
  by (simp add: demo_dog_def watch_def Let_def demo_watch_def new_watchdog_def item_of_def put_item_def
      arm_def idle_timeout_def min_idle_timeout_def duration_defs)

lemma demo_dog_path: "dog_path 0 (new_watchdog True 0) [Watch demo_watch] 0 demo_dog"
proof -
  have "watch 0 demo_watch (new_watchdog True 0) \<noteq> None"
    by (simp add: watch_def Let_def new_watchdog_def)
  then have "dog_step 0 (Watch demo_watch) (new_watchdog True 0) = Some demo_dog"
    by (simp add: demo_dog_def)
  then show ?thesis by (intro dog_next [OF _ _ dog_done]) auto
qed

text \<open>
  An execution is never timed out early: on any run of the watchdog that ends before the deadline
  of a watched execution, whatever timers fire and callbacks run, it stays watched with the same options
  and no earlier deadline, unless it is settled, watched anew or the watchdog is closed.
\<close>

theorem watchdog_not_early:
  assumes "dog_path t0 (new_watchdog g floor) as0 t w" and "item_of w x = Some it"
    and "dog_path t w as t' w'" and "t' < wi_deadline it" and "\<forall>a\<in>set as. \<not> ends_watch x a"
  shows "\<exists>it'. item_of w' x = Some it' \<and> wi_deadline it \<le> wi_deadline it' \<and> wi_opts it' = wi_opts it"
  using dog_path_keeps [OF assms(3) dog_path_ok [OF assms(1) new_watchdog_ok] assms(2,4,5)] .

theorem watchdog_not_early_witness:
  "\<exists>it'. item_of (heartbeat 5 ''e1'' demo_dog) ''e1'' = Some it' \<and> 20 * second \<le> wi_deadline it'"
proof -
  from demo_dog_item obtain it where it: "item_of demo_dog ''e1'' = Some it" "wi_deadline it = 20 * second"
    by blast
  have path: "dog_path 0 demo_dog [Heartbeat ''e1''] 5 (heartbeat 5 ''e1'' demo_dog)"
    by (rule dog_next [OF _ _ dog_done]) auto
  have "5 < wi_deadline it" using it by (simp add: duration_defs)
  from watchdog_not_early [OF demo_dog_path it(1) path this] it(2) show ?thesis
    by (auto simp: ends_watch_def)
qed

text \<open>
  An idle execution is always noticed: once its deadline has passed, in any reachable state, the timer
  callbacks alone stop watching it in at most two steps and hand its options to the release of its
  lock and the error event, and no other execution is affected.
\<close>

theorem watchdog_liveness:
  assumes path: "dog_path t0 (new_watchdog g floor) as0 t w" and it: "item_of w x = Some it"
    and late: "wi_deadline it \<le> t'" "t \<le> t'"
  shows "\<exists>as w'. length as \<le> 2 \<and> set as \<subseteq> range FireTimer \<union> range TimeoutRun \<and> dog_path t w as t' w' \<and>
    item_of w' x = None \<and> wd_expired w' = wd_expired w @ [(ReleaseLock, wi_opts it)] \<and>
    (\<forall>y. y \<noteq> x \<longrightarrow> item_of w' y = item_of w y)"
  using watchdog_expires [OF dog_path_ok [OF path new_watchdog_ok] it late] .

theorem watchdog_liveness_witness:
  "\<exists>as w'. dog_path 0 demo_dog as (20 * second) w' \<and> item_of w' ''e1'' = None \<and>
     (ReleaseLock, demo_watch) \<in> set (wd_expired w')"
proof -
  from demo_dog_item obtain it where it: "item_of demo_dog ''e1'' = Some it" "wi_deadline it = 20 * second"
    "wi_opts it = demo_watch" by blast
  have late: "wi_deadline it \<le> 20 * second" "(0::time) \<le> 20 * second"
    using it by (simp_all add: duration_defs)
  from watchdog_liveness [OF demo_dog_path it(1) late] it(3) obtain as w' where
    "dog_path 0 demo_dog as (20 * second) w'" "item_of w' ''e1'' = None"
    "(ReleaseLock, demo_watch) \<in> set (wd_expired w')" by auto
  then show ?thesis by (intro exI conjI)
qed

end
