(* ===== verification/KernelState.thy ===== *)
theory KernelState
  imports Watchdog
begin

text \<open>
  How \<open>kernel/kernel.go\<close> wires the components together: one bus, one lock manager and one watchdog, which
  subscribes to the bus as its first subscriber, and \<open>Kernel.Stop\<close>. The transitions are those of the
  components; the watchdog's subscriber goroutine hands each envelope it takes to \<open>onEvent\<close>.
\<close>

section \<open>State\<close>

record kernel =
  kn_bus :: bus
  kn_lock :: lock_mgr
  kn_dog :: watchdog
  kn_handling :: "envelope option"
  kn_stop_stage :: nat

definition dog_sub :: string where
  "dog_sub = ''watchdog#1''"

definition default_bus_options :: bus_options where
  "default_bus_options = \<lparr>bo_publish_buffer = 0, bo_subscriber_buffer = 0, bo_deliver_timeout = 0\<rparr>"

definition kernel_bus :: bus where
  "kernel_bus = (case bus_subscribe ''watchdog'' watchdog_filter True (new_bus default_bus_options) of
     Some b \<Rightarrow> b | None \<Rightarrow> new_bus default_bus_options)"

definition new_kernel :: kernel where
  "new_kernel = \<lparr>kn_bus = kernel_bus, kn_lock = new_lock_mgr, kn_dog = new_watchdog True 0,
     kn_handling = None, kn_stop_stage = 0\<rparr>"

section \<open>Transitions\<close>

definition dog_queue_head :: "bus \<Rightarrow> envelope option" where
  "dog_queue_head b = (case bus_objs b dog_sub of
     Some s \<Rightarrow> (case sb_ch s of env # _ \<Rightarrow> Some env | [] \<Rightarrow> None) | None \<Rightarrow> None)"

definition dog_sub_done :: "bus \<Rightarrow> bool" where
  "dog_sub_done b = (case bus_objs b dog_sub of Some s \<Rightarrow> sb_done s | None \<Rightarrow> True)"

text \<open>
  \<open>Kernel.Stop\<close>: the watchdog is closed (its subscription first, whose goroutine \<open>Close\<close> waits for),
  then the lock manager, then the bus.
\<close>

definition stop_kernel :: "kernel \<Rightarrow> kernel option" where
  "stop_kernel k =
     (let k' = k\<lparr>kn_stop_stage := Suc (kn_stop_stage k)\<rparr>; stage = kn_stop_stage k in
      if stage = 0 then Some (k'\<lparr>kn_bus := detach dog_sub (kn_bus k)\<rparr>)
      else if stage = 1 then
        (if dog_sub_done (kn_bus k) then Some (k'\<lparr>kn_dog := watchdog_close (kn_dog k)\<rparr>) else None)
      else if stage = 2 then map_option (\<lambda>m. k'\<lparr>kn_lock := m\<rparr>) (close_begin (kn_lock k))
      else if stage = 3 then map_option (\<lambda>m. k'\<lparr>kn_lock := m\<rparr>) (close_stop (kn_lock k))
      else if stage = 4 then map_option (\<lambda>m. k'\<lparr>kn_lock := m\<rparr>) (close_expired (kn_lock k))
      else if stage = 5 then Some (k'\<lparr>kn_bus := bus_close (kn_bus k)\<rparr>)
      else None)"

datatype kernel_action =
    BusAct bus_action
  | LockAct lock_action
  | DogAct dog_action
  | HandleEvent
  | StopKernel

text \<open>The actions reserved to \<open>Stop\<close>, and those of the watchdog's goroutine while its handler runs.\<close>

definition own_action :: "kernel \<Rightarrow> kernel_action \<Rightarrow> bool" where
  "own_action k a = (case a of
      BusAct CloseBus \<Rightarrow> True
    | BusAct (RunHandle x) \<Rightarrow> x = dog_sub \<and> kn_handling k \<noteq> None
    | BusAct (RunExit x) \<Rightarrow> x = dog_sub \<and> kn_handling k \<noteq> None
    | LockAct CloseBegin \<Rightarrow> True | LockAct CloseStop \<Rightarrow> True | LockAct CloseExpired \<Rightarrow> True
    | DogAct CloseWatchdog \<Rightarrow> True
    | _ \<Rightarrow> False)"

fun kernel_do :: "(duration \<Rightarrow> string) \<Rightarrow> time \<Rightarrow> kernel_action \<Rightarrow> kernel \<Rightarrow> kernel option" where
  "kernel_do sh t (BusAct a) k = map_option (\<lambda>b. k\<lparr>kn_bus := b,
     kn_handling := (if a = RunHandle dog_sub then dog_queue_head (kn_bus k) else kn_handling k)\<rparr>)
     (bus_step a (kn_bus k))"
| "kernel_do sh t (LockAct a) k = map_option (\<lambda>m. k\<lparr>kn_lock := m\<rparr>) (lock_step t a (kn_lock k))"
| "kernel_do sh t (DogAct (TimeoutReleased i)) k = map_option (\<lambda>(w, m). k\<lparr>kn_dog := w, kn_lock := m\<rparr>)
     (timeout_release i (kn_dog k) (kn_lock k))"
| "kernel_do sh t (DogAct (TimeoutPublished i)) k = map_option (\<lambda>(w, b). k\<lparr>kn_dog := w, kn_bus := b\<rparr>)
     (timeout_publish sh t i (kn_dog k) (kn_bus k))"
| "kernel_do sh t (DogAct a) k = map_option (\<lambda>w. k\<lparr>kn_dog := w\<rparr>) (dog_step t a (kn_dog k))"
| "kernel_do sh t HandleEvent k = (case kn_handling k of
     None \<Rightarrow> None
   | Some env \<Rightarrow> Some (k\<lparr>kn_dog := on_event t env (kn_dog k), kn_handling := None\<rparr>))"
| "kernel_do sh t StopKernel k = stop_kernel k"

definition kernel_step :: "(duration \<Rightarrow> string) \<Rightarrow> time \<Rightarrow> kernel_action \<Rightarrow> kernel \<Rightarrow> kernel option" where
  "kernel_step sh t a k = (if own_action k a then None else kernel_do sh t a k)"

inductive kernel_reach :: "(duration \<Rightarrow> string) \<Rightarrow> time \<Rightarrow> kernel \<Rightarrow> bool" for sh where
  kernel_start: "kernel_reach sh t new_kernel"
| kernel_next: "kernel_reach sh t k \<Longrightarrow> t \<le> t' \<Longrightarrow> kernel_step sh t' a k = Some k' \<Longrightarrow> kernel_reach sh t' k'"

inductive kernel_path :: "(duration \<Rightarrow> string) \<Rightarrow> time \<Rightarrow> kernel \<Rightarrow> kernel_action list \<Rightarrow> time \<Rightarrow> kernel \<Rightarrow> bool"
  for sh where
  kpath_done: "kernel_path sh t k [] t k"
| kpath_next: "t \<le> t1 \<Longrightarrow> kernel_step sh t1 a k = Some k1 \<Longrightarrow> kernel_path sh t1 k1 as t' k' \<Longrightarrow>
    kernel_path sh t k (a # as) t' k'"

section \<open>The components within the kernel\<close>

lemma kernel_bus_reach: "bus_reach default_bus_options kernel_bus"
proof -
  have "bus_subscribe ''watchdog'' watchdog_filter True (new_bus default_bus_options) = Some kernel_bus"
    by (auto simp: kernel_bus_def bus_subscribe_def Let_def sub_id_eq wrap_u64_def split: option.splits)
  then show ?thesis
    using bus_next [OF bus_start, of "Subscribe ''watchdog'' watchdog_filter True"] by simp
qed

lemma lock_reach_mono: "lock_reach t m \<Longrightarrow> t \<le> t' \<Longrightarrow> lock_reach t' m"
  using lock_next [of t m t' "Acquire [] [] 0" m] by (simp add: acquire_def)

lemma on_event_ok: "watch_ok t w \<Longrightarrow> watch_ok t (on_event t env w)"
  by (simp add: on_event_def Let_def heartbeat_ok)

lemma force_release_reach: "lock_reach t m \<Longrightarrow> lock_reach t (force_release key m)"
  using lock_next [of t m t "ForceRelease key"] by simp

lemma detach_reach: "bus_reach opts b \<Longrightarrow> bus_reach opts (detach sid b)"
  by (rule bus_next [of _ b "CloseSub sid"]) simp_all

lemma publish_reach: "bus_reach opts b \<Longrightarrow> bus_reach opts (publish_begin now env b)"
  by (rule bus_next [of _ b "PublishBegin now env"]) simp_all

lemma bus_close_reach: "bus_reach opts b \<Longrightarrow> bus_reach opts (bus_close b)"
  by (rule bus_next [of _ b CloseBus]) simp_all

lemma lock_close_reach:
  "lock_reach t m \<Longrightarrow> close_begin m = Some m' \<Longrightarrow> lock_reach t m'"
  "lock_reach t m \<Longrightarrow> close_stop m = Some m' \<Longrightarrow> lock_reach t m'"
  "lock_reach t m \<Longrightarrow> close_expired m = Some m' \<Longrightarrow> lock_reach t m'"
  by (rule lock_next [of t m t CloseBegin] lock_next [of t m t CloseStop] lock_next [of t m t CloseExpired];
      simp)+

definition kernel_ok :: "time \<Rightarrow> kernel \<Rightarrow> bool" where
  "kernel_ok t k \<longleftrightarrow> bus_reach default_bus_options (kn_bus k) \<and> lock_reach t (kn_lock k) \<and>
     watch_ok t (kn_dog k) \<and> wd_lock_given (kn_dog k)"

lemma kernel_ok_mono: "kernel_ok t k \<Longrightarrow> t \<le> t' \<Longrightarrow> kernel_ok t' k"
  by (auto simp: kernel_ok_def intro: lock_reach_mono watch_ok_mono)

lemma stop_kernel_ok: "kernel_ok t k \<Longrightarrow> stop_kernel k = Some k' \<Longrightarrow> kernel_ok t k'"
  by (auto simp: stop_kernel_def kernel_ok_def Let_def intro: detach_reach bus_close_reach lock_close_reach
      watchdog_close_ok split: if_splits) (simp add: watchdog_close_def)

lemma heartbeat_lock_given [simp]: "wd_lock_given (heartbeat t x w) = wd_lock_given w"
  by (auto simp: heartbeat_def Let_def split: option.splits)

lemma dog_step_lock_given: "dog_step t a w = Some w' \<Longrightarrow> wd_lock_given w' = wd_lock_given w"
proof (cases a)
  case (TimeoutRun i)
  assume "dog_step t a w = Some w'"
  with TimeoutRun have "timeout_run t i w = Some w'" by simp
  then show ?thesis by (cases rule: timeout_run_cases) simp_all
qed (auto simp: watch_def settle_def watchdog_close_def fire_timer_def mark_released_def mark_published_def
    Let_def split: if_splits option.splits)

lemma timeout_release_lock:
  "timeout_release i w m = Some (w', m') \<Longrightarrow> m' = m \<or> (\<exists>x. m' = force_release x m)"
  by (auto simp: timeout_release_def split: if_splits)

lemma dog_do_ok:
  assumes ok: "kernel_ok t k" and step: "kernel_do sh t (DogAct a) k = Some k'"
  shows "kernel_ok t k'"
proof (cases a)
  case (TimeoutReleased i)
  with step obtain w m where r: "timeout_release i (kn_dog k) (kn_lock k) = Some (w, m)"
    "k' = k\<lparr>kn_dog := w, kn_lock := m\<rparr>" by auto
  then obtain opts where "mark_released i (kn_dog k) = Some (opts, w)"
    by (auto simp: timeout_release_def)
  with r timeout_release_lock [OF r(1)] have w: "mark_released i (kn_dog k) = Some (opts, w)"
    "kn_dog k' = w" "kn_bus k' = kn_bus k" "kn_lock k' = kn_lock k \<or> (\<exists>x. kn_lock k' = force_release x (kn_lock k))"
    by auto
  then have "dog_step t a (kn_dog k) = Some w" using TimeoutReleased by simp
  with w ok show ?thesis
    by (auto simp: kernel_ok_def intro: force_release_reach dog_step_ok dest: dog_step_lock_given)
next
  case (TimeoutPublished i)
  with step obtain opts w where w: "mark_published i (kn_dog k) = Some (opts, w)"
    "kn_dog k' = w" "kn_lock k' = kn_lock k" "kn_bus k' = publish_begin t (timeout_envelope sh t opts) (kn_bus k)"
    by (auto simp: timeout_publish_def)
  then have "dog_step t a (kn_dog k) = Some w" using TimeoutPublished by simp
  with w ok show ?thesis
    by (auto simp: kernel_ok_def intro: publish_reach dog_step_ok dest: dog_step_lock_given)
qed (use ok step in \<open>fastforce simp: kernel_ok_def simp del: dog_step.simps
    intro: dog_step_ok dest: dog_step_lock_given\<close>)+

lemma kernel_step_ok:
  assumes ok: "kernel_ok t k" and step: "kernel_step sh t a k = Some k'"
  shows "kernel_ok t k'"
proof -
  have do: "kernel_do sh t a k = Some k'" using step by (simp add: kernel_step_def split: if_splits)
  show ?thesis
  proof (cases a)
    case (BusAct x)
    with do ok show ?thesis by (auto simp: kernel_ok_def intro: bus_next)
  next
    case (LockAct x)
    with do ok show ?thesis by (auto simp: kernel_ok_def intro: lock_next)
  next
    case HandleEvent
    with do ok show ?thesis
      by (auto simp: kernel_ok_def on_event_ok split: option.splits) (simp add: on_event_def Let_def)
  qed (use do ok in \<open>auto intro: dog_do_ok stop_kernel_ok\<close>)
qed

lemma new_kernel_ok: "kernel_ok t new_kernel"
  by (auto simp: new_kernel_def kernel_ok_def kernel_bus_reach lock_start new_watchdog_ok)
    (simp add: new_watchdog_def)

lemma kernel_reach_ok: "kernel_reach sh t k \<Longrightarrow> kernel_ok t k"
  by (induction rule: kernel_reach.induct) (auto intro: new_kernel_ok kernel_step_ok kernel_ok_mono)

lemma kernel_path_reach: "kernel_path sh t k as t' k' \<Longrightarrow> kernel_reach sh t k \<Longrightarrow> kernel_reach sh t' k'"
  by (induction rule: kernel_path.induct) (auto intro: kernel_next)

lemma kernel_path_append:
  "kernel_path sh t k as t1 k1 \<Longrightarrow> kernel_path sh t1 k1 bs t' k' \<Longrightarrow> kernel_path sh t k (as @ bs) t' k'"
  by (induction rule: kernel_path.induct) (auto intro: kpath_next)

text \<open>The timer callbacks of the watchdog run in the kernel as they do alone.\<close>

lemma dog_path_kernel:
  "dog_path t w as t' w' \<Longrightarrow> set as \<subseteq> range FireTimer \<union> range TimeoutRun \<Longrightarrow>
   kernel_path sh t (k\<lparr>kn_dog := w\<rparr>) (map DogAct as) t' (k\<lparr>kn_dog := w'\<rparr>)"
proof (induction rule: dog_path.induct)
  case (dog_next t t1 a w w1 as t' w')
  then have "kernel_step sh t1 (DogAct a) (k\<lparr>kn_dog := w\<rparr>) = Some (k\<lparr>kn_dog := w1\<rparr>)"
    by (auto simp: kernel_step_def own_action_def)
  with dog_next show ?case by (auto intro: kpath_next)
qed (simp add: kpath_done)

section \<open>Properties\<close>

text \<open>
  The kernel is the composition of its components: in every reachable state of the kernel its bus and
  its lock manager are in states reachable by themselves, so their properties hold in it, and the
  watchdog's invariant holds.
\<close>

theorem kernel_composition:
  assumes "kernel_reach sh t k"
  shows "bus_reach default_bus_options (kn_bus k) \<and> lock_reach t (kn_lock k) \<and> watch_ok t (kn_dog k)"
  using kernel_reach_ok [OF assms] by (simp add: kernel_ok_def)

theorem kernel_composition_witness:
  "bus_reach default_bus_options kernel_bus \<and> lock_reach 3 new_lock_mgr \<and> watch_ok 3 (new_watchdog True 0)"
  using kernel_composition [OF kernel_start, of 3] by (simp add: new_kernel_def)


text \<open>The kernel watching one execution, while bob holds the lock key it names.\<close>

definition watched_kernel :: kernel where
  "watched_kernel = new_kernel\<lparr>kn_dog := demo_dog, kn_lock := snd (acquire 0 0 ''s1'' ''bob'' 0 new_lock_mgr)\<rparr>"

lemma watched_kernel_reach: "kernel_reach sh 0 watched_kernel"
proof -
  have "dog_step 0 (Watch demo_watch) (new_watchdog True 0) = Some demo_dog"
    by (simp add: demo_dog_def watch_def Let_def new_watchdog_def)
  then have "kernel_step sh 0 (DogAct (Watch demo_watch)) new_kernel = Some (new_kernel\<lparr>kn_dog := demo_dog\<rparr>)"
    by (simp add: kernel_step_def own_action_def new_kernel_def)
  from kernel_next [OF kernel_start order_refl this]
  have "kernel_reach sh 0 (new_kernel\<lparr>kn_dog := demo_dog\<rparr>)" .
  from kernel_next [OF this order_refl, of "LockAct (Acquire ''s1'' ''bob'' 0)"] show ?thesis
    by (simp add: kernel_step_def own_action_def watched_kernel_def new_kernel_def)
qed


text \<open>
  The error event of a timeout is activity of the execution that timed out: the watchdog's own
  filter selects it and it names the execution, so if the execution is watched anew before the
  watchdog handles the event, handling it restarts its idle timer.
\<close>

theorem timeout_event_is_activity:
  assumes "wo_execution_id opts \<noteq> []"
  shows "filter_match watchdog_filter (timeout_envelope sh now opts) \<and>
    on_event t (timeout_envelope sh now opts) w = heartbeat t (wo_execution_id opts) w"
  using assms
  by (simp add: filter_match_def watchdog_filter_def timeout_envelope_def on_event_def timeout_event_def
      event.defs error_event.defs)

theorem timeout_event_is_activity_witness:
  "\<exists>it. item_of (on_event (5 * second) (timeout_envelope (\<lambda>d. []) 0 demo_watch) demo_dog) ''e1'' = Some it \<and>
     wi_deadline it = 25 * second"
proof -
  have x: "wo_execution_id demo_watch = ''e1''" by (simp add: demo_watch_def)
  then have "wo_execution_id demo_watch \<noteq> []" by simp
  from timeout_event_is_activity [OF this, of "\<lambda>d. []" 0 "5 * second" demo_dog] demo_dog_item x show ?thesis
    by (auto simp: heartbeat_def Let_def demo_watch_def duration_defs dest: item_of_open)
qed

end
