(* ===== verification/MemoryStore.thy ===== *)
theory MemoryStore
  imports GoStrings Complex_Main
begin

text \<open>
  The memory store (\<open>memory/types.go\<close>, \<open>memory/store.go\<close>, \<open>memory/memstore.go\<close>): entries by identifier,
  filtered and scored queries. The iteration order of the Go map and the order \<open>sort.Slice\<close> gives to
  equal elements are parameters: \<open>order\<close> lists the keys, \<open>mix\<close> permutes a slice before a stable sort.
  All clock readings of one call are the same instant \<open>now\<close>.
\<close>

section \<open>Entries and filters\<close>

datatype any_value = AnyString string | AnyNumber rat

record mem_entry =
  me_id :: string
  me_type :: string
  me_domain :: string
  me_cognitive_kind :: string
  me_title :: string
  me_content :: string
  me_source :: string
  me_session_id :: string
  me_cwd :: string
  me_embedding :: "rat list"
  me_metadata :: "(string \<times> any_value) list"
  me_ttl :: duration
  me_created_at :: time
  me_updated_at :: time
  me_expire_at :: time

definition empty_entry :: mem_entry where
  "empty_entry = \<lparr>me_id = [], me_type = [], me_domain = [], me_cognitive_kind = [], me_title = [],
     me_content = [], me_source = [], me_session_id = [], me_cwd = [], me_embedding = [], me_metadata = [],
     me_ttl = 0, me_created_at = 0, me_updated_at = 0, me_expire_at = 0\<rparr>"

abbreviation type_short_term :: string where "type_short_term \<equiv> ''short_term''"
abbreviation type_long_term :: string where "type_long_term \<equiv> ''long_term''"
abbreviation type_project :: string where "type_project \<equiv> ''project''"
abbreviation domain_code :: string where "domain_code \<equiv> ''code''"
abbreviation domain_dialogue :: string where "domain_dialogue \<equiv> ''dialogue''"
abbreviation domain_task :: string where "domain_task \<equiv> ''task''"

definition entry_expired :: "time \<Rightarrow> mem_entry \<Rightarrow> bool" where
  "entry_expired now e \<longleftrightarrow> \<not> is_zero (me_expire_at e) \<and> me_expire_at e < now"

record mem_filter =
  mf_types :: "string list"
  mf_domains :: "string list"
  mf_cognitive_kinds :: "string list"
  mf_session_id :: string
  mf_cwd :: string
  mf_title_contains :: string
  mf_content_contains :: string
  mf_limit :: int
  mf_offset :: int

definition empty_filter :: mem_filter where
  "empty_filter = \<lparr>mf_types = [], mf_domains = [], mf_cognitive_kinds = [], mf_session_id = [], mf_cwd = [],
     mf_title_contains = [], mf_content_contains = [], mf_limit = 0, mf_offset = 0\<rparr>"

record hit =
  hit_entry :: mem_entry
  hit_score :: rat

type_synonym mem_store = "string \<rightharpoonup> mem_entry"

definition new_mem_store :: mem_store where
  "new_mem_store = Map.empty"

section \<open>Writing\<close>

definition fill_entry :: "time \<Rightarrow> mem_entry \<Rightarrow> mem_entry" where
  "fill_entry now e =
     (let e = (if is_zero (me_created_at e) then e\<lparr>me_created_at := now\<rparr> else e);
          e = (if is_zero (me_updated_at e) then e\<lparr>me_updated_at := now\<rparr> else e)
      in if 0 < me_ttl e \<and> is_zero (me_expire_at e) then e\<lparr>me_expire_at := now + me_ttl e\<rparr> else e)"

definition store_upsert :: "time \<Rightarrow> mem_entry \<Rightarrow> mem_store \<Rightarrow> mem_store" where
  "store_upsert now e s = (if me_id e = [] then s else s(me_id e \<mapsto> fill_entry now e))"

definition store_get :: "string \<Rightarrow> mem_store \<Rightarrow> mem_entry" where
  "store_get i s = (case s i of None \<Rightarrow> empty_entry | Some e \<Rightarrow> e)"

definition store_delete :: "string \<Rightarrow> mem_store \<Rightarrow> mem_store" where
  "store_delete i s = s(i := None)"

text \<open>\<open>PurgeExpired\<close> deletes while it iterates, in any order of the keys.\<close>

fun purge_loop :: "time \<Rightarrow> string list \<Rightarrow> mem_store \<Rightarrow> nat \<Rightarrow> mem_store \<times> nat" where
  "purge_loop now [] s n = (s, n)"
| "purge_loop now (i # js) s n = (case s i of
     Some e \<Rightarrow> if entry_expired now e then purge_loop now js (s(i := None)) (Suc n) else purge_loop now js s n
   | None \<Rightarrow> purge_loop now js s n)"

definition purge_expired :: "time \<Rightarrow> string list \<Rightarrow> mem_store \<Rightarrow> mem_store \<times> nat" where
  "purge_expired now order s = purge_loop now order s 0"

section \<open>Filtering\<close>

definition match_any :: "string \<Rightarrow> string list \<Rightarrow> bool" where
  "match_any v xs = (if xs = [] then True else v \<in> set xs)"

definition entry_matches :: "time \<Rightarrow> mem_filter \<Rightarrow> mem_entry \<Rightarrow> bool" where
  "entry_matches now f e =
     (if entry_expired now e then False
      else if \<not> match_any (me_type e) (mf_types f) then False
      else if \<not> match_any (me_domain e) (mf_domains f) then False
      else if \<not> match_any (me_cognitive_kind e) (mf_cognitive_kinds f) then False
      else if mf_session_id f \<noteq> [] \<and> me_session_id e \<noteq> mf_session_id f then False
      else if mf_cwd f \<noteq> [] \<and> me_cwd e \<noteq> mf_cwd f then False
      else if mf_title_contains f \<noteq> [] \<and>
        \<not> str_contains (to_lower (me_title e)) (to_lower (mf_title_contains f)) then False
      else if mf_content_contains f \<noteq> [] \<and>
        \<not> str_contains (to_lower (me_content e)) (to_lower (mf_content_contains f)) then False
      else True)"

definition filter_locked :: "time \<Rightarrow> string list \<Rightarrow> mem_filter \<Rightarrow> mem_store \<Rightarrow> mem_entry list" where
  "filter_locked now order f s = filter (entry_matches now f) (values_in s order)"

text \<open>\<open>if n > 0 \<and> len(xs) > n { xs = xs[:n] }\<close>\<close>

definition truncate :: "int \<Rightarrow> 'a list \<Rightarrow> 'a list" where
  "truncate n xs = (if 0 < n \<and> n < int (length xs) then take (nat n) xs else xs)"

definition store_query :: "time \<Rightarrow> string list \<Rightarrow> mem_filter \<Rightarrow> mem_store \<Rightarrow> mem_entry list" where
  "store_query now order f s =
     truncate (mf_limit f) (sort_key (\<lambda>e. - me_updated_at e) (filter_locked now order f s))"

definition store_count :: "time \<Rightarrow> string list \<Rightarrow> mem_filter \<Rightarrow> mem_store \<Rightarrow> nat" where
  "store_count now order f s = length (filter_locked now order f s)"

section \<open>Scoring\<close>

definition matched_words :: "string \<Rightarrow> string \<Rightarrow> nat" where
  "matched_words a b = length (filter (\<lambda>w. w \<in> set (GoStrings.fields b)) (GoStrings.fields a))"

definition word_overlap :: "string \<Rightarrow> string \<Rightarrow> rat" where
  "word_overlap a b =
     (if GoStrings.fields a = [] \<or> GoStrings.fields b = [] then 0
      else of_nat (matched_words a b) / of_nat (length (GoStrings.fields a)))"

definition simple_text_score :: "string \<Rightarrow> mem_entry \<Rightarrow> rat" where
  "simple_text_score query e =
     (let title = to_lower (me_title e); content = to_lower (me_content e) in
      if str_contains title query \<or> str_contains query title then 9 / 10
      else if str_contains content query then 7 / 10
      else let overlap = word_overlap query content in
        if 1 / 2 < overlap then 1 / 2
        else if \<exists>w\<in>set (GoStrings.fields query). str_contains content w then 4 / 10
        else if 1 / 5 < overlap then 3 / 10
        else 0)"

definition query_similar ::
  "time \<Rightarrow> string list \<Rightarrow> (hit list \<Rightarrow> hit list) \<Rightarrow> string \<Rightarrow> mem_filter \<Rightarrow> int \<Rightarrow> mem_store \<Rightarrow> hit list" where
  "query_similar now order mix text f k s =
     (let hits = map (\<lambda>e. \<lparr>hit_entry = e, hit_score = simple_text_score (to_lower text) e\<rparr>)
            (filter (\<lambda>e. 0 < simple_text_score (to_lower text) e) (store_query now order f s))
      in truncate k (sort_key (\<lambda>h. - hit_score h) (mix hits)))"

section \<open>Lemmas\<close>

lemma truncate_take: "truncate n xs = (if 0 < n then take (nat n) xs else xs)"
  by (auto simp: truncate_def)

lemma set_truncate: "set (truncate n xs) \<subseteq> set xs"
  by (auto simp: truncate_take dest: in_set_takeD)

lemma length_truncate: "0 < n \<Longrightarrow> length (truncate n xs) = min (nat n) (length xs)"
  by (simp add: truncate_take min.commute)

lemma sorted_wrt_truncate: "sorted_wrt P xs \<Longrightarrow> sorted_wrt P (truncate n xs)"
  by (simp add: truncate_take sorted_wrt_take)

lemma sort_key_desc: "sorted_wrt (\<lambda>x y. f y \<le> f x) (sort_key (\<lambda>x. - f x :: 'b :: linordered_idom) xs)"
proof -
  have "sorted (map (\<lambda>x. - f x) (sort_key (\<lambda>x. - f x) xs))" by (rule sorted_sort_key)
  then show ?thesis by (simp add: sorted_wrt_map)
qed

text \<open>What is cut off by the limit is no newer than what is kept.\<close>

lemma sorted_wrt_truncate_rest:
  assumes "sorted_wrt P xs" "x \<in> set xs" "x \<notin> set (truncate n xs)" "y \<in> set (truncate n xs)"
  shows "P y x"
proof -
  have n: "0 < n" using assms(2,3) by (auto simp: truncate_take split: if_splits)
  have "sorted_wrt P (take (nat n) xs @ drop (nat n) xs)" using assms(1) by simp
  moreover have "x \<in> set (drop (nat n) xs)"
    using assms(2,3) n append_take_drop_id [of "nat n" xs] by (metis truncate_take Un_iff set_append)
  ultimately show ?thesis
    using assms(4) n by (auto simp: sorted_wrt_append truncate_take simp del: append_take_drop_id)
qed

text \<open>The store maps every identifier to an entry with that identifier.\<close>

definition keyed :: "mem_store \<Rightarrow> bool" where
  "keyed s \<longleftrightarrow> (\<forall>i e. s i = Some e \<longrightarrow> me_id e = i \<and> i \<noteq> [] \<and> \<not> is_zero (me_updated_at e)) \<and> finite (dom s)"

lemma fill_entry_sel [simp]:
  "me_id (fill_entry now e) = me_id e" "me_type (fill_entry now e) = me_type e"
  "me_domain (fill_entry now e) = me_domain e" "me_session_id (fill_entry now e) = me_session_id e"
  "me_content (fill_entry now e) = me_content e" "me_title (fill_entry now e) = me_title e"
  "me_cwd (fill_entry now e) = me_cwd e" "me_cognitive_kind (fill_entry now e) = me_cognitive_kind e"
  "me_updated_at (fill_entry now e) = (if is_zero (me_updated_at e) then now else me_updated_at e)"
  "me_expire_at (fill_entry now e) =
     (if 0 < me_ttl e \<and> is_zero (me_expire_at e) then now + me_ttl e else me_expire_at e)"
  by (auto simp: fill_entry_def Let_def)

lemma keyed_new: "keyed new_mem_store"
  by (simp add: keyed_def new_mem_store_def)

lemma keyed_upsert: "keyed s \<Longrightarrow> 0 < now \<Longrightarrow> keyed (store_upsert now e s)"
  by (auto simp: keyed_def store_upsert_def)

lemma keyed_delete: "keyed s \<Longrightarrow> keyed (store_delete i s)"
  by (auto simp: keyed_def store_delete_def dom_minus)

lemma values_in_ids: "keyed s \<Longrightarrow> set ks \<subseteq> dom s \<Longrightarrow> map me_id (values_in s ks) = ks"
  by (induction ks) (auto simp: keyed_def split: option.splits)

lemma distinct_ids: "keyed s \<Longrightarrow> iter_order s order \<Longrightarrow> distinct (map me_id (values_in s order))"
  by (simp add: values_in_ids iter_order_def)

lemma set_filter_locked:
  "iter_order s order \<Longrightarrow> set (filter_locked now order f s) = {e \<in> ran s. entry_matches now f e}"
  by (auto simp: filter_locked_def iter_order_set)

lemma matches_not_expired: "entry_matches now f e \<Longrightarrow> \<not> entry_expired now e"
  by (simp add: entry_matches_def split: if_splits)

section \<open>The contract of a store\<close>

text \<open>
  What the clients of the Go interface \<open>Store\<close> rely on. A query may answer in any way the order of the
  map allows, so it is a relation between the filter, the state and an answer.
\<close>

locale memory_store =
  fixes upsert :: "time \<Rightarrow> mem_entry \<Rightarrow> 's \<Rightarrow> 's"
    and lookup :: "string \<Rightarrow> 's \<Rightarrow> mem_entry option"
    and query :: "time \<Rightarrow> mem_filter \<Rightarrow> 's \<Rightarrow> mem_entry list \<Rightarrow> bool"
    and valid :: "'s \<Rightarrow> bool"
  assumes upsert_valid: "valid s \<Longrightarrow> 0 < now \<Longrightarrow> valid (upsert now e s)"
    and lookup_upsert: "me_id e \<noteq> [] \<Longrightarrow>
      lookup i (upsert now e s) = (if i = me_id e then Some (fill_entry now e) else lookup i s)"
    and upsert_no_id: "me_id e = [] \<Longrightarrow> upsert now e s = s"
    and lookup_id: "valid s \<Longrightarrow> lookup i s = Some e \<Longrightarrow> me_id e = i"
    and query_sound: "valid s \<Longrightarrow> query now f s es \<Longrightarrow> e \<in> set es \<Longrightarrow>
      lookup (me_id e) s = Some e \<and> entry_matches now f e"
    and query_distinct: "valid s \<Longrightarrow> query now f s es \<Longrightarrow> distinct (map me_id es)"
    and query_sorted: "query now f s es \<Longrightarrow> sorted_wrt (\<lambda>x y. me_updated_at y \<le> me_updated_at x) es"
    and query_limit: "query now f s es \<Longrightarrow> 0 < mf_limit f \<Longrightarrow> int (length es) \<le> mf_limit f"
    and query_complete: "valid s \<Longrightarrow> query now f s es \<Longrightarrow> lookup i s = Some e \<Longrightarrow> entry_matches now f e \<Longrightarrow>
      e \<in> set es \<or> 0 < mf_limit f \<and> (\<forall>e'\<in>set es. me_updated_at e \<le> me_updated_at e') \<and>
        mf_limit f \<le> int (length es)"
begin

text \<open>A query with limit 1 answers with a newest matching entry, if there is one.\<close>

lemma query_newest:
  assumes "valid s" "query now f s es" "mf_limit f = 1" "lookup i s = Some e" "entry_matches now f e"
  shows "\<exists>e'. es = [e'] \<and> lookup (me_id e') s = Some e' \<and> entry_matches now f e' \<and>
    me_updated_at e \<le> me_updated_at e'"
proof -
  have "int (length es) \<le> 1" using query_limit [OF assms(2)] assms(3) by simp
  then consider "es = []" | e' where "es = [e']"
    by (cases es) auto
  then show ?thesis
  proof cases
    case 1
    with query_complete [OF assms(1,2,4,5)] assms(3) show ?thesis by simp
  next
    case (2 e')
    with query_complete [OF assms(1,2,4,5)] query_sound [OF assms(1,2), of e'] show ?thesis by auto
  qed
qed

lemma query_unique_newest:
  assumes "valid s" "query now f s es" "mf_limit f = 1" "lookup i s = Some e" "entry_matches now f e"
    and newest: "\<And>j e'. lookup j s = Some e' \<Longrightarrow> entry_matches now f e' \<Longrightarrow> j \<noteq> i \<Longrightarrow>
      me_updated_at e' < me_updated_at e"
  shows "es = [e]"
proof -
  from query_newest [OF assms(1-5)] obtain e' where e': "es = [e']" "lookup (me_id e') s = Some e'"
    "entry_matches now f e'" "me_updated_at e \<le> me_updated_at e'" by blast
  with newest [OF e'(2,3)] have "me_id e' = i" by auto
  with e' assms(4) show ?thesis by simp
qed

lemma query_none:
  "valid s \<Longrightarrow> query now f s es \<Longrightarrow> (\<And>i e. lookup i s = Some e \<Longrightarrow> \<not> entry_matches now f e) \<Longrightarrow> es = []"
  using query_sound [of s now f es] by (cases es) auto

end

text \<open>The answers the in-memory store may give.\<close>

definition query_result :: "time \<Rightarrow> mem_filter \<Rightarrow> mem_store \<Rightarrow> mem_entry list \<Rightarrow> bool" where
  "query_result now f s es \<longleftrightarrow> (\<exists>order. iter_order s order \<and> es = store_query now order f s)"

lemma keyed_ran: "keyed s \<Longrightarrow> e \<in> ran s \<Longrightarrow> s (me_id e) = Some e"
  by (auto simp: keyed_def ran_def)

interpretation ms: memory_store store_upsert "\<lambda>i s. s i" query_result keyed
proof (unfold_locales, goal_cases)
  case (5 s now f es e)
  then obtain order where o: "iter_order s order" "es = store_query now order f s"
    by (auto simp: query_result_def)
  with 5(3) have "e \<in> set (filter_locked now order f s)"
    using set_truncate by (fastforce simp: store_query_def)
  with o(1) 5(1) show ?case by (auto simp: set_filter_locked keyed_ran)
next
  case (6 s now f es)
  then obtain order where o: "iter_order s order" "es = store_query now order f s"
    by (auto simp: query_result_def)
  have "distinct (map me_id (filter_locked now order f s))"
    unfolding filter_locked_def by (rule distinct_map_filter [OF distinct_ids [OF 6(1) o(1)]])
  then have "distinct (map me_id (sort_key (\<lambda>e. - me_updated_at e) (filter_locked now order f s)))"
    by (simp add: distinct_map)
  then show ?case
    by (auto simp: o(2) store_query_def truncate_take take_map [symmetric])
next
  case (7 now f s es)
  then show ?case
    by (auto simp: query_result_def store_query_def intro!: sorted_wrt_truncate sort_key_desc)
next
  case (8 now f s es)
  then show ?case by (auto simp: query_result_def store_query_def length_truncate)
next
  case (9 s now f es i e)
  then obtain order where o: "iter_order s order" "es = store_query now order f s"
    by (auto simp: query_result_def)
  let ?xs = "sort_key (\<lambda>e. - me_updated_at e) (filter_locked now order f s)"
  have e: "e \<in> set ?xs" using 9(3,4) o(1) by (auto simp: set_filter_locked ran_def)
  show ?case
  proof (cases "e \<in> set es")
    case False
    then have cut: "e \<notin> set (truncate (mf_limit f) ?xs)" by (simp add: o(2) store_query_def)
    with e have pos: "0 < mf_limit f" "\<not> length ?xs \<le> nat (mf_limit f)"
      by (auto simp: truncate_take split: if_splits)
    have "me_updated_at e \<le> me_updated_at e'" if "e' \<in> set es" for e'
      using sorted_wrt_truncate_rest [OF sort_key_desc e cut] that by (simp add: o(2) store_query_def)
    moreover have "mf_limit f \<le> int (length es)"
      using pos by (simp add: o(2) store_query_def length_truncate)
    ultimately show ?thesis using pos by simp
  qed simp
qed (auto simp: keyed_upsert store_upsert_def keyed_def)

section \<open>Purging\<close>

lemma purge_loop_spec:
  "distinct order \<Longrightarrow> purge_loop now order s n =
    ((\<lambda>i. if i \<in> set order \<and> (\<exists>e. s i = Some e \<and> entry_expired now e) then None else s i),
     n + length (filter (\<lambda>i. \<exists>e. s i = Some e \<and> entry_expired now e) order))"
proof (induction order arbitrary: s n)
  case (Cons i js)
  then show ?case
    by (auto simp: fun_eq_iff split: option.splits intro!: arg_cong [where f = length] filter_cong)
qed simp

text \<open>
  Taking expired entries out does not change what a query sees: every order of the smaller map extends
  to one of the larger, and back.
\<close>

lemma values_in_filter:
  "filter (entry_matches now f) (values_in s order) =
   filter (entry_matches now f) (values_in (\<lambda>i. if \<exists>e. s i = Some e \<and> entry_expired now e then None else s i)
     (filter (\<lambda>i. \<not> (\<exists>e. s i = Some e \<and> entry_expired now e)) order))"
  by (induction order) (auto simp: matches_not_expired split: option.splits dest: matches_not_expired)

lemma values_in_extra:
  "(\<forall>i\<in>set extra. \<exists>e. s i = Some e \<and> entry_expired now e) \<Longrightarrow>
   filter (entry_matches now f) (values_in s extra) = []"
  by (induction extra) (auto dest: matches_not_expired)

lemma values_in_cong: "(\<And>i. i \<in> set ks \<Longrightarrow> m i = m' i) \<Longrightarrow> values_in m ks = values_in m' ks"
  by (induction ks) (auto split: option.splits)

lemma values_in_append: "values_in m (ks @ ks') = values_in m ks @ values_in m ks'"
  by (induction ks) (auto split: option.splits)

lemma purge_keeps_queries:
  assumes "finite (dom s)"
  shows "query_result now f s es \<longleftrightarrow>
    query_result now f (\<lambda>i. if \<exists>e. s i = Some e \<and> entry_expired now e then None else s i) es"
proof
  let ?gone = "\<lambda>i. \<exists>e. s i = Some e \<and> entry_expired now e"
  let ?s' = "\<lambda>i. if ?gone i then None else s i"
  {
    assume "query_result now f s es"
    then obtain order where o: "iter_order s order" "es = store_query now order f s"
      by (auto simp: query_result_def)
    have "iter_order ?s' (filter (\<lambda>i. \<not> ?gone i) order)"
      using o(1) by (auto simp: iter_order_def dom_def)
    moreover have "es = store_query now (filter (\<lambda>i. \<not> ?gone i) order) f ?s'"
      using o(2) values_in_filter [of now f s order] by (simp add: store_query_def filter_locked_def)
    ultimately show "query_result now f ?s' es" by (auto simp: query_result_def)
  next
    assume "query_result now f ?s' es"
    then obtain order where o: "iter_order ?s' order" "es = store_query now order f ?s'"
      by (auto simp: query_result_def)
    obtain extra where extra: "set extra = {i. ?gone i}" "distinct extra"
      using assms finite_distinct_list [of "{i. ?gone i}"] by (auto simp: dom_def intro: finite_subset [rotated])
    have in_order: "i \<in> set order \<longleftrightarrow> i \<in> dom s \<and> \<not> ?gone i" for i
      using o(1) by (auto simp: iter_order_def dom_def)
    have "iter_order s (order @ extra)"
      using o(1) extra in_order by (auto simp: iter_order_def)
    moreover have "es = store_query now (order @ extra) f s"
    proof -
      have same: "values_in ?s' order = values_in s order"
        by (rule values_in_cong) (use in_order in auto)
      show ?thesis
        using o(2) extra(1) values_in_extra [of extra s now f]
        by (simp add: store_query_def filter_locked_def same values_in_append)
    qed
    ultimately show "query_result now f s es" by (auto simp: query_result_def)
  }
qed

section \<open>Scores\<close>

lemma word_overlap_bounds: "0 \<le> word_overlap a b" "word_overlap a b \<le> 1"
proof -
  have "matched_words a b \<le> length (GoStrings.fields a)"
    by (simp add: matched_words_def)
  then show "0 \<le> word_overlap a b" "word_overlap a b \<le> 1"
    by (auto simp: word_overlap_def divide_le_eq_1)
qed

lemma score_values: "simple_text_score q e \<in> {9 / 10, 7 / 10, 1 / 2, 4 / 10, 3 / 10, 0}"
  by (simp add: simple_text_score_def Let_def)

section \<open>Properties\<close>

definition demo_entry :: "string \<Rightarrow> string \<Rightarrow> string \<Rightarrow> time \<Rightarrow> mem_entry" where
  "demo_entry i title content t = empty_entry\<lparr>me_id := i, me_type := type_long_term, me_domain := domain_code,
     me_title := title, me_content := content, me_session_id := ''s1'', me_updated_at := t\<rparr>"

definition demo_store :: mem_store where
  "demo_store = store_upsert 9 (demo_entry ''b'' ''second'' ''fix the parser'' 8)
     (store_upsert 9 (demo_entry ''a'' ''first'' ''run the tests'' 7) new_mem_store)"

lemma demo_store_keyed: "keyed demo_store"
  by (simp add: demo_store_def keyed_upsert keyed_new)

lemma demo_store_simps [simp]:
  "demo_store ''a'' = Some (fill_entry 9 (demo_entry ''a'' ''first'' ''run the tests'' 7))"
  "demo_store ''b'' = Some (fill_entry 9 (demo_entry ''b'' ''second'' ''fix the parser'' 8))"
  "dom demo_store = {''b'', ''a''}"
  by (auto simp: demo_store_def store_upsert_def demo_entry_def new_mem_store_def)

lemma demo_order: "iter_order demo_store [''b'', ''a'']"
  by (auto simp: iter_order_def)

text \<open>
  \<open>Query\<close> answers with entries of the store that match the filter and have not expired, each once,
  newest first; it leaves out a matching entry only if the limit is reached by entries at least
  as new, and the answer is as long as \<open>Count\<close> says or as the limit allows, in whatever order the map is
  iterated.
\<close>

theorem store_query_correct:
  assumes "keyed s" and "iter_order s order"
  shows "set (store_query now order f s) \<subseteq> {e. s (me_id e) = Some e \<and> entry_matches now f e} \<and>
    distinct (map me_id (store_query now order f s)) \<and>
    sorted_wrt (\<lambda>x y. me_updated_at y \<le> me_updated_at x) (store_query now order f s) \<and>
    (\<forall>i e. s i = Some e \<and> entry_matches now f e \<and> e \<notin> set (store_query now order f s) \<longrightarrow>
       0 < mf_limit f \<and> (\<forall>e'\<in>set (store_query now order f s). me_updated_at e \<le> me_updated_at e')) \<and>
    length (store_query now order f s) =
      (if 0 < mf_limit f then min (nat (mf_limit f)) (store_count now order f s) else store_count now order f s)"
proof -
  have q: "query_result now f s (store_query now order f s)"
    using assms(2) by (auto simp: query_result_def)
  have "length (store_query now order f s) =
      (if 0 < mf_limit f then min (nat (mf_limit f)) (store_count now order f s) else store_count now order f s)"
    by (simp add: store_query_def store_count_def truncate_take min.commute)
  with ms.query_sound [OF assms(1) q] ms.query_distinct [OF assms(1) q] ms.query_sorted [OF q]
    ms.query_complete [OF assms(1) q] show ?thesis by blast
qed

theorem store_query_correct_witness:
  "distinct (map me_id (store_query 9 [''b'', ''a''] empty_filter demo_store)) \<and>
     length (store_query 9 [''b'', ''a''] (empty_filter\<lparr>mf_limit := 1\<rparr>) demo_store) = 1"
proof -
  have "store_count 9 [''b'', ''a''] (empty_filter\<lparr>mf_limit := 1\<rparr>) demo_store = 2"
    by (simp add: store_count_def filter_locked_def entry_matches_def entry_expired_def match_any_def
        empty_filter_def demo_entry_def empty_entry_def)
  then show ?thesis
    using store_query_correct [OF demo_store_keyed demo_order, of 9 empty_filter]
      store_query_correct [OF demo_store_keyed demo_order, of 9 "empty_filter\<lparr>mf_limit := 1\<rparr>"]
    by (simp add: empty_filter_def)
qed

text \<open>
  \<open>QuerySimilar\<close> returns at most \<open>k\<close> hits on entries that \<open>Query\<close> returns for the same filter, each with
  its own positive score, best score first, and with no limit on the hits it returns every entry of that
  answer that scores at all. Every score is one of 0.9, 0.7, 0.5, 0.4 and 0.3.
\<close>

theorem query_similar_correct:
  assumes "\<And>hs. mset (mix hs) = mset hs" and "hits = query_similar now order mix text f k s"
  shows "(\<forall>h\<in>set hits. hit_entry h \<in> set (store_query now order f s) \<and>
      hit_score h = simple_text_score (to_lower text) (hit_entry h) \<and>
      hit_score h \<in> {9 / 10, 7 / 10, 1 / 2, 4 / 10, 3 / 10}) \<and>
    sorted_wrt (\<lambda>x y. hit_score y \<le> hit_score x) hits \<and>
    (0 < k \<longrightarrow> int (length hits) \<le> k) \<and>
    (k \<le> 0 \<longrightarrow> hit_entry ` set hits = {e \<in> set (store_query now order f s). 0 < simple_text_score (to_lower text) e})"
proof -
  let ?raw = "map (\<lambda>e. \<lparr>hit_entry = e, hit_score = simple_text_score (to_lower text) e\<rparr>)
    (filter (\<lambda>e. 0 < simple_text_score (to_lower text) e) (store_query now order f s))"
  have hits: "hits = truncate k (sort_key (\<lambda>h. - hit_score h) (mix ?raw))"
    by (simp add: assms(2) query_similar_def Let_def)
  have set_mix: "set (mix ?raw) = set ?raw"
    using assms(1) by (metis set_mset_mset)
  have pos: "simple_text_score q e \<in> {9 / 10, 7 / 10, 1 / 2, 4 / 10, 3 / 10}" if "0 < simple_text_score q e" for q e
    using score_values [of q e] that by auto
  have "\<forall>h\<in>set hits. h \<in> set ?raw"
    using set_truncate [of k "sort_key (\<lambda>h. - hit_score h) (mix ?raw)"] set_mix by (auto simp: hits)
  with pos have "\<forall>h\<in>set hits. hit_entry h \<in> set (store_query now order f s) \<and>
      hit_score h = simple_text_score (to_lower text) (hit_entry h) \<and>
      hit_score h \<in> {9 / 10, 7 / 10, 1 / 2, 4 / 10, 3 / 10}" by fastforce
  moreover have "sorted_wrt (\<lambda>x y. hit_score y \<le> hit_score x) hits"
    unfolding hits by (intro sorted_wrt_truncate sort_key_desc)
  moreover have "0 < k \<longrightarrow> int (length hits) \<le> k" by (auto simp: hits length_truncate)
  moreover have "hit_entry ` set hits = {e \<in> set (store_query now order f s). 0 < simple_text_score (to_lower text) e}"
    if "k \<le> 0"
    using that set_mix by (auto simp: hits truncate_take image_image)
  ultimately show ?thesis by blast
qed

theorem query_similar_correct_witness:
  "hit_entry ` set (query_similar 9 [''b'', ''a''] id ''PARSER'' empty_filter 1 demo_store)
      \<subseteq> set (store_query 9 [''b'', ''a''] empty_filter demo_store) \<and>
   int (length (query_similar 9 [''b'', ''a''] id ''PARSER'' empty_filter 1 demo_store)) \<le> 1"
  using query_similar_correct [of id _ 9 "[''b'', ''a'']" "''PARSER''" empty_filter 1 demo_store] by auto

text \<open>
  An empty query text, or an entry without a title, scores 0.9 whatever else it says: the test that the
  query contains the title holds for the empty title, so untitled entries outrank every entry whose
  content contains the query.
\<close>

theorem score_of_empty_text:
  "simple_text_score [] e = 9 / 10 \<and> (me_title e = [] \<longrightarrow> simple_text_score query e = 9 / 10)"
  by (simp add: simple_text_score_def Let_def to_lower_def)

theorem score_of_empty_text_witness:
  "simple_text_score ''rust'' (demo_entry ''c'' [] ''go code'' 1) = 9 / 10 \<and>
   simple_text_score ''rust'' (demo_entry ''d'' ''notes'' ''about rust'' 1) = 7 / 10"
proof -
  have "me_title (demo_entry ''c'' [] ''go code'' 1) = []" by (simp add: demo_entry_def)
  with score_of_empty_text [of "demo_entry ''c'' [] ''go code'' 1" "''rust''"]
  have "simple_text_score ''rust'' (demo_entry ''c'' [] ''go code'' 1) = 9 / 10" by simp
  moreover have "simple_text_score ''rust'' (demo_entry ''d'' ''notes'' ''about rust'' 1) = 7 / 10"
    by code_simp
  ultimately show ?thesis by simp
qed

text \<open>
  \<open>PurgeExpired\<close> removes exactly the expired entries and returns their number, in whatever order the
  map is iterated, and no query at that instant answers differently for it.
\<close>

theorem purge_expired_correct:
  assumes "keyed s" and "iter_order s order" and "purge_expired now order s = (s', n)"
  shows "(\<forall>i. s' i = (case s i of Some e \<Rightarrow> if entry_expired now e then None else Some e | None \<Rightarrow> None)) \<and>
    n = card {i. \<exists>e. s i = Some e \<and> entry_expired now e} \<and> keyed s' \<and>
    (\<forall>f es. query_result now f s es \<longleftrightarrow> query_result now f s' es)"
proof -
  let ?gone = "\<lambda>i. \<exists>e. s i = Some e \<and> entry_expired now e"
  have d: "distinct order" "set order = dom s" using assms(2) by (auto simp: iter_order_def)
  have loop: "s' = (\<lambda>i. if i \<in> set order \<and> ?gone i then None else s i)" and n: "n = length (filter ?gone order)"
    using assms(3) purge_loop_spec [OF d(1), of now s 0] by (simp_all add: purge_expired_def)
  have s': "s' = (\<lambda>i. if ?gone i then None else s i)"
    unfolding loop by (rule ext) (auto simp: d(2))
  have "set (filter ?gone order) = {i. ?gone i}" using d(2) by auto
  with n distinct_card [of "filter ?gone order"] d(1) have "n = card {i. ?gone i}" by simp
  moreover have "keyed s'"
  proof -
    have "dom s' \<subseteq> dom s" by (auto simp: s' split: if_splits)
    with assms(1) show ?thesis by (auto simp: keyed_def s' intro: finite_subset split: if_splits)
  qed
  moreover have "query_result now f s es \<longleftrightarrow> query_result now f s' es" for f es
    using purge_keeps_queries [of s now f es] assms(1) by (simp add: s' keyed_def)
  ultimately show ?thesis by (auto simp: s' split: option.splits)
qed

theorem purge_expired_correct_witness:
  "\<exists>s' n. purge_expired 9 [''b'', ''a''] demo_store = (s', n) \<and>
     n = card {i. \<exists>e. demo_store i = Some e \<and> entry_expired 9 e}"
proof -
  obtain s' n where p: "purge_expired 9 [''b'', ''a''] demo_store = (s', n)"
    by (cases "purge_expired 9 [''b'', ''a''] demo_store")
  with purge_expired_correct [OF demo_store_keyed demo_order p] show ?thesis by simp
qed

end
