(* ===== verification/Moe.thy ===== *)
theory Moe
  imports Scheduler MemoryStore
begin

text \<open>
  The memory router (\<open>memory/moe\<close>): it classifies an intent, queries the memory for entries of that class
  and attaches what it finds to the request, as a rule of the scheduler. \<open>similar\<close> is \<open>QuerySimilar\<close> of the
  store the router was built with; \<^const>\<open>None\<close> is its error.
\<close>

section \<open>Classification\<close>

definition kind_type :: "string \<Rightarrow> string" where
  "kind_type kind =
     (if kind = ''exec'' \<or> kind = ''ai_turn'' then type_short_term
      else if kind = ''slash'' \<or> kind = ''skill'' then type_project
      else type_short_term)"

definition contains_any :: "string \<Rightarrow> string list \<Rightarrow> bool" where
  "contains_any s ws \<longleftrightarrow> (\<exists>w\<in>set ws. str_contains s w)"

definition task_words :: "string list" where
  "task_words = [''task'', ''todo'', ''plan'', ''schedule'', ''check'', ''status'']"

definition code_words :: "string list" where
  "code_words = [''code'', ''refactor'', ''fix'', ''bug'', ''test'', ''build'', ''deploy'', ''review'']"

definition classify :: "intent_request \<Rightarrow> string \<times> string" where
  "classify req =
     (let typ = kind_type (iq_kind req);
          typ = (if iq_cwd req \<noteq> [] \<and> typ = type_short_term then type_project else typ);
          cmd = to_lower (iq_command req);
          target = to_lower (join '' '' (iq_tags req));
          combined = cmd @ '' '' @ target
      in (typ,
          if contains_any combined task_words then domain_task
          else if contains_any combined code_words then domain_code
          else domain_dialogue))"

section \<open>Retrieval\<close>

definition retrieve_filter :: "intent_request \<Rightarrow> int \<Rightarrow> mem_filter" where
  "retrieve_filter req k =
     (case classify req of (typ, domain) \<Rightarrow>
        let f = empty_filter\<lparr>mf_types := [typ], mf_domains := [domain], mf_limit := k * 2\<rparr>;
            f = (if iq_cwd req \<noteq> [] then f\<lparr>mf_cwd := iq_cwd req\<rparr> else f)
        in if iq_session_id req \<noteq> [] then f\<lparr>mf_session_id := iq_session_id req\<rparr> else f)"

definition query_text :: "intent_request \<Rightarrow> string" where
  "query_text req =
     (let q = iq_command req;
          q = (if q = [] then join '' '' (iq_tags req) else q)
      in if q = [] then iq_kind req else q)"

type_synonym 'w similar = "string \<Rightarrow> mem_filter \<Rightarrow> int \<Rightarrow> 'w \<Rightarrow> hit list option"

definition retrieve :: "'w similar \<Rightarrow> intent_request \<Rightarrow> int \<Rightarrow> 'w \<Rightarrow> hit list option" where
  "retrieve similar req k w = similar (query_text req) (retrieve_filter req k) k w"

definition moe_tag :: "hit \<Rightarrow> string" where
  "moe_tag h = ''moe:hit='' @ me_id (hit_entry h)"

definition moe_rule :: "'w similar option \<Rightarrow> int \<Rightarrow> 'w rule" where
  "moe_rule store k req w = (case store of
     None \<Rightarrow> (empty_decision, req, w)
   | Some similar \<Rightarrow> (case retrieve similar req k w of
       None \<Rightarrow> (empty_decision, req, w)
     | Some [] \<Rightarrow> (empty_decision, req, w)
     | Some hits \<Rightarrow>
         (empty_decision\<lparr>dc_outcome := outcome_admit\<rparr>, req\<lparr>iq_tags := iq_tags req @ map moe_tag hits\<rparr>, w)))"

text \<open>\<open>WriteMemory\<close>; the receiver or its store may be nil.\<close>

definition write_memory :: "(mem_entry \<Rightarrow> 's \<Rightarrow> 's) option \<Rightarrow> intent_request \<Rightarrow> string \<Rightarrow> 's \<Rightarrow> 's" where
  "write_memory store req content s = (case store of
     None \<Rightarrow> s
   | Some upsert \<Rightarrow>
       if iq_session_id req = [] then s
       else case classify req of (typ, domain) \<Rightarrow>
         upsert (empty_entry\<lparr>me_id := ''mem-'' @ iq_owner req @ ''-'' @ iq_kind req, me_type := typ,
           me_domain := domain, me_title := iq_command req, me_content := content, me_source := ''kernel'',
           me_session_id := iq_session_id req, me_cwd := iq_cwd req\<rparr>) s)"

section \<open>Lemmas\<close>

lemma classify_range:
  "fst (classify req) \<in> {type_short_term, type_project}"
  "snd (classify req) \<in> {domain_task, domain_code, domain_dialogue}"
  by (simp_all add: classify_def kind_type_def Let_def)

lemma retrieve_filter_sel:
  "mf_types (retrieve_filter req k) = [fst (classify req)]"
  "mf_domains (retrieve_filter req k) = [snd (classify req)]"
  "mf_limit (retrieve_filter req k) = k * 2"
  "mf_session_id (retrieve_filter req k) = iq_session_id req"
  "mf_cwd (retrieve_filter req k) = iq_cwd req"
  by (simp_all add: retrieve_filter_def empty_filter_def Let_def split: prod.splits)

lemma moe_rule_enriching: "enriching (moe_rule store k)"
  by (auto simp: enriching_def moe_rule_def split: option.splits list.splits)

lemma match_any_single: "match_any v [x] \<longleftrightarrow> v = x"
  by (simp add: match_any_def)

text \<open>\<open>QuerySimilar\<close> of the in-memory store, as the router calls it.\<close>

definition mem_similar :: "time \<Rightarrow> (mem_store \<Rightarrow> string list) \<Rightarrow> (hit list \<Rightarrow> hit list) \<Rightarrow> mem_store similar" where
  "mem_similar now order mix text f k s = Some (query_similar now (order s) mix text f k s)"

lemma query_similar_entries:
  assumes "\<And>hs. mset (mix hs) = mset hs" and "h \<in> set (query_similar now order mix text f k s)"
  shows "hit_entry h \<in> set (store_query now order f s) \<and> 0 < hit_score h"
proof -
  let ?raw = "map (\<lambda>e. \<lparr>hit_entry = e, hit_score = simple_text_score (to_lower text) e\<rparr>)
    (filter (\<lambda>e. 0 < simple_text_score (to_lower text) e) (store_query now order f s))"
  have "set (mix ?raw) = set ?raw" using assms(1) by (metis set_mset_mset)
  with assms(2) set_truncate [of k "sort_key (\<lambda>h. - hit_score h) (mix ?raw)"] have "h \<in> set ?raw"
    by (auto simp: query_similar_def Let_def)
  then show ?thesis by auto
qed

section \<open>Properties\<close>

text \<open>
  What the router retrieves from the in-memory store matches the class, session and directory of the
  request, and is never a long-term memory: no request is classified as long-term, so patterns
  confirmed by user feedback and stored preferences do not reach the tags of a request.
\<close>

theorem retrieve_scope:
  assumes "keyed s" and "iter_order s (order s)" and "\<And>hs. mset (mix hs) = mset hs"
    and "retrieve (mem_similar now order mix) req k s = Some hits" and "h \<in> set hits"
  shows "me_type (hit_entry h) = fst (classify req) \<and> me_domain (hit_entry h) = snd (classify req) \<and>
    (iq_session_id req \<noteq> [] \<longrightarrow> me_session_id (hit_entry h) = iq_session_id req) \<and>
    (iq_cwd req \<noteq> [] \<longrightarrow> me_cwd (hit_entry h) = iq_cwd req) \<and>
    me_type (hit_entry h) \<noteq> type_long_term \<and> s (me_id (hit_entry h)) = Some (hit_entry h)"
proof -
  have "h \<in> set (query_similar now (order s) mix (query_text req) (retrieve_filter req k) k s)"
    using assms(4,5) by (simp add: retrieve_def mem_similar_def)
  from query_similar_entries [OF assms(3) this]
  have "hit_entry h \<in> set (store_query now (order s) (retrieve_filter req k) s)" by blast
  moreover have "query_result now (retrieve_filter req k) s (store_query now (order s) (retrieve_filter req k) s)"
    using assms(2) by (auto simp: query_result_def)
  ultimately have e: "entry_matches now (retrieve_filter req k) (hit_entry h)"
    "s (me_id (hit_entry h)) = Some (hit_entry h)"
    using ms.query_sound [OF assms(1)] by blast+
  then have "me_type (hit_entry h) = fst (classify req)"
    by (auto simp: entry_matches_def retrieve_filter_sel match_any_single split: if_splits)
  with e classify_range(1) [of req] show ?thesis
    by (auto simp: entry_matches_def retrieve_filter_sel match_any_single split: if_splits)
qed

definition demo_intent :: intent_request where
  "demo_intent = \<lparr>iq_kind = ''exec'', iq_session_id = ''s1'', iq_execution_id = [], iq_owner = ''alice'',
     iq_resource_key = [], iq_engine = [], iq_command = ''fix the parser'', iq_cwd = [], iq_tags = []\<rparr>"

definition intent_store :: mem_store where
  "intent_store = store_upsert 9 ((demo_entry ''n'' ''parser'' ''rewrite the parser'' 8)\<lparr>me_type := type_short_term\<rparr>)
     (store_upsert 9 (demo_entry ''p'' ''fix the parser'' ''confirmed pattern'' 9) new_mem_store)"

lemma intent_store_ok: "keyed intent_store" "iter_order intent_store [''p'', ''n'']"
  by (simp_all add: intent_store_def keyed_upsert keyed_new)
    (auto simp: iter_order_def store_upsert_def demo_entry_def new_mem_store_def split: if_splits)

lemma intent_hits:
  "retrieve (mem_similar 9 (\<lambda>s. [''p'', ''n'']) id) demo_intent 3 intent_store =
     Some [\<lparr>hit_entry = fill_entry 9 ((demo_entry ''n'' ''parser'' ''rewrite the parser'' 8)\<lparr>me_type := type_short_term\<rparr>),
       hit_score = 9 / 10\<rparr>]"
  by code_simp

theorem retrieve_scope_witness:
  "map (\<lambda>h. (me_id (hit_entry h), me_type (hit_entry h)))
     (the (retrieve (mem_similar 9 (\<lambda>s. [''p'', ''n'']) id) demo_intent 3 intent_store)) = [(''n'', type_short_term)]"
proof -
  have "fst (classify demo_intent) = type_short_term" by code_simp
  with retrieve_scope [OF intent_store_ok(1), of "\<lambda>s. [''p'', ''n'']" id 9 demo_intent 3, OF intent_store_ok(2) _ intent_hits]
  show ?thesis by (simp add: intent_hits demo_entry_def)
qed

text \<open>
  The rule of the router never blocks a request and changes nothing of it but its tags, to
  which it appends one per hit, in the order of the hits.
\<close>

theorem moe_rule_enriches:
  "\<exists>d ts. moe_rule store k req w = (d, req\<lparr>iq_tags := iq_tags req @ ts\<rparr>, w) \<and>
     (dc_outcome d = [] \<or> dc_outcome d = outcome_admit) \<and>
     ts = (case store of None \<Rightarrow> [] | Some similar \<Rightarrow>
       map moe_tag (case retrieve similar req k w of None \<Rightarrow> [] | Some hits \<Rightarrow> hits))"
  by (auto simp: moe_rule_def split: option.splits list.splits)

end
