(* ===== verification/Vibe.thy ===== *)
theory Vibe
  imports Moe
begin

text \<open>
  The vibe controller (\<open>cognition/vibe\<close>): the user's interaction preferences per session, cached in memory
  and persisted as one entry of the memory store. \<open>Get\<close> is modelled after the store has answered its
  query (\<^const>\<open>None\<close> is an error); a controller without a store never asks.
\<close>

section \<open>State\<close>

record vibe_state =
  vs_style :: string
  vs_proactivity :: string
  vs_role :: string
  vs_updated_at :: time

definition default_vibe :: vibe_state where
  "default_vibe = \<lparr>vs_style = ''balanced'', vs_proactivity = ''balanced'', vs_role = ''developer'', vs_updated_at = 0\<rparr>"

type_synonym vibe_cache = "string \<rightharpoonup> vibe_state"

definition new_vibe :: vibe_cache where
  "new_vibe = Map.empty"

section \<open>The persisted form\<close>

definition format_vibe :: "vibe_state \<Rightarrow> string" where
  "format_vibe s = ''style='' @ vs_style s @ '' proactivity='' @ vs_proactivity s @ '' role='' @ vs_role s"

definition parse_part :: "string \<Rightarrow> vibe_state \<Rightarrow> vibe_state" where
  "parse_part part s =
     (let kv = splitn2 part ''='' in
      if length kv \<noteq> 2 then s
      else if kv ! 0 = ''style'' then s\<lparr>vs_style := kv ! 1\<rparr>
      else if kv ! 0 = ''proactivity'' then s\<lparr>vs_proactivity := kv ! 1\<rparr>
      else if kv ! 0 = ''role'' then s\<lparr>vs_role := kv ! 1\<rparr>
      else s)"

definition parse_vibe :: "string \<Rightarrow> vibe_state" where
  "parse_vibe content = fold parse_part (GoStrings.fields content) default_vibe"

section \<open>Operations\<close>

definition vibe_filter :: "string \<Rightarrow> mem_filter" where
  "vibe_filter sid = empty_filter\<lparr>mf_types := [type_long_term], mf_domains := [domain_dialogue],
     mf_session_id := sid, mf_limit := 1\<rparr>"

definition vibe_get :: "bool \<Rightarrow> mem_entry list option \<Rightarrow> string \<Rightarrow> vibe_cache \<Rightarrow> vibe_state \<times> vibe_cache" where
  "vibe_get store_given answer sid c = (case c sid of
     Some s \<Rightarrow> (s, c)
   | None \<Rightarrow>
       if \<not> store_given then (default_vibe, c)
       else (case answer of
           None \<Rightarrow> (default_vibe, c)
         | Some [] \<Rightarrow> (default_vibe, c)
         | Some (e # es) \<Rightarrow> let s = parse_vibe (me_content e) in (s, c(sid \<mapsto> s))))"

definition vibe_entry :: "string \<Rightarrow> vibe_state \<Rightarrow> mem_entry" where
  "vibe_entry sid s = empty_entry\<lparr>me_id := ''vibe-state-'' @ sid, me_type := type_long_term,
     me_domain := domain_dialogue, me_title := ''vibe state'', me_content := format_vibe s,
     me_session_id := sid, me_source := ''kernel'', me_created_at := vs_updated_at s,
     me_updated_at := vs_updated_at s\<rparr>"

definition vibe_set ::
  "(mem_entry \<Rightarrow> 's \<Rightarrow> 's) option \<Rightarrow> time \<Rightarrow> string \<Rightarrow> vibe_state \<Rightarrow> vibe_cache \<Rightarrow> 's \<Rightarrow> vibe_cache \<times> 's" where
  "vibe_set store now sid s c w =
     (let s = s\<lparr>vs_updated_at := now\<rparr>
      in (c(sid \<mapsto> s), case store of None \<Rightarrow> w | Some upsert \<Rightarrow> upsert (vibe_entry sid s) w))"

text \<open>\<open>UpdateStyle\<close>, \<open>UpdateProactivity\<close> and \<open>UpdateRole\<close>: \<open>Get\<close>, change one field, \<open>Set\<close>.\<close>

definition vibe_update ::
  "(vibe_state \<Rightarrow> vibe_state) \<Rightarrow> mem_entry list option \<Rightarrow> (mem_entry \<Rightarrow> 's \<Rightarrow> 's) option \<Rightarrow> time \<Rightarrow> string \<Rightarrow>
     vibe_cache \<Rightarrow> 's \<Rightarrow> vibe_cache \<times> 's" where
  "vibe_update change answer store now sid c w =
     (case vibe_get (store \<noteq> None) answer sid c of (s, c') \<Rightarrow> vibe_set store now sid (change s) c' w)"

definition update_style where
  "update_style style = vibe_update (\<lambda>s. s\<lparr>vs_style := style\<rparr>)"

definition update_proactivity where
  "update_proactivity p = vibe_update (\<lambda>s. s\<lparr>vs_proactivity := p\<rparr>)"

definition update_role where
  "update_role role = vibe_update (\<lambda>s. s\<lparr>vs_role := role\<rparr>)"

definition vibe_tags :: "vibe_state \<Rightarrow> string list" where
  "vibe_tags s = [''vibe:style='' @ vs_style s, ''vibe:proactivity='' @ vs_proactivity s, ''vibe:role='' @ vs_role s]"

text \<open>The second rule of \<open>kernel.New\<close>; the world holds the cache and the memory.\<close>

definition vibe_rule :: "(mem_filter \<Rightarrow> 's \<Rightarrow> mem_entry list option) \<Rightarrow> (vibe_cache \<times> 's) rule" where
  "vibe_rule query req w = (case w of (c, m) \<Rightarrow>
     case vibe_get True (query (vibe_filter (iq_session_id req)) m) (iq_session_id req) c of (s, c') \<Rightarrow>
       (empty_decision, req\<lparr>iq_tags := iq_tags req @ vibe_tags s\<rparr>, (c', m)))"

text \<open>The rules of \<open>kernel.New\<close>, in the order it adds them.\<close>

definition lift_memory :: "'s similar \<Rightarrow> (vibe_cache \<times> 's) similar" where
  "lift_memory similar text f k w = similar text f k (snd w)"

definition kernel_scheduler ::
  "'s similar \<Rightarrow> (mem_filter \<Rightarrow> 's \<Rightarrow> mem_entry list option) \<Rightarrow> (vibe_cache \<times> 's) scheduler" where
  "kernel_scheduler similar query =
     add_rule (Some (vibe_rule query))
       (add_rule (Some (moe_rule (Some (lift_memory similar)) 3)) (new_scheduler True 0))"

section \<open>Round trip\<close>

definition plain_state :: "vibe_state \<Rightarrow> bool" where
  "plain_state s \<longleftrightarrow> no_space (vs_style s) \<and> no_space (vs_proactivity s) \<and> no_space (vs_role s)"

lemma key_no_space:
  "no_space v \<Longrightarrow> no_space (''style='' @ v)" "no_space v \<Longrightarrow> no_space (''proactivity='' @ v)"
  "no_space v \<Longrightarrow> no_space (''role='' @ v)"
  by (rule no_space_printable; simp add: printable_def byte_def)+

lemma fields_format:
  assumes "plain_state s"
  shows "GoStrings.fields (format_vibe s) =
    [''style='' @ vs_style s, ''proactivity='' @ vs_proactivity s, ''role='' @ vs_role s]"
proof -
  have eq: "format_vibe s = (''style='' @ vs_style s) @ CHR '' '' # (''proactivity='' @ vs_proactivity s) @
      CHR '' '' # (''role='' @ vs_role s)"
    by (simp add: format_vibe_def)
  have ns: "no_space (''style='' @ vs_style s)" "no_space (''proactivity='' @ vs_proactivity s)"
    "no_space (''role='' @ vs_role s)"
    using assms by (simp_all only: plain_state_def key_no_space)
  show ?thesis
    unfolding eq by (simp only: fields_blank_Cons [OF ns(1)] fields_blank_Cons [OF ns(2)] fields_word [OF ns(3)]
        append_is_Nil_conv list.distinct simp_thms)
qed

lemma parse_part_key:
  "parse_part (''style='' @ v) s = s\<lparr>vs_style := v\<rparr>"
  "parse_part (''proactivity='' @ v) s = s\<lparr>vs_proactivity := v\<rparr>"
  "parse_part (''role='' @ v) s = s\<lparr>vs_role := v\<rparr>"
proof -
  have split: "splitn2 (k @ ''='' @ v) ''='' = [k, v]" if "CHR ''='' \<notin> set k" for k
    using splitn2_char [OF that] by simp
  show "parse_part (''style='' @ v) s = s\<lparr>vs_style := v\<rparr>"
    using split [of "''style''"] by (simp add: parse_part_def)
  show "parse_part (''proactivity='' @ v) s = s\<lparr>vs_proactivity := v\<rparr>"
    using split [of "''proactivity''"] by (simp add: parse_part_def)
  show "parse_part (''role='' @ v) s = s\<lparr>vs_role := v\<rparr>"
    using split [of "''role''"] by (simp add: parse_part_def)
qed

lemma parse_format: "plain_state s \<Longrightarrow> parse_vibe (format_vibe s) = s\<lparr>vs_updated_at := 0\<rparr>"
  by (simp only: parse_vibe_def fields_format) (simp add: parse_part_key [simplified] default_vibe_def)

section \<open>The persisted state and the query for it\<close>

lemma vibe_entry_matches: "sid \<noteq> [] \<or> mf_session_id (vibe_filter sid) = [] \<Longrightarrow>
    entry_matches now (vibe_filter sid) (fill_entry now' (vibe_entry sid s))"
  by (auto simp: entry_matches_def entry_expired_def vibe_filter_def vibe_entry_def empty_filter_def
      empty_entry_def match_any_def)

lemma vibe_entry_sel [simp]:
  "me_id (vibe_entry sid s) = ''vibe-state-'' @ sid" "me_content (vibe_entry sid s) = format_vibe s"
  "me_updated_at (vibe_entry sid s) = vs_updated_at s" "me_session_id (vibe_entry sid s) = sid"
  by (simp_all add: vibe_entry_def)

context memory_store
begin

text \<open>
  After \<open>Set\<close>, a controller that starts with an empty cache reads the preferences back, provided the
  entry is the newest one its query matches.
\<close>

lemma vibe_cold_get:
  assumes "valid w" "0 < now" and set: "vibe_set (Some (upsert now)) now sid s c w = (c', w')"
    and plain: "plain_state s"
    and answer: "query now' (vibe_filter sid) w' es"
    and newest: "\<And>i e. lookup i w = Some e \<Longrightarrow> entry_matches now' (vibe_filter sid) e \<Longrightarrow>
      i \<noteq> ''vibe-state-'' @ sid \<Longrightarrow> me_updated_at e < now"
  shows "fst (vibe_get True (Some es) sid new_vibe) = s\<lparr>vs_updated_at := 0\<rparr>"
proof -
  let ?s = "s\<lparr>vs_updated_at := now\<rparr>" and ?i = "''vibe-state-'' @ sid"
  have w': "w' = upsert now (vibe_entry sid ?s) w"
    using set by (auto simp: vibe_set_def Let_def)
  let ?e = "fill_entry now (vibe_entry sid ?s)"
  have look: "lookup i w' = (if i = ?i then Some ?e else lookup i w)" for i
    by (simp add: w' lookup_upsert)
  have "es = [?e]"
  proof (rule query_unique_newest [OF _ answer])
    show "valid w'" using assms(1,2) by (simp add: w' upsert_valid)
    show "mf_limit (vibe_filter sid) = 1" by (simp add: vibe_filter_def)
    show "lookup ?i w' = Some ?e" by (simp add: look)
    show "entry_matches now' (vibe_filter sid) ?e"
      by (rule vibe_entry_matches) (auto simp: vibe_filter_def)
    show "me_updated_at e' < me_updated_at ?e"
      if "lookup j w' = Some e'" "entry_matches now' (vibe_filter sid) e'" "j \<noteq> ?i" for j e'
      using that newest [of j e'] assms(2) by (simp add: look)
  qed
  then have "fst (vibe_get True (Some es) sid new_vibe) = parse_vibe (format_vibe ?s)"
    by (simp add: vibe_get_def new_vibe_def Let_def)
  with plain show ?thesis by (simp add: parse_format plain_state_def)
qed

end

section \<open>Enriching\<close>

lemma vibe_rule_enriching: "enriching (vibe_rule query)"
  by (auto simp: enriching_def vibe_rule_def split: prod.splits)

lemma kernel_rules_enriching: "\<forall>r\<in>set (sc_rules (kernel_scheduler similar query)). enriching r"
  by (simp add: kernel_scheduler_def add_rule_def new_scheduler_def moe_rule_enriching vibe_rule_enriching)

section \<open>Properties\<close>

text \<open>
  The persisted form of the preferences is read back as written, up to the time stamp, whenever no
  value contains white space; an equals sign or an empty value is no obstacle.
\<close>

theorem vibe_round_trip:
  assumes "plain_state s"
  shows "parse_vibe (format_vibe s) = s\<lparr>vs_updated_at := 0\<rparr>"
  by (rule parse_format [OF assms])

definition demo_vibe :: vibe_state where
  "demo_vibe = \<lparr>vs_style = ''concise'', vs_proactivity = ''a=b'', vs_role = [], vs_updated_at = 0\<rparr>"

lemma demo_vibe_plain: "plain_state demo_vibe"
  by code_simp

theorem vibe_round_trip_witness:
  "parse_vibe (format_vibe demo_vibe) = demo_vibe"
  using vibe_round_trip [OF demo_vibe_plain] by (simp add: demo_vibe_def)

text \<open>
  \<open>Set\<close> is seen by \<open>Get\<close> at once through the cache, whatever the store answers; and on the
  in-memory store it survives a restart, if no other long-term dialogue memory of the session is as
  new: a controller with an empty cache reads the same preferences from any answer of the store.
\<close>

theorem vibe_set_get:
  assumes "keyed w" and "0 < now" and "vibe_set (Some (store_upsert now)) now sid s c w = (c', w')"
  shows "fst (vibe_get g answer sid c') = s\<lparr>vs_updated_at := now\<rparr> \<and>
    (plain_state s \<and> query_result now' (vibe_filter sid) w' es \<and>
     (\<forall>i e. w i = Some e \<and> entry_matches now' (vibe_filter sid) e \<and> i \<noteq> ''vibe-state-'' @ sid \<longrightarrow>
       me_updated_at e < now) \<longrightarrow>
     fst (vibe_get True (Some es) sid new_vibe) = s\<lparr>vs_updated_at := 0\<rparr>)"
proof (intro conjI impI)
  show "fst (vibe_get g answer sid c') = s\<lparr>vs_updated_at := now\<rparr>"
    using assms(3) by (auto simp: vibe_set_def vibe_get_def Let_def)
next
  assume a: "plain_state s \<and> query_result now' (vibe_filter sid) w' es \<and>
     (\<forall>i e. w i = Some e \<and> entry_matches now' (vibe_filter sid) e \<and> i \<noteq> ''vibe-state-'' @ sid \<longrightarrow>
       me_updated_at e < now)"
  then show "fst (vibe_get True (Some es) sid new_vibe) = s\<lparr>vs_updated_at := 0\<rparr>"
    by (intro ms.vibe_cold_get [OF assms(1-3), of now']) blast+
qed

theorem vibe_set_get_witness:
  "fst (vibe_get True None ''s1'' (fst (vibe_set (Some (store_upsert 9)) 9 ''s1'' demo_vibe new_vibe new_mem_store)))
     = demo_vibe\<lparr>vs_updated_at := 9\<rparr>"
  using vibe_set_get [OF keyed_new, of 9 "''s1''" demo_vibe new_vibe
      "fst (vibe_set (Some (store_upsert 9)) 9 ''s1'' demo_vibe new_vibe new_mem_store)"
      "snd (vibe_set (Some (store_upsert 9)) 9 ''s1'' demo_vibe new_vibe new_mem_store)" True None]
  by simp

text \<open>
  The rules the kernel installs never refuse a request: the scheduler of \<open>kernel.New\<close> admits or
  defers by the lock table alone, whatever the memory holds and however its queries answer.
\<close>

theorem kernel_decides_by_locks:
  assumes "lock_reach t m" and "lm_entries m \<noteq> None" and "lock_key req \<noteq> []"
  shows "\<exists>d w' m'. decide now wall id (kernel_scheduler similar query) req w m = Some (d, w', m') \<and>
    (dc_outcome d = outcome_admit \<or> dc_outcome d = outcome_defer) \<and>
    (dc_outcome d = outcome_admit \<longleftrightarrow>
       (case held m (lock_key req) of None \<Rightarrow> True | Some (ow, n) \<Rightarrow> ow = lock_owner req)) \<and>
    (dc_outcome d = outcome_admit \<longrightarrow> dc_lock_ttl d = 10 * minute)"
proof -
  let ?s = "kernel_scheduler similar query"
  have g: "sc_lock_given ?s" and ttl: "sc_default_ttl ?s = 10 * minute"
    by (simp_all add: kernel_scheduler_def add_rule_def new_scheduler_def)
  from decide_enriching [OF kernel_rules_enriching, of now wall id similar query req w m] obtain w' where
    eq: "decide now wall id ?s req w m =
      map_option (\<lambda>(d, m'). (d, w', m')) (lock_resource now wall id True (10 * minute) req m)"
    using g ttl by auto
  with lock_resource_cases [OF reach_usable [OF assms(1,2)] refl assms(3), of now wall id "10 * minute"]
  show ?thesis by (auto split: option.splits if_splits)
qed

theorem kernel_decides_by_locks_witness:
  "\<exists>d w' m'. decide 9 9 id (kernel_scheduler (mem_similar 9 (\<lambda>s. []) id) (\<lambda>f s. None)) demo_intent (new_vibe, new_mem_store) one_lock
     = Some (d, w', m') \<and> dc_outcome d = outcome_admit"
proof -
  have k: "lock_key demo_intent = ''s1''" "lock_owner demo_intent = ''alice''" by code_simp+
  have "held one_lock ''s1'' = Some (''alice'', 1)"
    using one_lock_entry by (auto simp: held_def)
  with kernel_decides_by_locks [OF one_lock_reach one_lock_open, of demo_intent 9 9
      "mem_similar 9 (\<lambda>s. []) id" "\<lambda>f s. None" "(new_vibe, new_mem_store)"] k
  show ?thesis by auto
qed

end
