(* ===== verification/Intake.thy ===== *)
theory Intake
  imports Vibe
begin

text \<open>
  Session intake (\<open>cognition/intake\<close>): it looks at the working directory and the first prompt of a session
  and seeds the memory with up to three entries. The file system is a parameter: \<open>stat dir name\<close> is
  what \<open>os.Stat\<close> says of \<open>filepath.Join(dir, name)\<close>, \<^const>\<open>None\<close> for an error and otherwise whether it is a
  directory.
\<close>

section \<open>Profiles\<close>

record project_hint =
  ph_language :: string
  ph_framework :: string
  ph_build_tool :: string
  ph_files :: "string list"

record cognitive_profile =
  cp_goal :: string
  cp_role :: string
  cp_style :: string
  cp_project_hint :: project_hint

definition empty_hint :: project_hint where
  "empty_hint = \<lparr>ph_language = [], ph_framework = [], ph_build_tool = [], ph_files = []\<rparr>"

type_synonym file_system = "string \<Rightarrow> string \<Rightarrow> bool option"

section \<open>Project detection\<close>

definition project_signatures :: "(string \<times> string \<times> string) list" where
  "project_signatures =
     [(''go.mod'', ''go'', ''go mod''),
      (''package.json'', ''javascript/typescript'', ''npm/yarn''),
      (''tsconfig.json'', ''typescript'', ''tsc''),
      (''Cargo.toml'', ''rust'', ''cargo''),
      (''requirements.txt'', ''python'', ''pip''),
      (''pyproject.toml'', ''python'', ''pip/poetry''),
      (''setup.py'', ''python'', ''setuptools''),
      (''Pipfile'', ''python'', ''pipenv''),
      (''Gemfile'', ''ruby'', ''bundler''),
      (''pom.xml'', ''java'', ''maven''),
      (''build.gradle'', ''java/kotlin'', ''gradle''),
      (''CMakeLists.txt'', ''c/c++'', ''cmake''),
      (''Makefile'', ''c/c++'', ''make''),
      (''Dockerfile'', ''container'', ''docker''),
      (''docker-compose.yml'', ''container'', ''docker compose''),
      (''.git'', ''any'', ''git'')]"

definition add_signature :: "file_system \<Rightarrow> string \<Rightarrow> string \<times> string \<times> string \<Rightarrow> project_hint \<Rightarrow> project_hint" where
  "add_signature stat cwd sig h = (case sig of (file, language, tool) \<Rightarrow>
     if stat cwd file = Some False
     then h\<lparr>ph_language := (if ph_language h = [] then language else ph_language h),
            ph_build_tool := (if ph_build_tool h = [] then tool else ph_build_tool h),
            ph_files := ph_files h @ [file]\<rparr>
     else h)"

definition has_file :: "file_system \<Rightarrow> string \<Rightarrow> string \<Rightarrow> bool" where
  "has_file stat cwd name \<longleftrightarrow> stat cwd name \<noteq> None"

definition detect_project :: "file_system \<Rightarrow> string \<Rightarrow> project_hint" where
  "detect_project stat cwd =
     (let h = fold (add_signature stat cwd) project_signatures empty_hint in
      if has_file stat cwd ''next.config.js'' \<or> has_file stat cwd ''next.config.ts''
      then h\<lparr>ph_framework := ''next.js''\<rparr>
      else if has_file stat cwd ''tailwind.config.js'' \<or> has_file stat cwd ''tailwind.config.ts''
      then h\<lparr>ph_framework := ''tailwind''\<rparr>
      else if has_file stat cwd ''vite.config.js'' \<or> has_file stat cwd ''vite.config.ts''
      then h\<lparr>ph_framework := ''vite''\<rparr>
      else h)"

definition format_project_hint :: "project_hint \<Rightarrow> string" where
  "format_project_hint h =
     join '' '' ([''language='' @ ph_language h] @
       (if ph_framework h \<noteq> [] then [''framework='' @ ph_framework h] else []) @
       (if ph_build_tool h \<noteq> [] then [''build='' @ ph_build_tool h] else []))"

section \<open>Role and style\<close>

definition infer_role :: "string \<Rightarrow> string" where
  "infer_role prompt =
     (let lower = to_lower prompt in
      if contains_any lower [''review'', ''audit'', ''security''] then ''reviewer''
      else if contains_any lower [''architect'', ''design'', ''plan''] then ''architect''
      else if contains_any lower [''debug'', ''fix'', ''bug''] then ''debugger''
      else ''developer'')"

definition infer_style :: "string \<Rightarrow> string" where
  "infer_style prompt =
     (let lower = to_lower prompt in
      if contains_any lower [''concise'', ''brief'', ''short''] then ''concise''
      else if contains_any lower [''detailed'', ''verbose'', ''explain''] then ''verbose''
      else ''balanced'')"

section \<open>Operations\<close>

definition analyze :: "file_system \<Rightarrow> string \<Rightarrow> string \<Rightarrow> cognitive_profile" where
  "analyze stat cwd prompt =
     (let p = \<lparr>cp_goal = prompt, cp_role = [], cp_style = [], cp_project_hint = empty_hint\<rparr> in
      if cwd = [] then p
      else p\<lparr>cp_project_hint := detect_project stat cwd, cp_role := infer_role prompt,
             cp_style := infer_style prompt\<rparr>)"

definition project_entry :: "time \<Rightarrow> string \<Rightarrow> string \<Rightarrow> cognitive_profile \<Rightarrow> mem_entry" where
  "project_entry now sid cwd p = empty_entry\<lparr>me_id := ''intake-project-'' @ sid, me_type := type_project,
     me_domain := domain_code, me_title := ''project context'', me_session_id := sid, me_cwd := cwd,
     me_content := format_project_hint (cp_project_hint p), me_source := ''kernel'',
     me_created_at := now, me_updated_at := now\<rparr>"

definition goal_entry :: "time \<Rightarrow> string \<Rightarrow> string \<Rightarrow> cognitive_profile \<Rightarrow> mem_entry" where
  "goal_entry now sid cwd p = empty_entry\<lparr>me_id := ''intake-goal-'' @ sid, me_type := type_short_term,
     me_domain := domain_task, me_title := ''session goal'', me_session_id := sid, me_cwd := cwd,
     me_content := cp_goal p, me_source := ''user'', me_created_at := now, me_updated_at := now\<rparr>"

definition pref_entry :: "time \<Rightarrow> string \<Rightarrow> string \<Rightarrow> cognitive_profile \<Rightarrow> mem_entry" where
  "pref_entry now sid cwd p = empty_entry\<lparr>me_id := ''intake-pref-'' @ sid, me_type := type_long_term,
     me_domain := domain_dialogue, me_title := ''user preference'', me_session_id := sid, me_cwd := cwd,
     me_content := ''role='' @ cp_role p @ '' style='' @ cp_style p, me_source := ''kernel'',
     me_created_at := now, me_updated_at := now\<rparr>"

definition bootstrap ::
  "(mem_entry \<Rightarrow> 's \<Rightarrow> 's) option \<Rightarrow> time \<Rightarrow> string \<Rightarrow> string \<Rightarrow> cognitive_profile \<Rightarrow> 's \<Rightarrow> 's" where
  "bootstrap store now sid cwd p s = (case store of
     None \<Rightarrow> s
   | Some upsert \<Rightarrow>
       let s = (if ph_language (cp_project_hint p) \<noteq> [] then upsert (project_entry now sid cwd p) s else s);
           s = (if cp_goal p \<noteq> [] then upsert (goal_entry now sid cwd p) s else s)
       in if cp_role p \<noteq> [] \<or> cp_style p \<noteq> [] then upsert (pref_entry now sid cwd p) s else s)"

definition intake_run ::
  "file_system \<Rightarrow> (mem_entry \<Rightarrow> 's \<Rightarrow> 's) option \<Rightarrow> time \<Rightarrow> string \<Rightarrow> string \<Rightarrow> string \<Rightarrow> 's \<Rightarrow> cognitive_profile \<times> 's" where
  "intake_run stat store now sid cwd prompt s =
     (let p = analyze stat cwd prompt in (p, bootstrap store now sid cwd p s))"

section \<open>Lemmas\<close>

lemma infer_role_range: "infer_role p \<in> {''reviewer'', ''architect'', ''debugger'', ''developer''}"
  by (simp add: infer_role_def Let_def)

lemma infer_style_range: "infer_style p \<in> {''concise'', ''verbose'', ''balanced''}"
  by (simp add: infer_style_def Let_def)

lemma word_no_space:
  "w \<in> {''reviewer'', ''architect'', ''debugger'', ''developer'', ''concise'', ''verbose'', ''balanced''} \<Longrightarrow>
   no_space w \<and> w \<noteq> []"
  by (elim insertE emptyE) (simp_all add: byte_def ascii_space_def space2_def space3_def)

lemma parse_pref:
  assumes "no_space role" "no_space style"
  shows "parse_vibe (''role='' @ role @ '' style='' @ style) = default_vibe\<lparr>vs_role := role, vs_style := style\<rparr>"
proof -
  have eq: "''role='' @ role @ '' style='' @ style = (''role='' @ role) @ CHR '' '' # (''style='' @ style)"
    by simp
  have ns: "no_space (''role='' @ role)" "no_space (''style='' @ style)"
    using assms by (simp_all only: key_no_space)
  have f: "GoStrings.fields (''role='' @ role @ '' style='' @ style) = [''role='' @ role, ''style='' @ style]"
    unfolding eq by (simp only: fields_blank_Cons [OF ns(1)] fields_word [OF ns(2)] append_is_Nil_conv
        list.distinct simp_thms)
  show ?thesis
    by (simp only: parse_vibe_def f) (simp add: parse_part_key [simplified] default_vibe_def)
qed

text \<open>What a bootstrap leaves under each identifier.\<close>

lemma bootstrap_lookup:
  "bootstrap (Some (store_upsert now)) now sid cwd p s i =
     (if i = ''intake-project-'' @ sid \<and> ph_language (cp_project_hint p) \<noteq> []
      then Some (fill_entry now (project_entry now sid cwd p))
      else if i = ''intake-goal-'' @ sid \<and> cp_goal p \<noteq> [] then Some (fill_entry now (goal_entry now sid cwd p))
      else if i = ''intake-pref-'' @ sid \<and> (cp_role p \<noteq> [] \<or> cp_style p \<noteq> [])
      then Some (fill_entry now (pref_entry now sid cwd p))
      else s i)"
  by (auto simp: bootstrap_def store_upsert_def project_entry_def goal_entry_def pref_entry_def Let_def)

lemma bootstrap_keyed:
  "keyed s \<Longrightarrow> 0 < now \<Longrightarrow> keyed (bootstrap (Some (store_upsert now)) now sid cwd p s)"
  by (simp add: bootstrap_def keyed_upsert Let_def)

lemma files_fold:
  "ph_files (fold (add_signature stat cwd) sigs h) =
     ph_files h @ filter (\<lambda>f. stat cwd f = Some False) (map fst sigs)"
  by (induction sigs arbitrary: h) (auto simp: add_signature_def split: prod.splits)

lemma language_fold:
  "(\<forall>sig\<in>set sigs. fst (snd sig) \<noteq> []) \<Longrightarrow>
   ph_language (fold (add_signature stat cwd) sigs h) =
     (if ph_language h \<noteq> [] then ph_language h
      else case List.find (\<lambda>sig. stat cwd (fst sig) = Some False) sigs of
          Some sig \<Rightarrow> fst (snd sig) | None \<Rightarrow> [])"
  by (induction sigs arbitrary: h) (auto simp: add_signature_def split: prod.splits)

section \<open>Properties\<close>

text \<open>
  Detection lists exactly the signature files that exist as regular files, in the order of the
  table, and names the language of the first of them; a \<open>.git\<close> directory, like any directory, does not
  count.
\<close>

theorem detect_project_correct:
  "ph_files (detect_project stat cwd) =
     filter (\<lambda>f. stat cwd f = Some False) (map fst project_signatures) \<and>
   ph_language (detect_project stat cwd) =
     (case List.find (\<lambda>sig. stat cwd (fst sig) = Some False) project_signatures of
        Some sig \<Rightarrow> fst (snd sig) | None \<Rightarrow> [])"
proof -
  let ?h = "fold (add_signature stat cwd) project_signatures empty_hint"
  have same: "ph_files (detect_project stat cwd) = ph_files ?h" "ph_language (detect_project stat cwd) = ph_language ?h"
    by (simp_all add: detect_project_def Let_def)
  have "\<forall>sig\<in>set project_signatures. fst (snd sig) \<noteq> []" by (simp add: project_signatures_def)
  from files_fold [of stat cwd project_signatures empty_hint] language_fold [OF this, of stat cwd empty_hint]
  show ?thesis unfolding same by (simp add: empty_hint_def)
qed

text \<open>
  Intake with a working directory seeds the preferences of the session: whatever the prompt and the
  file system, on an in-memory store without long-term dialogue memories of the session, a vibe controller
  with an empty cache then reads the inferred role and style, and default proactivity.
\<close>

theorem intake_seeds_vibe:
  assumes "keyed s" and "0 < now" and "cwd \<noteq> []" and "sid \<noteq> []"
    and none: "\<forall>i e. s i = Some e \<longrightarrow> \<not> entry_matches now' (vibe_filter sid) e"
    and run: "intake_run stat (Some (store_upsert now)) now sid cwd prompt s = (p, s')"
    and answer: "query_result now' (vibe_filter sid) s' es"
  shows "fst (vibe_get True (Some es) sid new_vibe) =
    default_vibe\<lparr>vs_role := infer_role prompt, vs_style := infer_style prompt\<rparr>"
proof -
  have p: "p = analyze stat cwd prompt" and s': "s' = bootstrap (Some (store_upsert now)) now sid cwd p s"
    using run by (auto simp: intake_run_def Let_def)
  have role: "cp_role p = infer_role prompt" "cp_style p = infer_style prompt"
    using assms(3) by (simp_all add: p analyze_def)
  have words: "no_space (cp_role p) \<and> cp_role p \<noteq> []" "no_space (cp_style p)"
    using word_no_space [of "cp_role p"] word_no_space [of "cp_style p"] infer_role_range [of prompt]
      infer_style_range [of prompt] role by auto
  let ?i = "''intake-pref-'' @ sid" and ?e = "fill_entry now (pref_entry now sid cwd p)"
  have look: "s' ?i = Some ?e" using words by (simp add: s' bootstrap_lookup)
  have match: "entry_matches now' (vibe_filter sid) ?e"
    by (simp add: entry_matches_def entry_expired_def vibe_filter_def pref_entry_def empty_filter_def
        empty_entry_def match_any_def)
  have other: "\<not> entry_matches now' (vibe_filter sid) e'" if "s' j = Some e'" "j \<noteq> ?i" for j e'
  proof -
    have "\<not> entry_matches now' (vibe_filter sid) (fill_entry now (project_entry now sid cwd p))"
        "\<not> entry_matches now' (vibe_filter sid) (fill_entry now (goal_entry now sid cwd p))"
      by (simp_all add: entry_matches_def vibe_filter_def match_any_def project_entry_def goal_entry_def)
    then show ?thesis
      using that none unfolding s' bootstrap_lookup by (auto simp only: option.inject split: if_splits)
  qed
  have "es = [?e]"
    by (rule ms.query_unique_newest [OF _ answer _ look match])
      (use other bootstrap_keyed [OF assms(1,2)] in \<open>auto simp: s' vibe_filter_def\<close>)
  then have "fst (vibe_get True (Some es) sid new_vibe) =
      parse_vibe (''role='' @ cp_role p @ '' style='' @ cp_style p)"
    by (simp add: vibe_get_def new_vibe_def Let_def pref_entry_def)
  with words role show ?thesis by (simp only: parse_pref)
qed

theorem intake_seeds_vibe_witness:
  "\<exists>es. query_result 9 (vibe_filter ''s1'')
       (snd (intake_run (\<lambda>d f. None) (Some (store_upsert 9)) 9 ''s1'' ''/w'' ''Fix it, briefly'' new_mem_store)) es \<and>
     vs_role (fst (vibe_get True (Some es) ''s1'' new_vibe)) = ''debugger'' \<and>
     vs_style (fst (vibe_get True (Some es) ''s1'' new_vibe)) = ''concise''"
proof -
  obtain p s' where run: "intake_run (\<lambda>d f. None) (Some (store_upsert 9)) 9 ''s1'' ''/w'' ''Fix it, briefly'' new_mem_store
      = (p, s')" by (cases "intake_run (\<lambda>d f. None) (Some (store_upsert 9)) 9 ''s1'' ''/w'' ''Fix it, briefly'' new_mem_store")
  then have "keyed s'"
    using bootstrap_keyed [OF keyed_new] by (auto simp: intake_run_def Let_def)
  then obtain order where "iter_order s' order"
    using finite_distinct_list [of "dom s'"] by (auto simp: keyed_def iter_order_def)
  then have q: "query_result 9 (vibe_filter ''s1'') s' (store_query 9 order (vibe_filter ''s1'') s')"
    by (auto simp: query_result_def)
  have "infer_role ''Fix it, briefly'' = ''debugger''" "infer_style ''Fix it, briefly'' = ''concise''" by code_simp+
  with intake_seeds_vibe [OF keyed_new _ _ _ _ run q] q run show ?thesis
    by (intro exI [of _ "store_query 9 order (vibe_filter ''s1'') s'"]) (auto simp: new_mem_store_def)
qed

text \<open>
  A bootstrap writes at most the three entries of its session and leaves every other entry of the
  store as it is.
\<close>

theorem bootstrap_frame:
  assumes "i \<noteq> ''intake-project-'' @ sid" "i \<noteq> ''intake-goal-'' @ sid" "i \<noteq> ''intake-pref-'' @ sid"
  shows "bootstrap (Some (store_upsert now)) now sid cwd p s i = s i"
  using assms by (simp add: bootstrap_lookup)

theorem bootstrap_frame_witness:
  "bootstrap (Some (store_upsert 9)) 9 ''s2'' ''/w''
     \<lparr>cp_goal = ''g'', cp_role = ''developer'', cp_style = [], cp_project_hint = empty_hint\<rparr> demo_store ''a'' = demo_store ''a''"
  by (rule bootstrap_frame) simp_all

end
