(* ===== verification/Feedback.thy ===== *)
theory Feedback
  imports Moe
begin

text \<open>
  The feedback loop (\<open>evolution/feedback\<close>): suggestions wait for a decision of the user, which is recorded
  and written back to the memory. The rendering of a confidence with two decimals (\<open>%.2f\<close>) is a parameter
  \<open>fmt\<close>; \<open>nano\<close> is the Unix time in nanoseconds, which names a suggestion.
\<close>

section \<open>State\<close>

record suggestion =
  sg_id :: string
  sg_title :: string
  sg_description :: string
  sg_learnings :: "string list"
  sg_confidence :: rat
  sg_source :: string
  sg_session_id :: string
  sg_created_at :: time

record feedback_record =
  fr_suggestion_id :: string
  fr_decision :: string
  fr_adjusted_text :: string
  fr_timestamp :: time

record feedback_stats =
  fs_total :: nat
  fs_accepted :: nat
  fs_rejected :: nat
  fs_adjusted :: nat
  fs_pending :: nat

record feedback =
  fb_history :: "feedback_record list"
  fb_pending :: "string \<rightharpoonup> suggestion"

definition new_feedback :: feedback where
  "new_feedback = \<lparr>fb_history = [], fb_pending = Map.empty\<rparr>"

abbreviation decision_accept :: string where "decision_accept \<equiv> ''accept''"
abbreviation decision_reject :: string where "decision_reject \<equiv> ''reject''"
abbreviation decision_adjust :: string where "decision_adjust \<equiv> ''adjust''"

section \<open>Operations\<close>

definition propose ::
  "nat \<Rightarrow> time \<Rightarrow> string \<Rightarrow> string \<Rightarrow> string \<Rightarrow> string list \<Rightarrow> rat \<Rightarrow> feedback \<Rightarrow> suggestion \<times> feedback" where
  "propose nano now title source sid learnings confidence c =
     (let s = \<lparr>sg_id = ''sug-'' @ digits nano, sg_title = title,
            sg_description = ''Evolution result: '' @ title @ '' ('' @ digits (length learnings) @ '' findings)'',
            sg_learnings = learnings, sg_confidence = confidence, sg_source = source,
            sg_session_id = sid, sg_created_at = now\<rparr>
      in (s, c\<lparr>fb_pending := (fb_pending c)(sg_id s \<mapsto> s)\<rparr>))"

definition propose_from_evolve ::
  "nat \<Rightarrow> time \<Rightarrow> string \<Rightarrow> string \<Rightarrow> bool \<Rightarrow> string list \<Rightarrow> feedback \<Rightarrow> suggestion list \<times> feedback" where
  "propose_from_evolve nano now title sid passed learnings c =
     (case propose nano now title ''evolve'' sid learnings (if passed then 9 / 10 else 6 / 10) c of
        (s, c') \<Rightarrow> ([s], c'))"

definition learned_entry :: "time \<Rightarrow> suggestion \<Rightarrow> nat \<Rightarrow> mem_entry" where
  "learned_entry now sug i = empty_entry\<lparr>me_id := ''feedback-'' @ sg_id sug @ ''-'' @ digits i,
     me_type := type_long_term, me_domain := domain_code, me_source := ''user'',
     me_session_id := sg_session_id sug, me_created_at := now, me_updated_at := now\<rparr>"

definition decision_entry ::
  "(rat \<Rightarrow> string) \<Rightarrow> time \<Rightarrow> suggestion \<Rightarrow> feedback_record \<Rightarrow> nat \<Rightarrow> string \<Rightarrow> mem_entry option" where
  "decision_entry fmt now sug rec i pattern =
     (if fr_decision rec = decision_accept then Some ((learned_entry now sug i)\<lparr>me_title := pattern,
        me_content := ''confirmed pattern: '' @ pattern @ '' (confidence='' @ fmt (sg_confidence sug) @ '')'',
        me_metadata := [(''confidence'', AnyNumber (sg_confidence sug)), (''status'', AnyString ''accepted'')]\<rparr>)
      else if fr_decision rec = decision_reject then Some ((learned_entry now sug i)\<lparr>me_title := pattern,
        me_content := ''rejected pattern: '' @ pattern @ '' (confidence=0.1)'',
        me_metadata := [(''confidence'', AnyNumber (1 / 10)), (''status'', AnyString ''rejected'')]\<rparr>)
      else if fr_decision rec = decision_adjust then
        let adjusted = trim_space (fr_adjusted_text rec);
            adjusted = (if adjusted = [] then pattern else adjusted)
        in Some ((learned_entry now sug i)\<lparr>me_title := adjusted,
             me_content := ''adjusted pattern: '' @ adjusted @ '' (user corrected from: '' @ pattern @ '')'',
             me_metadata := [(''confidence'', AnyNumber (8 / 10)), (''status'', AnyString ''adjusted''),
               (''original'', AnyString pattern)]\<rparr>)
      else None)"

fun apply_from ::
  "(rat \<Rightarrow> string) \<Rightarrow> (mem_entry \<Rightarrow> 's \<Rightarrow> 's) \<Rightarrow> time \<Rightarrow> suggestion \<Rightarrow> feedback_record \<Rightarrow> nat \<Rightarrow> string list \<Rightarrow>
     's \<Rightarrow> 's" where
  "apply_from fmt upsert now sug rec i [] s = s"
| "apply_from fmt upsert now sug rec i (pattern # ps) s =
     apply_from fmt upsert now sug rec (Suc i) ps
       (case decision_entry fmt now sug rec i pattern of None \<Rightarrow> s | Some e \<Rightarrow> upsert e s)"

definition apply_decision ::
  "(rat \<Rightarrow> string) \<Rightarrow> (mem_entry \<Rightarrow> 's \<Rightarrow> 's) \<Rightarrow> time \<Rightarrow> suggestion \<Rightarrow> feedback_record \<Rightarrow> 's \<Rightarrow> 's" where
  "apply_decision fmt upsert now sug rec s = apply_from fmt upsert now sug rec 0 (sg_learnings sug) s"

text \<open>\<open>Decide\<close>; an unknown suggestion is an error that carries its identifier.\<close>

definition decide_feedback ::
  "(rat \<Rightarrow> string) \<Rightarrow> (mem_entry \<Rightarrow> 's \<Rightarrow> 's) option \<Rightarrow> time \<Rightarrow> string \<Rightarrow> string \<Rightarrow> string \<Rightarrow> feedback \<Rightarrow> 's \<Rightarrow>
     (string + feedback_record) \<times> feedback \<times> 's" where
  "decide_feedback fmt store now sid decision text c s =
     (case fb_pending c sid of
        None \<Rightarrow> (Inl (''feedback: suggestion '' @ sid @ '' not found''), c, s)
      | Some sug \<Rightarrow>
          let c1 = c\<lparr>fb_pending := (fb_pending c)(sid := None)\<rparr>;
              rec = \<lparr>fr_suggestion_id = sid, fr_decision = decision, fr_adjusted_text = text, fr_timestamp = now\<rparr>;
              c2 = c1\<lparr>fb_history := fb_history c1 @ [rec]\<rparr>
          in (Inr rec, c2, case store of None \<Rightarrow> s | Some upsert \<Rightarrow> apply_decision fmt upsert now sug rec s))"

definition pending_list :: "string list \<Rightarrow> feedback \<Rightarrow> suggestion list" where
  "pending_list order c = values_in (fb_pending c) order"

definition count_decision :: "feedback_stats \<Rightarrow> feedback_record \<Rightarrow> feedback_stats" where
  "count_decision st r =
     (let st = st\<lparr>fs_total := Suc (fs_total st)\<rparr> in
      if fr_decision r = decision_accept then st\<lparr>fs_accepted := Suc (fs_accepted st)\<rparr>
      else if fr_decision r = decision_reject then st\<lparr>fs_rejected := Suc (fs_rejected st)\<rparr>
      else if fr_decision r = decision_adjust then st\<lparr>fs_adjusted := Suc (fs_adjusted st)\<rparr>
      else st)"

definition feedback_stats_of :: "feedback \<Rightarrow> feedback_stats" where
  "feedback_stats_of c = foldl count_decision
     \<lparr>fs_total = 0, fs_accepted = 0, fs_rejected = 0, fs_adjusted = 0, fs_pending = card (dom (fb_pending c))\<rparr>
     (fb_history c)"

section \<open>Runs\<close>

datatype feedback_action =
    Propose nat time string string string "string list" rat
  | Decide time string string string

fun feedback_step :: "feedback_action \<Rightarrow> feedback \<Rightarrow> feedback" where
  "feedback_step (Propose nano now title source sid ls conf) c = snd (propose nano now title source sid ls conf c)"
| "feedback_step (Decide now sid d text) c = fst (snd (decide_feedback (\<lambda>_. []) None now sid d text c ()))"

definition feedback_run :: "feedback_action list \<Rightarrow> feedback" where
  "feedback_run as = fold feedback_step as new_feedback"

definition proposed :: "feedback_action list \<Rightarrow> nat list" where
  "proposed as = List.map_filter (\<lambda>a. case a of Propose nano _ _ _ _ _ _ \<Rightarrow> Some nano | _ \<Rightarrow> None) as"

section \<open>Lemmas\<close>

lemma decide_step:
  "feedback_step (Decide now sid d text) c = (case fb_pending c sid of
     None \<Rightarrow> c
   | Some sug \<Rightarrow> c\<lparr>fb_pending := (fb_pending c)(sid := None), fb_history := fb_history c @
       [\<lparr>fr_suggestion_id = sid, fr_decision = d, fr_adjusted_text = text, fr_timestamp = now\<rparr>]\<rparr>)"
  by (simp add: decide_feedback_def Let_def split: option.splits)

lemma proposed_simps [simp]:
  "proposed [] = []"
  "proposed (as @ [Propose nano now t s i ls cf]) = proposed as @ [nano]"
  "proposed (as @ [Decide now sid d text]) = proposed as"
  by (simp_all add: proposed_def List.map_filter_def)

lemma sug_id_inj: "''sug-'' @ digits m = ''sug-'' @ digits n \<longleftrightarrow> m = n"
  by (simp add: digits_inj)

definition sug_name :: "nat \<Rightarrow> string" where
  "sug_name n = ''sug-'' @ digits n"

lemma inj_sug_name: "inj sug_name"
  by (rule injI) (simp add: sug_name_def digits_inj)

text \<open>Every proposal is pending or decided, and not both, when no two share their nanosecond.\<close>

lemma feedback_conserved:
  "distinct (proposed as) \<Longrightarrow>
   dom (fb_pending (feedback_run as)) \<union> fr_suggestion_id ` set (fb_history (feedback_run as)) =
     sug_name ` set (proposed as) \<and>
   dom (fb_pending (feedback_run as)) \<inter> fr_suggestion_id ` set (fb_history (feedback_run as)) = {} \<and>
   distinct (map fr_suggestion_id (fb_history (feedback_run as)))"
proof (induction as rule: rev_induct)
  case Nil
  then show ?case by (simp add: feedback_run_def new_feedback_def)
next
  case (snoc a as)
  let ?c = "feedback_run as"
  have c': "feedback_run (as @ [a]) = feedback_step a ?c" by (simp add: feedback_run_def)
  show ?case
  proof (cases a)
    case (Propose nano now t src sid ls cf)
    with snoc.prems have d: "distinct (proposed as)" and fresh: "nano \<notin> set (proposed as)" by auto
    from fresh have new: "sug_name nano \<notin> sug_name ` set (proposed as)"
      using inj_sug_name by (auto dest: injD)
    have "dom (fb_pending (feedback_step a ?c)) = insert (sug_name nano) (dom (fb_pending ?c))"
      "fb_history (feedback_step a ?c) = fb_history ?c"
      by (simp_all add: Propose propose_def Let_def sug_name_def)
    with snoc.IH [OF d] new show ?thesis unfolding c' by (auto simp: Propose)
  next
    case (Decide now sid d adj)
    with snoc.prems have "distinct (proposed as)" by simp
    note IH = snoc.IH [OF this]
    show ?thesis
    proof (cases "fb_pending ?c sid")
      case None
      then have "feedback_step a ?c = ?c" by (simp add: Decide decide_step del: feedback_step.simps)
      with IH show ?thesis unfolding c' by (simp add: Decide)
    next
      case (Some sug)
      then have in_dom: "sid \<in> dom (fb_pending ?c)" by blast
      have step: "dom (fb_pending (feedback_step a ?c)) = dom (fb_pending ?c) - {sid}"
        "fr_suggestion_id ` set (fb_history (feedback_step a ?c)) =
           insert sid (fr_suggestion_id ` set (fb_history ?c))"
        "map fr_suggestion_id (fb_history (feedback_step a ?c)) = map fr_suggestion_id (fb_history ?c) @ [sid]"
        using Some by (auto simp: Decide decide_step dom_minus simp del: feedback_step.simps)
      from IH in_dom show ?thesis unfolding c' step by (auto simp: Decide)
    qed
  qed
qed

lemma count_fold:
  "fs_total (foldl count_decision st h) = fs_total st + length h"
  "fs_accepted (foldl count_decision st h) = fs_accepted st + length (filter (\<lambda>r. fr_decision r = decision_accept) h)"
  "fs_rejected (foldl count_decision st h) = fs_rejected st + length (filter (\<lambda>r. fr_decision r = decision_reject) h)"
  "fs_adjusted (foldl count_decision st h) = fs_adjusted st + length (filter (\<lambda>r. fr_decision r = decision_adjust) h)"
  "fs_pending (foldl count_decision st h) = fs_pending st"
  by (induction h arbitrary: st) (auto simp: count_decision_def Let_def)

definition learned_name :: "suggestion \<Rightarrow> nat \<Rightarrow> string" where
  "learned_name sug i = ''feedback-'' @ sg_id sug @ ''-'' @ digits i"

lemma store_upsert_apply:
  "store_upsert now e s x = (if me_id e \<noteq> [] \<and> x = me_id e then Some (fill_entry now e) else s x)"
  by (simp add: store_upsert_def)

lemma learned_name_nonempty [simp]: "learned_name sug i \<noteq> []"
  by (simp add: learned_name_def)

lemma decision_entry_sel:
  "decision_entry fmt now sug rec i p = Some e \<Longrightarrow> me_id e = learned_name sug i \<and>
     me_type e = type_long_term \<and> me_domain e = domain_code \<and> me_session_id e = sg_session_id sug"
  by (auto simp: decision_entry_def learned_entry_def learned_name_def Let_def split: if_splits)

lemma learned_name_inj: "learned_name sug i = learned_name sug j \<longleftrightarrow> i = j"
  by (simp add: learned_name_def digits_inj)

lemma apply_from_other:
  "(\<forall>j<length ps. x \<noteq> learned_name sug (i + j)) \<Longrightarrow>
   apply_from fmt (store_upsert now) now sug rec i ps s x = s x"
proof (induction ps arbitrary: i s)
  case (Cons p ps)
  from Cons.prems have "x \<noteq> learned_name sug i" by (metis add_0_right length_greater_0_conv list.distinct(1))
  then have same: "(case decision_entry fmt now sug rec i p of None \<Rightarrow> s | Some e \<Rightarrow> store_upsert now e s) x = s x"
    by (auto simp: store_upsert_apply dest: decision_entry_sel split: option.splits)
  have "\<forall>j<length ps. x \<noteq> learned_name sug (Suc i + j)"
    using Cons.prems by (metis add_Suc_right add_Suc Suc_less_eq length_Cons)
  from Cons.IH [OF this] same show ?case by simp
qed simp

lemma apply_from_lookup:
  "j < length ps \<Longrightarrow> decision_entry fmt now sug rec (i + j) (ps ! j) = Some e \<Longrightarrow>
   apply_from fmt (store_upsert now) now sug rec i ps s (learned_name sug (i + j)) = Some (fill_entry now e)"
proof (induction ps arbitrary: i j s)
  case (Cons p ps)
  show ?case
  proof (cases j)
    case 0
    with Cons.prems have e: "decision_entry fmt now sug rec i p = Some e" by simp
    have "\<forall>j<length ps. learned_name sug i \<noteq> learned_name sug (Suc i + j)"
      by (simp add: learned_name_inj)
    from apply_from_other [OF this] e 0
    have "apply_from fmt (store_upsert now) now sug rec i (p # ps) s (learned_name sug (i + j)) =
        store_upsert now e s (learned_name sug i)" by simp
    also have "store_upsert now e s (learned_name sug i) = Some (fill_entry now e)"
      using decision_entry_sel [OF e] by (simp add: store_upsert_apply)
    finally show ?thesis .
  next
    case (Suc j')
    with Cons.prems Cons.IH [of j' "Suc i"] show ?thesis by simp
  qed
qed simp

section \<open>Properties\<close>

text \<open>
  As long as no two suggestions are named by the same nanosecond, no suggestion is lost or
  decided twice: after any sequence of proposals and decisions the pending and the decided suggestions
  together are exactly the proposed ones, none is both, and the history has each at most once.
\<close>

theorem feedback_conservation:
  assumes "distinct (proposed as)"
  shows "dom (fb_pending (feedback_run as)) \<union> fr_suggestion_id ` set (fb_history (feedback_run as)) =
      (\<lambda>n. ''sug-'' @ digits n) ` set (proposed as) \<and>
    dom (fb_pending (feedback_run as)) \<inter> fr_suggestion_id ` set (fb_history (feedback_run as)) = {} \<and>
    distinct (map fr_suggestion_id (fb_history (feedback_run as)))"
  using feedback_conserved [OF assms] by (simp add: sug_name_def [abs_def])

theorem feedback_conservation_witness:
  "distinct (map fr_suggestion_id (fb_history (feedback_run
     [Propose 5 1 ''t'' ''evolve'' ''s1'' [''p''] 1, Decide 2 ''sug-5'' ''accept'' [], Decide 3 ''sug-5'' ''reject'' []])))"
  using feedback_conservation [of "[Propose 5 1 ''t'' ''evolve'' ''s1'' [''p''] 1,
      Decide 2 ''sug-5'' ''accept'' [], Decide 3 ''sug-5'' ''reject'' []]"]
  by (simp add: proposed_def List.map_filter_def)

text \<open>
  A decision on a pending suggestion writes one memory per learning, under its own identifier, whose
  type, title and content the decision chooses; a decision other than accept, reject and adjust is
  recorded and uses the suggestion up, but writes nothing at all.
\<close>

theorem feedback_writes_back:
  assumes "fb_pending c sid = Some sug"
    and "decide_feedback fmt (Some (store_upsert now)) now sid d adj c s = (res, c', s')"
  shows "res = Inr \<lparr>fr_suggestion_id = sid, fr_decision = d, fr_adjusted_text = adj, fr_timestamp = now\<rparr> \<and>
    fb_pending c' sid = None \<and>
    (d \<in> {decision_accept, decision_reject, decision_adjust} \<longrightarrow>
      (\<forall>i<length (sg_learnings sug). \<exists>e. s' (''feedback-'' @ sg_id sug @ ''-'' @ digits i) = Some e \<and>
        me_type e = type_long_term \<and> me_session_id e = sg_session_id sug \<and>
        (d \<noteq> decision_adjust \<longrightarrow> me_title e = sg_learnings sug ! i) \<and>
        (d = decision_adjust \<longrightarrow> me_title e =
          (if trim_space adj = [] then sg_learnings sug ! i else trim_space adj)))) \<and>
    (d \<notin> {decision_accept, decision_reject, decision_adjust} \<longrightarrow> s' = s)"
proof -
  let ?rec = "\<lparr>fr_suggestion_id = sid, fr_decision = d, fr_adjusted_text = adj, fr_timestamp = now\<rparr>"
  have res: "res = Inr ?rec" "fb_pending c' sid = None"
    "s' = apply_from fmt (store_upsert now) now sug ?rec 0 (sg_learnings sug) s"
    using assms by (auto simp: decide_feedback_def apply_decision_def Let_def)
  have written: "\<exists>e. s' (learned_name sug i) = Some e \<and> me_type e = type_long_term \<and>
      me_session_id e = sg_session_id sug \<and> (d \<noteq> decision_adjust \<longrightarrow> me_title e = sg_learnings sug ! i) \<and>
      (d = decision_adjust \<longrightarrow> me_title e = (if trim_space adj = [] then sg_learnings sug ! i else trim_space adj))"
    if i: "i < length (sg_learnings sug)" and d: "d \<in> {decision_accept, decision_reject, decision_adjust}" for i
  proof -
    obtain e where e: "decision_entry fmt now sug ?rec i (sg_learnings sug ! i) = Some e"
      "d \<noteq> decision_adjust \<longrightarrow> me_title e = sg_learnings sug ! i"
      "d = decision_adjust \<longrightarrow> me_title e = (if trim_space adj = [] then sg_learnings sug ! i else trim_space adj)"
      using d by (auto simp: decision_entry_def Let_def)
    from apply_from_lookup [of i "sg_learnings sug" fmt now sug ?rec 0 e s] i e(1)
    have "s' (learned_name sug i) = Some (fill_entry now e)" by (simp add: res)
    with decision_entry_sel [OF e(1)] e(2,3) show ?thesis by auto
  qed
  have "s' = s" if "d \<notin> {decision_accept, decision_reject, decision_adjust}"
  proof -
    have none: "decision_entry fmt now sug ?rec i p = None" for i p
      using that by (auto simp: decision_entry_def)
    have "apply_from fmt (store_upsert now) now sug ?rec i ps s = s" for i ps
      by (induction ps arbitrary: i) (simp_all add: none)
    then show ?thesis by (simp add: res)
  qed
  with res written show ?thesis by (simp add: learned_name_def)
qed

theorem feedback_writes_back_witness:
  "\<exists>c' s' e. decide_feedback (\<lambda>_. ''0.90'') (Some (store_upsert 9)) 9 ''sug-5'' ''adjust'' '' use tabs '' 
       (snd (propose 5 1 ''t'' ''evolve'' ''s1'' [''use spaces''] 1 new_feedback)) new_mem_store
     = (Inr \<lparr>fr_suggestion_id = ''sug-5'', fr_decision = ''adjust'', fr_adjusted_text = '' use tabs '', fr_timestamp = 9\<rparr>, c', s') \<and>
     s' ''feedback-sug-5-0'' = Some e \<and> me_title e = ''use tabs''"
proof -
  let ?sug = "fst (propose 5 1 ''t'' ''evolve'' ''s1'' [''use spaces''] 1 new_feedback)"
  let ?c = "snd (propose 5 1 ''t'' ''evolve'' ''s1'' [''use spaces''] 1 new_feedback)"
  have p: "fb_pending ?c ''sug-5'' = Some ?sug" "sg_id ?sug = ''sug-5''" "sg_learnings ?sug = [''use spaces'']"
    by (simp_all add: propose_def Let_def digits.simps digit_lits)
  obtain res c' s' where d: "decide_feedback (\<lambda>_. ''0.90'') (Some (store_upsert 9)) 9 ''sug-5'' ''adjust'' '' use tabs '' 
      ?c new_mem_store = (res, c', s')" by (metis prod_cases3)
  have t: "trim_space '' use tabs '' = ''use tabs''" by code_simp
  from feedback_writes_back [OF p(1) d] obtain e where "s' ''feedback-sug-5-0'' = Some e" "me_title e = ''use tabs''"
    "res = Inr \<lparr>fr_suggestion_id = ''sug-5'', fr_decision = ''adjust'', fr_adjusted_text = '' use tabs '', fr_timestamp = 9\<rparr>"
    by (auto simp: p t digits.simps digit_lits)
  with d show ?thesis by (intro exI [of _ c'] exI [of _ s'] exI [of _ e] conjI) simp_all
qed

text \<open>
  The statistics count what there is: the total is the length of the history, pending the number of
  pending suggestions, and the three kinds of decisions add up to at most the total, with equality exactly
  if every recorded decision is one of them.
\<close>

theorem feedback_stats_correct:
  "fs_total (feedback_stats_of c) = length (fb_history c) \<and> fs_pending (feedback_stats_of c) = card (dom (fb_pending c)) \<and>
   fs_accepted (feedback_stats_of c) + fs_rejected (feedback_stats_of c) + fs_adjusted (feedback_stats_of c)
     = length (filter (\<lambda>r. fr_decision r \<in> {decision_accept, decision_reject, decision_adjust}) (fb_history c))"
proof -
  have "length (filter (\<lambda>r. fr_decision r = decision_accept) h) + length (filter (\<lambda>r. fr_decision r = decision_reject) h) +
      length (filter (\<lambda>r. fr_decision r = decision_adjust) h) =
      length (filter (\<lambda>r. fr_decision r \<in> {decision_accept, decision_reject, decision_adjust}) h)" for h
    by (induction h) auto
  then show ?thesis by (simp add: feedback_stats_of_def count_fold)
qed

end
