(* ===== verification/RuntimeRegistry.thy ===== *)
theory RuntimeRegistry
  imports Protocol
begin

text \<open>
  Runtime sessions and their registry (\<open>kernel/registry.go\<close>): the buffer of pending events a client can
  have replayed, the deduplication of client actions, the listeners, and the release of sessions nobody
  listens to. A session is a mutable object, so the registry maps identifiers to addresses of objects;
  release timers and their callbacks are modelled as in \<open>LockMgr\<close>.
\<close>

section \<open>Sessions\<close>

definition pending_limit :: nat where
  "pending_limit = 512"

record runtime_session =
  rs_listeners :: "string set"
  rs_release_timer :: "nat option"
  rs_pending_cursor :: int
  rs_pending_events :: "payload list"
  rs_last_output_at :: time
  rs_client_actions :: "string \<rightharpoonup> time"
  rs_persisted_cursor :: int
  rs_sink_open :: bool
  rs_sink_fn :: bool
  rs_sink_closed :: bool

definition new_runtime_session :: runtime_session where
  "new_runtime_session = \<lparr>rs_listeners = {}, rs_release_timer = None, rs_pending_cursor = 0,
     rs_pending_events = [], rs_last_output_at = 0, rs_client_actions = Map.empty, rs_persisted_cursor = 0,
     rs_sink_open = False, rs_sink_fn = False, rs_sink_closed = False\<rparr>"

definition set_listener :: "string \<Rightarrow> bool \<Rightarrow> runtime_session \<Rightarrow> runtime_session" where
  "set_listener lid given s =
     (if trim_space lid = [] \<or> \<not> given then s else s\<lparr>rs_listeners := insert lid (rs_listeners s)\<rparr>)"

definition remove_listener :: "string \<Rightarrow> runtime_session \<Rightarrow> runtime_session" where
  "remove_listener lid s =
     (if trim_space lid = [] then s else s\<lparr>rs_listeners := rs_listeners s - {lid}\<rparr>)"

definition listener_count :: "runtime_session \<Rightarrow> nat" where
  "listener_count s = card (rs_listeners s)"

section \<open>Pending events\<close>

text \<open>\<open>AppendPending\<close>; a nil event is \<^const>\<open>None\<close>.\<close>

definition append_pending :: "time \<Rightarrow> payload option \<Rightarrow> runtime_session \<Rightarrow> payload option \<times> runtime_session" where
  "append_pending now event s = (case event of
     None \<Rightarrow> (None, s)
   | Some ev \<Rightarrow>
       let cursor = wrap64 (rs_pending_cursor s + 1);
           ev = apply_event_cursor ev cursor;
           events = rs_pending_events s @ [ev];
           events = (if pending_limit < length events then last_n pending_limit events else events)
       in (Some ev, s\<lparr>rs_pending_cursor := cursor, rs_last_output_at := now, rs_pending_events := events\<rparr>))"

definition mark_persisted :: "int \<Rightarrow> runtime_session \<Rightarrow> runtime_session" where
  "mark_persisted cursor s = (if cursor \<le> 0 then s else s\<lparr>rs_persisted_cursor := cursor\<rparr>)"

definition pending_since :: "int \<Rightarrow> runtime_session \<Rightarrow> payload list" where
  "pending_since cursor s = filter (\<lambda>ev. \<not> event_cursor_from_event ev \<le> cursor) (rs_pending_events s)"

fun as_prompt :: "payload \<Rightarrow> prompt_request_event option" where
  "as_prompt (EvPrompt e) = Some e"
| "as_prompt _ = None"

fun find_map :: "('a \<Rightarrow> 'b option) \<Rightarrow> 'a list \<Rightarrow> 'b option" where
  "find_map f [] = None"
| "find_map f (x # xs) = (case f x of Some y \<Rightarrow> Some y | None \<Rightarrow> find_map f xs)"

definition permission_prompt_for :: "string \<Rightarrow> payload \<Rightarrow> prompt_request_event option" where
  "permission_prompt_for rid ev = (case as_prompt ev of
     None \<Rightarrow> None
   | Some e \<Rightarrow>
       if trim_space (m_blocking_kind (ev_meta e)) \<noteq> ''permission'' \<or>
          trim_space (m_permission_request_id (ev_meta e)) \<noteq> rid then None
       else Some e)"

definition latest_pending_permission_prompt :: "string \<Rightarrow> runtime_session \<Rightarrow> prompt_request_event option" where
  "latest_pending_permission_prompt rid s =
     (let rid = trim_space rid in
      if rid = [] then None else find_map (permission_prompt_for rid) (rev (rs_pending_events s)))"

definition latest_pending_prompt :: "runtime_session \<Rightarrow> prompt_request_event option" where
  "latest_pending_prompt s = find_map as_prompt (rev (rs_pending_events s))"

section \<open>Client actions\<close>

text \<open>The loop that deletes actions, in the order of the iteration, until few enough are left.\<close>

fun evict_until :: "nat \<Rightarrow> string list \<Rightarrow> (string \<rightharpoonup> time) \<Rightarrow> string \<rightharpoonup> time" where
  "evict_until target [] m = m"
| "evict_until target (i # ids) m =
     (let m' = m(i := None) in if card (dom m') \<le> target then m' else evict_until target ids m')"

definition drop_old :: "time \<Rightarrow> (string \<rightharpoonup> time) \<Rightarrow> string \<rightharpoonup> time" where
  "drop_old cutoff m i = (case m i of
     None \<Rightarrow> None | Some seen \<Rightarrow> if seen < cutoff then None else Some seen)"

definition mark_client_action ::
  "time \<Rightarrow> string list \<Rightarrow> string \<Rightarrow> runtime_session \<Rightarrow> bool \<times> runtime_session" where
  "mark_client_action now order action s =
     (let action = trim_space action in
      if action = [] then (True, s)
      else if rs_client_actions s action \<noteq> None then (False, s)
      else let m = (rs_client_actions s)(action \<mapsto> now);
               m = (if pending_limit * 4 < card (dom m) then drop_old (now - 2 * hour) m else m);
               m = (if pending_limit * 4 < card (dom m) then evict_until (pending_limit * 2) order m else m)
           in (True, s\<lparr>rs_client_actions := m\<rparr>))"

section \<open>The buffered sink\<close>

definition ensure_buffered_sink :: "bool \<Rightarrow> runtime_session \<Rightarrow> runtime_session" where
  "ensure_buffered_sink processor_given s =
     (if rs_sink_closed s then s
      else s\<lparr>rs_sink_fn := (processor_given \<or> rs_sink_fn s), rs_sink_open := True\<rparr>)"

definition shutdown_sink :: "runtime_session \<Rightarrow> runtime_session" where
  "shutdown_sink s =
     (if rs_sink_closed s then s else s\<lparr>rs_sink_closed := True, rs_sink_fn := False, rs_sink_open := False\<rparr>)"

datatype sink_route = Ignored | Processed | Queued

text \<open>What the function \<open>EnsureBufferedSinkWithProcessor\<close> returns does with an event.\<close>

definition sink_route :: "payload option \<Rightarrow> runtime_session \<Rightarrow> sink_route" where
  "sink_route event s =
     (if event = None then Ignored
      else if listener_count s = 0 \<and> rs_sink_closed s then Ignored
      else if listener_count s = 0 \<and> rs_sink_fn s then Processed
      else if rs_sink_closed s \<or> \<not> rs_sink_open s then Ignored
      else Queued)"

datatype sink_end = Discarded | ToProcessor | ToListeners

text \<open>\<open>emitBufferedEvent\<close>: what the goroutine of the sink does with an event it takes from the channel.\<close>

definition emit_buffered_event :: "runtime_session \<Rightarrow> sink_end" where
  "emit_buffered_event s =
     (if rs_sink_closed s then Discarded else if rs_sink_fn s then ToProcessor else ToListeners)"

section \<open>The registry\<close>

record registry =
  rg_sessions :: "string \<rightharpoonup> nat"
  rg_objs :: "nat \<rightharpoonup> runtime_session"
  rg_next :: nat
  rg_release_after :: duration
  rg_timers :: "nat \<rightharpoonup> string \<times> nat \<times> time"
  rg_next_timer :: nat
  rg_fired :: "(string \<times> nat) list"
  rg_cleaned :: "(string \<times> nat) list"

definition new_registry :: "duration \<Rightarrow> registry" where
  "new_registry after = \<lparr>rg_sessions = Map.empty, rg_objs = Map.empty, rg_next = 0,
     rg_release_after = (if after \<le> 0 then 15 * minute else after), rg_timers = Map.empty, rg_next_timer = 0,
     rg_fired = [], rg_cleaned = []\<rparr>"

definition session_at :: "registry \<Rightarrow> nat \<Rightarrow> runtime_session" where
  "session_at r p = (case rg_objs r p of Some s \<Rightarrow> s | None \<Rightarrow> new_runtime_session)"

definition upd_session :: "nat \<Rightarrow> (runtime_session \<Rightarrow> runtime_session) \<Rightarrow> registry \<Rightarrow> registry" where
  "upd_session p f r = r\<lparr>rg_objs := (rg_objs r)(p \<mapsto> f (session_at r p))\<rparr>"

definition ensure_locked :: "string \<Rightarrow> registry \<Rightarrow> nat \<times> registry" where
  "ensure_locked sid r = (case rg_sessions r sid of
     Some p \<Rightarrow> (p, r)
   | None \<Rightarrow> (rg_next r, r\<lparr>rg_objs := (rg_objs r)(rg_next r \<mapsto> new_runtime_session),
       rg_sessions := (rg_sessions r)(sid \<mapsto> rg_next r), rg_next := Suc (rg_next r)\<rparr>))"

definition registry_ensure :: "string \<Rightarrow> registry \<Rightarrow> nat option \<times> registry" where
  "registry_ensure sid r =
     (let sid = trim_space sid in
      if sid = [] then (None, r) else case ensure_locked sid r of (p, r') \<Rightarrow> (Some p, r'))"

definition registry_get :: "string \<Rightarrow> registry \<Rightarrow> nat option" where
  "registry_get sid r = (let sid = trim_space sid in if sid = [] then None else rg_sessions r sid)"

definition has_active_connection :: "string \<Rightarrow> registry \<Rightarrow> bool" where
  "has_active_connection sid r =
     (case registry_get sid r of None \<Rightarrow> False | Some p \<Rightarrow> 0 < listener_count (session_at r p))"

definition stop_release_timer :: "nat \<Rightarrow> registry \<Rightarrow> registry" where
  "stop_release_timer p r = (case rs_release_timer (session_at r p) of
     None \<Rightarrow> r
   | Some i \<Rightarrow> r\<lparr>rg_timers := (rg_timers r)(i := None)\<rparr>)"

definition registry_attach :: "string \<Rightarrow> string \<Rightarrow> bool \<Rightarrow> registry \<Rightarrow> nat option \<times> registry" where
  "registry_attach sid lid given r =
     (let sid = trim_space sid in
      if sid = [] then (None, r)
      else case ensure_locked sid r of (p, r1) \<Rightarrow>
        let r2 = upd_session p (\<lambda>s. ensure_buffered_sink False (set_listener lid given s)) r1;
            r3 = stop_release_timer p r2
        in (Some p, upd_session p (\<lambda>s. s\<lparr>rs_release_timer := None\<rparr>) r3))"

text \<open>Removing a session and what follows outside the mutex: \<open>Service.Cleanup\<close> and \<open>onCleanup\<close>.\<close>

definition forget_session :: "string \<Rightarrow> nat \<Rightarrow> registry \<Rightarrow> registry" where
  "forget_session sid p r = upd_session p (\<lambda>s. s\<lparr>rs_release_timer := None\<rparr>)
     (r\<lparr>rg_sessions := (rg_sessions r)(sid := None), rg_cleaned := rg_cleaned r @ [(sid, p)]\<rparr>)"

definition registry_release :: "time \<Rightarrow> string \<Rightarrow> string \<Rightarrow> bool \<Rightarrow> registry \<Rightarrow> registry" where
  "registry_release now sid lid cleanup r =
     (let sid = trim_space sid in
      if sid = [] then r
      else case rg_sessions r sid of
          None \<Rightarrow> r
        | Some p \<Rightarrow>
            let r1 = upd_session p (remove_listener lid) r in
            if 0 < listener_count (session_at r1 p) then r1
            else if cleanup then forget_session sid p (stop_release_timer p r1)
            else let r2 = stop_release_timer p r1; i = rg_next_timer r2 in
              upd_session p (\<lambda>s. s\<lparr>rs_release_timer := Some i\<rparr>)
                (r2\<lparr>rg_timers := (rg_timers r2)(i \<mapsto> (sid, p, now + rg_release_after r2)),
                     rg_next_timer := Suc i\<rparr>))"

definition registry_fire :: "time \<Rightarrow> nat \<Rightarrow> registry \<Rightarrow> registry option" where
  "registry_fire now i r = (case rg_timers r i of
     None \<Rightarrow> None
   | Some (sid, p, due) \<Rightarrow>
       if due \<le> now
       then Some (r\<lparr>rg_timers := (rg_timers r)(i := None), rg_fired := rg_fired r @ [(sid, p)]\<rparr>)
       else None)"

text \<open>\<open>cleanupIfOrphaned\<close>, the callback of a release timer.\<close>

definition cleanup_if_orphaned :: "string \<Rightarrow> nat \<Rightarrow> registry \<Rightarrow> registry" where
  "cleanup_if_orphaned sid target r =
     (if rg_sessions r sid \<noteq> Some target then r
      else if 0 < listener_count (session_at r target)
      then upd_session target (\<lambda>s. s\<lparr>rs_release_timer := None\<rparr>) r
      else upd_session target shutdown_sink (forget_session sid target r))"

definition registry_callback :: "nat \<Rightarrow> registry \<Rightarrow> registry option" where
  "registry_callback i r =
     (if i < length (rg_fired r)
      then case rg_fired r ! i of (sid, p) \<Rightarrow>
        Some (cleanup_if_orphaned sid p (r\<lparr>rg_fired := remove_nth i (rg_fired r)\<rparr>))
      else None)"

fun cleanup_loop :: "string list \<Rightarrow> registry \<Rightarrow> registry" where
  "cleanup_loop [] r = r"
| "cleanup_loop (sid # sids) r = (case rg_sessions r sid of
     None \<Rightarrow> cleanup_loop sids r
   | Some p \<Rightarrow> cleanup_loop sids (upd_session p shutdown_sink (forget_session sid p (stop_release_timer p r))))"

text \<open>\<open>CleanupAll\<close>, in an iteration order of the sessions.\<close>

definition cleanup_all :: "string list \<Rightarrow> registry \<Rightarrow> registry" where
  "cleanup_all order r = cleanup_loop order r"

text \<open>
  \<open>FindByResumeSessionID\<close>: \<open>snapshot p\<close> is the runtime snapshot of the service of a session, whether it
  runs and its two resume identifiers.
\<close>

definition find_by_resume ::
  "(nat \<Rightarrow> bool \<times> string \<times> string) \<Rightarrow> string list \<Rightarrow> string \<Rightarrow> registry \<Rightarrow> (string \<times> nat) option" where
  "find_by_resume snapshot order rid r =
     (let rid = trim_space rid in
      if rid = [] then None
      else find_map (\<lambda>sid. case rg_sessions r sid of
          None \<Rightarrow> None
        | Some p \<Rightarrow> (case snapshot p of (running, resume, active_resume) \<Rightarrow>
            if running \<and> (trim_space resume = rid \<or> trim_space active_resume = rid) then Some (sid, p) else None))
        order)"

section \<open>Replay of pending events\<close>

text \<open>A run of \<open>AppendPending\<close> calls, each with its time, and the events as they are stored.\<close>

definition append_all :: "(time \<times> payload) list \<Rightarrow> runtime_session \<Rightarrow> runtime_session" where
  "append_all = fold (\<lambda>(now, ev) s. snd (append_pending now (Some ev) s))"

definition stamped :: "(time \<times> payload) list \<Rightarrow> payload list" where
  "stamped evs = map (\<lambda>i. apply_event_cursor (snd (evs ! i)) (int i + 1)) [0..<length evs]"

lemma length_stamped [simp]: "length (stamped evs) = length evs"
  by (simp add: stamped_def)

lemma stamped_nth: "i < length evs \<Longrightarrow> stamped evs ! i = apply_event_cursor (snd (evs ! i)) (int i + 1)"
  by (simp add: stamped_def)

lemma stamped_snoc:
  "stamped (evs @ [(now, ev)]) = stamped evs @ [apply_event_cursor ev (int (length evs) + 1)]"
  by (simp add: stamped_def nth_append)

lemma append_all_snoc:
  "append_all (evs @ [(now, ev)]) s = snd (append_pending now (Some ev) (append_all evs s))"
  by (simp add: append_all_def)

lemma last_n_keep:
  "(if n < length (last_n n xs @ [y]) then last_n n (last_n n xs @ [y]) else last_n n xs @ [y]) =
   last_n n (xs @ [y])"
proof (cases "n \<le> length xs")
  case True
  then show ?thesis
    by (cases n) (auto simp: last_n_def Suc_diff_Suc less_eq_Suc_le)
next
  case False
  then show ?thesis
    by (simp add: last_n_def)
qed

lemma append_all_state:
  assumes "int (length evs) \<le> max_int64"
  shows "rs_pending_cursor (append_all evs new_runtime_session) = int (length evs) \<and>
    rs_pending_events (append_all evs new_runtime_session) = last_n pending_limit (stamped evs)"
  using assms
proof (induction evs rule: rev_induct)
  case Nil
  show ?case
    by (simp add: append_all_def new_runtime_session_def stamped_def last_n_def)
next
  case (snoc te evs)
  obtain now ev where te: "te = (now, ev)"
    by (cases te)
  have n: "int (length evs) < max_int64"
    using snoc.prems by simp
  have w: "wrap64 (int (length evs) + 1) = int (length evs) + 1"
    using n by (intro wrap64_Suc) auto
  have ih: "rs_pending_cursor (append_all evs new_runtime_session) = int (length evs)"
      "rs_pending_events (append_all evs new_runtime_session) = last_n pending_limit (stamped evs)"
    using snoc.IH n by auto
  show ?case
    unfolding te append_all_snoc
    by (simp only: append_pending_def Let_def ih w stamped_snoc option.case last_n_keep) simp
qed

lemma stamped_cursor:
  assumes "i < length evs" and "cursor_readable (snd (evs ! i))"
  shows "event_cursor_from_event (stamped evs ! i) = int i + 1"
  using assms by (simp add: stamped_nth cursor_of_stamp)

lemma filter_stamped:
  assumes "\<forall>e\<in>set evs. cursor_readable (snd e)" and "k \<le> length evs"
  shows "filter (\<lambda>ev. \<not> event_cursor_from_event ev \<le> c) (drop k (stamped evs)) =
    drop (max k (nat c)) (stamped evs)"
  using assms(2)
proof (induction "length evs - k" arbitrary: k)
  case 0
  then show ?case by simp
next
  case (Suc d)
  then have k: "k < length evs"
    by simp
  have cur: "event_cursor_from_event (stamped evs ! k) = int k + 1"
    using assms(1) k by (intro stamped_cursor) auto
  have drop: "drop k (stamped evs) = stamped evs ! k # drop (Suc k) (stamped evs)"
    using k by (simp add: Cons_nth_drop_Suc)
  have ih: "filter (\<lambda>ev. \<not> event_cursor_from_event ev \<le> c) (drop (Suc k) (stamped evs)) =
      drop (max (Suc k) (nat c)) (stamped evs)"
    using Suc by simp
  show ?case
  proof (cases "int k + 1 \<le> c")
    case True
    then have "max k (nat c) = max (Suc k) (nat c)"
      by auto
    then show ?thesis
      using ih True by (simp add: drop cur)
  next
    case False
    then have "max k (nat c) = k" "max (Suc k) (nat c) = Suc k"
      by auto
    then show ?thesis
      using ih False by (simp add: drop cur)
  qed
qed

text \<open>
  C24: Replay is complete and in order. After \<open>AppendPending\<close> stored some events, each is kept with its
  1-based position as its cursor. When every event is of a kind whose cursor can be read back,
  \<open>PendingSince c\<close> returns exactly the stored events after position c, in the order they were appended,
  except those older than the newest 512; so a client that lags by at most 512 events misses none. When
  some are not of such a kind, the events returned for c at least 0 are the readable ones only.
\<close>

theorem pending_since_replay:
  assumes "int (length evs) \<le> max_int64" and "s = append_all evs new_runtime_session"
  shows "rs_pending_cursor s = int (length evs) \<and>
    pending_since c s = filter (\<lambda>ev. c < event_cursor_from_event ev) (last_n 512 (stamped evs)) \<and>
    ((\<forall>e\<in>set evs. cursor_readable (snd e)) \<longrightarrow>
       pending_since c s = drop (max (length evs - 512) (nat c)) (stamped evs)) \<and>
    (0 \<le> c \<longrightarrow> (\<forall>ev\<in>set (pending_since c s). cursor_readable ev))"
proof -
  have st: "rs_pending_cursor s = int (length evs)"
      "rs_pending_events s = drop (length evs - 512) (stamped evs)"
    using append_all_state [OF assms(1)] by (simp_all add: assms(2) last_n_def pending_limit_def)
  have readable: "cursor_readable ev"
    if "0 \<le> c" and "ev \<in> set (stamped evs)" and "c < event_cursor_from_event ev" for ev
  proof -
    from that(2) obtain i where i: "i < length evs" "ev = apply_event_cursor (snd (evs ! i)) (int i + 1)"
      by (auto simp: stamped_def)
    show ?thesis
      using that(1,3) cursor_of_stamp [of "int i + 1" "snd (evs ! i)"]
      by (auto simp: i(2) split: if_splits)
  qed
  have "\<forall>ev\<in>set (pending_since c s). cursor_readable ev" if "0 \<le> c"
    using readable [OF that] in_set_dropD [of _ "length evs - 512" "stamped evs"]
    by (auto simp: pending_since_def st)
  then show ?thesis
    using filter_stamped [of evs "length evs - 512" c]
    by (simp add: pending_since_def st last_n_def not_le)
qed

theorem pending_since_replay_witness:
  "pending_since 1 (append_all [(5, EvEvent (new_base_event 5 ''a'' ''s'')), (6, EvEvent (new_base_event 6 ''b'' ''s'')),
      (7, EvResult SessionDelta (new_base_event 7 ''d'' ''s''))] new_runtime_session) =
    [EvEvent ((new_base_event 6 ''b'' ''s'')\<lparr>ev_cursor := 2\<rparr>)]"
  using conjunct1 [OF conjunct2 [OF pending_since_replay
      [of "[(5, EvEvent (new_base_event 5 ''a'' ''s'')), (6, EvEvent (new_base_event 6 ''b'' ''s'')),
        (7, EvResult SessionDelta (new_base_event 7 ''d'' ''s''))]" _ 1, OF _ refl]]]
  by (simp add: max_int64_def stamped_def last_n_def apply_event_cursor_def new_base_event_def upt_rec)

text \<open>
  The prompts: the newest stored one, and the newest one of a permission request.
\<close>

lemma find_map_None: "find_map f xs = None \<longleftrightarrow> (\<forall>x\<in>set xs. f x = None)"
  by (induction xs) (auto split: option.splits)

lemma find_map_SomeD:
  "find_map f xs = Some y \<Longrightarrow> \<exists>us x vs. xs = us @ x # vs \<and> f x = Some y \<and> (\<forall>u\<in>set us. f u = None)"
proof (induction xs)
  case (Cons x xs)
  show ?case
  proof (cases "f x")
    case None
    then obtain us z vs where "xs = us @ z # vs" "f z = Some y" "\<forall>u\<in>set us. f u = None"
      using Cons by auto
    then have "x # xs = (x # us) @ z # vs \<and> f z = Some y \<and> (\<forall>u\<in>set (x # us). f u = None)"
      using None by simp
    then show ?thesis
      by blast
  next
    case (Some z)
    then show ?thesis
      using Cons.prems by (intro exI [of _ "[]"] exI [of _ x] exI [of _ xs]) simp
  qed
qed simp

lemma find_map_rev_SomeD:
  assumes "find_map f (rev xs) = Some y"
  shows "\<exists>us x vs. xs = us @ x # vs \<and> f x = Some y \<and> (\<forall>v\<in>set vs. f v = None)"
proof -
  obtain us x vs where "rev xs = us @ x # vs" "f x = Some y" "\<forall>u\<in>set us. f u = None"
    using find_map_SomeD [OF assms] by blast
  then have "xs = rev vs @ x # rev us" "f x = Some y" "\<forall>v\<in>set (rev us). f v = None"
    by (simp_all add: rev_swap)
  then show ?thesis
    by blast
qed

lemma permission_prompt_for_SomeD:
  assumes "permission_prompt_for rid x = Some e"
  shows "x = EvPrompt e \<and> trim_space (m_blocking_kind (ev_meta e)) = ''permission'' \<and>
    trim_space (m_permission_request_id (ev_meta e)) = rid"
proof -
  have "as_prompt x = Some e \<and> trim_space (m_blocking_kind (ev_meta e)) = ''permission'' \<and>
      trim_space (m_permission_request_id (ev_meta e)) = rid"
    using assms unfolding permission_prompt_for_def
    by (simp split: option.splits if_splits)
  then show ?thesis
    by (cases x) simp_all
qed

text \<open>
  \<open>LatestPendingPermissionPrompt\<close> returns the newest stored prompt that blocks on a permission and
  has the (trimmed) request identifier asked for; it returns nothing exactly when the identifier is
  blank or no stored prompt is such a one.
\<close>

theorem latest_permission_prompt_correct:
  "(latest_pending_permission_prompt rid s = None \<longleftrightarrow>
      trim_space rid = [] \<or>
      (\<forall>ev\<in>set (rs_pending_events s). permission_prompt_for (trim_space rid) ev = None)) \<and>
   (\<forall>e. latest_pending_permission_prompt rid s = Some e \<longrightarrow>
      trim_space (m_blocking_kind (ev_meta e)) = ''permission'' \<and>
      trim_space (m_permission_request_id (ev_meta e)) = trim_space rid \<and>
      (\<exists>us vs. rs_pending_events s = us @ EvPrompt e # vs \<and>
        (\<forall>v\<in>set vs. permission_prompt_for (trim_space rid) v = None)))"
proof (intro conjI allI impI)
  show "latest_pending_permission_prompt rid s = None \<longleftrightarrow>
      trim_space rid = [] \<or>
      (\<forall>ev\<in>set (rs_pending_events s). permission_prompt_for (trim_space rid) ev = None)"
    by (simp add: latest_pending_permission_prompt_def Let_def find_map_None)
next
  fix e
  assume e: "latest_pending_permission_prompt rid s = Some e"
  then have "find_map (permission_prompt_for (trim_space rid)) (rev (rs_pending_events s)) = Some e"
    by (auto simp: latest_pending_permission_prompt_def Let_def split: if_splits)
  from find_map_rev_SomeD [OF this] obtain us x vs where x: "rs_pending_events s = us @ x # vs"
      "permission_prompt_for (trim_space rid) x = Some e"
      "\<forall>v\<in>set vs. permission_prompt_for (trim_space rid) v = None"
    by (elim exE conjE)
  note d = permission_prompt_for_SomeD [OF x(2)]
  show "trim_space (m_blocking_kind (ev_meta e)) = ''permission''"
      "trim_space (m_permission_request_id (ev_meta e)) = trim_space rid"
      "\<exists>us vs. rs_pending_events s = us @ EvPrompt e # vs \<and>
        (\<forall>v\<in>set vs. permission_prompt_for (trim_space rid) v = None)"
    using d x(1,3) by (simp, simp, intro exI conjI, simp_all)
qed

theorem latest_permission_prompt_correct_witness:
  "latest_pending_permission_prompt '' r '' (new_runtime_session\<lparr>rs_pending_events :=
      [EvPrompt ((new_prompt_request_event 1 ''s'' ''ok?'' [])
        \<lparr>ev_meta := empty_meta\<lparr>m_blocking_kind := ''permission'', m_permission_request_id := ''r''\<rparr>\<rparr>)]\<rparr>) \<noteq> None"
proof -
  have t: "trim_space '' r '' = ''r''" "trim_space ''r'' = ''r''" "trim_space ''permission'' = ''permission''"
    by code_simp+
  show ?thesis
    using latest_permission_prompt_correct [THEN conjunct1, of "'' r ''" "new_runtime_session\<lparr>rs_pending_events :=
      [EvPrompt ((new_prompt_request_event 1 ''s'' ''ok?'' [])
        \<lparr>ev_meta := empty_meta\<lparr>m_blocking_kind := ''permission'', m_permission_request_id := ''r''\<rparr>\<rparr>)]\<rparr>"]
    by (simp add: permission_prompt_for_def t)
qed

section \<open>Deduplication of client actions\<close>

lemma drop_old_dom: "dom (drop_old cutoff m) \<subseteq> dom m"
  by (auto simp: drop_old_def split: option.splits if_splits)

lemma drop_old_recent: "\<forall>x\<in>ran m. \<not> x < cutoff \<Longrightarrow> drop_old cutoff m = m"
  by (rule ext) (auto simp: drop_old_def ran_def split: option.splits)

lemma evict_until_dom: "dom (evict_until target ids m) \<subseteq> dom m"
proof (induction ids arbitrary: m)
  case (Cons i ids)
  have "dom (m(i := None)) \<subseteq> dom m"
    by auto
  then have "dom (evict_until target ids (m(i := None))) \<subseteq> dom m"
    by (rule subset_trans [OF Cons.IH])
  then show ?case
    by (simp add: Let_def)
qed simp

lemma evict_until_card:
  assumes "finite (dom m)" and "dom m \<subseteq> set ids"
  shows "card (dom (evict_until target ids m)) \<le> target"
  using assms
proof (induction ids arbitrary: m)
  case (Cons i ids)
  then have "finite (dom (m(i := None)))" and "dom (m(i := None)) \<subseteq> set ids"
    by (auto simp: dom_minus)
  then have "card (dom (evict_until target ids (m(i := None)))) \<le> target"
    by (rule Cons.IH)
  then show ?case
    by (simp add: Let_def)
qed simp

lemma evict_until_first: "i \<notin> dom (evict_until target (i # ids) m)"
  using evict_until_dom [of target ids "m(i := None)"] by (auto simp: Let_def)

text \<open>What \<open>MarkClientAction\<close> remembers once it has added the action.\<close>

definition trim_actions :: "time \<Rightarrow> string list \<Rightarrow> (string \<rightharpoonup> time) \<Rightarrow> string \<rightharpoonup> time" where
  "trim_actions now order m =
     (let m = (if pending_limit * 4 < card (dom m) then drop_old (now - 2 * hour) m else m)
      in if pending_limit * 4 < card (dom m) then evict_until (pending_limit * 2) order m else m)"

lemma mark_client_action_eq:
  "mark_client_action now order a s =
     (if trim_space a = [] then (True, s)
      else if rs_client_actions s (trim_space a) \<noteq> None then (False, s)
      else (True, s\<lparr>rs_client_actions := trim_actions now order ((rs_client_actions s)(trim_space a \<mapsto> now))\<rparr>))"
  by (simp add: mark_client_action_def trim_actions_def Let_def)

lemma trim_actions_dom: "dom (trim_actions now order m) \<subseteq> dom m"
  using drop_old_dom [of "now - 2 * hour" m] evict_until_dom [of "pending_limit * 2" order m]
    evict_until_dom [of "pending_limit * 2" order "drop_old (now - 2 * hour) m"]
  by (auto simp: trim_actions_def Let_def split: if_splits dest!: subsetD)

lemma trim_actions_card:
  assumes "finite (dom m)" and "dom m \<subseteq> set order"
  shows "card (dom (trim_actions now order m)) \<le> pending_limit * 4"
proof -
  define m1 where "m1 = (if pending_limit * 4 < card (dom m) then drop_old (now - 2 * hour) m else m)"
  have sub: "dom m1 \<subseteq> dom m"
    using drop_old_dom by (auto simp: m1_def)
  have "finite (dom m1)" "dom m1 \<subseteq> set order"
    using finite_subset [OF sub assms(1)] subset_trans [OF sub assms(2)] by simp_all
  then have "card (dom (evict_until (pending_limit * 2) order m1)) \<le> pending_limit * 2"
    by (rule evict_until_card)
  moreover have "trim_actions now order m =
      (if pending_limit * 4 < card (dom m1) then evict_until (pending_limit * 2) order m1 else m1)"
    unfolding trim_actions_def m1_def Let_def by (rule refl)
  ultimately show ?thesis
    by (simp add: not_less)
qed

text \<open>
  \<open>MarkClientAction\<close> accepts an action exactly when its trimmed identifier is blank or not
  remembered, and otherwise leaves the session as it is. At most 2048 actions are remembered, whatever
  order Go iterates the map in (\<open>order\<close>, which lists the remembered actions and the new one). As long
  as fewer than 2048 were remembered none is forgotten, and marking the same non-blank action again,
  at any time, is refused.
\<close>

theorem client_action_dedup:
  assumes "finite (dom (rs_client_actions s))" and "card (dom (rs_client_actions s)) \<le> 2048"
    and "insert (trim_space a) (dom (rs_client_actions s)) \<subseteq> set order"
    and "mark_client_action now order a s = (ok, s')"
  shows "ok = (trim_space a = [] \<or> rs_client_actions s (trim_space a) = None) \<and>
    (\<not> ok \<longrightarrow> s' = s) \<and>
    finite (dom (rs_client_actions s')) \<and> card (dom (rs_client_actions s')) \<le> 2048 \<and>
    (card (dom (rs_client_actions s)) < 2048 \<longrightarrow>
      dom (rs_client_actions s) \<subseteq> dom (rs_client_actions s') \<and>
      (trim_space a \<noteq> [] \<longrightarrow> mark_client_action later order' a s' = (False, s')))"
proof (cases "trim_space a = [] \<or> rs_client_actions s (trim_space a) \<noteq> None")
  case True
  then show ?thesis
    using assms by (auto simp: mark_client_action_eq split: if_splits)
next
  case False
  define m where "m = (rs_client_actions s)(trim_space a \<mapsto> now)"
  have s': "ok" "s' = s\<lparr>rs_client_actions := trim_actions now order m\<rparr>"
    using assms(4) False by (auto simp: mark_client_action_eq m_def)
  have m: "finite (dom m)" "dom m \<subseteq> set order" "card (dom m) = Suc (card (dom (rs_client_actions s)))"
    using assms(1,3) False by (auto simp: m_def card_insert_if)
  have fin: "finite (dom (trim_actions now order m))"
    by (rule finite_subset [OF trim_actions_dom m(1)])
  have card: "card (dom (trim_actions now order m)) \<le> 2048"
    using trim_actions_card [OF m(1,2), of now] by (simp add: pending_limit_def)
  have small: "trim_actions now order m = m" if "card (dom (rs_client_actions s)) < 2048"
    using that m(3) by (simp add: trim_actions_def pending_limit_def)
  show ?thesis
    using False fin card small by (auto simp: s' mark_client_action_eq m_def)
qed

theorem client_action_dedup_witness:
  "fst (mark_client_action 5 [''a''] ''a'' new_runtime_session) \<and>
   \<not> fst (mark_client_action 6 [] ''a'' (snd (mark_client_action 5 [''a''] ''a'' new_runtime_session)))"
proof -
  have t: "trim_space ''a'' = ''a''" by code_simp
  let ?r = "mark_client_action 5 [''a''] ''a'' new_runtime_session"
  have "fst ?r = (trim_space ''a'' = [] \<or> rs_client_actions new_runtime_session (trim_space ''a'') = None) \<and>
    mark_client_action 6 [] ''a'' (snd ?r) = (False, snd ?r)"
    using client_action_dedup [of new_runtime_session "''a''" "[''a'']" 5 "fst ?r" "snd ?r" 6 "[]"]
    by (simp add: new_runtime_session_def t)
  then show ?thesis
    by (simp add: new_runtime_session_def)
qed

text \<open>
  When 2048 recent actions are remembered and Go's iteration happens to start with the action just
  marked, that action is the first to be forgotten: the same action sent again is accepted again, so it
  runs twice.
\<close>

theorem client_action_forgotten:
  assumes "finite (dom (rs_client_actions s))" and "card (dom (rs_client_actions s)) = 2048"
    and "\<forall>seen\<in>ran (rs_client_actions s). now - 2 * hour \<le> seen"
    and "trim_space a \<noteq> []" and "rs_client_actions s (trim_space a) = None"
  shows "fst (mark_client_action now (trim_space a # rest) a s) \<and>
    fst (mark_client_action later order a (snd (mark_client_action now (trim_space a # rest) a s)))"
proof -
  define m where "m = (rs_client_actions s)(trim_space a \<mapsto> now)"
  have card: "card (dom m) = 2049"
    using assms(1,2,5) by (auto simp: m_def card_insert_if)
  have "\<forall>x\<in>ran m. \<not> x < now - 2 * hour"
    using assms(3,5) by (auto simp: m_def ran_map_upd not_less hour_def minute_def second_def millisecond_def)
  then have "drop_old (now - 2 * hour) m = m"
    by (rule drop_old_recent)
  then have "trim_actions now (trim_space a # rest) m = evict_until (pending_limit * 2) (trim_space a # rest) m"
    using card by (simp add: trim_actions_def pending_limit_def del: evict_until.simps)
  then have "trim_actions now (trim_space a # rest) m (trim_space a) = None"
    using evict_until_first [of "trim_space a" "pending_limit * 2" rest m] by (simp add: domIff del: evict_until.simps)
  then show ?thesis
    using assms(4,5) by (simp add: mark_client_action_eq m_def [symmetric])
qed

definition busy_session :: runtime_session where
  "busy_session = new_runtime_session\<lparr>rs_client_actions :=
     (\<lambda>x. if x \<in> set (map (\<lambda>n. replicate n CHR ''b'') [1..<2049]) then Some 100 else None)\<rparr>"

lemma busy_session_dom: "dom (rs_client_actions busy_session) = set (map (\<lambda>n. replicate n CHR ''b'') [1..<2049])"
  by (auto simp: busy_session_def dom_def)

lemma busy_session_card: "card (dom (rs_client_actions busy_session)) = 2048"
proof -
  have "distinct (map (\<lambda>n. replicate n CHR ''b'') [1..<2049])"
    by (auto simp: distinct_map inj_on_def dest: arg_cong [of _ _ length])
  from distinct_card [OF this] show ?thesis
    by (simp add: busy_session_dom)
qed

theorem client_action_forgotten_witness:
  "fst (mark_client_action 100 (''a'' # map (\<lambda>n. replicate n CHR ''b'') [1..<2049]) ''a'' busy_session) \<and>
   fst (mark_client_action 101 [] ''a'' (snd (mark_client_action 100
      (''a'' # map (\<lambda>n. replicate n CHR ''b'') [1..<2049]) ''a'' busy_session)))"
proof -
  have t: "trim_space ''a'' = ''a''" by code_simp
  have fin: "finite (dom (rs_client_actions busy_session))"
    by (simp add: busy_session_dom)
  have recent: "\<forall>seen\<in>ran (rs_client_actions busy_session). 100 - 2 * hour \<le> seen"
    by (auto simp: busy_session_def ran_def duration_defs split: if_splits)
  have new: "rs_client_actions busy_session (trim_space ''a'') = None"
    by (auto simp: busy_session_def t image_iff dest: arg_cong [of _ _ set] split: if_splits)
  show ?thesis
    using client_action_forgotten [OF fin busy_session_card recent _ new, of "map (\<lambda>n. replicate n CHR ''b'') [1..<2049]" 101 "[]"]
    by (simp only: t) simp
qed

section \<open>Runs of the registry\<close>

datatype reg_op =
    OpEnsure string
  | OpAttach string string bool
  | OpRelease string string bool
  | OpFire nat
  | OpCallback nat
  | OpCleanupAll "string list"
  | OpPass duration

text \<open>
  One operation at a time: the operations of the registry hold its mutex. \<open>None\<close> is an operation that is
  not enabled: a timer that is not due, a callback that was not started, time running backwards.
\<close>

fun reg_do :: "reg_op \<Rightarrow> time \<times> registry \<Rightarrow> (time \<times> registry) option" where
  "reg_do (OpEnsure sid) (t, r) = Some (t, snd (registry_ensure sid r))"
| "reg_do (OpAttach sid lid given) (t, r) = Some (t, snd (registry_attach sid lid given r))"
| "reg_do (OpRelease sid lid cleanup) (t, r) = Some (t, registry_release t sid lid cleanup r)"
| "reg_do (OpFire i) (t, r) = map_option (Pair t) (registry_fire t i r)"
| "reg_do (OpCallback i) (t, r) = map_option (Pair t) (registry_callback i r)"
| "reg_do (OpCleanupAll order) (t, r) = Some (t, cleanup_all order r)"
| "reg_do (OpPass d) (t, r) = (if 0 \<le> d then Some (t + d, r) else None)"

fun reg_run :: "reg_op list \<Rightarrow> time \<times> registry \<Rightarrow> (time \<times> registry) option" where
  "reg_run [] c = Some c"
| "reg_run (op # ops) c = (case reg_do op c of None \<Rightarrow> None | Some c' \<Rightarrow> reg_run ops c')"

lemma reg_run_append: "reg_run (xs @ ys) c = (case reg_run xs c of None \<Rightarrow> None | Some c' \<Rightarrow> reg_run ys c')"
  by (induction xs arbitrary: c) (auto split: option.splits)

lemma reg_run_invariant:
  assumes "reg_run ops c = Some c'" and "P c"
    and "\<And>op c c'. op \<in> set ops \<Longrightarrow> P c \<Longrightarrow> reg_do op c = Some c' \<Longrightarrow> P c'"
  shows "P c'"
  using assms
proof (induction ops arbitrary: c)
  case (Cons op ops)
  then obtain c1 where c1: "reg_do op c = Some c1" "reg_run ops c1 = Some c'"
    by (auto split: option.splits)
  have "P c1"
    by (rule Cons.prems(3) [OF _ Cons.prems(2) c1(1)]) simp
  then show ?case
    by (rule Cons.IH [OF c1(2)]) (rule Cons.prems(3), simp_all)
qed simp

text \<open>
  Well-formed registries: a session object is known by one identifier, the next address and the next
  timer are fresh, and the release timer a session points to, while it is pending, is the session's own.
\<close>

definition reg_wf :: "registry \<Rightarrow> bool" where
  "reg_wf r \<longleftrightarrow>
     (\<forall>sid p. rg_sessions r sid = Some p \<longrightarrow> p < rg_next r) \<and>
     (\<forall>sid sid' p. rg_sessions r sid = Some p \<longrightarrow> rg_sessions r sid' = Some p \<longrightarrow> sid = sid') \<and>
     (\<forall>p. rg_objs r p \<noteq> None \<longrightarrow> p < rg_next r) \<and>
     (\<forall>i. rg_timers r i \<noteq> None \<longrightarrow> i < rg_next_timer r) \<and>
     (\<forall>p i. rs_release_timer (session_at r p) = Some i \<longrightarrow>
        i < rg_next_timer r \<and> (\<forall>x. rg_timers r i = Some x \<longrightarrow> fst (snd x) = p))"

lemma reg_wfD:
  assumes "reg_wf r"
  shows "rg_sessions r sid = Some p \<Longrightarrow> p < rg_next r"
    and "rg_sessions r sid = Some p \<Longrightarrow> rg_sessions r sid' = Some p \<Longrightarrow> sid = sid'"
    and "rg_objs r p \<noteq> None \<Longrightarrow> p < rg_next r"
    and "rg_timers r i \<noteq> None \<Longrightarrow> i < rg_next_timer r"
    and "rs_release_timer (session_at r p) = Some i \<Longrightarrow> i < rg_next_timer r"
    and "rs_release_timer (session_at r p) = Some i \<Longrightarrow> rg_timers r i = Some x \<Longrightarrow> fst (snd x) = p"
  using assms unfolding reg_wf_def by blast+

lemma session_at_upd [simp]:
  "session_at (upd_session p f r) q = (if q = p then f (session_at r p) else session_at r q)"
  by (simp add: session_at_def upd_session_def)

lemma upd_session_sel [simp]:
  "rg_sessions (upd_session p f r) = rg_sessions r"
  "rg_next (upd_session p f r) = rg_next r"
  "rg_timers (upd_session p f r) = rg_timers r"
  "rg_next_timer (upd_session p f r) = rg_next_timer r"
  "rg_fired (upd_session p f r) = rg_fired r"
  "rg_cleaned (upd_session p f r) = rg_cleaned r"
  "rg_release_after (upd_session p f r) = rg_release_after r"
  "rg_objs (upd_session p f r) = (rg_objs r)(p \<mapsto> f (session_at r p))"
  by (simp_all add: upd_session_def)

lemma session_at_other [simp]:
  "session_at (r\<lparr>rg_sessions := a\<rparr>) p = session_at r p"
  "session_at (r\<lparr>rg_timers := b\<rparr>) p = session_at r p"
  "session_at (r\<lparr>rg_next_timer := n\<rparr>) p = session_at r p"
  "session_at (r\<lparr>rg_fired := fs\<rparr>) p = session_at r p"
  "session_at (r\<lparr>rg_cleaned := cs\<rparr>) p = session_at r p"
  "session_at (r\<lparr>rg_next := n\<rparr>) p = session_at r p"
  by (simp_all add: session_at_def)

lemma new_session_no_timer [simp]: "rs_release_timer new_runtime_session = None"
  by (simp add: new_runtime_session_def)

lemma session_at_fresh: "reg_wf r \<Longrightarrow> session_at r (rg_next r) = new_runtime_session"
  using reg_wfD(3) [of r "rg_next r"] by (auto simp: session_at_def split: option.splits)

lemma wf_new: "reg_wf (new_registry after)"
  by (simp add: reg_wf_def new_registry_def session_at_def)

lemma wf_upd:
  assumes "reg_wf r" and "p < rg_next r"
    and "rs_release_timer (f (session_at r p)) = rs_release_timer (session_at r p) \<or>
      rs_release_timer (f (session_at r p)) = None"
  shows "reg_wf (upd_session p f r)"
  using assms unfolding reg_wf_def by (auto split: if_splits)

lemma wf_stop: "reg_wf r \<Longrightarrow> reg_wf (stop_release_timer p r)"
  unfolding reg_wf_def stop_release_timer_def by (auto split: option.splits)

lemma stop_sel [simp]:
  "rg_sessions (stop_release_timer p r) = rg_sessions r"
  "rg_next (stop_release_timer p r) = rg_next r"
  "rg_next_timer (stop_release_timer p r) = rg_next_timer r"
  "rg_fired (stop_release_timer p r) = rg_fired r"
  "rg_cleaned (stop_release_timer p r) = rg_cleaned r"
  "rg_release_after (stop_release_timer p r) = rg_release_after r"
  "session_at (stop_release_timer p r) q = session_at r q"
  by (auto simp: stop_release_timer_def split: option.splits)

lemma forget_sel [simp]:
  "rg_sessions (forget_session sid p r) = (rg_sessions r)(sid := None)"
  "rg_next (forget_session sid p r) = rg_next r"
  "rg_timers (forget_session sid p r) = rg_timers r"
  "rg_next_timer (forget_session sid p r) = rg_next_timer r"
  "rg_fired (forget_session sid p r) = rg_fired r"
  "rg_cleaned (forget_session sid p r) = rg_cleaned r @ [(sid, p)]"
  "session_at (forget_session sid p r) q =
     (if q = p then (session_at r p)\<lparr>rs_release_timer := None\<rparr> else session_at r q)"
  by (simp_all add: forget_session_def)

lemma wf_forget:
  assumes "reg_wf r" and "p < rg_next r"
  shows "reg_wf (forget_session sid p r)"
proof -
  have "reg_wf (r\<lparr>rg_sessions := (rg_sessions r)(sid := None), rg_cleaned := rg_cleaned r @ [(sid, p)]\<rparr>)"
    using assms(1) unfolding reg_wf_def by (auto split: if_splits)
  then show ?thesis
    unfolding forget_session_def using assms(2) by (intro wf_upd) simp_all
qed

lemma wf_ensure_locked:
  assumes "reg_wf r" and "ensure_locked sid r = (p, r')"
  shows "reg_wf r' \<and> rg_sessions r' sid = Some p \<and> p < rg_next r'"
proof (cases "rg_sessions r sid")
  case None
  then have r': "p = rg_next r" "r' = r\<lparr>rg_objs := (rg_objs r)(rg_next r \<mapsto> new_runtime_session),
       rg_sessions := (rg_sessions r)(sid \<mapsto> rg_next r), rg_next := Suc (rg_next r)\<rparr>"
    using assms(2) by (auto simp: ensure_locked_def)
  have at: "session_at r' q = (if q = rg_next r then new_runtime_session else session_at r q)" for q
    by (simp add: r' session_at_def)
  show ?thesis
    unfolding reg_wf_def at
    using reg_wfD(1,2,3,4,5,6) [OF assms(1)]
    by (auto simp: r' less_Suc_eq split: if_splits)
next
  case (Some q)
  then show ?thesis
    using assms reg_wfD(1) by (auto simp: ensure_locked_def)
qed

lemma listener_sel [simp]:
  "rs_release_timer (set_listener lid given s) = rs_release_timer s"
  "rs_release_timer (remove_listener lid s) = rs_release_timer s"
  "rs_release_timer (ensure_buffered_sink g s) = rs_release_timer s"
  "rs_release_timer (shutdown_sink s) = rs_release_timer s"
  "rs_listeners (ensure_buffered_sink g s) = rs_listeners s"
  "rs_listeners (shutdown_sink s) = rs_listeners s"
  by (simp_all add: set_listener_def remove_listener_def ensure_buffered_sink_def shutdown_sink_def)

lemma wf_ensured:
  assumes "reg_wf r"
  shows "reg_wf (snd (ensure_locked sid r))" and "fst (ensure_locked sid r) < rg_next (snd (ensure_locked sid r))"
    and "rg_sessions (snd (ensure_locked sid r)) sid = Some (fst (ensure_locked sid r))"
  using wf_ensure_locked [OF assms, of sid "fst (ensure_locked sid r)" "snd (ensure_locked sid r)"] by simp_all

lemma registry_attach_eq:
  "snd (registry_attach sid lid given r) =
     (if trim_space sid = [] then r
      else let p = fst (ensure_locked (trim_space sid) r);
               r1 = snd (ensure_locked (trim_space sid) r);
               r2 = upd_session p (\<lambda>s. ensure_buffered_sink False (set_listener lid given s)) r1
           in upd_session p (\<lambda>s. s\<lparr>rs_release_timer := None\<rparr>) (stop_release_timer p r2))"
  by (simp add: registry_attach_def Let_def split_def)

lemma wf_attach: "reg_wf r \<Longrightarrow> reg_wf (snd (registry_attach sid lid given r))"
  by (simp add: registry_attach_eq Let_def wf_upd wf_stop wf_ensured)

lemma wf_ensure: "reg_wf r \<Longrightarrow> reg_wf (snd (registry_ensure sid r))"
  by (simp add: registry_ensure_def Let_def split_def wf_ensured)

text \<open>A session gets a new release timer.\<close>

definition arm_timer :: "time \<Rightarrow> string \<Rightarrow> nat \<Rightarrow> registry \<Rightarrow> registry" where
  "arm_timer now sid p r2 = upd_session p (\<lambda>s. s\<lparr>rs_release_timer := Some (rg_next_timer r2)\<rparr>)
     (r2\<lparr>rg_timers := (rg_timers r2)(rg_next_timer r2 \<mapsto> (sid, p, now + rg_release_after r2)),
          rg_next_timer := Suc (rg_next_timer r2)\<rparr>)"

lemma arm_sel [simp]:
  "rg_sessions (arm_timer now sid p r) = rg_sessions r"
  "rg_next (arm_timer now sid p r) = rg_next r"
  "rg_timers (arm_timer now sid p r) = (rg_timers r)(rg_next_timer r \<mapsto> (sid, p, now + rg_release_after r))"
  "rg_fired (arm_timer now sid p r) = rg_fired r"
  "rg_cleaned (arm_timer now sid p r) = rg_cleaned r"
  "rg_release_after (arm_timer now sid p r) = rg_release_after r"
  "session_at (arm_timer now sid p r) q =
     (if q = p then (session_at r p)\<lparr>rs_release_timer := Some (rg_next_timer r)\<rparr> else session_at r q)"
  by (simp_all add: arm_timer_def)

lemma registry_release_eq:
  "registry_release now sid lid cleanup r =
     (case rg_sessions r (trim_space sid) of
        None \<Rightarrow> r
      | Some p \<Rightarrow>
          if trim_space sid = [] then r
          else let r1 = upd_session p (remove_listener lid) r in
            if 0 < listener_count (session_at r1 p) then r1
            else if cleanup then forget_session (trim_space sid) p (stop_release_timer p r1)
            else arm_timer now (trim_space sid) p (stop_release_timer p r1))"
  by (simp add: registry_release_def arm_timer_def Let_def split: option.split)

lemma wf_arm:
  assumes "reg_wf r" and "p < rg_next r"
  shows "reg_wf (arm_timer now sid p r)"
proof -
  have fresh: "rg_timers r (rg_next_timer r) = None"
    using reg_wfD(4) [OF assms(1), of "rg_next_timer r"] by (cases "rg_timers r (rg_next_timer r)") simp_all
  show ?thesis
    using assms fresh unfolding reg_wf_def
    by (auto simp: arm_timer_def less_Suc_eq split: if_splits)
qed

lemma wf_release:
  assumes "reg_wf r"
  shows "reg_wf (registry_release now sid lid cleanup r)"
proof (cases "rg_sessions r (trim_space sid)")
  case (Some p)
  have "p < rg_next r"
    using reg_wfD(1) [OF assms Some] .
  then show ?thesis
    using assms Some
    by (auto simp: registry_release_eq Let_def intro!: wf_upd wf_forget wf_arm wf_stop)
qed (simp add: registry_release_eq assms)

lemma wf_fire:
  assumes "reg_wf r" and "registry_fire now i r = Some r'"
  shows "reg_wf r'"
  using assms unfolding reg_wf_def registry_fire_def by (auto split: option.splits if_splits)

lemma wf_shutdown: "reg_wf r \<Longrightarrow> p < rg_next r \<Longrightarrow> reg_wf (upd_session p shutdown_sink r)"
  by (rule wf_upd) simp_all

lemma wf_orphaned: "reg_wf r \<Longrightarrow> reg_wf (cleanup_if_orphaned sid p r)"
  using reg_wfD(1) [of r sid p]
  by (auto simp: cleanup_if_orphaned_def intro!: wf_upd wf_shutdown wf_forget)

lemma wf_fired: "reg_wf (r\<lparr>rg_fired := fs\<rparr>) = reg_wf r"
  by (simp add: reg_wf_def)

lemma wf_callback: "reg_wf r \<Longrightarrow> registry_callback i r = Some r' \<Longrightarrow> reg_wf r'"
  by (auto simp: registry_callback_def wf_fired intro!: wf_orphaned split: if_splits prod.splits)

lemma wf_cleanup_loop: "reg_wf r \<Longrightarrow> reg_wf (cleanup_loop sids r)"
proof (induction sids arbitrary: r)
  case (Cons sid sids)
  then show ?case
    using reg_wfD(1) [OF Cons.prems, of sid]
    by (auto split: option.split intro!: Cons.IH wf_shutdown wf_forget wf_stop)
qed simp

lemma wf_do:
  assumes "reg_do op c = Some c'" and "reg_wf (snd c)"
  shows "reg_wf (snd c')"
  using assms
  by (cases "(op, c)" rule: reg_do.cases)
     (auto simp: wf_ensure wf_attach wf_release cleanup_all_def wf_cleanup_loop
       intro: wf_fire wf_callback split: if_splits)

lemma wf_run: "reg_run ops c = Some c' \<Longrightarrow> reg_wf (snd c) \<Longrightarrow> reg_wf (snd c')"
  by (rule reg_run_invariant [where P = "\<lambda>c. reg_wf (snd c)"]) (auto dest: wf_do)

text \<open>
  Live sessions: a session the registry knows was never cleaned up and its sink was never shut down.
\<close>

definition reg_live :: "registry \<Rightarrow> bool" where
  "reg_live r \<longleftrightarrow>
     (\<forall>p. finite (rs_listeners (session_at r p))) \<and>
     (\<forall>sid p. rg_sessions r sid = Some p \<longrightarrow>
        \<not> rs_sink_closed (session_at r p) \<and> (\<forall>sid'. (sid', p) \<notin> set (rg_cleaned r))) \<and>
     (\<forall>sid p. (sid, p) \<in> set (rg_cleaned r) \<longrightarrow> p < rg_next r)"

lemma reg_liveD:
  assumes "reg_live r"
  shows "finite (rs_listeners (session_at r p))"
    and "rg_sessions r sid = Some p \<Longrightarrow> \<not> rs_sink_closed (session_at r p)"
    and "rg_sessions r sid = Some p \<Longrightarrow> (sid', p) \<notin> set (rg_cleaned r)"
    and "(sid', p) \<in> set (rg_cleaned r) \<Longrightarrow> p < rg_next r"
  using assms unfolding reg_live_def by blast+

lemma live_new: "reg_live (new_registry after)"
  by (simp add: reg_live_def new_registry_def session_at_def new_runtime_session_def)

lemma live_upd:
  assumes "reg_live r" and "finite (rs_listeners (f (session_at r p)))"
    and "rs_sink_closed (f (session_at r p)) \<longrightarrow> rs_sink_closed (session_at r p) \<or> p \<notin> ran (rg_sessions r)"
  shows "reg_live (upd_session p f r)"
  using assms unfolding reg_live_def by (auto simp: ran_def)

lemma live_shutdown: "reg_live r \<Longrightarrow> p \<notin> ran (rg_sessions r) \<Longrightarrow> reg_live (upd_session p shutdown_sink r)"
  by (rule live_upd) (simp_all add: reg_liveD(1) shutdown_sink_def)

lemma live_stop: "reg_live r \<Longrightarrow> reg_live (stop_release_timer p r)"
  unfolding reg_live_def by simp

lemma live_arm: "reg_live r \<Longrightarrow> reg_live (arm_timer now sid p r)"
  unfolding reg_live_def by simp

lemma live_forget:
  assumes "reg_wf r" and "reg_live r" and "rg_sessions r sid = Some p"
  shows "reg_live (forget_session sid p r)" and "p \<notin> ran (rg_sessions (forget_session sid p r))"
proof -
  have "p < rg_next r" and other: "\<And>sid'. rg_sessions r sid' = Some p \<Longrightarrow> sid' = sid"
    using reg_wfD(1,2) [OF assms(1)] assms(3) by blast+
  then show "reg_live (forget_session sid p r)"
    using assms(2) unfolding reg_live_def by auto
  show "p \<notin> ran (rg_sessions (forget_session sid p r))"
    using other by (auto simp: ran_def)
qed

lemma live_ensured:
  assumes "reg_wf r" and "reg_live r"
  shows "reg_live (snd (ensure_locked sid r))"
proof (cases "rg_sessions r sid")
  case None
  have at: "session_at (snd (ensure_locked sid r)) q =
      (if q = rg_next r then new_runtime_session else session_at r q)" for q
    by (simp add: ensure_locked_def None session_at_def)
  have new: "finite (rs_listeners new_runtime_session)" "\<not> rs_sink_closed new_runtime_session"
    by (simp_all add: new_runtime_session_def)
  have fresh: "(sid'', rg_next r) \<notin> set (rg_cleaned r)" "rg_sessions r sid' \<noteq> Some (rg_next r)" for sid' sid''
    using reg_liveD(4) [OF assms(2)] reg_wfD(1) [OF assms(1)] by force+
  show ?thesis
    unfolding reg_live_def at
    using assms(2)[unfolded reg_live_def] new fresh
    by (auto simp: ensure_locked_def None less_Suc_eq split: if_splits)
qed (simp add: ensure_locked_def assms(2))

lemma closed_sel [simp]:
  "rs_sink_closed (set_listener lid given s) = rs_sink_closed s"
  "rs_sink_closed (remove_listener lid s) = rs_sink_closed s"
  "rs_sink_closed (ensure_buffered_sink g s) = rs_sink_closed s"
  "rs_sink_closed (shutdown_sink s)"
  by (simp_all add: set_listener_def remove_listener_def ensure_buffered_sink_def shutdown_sink_def)

lemma listeners_set_listener:
  "rs_listeners (set_listener lid given s) =
     (if trim_space lid = [] \<or> \<not> given then rs_listeners s else insert lid (rs_listeners s))"
  "rs_listeners (remove_listener lid s) = (if trim_space lid = [] then rs_listeners s else rs_listeners s - {lid})"
  by (simp_all add: set_listener_def remove_listener_def)

lemma live_attach: "reg_wf r \<Longrightarrow> reg_live r \<Longrightarrow> reg_live (snd (registry_attach sid lid given r))"
  by (simp add: registry_attach_eq Let_def live_upd live_stop live_ensured reg_liveD(1) listeners_set_listener)

lemma live_remove:
  "reg_live r \<Longrightarrow> reg_live (upd_session p (remove_listener lid) r)"
  by (rule live_upd) (simp_all add: listeners_set_listener reg_liveD(1))

lemma wf_remove: "reg_wf r \<Longrightarrow> p < rg_next r \<Longrightarrow> reg_wf (upd_session p (remove_listener lid) r)"
  by (rule wf_upd) simp_all

lemma live_release:
  assumes "reg_wf r" and "reg_live r"
  shows "reg_live (registry_release now sid lid cleanup r)"
proof (cases "rg_sessions r (trim_space sid)")
  case (Some p)
  have "p < rg_next r"
    using reg_wfD(1) [OF assms(1) Some] .
  then show ?thesis
    using assms Some
    by (auto simp: registry_release_eq Let_def intro!: live_remove live_forget live_arm live_stop wf_stop wf_remove)
qed (simp add: registry_release_eq assms)

lemma live_orphaned:
  assumes "reg_wf r" and "reg_live r"
  shows "reg_live (cleanup_if_orphaned sid p r)"
proof (cases "rg_sessions r sid = Some p")
  case True
  note f = live_forget [OF assms True]
  have "reg_live (upd_session p shutdown_sink (forget_session sid p r))"
    by (rule live_shutdown [OF f(1)]) (use f(2) in simp)
  then show ?thesis
    using assms(2) by (auto simp: cleanup_if_orphaned_def reg_liveD(1) intro!: live_upd)
qed (simp add: cleanup_if_orphaned_def assms)

lemma live_fired: "reg_live (r\<lparr>rg_fired := fs\<rparr>) = reg_live r"
  by (simp add: reg_live_def)

lemma live_cleanup_loop: "reg_wf r \<Longrightarrow> reg_live r \<Longrightarrow> reg_live (cleanup_loop sids r)"
proof (induction sids arbitrary: r)
  case (Cons sid sids)
  show ?case
  proof (cases "rg_sessions r sid")
    case (Some p)
    let ?r = "forget_session sid p (stop_release_timer p r)"
    have p: "p < rg_next r"
      using reg_wfD(1) [OF Cons.prems(1) Some] .
    have f: "reg_live ?r" "p \<notin> ran (rg_sessions ?r)"
      using live_forget [OF wf_stop live_stop, of r p sid p] Cons.prems Some by simp_all
    have "reg_live (upd_session p shutdown_sink ?r)"
      by (rule live_shutdown [OF f(1)]) (use f(2) in simp)
    moreover have "reg_wf (upd_session p shutdown_sink ?r)"
      using Cons.prems(1) p by (intro wf_shutdown wf_forget wf_stop) simp_all
    ultimately show ?thesis
      using Cons.IH Some by simp
  qed (use Cons in simp)
qed simp

lemma live_do:
  assumes "reg_do op c = Some c'" and "reg_wf (snd c)" and "reg_live (snd c)"
  shows "reg_live (snd c')"
proof (cases "(op, c)" rule: reg_do.cases)
  case (4 i t r)
  then show ?thesis
    using assms by (auto simp: registry_fire_def reg_live_def split: option.splits if_splits)
next
  case (5 i t r)
  then show ?thesis
    using assms
    by (auto simp: registry_callback_def live_fired wf_fired intro!: live_orphaned split: if_splits prod.splits)
qed (use assms in \<open>auto simp: registry_ensure_def Let_def split_def live_ensured live_attach live_release
    cleanup_all_def live_cleanup_loop split: if_splits\<close>)

lemma wf_live_run:
  assumes "reg_run ops c = Some c'" and "reg_wf (snd c)" and "reg_live (snd c)"
  shows "reg_wf (snd c') \<and> reg_live (snd c')"
  by (rule reg_run_invariant [where P = "\<lambda>c. reg_wf (snd c) \<and> reg_live (snd c)", OF assms(1)])
     (auto simp: assms(2,3) dest: wf_do live_do)

lemma wf_live_reachable:
  "reg_run ops (t, new_registry after) = Some c \<Longrightarrow> reg_wf (snd c) \<and> reg_live (snd c)"
  by (erule wf_live_run) (simp_all add: wf_new live_new)

section \<open>Attached sessions survive\<close>

lemma ensured_frame:
  assumes "reg_wf r" and "rg_sessions r sid = Some p"
  shows "rg_sessions (snd (ensure_locked k r)) sid = Some p"
    and "session_at (snd (ensure_locked k r)) p = session_at r p"
    and "fst (ensure_locked k r) = p \<longleftrightarrow> k = sid"
proof -
  have "p < rg_next r"
    using reg_wfD(1) [OF assms] .
  moreover have "rg_sessions r k = Some p \<Longrightarrow> k = sid"
    using reg_wfD(2) [OF assms(1)] assms(2) by blast
  ultimately show "rg_sessions (snd (ensure_locked k r)) sid = Some p"
      "session_at (snd (ensure_locked k r)) p = session_at r p"
      "fst (ensure_locked k r) = p \<longleftrightarrow> k = sid"
    using assms(2) by (auto simp: ensure_locked_def session_at_def split: option.splits)
qed

lemma ensured_tables [simp]:
  "rg_timers (snd (ensure_locked k r)) = rg_timers r"
  "rg_fired (snd (ensure_locked k r)) = rg_fired r"
  "rg_cleaned (snd (ensure_locked k r)) = rg_cleaned r"
  by (auto simp: ensure_locked_def split: option.splits)

definition connected :: "string \<Rightarrow> nat \<Rightarrow> string \<Rightarrow> registry \<Rightarrow> bool" where
  "connected sid p lid r \<longleftrightarrow>
     reg_wf r \<and> reg_live r \<and> rg_sessions r sid = Some p \<and> lid \<in> rs_listeners (session_at r p)"

lemma connected_count: "connected sid p lid r \<Longrightarrow> 0 < listener_count (session_at r p)"
  using reg_liveD(1) [of r p] by (auto simp: connected_def listener_count_def card_gt_0_iff)

lemma connected_attach:
  assumes "connected sid p lid r"
  shows "connected sid p lid (snd (registry_attach k l g r))"
  using assms ensured_frame [of r sid p "trim_space k"] wf_attach [of r k l g] live_attach [of r k l g]
  unfolding connected_def by (auto simp: registry_attach_eq Let_def listeners_set_listener)

lemma connected_ensure:
  assumes "connected sid p lid r"
  shows "connected sid p lid (snd (registry_ensure k r))"
  using assms ensured_frame [of r sid p "trim_space k"] wf_ensured(1) [of r] live_ensured [of r]
  unfolding connected_def by (auto simp: registry_ensure_def Let_def split_def)

lemma connected_release:
  assumes "connected sid p lid r" and "\<not> (trim_space k = sid \<and> l = lid)"
  shows "connected sid p lid (registry_release now k l cl r)"
proof (cases "rg_sessions r (trim_space k)")
  case None
  then show ?thesis
    using assms(1) by (simp add: registry_release_eq)
next
  case (Some q)
  have r: "reg_wf r" "reg_live r" "rg_sessions r sid = Some p" "lid \<in> rs_listeners (session_at r p)"
    using assms(1) by (auto simp: connected_def)
  have w: "reg_wf (registry_release now k l cl r)" "reg_live (registry_release now k l cl r)"
    by (rule wf_release [OF r(1)], rule live_release [OF r(1,2)])
  show ?thesis
  proof (cases "trim_space k = sid")
    case True
    then have "q = p" "lid \<in> rs_listeners (remove_listener l (session_at r p))"
      using Some r(3,4) assms(2) by (auto simp: listeners_set_listener)
    moreover from this have "0 < listener_count (remove_listener l (session_at r p))"
      using reg_liveD(1) [OF r(2), of p] by (auto simp: listener_count_def card_gt_0_iff listeners_set_listener)
    ultimately show ?thesis
      using w r(3,4) True by (auto simp: connected_def registry_release_eq Let_def)
  next
    case False
    then have "q \<noteq> p"
      using reg_wfD(2) [OF r(1) Some] r(3) by blast
    then show ?thesis
      using w r(3,4) Some False by (auto simp: connected_def registry_release_eq Let_def)
  qed
qed

lemma connected_orphaned:
  assumes "connected sid p lid r"
  shows "connected sid p lid (cleanup_if_orphaned k q r)"
proof -
  have r: "reg_wf r" "reg_live r" "rg_sessions r sid = Some p" "lid \<in> rs_listeners (session_at r p)"
    using assms by (auto simp: connected_def)
  have w: "reg_wf (cleanup_if_orphaned k q r)" "reg_live (cleanup_if_orphaned k q r)"
    by (rule wf_orphaned [OF r(1)], rule live_orphaned [OF r(1,2)])
  have "q = p \<Longrightarrow> 0 < listener_count (session_at r q)"
    using connected_count [OF assms] by simp
  moreover have "rg_sessions r k = Some q \<Longrightarrow> q \<noteq> p \<Longrightarrow> k \<noteq> sid"
    using r(3) by auto
  ultimately show ?thesis
    using w r(3,4) by (auto simp: connected_def cleanup_if_orphaned_def)
qed

lemma connected_fired: "connected sid p lid (r\<lparr>rg_fired := fs\<rparr>) = connected sid p lid r"
  by (simp add: connected_def wf_fired live_fired)

fun disconnects :: "string \<Rightarrow> string \<Rightarrow> reg_op \<Rightarrow> bool" where
  "disconnects sid lid (OpRelease k l cl) = (trim_space k = sid \<and> l = lid)"
| "disconnects sid lid (OpCleanupAll order) = True"
| "disconnects sid lid _ = False"

lemma connected_do:
  assumes "reg_do op c = Some c'" and "connected sid p lid (snd c)" and "\<not> disconnects sid lid op"
  shows "connected sid p lid (snd c')"
proof (cases "(op, c)" rule: reg_do.cases)
  case (4 i t r)
  then have "reg_wf (snd c')" "reg_live (snd c')"
    using wf_do [OF assms(1)] live_do [OF assms(1)] assms(2) by (simp_all add: connected_def)
  then show ?thesis
    using assms 4 by (auto simp: connected_def registry_fire_def split: option.splits if_splits)
next
  case (5 i t r)
  then show ?thesis
    using assms
    by (auto simp: registry_callback_def connected_fired intro!: connected_orphaned split: if_splits prod.splits)
qed (use assms in \<open>auto simp: connected_ensure connected_attach connected_release split: if_splits\<close>)

text \<open>
  C10: A client that attached a listener to a session keeps the session: in every run of the registry, as
  long as nobody releases that listener from it and \<open>CleanupAll\<close> is not called, the identifier leads to
  the same session object, the session counts as connected, its sink stays open and it is not cleaned up,
  even if a release timer armed before the attachment had already fired when the listener was attached.
\<close>

theorem attached_session_survives:
  assumes "reg_run ops0 (t0, new_registry after) = Some (t1, r1)"
    and "registry_attach sid lid True r1 = (Some p, r2)" and "trim_space lid \<noteq> []"
    and "reg_run ops (t1, r2) = Some (t3, r3)" and "\<forall>op\<in>set ops. \<not> disconnects (trim_space sid) lid op"
  shows "registry_get sid r3 = Some p \<and> has_active_connection sid r3 \<and>
    lid \<in> rs_listeners (session_at r3 p) \<and> \<not> rs_sink_closed (session_at r3 p) \<and>
    (\<forall>k. (k, p) \<notin> set (rg_cleaned r3))"
proof -
  have r1: "reg_wf r1" "reg_live r1"
    using wf_live_reachable [OF assms(1)] by simp_all
  have sid: "trim_space sid \<noteq> []" and p: "p = fst (ensure_locked (trim_space sid) r1)"
    and r2: "r2 = snd (registry_attach sid lid True r1)"
    using assms(2) by (auto simp: registry_attach_def Let_def split: if_splits prod.splits)
  have "connected (trim_space sid) p lid r2"
    using wf_attach [OF r1(1), of sid lid True] live_attach [OF r1, of sid lid True]
      wf_ensured(3) [OF r1(1), of "trim_space sid"] sid assms(3)
    unfolding r2 connected_def by (simp add: registry_attach_eq Let_def p listeners_set_listener)
  then have "connected (trim_space sid) p lid (snd (t3, r3))"
    using reg_run_invariant [OF assms(4), where P = "\<lambda>c. connected (trim_space sid) p lid (snd c)"]
      connected_do assms(5) by auto
  then have c: "connected (trim_space sid) p lid r3"
    by simp
  then have r3: "reg_wf r3" "reg_live r3" "rg_sessions r3 (trim_space sid) = Some p"
      "lid \<in> rs_listeners (session_at r3 p)"
    by (simp_all add: connected_def)
  show ?thesis
    using connected_count [OF c] r3(3,4) sid reg_liveD(2,3) [OF r3(2,3)]
    by (simp add: registry_get_def has_active_connection_def)
qed

theorem attached_session_survives_witness:
  "\<exists>r3. reg_run [OpRelease ''s'' ''b'' True, OpPass hour, OpCallback 0] (0, snd (registry_attach ''s'' ''a'' True (new_registry 0))) = None \<and>
    reg_run [OpRelease ''s'' ''b'' True, OpPass hour] (0, snd (registry_attach ''s'' ''a'' True (new_registry 0))) = Some (hour, r3) \<and>
    has_active_connection ''s'' r3"
proof -
  have t: "trim_space ''s'' = ''s''" "trim_space ''a'' = ''a''" "trim_space ''b'' = ''b''"
    by code_simp+
  let ?r2 = "snd (registry_attach ''s'' ''a'' True (new_registry 0))"
  let ?ops = "[OpRelease ''s'' ''b'' True, OpPass hour]"
  let ?r3 = "registry_release 0 ''s'' ''b'' True ?r2"
  have a: "registry_attach ''s'' ''a'' True (new_registry 0) = (Some 0, ?r2)"
    by (simp add: registry_attach_def ensure_locked_def new_registry_def t Let_def)
  have run: "reg_run ?ops (0, ?r2) = Some (hour, ?r3)"
    by (simp add: duration_defs)
  have "has_active_connection ''s'' ?r3"
    using attached_session_survives [of "[]" 0 0 0 "new_registry 0" "''s''" "''a''" 0 ?r2 ?ops hour ?r3] a run
    by (simp add: t)
  moreover have "rg_fired ?r3 = []"
    by (simp add: registry_release_eq registry_attach_eq ensure_locked_def new_registry_def t Let_def
        stop_release_timer_def session_at_def split: option.split)
  then have "reg_run [OpRelease ''s'' ''b'' True, OpPass hour, OpCallback 0] (0, ?r2) = None"
    by (simp add: registry_callback_def)
  ultimately show ?thesis
    using run by (intro exI conjI)
qed

section \<open>Sessions nobody listens to are released\<close>

text \<open>
  An idle session: its release timer is pending and due by \<open>due\<close>, or its callback has been started, or it
  has been cleaned up.
\<close>

definition idle_waiting :: "string \<Rightarrow> nat \<Rightarrow> time \<Rightarrow> registry \<Rightarrow> bool" where
  "idle_waiting sid p due r \<longleftrightarrow>
     rg_sessions r sid = Some p \<and> listener_count (session_at r p) = 0 \<and>
     ((\<exists>i d. rs_release_timer (session_at r p) = Some i \<and> rg_timers r i = Some (sid, p, d) \<and> d \<le> due) \<or>
      (sid, p) \<in> set (rg_fired r))"

definition idle_done :: "string \<Rightarrow> nat \<Rightarrow> registry \<Rightarrow> bool" where
  "idle_done sid p r \<longleftrightarrow> (sid, p) \<in> set (rg_cleaned r) \<and> rs_sink_closed (session_at r p)"

fun touches :: "string \<Rightarrow> reg_op \<Rightarrow> bool" where
  "touches sid (OpAttach k l g) = (trim_space k = sid)"
| "touches sid (OpRelease k l cl) = (trim_space k = sid)"
| "touches sid _ = False"

lemma idle_done_ensured:
  assumes "reg_live r" and "idle_done sid p r"
  shows "idle_done sid p (snd (ensure_locked k r))"
proof -
  have "p < rg_next r"
    using reg_liveD(4) [OF assms(1)] assms(2) by (auto simp: idle_done_def)
  then show ?thesis
    using assms(2) by (auto simp: idle_done_def ensure_locked_def session_at_def split: option.splits)
qed

lemma idle_done_attach:
  assumes "reg_live r" and "idle_done sid p r"
  shows "idle_done sid p (snd (registry_attach k l g r))"
  using idle_done_ensured [OF assms, of "trim_space k"] assms(2)
  by (auto simp: registry_attach_eq Let_def idle_done_def)

lemma idle_done_release: "idle_done sid p r \<Longrightarrow> idle_done sid p (registry_release now k l cl r)"
  by (auto simp: registry_release_eq Let_def idle_done_def split: option.split)

lemma idle_done_orphaned: "idle_done sid p r \<Longrightarrow> idle_done sid p (cleanup_if_orphaned k q r)"
  by (auto simp: cleanup_if_orphaned_def idle_done_def)

lemma idle_done_cleanup_step:
  "idle_done sid p r \<Longrightarrow>
   idle_done sid p (upd_session q shutdown_sink (forget_session k q (stop_release_timer q r)))"
  by (auto simp: idle_done_def)

lemma idle_done_cleanup_loop: "idle_done sid p r \<Longrightarrow> idle_done sid p (cleanup_loop ks r)"
  by (induction ks arbitrary: r) (simp_all add: idle_done_cleanup_step split: option.split)

lemma idle_done_do:
  assumes "reg_do op c = Some c'" and "reg_live (snd c)" and "idle_done sid p (snd c)"
  shows "idle_done sid p (snd c')"
proof (cases "(op, c)" rule: reg_do.cases)
  case (4 i t r)
  then show ?thesis
    using assms by (auto simp: registry_fire_def idle_done_def split: option.splits if_splits)
next
  case (5 i t r)
  have "idle_done sid p (r\<lparr>rg_fired := fs\<rparr>)" for fs
    using assms(3) 5 by (simp add: idle_done_def)
  then show ?thesis
    using assms(1) 5
    by (auto simp: registry_callback_def intro!: idle_done_orphaned split: if_splits prod.splits)
qed (use assms in \<open>auto simp: registry_ensure_def Let_def split_def idle_done_ensured idle_done_attach
    idle_done_release cleanup_all_def idle_done_cleanup_loop split: if_splits\<close>)

lemma idle_frame:
  assumes "idle_waiting sid p due r" and "rg_sessions r' sid = rg_sessions r sid"
    and "session_at r' p = session_at r p" and "(sid, p) \<in> set (rg_fired r) \<Longrightarrow> (sid, p) \<in> set (rg_fired r')"
    and "\<And>i x. rg_timers r i = Some x \<Longrightarrow> fst (snd x) = p \<Longrightarrow> rg_timers r' i = Some x"
  shows "idle_waiting sid p due r'"
  using assms(1,4) assms(5)[of _ "(sid, p, _)"] unfolding idle_waiting_def assms(2,3) by fastforce

lemma stop_other_timer:
  assumes "reg_wf r" and "q \<noteq> p" and "rg_timers r i = Some x" and "fst (snd x) = p"
  shows "rg_timers (stop_release_timer q r) i = Some x"
proof -
  have "rs_release_timer (session_at r q) \<noteq> Some i"
    using reg_wfD(6) [OF assms(1) _ assms(3)] assms(2,4) by blast
  then show ?thesis
    using assms(3) by (auto simp: stop_release_timer_def split: option.split)
qed

lemma idle_ensured:
  assumes "reg_wf r" and "idle_waiting sid p due r"
  shows "idle_waiting sid p due (snd (ensure_locked k r))"
proof -
  have "rg_sessions r sid = Some p"
    using assms(2) by (simp add: idle_waiting_def)
  from ensured_frame [OF assms(1) this, of k] this show ?thesis
    by (intro idle_frame [OF assms(2)]) simp_all
qed

lemma idle_attach:
  assumes "reg_wf r" and "idle_waiting sid p due r" and "trim_space k \<noteq> sid"
  shows "idle_waiting sid p due (snd (registry_attach k l g r))"
proof (cases "trim_space k = []")
  case False
  let ?q = "fst (ensure_locked (trim_space k) r)"
  let ?r1 = "snd (ensure_locked (trim_space k) r)"
  let ?r2 = "upd_session ?q (\<lambda>s. ensure_buffered_sink False (set_listener l g s)) ?r1"
  have "rg_sessions r sid = Some p"
    using assms(2) by (simp add: idle_waiting_def)
  from ensured_frame(3) [OF assms(1) this] have q: "?q \<noteq> p"
    using assms(3) by simp
  have "reg_wf ?r2"
    using wf_ensured [OF assms(1)] by (intro wf_upd) simp_all
  note stop = stop_other_timer [OF this q]
  have "idle_waiting sid p due (stop_release_timer ?q ?r2)"
    by (rule idle_frame [OF idle_ensured [OF assms(1,2), of "trim_space k"]]) (use q stop in simp_all)
  then have "idle_waiting sid p due (upd_session ?q (\<lambda>s. s\<lparr>rs_release_timer := None\<rparr>) (stop_release_timer ?q ?r2))"
    by (rule idle_frame) (use q in simp_all)
  then show ?thesis
    using False by (simp add: registry_attach_eq Let_def)
qed (simp add: registry_attach_eq assms(2))

lemma idle_release:
  assumes "reg_wf r" and "idle_waiting sid p due r" and "trim_space k \<noteq> sid"
  shows "idle_waiting sid p due (registry_release now k l cl r)"
proof (cases "rg_sessions r (trim_space k)")
  case (Some q)
  have q: "q \<noteq> p" "q < rg_next r"
    using reg_wfD(1,2) [OF assms(1) Some] assms(2,3) by (auto simp: idle_waiting_def)
  let ?r1 = "upd_session q (remove_listener l) r"
  have wf: "reg_wf ?r1"
    using wf_remove [OF assms(1) q(2)] .
  note stop = stop_other_timer [OF wf q(1)]
  have r1: "idle_waiting sid p due ?r1"
    by (rule idle_frame [OF assms(2)]) (use q in simp_all)
  have r2: "idle_waiting sid p due (stop_release_timer q ?r1)"
    by (rule idle_frame [OF r1]) (use q stop in simp_all)
  have forget: "idle_waiting sid p due (forget_session (trim_space k) q (stop_release_timer q ?r1))"
    by (rule idle_frame [OF r2]) (use q assms(3) in simp_all)
  have fresh: "rg_timers (stop_release_timer q ?r1) (rg_next_timer r) = None"
    using reg_wfD(4) [OF wf_stop [OF wf, of q], of "rg_next_timer r"]
    by (cases "rg_timers (stop_release_timer q ?r1) (rg_next_timer r)") simp_all
  have "idle_waiting sid p due (arm_timer now (trim_space k) q (stop_release_timer q ?r1))"
    by (rule idle_frame [OF r2]) (use q fresh in \<open>auto\<close>)
  then show ?thesis
    using assms(2) Some r1 forget by (auto simp: registry_release_eq Let_def)
qed (simp add: registry_release_eq assms(2))

lemma idle_fire:
  assumes "idle_waiting sid p due r" and "registry_fire t i r = Some r'"
  shows "idle_waiting sid p due r'"
proof -
  obtain x where x: "rg_timers r i = Some x"
      and r': "r' = r\<lparr>rg_timers := (rg_timers r)(i := None), rg_fired := rg_fired r @ [(fst x, fst (snd x))]\<rparr>"
    using assms(2) by (auto simp: registry_fire_def split: option.splits if_splits)
  show ?thesis
  proof (cases "fst x = sid \<and> fst (snd x) = p")
    case True
    then show ?thesis
      using assms(1) by (simp add: idle_waiting_def r')
  next
    case False
    have sid: "rg_sessions r' sid = Some p" "listener_count (session_at r' p) = 0"
      using assms(1) by (simp_all add: idle_waiting_def r')
    from assms(1) consider
        (pending) j d where "rs_release_timer (session_at r p) = Some j" "rg_timers r j = Some (sid, p, d)" "d \<le> due"
      | (started) "(sid, p) \<in> set (rg_fired r)"
      unfolding idle_waiting_def by blast
    then show ?thesis
    proof cases
      case (pending j d)
      then have "j \<noteq> i"
        using False x by auto
      then have "rs_release_timer (session_at r' p) = Some j \<and> rg_timers r' j = Some (sid, p, d) \<and> d \<le> due"
        using pending by (simp add: r')
      then show ?thesis
        using sid unfolding idle_waiting_def by blast
    next
      case started
      then show ?thesis
        using sid by (simp add: idle_waiting_def r')
    qed
  qed
qed

lemma idle_callback:
  assumes "reg_wf r" and "idle_waiting sid p due r" and "registry_callback i r = Some r'"
  shows "idle_waiting sid p due r' \<or> idle_done sid p r'"
proof -
  from assms(3) obtain k q where i: "i < length (rg_fired r)" "rg_fired r ! i = (k, q)"
      and r': "r' = cleanup_if_orphaned k q (r\<lparr>rg_fired := remove_nth i (rg_fired r)\<rparr>)"
    by (auto simp: registry_callback_def split: if_splits prod.splits)
  have sid: "rg_sessions r sid = Some p" "listener_count (session_at r p) = 0"
    using assms(2) by (simp_all add: idle_waiting_def)
  show ?thesis
  proof (cases "(k, q) = (sid, p)")
    case True
    then have "idle_done sid p r'"
      using sid by (simp add: r' cleanup_if_orphaned_def idle_done_def)
    then show ?thesis ..
  next
    case False
    let ?r = "r\<lparr>rg_fired := remove_nth i (rg_fired r)\<rparr>"
    have "(sid, p) \<in> set (rg_fired r) \<Longrightarrow> (sid, p) \<in> set (remove_nth i (rg_fired r))"
      using in_set_remove_nth [OF _ i(1)] i(2) False by auto
    then have idle: "idle_waiting sid p due ?r"
      by (intro idle_frame [OF assms(2)]) simp_all
    have other: "k \<noteq> sid \<and> q \<noteq> p" if "rg_sessions r k = Some q"
    proof -
      have "q = p \<Longrightarrow> k = sid"
        using reg_wfD(2) [OF assms(1) that, of sid] sid(1) by simp
      moreover have "k = sid \<Longrightarrow> q = p"
        using that sid(1) by simp
      ultimately show ?thesis
        using False by auto
    qed
    have "idle_waiting sid p due r'"
      unfolding r'
      by (rule idle_frame [OF idle]) (use other in \<open>auto simp: cleanup_if_orphaned_def\<close>)
    then show ?thesis ..
  qed
qed

lemma idle_cleanup_loop:
  assumes "reg_wf r" and "idle_waiting sid p due r \<or> idle_done sid p r"
  shows "idle_waiting sid p due (cleanup_loop ks r) \<or> idle_done sid p (cleanup_loop ks r)"
  using assms
proof (induction ks arbitrary: r)
  case (Cons k ks)
  show ?case
  proof (cases "rg_sessions r k")
    case (Some q)
    let ?r = "upd_session q shutdown_sink (forget_session k q (stop_release_timer q r))"
    have "q < rg_next r"
      using reg_wfD(1) [OF Cons.prems(1) Some] .
    then have wf: "reg_wf ?r"
      using Cons.prems(1) by (intro wf_shutdown wf_forget wf_stop) simp_all
    have "idle_waiting sid p due ?r \<or> idle_done sid p ?r"
      using Cons.prems(2)
    proof
      assume idle: "idle_waiting sid p due r"
      then have sid: "rg_sessions r sid = Some p"
        by (simp add: idle_waiting_def)
      show ?thesis
      proof (cases "q = p")
        case True
        then have "k = sid"
          using reg_wfD(2) [OF Cons.prems(1)] Some sid by blast
        then show ?thesis
          using True by (simp add: idle_done_def)
      next
        case False
        then have "k \<noteq> sid"
          using Some sid by auto
        then have "idle_waiting sid p due ?r"
          by (intro idle_frame [OF idle]) (use False stop_other_timer [OF Cons.prems(1) False] in simp_all)
        then show ?thesis ..
      qed
    qed (simp add: idle_done_cleanup_step)
    then show ?thesis
      using Cons.IH [OF wf] Some by simp
  qed (use Cons in simp)
qed simp

lemma idle_do:
  assumes "reg_do op c = Some c'" and "reg_wf (snd c)" and "reg_live (snd c)" and "\<not> touches sid op"
    and "idle_waiting sid p due (snd c) \<or> idle_done sid p (snd c)"
  shows "idle_waiting sid p due (snd c') \<or> idle_done sid p (snd c')"
  using assms(5)
proof
  assume idle: "idle_waiting sid p due (snd c)"
  show ?thesis
  proof (cases "(op, c)" rule: reg_do.cases)
    case (4 i t r)
    then show ?thesis
      using assms(1) idle idle_fire by auto
  next
    case (5 i t r)
    then show ?thesis
      using assms(1,2) idle idle_callback [of r sid p due i] by auto
  next
    case (6 order t r)
    then show ?thesis
      using assms(1,2) idle idle_cleanup_loop [of r sid p due order] by (auto simp: cleanup_all_def)
  qed (use assms idle in \<open>auto simp: registry_ensure_def Let_def split_def idle_ensured idle_attach idle_release
      split: if_splits\<close>)
next
  assume "idle_done sid p (snd c)"
  then show ?thesis
    using idle_done_do [OF assms(1,3)] by simp
qed

text \<open>From there at most the timer has to fire and the callback to run.\<close>

lemma idle_ends:
  assumes "reg_live r" and "idle_waiting sid p due r \<or> idle_done sid p r" and "due \<le> t"
  shows "\<exists>ops r'. length ops \<le> 2 \<and> reg_run ops (t, r) = Some (t, r') \<and>
    rg_sessions r' sid \<noteq> Some p \<and> idle_done sid p r'"
proof -
  have called: "\<exists>i r'. reg_run [OpCallback i] (t, r) = Some (t, r') \<and>
      rg_sessions r' sid \<noteq> Some p \<and> idle_done sid p r'"
    if "(sid, p) \<in> set (rg_fired r)" "rg_sessions r sid = Some p" "listener_count (session_at r p) = 0" for r
  proof -
    note fired = that(1) [unfolded in_set_conv_nth]
    then obtain i where "i < length (rg_fired r)" "rg_fired r ! i = (sid, p)"
      by (elim exE conjE)
    then have "reg_run [OpCallback i] (t, r) =
        Some (t, cleanup_if_orphaned sid p (r\<lparr>rg_fired := remove_nth i (rg_fired r)\<rparr>))" (is "_ = Some (t, ?r)")
      by (simp add: registry_callback_def)
    moreover have "rg_sessions ?r sid \<noteq> Some p \<and> idle_done sid p ?r"
      using that(2,3) by (simp add: cleanup_if_orphaned_def idle_done_def)
    ultimately show ?thesis
      by blast
  qed
  from assms(2) consider
      (pending) i d where "rs_release_timer (session_at r p) = Some i" "rg_timers r i = Some (sid, p, d)" "d \<le> due"
        "rg_sessions r sid = Some p" "listener_count (session_at r p) = 0"
    | (started) "(sid, p) \<in> set (rg_fired r)" "rg_sessions r sid = Some p" "listener_count (session_at r p) = 0"
    | (finished) "idle_done sid p r"
    unfolding idle_waiting_def by (elim disjE exE conjE) metis+
  then show ?thesis
  proof cases
    case (pending i d)
    let ?r = "r\<lparr>rg_timers := (rg_timers r)(i := None), rg_fired := rg_fired r @ [(sid, p)]\<rparr>"
    have fire: "reg_do (OpFire i) (t, r) = Some (t, ?r)"
      using pending(2,3) assms(3) by (simp add: registry_fire_def)
    obtain j r' where j: "reg_run [OpCallback j] (t, ?r) = Some (t, r')" "rg_sessions r' sid \<noteq> Some p"
        "idle_done sid p r'"
      using called [of ?r] pending(4,5) by auto
    have "reg_run [OpFire i, OpCallback j] (t, r) = Some (t, r')"
      using fire j(1) by simp
    then show ?thesis
      using j(2,3) by (intro exI [of _ "[OpFire i, OpCallback j]"] exI [of _ r']) simp
  next
    case started
    then obtain j r' where "reg_run [OpCallback j] (t, r) = Some (t, r')" "rg_sessions r' sid \<noteq> Some p"
        "idle_done sid p r'"
      using called [of r] by auto
    then show ?thesis
      by (intro exI [of _ "[OpCallback j]"] exI [of _ r']) simp
  next
    case finished
    then have "rg_sessions r sid \<noteq> Some p"
      using reg_liveD(3) [OF assms(1)] by (auto simp: idle_done_def)
    then show ?thesis
      using finished by (intro exI [of _ "[]"] exI [of _ r]) simp
  qed
qed


text \<open>
  Releasing the last listener with immediate cleanup removes the session and cleans its service up,
  but does not shut its sink down: the sink of an attached session stays open, so the goroutine that
  reads it never ends. The timer's path (\<open>cleanupIfOrphaned\<close>) does shut it down.
\<close>

theorem release_cleanup_leaves_sink_open:
  assumes "registry_get sid r = Some p" and "rs_listeners (session_at r p) \<subseteq> {lid}" and "trim_space lid \<noteq> []"
  shows "registry_get sid (registry_release now sid lid True r) = None \<and>
    (trim_space sid, p) \<in> set (rg_cleaned (registry_release now sid lid True r)) \<and>
    rs_sink_closed (session_at (registry_release now sid lid True r) p) = rs_sink_closed (session_at r p) \<and>
    rs_sink_open (session_at (registry_release now sid lid True r) p) = rs_sink_open (session_at r p) \<and>
    rs_sink_closed (session_at (cleanup_if_orphaned (trim_space sid) p (registry_release now sid lid False r)) p)"
proof -
  have sid: "trim_space sid \<noteq> []" "rg_sessions r (trim_space sid) = Some p"
    using assms(1) by (auto simp: registry_get_def Let_def split: if_splits)
  have none: "rs_listeners (remove_listener lid (session_at r p)) = {}"
    and sink: "rs_sink_open (remove_listener lid s) = rs_sink_open s" for s
    using assms(2,3) by (auto simp: listeners_set_listener remove_listener_def)
  show ?thesis
    using sid none
    by (simp add: registry_get_def registry_release_eq Let_def listener_count_def sink
        cleanup_if_orphaned_def shutdown_sink_def)
qed

definition demo_registry :: registry where
  "demo_registry = snd (registry_attach ''s'' ''a'' True (new_registry 0))"

lemma demo_registry_sel:
  "rg_sessions demo_registry = [''s'' \<mapsto> 0]" "rg_timers demo_registry = Map.empty" "rg_fired demo_registry = []"
  "rg_release_after demo_registry = 15 * minute" "rs_listeners (session_at demo_registry 0) = {''a''}"
  "rs_sink_closed (session_at demo_registry 0) = False" "rs_sink_open (session_at demo_registry 0) = True"
proof -
  have "trim_space ''s'' = ''s''" "trim_space ''a'' = ''a''"
    by code_simp+
  then show "rg_sessions demo_registry = [''s'' \<mapsto> 0]" "rg_timers demo_registry = Map.empty"
      "rg_fired demo_registry = []" "rg_release_after demo_registry = 15 * minute"
      "rs_listeners (session_at demo_registry 0) = {''a''}"
      "rs_sink_closed (session_at demo_registry 0) = False" "rs_sink_open (session_at demo_registry 0) = True"
    by (simp_all add: demo_registry_def registry_attach_eq ensure_locked_def new_registry_def Let_def
        stop_release_timer_def session_at_def new_runtime_session_def set_listener_def ensure_buffered_sink_def
        upd_session_def)
qed


theorem release_cleanup_leaves_sink_open_witness:
  "rs_sink_open (session_at (registry_release 0 ''s'' ''a'' True demo_registry) 0) \<and>
   registry_get ''s'' (registry_release 0 ''s'' ''a'' True demo_registry) = None"
proof -
  have t: "trim_space ''s'' = ''s''" "trim_space ''a'' = ''a''"
    by code_simp+
  have get: "registry_get ''s'' demo_registry = Some 0"
    by (simp add: registry_get_def t demo_registry_sel)
  show ?thesis
    using release_cleanup_leaves_sink_open [OF get, of "''a''" 0] by (simp add: demo_registry_sel t)
qed

end
