(* ===== verification/SessionData.thy ===== *)
theory SessionData
  imports Protocol
begin

text \<open>
  The data a session keeps (\<open>data/store.go\<close>): diffs under review, review groups, permission rules, the
  snapshot of a controller and the projection the clients are shown. A pointer or a map that may be nil is
  an option; a named string type of the Go code is a string, since values of it also come out of JSON.
\<close>

section \<open>Diffs and reviews\<close>

record diff_context =
  dx_context_id :: string
  dx_title :: string
  dx_path :: string
  dx_diff :: string
  dx_lang :: string
  dx_pending :: bool
  dx_execution_id :: string
  dx_group_id :: string
  dx_group_title :: string
  dx_status :: string

record review_file =
  rf_context_id :: string
  rf_title :: string
  rf_path :: string
  rf_diff :: string
  rf_lang :: string
  rf_pending :: bool
  rf_execution_id :: string
  rf_status :: string

record review_group =
  rv_id :: string
  rv_title :: string
  rv_execution_id :: string
  rv_pending :: bool
  rv_status :: string
  rv_current_file_id :: string
  rv_current_path :: string
  rv_pending_count :: int
  rv_accepted_count :: int
  rv_reverted_count :: int
  rv_revised_count :: int
  rv_files :: "review_file list"

text \<open>The zero values \<open>DiffContext{}\<close> and \<open>ReviewFile{}\<close>.\<close>

definition empty_diff :: diff_context where
  "empty_diff = \<lparr>dx_context_id = [], dx_title = [], dx_path = [], dx_diff = [], dx_lang = [], dx_pending = False,
     dx_execution_id = [], dx_group_id = [], dx_group_title = [], dx_status = []\<rparr>"

definition empty_file :: review_file where
  "empty_file = \<lparr>rf_context_id = [], rf_title = [], rf_path = [], rf_diff = [], rf_lang = [], rf_pending = False,
     rf_execution_id = [], rf_status = []\<rparr>"

text \<open>
  A diff is the same change as another when it has the other's (trimmed, non-blank) context identifier or
  path: the test of \<open>upsertRecentDiffLocked\<close>, \<open>upsertSnapshotDiff\<close>, \<open>markRecentDiffPendingLocked\<close> and
  \<open>snapshotDiffMatches\<close>.
\<close>

definition diff_matches :: "string \<Rightarrow> string \<Rightarrow> diff_context \<Rightarrow> bool" where
  "diff_matches cid path d \<longleftrightarrow>
     (cid \<noteq> [] \<and> trim_space (dx_context_id d) = cid) \<or> (path \<noteq> [] \<and> trim_space (dx_path d) = path)"

definition upsert_diff :: "diff_context \<Rightarrow> diff_context list \<Rightarrow> diff_context list" where
  "upsert_diff d ds =
     upsert_first (diff_matches (trim_space (dx_context_id d)) (trim_space (dx_path d))) (\<lambda>_. d) d ds"

text \<open>\<open>pickActiveRecentDiffLocked\<close> and \<open>PickActiveSnapshotDiff\<close>: the newest pending diff, else the newest.\<close>

definition pick_active :: "diff_context list \<Rightarrow> diff_context" where
  "pick_active ds = (case find dx_pending (rev ds) of
     Some d \<Rightarrow> d
   | None \<Rightarrow> (if ds = [] then empty_diff else last ds))"

section \<open>Permission rules\<close>

record permission_rule =
  pm_id :: string
  pm_scope :: string
  pm_enabled :: bool
  pm_engine :: string
  pm_kind :: string
  pm_command_head :: string
  pm_target_path_prefix :: string
  pm_summary :: string
  pm_created_at :: time
  pm_last_matched_at :: time
  pm_match_count :: int

definition scope_session :: string where "scope_session = ''session''"
definition scope_persistent :: string where "scope_persistent = ''persistent''"
definition kind_write :: string where "kind_write = ''write''"
definition kind_shell :: string where "kind_shell = ''shell''"
definition kind_network :: string where "kind_network = ''network''"
definition kind_generic :: string where "kind_generic = ''generic''"

record permission_rule_snapshot =
  ps_enabled :: bool
  ps_items :: "permission_rule list"

section \<open>Sessions\<close>

record session_runtime =
  rt_resume_session_id :: string
  rt_command :: string
  rt_engine :: string
  rt_permission_mode :: string
  rt_cwd :: string
  rt_lifecycle :: string
  rt_source :: string

definition empty_runtime :: session_runtime where
  "empty_runtime = \<lparr>rt_resume_session_id = [], rt_command = [], rt_engine = [], rt_permission_mode = [],
     rt_cwd = [], rt_lifecycle = [], rt_source = []\<rparr>"

definition state_idle :: string where "state_idle = ''IDLE''"
definition state_thinking :: string where "state_thinking = ''THINKING''"
definition state_wait_input :: string where "state_wait_input = ''WAIT_INPUT''"
definition state_running_tool :: string where "state_running_tool = ''RUNNING_TOOL''"

lemmas state_defs = state_idle_def state_thinking_def state_wait_input_def state_running_tool_def

record controller_snapshot =
  sn_session_id :: string
  sn_state :: string
  sn_command :: string
  sn_last_step :: string
  sn_last_tool :: string
  sn_resume :: string
  sn_lifecycle :: string
  sn_last_user_input :: string
  sn_meta :: runtime_meta
  sn_diffs :: "diff_context list"
  sn_diff :: diff_context
  sn_review_groups :: "review_group list"
  sn_active_review_id :: string

definition empty_controller :: controller_snapshot where
  "empty_controller = \<lparr>sn_session_id = [], sn_state = [], sn_command = [], sn_last_step = [], sn_last_tool = [],
     sn_resume = [], sn_lifecycle = [], sn_last_user_input = [], sn_meta = empty_meta, sn_diffs = [],
     sn_diff = empty_diff, sn_review_groups = [], sn_active_review_id = []\<rparr>"

record session_summary =
  sy_id :: string
  sy_title :: string
  sy_created_at :: time
  sy_updated_at :: time
  sy_last_preview :: string
  sy_entry_count :: int
  sy_runtime :: session_runtime
  sy_source :: string
  sy_external :: bool
  sy_ownership :: string
  sy_execution_active :: bool
  sy_claude_uuid :: string
  sy_jsonl_count :: int

section \<open>Projections\<close>

record snapshot_context =
  cx_id :: string
  cx_type :: string
  cx_message :: string
  cx_status :: string
  cx_target :: string
  cx_target_path :: string
  cx_tool :: string
  cx_command :: string
  cx_timestamp :: string
  cx_title :: string
  cx_stack :: string
  cx_code :: string
  cx_related_step :: string
  cx_path :: string
  cx_diff :: string
  cx_lang :: string
  cx_pending :: bool
  cx_source :: string
  cx_skill_name :: string
  cx_execution_id :: string
  cx_group_id :: string
  cx_group_title :: string
  cx_review_status :: string

record log_entry =
  ln_kind :: string
  ln_message :: string
  ln_label :: string
  ln_timestamp :: string
  ln_stream :: string
  ln_text :: string
  ln_execution_id :: string
  ln_phase :: string
  ln_exit_code :: "int option"
  ln_context :: "snapshot_context option"

record terminal_execution =
  tx_id :: string
  tx_command :: string
  tx_cwd :: string
  tx_started_at :: string
  tx_finished_at :: string
  tx_exit_code :: "int option"
  tx_stdout :: string
  tx_stderr :: string

record session_context =
  cn_skill_names :: "string list"
  cn_memory_ids :: "string list"
  cn_configured :: bool

record catalog_metadata =
  cm_domain :: string
  cm_source_of_truth :: string
  cm_sync_state :: string
  cm_drift :: bool
  cm_last_synced_at :: time
  cm_version_token :: string
  cm_last_error :: string

record projection =
  pj_diffs :: "diff_context list"
  pj_current_diff :: "diff_context option"
  pj_review_groups :: "review_group list"
  pj_active_group :: "review_group option"
  pj_current_step :: "snapshot_context option"
  pj_latest_error :: "snapshot_context option"
  pj_log_entries :: "log_entry list"
  pj_raw_terminal :: "(string \<rightharpoonup> string) option"
  pj_executions :: "terminal_execution list"
  pj_controller :: controller_snapshot
  pj_runtime :: session_runtime
  pj_context :: session_context
  pj_context_set :: bool
  pj_rules_enabled :: bool
  pj_rules :: "permission_rule list"
  pj_skill_meta :: catalog_metadata
  pj_memory_meta :: catalog_metadata

definition empty_context :: snapshot_context where
  "empty_context = \<lparr>cx_id = [], cx_type = [], cx_message = [], cx_status = [], cx_target = [],
     cx_target_path = [], cx_tool = [], cx_command = [], cx_timestamp = [], cx_title = [], cx_stack = [],
     cx_code = [], cx_related_step = [], cx_path = [], cx_diff = [], cx_lang = [], cx_pending = False,
     cx_source = [], cx_skill_name = [], cx_execution_id = [], cx_group_id = [], cx_group_title = [],
     cx_review_status = []\<rparr>"

definition empty_session_context :: session_context where
  "empty_session_context = \<lparr>cn_skill_names = [], cn_memory_ids = [], cn_configured = False\<rparr>"

definition empty_catalog_metadata :: catalog_metadata where
  "empty_catalog_metadata = \<lparr>cm_domain = [], cm_source_of_truth = [], cm_sync_state = [], cm_drift = False,
     cm_last_synced_at = 0, cm_version_token = [], cm_last_error = []\<rparr>"

definition empty_projection :: projection where
  "empty_projection = \<lparr>pj_diffs = [], pj_current_diff = None, pj_review_groups = [], pj_active_group = None,
     pj_current_step = None, pj_latest_error = None, pj_log_entries = [], pj_raw_terminal = None,
     pj_executions = [], pj_controller = empty_controller, pj_runtime = empty_runtime,
     pj_context = empty_session_context, pj_context_set = False, pj_rules_enabled = False, pj_rules = [],
     pj_skill_meta = empty_catalog_metadata, pj_memory_meta = empty_catalog_metadata\<rparr>"

record session_record =
  rec_summary :: session_summary
  rec_projection :: projection

section \<open>Lemmas on diffs\<close>

lemma find_rev_SomeD:
  assumes "find P (rev xs) = Some x"
  shows "\<exists>us vs. xs = us @ x # vs \<and> P x \<and> (\<forall>v\<in>set vs. \<not> P v)"
proof -
  obtain i where i: "i < length (rev xs)" "P (rev xs ! i)" "x = rev xs ! i" "\<forall>j<i. \<not> P (rev xs ! j)"
    using assms by (auto simp: find_Some_iff)
  then have r: "rev xs = take i (rev xs) @ x # drop (Suc i) (rev xs)"
    by (metis id_take_nth_drop)
  have "xs = rev (drop (Suc i) (rev xs)) @ x # rev (take i (rev xs))"
    by (subst rev_rev_ident [symmetric, of xs], subst r) simp
  moreover have "\<forall>v\<in>set (rev (take i (rev xs))). \<not> P v"
    using i(1,4) by (auto simp: in_set_conv_nth)
  ultimately show ?thesis
    using i(2,3) by blast
qed

lemma pick_active_pending:
  "(\<exists>d\<in>set ds. dx_pending d) \<Longrightarrow>
   \<exists>us vs. ds = us @ pick_active ds # vs \<and> dx_pending (pick_active ds) \<and> (\<forall>v\<in>set vs. \<not> dx_pending v)"
  using find_rev_SomeD [of dx_pending ds "pick_active ds"]
  by (cases "find dx_pending (rev ds)") (auto simp: pick_active_def find_None_iff)

lemma pick_active_none:
  assumes "\<forall>d\<in>set ds. \<not> dx_pending d"
  shows "pick_active ds = (if ds = [] then empty_diff else last ds)"
proof -
  have "find dx_pending (rev ds) = None"
    using assms by (simp add: find_None_iff)
  then show ?thesis
    by (simp add: pick_active_def)
qed

lemma pick_active_pending_iff: "dx_pending (pick_active ds) \<longleftrightarrow> (\<exists>d\<in>set ds. dx_pending d)"
proof (cases "\<exists>d\<in>set ds. dx_pending d")
  case True
  then show ?thesis
    using pick_active_pending by blast
next
  case False
  then show ?thesis
    by (cases "ds = []") (auto simp: pick_active_none empty_diff_def)
qed

lemma diff_matches_self:
  "trim_space (dx_context_id d) \<noteq> [] \<or> trim_space (dx_path d) \<noteq> [] \<Longrightarrow>
   diff_matches (trim_space (dx_context_id d)) (trim_space (dx_path d)) d"
  by (simp add: diff_matches_def)

lemma upsert_diff_mem: "d \<in> set (upsert_diff d ds)"
proof -
  have "d \<in> set (upsert_first p (\<lambda>_. d) d ds)" for p
    by (induction ds) auto
  then show ?thesis
    by (simp add: upsert_diff_def)
qed

lemma upsert_diff_others:
  "e \<in> set ds \<Longrightarrow> \<not> diff_matches (trim_space (dx_context_id d)) (trim_space (dx_path d)) e \<Longrightarrow> e \<in> set (upsert_diff d ds)"
proof -
  have "e \<in> set ds \<Longrightarrow> \<not> p e \<Longrightarrow> e \<in> set (upsert_first p (\<lambda>_. d) d ds)" for p
    by (induction ds) auto
  then show "e \<in> set ds \<Longrightarrow> \<not> diff_matches (trim_space (dx_context_id d)) (trim_space (dx_path d)) e \<Longrightarrow> ?thesis"
    by (simp add: upsert_diff_def)
qed

lemma upsert_diff_subset: "set (upsert_diff d ds) \<subseteq> insert d (set ds)"
  using set_upsert_first [of _ "\<lambda>_. d" d ds] by (fastforce simp: upsert_diff_def)

end
