(* ===== verification/Commands.thy ===== *)
theory Commands
  imports SessionData
begin

text \<open>
  Reading command lines (\<open>kernel/helpers.go\<close> and the helpers of \<open>session/session.go\<close>,
  \<open>session/permission_router.go\<close>): which assistant a command starts, the flags the kernel adds to it, the
  session it resumes, and the other pure helpers of the kernel.
\<close>

section \<open>Which assistant a command starts\<close>

abbreviation backslash :: char where
  "backslash \<equiv> CHR 0x5C"

text \<open>
  The four tests made for each assistant. The Go sources write the third suffix as a raw string with two
  backslashes, which stands for two backslashes.
\<close>

definition head_is :: "string \<Rightarrow> string \<Rightarrow> bool" where
  "head_is name head \<longleftrightarrow> head = name \<or> has_suffix head (CHR ''/'' # name) \<or>
     has_suffix head (backslash # backslash # name) \<or> head = name @ ''.exe''"

definition command_head :: "string \<Rightarrow> string" where
  "command_head command = (case GoStrings.fields (trim_space command) of
     [] \<Rightarrow> [] | f # _ \<Rightarrow> to_lower (trim_space f))"

definition is_claude_command :: "string \<Rightarrow> bool" where
  "is_claude_command command = (case GoStrings.fields (trim_space command) of
     [] \<Rightarrow> False
   | f # _ \<Rightarrow> let head = to_lower f in head_is ''claude'' head \<or> head_is ''codex'' head)"

definition is_ai_command :: "string \<Rightarrow> bool" where
  "is_ai_command command = (case GoStrings.fields (trim_space command) of
     [] \<Rightarrow> False
   | f # _ \<Rightarrow> let head = to_lower f
       in head_is ''claude'' head \<or> head_is ''gemini'' head \<or> head_is ''codex'' head)"

definition is_claude_command_like :: "string \<Rightarrow> bool" where
  "is_claude_command_like command = (case GoStrings.fields (trim_space command) of
     [] \<Rightarrow> False | f # _ \<Rightarrow> head_is ''claude'' (to_lower (trim_space f)))"

definition is_claude_command_head :: "string \<Rightarrow> bool" where
  "is_claude_command_head command = head_is ''claude'' (command_head command)"

definition is_codex_command_head :: "string \<Rightarrow> bool" where
  "is_codex_command_head command = head_is ''codex'' (command_head command)"

definition is_ai_session_command_like :: "string \<Rightarrow> bool" where
  "is_ai_session_command_like command =
     (let head = command_head command in
      head_is ''claude'' head \<or> head_is ''codex'' head \<or> head_is ''gemini'' head)"

definition is_codex_runtime :: "session_runtime \<Rightarrow> bool" where
  "is_codex_runtime r \<longleftrightarrow> equal_fold (trim_space (rt_engine r)) ''codex'' \<or>
     is_codex_command_head (trim_space (rt_command r))"

definition is_claude_runtime :: "session_runtime \<Rightarrow> bool" where
  "is_claude_runtime r \<longleftrightarrow> equal_fold (trim_space (rt_engine r)) ''claude'' \<or>
     is_claude_command_head (trim_space (rt_command r))"

definition contains_any_of :: "string \<Rightarrow> string \<Rightarrow> bool" where
  "contains_any_of s chars \<longleftrightarrow> list_ex (\<lambda>c. c \<in> set chars) s"

definition should_treat_input_as_ai_command :: "string \<Rightarrow> bool" where
  "should_treat_input_as_ai_command data =
     (let trimmed = trim_space (to_lower data) in
      if trimmed = [] \<or> contains_any_of trimmed [CHR '' '', CHR 0x0A, CHR 0x09] then False
      else is_ai_session_command_like trimmed)"

section \<open>Building commands\<close>

definition shell_special :: string where
  "shell_special = [CHR '' '', CHR 0x09, CHR 0x0A, CHR 0x22, CHR 0x27, CHR ''$'', CHR 0x60, backslash] @
     ''|&;<>(){}[]#*?!~''"

fun replace_char :: "char \<Rightarrow> string \<Rightarrow> string \<Rightarrow> string" where
  "replace_char c r [] = []"
| "replace_char c r (x # xs) = (if x = c then r else [x]) @ replace_char c r xs"

definition shell_quote :: "string \<Rightarrow> string" where
  "shell_quote value =
     (if contains_any_of value shell_special
      then [CHR 0x22] @ replace_char (CHR 0x22) [backslash, CHR 0x22] value @ [CHR 0x22]
      else value)"

definition command_has_flag :: "string list \<Rightarrow> string list \<Rightarrow> bool" where
  "command_has_flag fs flags \<longleftrightarrow> list_ex (\<lambda>f. list_ex (\<lambda>flag. to_lower f = to_lower flag) flags) fs"

fun command_has_codex_reasoning_effort :: "string list \<Rightarrow> bool" where
  "command_has_codex_reasoning_effort (f # g # fs) =
     ((to_lower f = ''--config'' \<and> has_prefix (to_lower g) ''model_reasoning_effort='') \<or>
      command_has_codex_reasoning_effort (g # fs))"
| "command_has_codex_reasoning_effort _ = False"

fun default_ai_command_from_engine :: "string list \<Rightarrow> string" where
  "default_ai_command_from_engine [] = ''claude''"
| "default_ai_command_from_engine (v # vs) =
     (let e = trim_space (to_lower v) in
      if e = ''codex'' then ''codex'' else if e = ''gemini'' then ''gemini'' else if e = ''claude'' then ''claude''
      else default_ai_command_from_engine vs)"

definition apply_ai_command_preferences :: "string \<Rightarrow> string \<Rightarrow> string \<Rightarrow> string \<Rightarrow> string" where
  "apply_ai_command_preferences command engine model effort =
     (let command = trim_space command;
          command = (if command = [] then default_ai_command_from_engine [engine] else command);
          is_codex = is_codex_command_head command;
          fs = GoStrings.fields command;
          add_model = (model \<noteq> [] \<and> \<not> command_has_flag fs [''-m'', ''--model'']);
          command = (if add_model then command @ '' --model '' @ shell_quote model else command);
          fs = (if add_model then GoStrings.fields command else fs)
      in if (engine = ''codex'' \<or> is_codex) \<and> effort \<noteq> [] \<and> \<not> command_has_codex_reasoning_effort fs
         then command @ '' --config model_reasoning_effort='' @ shell_quote effort
         else command)"

definition should_inject_enabled_skills_for_input :: "string \<Rightarrow> string list \<Rightarrow> bool" where
  "should_inject_enabled_skills_for_input command engines \<longleftrightarrow>
     is_ai_session_command_like command \<or>
     list_ex (\<lambda>e. trim_space (to_lower e) \<in> {''claude'', ''codex'', ''gemini''}) engines"

fun extract_resume_from :: "string list \<Rightarrow> string option" where
  "extract_resume_from (f # g # fs) = (if f = ''--resume'' then Some g else extract_resume_from (g # fs))"
| "extract_resume_from _ = None"

definition extract_resume_session_id :: "string \<Rightarrow> string \<Rightarrow> string" where
  "extract_resume_session_id command fallback =
     (case extract_resume_from (GoStrings.fields (trim_space command)) of Some r \<Rightarrow> r | None \<Rightarrow> fallback)"

section \<open>The gateway's versions\<close>

text \<open>
  \<open>gateway/gateway.go\<close> has helpers of the same names that differ: a flag is compared as it is written, with
  an optional value after an equals sign, and values are put between single quotes.
\<close>

definition gw_command_has_flag :: "string list \<Rightarrow> string list \<Rightarrow> bool" where
  "gw_command_has_flag fs flags \<longleftrightarrow> list_ex (\<lambda>f. list_ex (\<lambda>flag. f = flag \<or> has_prefix f (flag @ ''='')) flags) fs"

definition gw_command_has_codex_reasoning_effort :: "string list \<Rightarrow> bool" where
  "gw_command_has_codex_reasoning_effort fs \<longleftrightarrow>
     list_ex (\<lambda>f. str_contains (to_lower f) ''model_reasoning_effort='') fs"

abbreviation quote :: char where
  "quote \<equiv> CHR 0x27"

definition gw_shell_special :: string where
  "gw_shell_special = [CHR '' '', CHR 0x09, CHR 0x0A, quote, CHR 0x22, backslash, CHR ''$'', CHR 0x60] @
     ''!#&;|<>*?()[]{}''"

definition gw_shell_quote :: "string \<Rightarrow> string" where
  "gw_shell_quote value =
     (let trimmed = trim_space value in
      if trimmed = [] then [quote, quote]
      else if \<not> contains_any_of trimmed gw_shell_special then trimmed
      else [quote] @ replace_char quote [quote, backslash, quote, quote] trimmed @ [quote])"

definition gw_apply_ai_command_preferences :: "string \<Rightarrow> string \<Rightarrow> string \<Rightarrow> string \<Rightarrow> string" where
  "gw_apply_ai_command_preferences command engine model effort =
     (let trimmed = trim_space command;
          trimmed = (if trimmed = [] then default_ai_command_from_engine [engine] else trimmed);
          normalized = trim_space (to_lower (first_non_empty_string [engine, command_head trimmed]));
          fs = GoStrings.fields trimmed;
          lower = to_lower trimmed;
          model = trim_space model
      in if normalized = ''claude''
         then (if model = [] \<or> equal_fold model ''default'' \<or> str_contains lower '' --model '' \<or>
                 str_contains lower '' -m ''
               then trimmed else trimmed @ '' --model '' @ gw_shell_quote model)
         else if normalized = ''codex''
         then (let parts = (if model \<noteq> [] \<and> \<not> gw_command_has_flag fs [''-m'', ''--model'']
                  then fs @ [''-m'', model] else fs);
                effort = trim_space (to_lower effort);
                parts = (if effort \<noteq> [] \<and> \<not> gw_command_has_codex_reasoning_effort parts
                  then parts @ [''--config'', ''model_reasoning_effort='' @ effort] else parts)
            in join '' '' parts)
         else trimmed)"

section \<open>Lemmas\<close>

lemma no_space_suffix: "no_space (u @ v) \<Longrightarrow> no_space v"
  by (induction u) auto

lemma no_space_snoc_rspace:
  assumes "no_space w"
  shows "rspace_len (rev w) = 0"
proof -
  have two: "space_len [b, a] = 0" if "w = u @ [b, a]" for u a b
    using no_space_suffix [of u "[b, a]"] assms that by simp
  have three: "space_len [c, b, a] = 0" if "w = u @ [c, b, a]" for u a b c
    using no_space_suffix [of u "[c, b, a]"] assms that by simp
  have one: "space_len [a] = 0" if "w = u @ [a]" for u a
    using no_space_suffix [of u "[a]"] assms that by simp
  show ?thesis
  proof (cases "rev w" rule: rspace_len.cases)
    case 1
    then show ?thesis by simp
  next
    case (2 a)
    then have "w = [] @ [a]"
      by (metis append_Nil rev_rev_ident rev_singleton_conv)
    from one [OF this] show ?thesis
      by (simp add: 2 split: if_splits)
  next
    case (3 b a)
    then have "w = [] @ [a, b]" "w = [a] @ [b]"
      by (metis append_Cons append_Nil rev.simps(2) rev_rev_ident rev_singleton_conv)+
    from two [OF this(1)] one [OF this(2)] show ?thesis
      by (simp add: 3 split: if_splits)
  next
    case (4 c b a s)
    then have "w = rev s @ [a, b, c]"
      by (metis append.assoc append_Cons append_Nil rev.simps(2) rev_rev_ident)
    then have "w = rev s @ [a, b, c]" "w = (rev s @ [a]) @ [b, c]" "w = (rev s @ [a, b]) @ [c]"
      by simp_all
    from three [OF this(1)] two [OF this(2)] one [OF this(3)] show ?thesis
      by (simp add: 4 split: if_splits)
  qed
qed

lemma no_space_trim: "no_space w \<Longrightarrow> trim_space w = w"
proof -
  assume w: "no_space w"
  then have "trim_left w = w"
    by (intro trim_left_id) (cases w; simp)
  moreover have "trim_right w = w"
    using no_space_snoc_rspace [OF w] by (simp add: trim_right_def trim_rev_id)
  ultimately show ?thesis
    by (simp add: trim_space_def)
qed

lemma no_space_prefix: "no_space (u @ v) \<Longrightarrow> no_space u"
proof (induction u)
  case (Cons c u)
  then have "space_len (c # u @ v) = 0"
    by simp
  then have "space_len (c # u) = 0"
    by (rule space_len_append) simp
  then show ?case
    using Cons by simp
qed simp

text \<open>The words of \<open>strings.Fields\<close> have no white space.\<close>

lemma no_spaceI:
  "(\<And>u x y. w = u @ x # y \<Longrightarrow> space_len (x # y) = 0) \<Longrightarrow> no_space w"
proof (induction w)
  case (Cons c w)
  have "space_len (c # w) = 0"
    using Cons.prems [of "[]" c w] by simp
  moreover have "no_space w"
    using Cons.prems by (intro Cons.IH) (metis append_Cons)
  ultimately show ?case
    by simp
qed simp

lemma fields_from_no_space:
  assumes "\<And>u x y. rev cur = u @ x # y \<Longrightarrow> space_len (x # y @ s) = 0" and "w \<in> set (fields_from cur s)"
  shows "no_space w"
  using assms
proof (induction cur s rule: fields_from.induct)
  case (1 cur)
  then show ?case
    by (auto split: if_splits intro!: no_spaceI)
next
  case (2 cur c s)
  have word: "no_space (rev cur)"
  proof (rule no_spaceI)
    fix u x y
    assume "rev cur = u @ x # y"
    from 2(3) [OF this] show "space_len (x # y) = 0"
      by (rule space_len_append) simp
  qed
  show ?case
  proof (cases "space_len (c # s) = 0")
    case True
    have "space_len (x # y @ s) = 0" if "rev (c # cur) = u @ x # y" for u x y
    proof (cases y rule: rev_cases)
      case Nil
      then show ?thesis
        using that True by simp
    next
      case (snoc y' d)
      then have "rev cur = u @ x # y'" "d = c"
        using that by simp_all
      then show ?thesis
        using 2(3) snoc by simp
    qed
    moreover have "w \<in> set (fields_from (c # cur) s)"
      using 2(4) True by simp
    ultimately show ?thesis
      by (rule 2(1) [OF True])
  next
    case False
    then consider "w = rev cur" | "w \<in> set (fields_from [] (drop (space_len (c # s)) (c # s)))"
      using 2(4) by (auto split: if_splits)
    then show ?thesis
    proof cases
      case 1
      then show ?thesis
        using word by simp
    next
      case 2
      then show ?thesis
        by (intro "2.IH"(2) [OF False]) simp_all
    qed
  qed
qed

lemma fields_no_space: "w \<in> set (GoStrings.fields s) \<Longrightarrow> no_space w"
  unfolding GoStrings.fields_def by (rule fields_from_no_space) simp_all

lemma trim_field: "GoStrings.fields s = w # ws \<Longrightarrow> trim_space w = w"
  using fields_no_space [of w s] no_space_trim by simp

lemma command_head_field: "GoStrings.fields (trim_space c) = f # fs \<Longrightarrow> command_head c = to_lower f"
  using trim_field by (simp add: command_head_def)

lemma head_is_Nil [simp]: "head_is (x # name) [] = False"
  by (simp add: head_is_def has_suffix_def)

section \<open>Properties\<close>

text \<open>
  The five copies of the test agree: the session package and the kernel recognise the same commands as
  commands of an assistant, and the narrower tests split them by assistant.
\<close>

theorem ai_command_tests_agree:
  "is_ai_session_command_like c = is_ai_command c \<and>
   is_claude_command c = (is_claude_command_head c \<or> is_codex_command_head c) \<and>
   is_claude_command_like c = is_claude_command_head c \<and>
   is_ai_command c = (is_claude_command c \<or> head_is ''gemini'' (command_head c))"
proof (cases "GoStrings.fields (trim_space c)")
  case Nil
  then show ?thesis
    by (simp add: is_ai_command_def is_ai_session_command_like_def is_claude_command_def is_claude_command_like_def
        is_claude_command_head_def is_codex_command_head_def command_head_def)
next
  case (Cons f fs)
  then have "command_head c = to_lower f" "trim_space f = f"
    by (simp_all add: command_head_field trim_field)
  then show ?thesis
    using Cons
    by (auto simp: is_ai_command_def is_ai_session_command_like_def is_claude_command_def is_claude_command_like_def
        is_claude_command_head_def is_codex_command_head_def Let_def)
qed

lemma byte_backslash [simp]: "byte backslash = 92"
  by (simp add: byte_def)

lemma lower_backslash [simp]: "lower_char backslash = backslash"
  by (simp add: lower_char_def)

lemma lower_is_backslash: "lower_char c = backslash \<Longrightarrow> c = backslash"
  by (cases "65 \<le> byte c \<and> byte c \<le> 90") (auto simp: lower_char_def byte_def dest: arg_cong [of _ _ "of_char :: char \<Rightarrow> nat"])

lemma has_suffix_tail: "length w \<le> length t \<Longrightarrow> has_suffix (q @ t) w = has_suffix t w"
  by (auto simp: has_suffix_def)

text \<open>
  An assistant started by a Windows path is not recognised. The suffix test for such paths is written as
  a raw string with two backslashes, so a path with a single backslash before \<open>claude\<close> fails it.
\<close>

theorem windows_path_not_recognised:
  assumes "\<forall>c\<in>set p. printable c" and "p \<noteq> []" and "last p \<noteq> backslash"
  shows "\<not> is_ai_command (p @ backslash # ''claude'')"
proof -
  let ?c = "p @ backslash # ''claude''"
  have "no_space (backslash # ''claude'')"
    by code_simp
  then have ns: "no_space ?c"
    by (rule no_space_printable [OF assms(1)])
  then have f: "GoStrings.fields (trim_space ?c) = [?c]"
    by (simp add: no_space_trim)
  obtain q d where q: "to_lower p = q @ [d]" "d \<noteq> backslash"
  proof -
    have "to_lower p = to_lower (butlast p) @ [lower_char (last p)]"
      using assms(2) by (metis append_butlast_last_id list.simps(8) list.simps(9) map_append to_lower_def)
    moreover have "lower_char (last p) \<noteq> backslash"
      using lower_is_backslash assms(3) by blast
    ultimately show thesis
      by (rule that)
  qed
  have low: "to_lower ''claude'' = ''claude''"
    by code_simp
  have head: "to_lower ?c = q @ [d, backslash] @ ''claude''"
    using q(1) low by (simp add: to_lower_def)
  have claude: "\<not> head_is ''claude'' (to_lower ?c)"
    unfolding head head_is_def using q(2)
    by (auto simp: has_suffix_tail has_suffix_def dest: arg_cong [of _ _ rev] arg_cong [of _ _ length])
  have gemini: "\<not> head_is ''gemini'' (to_lower ?c)"
    unfolding head head_is_def
    by (auto simp: has_suffix_tail has_suffix_def dest: arg_cong [of _ _ rev])
  have "\<not> head_is ''codex'' (to_lower ?c)"
    unfolding head head_is_def
    by (auto simp: has_suffix_tail has_suffix_def dest: arg_cong [of _ _ rev])
  note claude gemini this
  then show ?thesis
    using f by (simp add: is_ai_command_def Let_def)
qed

theorem windows_path_not_recognised_witness:
  "\<not> is_ai_command (''C:'' @ backslash # ''bin'' @ backslash # ''claude'') \<and> is_ai_command ''/bin/claude''"
proof -
  have "\<not> is_ai_command ((''C:'' @ backslash # ''bin'') @ backslash # ''claude'')"
    by (rule windows_path_not_recognised) (simp_all add: printable_def byte_def)
  moreover have "is_ai_command ''/bin/claude''"
    by code_simp
  ultimately show ?thesis
    by simp
qed

section \<open>Quoting\<close>

text \<open>
  How a POSIX shell reads one word: what the quotes and backslashes of it stand for, and no value when
  the word holds an unquoted special character or an expansion.
\<close>

datatype sh_mode = Plain | Single | Double

definition sh_special :: string where
  "sh_special = gw_shell_special @ ''~''"

fun sh_read :: "sh_mode \<Rightarrow> string \<Rightarrow> string option" where
  "sh_read Plain [] = Some []"
| "sh_read Single [] = None"
| "sh_read Double [] = None"
| "sh_read Single (c # s) = (if c = quote then sh_read Plain s else map_option (Cons c) (sh_read Single s))"
| "sh_read Double [c] = (if c = CHR 0x22 then Some [] else None)"
| "sh_read Double (c # d # s) =
     (if c = CHR 0x22 then sh_read Plain (d # s)
      else if c = backslash
      then (if d \<in> {CHR ''$'', CHR 0x60, CHR 0x22, backslash} then map_option (Cons d) (sh_read Double s)
            else if d = CHR 0x0A then sh_read Double s
            else map_option (Cons c) (sh_read Double (d # s)))
      else if c \<in> {CHR ''$'', CHR 0x60} then None
      else map_option (Cons c) (sh_read Double (d # s)))"
| "sh_read Plain [c] = (if c \<in> set sh_special then None else Some [c])"
| "sh_read Plain (c # d # s) =
     (if c = quote then sh_read Single (d # s)
      else if c = CHR 0x22 then sh_read Double (d # s)
      else if c = backslash then map_option (Cons d) (sh_read Plain s)
      else if c \<in> set sh_special then None
      else map_option (Cons c) (sh_read Plain (d # s)))"

lemma sh_special_quotes: "quote \<in> set sh_special" "CHR 0x22 \<in> set sh_special" "backslash \<in> set sh_special"
  by (simp_all add: sh_special_def gw_shell_special_def)

lemma sh_read_plain: "(\<forall>c\<in>set s. c \<notin> set sh_special) \<Longrightarrow> sh_read Plain s = Some s"
proof (induction s rule: induct_list012)
  case (3 c d s)
  then show ?case
    using sh_special_quotes by auto
qed auto

lemma sh_read_single: "sh_read Single (replace_char quote [quote, backslash, quote, quote] s @ [quote]) = Some s"
proof (induction s)
  case Nil
  show ?case
    by simp
next
  case (Cons c s)
  show ?case
  proof (cases "c = quote")
    case False
    then show ?thesis
      using Cons by simp
  next
    case True
    obtain d u where u: "replace_char quote [quote, backslash, quote, quote] s @ [quote] = d # u"
      by (cases "replace_char quote [quote, backslash, quote, quote] s @ [quote]") auto
    then have "sh_read Plain (quote # d # u) = Some s"
      using Cons by simp
    then show ?thesis
      using True u by simp
  qed
qed

lemma set_trim_left: "set (trim_left s) \<subseteq> set s"
proof (induction s rule: trim_left.induct)
  case (1 s)
  then show ?case
    by (subst trim_left.simps) (auto dest: in_set_dropD)
qed

lemma set_trim_space: "set (trim_space s) \<subseteq> set s"
  using set_trim_left [of s] set_mono_prefix [OF prefix_trim_right [of "trim_left s"]]
  by (auto simp: trim_space_def)

text \<open>
  The gateway's quoting is exact: a shell reads the quoted text as the trimmed value, whatever quotes,
  blanks, expansions or control operators it holds, as long as it has no tilde, which the list of special
  characters leaves out.
\<close>

theorem gw_shell_quote_reads_back:
  assumes "CHR ''~'' \<notin> set value"
  shows "sh_read Plain (gw_shell_quote value) = Some (trim_space value)"
proof -
  have sub: "set (trim_space value) \<subseteq> set value"
    by (rule set_trim_space)
  consider "trim_space value = []"
    | "trim_space value \<noteq> []" "contains_any_of (trim_space value) gw_shell_special"
    | "trim_space value \<noteq> []" "\<not> contains_any_of (trim_space value) gw_shell_special"
    by blast
  then show ?thesis
  proof cases
    case 1
    then show ?thesis
      by (simp add: gw_shell_quote_def)
  next
    case 2
    obtain d u where u: "replace_char quote [quote, backslash, quote, quote] (trim_space value) @ [quote] = d # u"
      by (cases "replace_char quote [quote, backslash, quote, quote] (trim_space value) @ [quote]") auto
    have "gw_shell_quote value = quote # d # u"
      using 2 u by (simp add: gw_shell_quote_def)
    then show ?thesis
      using sh_read_single [of "trim_space value"] u by simp
  next
    case 3
    then have "\<forall>c\<in>set (trim_space value). c \<notin> set sh_special"
      using assms sub by (auto simp: contains_any_of_def list_ex_iff sh_special_def)
    with 3 show ?thesis
      by (simp add: gw_shell_quote_def sh_read_plain)
  qed
qed

theorem gw_shell_quote_reads_back_witness:
  "sh_read Plain (gw_shell_quote (''$(rm x) '' @ [quote, CHR ''y''])) = Some (''$(rm x) '' @ [quote, CHR ''y''])"
proof -
  have "trim_space (''$(rm x) '' @ [quote, CHR ''y'']) = ''$(rm x) '' @ [quote, CHR ''y'']"
    by code_simp
  then show ?thesis
    using gw_shell_quote_reads_back [of "''$(rm x) '' @ [quote, CHR ''y'']"] by simp
qed

lemma sh_read_double:
  "backslash \<notin> set s \<Longrightarrow> CHR ''$'' \<in> set s \<or> CHR 0x60 \<in> set s \<Longrightarrow>
   sh_read Double (replace_char (CHR 0x22) [backslash, CHR 0x22] s @ [CHR 0x22]) = None"
proof (induction s)
  case (Cons c s)
  obtain d u where u: "replace_char (CHR 0x22) [backslash, CHR 0x22] s @ [CHR 0x22] = d # u"
    by (cases "replace_char (CHR 0x22) [backslash, CHR 0x22] s @ [CHR 0x22]") auto
  show ?case
  proof (cases "c = CHR ''$'' \<or> c = CHR 0x60")
    case True
    then show ?thesis
      using u by auto
  next
    case False
    then have "sh_read Double (d # u) = None"
      using Cons u by auto
    then show ?thesis
      using u False Cons.prems(1) by auto
  qed
qed simp

text \<open>
  The kernel's quoting is not: it puts the value between double quotes and escapes only double
  quotes, so a dollar sign or a backquote of the value still starts an expansion.
\<close>

theorem kernel_shell_quote_expands:
  assumes "backslash \<notin> set value" and "CHR ''$'' \<in> set value \<or> CHR 0x60 \<in> set value"
  shows "sh_read Plain (shell_quote value) = None"
proof -
  have "contains_any_of value shell_special"
    using assms(2) by (auto simp: contains_any_of_def list_ex_iff shell_special_def)
  moreover obtain d u where u: "replace_char (CHR 0x22) [backslash, CHR 0x22] value @ [CHR 0x22] = d # u"
    by (cases "replace_char (CHR 0x22) [backslash, CHR 0x22] value @ [CHR 0x22]") auto
  ultimately show ?thesis
    using sh_read_double [OF assms] by (simp add: shell_quote_def)
qed

theorem kernel_shell_quote_expands_witness:
  "sh_read Plain (shell_quote ''$(rm x)'') = None \<and> sh_read Plain (shell_quote ''rm x'') = Some ''rm x''"
proof -
  have "sh_read Plain (shell_quote ''rm x'') = Some ''rm x''"
    by code_simp
  then show ?thesis
    using kernel_shell_quote_expands [of "''$(rm x)''"] by simp
qed

end
