(* ===== verification/SessionList.thy ===== *)
theory SessionList
  imports Commands
begin

text \<open>
  The list of sessions a client is shown (\<open>gateway/gateway.go\<close>: \<open>mergeSessionSummaries\<close> and its helpers,
  \<open>kernel/helpers.go\<close>: the kernel's copy of some of them, \<open>data/codexsync\<close> and \<open>data/claudesync\<close>: the
  identifiers of mirrored sessions). The store is a function from identifiers to records, the file system's
  view of a directory is a function on paths, and the threads found on the machine are given with the records
  built from them.
\<close>

section \<open>The kernel\<close>

definition is_external_codex_summary :: "session_summary \<Rightarrow> bool" where
  "is_external_codex_summary item \<longleftrightarrow> sy_external item \<and> equal_fold (trim_space (rt_engine (sy_runtime item))) ''codex''"

definition summary_codex_thread_id :: "session_summary \<Rightarrow> string" where
  "summary_codex_thread_id item = trim_space (rt_resume_session_id (sy_runtime item))"

definition is_external_claude_summary :: "session_summary \<Rightarrow> bool" where
  "is_external_claude_summary item \<longleftrightarrow> sy_external item \<and> is_claude_runtime (sy_runtime item)"

definition summary_claude_session_id :: "session_summary \<Rightarrow> string" where
  "summary_claude_session_id item = trim_space (sy_claude_uuid item)"

definition filter_store_sessions_by_cwd :: "session_summary list \<Rightarrow> string \<Rightarrow> session_summary list" where
  "filter_store_sessions_by_cwd items cwd =
     (if trim_space cwd = [] then items
      else let kept = filter (\<lambda>item. has_prefix (trim_space (rt_cwd (sy_runtime item))) cwd \<or>
                has_prefix (trim_space (rt_cwd (sy_runtime item))) (cwd @ ''/'')) items
           in if kept = [] then items else kept)"

definition prefer_codex_thread_summary :: "session_summary \<Rightarrow> session_summary \<Rightarrow> session_summary" where
  "prefer_codex_thread_summary current candidate =
     (if sy_updated_at current < sy_updated_at candidate then candidate
      else if sy_updated_at candidate = sy_updated_at current \<and> sy_entry_count current < sy_entry_count candidate
      then candidate
      else current)"

definition codex_thread :: "session_summary \<Rightarrow> bool" where
  "codex_thread item \<longleftrightarrow> is_external_codex_summary item \<and> summary_codex_thread_id item \<noteq> []"

definition thread_key :: "session_summary \<Rightarrow> string \<times> string" where
  "thread_key item = (summary_codex_thread_id item, trim_space (rt_cwd (sy_runtime item)))"

text \<open>The two loops of \<open>dedupeCodexThreadSummaries\<close>: the best summary of each thread, and the list without repetitions.\<close>

fun best_summaries :: "session_summary list \<Rightarrow> (string \<times> string \<rightharpoonup> session_summary) \<Rightarrow> string \<times> string \<rightharpoonup> session_summary" where
  "best_summaries [] seen = seen"
| "best_summaries (item # items) seen =
     (if \<not> codex_thread item then best_summaries items seen
      else best_summaries items (seen(thread_key item \<mapsto>
        (case seen (thread_key item) of
           Some existing \<Rightarrow> prefer_codex_thread_summary existing item | None \<Rightarrow> item))))"

fun emit_summaries :: "session_summary list \<Rightarrow> (string \<times> string \<rightharpoonup> session_summary) \<Rightarrow> session_summary list" where
  "emit_summaries [] seen = []"
| "emit_summaries (item # items) seen =
     (if codex_thread item
      then (case seen (thread_key item) of
          Some best \<Rightarrow> best # emit_summaries items (seen(thread_key item := None))
        | None \<Rightarrow> item # emit_summaries items seen)
      else item # emit_summaries items seen)"

definition dedupe_codex_thread_summaries :: "session_summary list \<Rightarrow> session_summary list" where
  "dedupe_codex_thread_summaries items = emit_summaries items (best_summaries items Map.empty)"

section \<open>Mirrored sessions\<close>

definition codex_mirror_prefix :: string where "codex_mirror_prefix = ''codex-thread:''"
definition claude_mirror_prefix :: string where "claude_mirror_prefix = ''claude-session:''"

definition codex_mirror_session_id :: "string \<Rightarrow> string" where
  "codex_mirror_session_id tid = codex_mirror_prefix @ trim_space tid"

definition codex_is_mirror :: "string \<Rightarrow> bool" where
  "codex_is_mirror sid = has_prefix (trim_space sid) codex_mirror_prefix"

definition codex_thread_from_mirror :: "string \<Rightarrow> string" where
  "codex_thread_from_mirror sid = trim_prefix (trim_space sid) codex_mirror_prefix"

definition claude_mirror_session_id :: "string \<Rightarrow> string" where
  "claude_mirror_session_id sid = claude_mirror_prefix @ trim_space sid"

definition claude_is_mirror :: "string \<Rightarrow> bool" where
  "claude_is_mirror sid = has_prefix (trim_space sid) claude_mirror_prefix"

definition claude_session_from_mirror :: "string \<Rightarrow> string" where
  "claude_session_from_mirror sid = trim_prefix (trim_space sid) claude_mirror_prefix"

section \<open>The gateway\<close>

text \<open>Here the test for Windows paths has a single backslash.\<close>

definition gw_head_is :: "string \<Rightarrow> string \<Rightarrow> bool" where
  "gw_head_is name head \<longleftrightarrow> head = name \<or> has_suffix head (CHR ''/'' # name) \<or>
     has_suffix head (backslash # name) \<or> head = name @ ''.exe''"

definition gw_command_head :: "string \<Rightarrow> string" where
  "gw_command_head command = (case GoStrings.fields (trim_space command) of [] \<Rightarrow> [] | f # _ \<Rightarrow> f)"

definition gw_is_codex_runtime :: "session_runtime \<Rightarrow> bool" where
  "gw_is_codex_runtime r \<longleftrightarrow> equal_fold (trim_space (rt_source r)) ''codex-native'' \<or>
     equal_fold (trim_space (rt_engine r)) ''codex'' \<or>
     gw_head_is ''codex'' (to_lower (trim_space (gw_command_head (rt_command r))))"

definition gw_is_claude_runtime :: "session_runtime \<Rightarrow> bool" where
  "gw_is_claude_runtime r \<longleftrightarrow> equal_fold (trim_space (rt_source r)) ''claude-native'' \<or>
     equal_fold (trim_space (rt_engine r)) ''claude'' \<or>
     gw_head_is ''claude'' (to_lower (trim_space (gw_command_head (rt_command r))))"

definition gw_is_external_codex :: "session_summary \<Rightarrow> bool" where
  "gw_is_external_codex item \<longleftrightarrow> sy_external item \<or> equal_fold (trim_space (sy_source item)) ''codex-native''"

definition gw_codex_thread_id :: "session_summary \<Rightarrow> string" where
  "gw_codex_thread_id item =
     (let resume = trim_space (rt_resume_session_id (sy_runtime item)) in
      if resume \<noteq> [] then resume
      else if gw_is_external_codex item then codex_thread_from_mirror (sy_id item) else [])"

definition gw_is_external_claude :: "session_summary \<Rightarrow> bool" where
  "gw_is_external_claude item \<longleftrightarrow>
     (sy_external item \<and> equal_fold (trim_space (sy_source item)) ''claude-native'') \<or>
     equal_fold (trim_space (sy_source item)) ''claude-native'' \<or> claude_is_mirror (sy_id item)"

definition gw_claude_session_id :: "session_summary \<Rightarrow> string" where
  "gw_claude_session_id item =
     (if claude_is_mirror (sy_id item) then claude_session_from_mirror (sy_id item)
      else if gw_is_claude_runtime (sy_runtime item) then trim_space (rt_resume_session_id (sy_runtime item))
      else [])"

definition gw_prefer :: "session_summary \<Rightarrow> session_summary \<Rightarrow> session_summary" where
  "gw_prefer current candidate =
     (if gw_is_external_codex current \<noteq> gw_is_external_codex candidate
      then (if gw_is_external_codex current then candidate else current)
      else if sy_updated_at current < sy_updated_at candidate then candidate
      else if sy_updated_at candidate = sy_updated_at current \<and> sy_created_at current < sy_created_at candidate
      then candidate
      else current)"

definition dedupe_key :: "session_summary \<Rightarrow> string" where
  "dedupe_key item =
     (if gw_codex_thread_id item \<noteq> [] \<and> gw_is_codex_runtime (sy_runtime item)
      then ''codex-thread:'' @ gw_codex_thread_id item else sy_id item)"

text \<open>The loop over the items: the summary selected for each key, and the keys in the order of their first item.\<close>

fun select_loop ::
  "session_summary list \<Rightarrow> (string \<rightharpoonup> session_summary) \<Rightarrow> string list \<Rightarrow> (string \<rightharpoonup> session_summary) \<times> string list" where
  "select_loop [] selected order = (selected, order)"
| "select_loop (item # items) selected order = (case selected (dedupe_key item) of
     Some existing \<Rightarrow> select_loop items (selected(dedupe_key item \<mapsto> gw_prefer existing item)) order
   | None \<Rightarrow> select_loop items (selected(dedupe_key item \<mapsto> item)) (order @ [dedupe_key item]))"

text \<open>\<open>sort.Slice\<close> is not stable: \<open>mix\<close> permutes the slice before a stable sort.\<close>

definition gw_dedupe :: "(session_summary list \<Rightarrow> session_summary list) \<Rightarrow> session_summary list \<Rightarrow> session_summary list" where
  "gw_dedupe mix items =
     (if length items \<le> 1 then items
      else case select_loop items Map.empty [] of (selected, order) \<Rightarrow>
        sort_key (\<lambda>i. - sy_updated_at i) (mix (values_in selected order)))"

definition gw_filter_by_cwd :: "(string \<Rightarrow> string) \<Rightarrow> session_summary list \<Rightarrow> string \<Rightarrow> session_summary list" where
  "gw_filter_by_cwd norm_cwd items cwd =
     (if norm_cwd cwd = [] then items
      else filter (\<lambda>i. norm_cwd (rt_cwd (sy_runtime i)) = [] \<or> norm_cwd (rt_cwd (sy_runtime i)) = norm_cwd cwd) items)"

definition resolve_codex_thread_id :: "(string \<Rightarrow> session_record option) option \<Rightarrow> session_summary \<Rightarrow> string" where
  "resolve_codex_thread_id store item =
     (if gw_codex_thread_id item \<noteq> [] then gw_codex_thread_id item
      else case store of
          None \<Rightarrow> []
        | Some get \<Rightarrow>
            if trim_space (sy_id item) = [] then []
            else (case get (sy_id item) of
                None \<Rightarrow> []
              | Some rec \<Rightarrow>
                  let p = rec_projection rec in
                  if trim_space (rt_resume_session_id (pj_runtime p)) \<noteq> [] then trim_space (rt_resume_session_id (pj_runtime p))
                  else if trim_space (sn_resume (pj_controller p)) \<noteq> [] then trim_space (sn_resume (pj_controller p))
                  else if codex_is_mirror (sn_session_id (pj_controller p))
                  then codex_thread_from_mirror (sn_session_id (pj_controller p))
                  else []))"

definition tracked_codex_threads :: "(string \<Rightarrow> session_record option) option \<Rightarrow> session_summary list \<Rightarrow> string set" where
  "tracked_codex_threads store items =
     set (filter (\<lambda>t. t \<noteq> []) (map (resolve_codex_thread_id store)
       (filter (\<lambda>i. \<not> (gw_is_external_codex i \<or> \<not> gw_is_codex_runtime (sy_runtime i))) items)))"

definition resolve_claude_session_id :: "(string \<Rightarrow> session_record option) option \<Rightarrow> session_summary \<Rightarrow> string" where
  "resolve_claude_session_id store item =
     (if trim_space (sy_claude_uuid item) \<noteq> [] then trim_space (sy_claude_uuid item)
      else if gw_claude_session_id item \<noteq> [] then gw_claude_session_id item
      else case store of
          None \<Rightarrow> []
        | Some get \<Rightarrow>
            if trim_space (sy_id item) = [] then []
            else (case get (sy_id item) of
                None \<Rightarrow> []
              | Some rec \<Rightarrow>
                  let p = rec_projection rec; claude = gw_is_claude_runtime (pj_runtime p) in
                  if trim_space (rt_resume_session_id (pj_runtime p)) \<noteq> [] \<and> claude
                  then trim_space (rt_resume_session_id (pj_runtime p))
                  else if claude \<and> trim_space (sn_resume (pj_controller p)) \<noteq> []
                  then trim_space (sn_resume (pj_controller p))
                  else if claude_is_mirror (sn_session_id (pj_controller p))
                  then claude_session_from_mirror (sn_session_id (pj_controller p))
                  else []))"

definition tracked_claude_sessions :: "(string \<Rightarrow> session_record option) option \<Rightarrow> session_summary list \<Rightarrow> string set" where
  "tracked_claude_sessions store items =
     set (filter (\<lambda>t. t \<noteq> []) (concat (map (\<lambda>i.
         [trim_space (sy_claude_uuid i), gw_claude_session_id i, resolve_claude_session_id store i])
       (filter (\<lambda>i. \<not> gw_is_external_claude i \<and>
           \<not> (trim_space (sy_claude_uuid i) = [] \<and> \<not> gw_is_claude_runtime (sy_runtime i))) items))))"

definition is_tracked :: "string set \<Rightarrow> string set \<Rightarrow> session_summary \<Rightarrow> bool" where
  "is_tracked threads claude item \<longleftrightarrow>
     (gw_is_external_codex item \<and> gw_codex_thread_id item \<in> threads) \<or>
     (gw_is_external_claude item \<and> gw_claude_session_id item \<in> claude)"

definition default_source :: "session_summary \<Rightarrow> session_summary" where
  "default_source item =
     (let item = (if trim_space (sy_source item) = [] then item\<lparr>sy_source := rt_source (sy_runtime item)\<rparr> else item)
      in if trim_space (sy_source item) = [] then item\<lparr>sy_source := ''mobilevc''\<rparr> else item)"

text \<open>
  One of the loops over the native sessions: each comes with its own identifier and the record
  \<open>MirrorRecord\<close> builds from it.
\<close>

definition stored_or :: "(string \<Rightarrow> session_record option) option \<Rightarrow> session_record \<Rightarrow> session_record" where
  "stored_or store rec = (case store of
     None \<Rightarrow> rec
   | Some get \<Rightarrow> (case get (sy_id (rec_summary rec)) of None \<Rightarrow> rec | Some stored \<Rightarrow> stored))"

fun add_native ::
  "(string \<Rightarrow> session_record option) option \<Rightarrow> string set \<Rightarrow> (string \<times> session_record) list \<Rightarrow>
   session_summary list \<times> string set \<Rightarrow> session_summary list \<times> string set" where
  "add_native store tracked [] acc = acc"
| "add_native store tracked ((nid, rec) # natives) (merged, seen) =
     (if trim_space nid \<in> tracked \<or> sy_id (rec_summary rec) \<in> seen then add_native store tracked natives (merged, seen)
      else let rec' = stored_or store rec
           in add_native store tracked natives (merged @ [rec_summary rec'], insert (sy_id (rec_summary rec')) seen))"

definition merge_session_summaries ::
  "(string \<Rightarrow> string) \<Rightarrow> (session_summary list \<Rightarrow> session_summary list) \<Rightarrow> (string \<Rightarrow> session_record option) option \<Rightarrow>
   (string \<times> session_record) list \<Rightarrow> (string \<times> session_record) list \<Rightarrow> session_summary list \<Rightarrow> string \<Rightarrow>
   session_summary list" where
  "merge_session_summaries norm_cwd mix store native_codex native_claude items cwd =
     (let kept = gw_filter_by_cwd norm_cwd items cwd;
          threads = tracked_codex_threads store kept;
          claude = tracked_claude_sessions store kept
      in if norm_cwd cwd = []
         then gw_dedupe mix (filter (\<lambda>i. \<not> is_tracked threads claude i) kept)
         else let stored = map default_source (filter (\<lambda>i. \<not> is_tracked threads claude i) kept);
                  merged = fst (add_native store claude native_claude
                    (add_native store threads native_codex (stored, sy_id ` set stored)))
              in gw_dedupe mix (sort_key (\<lambda>i. - sy_updated_at i) (mix merged)))"

section \<open>Deduplication\<close>

lemma length_emit_summaries: "length (emit_summaries items seen) = length items"
  by (induction items arbitrary: seen) (auto split: option.splits)

text \<open>
  The kernel's \<open>dedupeCodexThreadSummaries\<close> removes nothing: the second loop forgets a thread once it
  has emitted it, so every later summary of the thread is taken for a summary of no thread and kept.
\<close>

theorem kernel_dedupe_keeps_all:
  "length (dedupe_codex_thread_summaries items) = length items"
  by (simp add: dedupe_codex_thread_summaries_def length_emit_summaries)

text \<open>The order of preference: sessions of MobileVC first, then the newest, then the latest created.\<close>

definition rank_le :: "session_summary \<Rightarrow> session_summary \<Rightarrow> bool" where
  "rank_le x y \<longleftrightarrow>
     (gw_is_external_codex x \<and> \<not> gw_is_external_codex y) \<or>
     ((gw_is_external_codex x \<longleftrightarrow> gw_is_external_codex y) \<and>
      (sy_updated_at x < sy_updated_at y \<or> (sy_updated_at x = sy_updated_at y \<and> sy_created_at x \<le> sy_created_at y)))"

lemma rank_refl: "rank_le x x"
  by (simp add: rank_le_def)

lemma rank_trans: "rank_le x y \<Longrightarrow> rank_le y z \<Longrightarrow> rank_le x z"
  unfolding rank_le_def by (elim disjE conjE) auto

lemma gw_prefer_rank:
  "gw_prefer x y \<in> {x, y} \<and> rank_le x (gw_prefer x y) \<and> rank_le y (gw_prefer x y)"
  unfolding gw_prefer_def rank_le_def by auto

text \<open>What the loop keeps: the selected summaries of the items seen, each the best of its key.\<close>

definition select_inv :: "session_summary list \<Rightarrow> (string \<rightharpoonup> session_summary) \<Rightarrow> string list \<Rightarrow> bool" where
  "select_inv items selected order \<longleftrightarrow>
     distinct order \<and> set order = dom selected \<and> dom selected = dedupe_key ` set items \<and>
     (\<forall>k x. selected k = Some x \<longrightarrow> x \<in> set items \<and> dedupe_key x = k \<and>
        (\<forall>y\<in>set items. dedupe_key y = k \<longrightarrow> rank_le y x))"

lemma select_invD:
  assumes "select_inv items selected order"
  shows "distinct order" and "set order = dom selected" and "dom selected = dedupe_key ` set items"
    and "selected k = Some x \<Longrightarrow> x \<in> set items" and "selected k = Some x \<Longrightarrow> dedupe_key x = k"
    and "selected k = Some x \<Longrightarrow> y \<in> set items \<Longrightarrow> dedupe_key y = k \<Longrightarrow> rank_le y x"
  using assms unfolding select_inv_def by blast+

lemma select_inv_step:
  assumes "select_inv items selected order"
  shows "selected (dedupe_key i) = Some e \<Longrightarrow>
      select_inv (items @ [i]) (selected(dedupe_key i \<mapsto> gw_prefer e i)) order"
    and "selected (dedupe_key i) = None \<Longrightarrow>
      select_inv (items @ [i]) (selected(dedupe_key i \<mapsto> i)) (order @ [dedupe_key i])"
proof -
  assume e: "selected (dedupe_key i) = Some e"
  have old: "e \<in> set items" "dedupe_key e = dedupe_key i"
      "\<And>y. y \<in> set items \<Longrightarrow> dedupe_key y = dedupe_key i \<Longrightarrow> rank_le y e"
    using assms e by (auto simp: select_inv_def)
  have p: "gw_prefer e i \<in> {e, i}" "rank_le e (gw_prefer e i)" "rank_le i (gw_prefer e i)"
    using gw_prefer_rank by blast+
  have "rank_le y (gw_prefer e i)" if "y \<in> set items" "dedupe_key y = dedupe_key i" for y
    using rank_trans [OF old(3) [OF that] p(2)] .
  then show "select_inv (items @ [i]) (selected(dedupe_key i \<mapsto> gw_prefer e i)) order"
    using assms e old(1,2) p(1,3) by (auto simp: select_inv_def)
next
  assume "selected (dedupe_key i) = None"
  then have "dedupe_key i \<notin> dom selected"
    by (simp add: domIff)
  then have fresh: "dedupe_key i \<notin> dedupe_key ` set items" "dedupe_key i \<notin> set order"
    using select_invD(2,3) [OF assms] by simp_all
  then have "\<And>y. y \<in> set items \<Longrightarrow> dedupe_key y \<noteq> dedupe_key i"
    by (metis imageI)
  then show "select_inv (items @ [i]) (selected(dedupe_key i \<mapsto> i)) (order @ [dedupe_key i])"
    using assms fresh rank_refl by (auto simp: select_inv_def)
qed

lemma select_loop_inv:
  assumes "select_inv done selected order" and "select_loop items selected order = (selected', order')"
  shows "select_inv (done @ items) selected' order'"
  using assms
proof (induction items arbitrary: "done" selected order)
  case (Cons i items)
  show ?case
  proof (cases "selected (dedupe_key i)")
    case None
    then have "select_loop items (selected(dedupe_key i \<mapsto> i)) (order @ [dedupe_key i]) = (selected', order')"
      using Cons.prems(2) by simp
    from Cons.IH [OF select_inv_step(2) [OF Cons.prems(1) None] this] show ?thesis
      by simp
  next
    case (Some e)
    then have "select_loop items (selected(dedupe_key i \<mapsto> gw_prefer e i)) order = (selected', order')"
      using Cons.prems(2) by simp
    from Cons.IH [OF select_inv_step(1) [OF Cons.prems(1) Some] this] show ?thesis
      by simp
  qed
qed simp

lemma sorted_updated: "sorted_wrt (\<lambda>x y. sy_updated_at y \<le> sy_updated_at x) (sort_key (\<lambda>i. - sy_updated_at i) xs)"
proof -
  have "sorted (map (\<lambda>i. - sy_updated_at i) (sort_key (\<lambda>i. - sy_updated_at i) xs))"
    by (rule sorted_sort_key)
  then show ?thesis
    by (simp add: sorted_map)
qed

text \<open>
  The gateway's deduplication keeps exactly one summary of each Codex thread (and of each other
  session): the best one, a session of MobileVC before a mirrored one, then the most recently updated, then
  the most recently created. The list it returns is ordered by the time of the last update, newest first,
  whatever an unstable sort does with equal times.
\<close>

theorem gw_dedupe_correct:
  assumes "\<And>xs. mset (mix xs) = mset xs" and "r = gw_dedupe mix items"
  shows "distinct (map dedupe_key r) \<and> dedupe_key ` set r = dedupe_key ` set items \<and> set r \<subseteq> set items \<and>
    (\<forall>x\<in>set r. \<forall>y\<in>set items. dedupe_key y = dedupe_key x \<longrightarrow> rank_le y x) \<and>
    sorted_wrt (\<lambda>x y. sy_updated_at y \<le> sy_updated_at x) r"
proof (cases "length items \<le> 1")
  case True
  then show ?thesis
    using assms(2) rank_refl by (cases items) (auto simp: gw_dedupe_def)
next
  case False
  obtain selected order where loop: "select_loop items Map.empty [] = (selected, order)"
    by (cases "select_loop items Map.empty []")
  have inv: "select_inv items selected order"
    using select_loop_inv [OF _ loop, of "[]"] by (simp add: select_inv_def)
  let ?vs = "values_in selected order"
  have r: "r = sort_key (\<lambda>i. - sy_updated_at i) (mix ?vs)"
    using False loop by (simp add: assms(2) gw_dedupe_def)
  have keys: "map dedupe_key (values_in selected ks) = ks" if "set ks \<subseteq> dom selected" for ks
    using that inv by (induction ks) (auto simp: select_inv_def split: option.splits)
  have mset: "mset r = mset ?vs"
    by (simp add: r assms(1))
  then have set: "set r = set ?vs" and dist: "distinct (map dedupe_key r) = distinct (map dedupe_key ?vs)"
    by (metis set_mset_mset) (metis mset mset_eq_imp_distinct_iff mset_map)
  have vs: "map dedupe_key ?vs = order"
    using keys inv by (simp add: select_inv_def)
  have sel: "selected (dedupe_key x) = Some x" if "x \<in> set ?vs" for x
  proof -
    from that obtain k where "selected k = Some x"
      by (auto simp: set_values_in)
    moreover from this have "dedupe_key x = k"
      using inv by (simp add: select_inv_def)
    ultimately show ?thesis
      by simp
  qed
  have "dedupe_key ` set r = dedupe_key ` set items"
    unfolding set using arg_cong [OF vs, of set] inv by (simp add: select_inv_def)
  moreover have "set r \<subseteq> set items \<and> (\<forall>x\<in>set r. \<forall>y\<in>set items. dedupe_key y = dedupe_key x \<longrightarrow> rank_le y x)"
    unfolding set using select_invD(4,6) [OF inv sel] by blast
  moreover have "distinct (map dedupe_key r)"
    unfolding dist vs using inv by (simp add: select_inv_def)
  ultimately show ?thesis
    using sorted_updated by (simp add: r)
qed

definition demo_summary :: "string \<Rightarrow> string \<Rightarrow> bool \<Rightarrow> time \<Rightarrow> session_summary" where
  "demo_summary i resume ext t = \<lparr>sy_id = i, sy_title = [], sy_created_at = t, sy_updated_at = t, sy_last_preview = [],
     sy_entry_count = 0, sy_runtime = empty_runtime\<lparr>rt_resume_session_id := resume, rt_engine := ''codex''\<rparr>,
     sy_source = [], sy_external = ext, sy_ownership = [], sy_execution_active = False, sy_claude_uuid = [],
     sy_jsonl_count = 0\<rparr>"

theorem gw_dedupe_correct_witness:
  "distinct (map dedupe_key (gw_dedupe id [demo_summary ''a'' ''t'' True 9, demo_summary ''b'' ''t'' False 5])) \<and>
   map sy_id (gw_dedupe id [demo_summary ''a'' ''t'' True 9, demo_summary ''b'' ''t'' False 5]) = [''b'']"
proof -
  have "map sy_id (gw_dedupe id [demo_summary ''a'' ''t'' True 9, demo_summary ''b'' ''t'' False 5]) = [''b'']"
    by code_simp
  then show ?thesis
    using gw_dedupe_correct [of id "gw_dedupe id [demo_summary ''a'' ''t'' True 9, demo_summary ''b'' ''t'' False 5]"
        "[demo_summary ''a'' ''t'' True 9, demo_summary ''b'' ''t'' False 5]"] by simp
qed

section \<open>Merging\<close>

definition from_native ::
  "(string \<Rightarrow> session_record option) option \<Rightarrow> string set \<Rightarrow> (string \<times> session_record) list \<Rightarrow> session_summary \<Rightarrow> bool" where
  "from_native store tracked natives x \<longleftrightarrow>
     (\<exists>nid rec. (nid, rec) \<in> set natives \<and> trim_space nid \<notin> tracked \<and> x = rec_summary (stored_or store rec))"

lemma add_native_set:
  "x \<in> set (fst (add_native store tracked natives (merged, seen))) \<Longrightarrow>
   x \<in> set merged \<or> from_native store tracked natives x"
proof (induction natives arbitrary: merged seen)
  case (Cons n natives)
  obtain nid rec where n: "n = (nid, rec)"
    by (cases n)
  have up: "from_native store tracked natives x \<Longrightarrow> from_native store tracked (n # natives) x"
    by (auto simp: from_native_def)
  show ?case
  proof (cases "trim_space nid \<in> tracked \<or> sy_id (rec_summary rec) \<in> seen")
    case True
    then show ?thesis
      using Cons.IH [of merged seen] Cons.prems up by (auto simp: n)
  next
    case False
    then have "x \<in> set (merged @ [rec_summary (stored_or store rec)]) \<or> from_native store tracked natives x"
      using Cons.prems by (intro Cons.IH) (simp add: n Let_def)
    then show ?thesis
      using False up by (auto simp: n from_native_def)
  qed
qed simp

text \<open>
  The merged list shows each thread once, newest first, and shows nothing twice that MobileVC already
  tracks: every summary of it is a stored session that does not mirror a tracked thread, or comes from a
  native thread or session whose identifier no stored session of the directory tracks.
\<close>

theorem merged_list_untracked:
  assumes "\<And>xs. mset (mix xs) = mset xs" and "norm_cwd cwd \<noteq> []"
    and "r = merge_session_summaries norm_cwd mix store native_codex native_claude items cwd"
    and "kept = gw_filter_by_cwd norm_cwd items cwd"
  shows "distinct (map dedupe_key r) \<and> sorted_wrt (\<lambda>x y. sy_updated_at y \<le> sy_updated_at x) r \<and>
    (\<forall>x\<in>set r.
      (\<exists>i\<in>set kept. x = default_source i \<and>
         \<not> is_tracked (tracked_codex_threads store kept) (tracked_claude_sessions store kept) i) \<or>
      from_native store (tracked_codex_threads store kept) native_codex x \<or>
      from_native store (tracked_claude_sessions store kept) native_claude x)"
proof -
  let ?t = "tracked_codex_threads store kept" and ?c = "tracked_claude_sessions store kept"
  let ?stored = "map default_source (filter (\<lambda>i. \<not> is_tracked ?t ?c i) kept)"
  let ?one = "add_native store ?t native_codex (?stored, sy_id ` set ?stored)"
  let ?merged = "fst (add_native store ?c native_claude ?one)"
  have r: "r = gw_dedupe mix (sort_key (\<lambda>i. - sy_updated_at i) (mix ?merged))"
    using assms(2) by (simp add: assms(3,4) merge_session_summaries_def Let_def)
  note d = gw_dedupe_correct [OF assms(1) r]
  have "set (mix ?merged) = set ?merged"
    by (metis assms(1) set_mset_mset)
  then have sub: "set r \<subseteq> set ?merged"
    using d by simp
  have "x \<in> set ?stored \<or> from_native store ?t native_codex x \<or> from_native store ?c native_claude x"
    if "x \<in> set r" for x
    using sub that add_native_set [of x store ?c native_claude "fst ?one" "snd ?one"]
      add_native_set [of x store ?t native_codex ?stored "sy_id ` set ?stored"] by auto
  then show ?thesis
    using d by auto
qed

theorem merged_list_untracked_witness:
  "distinct (map dedupe_key (merge_session_summaries id id None [(''t'', \<lparr>rec_summary = demo_summary ''codex-thread:t'' ''t'' True 9,
      rec_projection = empty_projection\<rparr>)] [] [demo_summary ''b'' ''t'' False 5] ''/w'')) \<and>
   map sy_id (merge_session_summaries id id None [(''t'', \<lparr>rec_summary = demo_summary ''codex-thread:t'' ''t'' True 9,
      rec_projection = empty_projection\<rparr>)] [] [demo_summary ''b'' ''t'' False 5] ''/w'') = [''b'']"
proof -
  let ?n = "[(''t'', \<lparr>rec_summary = demo_summary ''codex-thread:t'' ''t'' True 9, rec_projection = empty_projection\<rparr>)]"
  have "map sy_id (merge_session_summaries id id None ?n [] [demo_summary ''b'' ''t'' False 5] ''/w'') = [''b'']"
    by code_simp
  then show ?thesis
    using merged_list_untracked [of id id "''/w''" _ None ?n "[]" "[demo_summary ''b'' ''t'' False 5]", OF _ _ refl refl] by simp
qed

end
