(* ===== verification/Controller.thy ===== *)
theory Controller
  imports Commands
begin

text \<open>
  The state machine of a session (\<open>session/session.go\<close>): which phase its command is in, what it waits for and
  the diffs under review. Each operation holds the mutex from start to end and returns the agent-state
  events to emit; \<open>now\<close> is the time of the call. The texts shown to the user are UTF-8 strings.
\<close>

section \<open>Texts\<close>

definition txt_idle :: string where
  "txt_idle = [CHR 0xE7, CHR 0xA9, CHR 0xBA, CHR 0xE9, CHR 0x97, CHR 0xB2]"

definition txt_thinking :: string where
  "txt_thinking = [CHR 0xE6, CHR 0x80, CHR 0x9D, CHR 0xE8, CHR 0x80, CHR 0x83, CHR 0xE4, CHR 0xB8, CHR
     0xAD]"

definition txt_run_skill :: string where
  "txt_run_skill = [CHR 0xE6, CHR 0x89, CHR 0xA7, CHR 0xE8, CHR 0xA1, CHR 0x8C] @ '' skill'' @ [CHR 0xEF,
     CHR 0xBC, CHR 0x9A]"

definition txt_wait_input :: string where
  "txt_wait_input = [CHR 0xE7, CHR 0xAD, CHR 0x89, CHR 0xE5, CHR 0xBE, CHR 0x85, CHR 0xE8, CHR 0xBE, CHR
     0x93, CHR 0xE5, CHR 0x85, CHR 0xA5]"

definition txt_running_tool :: string where
  "txt_running_tool = [CHR 0xE6, CHR 0x89, CHR 0xA7, CHR 0xE8, CHR 0xA1, CHR 0x8C, CHR 0xE5, CHR 0xB7,
     CHR 0xA5, CHR 0xE5, CHR 0x85, CHR 0xB7, CHR 0xE4, CHR 0xB8, CHR 0xAD]"

definition txt_view_diff :: string where
  "txt_view_diff = [CHR 0xE6, CHR 0x9F, CHR 0xA5, CHR 0xE7, CHR 0x9C, CHR 0x8B, CHR 0xE4, CHR 0xBB, CHR
     0xA3, CHR 0xE7, CHR 0xA0, CHR 0x81, CHR 0xE6, CHR 0x94, CHR 0xB9, CHR 0xE5, CHR 0x8A, CHR 0xA8]"

definition txt_diff_preview :: string where
  "txt_diff_preview = ''Diff '' @ [CHR 0xE9, CHR 0xA2, CHR 0x84, CHR 0xE8, CHR 0xA7, CHR 0x88]"

definition txt_denied :: string where
  "txt_denied = [CHR 0xE5, CHR 0xB7, CHR 0xB2, CHR 0xE6, CHR 0x8B, CHR 0x92, CHR 0xE7, CHR 0xBB, CHR
     0x9D, CHR 0xE6, CHR 0x9D, CHR 0x83, CHR 0xE9, CHR 0x99, CHR 0x90, CHR 0xEF, CHR 0xBC, CHR 0x8C, CHR
     0xE5, CHR 0x8F, CHR 0xAF, CHR 0xE7, CHR 0xBB, CHR 0xA7, CHR 0xE7, CHR 0xBB, CHR 0xAD, CHR 0xE8, CHR
     0xBE, CHR 0x93, CHR 0xE5, CHR 0x85, CHR 0xA5]"

definition txt_decided :: string where
  "txt_decided = [CHR 0xE6, CHR 0xA0, CHR 0xB9, CHR 0xE6, CHR 0x8D, CHR 0xAE, CHR 0xE6, CHR 0x9D, CHR
     0x83, CHR 0xE9, CHR 0x99, CHR 0x90, CHR 0xE5, CHR 0x86, CHR 0xB3, CHR 0xE7, CHR 0xAD, CHR 0x96, CHR
     0xE7, CHR 0xBB, CHR 0xA7, CHR 0xE7, CHR 0xBB, CHR 0xAD, CHR 0xE5, CHR 0xA4, CHR 0x84, CHR 0xE7, CHR
     0x90, CHR 0x86, CHR 0xE4, CHR 0xB8, CHR 0xAD]"

definition txt_paused :: string where
  "txt_paused = [CHR 0xE4, CHR 0xBC, CHR 0x9A, CHR 0xE8, CHR 0xAF, CHR 0x9D, CHR 0xE5, CHR 0xB7, CHR
     0xB2, CHR 0xE6, CHR 0x9A, CHR 0x82, CHR 0xE5, CHR 0x81, CHR 0x9C, CHR 0xEF, CHR 0xBC, CHR 0x8C, CHR
     0xE5, CHR 0x8F, CHR 0xAF, CHR 0xE7, CHR 0xBB, CHR 0xA7, CHR 0xE7, CHR 0xBB, CHR 0xAD, CHR 0xE5, CHR
     0xAF, CHR 0xB9, CHR 0xE8, CHR 0xAF, CHR 0x9D]"

section \<open>Normalisation\<close>

definition lifecycles :: "string list" where
  "lifecycles = [''inactive'', ''starting'', ''active'', ''waiting_input'', ''resumable'', ''unknown'']"

definition blocking_kinds :: "string list" where
  "blocking_kinds = [''permission'', ''review'', ''plan'', ''reply'', ''ready'']"

definition normalize_lifecycle :: "string \<Rightarrow> string" where
  "normalize_lifecycle v = (if trim_space v \<in> set lifecycles then trim_space v else [])"

definition normalize_blocking_kind :: "string \<Rightarrow> string" where
  "normalize_blocking_kind v =
     (let k = trim_space (to_lower v) in if k \<in> set blocking_kinds then k else [])"

definition is_terminal_step_status :: "string \<Rightarrow> bool" where
  "is_terminal_step_status s \<longleftrightarrow>
     trim_space (to_lower s) \<in> {''done'', ''completed'', ''complete'', ''success'', ''succeeded''}"

definition is_terminal_step_message :: "string \<Rightarrow> bool" where
  "is_terminal_step_message s \<longleftrightarrow>
     (let m = trim_space (to_lower s) in
      m \<noteq> [] \<and> (m \<in> {''command completed'', ''tool completed''} \<or>
        list_ex (has_prefix m) [''completed '', ''done'', ''finished'', ''resolved'', ''applied file changes'']))"

definition is_ai_prompt :: "string \<Rightarrow> bool" where
  "is_ai_prompt message \<longleftrightarrow>
     (let t = trim_space message in
      t \<noteq> [] \<and> (str_contains t ''>   Type your message'' \<or> t = ''>'' \<or> has_suffix t '' >'' \<or>
        has_suffix t [CHR 0x0A, CHR ''>'']))"

text \<open>\<open>NormalizeClaudePermissionMode\<close> and \<open>shouldAutoAcceptReviewForPermissionMode\<close>.\<close>

definition normalize_permission_mode :: "string \<Rightarrow> string" where
  "normalize_permission_mode mode =
     (let m = trim_space mode in
      if m = ''bypassPermissions'' then ''bypassPermissions'' else if m = ''default'' then ''default'' else ''auto'')"

definition should_auto_accept_review :: "string list \<Rightarrow> bool" where
  "should_auto_accept_review values \<longleftrightarrow>
     (let mode = first_non_empty_string values in mode \<noteq> [] \<and> normalize_permission_mode mode \<noteq> ''default'')"

datatype mode = ModeExec | ModePTY

text \<open>\<open>ParseMode\<close>; \<^const>\<open>None\<close> is its error.\<close>

definition parse_mode :: "string \<Rightarrow> mode option" where
  "parse_mode raw =
     (let m = trim_space raw in
      if m = [] then Some ModeExec else if m = ''exec'' then Some ModeExec
      else if m = ''pty'' then Some ModePTY else None)"

section \<open>State\<close>

record controller =
  ct_session_id :: string
  ct_state :: string
  ct_command :: string
  ct_lifecycle :: string
  ct_last_step :: string
  ct_last_tool :: string
  ct_resume :: string
  ct_last_input :: string
  ct_meta :: runtime_meta
  ct_diffs :: "diff_context list"
  ct_diff :: diff_context
  ct_log_msg :: string
  ct_log_time :: time
  ct_step_msg :: string
  ct_step_status :: string
  ct_prompt_msg :: string

definition new_controller :: "string \<Rightarrow> controller" where
  "new_controller sid = \<lparr>ct_session_id = sid, ct_state = state_idle, ct_command = [], ct_lifecycle = [],
     ct_last_step = [], ct_last_tool = [], ct_resume = [], ct_last_input = [], ct_meta = empty_meta,
     ct_diffs = [], ct_diff = empty_diff, ct_log_msg = [], ct_log_time = 0, ct_step_msg = [],
     ct_step_status = [], ct_prompt_msg = []\<rparr>"

definition derive_lifecycle :: "controller \<Rightarrow> string" where
  "derive_lifecycle c =
     (if normalize_lifecycle (m_claude_lifecycle (ct_meta c)) \<noteq> [] then normalize_lifecycle (m_claude_lifecycle (ct_meta c))
      else if ct_state c = state_wait_input \<and> (is_claude_command (ct_command c) \<or> trim_space (ct_resume c) \<noteq> [])
      then ''waiting_input''
      else if (ct_state c = state_thinking \<or> ct_state c = state_running_tool) \<and> is_claude_command (ct_command c)
      then ''active''
      else if trim_space (ct_resume c) \<noteq> [] then ''resumable''
      else if is_claude_command (ct_command c) then ''unknown''
      else ''inactive'')"

definition set_meta :: "(runtime_meta \<Rightarrow> runtime_meta) \<Rightarrow> controller \<Rightarrow> controller" where
  "set_meta f c = c\<lparr>ct_meta := f (ct_meta c)\<rparr>"

text \<open>\<open>claudeLifecycle\<close> and the copy of it in the active metadata are set together.\<close>

definition set_lifecycle :: "string \<Rightarrow> controller \<Rightarrow> controller" where
  "set_lifecycle l c = set_meta (\<lambda>m. m\<lparr>m_claude_lifecycle := l\<rparr>) (c\<lparr>ct_lifecycle := l\<rparr>)"

definition refresh_lifecycle :: "controller \<Rightarrow> controller" where
  "refresh_lifecycle c =
     (let l = derive_lifecycle c in
      if l \<noteq> [] then set_lifecycle l c else c\<lparr>ct_lifecycle := l\<rparr>)"

text \<open>\<open>newAgentStateEvent\<close>, which also refreshes the lifecycle.\<close>

definition agent_state :: "time \<Rightarrow> string \<Rightarrow> bool \<Rightarrow> controller \<Rightarrow> agent_state_event list \<times> controller" where
  "agent_state now message await c =
     (let e = new_agent_state_event now (ct_session_id c) (ct_state c) message await (ct_command c)
            (ct_last_step c) (ct_last_tool c);
          c = refresh_lifecycle c;
          kind = (if await
            then (if normalize_blocking_kind (m_blocking_kind (ct_meta c)) \<noteq> []
                  then normalize_blocking_kind (m_blocking_kind (ct_meta c)) else ''ready'')
            else [])
      in ([e\<lparr>ev_meta := merge_runtime_meta (ct_meta c)
            (empty_meta\<lparr>m_resume_session_id := ct_resume c, m_claude_lifecycle := ct_lifecycle c,
               m_blocking_kind := kind\<rparr>)\<rparr>], c))"

section \<open>Diffs\<close>

definition set_pending :: "bool \<Rightarrow> diff_context \<Rightarrow> diff_context" where
  "set_pending pending d = d\<lparr>dx_pending := pending\<rparr>"

text \<open>\<open>markRecentDiffPendingLocked\<close>.\<close>

definition mark_recent_diff_pending :: "string \<Rightarrow> string \<Rightarrow> bool \<Rightarrow> controller \<Rightarrow> controller" where
  "mark_recent_diff_pending cid path pending c =
     (let hit = list_ex (diff_matches cid path) (ct_diffs c);
          ds = map (\<lambda>d. if diff_matches cid path d then set_pending pending d else d) (ct_diffs c);
          single = (length ds = 1);
          ds = (if \<not> hit \<and> single then map (set_pending pending) ds else ds);
          matched = (hit \<or> single);
          d = (if matched
               then (case find (\<lambda>d. diff_matches cid path d \<or> single) ds of Some d \<Rightarrow> d | None \<Rightarrow> ct_diff c)
               else ct_diff c);
          d = (if diff_matches cid path d \<or> single then set_pending pending d else d)
      in c\<lparr>ct_diffs := ds, ct_diff := d\<rparr>)"

section \<open>Operations\<close>

definition record_user_input :: "string \<Rightarrow> controller \<Rightarrow> controller" where
  "record_user_input input c = (if trim_space input = [] then c else c\<lparr>ct_last_input := input\<rparr>)"

definition update_permission_mode :: "string \<Rightarrow> controller \<Rightarrow> controller" where
  "update_permission_mode mode c = set_meta (\<lambda>m. m\<lparr>m_permission_mode := trim_space mode\<rparr>) c"

definition initial_event :: "time \<Rightarrow> controller \<Rightarrow> agent_state_event list \<times> controller" where
  "initial_event now c = agent_state now txt_idle False c"

definition on_exec_start :: "time \<Rightarrow> string \<Rightarrow> runtime_meta \<Rightarrow> controller \<Rightarrow> agent_state_event list \<times> controller" where
  "on_exec_start now command meta c =
     (let resume = extract_resume_session_id command (m_resume_session_id meta);
          l = first_non_empty_string [normalize_lifecycle (m_claude_lifecycle meta),
            (if is_claude_command command then ''starting''
             else if trim_space resume \<noteq> [] then ''resumable'' else ''inactive'')];
          c = set_lifecycle l (c\<lparr>ct_command := command, ct_state := state_thinking, ct_last_step := [],
            ct_last_tool := [], ct_meta := meta, ct_resume := resume, ct_last_input := []\<rparr>)
      in agent_state now (if m_skill_name meta \<noteq> [] then txt_run_skill @ m_skill_name meta else txt_thinking)
           False c)"

definition take_resume :: "runtime_meta \<Rightarrow> controller \<Rightarrow> controller" where
  "take_resume meta c = (if m_resume_session_id meta \<noteq> [] then c\<lparr>ct_resume := m_resume_session_id meta\<rparr> else c)"

definition take_lifecycle :: "runtime_meta \<Rightarrow> controller \<Rightarrow> controller" where
  "take_lifecycle meta c =
     (if normalize_lifecycle (m_claude_lifecycle meta) \<noteq> []
      then set_lifecycle (normalize_lifecycle (m_claude_lifecycle meta)) c else c)"

definition busy_lifecycle :: "runtime_meta \<Rightarrow> controller \<Rightarrow> string" where
  "busy_lifecycle meta c = first_non_empty_string [normalize_lifecycle (m_claude_lifecycle meta),
     (if is_claude_command (ct_command c) then ''active'' else ct_lifecycle c)]"

text \<open>The case of \<open>OnRunnerEvent\<close> for each kind of event.\<close>

definition on_prompt :: "time \<Rightarrow> prompt_request_event \<Rightarrow> controller \<Rightarrow> agent_state_event list \<times> controller" where
  "on_prompt now e c =
     (let m = ev_meta e in
      if pr_message e = ct_prompt_msg c \<and> ct_state c = state_wait_input \<and>
         (trim_space (m_permission_request_id m) = [] \<or>
          trim_space (m_permission_request_id m) = trim_space (m_permission_request_id (ct_meta c)))
      then ([], c)
      else let c = c\<lparr>ct_prompt_msg := pr_message e, ct_state := state_wait_input\<rparr>;
               message = (if pr_message e = [] then txt_wait_input else pr_message e);
               c = set_meta (\<lambda>b. merge_runtime_meta b m) (take_resume m c);
               kind = normalize_blocking_kind (m_blocking_kind m);
               c = set_meta (\<lambda>b. b\<lparr>m_blocking_kind := kind\<rparr>) (set_lifecycle ''waiting_input'' c);
               c = (if kind = ''permission''
                 then set_meta (\<lambda>b. b\<lparr>m_permission_request_id := trim_space (m_permission_request_id m),
                   m_context_id := trim_space (m_context_id m), m_context_title := trim_space (m_context_title m),
                   m_target_path := trim_space (m_target_path m), m_target := trim_space (m_target m),
                   m_target_type := trim_space (m_target_type m)\<rparr>) c
                 else c)
           in agent_state now message True c)"

definition on_step :: "time \<Rightarrow> step_update_event \<Rightarrow> controller \<Rightarrow> agent_state_event list \<times> controller" where
  "on_step now e c =
     (if su_message e = ct_step_msg c \<and> (su_status e = ct_step_status c \<or> su_status e = []) then ([], c)
      else let c = c\<lparr>ct_step_msg := su_message e, ct_step_status := su_status e\<rparr> in
        if is_terminal_step_status (su_status e) then ([], c)
        else let c = (if su_message e \<noteq> [] then c\<lparr>ct_last_step := su_message e\<rparr> else c);
                 c = c\<lparr>ct_state := state_running_tool\<rparr>;
                 c = set_lifecycle (busy_lifecycle (ev_meta e) c) c;
                 c = c\<lparr>ct_last_tool := su_target e\<rparr>
             in agent_state now (if su_message e = [] then txt_running_tool else su_message e) False c)"

definition diff_of_event :: "file_diff_event \<Rightarrow> bool \<Rightarrow> diff_context" where
  "diff_of_event e pending =
     (let m = ev_meta e in
      \<lparr>dx_context_id = first_non_empty_string [m_context_id m, fd_path e, fd_title e],
       dx_title = first_non_empty_string [fd_title e, m_context_title m, txt_diff_preview],
       dx_path = first_non_empty_string [fd_path e, m_target_path m],
       dx_diff = fd_diff e, dx_lang = fd_lang e, dx_pending = pending,
       dx_execution_id = [], dx_group_id = [], dx_group_title = [],
       dx_status = (if pending then ''pending'' else ''accepted'')\<rparr>)"

definition on_file_diff :: "time \<Rightarrow> file_diff_event \<Rightarrow> controller \<Rightarrow> agent_state_event list \<times> controller" where
  "on_file_diff now e c =
     (let message = (if fd_title e \<noteq> [] then fd_title e else txt_view_diff);
          c = c\<lparr>ct_state := state_running_tool\<rparr>;
          c = set_lifecycle (busy_lifecycle (ev_meta e) c) c;
          c = (if fd_path e \<noteq> [] then c\<lparr>ct_last_tool := fd_path e\<rparr> else c);
          pending = (\<not> should_auto_accept_review [m_permission_mode (ev_meta e), m_permission_mode (ct_meta c)]);
          ds = upsert_diff (diff_of_event e pending) (ct_diffs c);
          c = c\<lparr>ct_diffs := ds, ct_diff := pick_active ds\<rparr>
      in agent_state now message False c)"

definition on_log :: "time \<Rightarrow> log_event \<Rightarrow> controller \<Rightarrow> agent_state_event list \<times> controller" where
  "on_log now e c =
     (let c = take_lifecycle (ev_meta e) (take_resume (ev_meta e) c) in
      if le_message e = ct_log_msg c \<and> now - ct_log_time c < 300 * millisecond then ([], c)
      else let c = c\<lparr>ct_log_msg := le_message e, ct_log_time := now\<rparr> in
        if is_ai_command (ct_command c) \<and> ct_state c = state_thinking \<and> is_ai_prompt (le_message e)
        then let c = c\<lparr>ct_state := state_wait_input\<rparr>;
                 c = (if is_claude_command (ct_command c)
                   then set_meta (\<lambda>b. b\<lparr>m_blocking_kind := normalize_blocking_kind (m_blocking_kind (ev_meta e))\<rparr>)
                     (set_lifecycle ''waiting_input'' c)
                   else c)
             in agent_state now (if trim_space (le_message e) = [] then txt_wait_input else le_message e) True c
        else ([], c))"

fun on_runner_event :: "time \<Rightarrow> payload \<Rightarrow> controller \<Rightarrow> agent_state_event list \<times> controller" where
  "on_runner_event now (EvPrompt e) c = on_prompt now e c"
| "on_runner_event now (EvStepUpdate e) c = on_step now e c"
| "on_runner_event now (EvFileDiff e) c = on_file_diff now e c"
| "on_runner_event now (EvLog e) c = on_log now e c"
| "on_runner_event now (EvSessionState e) c = ([], take_lifecycle (ev_meta e) (take_resume (ev_meta e) c))"
| "on_runner_event now _ c = ([], c)"

definition meta_informative :: "runtime_meta \<Rightarrow> bool" where
  "meta_informative m \<longleftrightarrow> m_source m \<noteq> [] \<or> m_skill_name m \<noteq> [] \<or> m_resume_session_id m \<noteq> [] \<or>
     m_context_id m \<noteq> [] \<or> m_context_title m \<noteq> [] \<or> m_target_text m \<noteq> [] \<or> m_target_path m \<noteq> []"

definition take_meta :: "runtime_meta \<Rightarrow> controller \<Rightarrow> controller" where
  "take_meta m c = (if meta_informative m then set_meta (\<lambda>b. merge_runtime_meta b m) c else c)"

text \<open>The branch of \<open>OnInputSent\<close> for the source \<open>review-decision\<close>.\<close>

definition review_input :: "runtime_meta \<Rightarrow> controller \<Rightarrow> controller" where
  "review_input m c =
     (if m_source m \<noteq> ''review-decision'' then c
      else let cid = trim_space (m_context_id m); path = trim_space (m_target_path m);
               t = trim_space (m_target_text m);
               c = (if t = ''accept'' \<or> t = ''revert'' then mark_recent_diff_pending cid path False c
                    else if t = ''revise'' then mark_recent_diff_pending cid path True c else c)
           in c\<lparr>ct_diff := pick_active (ct_diffs c)\<rparr>)"

definition on_input_sent :: "time \<Rightarrow> runtime_meta \<Rightarrow> controller \<Rightarrow> agent_state_event list \<times> controller" where
  "on_input_sent now m c =
     (let c = review_input m (take_meta m c);
          c = (if m_permission_mode m \<noteq> [] then set_meta (\<lambda>b. b\<lparr>m_permission_mode := m_permission_mode m\<rparr>) c else c);
          c = set_meta (\<lambda>b. b\<lparr>m_blocking_kind := normalize_blocking_kind (m_blocking_kind m)\<rparr>) c;
          l = (if normalize_lifecycle (m_claude_lifecycle m) \<noteq> [] then normalize_lifecycle (m_claude_lifecycle m)
               else if is_claude_command (ct_command c) then ''active'' else ct_lifecycle c);
          c = set_lifecycle l c;
          decision = (m_source m = ''permission-decision'')
      in if decision \<and> trim_space (to_lower (m_target_text m)) = ''deny''
         then agent_state now txt_denied True
           (set_meta (\<lambda>b. b\<lparr>m_blocking_kind := ''ready'', m_permission_request_id := []\<rparr>)
             (c\<lparr>ct_state := state_wait_input\<rparr>))
         else let c = (if decision
                  then set_meta (\<lambda>b. b\<lparr>m_permission_request_id := [], m_blocking_kind := []\<rparr>) c else c)
              in agent_state now (if decision then txt_decided else txt_thinking) False
                   (c\<lparr>ct_state := state_thinking\<rparr>))"

definition on_command_finished :: "time \<Rightarrow> runtime_meta \<Rightarrow> controller \<Rightarrow> agent_state_event list \<times> controller" where
  "on_command_finished now m c =
     (let c = take_meta m c in
      if ct_state c = state_wait_input
      then agent_state now (if trim_space (ct_prompt_msg c) = [] then txt_wait_input else ct_prompt_msg c) True
        (set_meta (\<lambda>b. b\<lparr>m_blocking_kind := ''ready''\<rparr>) (refresh_lifecycle c))
      else let c = c\<lparr>ct_state := state_idle, ct_command := [], ct_last_step := [], ct_last_tool := [],
                 ct_log_msg := [], ct_step_msg := [], ct_step_status := [], ct_prompt_msg := []\<rparr>;
               l = (if normalize_lifecycle (m_claude_lifecycle m) \<noteq> [] then normalize_lifecycle (m_claude_lifecycle m)
                    else if ct_resume c \<noteq> [] then ''resumable'' else ''inactive'');
               c = set_lifecycle l c
           in agent_state now (if ct_resume c \<noteq> [] then txt_paused else txt_idle) False c)"

definition controller_snapshot_of :: "controller \<Rightarrow> controller_snapshot" where
  "controller_snapshot_of c = \<lparr>sn_session_id = ct_session_id c, sn_state = ct_state c, sn_command = ct_command c,
     sn_last_step = ct_last_step c, sn_last_tool = ct_last_tool c, sn_resume = ct_resume c,
     sn_lifecycle = ct_lifecycle c, sn_last_user_input = ct_last_input c, sn_meta = ct_meta c,
     sn_diffs = ct_diffs c, sn_diff = ct_diff c, sn_review_groups = [], sn_active_review_id = []\<rparr>"

definition restore :: "controller_snapshot \<Rightarrow> controller \<Rightarrow> controller" where
  "restore s c =
     (let c = (if sn_session_id s \<noteq> [] then c\<lparr>ct_session_id := sn_session_id s\<rparr> else c);
          l = first_non_empty_string [normalize_lifecycle (sn_lifecycle s),
            normalize_lifecycle (m_claude_lifecycle (sn_meta s))];
          c = c\<lparr>ct_state := sn_state s, ct_command := sn_command s, ct_last_step := sn_last_step s,
            ct_last_tool := sn_last_tool s, ct_resume := sn_resume s, ct_lifecycle := l,
            ct_last_input := sn_last_user_input s, ct_meta := sn_meta s\<rparr>;
          c = (if l \<noteq> [] then set_lifecycle l c else c);
          ds = (if sn_diffs s = [] \<and>
               trim_space (dx_context_id (sn_diff s) @ dx_path (sn_diff s) @ dx_title (sn_diff s)) \<noteq> []
             then [sn_diff s] else sn_diffs s)
      in c\<lparr>ct_diffs := ds, ct_diff := pick_active ds\<rparr>)"

section \<open>Lemmas\<close>

lemma set_meta_sel [simp]:
  "ct_state (set_meta f c) = ct_state c" "ct_lifecycle (set_meta f c) = ct_lifecycle c"
  "ct_diffs (set_meta f c) = ct_diffs c" "ct_diff (set_meta f c) = ct_diff c"
  "ct_session_id (set_meta f c) = ct_session_id c" "ct_meta (set_meta f c) = f (ct_meta c)"
  "ct_command (set_meta f c) = ct_command c" "ct_resume (set_meta f c) = ct_resume c"
  "ct_prompt_msg (set_meta f c) = ct_prompt_msg c" "ct_last_step (set_meta f c) = ct_last_step c"
  "ct_last_tool (set_meta f c) = ct_last_tool c" "ct_step_msg (set_meta f c) = ct_step_msg c"
  "ct_step_status (set_meta f c) = ct_step_status c" "ct_last_input (set_meta f c) = ct_last_input c"
  by (simp_all add: set_meta_def)

lemma set_lifecycle_sel [simp]:
  "ct_state (set_lifecycle l c) = ct_state c" "ct_lifecycle (set_lifecycle l c) = l"
  "ct_diffs (set_lifecycle l c) = ct_diffs c" "ct_diff (set_lifecycle l c) = ct_diff c"
  "ct_session_id (set_lifecycle l c) = ct_session_id c"
  "ct_meta (set_lifecycle l c) = (ct_meta c)\<lparr>m_claude_lifecycle := l\<rparr>"
  "ct_command (set_lifecycle l c) = ct_command c" "ct_resume (set_lifecycle l c) = ct_resume c"
  "ct_prompt_msg (set_lifecycle l c) = ct_prompt_msg c" "ct_last_step (set_lifecycle l c) = ct_last_step c"
  "ct_last_tool (set_lifecycle l c) = ct_last_tool c" "ct_step_msg (set_lifecycle l c) = ct_step_msg c"
  "ct_step_status (set_lifecycle l c) = ct_step_status c" "ct_last_input (set_lifecycle l c) = ct_last_input c"
  by (simp_all add: set_lifecycle_def)

lemma normalize_lifecycle_range: "normalize_lifecycle v \<noteq> [] \<Longrightarrow> normalize_lifecycle v \<in> set lifecycles"
  by (simp add: normalize_lifecycle_def split: if_splits)

lemma lifecycles_mem:
  "''inactive'' \<in> set lifecycles" "''starting'' \<in> set lifecycles" "''active'' \<in> set lifecycles"
  "''waiting_input'' \<in> set lifecycles" "''resumable'' \<in> set lifecycles" "''unknown'' \<in> set lifecycles"
  "[] \<notin> set lifecycles"
  by (simp_all add: lifecycles_def)

lemma derive_lifecycle_range: "derive_lifecycle c \<in> set lifecycles"
  using normalize_lifecycle_range by (simp add: derive_lifecycle_def lifecycles_mem)

lemma derive_lifecycle_nonempty: "derive_lifecycle c \<noteq> []"
  using derive_lifecycle_range [of c] lifecycles_mem(7) by metis

lemma refresh_eq: "refresh_lifecycle c = set_lifecycle (derive_lifecycle c) c"
  using derive_lifecycle_nonempty by (simp add: refresh_lifecycle_def)

lemma normalize_blocking_kind_range:
  "normalize_blocking_kind v \<noteq> [] \<Longrightarrow> normalize_blocking_kind v \<in> set blocking_kinds"
  by (simp add: normalize_blocking_kind_def Let_def split: if_splits)

definition await_kind :: "controller \<Rightarrow> string" where
  "await_kind c = (if normalize_blocking_kind (m_blocking_kind (ct_meta c)) \<noteq> []
     then normalize_blocking_kind (m_blocking_kind (ct_meta c)) else ''ready'')"

lemma await_kind_range: "await_kind c \<in> set blocking_kinds" "await_kind c \<noteq> []"
  using normalize_blocking_kind_range
  by (simp_all add: await_kind_def blocking_kinds_def)

text \<open>What an agent-state event says, and what emitting it changes.\<close>

lemma agent_state_event:
  assumes "agent_state now message await c = (es, c')"
  shows "\<exists>e. es = [e] \<and> as_state e = ct_state c \<and> as_message e = message \<and> as_await_input e = await \<and>
    ev_session_id e = ct_session_id c \<and> as_command e = ct_command c \<and>
    m_claude_lifecycle (ev_meta e) = derive_lifecycle c \<and>
    m_blocking_kind (ev_meta e) = (if await then await_kind c else m_blocking_kind (ct_meta c)) \<and>
    m_resume_session_id (ev_meta e) = overlay_str (m_resume_session_id (ct_meta c)) (ct_resume c)"
    and "c' = set_lifecycle (derive_lifecycle c) c"
  using assms await_kind_range(2) [of c]
  by (auto simp: agent_state_def Let_def refresh_eq await_kind_def overlay_str_def derive_lifecycle_nonempty
      new_agent_state_event_def new_base_event_def event.defs agent_state_event.defs)

lemma agent_state_snd: "snd (agent_state now message await c) = set_lifecycle (derive_lifecycle c) c"
  using agent_state_event(2) [of now message await c] by (metis prod.collapse)

section \<open>Runs\<close>

datatype ctl_op =
    CExec string runtime_meta
  | CEvent payload
  | CInput runtime_meta
  | CFinished runtime_meta
  | CUserInput string
  | CMode string

fun ctl_do :: "time \<Rightarrow> ctl_op \<Rightarrow> controller \<Rightarrow> agent_state_event list \<times> controller" where
  "ctl_do now (CExec command m) c = on_exec_start now command m c"
| "ctl_do now (CEvent p) c = on_runner_event now p c"
| "ctl_do now (CInput m) c = on_input_sent now m c"
| "ctl_do now (CFinished m) c = on_command_finished now m c"
| "ctl_do now (CUserInput s) c = ([], record_user_input s c)"
| "ctl_do now (CMode m) c = ([], update_permission_mode m c)"

fun ctl_run :: "(time \<times> ctl_op) list \<Rightarrow> controller \<Rightarrow> agent_state_event list \<times> controller" where
  "ctl_run [] c = ([], c)"
| "ctl_run ((now, op) # ops) c =
     (case ctl_do now op c of (es, c1) \<Rightarrow> (case ctl_run ops c1 of (es', c2) \<Rightarrow> (es @ es', c2)))"

definition ctl_states :: "string set" where
  "ctl_states = {state_idle, state_thinking, state_wait_input, state_running_tool}"

text \<open>The invariant of a controller.\<close>

definition ctl_inv :: "controller \<Rightarrow> bool" where
  "ctl_inv c \<longleftrightarrow> ct_state c \<in> ctl_states \<and> ct_diff c = pick_active (ct_diffs c) \<and>
     (ct_lifecycle c = [] \<or> ct_lifecycle c \<in> set lifecycles) \<and> m_claude_lifecycle (ct_meta c) = ct_lifecycle c"

text \<open>An event that tells the truth about the controller after it.\<close>

definition event_ok :: "controller \<Rightarrow> agent_state_event \<Rightarrow> bool" where
  "event_ok c e \<longleftrightarrow> as_state e = ct_state c \<and> as_state e \<in> ctl_states \<and>
     as_await_input e = (as_state e = state_wait_input) \<and> ev_session_id e = ct_session_id c \<and>
     m_claude_lifecycle (ev_meta e) = ct_lifecycle c \<and> ct_lifecycle c \<in> set lifecycles \<and>
     (as_await_input e \<longrightarrow> m_blocking_kind (ev_meta e) \<in> set blocking_kinds)"

text \<open>Outcome of an operation: nothing is emitted and the phase stays, or one truthful event is.\<close>

definition op_ok :: "controller \<Rightarrow> agent_state_event list \<times> controller \<Rightarrow> bool" where
  "op_ok c r \<longleftrightarrow> ctl_inv (snd r) \<and> ct_session_id (snd r) = ct_session_id c \<and>
     ((fst r = [] \<and> ct_state (snd r) = ct_state c) \<or> (\<exists>e. fst r = [e] \<and> event_ok (snd r) e))"

lemma agent_state_ok:
  assumes "ct_state c1 \<in> ctl_states" and "await = (ct_state c1 = state_wait_input)"
    and "ct_diff c1 = pick_active (ct_diffs c1)" and "ct_session_id c1 = ct_session_id c"
  shows "op_ok c (agent_state now message await c1)"
proof -
  obtain es c' where r: "agent_state now message await c1 = (es, c')"
    by (cases "agent_state now message await c1")
  from agent_state_event [OF r] obtain e where "es = [e]" "event_ok c' e" and c': "c' = set_lifecycle (derive_lifecycle c1) c1"
    using assms derive_lifecycle_range [of c1] await_kind_range(1) [of c1] by (auto simp: event_ok_def)
  then show ?thesis
    unfolding r using assms derive_lifecycle_range [of c1] by (auto simp: op_ok_def ctl_inv_def)
qed

lemma silent_ok: "ctl_inv c' \<Longrightarrow> ct_state c' = ct_state c \<Longrightarrow> ct_session_id c' = ct_session_id c \<Longrightarrow> op_ok c ([], c')"
  by (simp add: op_ok_def)

lemma ctl_states_mem:
  "state_idle \<in> ctl_states" "state_thinking \<in> ctl_states" "state_wait_input \<in> ctl_states" "state_running_tool \<in> ctl_states"
  by (simp_all add: ctl_states_def)

lemma states_distinct:
  "state_thinking \<noteq> state_wait_input" "state_running_tool \<noteq> state_wait_input" "state_idle \<noteq> state_wait_input"
  "state_wait_input \<noteq> state_thinking" "state_idle \<noteq> state_thinking"
  by (simp_all add: state_defs)

lemma take_resume_sel [simp]:
  "ct_state (take_resume m c) = ct_state c" "ct_session_id (take_resume m c) = ct_session_id c"
  "ct_diffs (take_resume m c) = ct_diffs c" "ct_diff (take_resume m c) = ct_diff c"
  "ct_lifecycle (take_resume m c) = ct_lifecycle c" "ct_meta (take_resume m c) = ct_meta c"
  "ct_prompt_msg (take_resume m c) = ct_prompt_msg c"
  by (simp_all add: take_resume_def)

lemma take_lifecycle_sel [simp]:
  "ct_state (take_lifecycle m c) = ct_state c" "ct_session_id (take_lifecycle m c) = ct_session_id c"
  "ct_diffs (take_lifecycle m c) = ct_diffs c" "ct_diff (take_lifecycle m c) = ct_diff c"
  by (simp_all add: take_lifecycle_def)

lemma take_meta_sel [simp]:
  "ct_state (take_meta m c) = ct_state c" "ct_session_id (take_meta m c) = ct_session_id c"
  "ct_diffs (take_meta m c) = ct_diffs c" "ct_diff (take_meta m c) = ct_diff c"
  "ct_lifecycle (take_meta m c) = ct_lifecycle c" "ct_resume (take_meta m c) = ct_resume c"
  "ct_command (take_meta m c) = ct_command c" "ct_prompt_msg (take_meta m c) = ct_prompt_msg c"
  by (simp_all add: take_meta_def)

lemma inv_take_lifecycle: "ctl_inv c \<Longrightarrow> ctl_inv (take_lifecycle m c)"
  using normalize_lifecycle_range by (simp add: ctl_inv_def take_lifecycle_def)

lemma inv_take_resume: "ctl_inv c \<Longrightarrow> ctl_inv (take_resume m c)"
  by (simp add: ctl_inv_def)

lemma review_input_sel [simp]:
  "ct_state (review_input m c) = ct_state c" "ct_session_id (review_input m c) = ct_session_id c"
  "ct_lifecycle (review_input m c) = ct_lifecycle c" "ct_meta (review_input m c) = ct_meta c"
  "ct_command (review_input m c) = ct_command c"
  by (simp_all add: review_input_def mark_recent_diff_pending_def Let_def)

lemma review_input_active:
  "ct_diff c = pick_active (ct_diffs c) \<Longrightarrow> ct_diff (review_input m c) = pick_active (ct_diffs (review_input m c))"
  by (simp add: review_input_def Let_def)

lemma inv_states: "ctl_inv c \<Longrightarrow> ct_state c \<in> ctl_states" "ctl_inv c \<Longrightarrow> ct_diff c = pick_active (ct_diffs c)"
  by (simp_all add: ctl_inv_def)

lemma inv_dedup:
  "ctl_inv (c\<lparr>ct_step_msg := a, ct_step_status := b\<rparr>) = ctl_inv c"
  "ctl_inv (c\<lparr>ct_log_msg := a, ct_log_time := t\<rparr>) = ctl_inv c"
  by (simp_all add: ctl_inv_def)

lemma exec_start_ok: "ctl_inv c \<Longrightarrow> op_ok c (on_exec_start now command m c)"
  unfolding on_exec_start_def Let_def
  by (rule agent_state_ok) (simp_all add: ctl_states_mem states_distinct inv_states)

lemma prompt_ok: "ctl_inv c \<Longrightarrow> op_ok c (on_prompt now e c)"
  unfolding on_prompt_def Let_def
  by (simp add: agent_state_ok silent_ok ctl_states_mem inv_states)

lemma step_ok: "ctl_inv c \<Longrightarrow> op_ok c (on_step now e c)"
  unfolding on_step_def Let_def
  by (cases "su_message e = []")
     (simp_all add: agent_state_ok silent_ok inv_dedup ctl_states_mem states_distinct inv_states)

lemma file_diff_ok: "ctl_inv c \<Longrightarrow> op_ok c (on_file_diff now e c)"
  unfolding on_file_diff_def Let_def
  by (rule agent_state_ok) (simp_all add: ctl_states_mem states_distinct)

lemma log_ok:
  assumes "ctl_inv c"
  shows "op_ok c (on_log now e c)"
proof -
  let ?c = "take_lifecycle (ev_meta e) (take_resume (ev_meta e) c)"
  have inv: "ctl_inv ?c"
    by (intro inv_take_lifecycle inv_take_resume assms)
  show ?thesis
    unfolding on_log_def Let_def
    using inv assms by (simp add: agent_state_ok silent_ok inv_dedup ctl_states_mem inv_states)
qed

lemma runner_event_ok:
  assumes "ctl_inv c"
  shows "op_ok c (on_runner_event now p c)"
proof -
  have "ctl_inv (take_lifecycle m (take_resume m c))" for m
    by (intro inv_take_lifecycle inv_take_resume assms)
  then show ?thesis
    using assms
    by (cases p) (simp_all add: prompt_ok step_ok file_diff_ok log_ok silent_ok)
qed

lemma input_sent_ok: "ctl_inv c \<Longrightarrow> op_ok c (on_input_sent now m c)"
  unfolding on_input_sent_def Let_def
  by (simp add: agent_state_ok review_input_active ctl_states_mem states_distinct inv_states)

lemma command_finished_ok: "ctl_inv c \<Longrightarrow> op_ok c (on_command_finished now m c)"
  unfolding on_command_finished_def Let_def
  by (simp add: agent_state_ok ctl_states_mem states_distinct inv_states refresh_eq)

lemma ctl_do_ok: "ctl_inv c \<Longrightarrow> op_ok c (ctl_do now op c)"
  by (cases op)
     (auto simp: exec_start_ok runner_event_ok input_sent_ok command_finished_ok record_user_input_def
       update_permission_mode_def ctl_inv_def intro!: silent_ok)

lemma new_controller_inv: "ctl_inv (new_controller sid)"
  by (simp add: ctl_inv_def new_controller_def ctl_states_mem pick_active_def)

definition truthful :: "string \<Rightarrow> agent_state_event \<Rightarrow> bool" where
  "truthful sid e \<longleftrightarrow> as_state e \<in> ctl_states \<and> as_await_input e = (as_state e = state_wait_input) \<and>
     ev_session_id e = sid \<and> m_claude_lifecycle (ev_meta e) \<in> set lifecycles \<and>
     (as_await_input e \<longrightarrow> m_blocking_kind (ev_meta e) \<in> set blocking_kinds)"

lemma ctl_run_ok:
  assumes "ctl_run ops c = (es, c')" and "ctl_inv c"
  shows "ctl_inv c' \<and> ct_session_id c' = ct_session_id c \<and> (\<forall>e\<in>set es. truthful (ct_session_id c) e) \<and>
    ct_state c' = last (ct_state c # map as_state es)"
  using assms
proof (induction ops arbitrary: c es)
  case (Cons x ops)
  obtain now op where x: "x = (now, op)"
    by (cases x)
  obtain es1 c1 es2 where r: "ctl_do now op c = (es1, c1)" "ctl_run ops c1 = (es2, c')" "es = es1 @ es2"
    using Cons.prems(1) by (auto simp: x split: prod.splits)
  have ok: "ctl_inv c1" "ct_session_id c1 = ct_session_id c"
      "(es1 = [] \<and> ct_state c1 = ct_state c) \<or> (\<exists>e. es1 = [e] \<and> event_ok c1 e)"
    using ctl_do_ok [OF Cons.prems(2), of now op] by (simp_all add: op_ok_def r(1))
  note ih = Cons.IH [OF r(2) ok(1)]
  from ok(3) show ?case
  proof
    assume "es1 = [] \<and> ct_state c1 = ct_state c"
    then show ?thesis
      using ih ok(2) r(3) by simp
  next
    assume "\<exists>e. es1 = [e] \<and> event_ok c1 e"
    then obtain e where e: "es1 = [e]" "event_ok c1 e"
      by blast
    then have "truthful (ct_session_id c) e"
      using ok(2) by (auto simp: truthful_def event_ok_def)
    then show ?thesis
      using ih ok(2) e r(3) by (simp add: event_ok_def)
  qed
qed simp

section \<open>Properties\<close>

text \<open>
  C8: Whatever happens to a controller, the events it emits are consistent and complete. Every event carries
  the session's identifier, one of the four phases, one of the six lifecycles, waits for input exactly in the
  phase WAIT_INPUT, and then says for what with one of the five kinds; and the phase of the last event is the
  phase the controller is in, so no change of phase goes unannounced. The active diff is always the newest
  pending one, or the newest when none is pending.
\<close>

theorem controller_events_consistent:
  assumes "ctl_run ops (new_controller sid) = (es, c)"
  shows "(\<forall>e\<in>set es. truthful sid e) \<and> ct_state c = last (state_idle # map as_state es) \<and>
    ct_diff c = pick_active (ct_diffs c) \<and> m_claude_lifecycle (ct_meta c) = ct_lifecycle c \<and>
    (ct_lifecycle c = [] \<or> ct_lifecycle c \<in> set lifecycles)"
  using ctl_run_ok [OF assms new_controller_inv] by (simp add: ctl_inv_def new_controller_def)

definition demo_prompt :: "string \<Rightarrow> string \<Rightarrow> string \<Rightarrow> prompt_request_event" where
  "demo_prompt message kind rid =
     (new_prompt_request_event 1 ''s'' message [])\<lparr>ev_meta := empty_meta\<lparr>m_blocking_kind := kind, m_permission_request_id := rid\<rparr>\<rparr>"

theorem controller_events_consistent_witness:
  "map (\<lambda>e. (as_state e, as_await_input e, m_blocking_kind (ev_meta e)))
     (fst (ctl_run [(1, CExec ''claude'' empty_meta), (2, CEvent (EvPrompt (demo_prompt ''ok?'' ''permission'' ''r'')))]
        (new_controller ''s''))) =
     [(state_thinking, False, []), (state_wait_input, True, ''permission'')] \<and>
   ct_state (snd (ctl_run [(1, CExec ''claude'' empty_meta), (2, CEvent (EvPrompt (demo_prompt ''ok?'' ''permission'' ''r'')))]
        (new_controller ''s''))) = state_wait_input"
proof -
  let ?ops = "[(1, CExec ''claude'' empty_meta), (2, CEvent (EvPrompt (demo_prompt ''ok?'' ''permission'' ''r'')))]"
  let ?r = "ctl_run ?ops (new_controller ''s'')"
  have es: "map (\<lambda>e. (as_state e, as_await_input e, m_blocking_kind (ev_meta e))) (fst ?r) =
      [(state_thinking, False, []), (state_wait_input, True, ''permission'')]"
    by code_simp
  have "map as_state (fst ?r) = map fst (map (\<lambda>e. (as_state e, as_await_input e, m_blocking_kind (ev_meta e))) (fst ?r))"
    by simp
  also have "\<dots> = [state_thinking, state_wait_input]"
    unfolding es by simp
  finally have "map as_state (fst ?r) = [state_thinking, state_wait_input]" .
  then have "ct_state (snd ?r) = state_wait_input"
    using controller_events_consistent [of ?ops "''s''" "fst ?r" "snd ?r"] by simp
  with es show ?thesis
    by simp
qed

text \<open>
  A prompt that is delivered twice is announced once: right after a prompt was handled, handling the
  same prompt again emits nothing and changes nothing. A prompt with the same text that belongs to another
  permission request is announced again.
\<close>

theorem repeated_prompt_suppressed:
  "on_prompt later e (snd (on_prompt now e c)) = ([], snd (on_prompt now e c)) \<and>
   (trim_space (m_permission_request_id (ev_meta e)) \<noteq> [] \<and>
    trim_space (m_permission_request_id (ev_meta e)) \<noteq> trim_space (m_permission_request_id (ct_meta c)) \<longrightarrow>
      length (fst (on_prompt now e c)) = 1)"
proof
  let ?m = "ev_meta e"
  let ?dup = "\<lambda>c. pr_message e = ct_prompt_msg c \<and> ct_state c = state_wait_input \<and>
    (trim_space (m_permission_request_id ?m) = [] \<or>
     trim_space (m_permission_request_id ?m) = trim_space (m_permission_request_id (ct_meta c)))"
  have dup: "?dup c' \<Longrightarrow> on_prompt later e c' = ([], c')" for c'
    by (simp add: on_prompt_def Let_def)
  have rid: "trim_space (m_permission_request_id ?m) = [] \<or>
      trim_space (m_permission_request_id ?m) = trim_space (overlay_str x (m_permission_request_id ?m))" for x
    by (cases "m_permission_request_id ?m = []") (simp_all add: overlay_str_def)
  have "?dup (snd (on_prompt now e c))"
  proof (cases "?dup c")
    case True
    then show ?thesis
      by (simp add: on_prompt_def Let_def)
  next
    case False
    then show ?thesis
      unfolding on_prompt_def Let_def if_not_P [OF False] agent_state_snd
      using rid by simp
  qed
  then show "on_prompt later e (snd (on_prompt now e c)) = ([], snd (on_prompt now e c))"
    by (rule dup)
  have one: "length (fst (agent_state now message b c1)) = 1" for message b c1
    by (simp add: agent_state_def Let_def)
  show "trim_space (m_permission_request_id ?m) \<noteq> [] \<and>
    trim_space (m_permission_request_id ?m) \<noteq> trim_space (m_permission_request_id (ct_meta c)) \<longrightarrow>
      length (fst (on_prompt now e c)) = 1"
    by (simp add: on_prompt_def Let_def one)
qed

theorem repeated_prompt_suppressed_witness:
  "on_prompt 9 (demo_prompt ''ok?'' ''permission'' ''r'') (snd (on_prompt 5 (demo_prompt ''ok?'' ''permission'' ''r'') (new_controller ''s''))) =
     ([], snd (on_prompt 5 (demo_prompt ''ok?'' ''permission'' ''r'') (new_controller ''s''))) \<and>
   length (fst (on_prompt 5 (demo_prompt ''ok?'' ''permission'' ''r'') (new_controller ''s''))) = 1"
proof -
  have "trim_space ''r'' = ''r''"
    by code_simp
  then show ?thesis
    using repeated_prompt_suppressed [of 9 "demo_prompt ''ok?'' ''permission'' ''r''" 5 "new_controller ''s''"]
    by (simp add: demo_prompt_def new_controller_def)
qed

text \<open>
  What a session waited for is not cleared when it goes on: an event that reports a step carries the
  blocking kind the last prompt left behind although it says that no input is awaited. The empty kind
  \<open>newAgentStateEvent\<close> means to send is dropped by the merge, which ignores empty fields.
\<close>

theorem blocking_kind_survives_step:
  assumes "fst (on_step now e c) = [e']"
  shows "\<not> as_await_input e' \<and> as_state e' = state_running_tool \<and>
    m_blocking_kind (ev_meta e') = m_blocking_kind (ct_meta c)"
proof -
  have "\<not> (su_message e = ct_step_msg c \<and> (su_status e = ct_step_status c \<or> su_status e = []))"
      and "\<not> is_terminal_step_status (su_status e)"
    using assms by (auto simp: on_step_def Let_def split: if_splits)
  moreover from this obtain message c1 where
      "on_step now e c = agent_state now message False c1" "ct_state c1 = state_running_tool"
      "m_blocking_kind (ct_meta c1) = m_blocking_kind (ct_meta c)"
    by (cases "su_message e = []") (auto simp: on_step_def Let_def split: if_splits)
  moreover obtain es c' where "agent_state now message False c1 = (es, c')"
    by (cases "agent_state now message False c1")
  ultimately show ?thesis
    using agent_state_event(1) [of now message False c1 es c'] assms by auto
qed

definition demo_step :: step_update_event where
  "demo_step = event.extend (new_base_event 3 ''step_update'' ''s'')
     (step_update_event.fields ''reading'' [] ''main.go'' [] [])"

theorem blocking_kind_survives_step_witness:
  "\<exists>e'. fst (on_step 3 demo_step (snd (on_prompt 2 (demo_prompt ''ok?'' ''permission'' ''r'') (new_controller ''s'')))) = [e'] \<and>
     \<not> as_await_input e' \<and> m_blocking_kind (ev_meta e') = ''permission''"
proof -
  let ?c = "snd (on_prompt 2 (demo_prompt ''ok?'' ''permission'' ''r'') (new_controller ''s''))"
  have k: "m_blocking_kind (ct_meta ?c) = ''permission''"
    by code_simp
  have "length (fst (on_step 3 demo_step ?c)) = 1"
    by code_simp
  then obtain e' where e': "fst (on_step 3 demo_step ?c) = [e']"
    by (auto simp: length_Suc_conv)
  show ?thesis
    using blocking_kind_survives_step [OF e'] e' k by (intro exI [of _ e']) simp
qed

text \<open>
  A review decision settles the diffs it names and no others. Accepting or reverting by context or path
  makes every diff it matches not pending and leaves the rest of the list as it is, in its order; when it
  matches none and only one diff is under review, it is that one. Afterwards the active diff is again the
  newest pending one.
\<close>

theorem review_input_settles:
  assumes "m_source m = ''review-decision''" and "trim_space (m_target_text m) \<in> {''accept'', ''revert''}"
    and "hit = diff_matches (trim_space (m_context_id m)) (trim_space (m_target_path m))"
    and "c' = snd (on_input_sent now m c)"
  shows "((\<exists>d\<in>set (ct_diffs c). hit d) \<longrightarrow>
      ct_diffs c' = map (\<lambda>d. if hit d then set_pending False d else d) (ct_diffs c)) \<and>
    ((\<forall>d\<in>set (ct_diffs c). \<not> hit d) \<longrightarrow>
      ct_diffs c' = (if length (ct_diffs c) = 1 then map (set_pending False) (ct_diffs c) else ct_diffs c)) \<and>
    (\<forall>d\<in>set (ct_diffs c'). hit d \<longrightarrow> \<not> dx_pending d) \<and> ct_diff c' = pick_active (ct_diffs c')"
proof -
  let ?mark = "mark_recent_diff_pending (trim_space (m_context_id m)) (trim_space (m_target_path m)) False"
  have diffs: "ct_diffs c' = ct_diffs (?mark c)" and active: "ct_diff c' = pick_active (ct_diffs c')"
    using assms(1,2) unfolding assms(4) on_input_sent_def Let_def review_input_def
    by (auto simp: agent_state_snd mark_recent_diff_pending_def Let_def)
  have hit: "hit (set_pending False d) = hit d" for d
    by (simp add: assms(3) diff_matches_def set_pending_def)
  have fixed: "map (\<lambda>d. if hit d then set_pending False d else d) ds = ds" if "\<forall>d\<in>set ds. \<not> hit d" for ds
    using that by (induction ds) auto
  have eq: "ct_diffs (?mark c) =
      (let ds = map (\<lambda>d. if hit d then set_pending False d else d) (ct_diffs c)
       in if \<not> list_ex hit (ct_diffs c) \<and> length ds = 1 then map (set_pending False) ds else ds)"
    by (simp add: mark_recent_diff_pending_def Let_def assms(3))
  have "\<forall>d\<in>set (ct_diffs c'). hit d \<longrightarrow> \<not> dx_pending d"
    unfolding diffs eq Let_def by (auto simp: hit list_ex_iff set_pending_def split: if_splits)
  then show ?thesis
    using active fixed [of "ct_diffs c"]
    unfolding diffs eq Let_def by (auto simp: list_ex_iff)
qed

definition demo_diffs :: controller where
  "demo_diffs = (new_controller ''s'')\<lparr>ct_diffs :=
     [empty_diff\<lparr>dx_context_id := ''a'', dx_path := ''a.go'', dx_pending := True\<rparr>,
      empty_diff\<lparr>dx_context_id := ''b'', dx_path := ''b.go'', dx_pending := True\<rparr>]\<rparr>"

definition demo_accept :: runtime_meta where
  "demo_accept = empty_meta\<lparr>m_source := ''review-decision'', m_target_text := ''accept'', m_context_id := ''b''\<rparr>"

theorem review_input_settles_witness:
  "map dx_pending (ct_diffs (snd (on_input_sent 7 demo_accept demo_diffs))) = [True, False] \<and>
   dx_context_id (ct_diff (snd (on_input_sent 7 demo_accept demo_diffs))) = ''a''"
proof -
  let ?hit = "diff_matches (trim_space (m_context_id demo_accept)) (trim_space (m_target_path demo_accept))"
  let ?c = "snd (on_input_sent 7 demo_accept demo_diffs)"
  have meta: "m_source demo_accept = ''review-decision''" "trim_space (m_target_text demo_accept) \<in> {''accept'', ''revert''}"
    by (simp add: demo_accept_def, code_simp)
  have hits: "map ?hit (ct_diffs demo_diffs) = [False, True]"
    by code_simp
  then have ex: "\<exists>d\<in>set (ct_diffs demo_diffs). ?hit d"
    by (simp add: demo_diffs_def)
  have r: "ct_diffs ?c = map (\<lambda>d. if ?hit d then set_pending False d else d) (ct_diffs demo_diffs)"
      "ct_diff ?c = pick_active (ct_diffs ?c)"
    using review_input_settles [OF meta refl refl, of demo_diffs 7] ex by blast+
  have "map dx_pending (map (\<lambda>d. if ?hit d then set_pending False d else d) (ct_diffs demo_diffs)) = [True, False]"
    using hits by (simp add: demo_diffs_def set_pending_def)
  moreover have "dx_context_id (pick_active (map (\<lambda>d. if ?hit d then set_pending False d else d) (ct_diffs demo_diffs))) = ''a''"
    using hits by (simp add: demo_diffs_def set_pending_def pick_active_def)
  ultimately show ?thesis
    using r by simp
qed

text \<open>
  What a snapshot keeps of a controller is all that restoring needs: restoring the snapshot of a
  controller into any other one, in particular into a new one after a restart, yields a controller with the
  same snapshot.
\<close>

theorem snapshot_restore:
  assumes "ctl_run ops (new_controller sid) = (es, c)" and "sid \<noteq> []"
  shows "controller_snapshot_of (restore (controller_snapshot_of c) c0) = controller_snapshot_of c"
proof -
  have inv: "ctl_inv c" "ct_session_id c = sid"
    using ctl_run_ok [OF assms(1) new_controller_inv] by (simp_all add: new_controller_def)
  have norm: "normalize_lifecycle l = l" "trim_space l = l" if "l \<in> set lifecycles" for l
  proof -
    have "list_all (\<lambda>l. trim_space l = l) lifecycles"
      by code_simp
    then show "trim_space l = l"
      using that by (simp add: list_all_iff)
    then show "normalize_lifecycle l = l"
      using that by (simp add: normalize_lifecycle_def)
  qed
  have nil: "normalize_lifecycle [] = []"
    by (simp add: normalize_lifecycle_def)
  let ?l = "first_non_empty_string [normalize_lifecycle (ct_lifecycle c), normalize_lifecycle (m_claude_lifecycle (ct_meta c))]"
  have l: "?l = ct_lifecycle c"
  proof (cases "ct_lifecycle c = []")
    case True
    then show ?thesis
      using inv(1) nil by (simp add: ctl_inv_def)
  next
    case False
    then have "ct_lifecycle c \<in> set lifecycles"
      using inv(1) by (simp add: ctl_inv_def)
    then show ?thesis
      using norm False by simp
  qed
  have diffs: "ct_diffs c = [] \<Longrightarrow> ct_diff c = empty_diff"
    using inv(1) by (simp add: ctl_inv_def pick_active_def)
  have meta: "(ct_meta c)\<lparr>m_claude_lifecycle := ct_lifecycle c\<rparr> = ct_meta c"
    using inv(1) by (simp add: ctl_inv_def)
  show ?thesis
    using inv assms(2) diffs meta l
    by (auto simp: restore_def controller_snapshot_of_def Let_def ctl_inv_def set_lifecycle_def set_meta_def
        empty_diff_def)
qed

theorem snapshot_restore_witness:
  "controller_snapshot_of (restore (controller_snapshot_of
      (snd (ctl_run [(1, CExec ''claude'' empty_meta)] (new_controller ''s'')))) (new_controller ''other'')) =
   controller_snapshot_of (snd (ctl_run [(1, CExec ''claude'' empty_meta)] (new_controller ''s'')))"
  using snapshot_restore [of "[(1, CExec ''claude'' empty_meta)]" "''s''"
      "fst (ctl_run [(1, CExec ''claude'' empty_meta)] (new_controller ''s''))"
      "snd (ctl_run [(1, CExec ''claude'' empty_meta)] (new_controller ''s''))" "new_controller ''other''"]
  by simp

end
