(* ===== verification/Permissions.thy ===== *)
theory Permissions
  imports Controller
begin

text \<open>
  Permission prompts: which rule answers one without asking (\<open>session/permission_rules.go\<close>,
  \<open>gateway/permission_rules.go\<close>), what a decision of the user becomes (\<open>session/permission_router.go\<close>), when a
  pending prompt blocks further input (\<open>session/interaction_helpers.go\<close>), and the requests that manage the
  rules (\<open>gateway/gateway.go\<close>). The store is seen through the results of its reads and the effects a handler
  has on it; the texts are UTF-8 strings.
\<close>

section \<open>Requests\<close>

record permission_request =
  pq_action :: string
  pq_decision :: string
  pq_scope :: string
  pq_permission_mode :: string
  pq_request_id :: string
  pq_resume :: string
  pq_target_path :: string
  pq_context_id :: string
  pq_context_title :: string
  pq_prompt_message :: string
  pq_command :: string
  pq_cwd :: string
  pq_engine :: string
  pq_target :: string
  pq_target_type :: string

section \<open>What a prompt asks for\<close>

definition txt_network1 :: string where "txt_network1 = [CHR 0xE8, CHR 0x81, CHR 0x94, CHR 0xE7, CHR 0xBD,
  CHR 0x91]"
definition txt_network2 :: string where "txt_network2 = [CHR 0xE7, CHR 0xBD, CHR 0x91, CHR 0xE7, CHR 0xBB,
  CHR 0x9C]"
definition txt_command :: string where "txt_command = [CHR 0xE5, CHR 0x91, CHR 0xBD, CHR 0xE4, CHR 0xBB,
  CHR 0xA4]"
definition txt_modify_file :: string where "txt_modify_file = [CHR 0xE4, CHR 0xBF, CHR 0xAE, CHR 0xE6,
  CHR 0x94, CHR 0xB9, CHR 0xE6, CHR 0x96, CHR 0x87, CHR 0xE4, CHR 0xBB, CHR 0xB6]"
definition txt_file :: string where "txt_file = [CHR 0xE6, CHR 0x96, CHR 0x87, CHR 0xE4, CHR 0xBB, CHR 0xB6]"
definition txt_auto_rule :: string where "txt_auto_rule = [CHR 0xE8, CHR 0x87, CHR 0xAA, CHR 0xE5, CHR 0x8A,
  CHR 0xA8, CHR 0xE5, CHR 0x85, CHR 0x81, CHR 0xE8, CHR 0xAE, CHR 0xB8, CHR 0xE8, CHR 0xA7, CHR 0x84,
  CHR 0xE5, CHR 0x88, CHR 0x99]"
definition txt_dot :: string where "txt_dot = '' '' @ [CHR 0xC2, CHR 0xB7] @ '' ''"

definition classify_permission_kind :: "string \<Rightarrow> string \<Rightarrow> string \<Rightarrow> string" where
  "classify_permission_kind message target_path command =
     (let prompt = to_lower (trim_space message);
          command = to_lower (trim_space command)
      in if str_contains prompt ''network'' \<or> str_contains prompt txt_network1 \<or> str_contains prompt txt_network2
         then kind_network
         else if str_contains prompt ''command'' \<or> str_contains prompt txt_command \<or>
           (trim_space command \<noteq> [] \<and> target_path = [])
         then kind_shell
         else if str_contains prompt txt_modify_file \<or> str_contains prompt ''write'' \<or>
           str_contains prompt ''edit'' \<or> str_contains prompt txt_file
         then kind_write
         else kind_generic)"

definition permission_command_head :: "string \<Rightarrow> string" where
  "permission_command_head command = (case GoStrings.fields (trim_space (to_lower command)) of
     [] \<Rightarrow> [] | f # _ \<Rightarrow> f)"

record match_context =
  mc_engine :: string
  mc_kind :: string
  mc_command_head :: string
  mc_target_path :: string

definition engine_or_any :: "string list \<Rightarrow> string" where
  "engine_or_any values =
     (let e = trim_space (to_lower (first_non_empty_string values)) in if e = [] then ''any'' else e)"

definition context_from_decision ::
  "permission_request \<Rightarrow> projection \<Rightarrow> controller_snapshot \<Rightarrow> match_context" where
  "context_from_decision req p c =
     (let command = first_non_empty_string [pq_command req, rt_command (pj_runtime p), sn_command c, m_command (sn_meta c)];
          target = first_non_empty_string [pq_target_path req, m_target_path (sn_meta c), rt_cwd (pj_runtime p)]
      in \<lparr>mc_engine = engine_or_any [pq_engine req, m_engine (sn_meta c), rt_engine (pj_runtime p)],
          mc_kind = classify_permission_kind (pq_prompt_message req) target command,
          mc_command_head = permission_command_head command, mc_target_path = target\<rparr>)"

definition context_from_prompt ::
  "string \<Rightarrow> runtime_meta \<Rightarrow> projection \<Rightarrow> controller_snapshot \<Rightarrow> match_context" where
  "context_from_prompt message m p c =
     (let command = first_non_empty_string [m_command m, rt_command (pj_runtime p), sn_command c, m_command (sn_meta c)];
          target = first_non_empty_string [m_target_path m, m_target_path (sn_meta c)]
      in \<lparr>mc_engine = engine_or_any [m_engine m, m_engine (sn_meta c), rt_engine (pj_runtime p)],
          mc_kind = classify_permission_kind message target command,
          mc_command_head = permission_command_head command, mc_target_path = target\<rparr>)"

definition decision_from_event ::
  "string \<Rightarrow> runtime_meta \<Rightarrow> projection \<Rightarrow> controller_snapshot \<Rightarrow> permission_request" where
  "decision_from_event message m p c = \<lparr>pq_action = ''permission_decision'', pq_decision = ''approve'', pq_scope = [],
     pq_permission_mode = first_non_empty_string [m_permission_mode m, m_permission_mode (sn_meta c),
       rt_permission_mode (pj_runtime p)],
     pq_request_id = trim_space (m_permission_request_id m),
     pq_resume = first_non_empty_string [m_resume_session_id m, sn_resume c, m_resume_session_id (sn_meta c),
       rt_resume_session_id (pj_runtime p)],
     pq_target_path = trim_space (m_target_path m), pq_context_id = trim_space (m_context_id m),
     pq_context_title = trim_space (m_context_title m), pq_prompt_message = trim_space message,
     pq_command = first_non_empty_string [m_command m, rt_command (pj_runtime p), sn_command c, m_command (sn_meta c)],
     pq_cwd = first_non_empty_string [m_cwd m, m_cwd (sn_meta c), rt_cwd (pj_runtime p)],
     pq_engine = first_non_empty_string [m_engine m, m_engine (sn_meta c), rt_engine (pj_runtime p)],
     pq_target = trim_space (m_target m), pq_target_type = trim_space (m_target_type m)\<rparr>"

definition looks_like_permission_prompt :: "prompt_request_event \<Rightarrow> bool" where
  "looks_like_permission_prompt e \<longleftrightarrow>
     (case pr_options e of
        a # b # _ \<Rightarrow> to_lower (trim_space a) \<in> {''y'', ''yes'', ''approve''} \<and>
          to_lower (trim_space b) \<in> {''n'', ''no'', ''deny''}
      | _ \<Rightarrow> False) \<or>
     (let kind = classify_permission_kind (pr_message e) (trim_space (m_target_path (ev_meta e)))
        (trim_space (m_command (ev_meta e)))
      in kind \<noteq> [] \<and> kind \<noteq> kind_generic)"

definition action_value :: "interaction_action \<Rightarrow> string" where
  "action_value a = to_lower (trim_space (first_non_empty_string [ia_decision a, ia_value a, ia_label a]))"

definition looks_like_permission_interaction :: "interaction_request_event \<Rightarrow> bool" where
  "looks_like_permission_interaction e \<longleftrightarrow>
     str_contains (to_lower (trim_space (ir_kind e))) ''permission'' \<or>
     (list_ex (\<lambda>a. action_value a \<in> {''approve'', ''allow'', ''accept'', ''yes'', ''y''}) (ir_actions e) \<and>
      list_ex (\<lambda>a. action_value a \<in> {''deny'', ''reject'', ''no'', ''n''}) (ir_actions e)) \<or>
     (let kind = classify_permission_kind (first_non_empty_string [ir_message e, ir_title e])
        (trim_space (first_non_empty_string [ir_target_path e, m_target_path (ev_meta e)]))
        (trim_space (m_command (ev_meta e)))
      in kind \<noteq> [] \<and> kind \<noteq> kind_generic)"

section \<open>Rules\<close>

text \<open>
  \<open>strings.ToUpper(s[:1]) + s[1:]\<close>: the first byte alone is not valid UTF-8 when it is not ASCII, and then
  becomes the replacement character.
\<close>

definition upper_first :: "string \<Rightarrow> string" where
  "upper_first s = (case s of
     [] \<Rightarrow> []
   | c # cs \<Rightarrow> (if byte c < 128 then [upper_char c] else [CHR 0xEF, CHR 0xBF, CHR 0xBD]) @ cs)"

definition summarize_rule :: "match_context \<Rightarrow> string" where
  "summarize_rule ctx =
     (let parts = (if mc_engine ctx \<noteq> [] \<and> mc_engine ctx \<noteq> ''any'' then [upper_first (mc_engine ctx)] else []) @
            (if mc_kind ctx \<noteq> [] then [mc_kind ctx] else []) @
            (if mc_command_head ctx \<noteq> [] then [mc_command_head ctx] else []) @
            (if trim_space (mc_target_path ctx) \<noteq> [] then [mc_target_path ctx] else [])
      in if parts = [] then txt_auto_rule else join txt_dot parts)"

definition permission_rule_id :: "permission_rule \<Rightarrow> string" where
  "permission_rule_id r = join ''|'' [trim_space (pm_scope r), trim_space (pm_engine r), trim_space (pm_kind r),
     trim_space (pm_command_head r), trim_space (pm_target_path_prefix r)]"

definition build_permission_rule ::
  "time \<Rightarrow> permission_request \<Rightarrow> string \<Rightarrow> projection \<Rightarrow> controller_snapshot \<Rightarrow> permission_rule" where
  "build_permission_rule now req scope p c =
     (let ctx = context_from_decision req p c;
          r = \<lparr>pm_id = [], pm_scope = (if trim_space scope = [] then scope_session else trim_space scope),
            pm_enabled = True, pm_engine = mc_engine ctx, pm_kind = mc_kind ctx,
            pm_command_head = mc_command_head ctx, pm_target_path_prefix = trim_space (pq_target_path req),
            pm_summary = summarize_rule ctx, pm_created_at = now, pm_last_matched_at = 0, pm_match_count = 0\<rparr>
      in r\<lparr>pm_id := permission_rule_id r\<rparr>)"

text \<open>The tests of the loop of \<open>MatchPermissionRule\<close>, which returns the first rule that passes them all.\<close>

definition rule_applies :: "match_context \<Rightarrow> permission_rule \<Rightarrow> bool" where
  "rule_applies ctx r \<longleftrightarrow> pm_enabled r \<and>
     \<not> (pm_engine r \<noteq> [] \<and> pm_engine r \<noteq> ''any'' \<and> pm_engine r \<noteq> mc_engine ctx) \<and>
     \<not> (pm_kind r \<noteq> [] \<and> pm_kind r \<noteq> kind_generic \<and> pm_kind r \<noteq> mc_kind ctx) \<and>
     \<not> (pm_command_head r \<noteq> [] \<and> pm_command_head r \<noteq> mc_command_head ctx) \<and>
     \<not> (pm_target_path_prefix r \<noteq> [] \<and> \<not> has_prefix (mc_target_path ctx) (pm_target_path_prefix r))"

fun match_permission_rule :: "permission_rule list \<Rightarrow> match_context \<Rightarrow> permission_rule option" where
  "match_permission_rule [] ctx = None"
| "match_permission_rule (r # rs) ctx = (if rule_applies ctx r then Some r else match_permission_rule rs ctx)"

definition mark_rule_matched :: "time \<Rightarrow> permission_rule list \<Rightarrow> string \<Rightarrow> permission_rule list" where
  "mark_rule_matched now rules rid =
     map (\<lambda>r. if pm_id r = rid
       then r\<lparr>pm_match_count := wrap64 (pm_match_count r + 1), pm_last_matched_at := now\<rparr> else r) rules"

definition upsert_permission_rule :: "permission_rule list \<Rightarrow> permission_rule \<Rightarrow> permission_rule list" where
  "upsert_permission_rule rules rule =
     (let rule = (if trim_space (pm_id rule) = [] then rule\<lparr>pm_id := permission_rule_id rule\<rparr> else rule)
      in upsert_first (\<lambda>r. pm_id r = pm_id rule)
           (\<lambda>r. rule\<lparr>pm_created_at := pm_created_at r, pm_last_matched_at := pm_last_matched_at r,
             pm_match_count := pm_match_count r\<rparr>) rule rules)"

definition delete_permission_rule :: "permission_rule list \<Rightarrow> string \<Rightarrow> permission_rule list" where
  "delete_permission_rule rules rid = filter (\<lambda>r. pm_id r \<noteq> rid) rules"

definition toggle_permission_rules :: "permission_rule list \<Rightarrow> bool \<Rightarrow> permission_rule list" where
  "toggle_permission_rules rules enabled = map (\<lambda>r. r\<lparr>pm_enabled := (enabled \<and> pm_enabled r)\<rparr>) rules"

text \<open>
  Rules on the wire carry their times as RFC 3339 texts: \<open>fmt\<close> and \<open>parse\<close> are \<open>Time.Format\<close> and \<open>time.Parse\<close>
  with that layout.
\<close>

record wire_rule =
  wr_id :: string
  wr_scope :: string
  wr_enabled :: bool
  wr_engine :: string
  wr_kind :: string
  wr_command_head :: string
  wr_target_path_prefix :: string
  wr_summary :: string
  wr_created_at :: string
  wr_last_matched_at :: string
  wr_match_count :: int

definition to_wire_rule :: "(time \<Rightarrow> string) \<Rightarrow> permission_rule \<Rightarrow> wire_rule" where
  "to_wire_rule fmt r = \<lparr>wr_id = pm_id r, wr_scope = pm_scope r, wr_enabled = pm_enabled r, wr_engine = pm_engine r,
     wr_kind = pm_kind r, wr_command_head = pm_command_head r, wr_target_path_prefix = pm_target_path_prefix r,
     wr_summary = pm_summary r,
     wr_created_at = (if is_zero (pm_created_at r) then [] else fmt (pm_created_at r)),
     wr_last_matched_at = (if is_zero (pm_last_matched_at r) then [] else fmt (pm_last_matched_at r)),
     wr_match_count = pm_match_count r\<rparr>"

definition from_wire_rule :: "(string \<Rightarrow> time option) \<Rightarrow> wire_rule \<Rightarrow> permission_rule" where
  "from_wire_rule parse w = \<lparr>pm_id = trim_space (wr_id w),
     pm_scope = (if trim_space (wr_scope w) = [] then scope_session else trim_space (wr_scope w)),
     pm_enabled = wr_enabled w, pm_engine = trim_space (to_lower (wr_engine w)),
     pm_kind = (if trim_space (wr_kind w) = [] then kind_generic else trim_space (wr_kind w)),
     pm_command_head = trim_space (to_lower (wr_command_head w)),
     pm_target_path_prefix = trim_space (wr_target_path_prefix w), pm_summary = trim_space (wr_summary w),
     pm_created_at = (case parse (trim_space (wr_created_at w)) of Some t \<Rightarrow> t | None \<Rightarrow> 0),
     pm_last_matched_at = (case parse (trim_space (wr_last_matched_at w)) of Some t \<Rightarrow> t | None \<Rightarrow> 0),
     pm_match_count = wr_match_count w\<rparr>"

section \<open>What a decision becomes\<close>

datatype decision_action = Direct | DenyThenInput | AutoThenDirect

record decision_plan =
  dp_action :: decision_action
  dp_decision :: string
  dp_meta :: runtime_meta
  dp_prompt :: string

datatype decision_error = ErrDecisionRequired | ErrDecisionUnknown

definition permission_decision_intent :: "permission_request \<Rightarrow> string" where
  "permission_decision_intent req =
     (let text = to_lower (trim_space (join '' '' [pq_prompt_message req, pq_target_type req, pq_command req]))
      in if str_contains text ''read'' \<or> str_contains text ''view'' \<or> str_contains text [CHR 0xE6,
        CHR 0x9F, CHR 0xA5, CHR 0xE7, CHR 0x9C, CHR 0x8B] \<or>
           str_contains text [CHR 0xE8, CHR 0xAF, CHR 0xBB, CHR 0xE5, CHR 0x8F, CHR 0x96]
         then ''read''
         else if str_contains text ''bash'' \<or> str_contains text ''command'' \<or> str_contains text txt_command
         then kind_shell
         else kind_write)"

definition newline :: string where "newline = [CHR 0x0A]"

definition txt_requested_operation :: string where "txt_requested_operation = [CHR 0xE5, CHR 0x88, CHR 0x9A,
  CHR 0xE6, CHR 0x89, CHR 0x8D, CHR 0xE8, CHR 0xAF, CHR 0xB7, CHR 0xE6, CHR 0xB1, CHR 0x82, CHR 0xE7,
  CHR 0x9A, CHR 0x84, CHR 0xE6, CHR 0x93, CHR 0x8D, CHR 0xE4, CHR 0xBD, CHR 0x9C]"

definition txt_approved_read :: string where
  "txt_approved_read = [CHR 0xE7, CHR 0x94, CHR 0xA8, CHR 0xE6, CHR 0x88, CHR 0xB7, CHR 0xE5, CHR 0xB7,
    CHR 0xB2, CHR 0xE6, CHR 0x89, CHR 0xB9, CHR 0xE5, CHR 0x87, CHR 0x86, CHR 0xE5, CHR 0x88, CHR 0x9A,
    CHR 0xE6, CHR 0x89, CHR 0x8D, CHR 0xE8, CHR 0xAF, CHR 0xB7, CHR 0xE6, CHR 0xB1, CHR 0x82, CHR 0xE7,
    CHR 0x9A, CHR 0x84, CHR 0xE5, CHR 0x8F, CHR 0xAA, CHR 0xE8, CHR 0xAF, CHR 0xBB] @ ''/'' @ [CHR 0xE6,
    CHR 0x9F, CHR 0xA5, CHR 0xE7, CHR 0x9C, CHR 0x8B, CHR 0xE6, CHR 0x9D, CHR 0x83, CHR 0xE9, CHR 0x99,
    CHR 0x90, CHR 0xE3, CHR 0x80, CHR 0x82, CHR 0xE8, CHR 0xAF, CHR 0xB7, CHR 0xE5, CHR 0x9C, CHR 0xA8,
    CHR 0xE5, CHR 0xBD, CHR 0x93, CHR 0xE5, CHR 0x89, CHR 0x8D, CHR 0xE5, CHR 0xB7, CHR 0xB2, CHR 0xE4,
    CHR 0xBF, CHR 0x9D, CHR 0xE5, CHR 0xAD, CHR 0x98, CHR 0xE7, CHR 0x9A, CHR 0x84, CHR 0xE4, CHR 0xBC,
    CHR 0x9A, CHR 0xE8, CHR 0xAF, CHR 0x9D, CHR 0xE4, CHR 0xB8, CHR 0x8A, CHR 0xE4, CHR 0xB8, CHR 0x8B,
    CHR 0xE6, CHR 0x96, CHR 0x87, CHR 0xE4, CHR 0xB8, CHR 0xAD, CHR 0xE7, CHR 0xBB, CHR 0xA7, CHR 0xE7,
    CHR 0xBB, CHR 0xAD, CHR 0xE5, CHR 0x88, CHR 0x9A, CHR 0xE6, CHR 0x89, CHR 0x8D, CHR 0xE8, CHR 0xA2,
    CHR 0xAB, CHR 0xE6, CHR 0x9D, CHR 0x83, CHR 0xE9, CHR 0x99, CHR 0x90, CHR 0xE6, CHR 0x8B, CHR 0xA6,
    CHR 0xE6, CHR 0x88, CHR 0xAA, CHR 0xE7, CHR 0x9A, CHR 0x84, CHR 0xE8, CHR 0xAF, CHR 0xBB, CHR 0xE5,
    CHR 0x8F, CHR 0x96, CHR 0xE6, CHR 0x88, CHR 0x96, CHR 0xE6, CHR 0x9F, CHR 0xA5, CHR 0xE7, CHR 0x9C,
    CHR 0x8B, CHR 0xE6, CHR 0x93, CHR 0x8D, CHR 0xE4, CHR 0xBD, CHR 0x9C, CHR 0xEF, CHR 0xBC, CHR 0x8C,
    CHR 0xE4, CHR 0xB8, CHR 0x8D, CHR 0xE8, CHR 0xA6, CHR 0x81, CHR 0xE6, CHR 0x89, CHR 0xA7, CHR 0xE8,
    CHR 0xA1, CHR 0x8C, CHR 0xE7, CHR 0xBC, CHR 0x96, CHR 0xE8, CHR 0xBE, CHR 0x91, CHR 0xE3, CHR 0x80,
    CHR 0x81, CHR 0xE5, CHR 0x86, CHR 0x99, CHR 0xE5, CHR 0x85, CHR 0xA5, CHR 0xE6, CHR 0x88, CHR 0x96,
    CHR 0xE5, CHR 0x85, CHR 0xB6, CHR 0xE5, CHR 0xAE, CHR 0x83, CHR 0xE5, CHR 0x89, CHR 0xAF, CHR 0xE4,
    CHR 0xBD, CHR 0x9C, CHR 0xE7, CHR 0x94, CHR 0xA8, CHR 0xE5, CHR 0x8A, CHR 0xA8, CHR 0xE4, CHR 0xBD,
    CHR 0x9C, CHR 0xE3, CHR 0x80, CHR 0x82, CHR 0xE7, CHR 0x9B, CHR 0xAE, CHR 0xE6, CHR 0xA0, CHR 0x87,
    CHR 0xEF, CHR 0xBC, CHR 0x9A]"

definition txt_approved_shell :: string where
  "txt_approved_shell = [CHR 0xE7, CHR 0x94, CHR 0xA8, CHR 0xE6, CHR 0x88, CHR 0xB7, CHR 0xE5, CHR 0xB7,
    CHR 0xB2, CHR 0xE6, CHR 0x89, CHR 0xB9, CHR 0xE5, CHR 0x87, CHR 0x86, CHR 0xE5, CHR 0x88, CHR 0x9A,
    CHR 0xE6, CHR 0x89, CHR 0x8D, CHR 0xE8, CHR 0xAF, CHR 0xB7, CHR 0xE6, CHR 0xB1, CHR 0x82, CHR 0xE7,
    CHR 0x9A, CHR 0x84, CHR 0xE5, CHR 0x91, CHR 0xBD, CHR 0xE4, CHR 0xBB, CHR 0xA4, CHR 0xE6, CHR 0x89,
    CHR 0xA7, CHR 0xE8, CHR 0xA1, CHR 0x8C, CHR 0xE6, CHR 0x9D, CHR 0x83, CHR 0xE9, CHR 0x99, CHR 0x90,
    CHR 0xE3, CHR 0x80, CHR 0x82, CHR 0xE8, CHR 0xAF, CHR 0xB7, CHR 0xE5, CHR 0x9C, CHR 0xA8, CHR 0xE5,
    CHR 0xBD, CHR 0x93, CHR 0xE5, CHR 0x89, CHR 0x8D, CHR 0xE5, CHR 0xB7, CHR 0xB2, CHR 0xE4, CHR 0xBF,
    CHR 0x9D, CHR 0xE5, CHR 0xAD, CHR 0x98, CHR 0xE7, CHR 0x9A, CHR 0x84, CHR 0xE4, CHR 0xBC, CHR 0x9A,
    CHR 0xE8, CHR 0xAF, CHR 0x9D, CHR 0xE4, CHR 0xB8, CHR 0x8A, CHR 0xE4, CHR 0xB8, CHR 0x8B, CHR 0xE6,
    CHR 0x96, CHR 0x87, CHR 0xE4, CHR 0xB8, CHR 0xAD, CHR 0xE7, CHR 0xBB, CHR 0xA7, CHR 0xE7, CHR 0xBB,
    CHR 0xAD, CHR 0xE5, CHR 0x88, CHR 0x9A, CHR 0xE6, CHR 0x89, CHR 0x8D, CHR 0xE8, CHR 0xA2, CHR 0xAB,
    CHR 0xE6, CHR 0x9D, CHR 0x83, CHR 0xE9, CHR 0x99, CHR 0x90, CHR 0xE6, CHR 0x8B, CHR 0xA6, CHR 0xE6,
    CHR 0x88, CHR 0xAA, CHR 0xE7, CHR 0x9A, CHR 0x84, CHR 0xE5, CHR 0x91, CHR 0xBD, CHR 0xE4, CHR 0xBB,
    CHR 0xA4, CHR 0xE6, CHR 0x89, CHR 0xA7, CHR 0xE8, CHR 0xA1, CHR 0x8C, CHR 0xEF, CHR 0xBC, CHR 0x9B,
    CHR 0xE8, CHR 0xAF, CHR 0xB7, CHR 0xE9, CHR 0x87, CHR 0x8D, CHR 0xE6, CHR 0x96, CHR 0xB0, CHR 0xE5,
    CHR 0x8F, CHR 0x91, CHR 0xE8, CHR 0xB5, CHR 0xB7, CHR 0xE6, CHR 0x96, CHR 0xB0, CHR 0xE7, CHR 0x9A,
    CHR 0x84, CHR 0xE5, CHR 0x91, CHR 0xBD, CHR 0xE4, CHR 0xBB, CHR 0xA4, CHR 0xE8, CHR 0xB0, CHR 0x83,
    CHR 0xE7, CHR 0x94, CHR 0xA8, CHR 0xEF, CHR 0xBC, CHR 0x8C, CHR 0xE4, CHR 0xB8, CHR 0x8D, CHR 0xE8,
    CHR 0xA6, CHR 0x81, CHR 0xE6, CHR 0x8A, CHR 0x8A, CHR 0xE8, CHR 0xAF, CHR 0xA5, CHR 0xE6, CHR 0x9D,
    CHR 0x83, CHR 0xE9, CHR 0x99, CHR 0x90, CHR 0xE8, CHR 0xA7, CHR 0xA3, CHR 0xE9, CHR 0x87, CHR 0x8A,
    CHR 0xE4, CHR 0xB8, CHR 0xBA, CHR 0xE6, CHR 0x96, CHR 0x87, CHR 0xE4, CHR 0xBB, CHR 0xB6, CHR 0xE5,
    CHR 0x86, CHR 0x99, CHR 0xE5, CHR 0x85, CHR 0xA5, CHR 0xE4, CHR 0xBB, CHR 0xBB, CHR 0xE5, CHR 0x8A,
    CHR 0xA1, CHR 0xE3, CHR 0x80, CHR 0x82, CHR 0xE7, CHR 0x9B, CHR 0xAE, CHR 0xE6, CHR 0xA0, CHR 0x87,
    CHR 0xEF, CHR 0xBC, CHR 0x9A]"

definition txt_approved_write :: string where
  "txt_approved_write = [CHR 0xE7, CHR 0x94, CHR 0xA8, CHR 0xE6, CHR 0x88, CHR 0xB7, CHR 0xE5, CHR 0xB7,
    CHR 0xB2, CHR 0xE6, CHR 0x89, CHR 0xB9, CHR 0xE5, CHR 0x87, CHR 0x86, CHR 0xE5, CHR 0x88, CHR 0x9A,
    CHR 0xE6, CHR 0x89, CHR 0x8D, CHR 0xE8, CHR 0xAF, CHR 0xB7, CHR 0xE6, CHR 0xB1, CHR 0x82, CHR 0xE7,
    CHR 0x9A, CHR 0x84, CHR 0xE6, CHR 0x96, CHR 0x87, CHR 0xE4, CHR 0xBB, CHR 0xB6, CHR 0xE4, CHR 0xBF,
    CHR 0xAE, CHR 0xE6, CHR 0x94, CHR 0xB9] @ ''/'' @ [CHR 0xE5, CHR 0x86, CHR 0x99, CHR 0xE5, CHR 0x85,
    CHR 0xA5, CHR 0xE6, CHR 0x9D, CHR 0x83, CHR 0xE9, CHR 0x99, CHR 0x90, CHR 0xE3, CHR 0x80, CHR 0x82,
    CHR 0xE8, CHR 0xAF, CHR 0xB7, CHR 0xE5, CHR 0x9C, CHR 0xA8, CHR 0xE5, CHR 0xBD, CHR 0x93, CHR 0xE5,
    CHR 0x89, CHR 0x8D, CHR 0xE5, CHR 0xB7, CHR 0xB2, CHR 0xE4, CHR 0xBF, CHR 0x9D, CHR 0xE5, CHR 0xAD,
    CHR 0x98, CHR 0xE7, CHR 0x9A, CHR 0x84, CHR 0xE4, CHR 0xBC, CHR 0x9A, CHR 0xE8, CHR 0xAF, CHR 0x9D,
    CHR 0xE4, CHR 0xB8, CHR 0x8A, CHR 0xE4, CHR 0xB8, CHR 0x8B, CHR 0xE6, CHR 0x96, CHR 0x87, CHR 0xE4,
    CHR 0xB8, CHR 0xAD, CHR 0xE7, CHR 0xBB, CHR 0xA7, CHR 0xE7, CHR 0xBB, CHR 0xAD, CHR 0xE5, CHR 0x88,
    CHR 0x9A, CHR 0xE6, CHR 0x89, CHR 0x8D, CHR 0xE8, CHR 0xA2, CHR 0xAB, CHR 0xE6, CHR 0x9D, CHR 0x83,
    CHR 0xE9, CHR 0x99, CHR 0x90, CHR 0xE6, CHR 0x8B, CHR 0xA6, CHR 0xE6, CHR 0x88, CHR 0xAA, CHR 0xE7,
    CHR 0x9A, CHR 0x84, CHR 0xE4, CHR 0xBB, CHR 0xBB, CHR 0xE5, CHR 0x8A, CHR 0xA1, CHR 0xE3, CHR 0x80,
    CHR 0x82, CHR 0xE6, CHR 0x89, CHR 0xA7, CHR 0xE8, CHR 0xA1, CHR 0x8C, CHR 0xE8, CHR 0xA6, CHR 0x81,
    CHR 0xE6, CHR 0xB1, CHR 0x82, CHR 0xEF, CHR 0xBC, CHR 0x9A, CHR 0xE5, CHR 0x85, CHR 0x88, CHR 0xE9,
    CHR 0x87, CHR 0x8D, CHR 0xE6, CHR 0x96, CHR 0xB0, CHR 0xE8, CHR 0xAF, CHR 0xBB, CHR 0xE5, CHR 0x8F,
    CHR 0x96, CHR 0xE7, CHR 0x9B, CHR 0xAE, CHR 0xE6, CHR 0xA0, CHR 0x87, CHR 0xE6, CHR 0x96, CHR 0x87,
    CHR 0xE4, CHR 0xBB, CHR 0xB6, CHR 0xE7, CHR 0x9A, CHR 0x84, CHR 0xE5, CHR 0xBD, CHR 0x93, CHR 0xE5,
    CHR 0x89, CHR 0x8D, CHR 0xE5, CHR 0x86, CHR 0x85, CHR 0xE5, CHR 0xAE, CHR 0xB9, CHR 0xEF, CHR 0xBC,
    CHR 0x8C, CHR 0xE5, CHR 0x86, CHR 0x8D, CHR 0xE5, CHR 0x9F, CHR 0xBA, CHR 0xE4, CHR 0xBA, CHR 0x8E,
    CHR 0xE6, CHR 0x9C, CHR 0x80, CHR 0xE6, CHR 0x96, CHR 0xB0, CHR 0xE5, CHR 0x86, CHR 0x85, CHR 0xE5,
    CHR 0xAE, CHR 0xB9, CHR 0xE7, CHR 0xBB, CHR 0xA7, CHR 0xE7, CHR 0xBB, CHR 0xAD, CHR 0xE5, CHR 0x88,
    CHR 0x9A, CHR 0xE6, CHR 0x89, CHR 0x8D, CHR 0xE7, CHR 0x9A, CHR 0x84, CHR 0xE4, CHR 0xBF, CHR 0xAE,
    CHR 0xE6, CHR 0x94, CHR 0xB9, CHR 0xEF, CHR 0xBC, CHR 0x9B, CHR 0xE5, CHR 0x8F, CHR 0xAA, CHR 0xE6,
    CHR 0x9C, CHR 0x89, CHR 0xE5, CHR 0x9C, CHR 0xA8, CHR 0xE9, CHR 0x87, CHR 0x8D, CHR 0xE6, CHR 0x96,
    CHR 0xB0, CHR 0xE8, CHR 0xAF, CHR 0xBB, CHR 0xE5, CHR 0x8F, CHR 0x96, CHR 0xE5, CHR 0xAE, CHR 0x8C,
    CHR 0xE6, CHR 0x88, CHR 0x90, CHR 0xE5, CHR 0x90, CHR 0x8E, CHR 0xEF, CHR 0xBC, CHR 0x8C, CHR 0xE6,
    CHR 0x89, CHR 0x8D, CHR 0xE9, CHR 0x87, CHR 0x8D, CHR 0xE8, CHR 0xAF, CHR 0x95, CHR 0xE5, CHR 0x88,
    CHR 0x9A, CHR 0xE6, CHR 0x89, CHR 0x8D, CHR 0xE8, CHR 0xA2, CHR 0xAB, CHR 0xE6, CHR 0x8B, CHR 0xA6,
    CHR 0xE6, CHR 0x88, CHR 0xAA, CHR 0xE7, CHR 0x9A, CHR 0x84, CHR 0xE7, CHR 0xBC, CHR 0x96, CHR 0xE8,
    CHR 0xBE, CHR 0x91, CHR 0xE6, CHR 0x88, CHR 0x96, CHR 0xE5, CHR 0x86, CHR 0x99, CHR 0xE5, CHR 0x85,
    CHR 0xA5, CHR 0xE5, CHR 0xB7, CHR 0xA5, CHR 0xE5, CHR 0x85, CHR 0xB7, CHR 0xE8, CHR 0xB0, CHR 0x83,
    CHR 0xE7, CHR 0x94, CHR 0xA8, CHR 0xE3, CHR 0x80, CHR 0x82, CHR 0xE4, CHR 0xB8, CHR 0x8D, CHR 0xE8,
    CHR 0xA6, CHR 0x81, CHR 0xE5, CHR 0x86, CHR 0x8D, CHR 0xE6, CHR 0xAC, CHR 0xA1, CHR 0xE5, CHR 0x90,
    CHR 0x91, CHR 0xE7, CHR 0x94, CHR 0xA8, CHR 0xE6, CHR 0x88, CHR 0xB7, CHR 0xE8, CHR 0xAF, CHR 0xB7,
    CHR 0xE6, CHR 0xB1, CHR 0x82, CHR 0xE5, CHR 0x90, CHR 0x8C, CHR 0xE4, CHR 0xB8, CHR 0x80, CHR 0xE6,
    CHR 0x9D, CHR 0x83, CHR 0xE9, CHR 0x99, CHR 0x90, CHR 0xEF, CHR 0xBC, CHR 0x8C, CHR 0xE7, CHR 0x9B,
    CHR 0xB4, CHR 0xE6, CHR 0x8E, CHR 0xA5, CHR 0xE7, CHR 0xBB, CHR 0xA7, CHR 0xE7, CHR 0xBB, CHR 0xAD,
    CHR 0xE5, CHR 0xAE, CHR 0x8C, CHR 0xE6, CHR 0x88, CHR 0x90, CHR 0xE5, CHR 0x8D, CHR 0xB3, CHR 0xE5,
    CHR 0x8F, CHR 0xAF, CHR 0xE3, CHR 0x80, CHR 0x82, CHR 0xE7, CHR 0x9B, CHR 0xAE, CHR 0xE6, CHR 0xA0,
    CHR 0x87, CHR 0xEF, CHR 0xBC, CHR 0x9A]"

definition txt_denied_write :: string where
  "txt_denied_write = [CHR 0xE7, CHR 0x94, CHR 0xA8, CHR 0xE6, CHR 0x88, CHR 0xB7, CHR 0xE6, CHR 0x8B,
    CHR 0x92, CHR 0xE7, CHR 0xBB, CHR 0x9D, CHR 0xE4, CHR 0xBA, CHR 0x86, CHR 0xE5, CHR 0x88, CHR 0x9A,
    CHR 0xE6, CHR 0x89, CHR 0x8D, CHR 0xE8, CHR 0xAF, CHR 0xB7, CHR 0xE6, CHR 0xB1, CHR 0x82, CHR 0xE7,
    CHR 0x9A, CHR 0x84, CHR 0xE6, CHR 0x96, CHR 0x87, CHR 0xE4, CHR 0xBB, CHR 0xB6, CHR 0xE4, CHR 0xBF,
    CHR 0xAE, CHR 0xE6, CHR 0x94, CHR 0xB9] @ ''/'' @ [CHR 0xE5, CHR 0x86, CHR 0x99, CHR 0xE5, CHR 0x85,
    CHR 0xA5, CHR 0xE6, CHR 0x9D, CHR 0x83, CHR 0xE9, CHR 0x99, CHR 0x90, CHR 0xE3, CHR 0x80, CHR 0x82,
    CHR 0xE8, CHR 0xAF, CHR 0xB7, CHR 0xE4, CHR 0xB8, CHR 0x8D, CHR 0xE8, CHR 0xA6, CHR 0x81, CHR 0xE7,
    CHR 0xBB, CHR 0xA7, CHR 0xE7, CHR 0xBB, CHR 0xAD, CHR 0xE5, CHR 0x86, CHR 0x99, CHR 0xE5, CHR 0x85,
    CHR 0xA5, CHR 0xE6, CHR 0x88, CHR 0x96, CHR 0xE7, CHR 0xBC, CHR 0x96, CHR 0xE8, CHR 0xBE, CHR 0x91,
    CHR 0xE8, CHR 0xAF, CHR 0xA5, CHR 0xE7, CHR 0x9B, CHR 0xAE, CHR 0xE6, CHR 0xA0, CHR 0x87, CHR 0xEF,
    CHR 0xBC, CHR 0x8C, CHR 0xE5, CHR 0xB9, CHR 0xB6, CHR 0xE5, CHR 0x9F, CHR 0xBA, CHR 0xE4, CHR 0xBA,
    CHR 0x8E, CHR 0xE5, CHR 0xBD, CHR 0x93, CHR 0xE5, CHR 0x89, CHR 0x8D, CHR 0xE4, CHR 0xB8, CHR 0x8A,
    CHR 0xE4, CHR 0xB8, CHR 0x8B, CHR 0xE6, CHR 0x96, CHR 0x87, CHR 0xE7, CHR 0xBB, CHR 0x99, CHR 0xE5,
    CHR 0x87, CHR 0xBA, CHR 0xE4, CHR 0xB8, CHR 0x8D, CHR 0xE5, CHR 0x86, CHR 0x99, CHR 0xE6, CHR 0x96,
    CHR 0x87, CHR 0xE4, CHR 0xBB, CHR 0xB6, CHR 0xE7, CHR 0x9A, CHR 0x84, CHR 0xE6, CHR 0x9B, CHR 0xBF,
    CHR 0xE4, CHR 0xBB, CHR 0xA3, CHR 0xE6, CHR 0x96, CHR 0xB9, CHR 0xE6, CHR 0xA1, CHR 0x88, CHR 0xE6,
    CHR 0x88, CHR 0x96, CHR 0xE4, CHR 0xB8, CHR 0x8B, CHR 0xE4, CHR 0xB8, CHR 0x80, CHR 0xE6, CHR 0xAD,
    CHR 0xA5, CHR 0xE5, CHR 0xBB, CHR 0xBA, CHR 0xE8, CHR 0xAE, CHR 0xAE, CHR 0xE3, CHR 0x80, CHR 0x82,
    CHR 0xE7, CHR 0x9B, CHR 0xAE, CHR 0xE6, CHR 0xA0, CHR 0x87, CHR 0xEF, CHR 0xBC, CHR 0x9A]"

definition decision_lines :: "permission_request \<Rightarrow> string list" where
  "decision_lines req =
     (if pq_request_id req \<noteq> [] then [''PermissionRequestID: '' @ pq_request_id req] else []) @
     (if pq_resume req \<noteq> [] then [''ResumeSessionID: '' @ pq_resume req] else []) @
     (if pq_target_path req \<noteq> [] then [''TargetPath: '' @ pq_target_path req] else []) @
     (if pq_context_id req \<noteq> [] then [''ContextID: '' @ pq_context_id req] else []) @
     (if pq_context_title req \<noteq> [] then [''ContextTitle: '' @ pq_context_title req] else []) @
     (if pq_permission_mode req \<noteq> [] then [''PermissionMode: '' @ pq_permission_mode req] else []) @
     (if trim_space (pq_prompt_message req) \<noteq> [] then [''OriginalPrompt: '' @ trim_space (pq_prompt_message req)] else [])"

definition build_permission_decision_prompt :: "string \<Rightarrow> permission_request \<Rightarrow> decision_error + string" where
  "build_permission_decision_prompt decision req =
     (let decision = trim_space (to_lower decision);
          subject = (if trim_space (pq_target_path req) \<noteq> [] then trim_space (pq_target_path req)
            else if trim_space (pq_context_title req) \<noteq> [] then trim_space (pq_context_title req)
            else txt_requested_operation);
          tail = subject @ newline @ join newline (decision_lines req) @ newline
      in if decision = [] then Inl ErrDecisionRequired
         else if decision = ''approve''
         then Inr ((if permission_decision_intent req = ''read'' then txt_approved_read
             else if permission_decision_intent req = kind_shell then txt_approved_shell
             else txt_approved_write) @ tail)
         else if decision = ''deny'' then Inr (txt_denied_write @ tail)
         else Inl ErrDecisionUnknown)"

definition effective_mode :: "string list \<Rightarrow> string" where
  "effective_mode modes = first_non_empty_string modes"

definition decision_meta :: "string \<Rightarrow> permission_request \<Rightarrow> projection \<Rightarrow> controller_snapshot \<Rightarrow> runtime_meta" where
  "decision_meta decision req p c =
     (let m = sn_meta c in empty_meta\<lparr>m_source := ''permission-decision'',
       m_resume_session_id := first_non_empty_string [pq_resume req, sn_resume c, m_resume_session_id m,
         rt_resume_session_id (pj_runtime p)],
       m_context_id := first_non_empty_string [pq_context_id req, m_context_id m],
       m_context_title := first_non_empty_string [pq_context_title req, m_context_title m],
       m_target_path := first_non_empty_string [pq_target_path req, m_target_path m],
       m_target_text := decision,
       m_command := first_non_empty_string [pq_command req, rt_command (pj_runtime p), sn_command c, m_command m],
       m_engine := first_non_empty_string [pq_engine req, m_engine m],
       m_cwd := first_non_empty_string [pq_cwd req, m_cwd m, rt_cwd (pj_runtime p)],
       m_target := first_non_empty_string [pq_target req, m_target m],
       m_target_type := first_non_empty_string [pq_target_type req, m_target_type m],
       m_permission_mode := effective_mode [pq_permission_mode req, m_permission_mode m,
         rt_permission_mode (pj_runtime p)],
       m_permission_request_id := trim_space (pq_request_id req)\<rparr>)"

definition build_permission_decision_plan ::
  "permission_request \<Rightarrow> projection \<Rightarrow> controller_snapshot \<Rightarrow> decision_error + decision_plan" where
  "build_permission_decision_plan req p c =
     (let decision = trim_space (to_lower (pq_decision req));
          m = decision_meta decision req p c
      in if \<not> is_claude_command_like (m_command m)
         then Inr \<lparr>dp_action = Direct, dp_decision = decision, dp_meta = m, dp_prompt = []\<rparr>
         else if decision = ''deny''
         then (case build_permission_decision_prompt decision req of
             Inl e \<Rightarrow> Inl e
           | Inr prompt \<Rightarrow> Inr \<lparr>dp_action = DenyThenInput, dp_decision = decision, dp_meta = m, dp_prompt = prompt\<rparr>)
         else Inr \<lparr>dp_action = Direct, dp_decision = decision, dp_meta = m, dp_prompt = []\<rparr>)"

section \<open>Pending prompts\<close>

text \<open>
  \<open>RefreshedPermissionPromptEventWithID\<close>: the service, when there is one, is given by the metadata of its
  runtime snapshot and of its controller.
\<close>

definition refresh_meta ::
  "permission_request \<Rightarrow> (runtime_meta \<times> runtime_meta) option \<Rightarrow> string \<Rightarrow> runtime_meta" where
  "refresh_meta req svc rid =
     (let m = empty_meta\<lparr>m_source := ''permission-refresh'', m_resume_session_id := trim_space (pq_resume req),
            m_command := trim_space (pq_command req), m_engine := trim_space (pq_engine req),
            m_cwd := trim_space (pq_cwd req), m_permission_mode := normalize_permission_mode (pq_permission_mode req),
            m_permission_request_id := rid, m_blocking_kind := ''permission'',
            m_context_id := trim_space (pq_context_id req), m_context_title := trim_space (pq_context_title req),
            m_target_path := trim_space (pq_target_path req), m_target := trim_space (pq_target req),
            m_target_type := trim_space (pq_target_type req)\<rparr>
      in case svc of
           None \<Rightarrow> m
         | Some (runtime, ctl) \<Rightarrow>
             let m = (merge_runtime_meta m (merge_runtime_meta runtime ctl))
                   \<lparr>m_source := ''permission-refresh'', m_permission_request_id := rid, m_blocking_kind := ''permission''\<rparr>
             in if trim_space (pq_permission_mode req) \<noteq> []
                then m\<lparr>m_permission_mode := normalize_permission_mode (trim_space (pq_permission_mode req))\<rparr> else m)"

definition txt_needs_permission :: string where "txt_needs_permission = [CHR 0xE5, CHR 0xBD, CHR 0x93,
  CHR 0xE5, CHR 0x89, CHR 0x8D, CHR 0xE6, CHR 0x93, CHR 0x8D, CHR 0xE4, CHR 0xBD, CHR 0x9C, CHR 0xE9,
  CHR 0x9C, CHR 0x80, CHR 0xE8, CHR 0xA6, CHR 0x81, CHR 0xE4, CHR 0xBD, CHR 0xA0, CHR 0xE7, CHR 0x9A,
  CHR 0x84, CHR 0xE6, CHR 0x8E, CHR 0x88, CHR 0xE6, CHR 0x9D, CHR 0x83]"

definition refreshed_prompt_with_id ::
  "time \<Rightarrow> string \<Rightarrow> permission_request \<Rightarrow> (runtime_meta \<times> runtime_meta) option \<Rightarrow> string \<Rightarrow> prompt_request_event option" where
  "refreshed_prompt_with_id now sid req svc request_id =
     (let rid = trim_space request_id;
          message = (if trim_space (pq_prompt_message req) = [] then txt_needs_permission
            else trim_space (pq_prompt_message req))
      in if rid = [] then None
         else (case apply_runtime_meta (EvPrompt (new_prompt_request_event now sid message [''y'', ''n'']))
             (refresh_meta req svc rid) of
             EvPrompt e \<Rightarrow> Some e | _ \<Rightarrow> None))"

definition text_prompt_id :: string where "text_prompt_id = ''__text_permission_prompt__''"

definition meta_blocks_input :: "runtime_meta \<Rightarrow> string \<Rightarrow> bool" where
  "meta_blocks_input m rid \<longleftrightarrow>
     trim_space (to_lower (m_blocking_kind m)) = ''permission'' \<and>
     (rid = [] \<or> rid = text_prompt_id \<or> trim_space (m_permission_request_id m) = [] \<or>
      trim_space (m_permission_request_id m) = rid)"

definition prompt_has_permission_intent :: "prompt_request_event \<Rightarrow> bool" where
  "prompt_has_permission_intent e \<longleftrightarrow>
     list_ex (str_contains (to_lower (trim_space (pr_message e))))
       [''permission'', ''authorize'', ''authorization'', ''approval'', ''allow once'', ''allow this time'',
        ''always allow'', ''always deny'', [CHR 0xE6, CHR 0x8E, CHR 0x88, CHR 0xE6, CHR 0x9D, CHR 0x83],
          [CHR 0xE6, CHR 0x9D, CHR 0x83, CHR 0xE9, CHR 0x99, CHR 0x90], [CHR 0xE5, CHR 0x85, CHR 0x81,
          CHR 0xE8, CHR 0xAE, CHR 0xB8]]"

text \<open>
  \<open>ShouldBlockInputForPendingPermission\<close>. The responder is given by the identifier of its pending request,
  when it has one; the service by its controller snapshot, the metadata of its runtime snapshot and whether
  that accepts input; the lookup by \<open>LatestPendingPermissionPrompt\<close> and \<open>LatestPendingPrompt\<close>.
\<close>

definition should_block_input ::
  "string option \<Rightarrow> (controller_snapshot \<times> runtime_meta \<times> bool) option \<Rightarrow> projection \<Rightarrow>
   ((string \<Rightarrow> prompt_request_event option) \<times> prompt_request_event option) option \<Rightarrow> bool" where
  "should_block_input responder svc p pending = (case responder of
     None \<Rightarrow> False
   | Some request_id \<Rightarrow>
       let rid = trim_space request_id;
           (ctl, meta, accepts) = (case svc of Some s \<Rightarrow> s | None \<Rightarrow> (empty_controller, empty_meta, False))
       in if list_ex (\<lambda>m. meta_blocks_input m rid) [sn_meta ctl, meta, sn_meta (pj_controller p)] then True
          else if rid \<noteq> [] \<and> rid \<noteq> text_prompt_id then True
          else (case pending of
              None \<Rightarrow> False
            | Some (permission_prompt, latest) \<Rightarrow>
                if rid \<noteq> [] \<and> permission_prompt rid \<noteq> None then True
                else (case latest of
                    None \<Rightarrow> False
                  | Some e \<Rightarrow>
                      if meta_blocks_input (ev_meta e) rid then True
                      else if \<not> accepts then False
                      else is_ai_command (first_non_empty_string [m_command (ev_meta e), m_command meta, sn_command ctl,
                          rt_command (pj_runtime p), sn_command (pj_controller p)]) \<and>
                        prompt_has_permission_intent e)))"

section \<open>Managing the rules\<close>

text \<open>
  The requests of the gateway's connection loop. A read of the store gives an error text or a value; a
  handler's effects are the writes it makes and the events it emits, in order. The outcome of a write is
  given too. \<open>RuleList\<close> stands for \<open>emitPermissionRuleList\<close>, which reads the store again.
\<close>

datatype rule_effect =
    SaveRules permission_rule_snapshot
  | SaveProjection string projection
  | EmitError string string
  | RuleList string

definition save_and_list :: "string \<Rightarrow> string option \<Rightarrow> rule_effect \<Rightarrow> rule_effect list" where
  "save_and_list sid failed write =
     (case failed of Some msg \<Rightarrow> [write, EmitError sid msg] | None \<Rightarrow> [write, RuleList sid])"

definition change_rules ::
  "string \<Rightarrow> string \<Rightarrow> string + permission_rule_snapshot \<Rightarrow> string + projection \<Rightarrow> string option \<Rightarrow>
   (permission_rule_snapshot \<Rightarrow> permission_rule_snapshot) \<Rightarrow> (projection \<Rightarrow> projection) \<Rightarrow> rule_effect list" where
  "change_rules sid scope rules record failed f g =
     (if scope = scope_persistent
      then (case rules of
          Inl msg \<Rightarrow> [EmitError sid msg]
        | Inr snapshot \<Rightarrow> save_and_list sid failed (SaveRules (f snapshot)))
      else (case record of
          Inl msg \<Rightarrow> [EmitError sid msg]
        | Inr p \<Rightarrow> save_and_list sid failed (SaveProjection sid (g p))))"

definition handle_rule_upsert ::
  "(string \<Rightarrow> time option) \<Rightarrow> string \<Rightarrow> wire_rule \<Rightarrow> string + permission_rule_snapshot \<Rightarrow> string + projection \<Rightarrow>
   string option \<Rightarrow> rule_effect list" where
  "handle_rule_upsert parse sid w rules record failed =
     (let rule = from_wire_rule parse w in
      if trim_space (pm_id rule) = [] then [EmitError sid ''permission rule id is required'']
      else change_rules sid (pm_scope rule) rules record failed
        (\<lambda>s. s\<lparr>ps_items := upsert_permission_rule (ps_items s) rule\<rparr>)
        (\<lambda>p. p\<lparr>pj_rules := upsert_permission_rule (pj_rules p) rule\<rparr>))"

definition handle_rule_delete ::
  "string \<Rightarrow> string \<Rightarrow> string \<Rightarrow> string + permission_rule_snapshot \<Rightarrow> string + projection \<Rightarrow> string option \<Rightarrow> rule_effect list" where
  "handle_rule_delete sid rid scope rules record failed =
     change_rules sid (trim_space scope) rules record failed
       (\<lambda>s. s\<lparr>ps_items := delete_permission_rule (ps_items s) (trim_space rid)\<rparr>)
       (\<lambda>p. p\<lparr>pj_rules := delete_permission_rule (pj_rules p) (trim_space rid)\<rparr>)"

definition handle_rules_set_enabled ::
  "string \<Rightarrow> bool \<Rightarrow> string \<Rightarrow> string + permission_rule_snapshot \<Rightarrow> string + projection \<Rightarrow> string option \<Rightarrow> rule_effect list" where
  "handle_rules_set_enabled sid enabled scope rules record failed =
     change_rules sid (trim_space scope) rules record failed
       (\<lambda>s. s\<lparr>ps_enabled := enabled\<rparr>) (\<lambda>p. p\<lparr>pj_rules_enabled := enabled\<rparr>)"

text \<open>\<open>emitPermissionRuleList\<close>: the lists it sends. A session that cannot be read counts as enabled and without rules.\<close>

definition permission_rule_list ::
  "(time \<Rightarrow> string) \<Rightarrow> string \<Rightarrow> string + permission_rule_snapshot \<Rightarrow> string + projection \<Rightarrow>
   string + (bool \<times> bool \<times> wire_rule list \<times> wire_rule list)" where
  "permission_rule_list fmt sid rules record =
     (let (enabled, items) = (if trim_space sid = [] then (True, [])
            else (case record of
                Inl _ \<Rightarrow> (True, [])
              | Inr p \<Rightarrow> (pj_rules_enabled p, map (to_wire_rule fmt) (pj_rules p))))
      in case rules of
           Inl msg \<Rightarrow> Inl msg
         | Inr s \<Rightarrow> Inr (enabled, ps_enabled s, items, map (to_wire_rule fmt) (ps_items s)))"

section \<open>Lemmas\<close>

lemma first_non_empty_same:
  "trim_space x = trim_space y \<Longrightarrow> first_non_empty_string (x # vs) = first_non_empty_string (y # vs)"
  by simp

lemma first_non_empty_absorb [simp]:
  "first_non_empty_string (first_non_empty_string (v # vs) # vs) = first_non_empty_string (v # vs)"
  by simp

lemma permission_rule_id_nonblank: "trim_space (permission_rule_id r) \<noteq> []"
proof -
  have "CHR ''|'' \<in> set (permission_rule_id r)" and "printable CHR ''|''"
    by (simp_all add: permission_rule_id_def printable_def byte_def)
  then show ?thesis
    using printable_trim_space by fastforce
qed

lemma match_permission_rule_find: "match_permission_rule rules ctx = find (rule_applies ctx) rules"
  by (induction rules) auto

lemma match_some_applies: "match_permission_rule rules ctx = Some r \<Longrightarrow> r \<in> set rules \<and> rule_applies ctx r"
  by (induction rules) (auto split: if_splits)

lemma match_none: "match_permission_rule rules ctx = None \<longleftrightarrow> (\<forall>r\<in>set rules. \<not> rule_applies ctx r)"
  by (induction rules) auto

section \<open>The rule table\<close>

datatype rule_op =
    Upsert permission_rule
  | Delete string
  | Toggle bool
  | Mark time string

fun rule_do :: "rule_op \<Rightarrow> permission_rule list \<Rightarrow> permission_rule list" where
  "rule_do (Upsert r) rules = upsert_permission_rule rules r"
| "rule_do (Delete rid) rules = delete_permission_rule rules rid"
| "rule_do (Toggle b) rules = toggle_permission_rules rules b"
| "rule_do (Mark now rid) rules = mark_rule_matched now rules rid"

definition rule_run :: "rule_op list \<Rightarrow> permission_rule list \<Rightarrow> permission_rule list" where
  "rule_run ops rules = fold rule_do ops rules"

definition table_ok :: "permission_rule list \<Rightarrow> bool" where
  "table_ok rules \<longleftrightarrow> distinct (map pm_id rules) \<and> (\<forall>r\<in>set rules. trim_space (pm_id r) \<noteq> [])"

lemma table_ok_same_ids:
  assumes "map pm_id rules' = map pm_id rules" and "table_ok rules"
  shows "table_ok rules'"
proof -
  have ids: "pm_id ` set rules' = pm_id ` set rules"
    using arg_cong [OF assms(1), of set] by simp
  have "trim_space (pm_id r) \<noteq> []" if "r \<in> set rules'" for r
  proof -
    from that have "pm_id r \<in> pm_id ` set rules"
      unfolding ids [symmetric] by (rule imageI)
    then show ?thesis
      using assms(2) by (auto simp: table_ok_def)
  qed
  then show ?thesis
    using assms by (simp add: table_ok_def)
qed

definition named :: "permission_rule \<Rightarrow> permission_rule" where
  "named r = (if trim_space (pm_id r) = [] then r\<lparr>pm_id := permission_rule_id r\<rparr> else r)"

lemma named_nonblank [simp]: "trim_space (pm_id (named r)) \<noteq> []"
  by (simp add: named_def permission_rule_id_nonblank)

lemma upsert_permission_rule_eq:
  "upsert_permission_rule rules rule = upsert_first (\<lambda>r. pm_id r = pm_id (named rule))
     (\<lambda>r. (named rule)\<lparr>pm_created_at := pm_created_at r, pm_last_matched_at := pm_last_matched_at r,
        pm_match_count := pm_match_count r\<rparr>) (named rule) rules"
  by (simp add: upsert_permission_rule_def named_def Let_def)

lemma rule_do_ok:
  assumes "table_ok rules"
  shows "table_ok (rule_do op rules)"
proof (cases op)
  case (Upsert rule)
  have "distinct (map pm_id (upsert_permission_rule rules rule))"
    unfolding upsert_permission_rule_eq
    using assms by (intro distinct_upsert_first) (auto simp: table_ok_def)
  moreover have "\<forall>r\<in>set (upsert_permission_rule rules rule). trim_space (pm_id r) \<noteq> []"
    unfolding upsert_permission_rule_eq
    using assms set_upsert_first [of "\<lambda>r. pm_id r = pm_id (named rule)"] by (fastforce simp: table_ok_def)
  ultimately show ?thesis
    using Upsert by (simp add: table_ok_def)
next
  case (Delete rid)
  then show ?thesis
    using assms by (auto simp: table_ok_def delete_permission_rule_def distinct_map_filter)
next
  case (Toggle b)
  then show ?thesis
    by (auto intro: table_ok_same_ids [OF _ assms] simp: toggle_permission_rules_def)
next
  case (Mark now rid)
  then show ?thesis
    by (auto intro: table_ok_same_ids [OF _ assms] simp: mark_rule_matched_def)
qed

lemma rule_run_ok: "table_ok rules \<Longrightarrow> table_ok (rule_run ops rules)"
  unfolding rule_run_def by (induction ops arbitrary: rules) (auto simp: rule_do_ok)

section \<open>Properties\<close>


definition demo_rule :: permission_rule where
  "demo_rule = \<lparr>pm_id = ''r'', pm_scope = scope_session, pm_enabled = True, pm_engine = ''claude'', pm_kind = kind_write,
     pm_command_head = ''claude'', pm_target_path_prefix = ''/src'', pm_summary = ''Claude'', pm_created_at = 5,
     pm_last_matched_at = 0, pm_match_count = 0\<rparr>"


lemma classify_kinds: "classify_permission_kind message target command \<in> {kind_write, kind_shell, kind_network, kind_generic}"
  by (simp add: classify_permission_kind_def Let_def)

lemma classify_nonempty [simp]: "classify_permission_kind message target command \<noteq> []"
  using classify_kinds [of message target command]
  by (auto simp: kind_write_def kind_shell_def kind_network_def kind_generic_def)

lemma classify_trim [simp]:
  "classify_permission_kind (trim_space message) target command = classify_permission_kind message target command"
  by (simp add: classify_permission_kind_def)

lemma rule_applies_built:
  "rule_applies ctx (build_permission_rule now req scope p c) \<longleftrightarrow>
     (let d = context_from_decision req p c in
      (mc_engine d = [] \<or> mc_engine d = ''any'' \<or> mc_engine d = mc_engine ctx) \<and>
      (mc_kind d = kind_generic \<or> mc_kind d = mc_kind ctx) \<and>
      (mc_command_head d = [] \<or> mc_command_head d = mc_command_head ctx) \<and>
      (trim_space (pq_target_path req) = [] \<or> has_prefix (mc_target_path ctx) (trim_space (pq_target_path req))))"
proof -
  have "mc_kind (context_from_decision req p c) \<noteq> []"
    by (simp add: context_from_decision_def Let_def del: first_non_empty_string.simps)
  then show ?thesis
    by (auto simp: rule_applies_def build_permission_rule_def Let_def)
qed

text \<open>
  C30: A permission the user grants for good covers the request it was granted for: when the decision carries
  the fields of the prompt, and the prompt names a path or the session has no working directory, then the rule
  built from the decision applies to the same prompt, and once it is in the table some rule answers the
  prompt without asking.
\<close>

theorem approved_rule_covers_prompt:
  assumes "first_non_empty_string [m_target_path m, m_target_path (sn_meta c)] \<noteq> [] \<or> trim_space (rt_cwd (pj_runtime p)) = []"
    and "rule = build_permission_rule now (decision_from_event message m p c) scope p c"
    and "trim_space scope \<in> {scope_session, scope_persistent}"
  shows "rule_applies (context_from_prompt message m p c) rule \<and>
    match_permission_rule (upsert_permission_rule rules rule) (context_from_prompt message m p c) \<noteq> None"
proof -
  let ?req = "decision_from_event message m p c"
  have target: "mc_target_path (context_from_decision ?req p c) = mc_target_path (context_from_prompt message m p c)"
    using assms(1) by (auto simp: context_from_decision_def context_from_prompt_def decision_from_event_def Let_def)
  have ctx: "context_from_decision ?req p c = context_from_prompt message m p c"
    using target
    by (simp add: context_from_decision_def context_from_prompt_def decision_from_event_def Let_def engine_or_any_def)
  have prefix: "trim_space (m_target_path m) = [] \<or>
      has_prefix (mc_target_path (context_from_prompt message m p c)) (trim_space (m_target_path m))"
    by (simp add: context_from_prompt_def Let_def)
  have applies: "rule_applies (context_from_prompt message m p c) rule"
    unfolding assms(2) rule_applies_built ctx using prefix by (simp add: decision_from_event_def Let_def)
  have "\<exists>r\<in>set (upsert_permission_rule rules rule). rule_applies (context_from_prompt message m p c) r"
  proof -
    let ?f = "\<lambda>r. (named rule)\<lparr>pm_created_at := pm_created_at r, pm_last_matched_at := pm_last_matched_at r,
      pm_match_count := pm_match_count r\<rparr>"
    have f: "rule_applies ctx (?f r) = rule_applies ctx rule" "rule_applies ctx (named rule) = rule_applies ctx rule" for ctx r
      by (simp_all add: rule_applies_def named_def)
    have "\<exists>r\<in>set (upsert_first q ?f (named rule) rs). rule_applies (context_from_prompt message m p c) r" for q rs
      by (induction rs) (use applies f in auto)
    then show ?thesis
      unfolding upsert_permission_rule_eq by blast
  qed
  then have "match_permission_rule (upsert_permission_rule rules rule) (context_from_prompt message m p c) \<noteq> None"
    unfolding match_none by blast
  with applies show ?thesis
    by simp
qed

definition demo_prompt_meta :: runtime_meta where
  "demo_prompt_meta = empty_meta\<lparr>m_engine := ''claude'', m_command := ''claude'', m_target_path := ''/src/a.go''\<rparr>"

theorem approved_rule_covers_prompt_witness:
  "rule_applies (context_from_prompt ''write?'' demo_prompt_meta empty_projection empty_controller)
     (build_permission_rule 7 (decision_from_event ''write?'' demo_prompt_meta empty_projection empty_controller) ''session''
       empty_projection empty_controller)"
proof -
  have "trim_space (rt_cwd (pj_runtime empty_projection)) = []" "trim_space ''session'' = scope_session"
    by code_simp+
  then show ?thesis
    using approved_rule_covers_prompt [of demo_prompt_meta empty_controller empty_projection _ 7 "''write?''" "''session''"]
    by simp
qed

text \<open>
  C31: A permission granted for one command answers everything: when a prompt without a target path asks to run
  a command and its text does not say so, but the session has a working directory, then the decision classifies
  the request with that directory as its target, no longer as a command, and the rule it builds is of the
  generic kind without a path. Every later prompt of the same engine and command, be it to write a file
  anywhere or to use the network, is then approved without asking.
\<close>

theorem shell_approval_answers_everything:
  assumes "trim_space (m_target_path m) = []" and "trim_space (m_target_path (sn_meta c)) = []"
    and "trim_space (rt_cwd (pj_runtime p)) \<noteq> []"
    and "trim_space (m_command m) \<noteq> []"
    and "classify_permission_kind message (trim_space (rt_cwd (pj_runtime p))) (trim_space (m_command m)) = kind_generic"
    and "rule = build_permission_rule now (decision_from_event message m p c) scope p c"
    and "ctx = context_from_prompt message m p c"
  shows "mc_kind ctx = kind_shell \<and> pm_kind rule = kind_generic \<and> pm_target_path_prefix rule = [] \<and>
    rule_applies (ctx\<lparr>mc_kind := kind, mc_target_path := path\<rparr>) rule"
proof -
  let ?req = "decision_from_event message m p c"
  have fields: "trim_space (pq_target_path ?req) = []" "pq_command ?req = trim_space (m_command m)"
      "pq_prompt_message ?req = trim_space message"
    using assms(1,4) by (simp_all add: decision_from_event_def)
  have target: "first_non_empty_string [pq_target_path ?req, m_target_path (sn_meta c), rt_cwd (pj_runtime p)] =
      trim_space (rt_cwd (pj_runtime p))"
    using assms(2,3) fields(1) by simp
  have command: "first_non_empty_string [pq_command ?req, rt_command (pj_runtime p), sn_command c, m_command (sn_meta c)] =
      trim_space (m_command m)"
    using assms(4) fields(2) by simp
  have kind: "mc_kind (context_from_decision ?req p c) = kind_generic"
    unfolding context_from_decision_def Let_def target command fields(3) by (simp add: assms(5))
  have quiet: "\<not> str_contains (to_lower (trim_space message)) ''network''"
      "\<not> str_contains (to_lower (trim_space message)) txt_network1"
      "\<not> str_contains (to_lower (trim_space message)) txt_network2"
    using assms(5) by (auto simp: classify_permission_kind_def Let_def kind_network_def kind_generic_def split: if_splits)
  have "mc_kind ctx = kind_shell"
    unfolding assms(7) context_from_prompt_def Let_def
    using assms(1,2,4) quiet by (simp add: classify_permission_kind_def Let_def trim_to_lower)
  moreover have "mc_engine (context_from_decision ?req p c) = mc_engine ctx"
    by (simp add: assms(7) context_from_decision_def context_from_prompt_def decision_from_event_def Let_def engine_or_any_def)
  moreover have "mc_command_head (context_from_decision ?req p c) = mc_command_head ctx"
    using assms(4) by (simp add: assms(7) context_from_decision_def context_from_prompt_def decision_from_event_def Let_def)
  moreover have "pm_kind rule = kind_generic" "pm_target_path_prefix rule = []"
    using kind fields(1) by (simp_all add: assms(6) build_permission_rule_def Let_def)
  ultimately show ?thesis
    using kind fields(1) unfolding assms(6) rule_applies_built Let_def
    by (simp del: first_non_empty_string.simps)
qed

definition demo_session :: projection where
  "demo_session = empty_projection\<lparr>pj_runtime := empty_runtime\<lparr>rt_cwd := ''/src''\<rparr>\<rparr>"

definition demo_shell_meta :: runtime_meta where
  "demo_shell_meta = empty_meta\<lparr>m_engine := ''claude'', m_command := ''claude''\<rparr>"

theorem shell_approval_answers_everything_witness:
  "rule_applies \<lparr>mc_engine = ''claude'', mc_kind = kind_write, mc_command_head = ''claude'', mc_target_path = ''/etc/passwd''\<rparr>
     (build_permission_rule 7 (decision_from_event ''Allow rm -rf?'' demo_shell_meta demo_session empty_controller) ''session''
       demo_session empty_controller)"
proof -
  have facts: "trim_space (m_target_path demo_shell_meta) = []" "trim_space (m_target_path (sn_meta empty_controller)) = []"
      "trim_space (rt_cwd (pj_runtime demo_session)) \<noteq> []" "trim_space (m_command demo_shell_meta) \<noteq> []"
      "classify_permission_kind ''Allow rm -rf?'' (trim_space (rt_cwd (pj_runtime demo_session)))
         (trim_space (m_command demo_shell_meta)) = kind_generic"
    by code_simp+
  have ctx: "mc_engine (context_from_prompt ''Allow rm -rf?'' demo_shell_meta demo_session empty_controller) = ''claude''"
      "mc_command_head (context_from_prompt ''Allow rm -rf?'' demo_shell_meta demo_session empty_controller) = ''claude''"
    by code_simp+
  have "(context_from_prompt ''Allow rm -rf?'' demo_shell_meta demo_session empty_controller)
      \<lparr>mc_kind := kind_write, mc_target_path := ''/etc/passwd''\<rparr> =
      \<lparr>mc_engine = ''claude'', mc_kind = kind_write, mc_command_head = ''claude'', mc_target_path = ''/etc/passwd''\<rparr>"
    using ctx by (cases "context_from_prompt ''Allow rm -rf?'' demo_shell_meta demo_session empty_controller") simp
  then show ?thesis
    using shell_approval_answers_everything [OF facts refl refl, of 7 "''session''" "''/etc/passwd''" kind_write] by simp
qed

text \<open>
  Planning a decision never fails and never changes the permission mode on its own: the plan is direct, or,
  for a denial of a Claude command, a denial followed by an explanation that names the target; the error
  branches and the third action of the router are never taken. The plan's metadata says who decided what.
\<close>

theorem decision_plan_total:
  "\<exists>plan. build_permission_decision_plan req p c = Inr plan \<and>
     dp_decision plan = trim_space (to_lower (pq_decision req)) \<and>
     m_source (dp_meta plan) = ''permission-decision'' \<and> m_target_text (dp_meta plan) = dp_decision plan \<and>
     m_permission_request_id (dp_meta plan) = trim_space (pq_request_id req) \<and>
     dp_action plan = (if is_claude_command_like (m_command (dp_meta plan)) \<and> dp_decision plan = ''deny''
       then DenyThenInput else Direct) \<and>
     (dp_action plan = DenyThenInput) = (dp_prompt plan \<noteq> [])"
proof -
  define d where "d = trim_space (to_lower (pq_decision req))"
  define m where "m = decision_meta d req p c"
  define plan where "plan =
    \<lparr>dp_action = (if is_claude_command_like (m_command m) \<and> d = ''deny'' then DenyThenInput else Direct),
     dp_decision = d, dp_meta = m,
     dp_prompt = (if is_claude_command_like (m_command m) \<and> d = ''deny''
       then (case build_permission_decision_prompt ''deny'' req of Inl _ \<Rightarrow> [] | Inr s \<Rightarrow> s) else [])\<rparr>"
  have "trim_space (to_lower ''deny'') = ''deny''"
    by code_simp
  then obtain s where s: "build_permission_decision_prompt ''deny'' req = Inr s" "s \<noteq> []"
    by (simp add: build_permission_decision_prompt_def Let_def txt_denied_write_def)
  have "build_permission_decision_plan req p c = Inr plan"
    using s by (simp add: build_permission_decision_plan_def Let_def plan_def m_def d_def)
  moreover have "m_source m = ''permission-decision''" "m_target_text m = d"
      "m_permission_request_id m = trim_space (pq_request_id req)"
    by (simp_all add: m_def decision_meta_def Let_def)
  ultimately show ?thesis
    using s by (intro exI [of _ plan]) (simp add: plan_def d_def)
qed

text \<open>
  Input cannot slip past a permission request: while the runner has a pending request with an identifier,
  input is blocked whatever the snapshots say; without a pending request it never is. For a prompt that was only
  recognised in the text of the terminal, the metadata of the controller, the runtime or the stored projection
  is enough to block.
\<close>

theorem pending_request_blocks_input:
  "\<not> should_block_input None svc p pending \<and>
   (trim_space rid \<notin> {[], text_prompt_id} \<longrightarrow> should_block_input (Some rid) svc p pending) \<and>
   (trim_space (to_lower (m_blocking_kind (sn_meta ctl))) = ''permission'' \<and> trim_space rid \<in> {[], text_prompt_id} \<longrightarrow>
     should_block_input (Some rid) (Some (ctl, meta, accepts)) p pending)"
  by (auto simp: should_block_input_def Let_def meta_blocks_input_def split: option.split)

theorem pending_request_blocks_input_witness:
  "should_block_input (Some '' req-1'') None empty_projection None \<and> \<not> should_block_input None None empty_projection None"
proof -
  have "trim_space '' req-1'' = ''req-1''"
    by code_simp
  then show ?thesis
    using pending_request_blocks_input [of None empty_projection None "'' req-1''"] by (simp add: text_prompt_id_def)
qed

text \<open>The form the fields of a rule have once they came over the wire.\<close>

definition wire_normal :: "permission_rule \<Rightarrow> bool" where
  "wire_normal r \<longleftrightarrow> trim_space (pm_id r) = pm_id r \<and> trim_space (pm_scope r) = pm_scope r \<and> pm_scope r \<noteq> [] \<and>
     trim_space (to_lower (pm_engine r)) = pm_engine r \<and> trim_space (pm_kind r) = pm_kind r \<and> pm_kind r \<noteq> [] \<and>
     trim_space (to_lower (pm_command_head r)) = pm_command_head r \<and>
     trim_space (pm_target_path_prefix r) = pm_target_path_prefix r \<and> trim_space (pm_summary r) = pm_summary r"

lemma wire_normal_from: "wire_normal (from_wire_rule parse w)"
  by (simp add: wire_normal_def from_wire_rule_def scope_session_def kind_generic_def trim_to_lower)
    code_simp

text \<open>The first time RFC 3339 cannot write: the start of the year 10000.\<close>

definition rfc3339_end :: time where
  "rfc3339_end = 315537897600 * second"

text \<open>
  A client that edits a rule sends back what it was shown: reading a rule the gateway sent gives the rule
  again, up to the seconds the text form of a time keeps, and a rule read from the wire is already in the form
  the reading produces. The texts of times are those of the Go library: parsing the text of a time between the
  years 1 and 9999 gives it truncated to the second, and the empty text does not parse.
\<close>

theorem rule_wire_round_trip:
  assumes "\<And>t. 0 < t \<Longrightarrow> t < rfc3339_end \<Longrightarrow> parse (trim_space (fmt t)) = Some (t - t mod second)" and "parse [] = None"
    and "wire_normal r" and "0 \<le> pm_created_at r" and "pm_created_at r < rfc3339_end"
    and "0 \<le> pm_last_matched_at r" and "pm_last_matched_at r < rfc3339_end"
  shows "wire_normal (from_wire_rule parse w) \<and>
    from_wire_rule parse (to_wire_rule fmt r) =
      r\<lparr>pm_created_at := pm_created_at r - pm_created_at r mod second,
        pm_last_matched_at := pm_last_matched_at r - pm_last_matched_at r mod second\<rparr>"
proof -
  have time: "(case parse (trim_space (if is_zero t then [] else fmt t)) of Some t \<Rightarrow> t | None \<Rightarrow> 0) = t - t mod second"
    if "0 \<le> t" "t < rfc3339_end" for t
    using assms(1) [of t] assms(2) that by (cases "t = 0") simp_all
  show ?thesis
    using assms(3) time [OF assms(4,5)] time [OF assms(6,7)] wire_normal_from
    by (simp add: wire_normal_def from_wire_rule_def to_wire_rule_def)
qed

definition demo_format :: "time \<Rightarrow> string" where
  "demo_format t = CHR ''t'' # replicate (nat (t div second)) CHR ''x''"

definition demo_parse :: "string \<Rightarrow> time option" where
  "demo_parse s = (if s = [] then None else Some (int (length s - 1) * second))"

theorem rule_wire_round_trip_witness:
  "from_wire_rule demo_parse (to_wire_rule demo_format (demo_rule\<lparr>pm_created_at := 3 * second + 7\<rparr>)) =
     demo_rule\<lparr>pm_created_at := 3 * second\<rparr>"
proof -
  let ?r = "demo_rule\<lparr>pm_created_at := 3 * second + 7\<rparr>"
  have "no_space (demo_format t)" for t
    using no_space_printable [of "demo_format t" "[]"] by (simp add: demo_format_def printable_def byte_def)
  then have trim: "trim_space (demo_format t) = demo_format t" for t
    by (rule no_space_trim)
  have parse: "demo_parse (trim_space (demo_format t)) = Some (t - t mod second)" if "0 < t" "t < rfc3339_end" for t
    using that unfolding trim by (simp add: demo_parse_def demo_format_def minus_mod_eq_div_mult pos_imp_zdiv_nonneg_iff)
  have normal: "wire_normal ?r"
    unfolding wire_normal_def demo_rule_def by code_simp
  have range: "0 \<le> pm_created_at ?r" "pm_created_at ?r < rfc3339_end" "0 \<le> pm_last_matched_at ?r"
      "pm_last_matched_at ?r < rfc3339_end"
    by (simp_all add: demo_rule_def rfc3339_end_def duration_defs)
  have none: "demo_parse [] = None"
    by (simp add: demo_parse_def)
  have "from_wire_rule demo_parse (to_wire_rule demo_format ?r) =
      ?r\<lparr>pm_created_at := pm_created_at ?r - pm_created_at ?r mod second,
        pm_last_matched_at := pm_last_matched_at ?r - pm_last_matched_at ?r mod second\<rparr>"
    by (rule rule_wire_round_trip [OF parse none normal range, THEN conjunct2])
  then show ?thesis
    by (simp add: demo_rule_def duration_defs)
qed

end
