(* ===== verification/ResumeCommand.thy ===== *)
theory ResumeCommand
  imports Controller
begin

text \<open>
  The command lines the runtime service builds (the pure functions of \<open>session/manager.go\<close>): which session a
  command resumes, how a command is rewritten to resume one, the model and the effort it names, and the text a
  review decision becomes. \<open>commandHead\<close>, \<open>isClaudeCommandHead\<close> and \<open>isCodexCommandHead\<close> of the package are
  word for word those of the kernel, which the theory \<open>Commands\<close> models.
\<close>

section \<open>Recognising commands\<close>

definition is_supported_ai_session_command :: "string \<Rightarrow> bool" where
  "is_supported_ai_session_command command =
     (head_is ''claude'' (command_head command) \<or> head_is ''codex'' (command_head command))"

definition session_id_flag :: string where "session_id_flag = ''--session-id''"

text \<open>The loops return the word after the first flag that has one.\<close>

fun session_flag_value :: "string list \<Rightarrow> string option" where
  "session_flag_value (f # g # fs) =
     (if f = session_id_flag \<or> f = ''--session'' then Some g else session_flag_value (g # fs))"
| "session_flag_value _ = None"

definition extract_managed_session_id :: "string \<Rightarrow> string \<Rightarrow> string" where
  "extract_managed_session_id command fallback =
     (case session_flag_value (GoStrings.fields (trim_space command)) of
        Some sid \<Rightarrow> sid | None \<Rightarrow> trim_space fallback)"

text \<open>\<open>resolveResumeSessionID\<close>: the runner is given by the session it reports, when it reports one.\<close>

definition resolve_resume_session_id :: "string option \<Rightarrow> runtime_meta list \<Rightarrow> string" where
  "resolve_resume_session_id provider metas =
     (case find (\<lambda>s. s \<noteq> []) (map (\<lambda>m. extract_managed_session_id (m_command m) (m_resume_session_id m)) metas) of
        Some sid \<Rightarrow> sid
      | None \<Rightarrow>
          (let sid = (case provider of Some s \<Rightarrow> extract_managed_session_id [] s | None \<Rightarrow> []) in
           if sid \<noteq> [] then sid
           else (case find (\<lambda>s. s \<noteq> []) (map (\<lambda>m. trim_space (m_resume_session_id m)) metas) of
               Some sid \<Rightarrow> sid | None \<Rightarrow> [])))"

definition extract_resume_arg :: "string \<Rightarrow> string" where
  "extract_resume_arg command =
     (let fs = GoStrings.fields (trim_space command);
          codex = (case fs of
             h # s # v # _ \<Rightarrow> head_is ''codex'' (to_lower (trim_space h)) \<and> to_lower (trim_space s) = ''resume'' \<and>
               \<not> has_prefix v ''-''
           | _ \<Rightarrow> False)
      in if codex then fs ! 2
         else (case extract_resume_from fs of Some r \<Rightarrow> r | None \<Rightarrow> []))"

section \<open>Rewriting commands\<close>

text \<open>The loop of \<open>stripClaudeSessionIDArg\<close>, and the second one of \<open>stripResumeArg\<close>: a flag goes with the word after it.\<close>

fun drop_flagged :: "(string \<Rightarrow> bool) \<Rightarrow> string list \<Rightarrow> string list" where
  "drop_flagged p [] = []"
| "drop_flagged p [f] = (if p f then [] else [f])"
| "drop_flagged p (f # g # fs) = (if p f then drop_flagged p fs else f # drop_flagged p (g # fs))"

definition strip_session_id_arg :: "string \<Rightarrow> string" where
  "strip_session_id_arg command =
     join '' '' (drop_flagged (\<lambda>f. f = session_id_flag \<or> f = ''--session'') (GoStrings.fields (trim_space command)))"

definition default_ai_command :: "string \<Rightarrow> string \<Rightarrow> string" where
  "default_ai_command command engine =
     (if head_is ''codex'' (command_head command) then ''codex''
      else if head_is ''gemini'' (command_head command) then ''gemini''
      else let e = trim_space (to_lower engine) in
        if e = ''codex'' then ''codex'' else if e = ''gemini'' then ''gemini'' else ''claude'')"

text \<open>The words after the head, without \<open>resume\<close> and the session it names.\<close>

definition after_resume :: "string list \<Rightarrow> string list" where
  "after_resume fs = (case tl fs of
     s # rest \<Rightarrow>
       if equal_fold (trim_space s) ''resume''
       then (case rest of v # rest' \<Rightarrow> if has_prefix v ''-'' then rest else rest' | [] \<Rightarrow> [])
       else s # rest
   | [] \<Rightarrow> [])"

definition strip_resume_arg :: "string \<Rightarrow> string" where
  "strip_resume_arg command = (case GoStrings.fields (trim_space command) of
     [] \<Rightarrow> []
   | h # rest \<Rightarrow>
       if rest \<noteq> [] \<and> is_codex_command_head h \<and> equal_fold (trim_space (hd rest)) ''resume''
       then join '' '' (h # after_resume (h # rest))
       else join '' '' (drop_flagged (\<lambda>f. f = ''--resume'') (h # rest)))"

definition ensure_codex_resume_command :: "string \<Rightarrow> string \<Rightarrow> string" where
  "ensure_codex_resume_command command resume = (case GoStrings.fields (trim_space command) of
     [] \<Rightarrow> (if trim_space resume = [] then ''codex resume --last'' else ''codex resume '' @ trim_space resume)
   | h # rest \<Rightarrow>
       join '' '' ([h, ''resume'', if trim_space resume \<noteq> [] then trim_space resume else ''--last''] @
         after_resume (h # rest)))"

definition ensure_resume_command :: "string \<Rightarrow> string \<Rightarrow> string" where
  "ensure_resume_command command resume =
     (let trimmed = strip_session_id_arg (trim_space command);
          trimmed = (if trimmed = [] then default_ai_command command [] else trimmed)
      in if is_codex_command_head trimmed then ensure_codex_resume_command trimmed resume
         else if resume \<noteq> [] \<and> \<not> str_contains (to_lower trimmed) '' --resume''
         then trimmed @ '' --resume '' @ resume
         else trimmed)"

section \<open>What a command says about the model\<close>

fun model_flag_value :: "string list \<Rightarrow> string option" where
  "model_flag_value (f # g # fs) =
     (if f = ''-m'' \<or> f = ''--model'' then Some (trim_space g) else model_flag_value (g # fs))"
| "model_flag_value _ = None"

text \<open>Here the test for Windows paths has a single backslash.\<close>

definition path_head_is :: "string \<Rightarrow> string \<Rightarrow> bool" where
  "path_head_is name head \<longleftrightarrow> head = name \<or> has_suffix head (CHR ''/'' # name) \<or>
     has_suffix head (backslash # name) \<or> head = name @ ''.exe''"

definition detect_runtime_model :: "string \<Rightarrow> string \<Rightarrow> string" where
  "detect_runtime_model command engine = (case GoStrings.fields (trim_space command) of
     [] \<Rightarrow> []
   | h # rest \<Rightarrow> (case model_flag_value (h # rest) of
       Some m \<Rightarrow> m
     | None \<Rightarrow>
         let head = to_lower (trim_space h); e = trim_space (to_lower engine) in
         if path_head_is ''codex'' head then ''gpt-5-codex''
         else if path_head_is ''claude'' head then ''sonnet''
         else if e = ''codex'' then ''gpt-5-codex'' else if e = ''claude'' then ''sonnet'' else []))"

definition effort_prefix :: string where "effort_prefix = ''model_reasoning_effort=''"

fun effort_value :: "string list \<Rightarrow> string" where
  "effort_value (f # g # fs) =
     (if f = ''--config'' \<and> has_prefix (to_lower (trim_space g)) effort_prefix
      then trim_space (drop (length effort_prefix) (trim_space g)) else effort_value (g # fs))"
| "effort_value _ = []"

definition detect_runtime_effort :: "string \<Rightarrow> string \<Rightarrow> string" where
  "detect_runtime_effort command engine =
     (if trim_space (to_lower engine) \<noteq> ''codex'' \<and> \<not> is_codex_command_head command then []
      else effort_value (GoStrings.fields (trim_space command)))"

section \<open>Review decisions\<close>

definition review_payload :: "string \<Rightarrow> string \<Rightarrow> string \<Rightarrow> string" where
  "review_payload subject status instruction =
     join [CHR 0x0A] ([''Review decision: '' @ status @ ''.''] @ (if subject \<noteq> [] then [subject] else []) @ [instruction]) @
       [CHR 0x0A]"

definition review_decision_payload :: "string \<Rightarrow> runtime_meta \<Rightarrow> string" where
  "review_decision_payload decision m =
     (let normalized = trim_space (to_lower decision);
          target = trim_space (first_non_empty_string [m_target_path m, m_context_title m, m_target m]);
          subject = (if target \<noteq> [] then ''Target: '' @ target @ ''.'' else [])
      in if normalized = ''accept''
         then review_payload subject ''ACCEPT'' ''Please land the change and continue; no further review is required.''
         else if normalized = ''revert''
         then review_payload subject ''REVERT'' ''Please drop the change and restore the previous state before proceeding.''
         else if normalized = ''revise''
         then review_payload subject ''REVISE''
           ''Please update the change according to the review feedback, then request another review.''
         else [])"

section \<open>Words\<close>

text \<open>Lists of words: what \<open>strings.Fields\<close> returns and \<open>strings.Join\<close> with a blank puts together.\<close>

definition words :: "string list \<Rightarrow> bool" where
  "words ws \<longleftrightarrow> (\<forall>w\<in>set ws. no_space w \<and> w \<noteq> [])"

lemma words_simps [simp]:
  "words []" "words (w # ws) \<longleftrightarrow> no_space w \<and> w \<noteq> [] \<and> words ws"
  "words (us @ vs) \<longleftrightarrow> words us \<and> words vs"
  by (auto simp: words_def)

lemma words_fields [simp]: "words (GoStrings.fields s)"
  using fields_no_space fields_nonempty by (auto simp: words_def)

lemma join_Cons: "ws \<noteq> [] \<Longrightarrow> join sep (w # ws) = w @ sep @ join sep ws"
  by (cases ws) simp_all

lemma fields_join: "words ws \<Longrightarrow> GoStrings.fields (join '' '' ws) = ws"
proof (induction ws)
  case Nil
  show ?case
    by (simp add: GoStrings.fields_def)
next
  case (Cons w ws)
  then show ?case
    by (cases "ws = []") (simp_all add: join_Cons)
qed

lemma rspace_len_blank_after:
  "rspace_len (a # s) = 0 \<Longrightarrow> rspace_len (a # s @ CHR '' '' # t) = 0"
proof -
  have blank: "\<not> space2 CHR '' '' b" "\<not> space3 CHR '' '' b c" for b c
    by (simp_all add: space2_def space3_def)
  show "rspace_len (a # s) = 0 \<Longrightarrow> rspace_len (a # s @ CHR '' '' # t) = 0"
    by (cases "(a # s)" rule: rspace_len.cases; cases t) (auto simp: blank split: if_splits)
qed

lemma trim_join:
  assumes "words ws"
  shows "trim_space (join '' '' ws) = join '' '' ws"
proof (cases "ws = []")
  case False
  have left: "space_len (join '' '' ws) = 0"
  proof (cases ws)
    case (Cons w vs)
    then show ?thesis
      using assms by (cases w; cases "vs = []") (auto simp: join_Cons space_len_blank_after)
  qed simp
  have right: "rspace_len (rev (join '' '' ws)) = 0"
    using assms
  proof (induction ws)
    case (Cons w vs)
    show ?case
    proof (cases "vs = []")
      case True
      then show ?thesis
        using Cons.prems no_space_snoc_rspace by simp
    next
      case False
      then have "rspace_len (rev (join '' '' vs)) = 0"
        using Cons by simp
      moreover have "join '' '' vs \<noteq> []"
        using False Cons.prems by (cases vs; cases "tl vs = []") (auto simp: join_Cons)
      ultimately show ?thesis
        using False rspace_len_blank_after by (cases "rev (join '' '' vs)") (auto simp: join_Cons)
    qed
  qed simp
  have "trim_left (join '' '' ws) = join '' '' ws"
    using left by (rule trim_left_id)
  then show ?thesis
    using right by (simp add: trim_space_def trim_right_def trim_rev_id)
qed simp

lemma fields_trim_join: "words ws \<Longrightarrow> GoStrings.fields (trim_space (join '' '' ws)) = ws"
  by (simp add: trim_join fields_join)

lemma command_head_join: "words (w # ws) \<Longrightarrow> command_head (join '' '' (w # ws)) = to_lower w"
  by (rule command_head_field) (simp add: fields_trim_join)

lemma no_space_no_blank: "no_space w \<Longrightarrow> CHR '' '' \<notin> set w"
proof
  assume "no_space w" "CHR '' '' \<in> set w"
  then obtain u v where "w = u @ CHR '' '' # v"
    by (meson split_list)
  with \<open>no_space w\<close> show False
    using no_space_suffix [of u "CHR '' '' # v"] by simp
qed

lemma to_lower_join: "to_lower (join sep ws) = join (to_lower sep) (map to_lower ws)"
  by (induction sep ws rule: join.induct) simp_all

lemma has_prefix_no_blank:
  assumes "p @ v = w @ CHR '' '' # s" and "CHR '' '' \<notin> set p"
  shows "has_prefix w p"
proof -
  consider u where "w = p @ u" | u where "p = w @ u" "u \<noteq> []"
    using assms(1) by (metis append_eq_append_conv2 append_Nil2)
  then show ?thesis
  proof cases
    case (2 u)
    then have "u @ v = CHR '' '' # s"
      using assms(1) by simp
    then have "CHR '' '' \<in> set p"
      using 2 by (cases u) auto
    then show ?thesis
      using assms(2) by simp
  qed simp
qed

text \<open>A blank and a word part occur in joined words only where a later word starts with that part.\<close>

lemma contains_joined:
  assumes "\<forall>w\<in>set ws. CHR '' '' \<notin> set w" and "CHR '' '' \<notin> set p" and "str_contains (join '' '' ws) (CHR '' '' # p)"
  shows "\<exists>w\<in>set (tl ws). has_prefix w p"
  using assms(1,3)
proof (induction ws)
  case (Cons w ws)
  obtain u v where uv: "join '' '' (w # ws) = u @ CHR '' '' # p @ v"
    using Cons.prems(2) by (auto simp: str_contains_iff)
  show ?case
  proof (cases "ws = []")
    case True
    then have "CHR '' '' \<in> set w"
      using uv by simp
    then show ?thesis
      using Cons.prems(1) by simp
  next
    case False
    then have eq: "u @ CHR '' '' # p @ v = w @ CHR '' '' # join '' '' ws"
      using uv by (simp add: join_Cons)
    have blank: "CHR '' '' \<notin> set w"
      using Cons.prems(1) by simp
    consider "u = w" "p @ v = join '' '' ws" | u' where "u = w @ CHR '' '' # u'" "join '' '' ws = u' @ CHR '' '' # p @ v"
    proof -
      obtain x where x: "(u = w @ x \<and> x @ CHR '' '' # p @ v = CHR '' '' # join '' '' ws) \<or>
          (u @ x = w \<and> CHR '' '' # p @ v = x @ CHR '' '' # join '' '' ws)"
        using eq by (auto simp: append_eq_append_conv2)
      then show ?thesis
        using that blank by (cases x) auto
    qed
    then show ?thesis
    proof cases
      case 1
      obtain w' ws' where ws: "ws = w' # ws'"
        using False by (cases ws) auto
      have "has_prefix w' p"
      proof (cases "ws' = []")
        case True
        then have "w' = p @ v"
          using 1 ws by simp
        then show ?thesis
          by simp
      next
        case False
        then show ?thesis
          using 1 ws has_prefix_no_blank [of p v w'] assms(2) by (simp add: join_Cons)
      qed
      then show ?thesis
        using ws by simp
    next
      case (2 u')
      then have "str_contains (join '' '' ws) (CHR '' '' # p)"
        unfolding str_contains_iff by auto
      then have "\<exists>w\<in>set (tl ws). has_prefix w p"
        using Cons by simp
      then show ?thesis
        by (cases ws) auto
    qed
  qed
qed simp

lemma set_drop_flagged: "set (drop_flagged p fs) \<subseteq> set fs"
  by (induction p fs rule: drop_flagged.induct) auto

lemma words_drop_flagged: "words fs \<Longrightarrow> words (drop_flagged p fs)"
  using set_drop_flagged by (fastforce simp: words_def)

lemma after_resume_subset: "set (after_resume fs) \<subseteq> set (tl fs)"
proof (cases fs)
  case (Cons h rest)
  then show ?thesis
  proof (cases rest)
    case (Cons s vs)
    then show ?thesis
      using \<open>fs = h # rest\<close> by (cases vs) (auto simp: after_resume_def)
  qed (simp add: after_resume_def)
qed (simp add: after_resume_def)

lemma words_after_resume: "words fs \<Longrightarrow> words (after_resume fs)"
  using after_resume_subset [of fs] list.set_sel(2) [of fs] by (cases fs) (fastforce simp: words_def)+

lemma extract_resume_from_append:
  "''--resume'' \<notin> set ws \<Longrightarrow> extract_resume_from (ws @ [''--resume'', sid]) = Some sid"
proof (induction ws)
  case (Cons w ws)
  then have "w \<noteq> ''--resume''"
    by auto
  with Cons show ?case
    by (cases ws) auto
qed simp

section \<open>Properties\<close>

text \<open>The words of a command from which the session argument is stripped; the default command when none is left.\<close>

definition resume_base :: "string \<Rightarrow> string list" where
  "resume_base command =
     (let ws = drop_flagged (\<lambda>f. f = session_id_flag \<or> f = ''--session'') (GoStrings.fields (trim_space command))
      in if ws = [] then [default_ai_command command []] else ws)"

lemma default_ai_command_cases: "default_ai_command command engine \<in> {''codex'', ''gemini'', ''claude''}"
  by (simp add: default_ai_command_def Let_def)

lemma words_default: "words [default_ai_command command engine]"
proof -
  have "words [''codex'']" "words [''gemini'']" "words [''claude'']"
    by code_simp+
  then show ?thesis
    using default_ai_command_cases [of command engine] by (elim insertE emptyE) simp_all
qed

lemma resume_base_words: "words (resume_base command) \<and> resume_base command \<noteq> []"
  using words_default [of command "[]"] words_drop_flagged [OF words_fields]
  by (simp add: resume_base_def Let_def)

lemma ensure_resume_eq:
  "ensure_resume_command command resume =
     (let trimmed = join '' '' (resume_base command) in
      if is_codex_command_head trimmed then ensure_codex_resume_command trimmed resume
      else if resume \<noteq> [] \<and> \<not> str_contains (to_lower trimmed) '' --resume''
      then trimmed @ '' --resume '' @ resume else trimmed)"
proof -
  have "join '' '' ws = [] \<longleftrightarrow> ws = []" if "words ws" for ws
    using that by (cases ws; cases "tl ws = []") (auto simp: join_Cons)
  from this [OF words_drop_flagged [OF words_fields]]
  have "join '' '' (drop_flagged p (GoStrings.fields s)) = [] \<longleftrightarrow> drop_flagged p (GoStrings.fields s) = []" for p s .
  then show ?thesis
    by (simp add: ensure_resume_command_def resume_base_def strip_session_id_arg_def Let_def)
qed

lemma join_snoc2: "us \<noteq> [] \<Longrightarrow> join sep (us @ [a, b]) = join sep us @ sep @ a @ sep @ b"
  by (induction sep us rule: join.induct) (simp_all add: join_Cons)

lemma fields_base [simp]: "GoStrings.fields (trim_space (join '' '' (resume_base command))) = resume_base command"
  using resume_base_words by (simp add: fields_trim_join)

lemma resume_base_Cons: obtains h ws where "resume_base command = h # ws" and "words (h # ws)"
proof -
  obtain h ws where "resume_base command = h # ws"
    using resume_base_words [of command] by (cases "resume_base command") auto
  then show ?thesis
    using that resume_base_words [of command] by simp
qed

text \<open>A word that opens a \<open>--resume\<close> flag, in any case of letters.\<close>

definition resume_flag :: "string \<Rightarrow> bool" where
  "resume_flag w \<longleftrightarrow> has_prefix (to_lower w) ''--resume''"

lemma no_resume_flag:
  assumes "\<forall>w\<in>set ws. \<not> resume_flag w" and "words ws"
  shows "\<not> str_contains (to_lower (join '' '' ws)) '' --resume''" and "''--resume'' \<notin> set ws"
proof -
  have "\<forall>w\<in>set (map to_lower ws). CHR '' '' \<notin> set w"
  proof
    fix w assume "w \<in> set (map to_lower ws)"
    then obtain v where v: "v \<in> set ws" "w = to_lower v"
      by auto
    then have "CHR '' '' \<notin> set v"
      using assms(2) no_space_no_blank by (auto simp: words_def)
    moreover have "lower_char c = CHR '' '' \<Longrightarrow> c = CHR '' ''" for c
      using lower_char_spaces(1) [of c] by (auto simp: lower_char_def byte_def ascii_space_def split: if_splits)
    ultimately have "CHR '' '' \<noteq> lower_char c" if "c \<in> set v" for c
      using that by metis
    then show "CHR '' '' \<notin> set w"
      by (auto simp: v(2) to_lower_def)
  qed
  moreover have "\<forall>w\<in>set (tl (map to_lower ws)). \<not> has_prefix w ''--resume''"
    using assms(1) by (cases ws) (auto simp: resume_flag_def)
  moreover have "to_lower '' '' = '' ''"
    by code_simp
  ultimately show "\<not> str_contains (to_lower (join '' '' ws)) '' --resume''"
    using contains_joined [of "map to_lower ws" "''--resume''"] by (auto simp: to_lower_join)
  have "resume_flag ''--resume''"
    unfolding resume_flag_def by code_simp
  then show "''--resume'' \<notin> set ws"
    using assms(1) by blast
qed

lemma ensure_codex_join:
  assumes "words (h # ws)" and "trim_space sid = sid" and "sid \<noteq> []"
  shows "ensure_codex_resume_command (join '' '' (h # ws)) sid = join '' '' ([h, ''resume'', sid] @ after_resume (h # ws))"
  using assms(2,3) fields_trim_join [OF assms(1)] by (simp add: ensure_codex_resume_command_def)

text \<open>
  C32: Rewriting a command to resume a session makes it resume that session: whatever command line the runtime
  starts from, the session the rewritten command names is the one asked for, both for Codex, whose earlier
  session is replaced, and for the other assistants, provided they do not resume a session already.
\<close>

theorem resume_command_round_trip:
  assumes "no_space sid" and "sid \<noteq> []" and "\<not> has_prefix sid ''-''"
    and "is_codex_command_head (join '' '' (resume_base command)) \<or> (\<forall>w\<in>set (resume_base command). \<not> resume_flag w)"
  shows "extract_resume_arg (ensure_resume_command command sid) = sid"
proof -
  obtain h ws where base: "resume_base command = h # ws" "words (h # ws)"
    by (rule resume_base_Cons)
  have sid: "trim_space sid = sid"
    using assms(1) by (rule no_space_trim)
  have head: "command_head (join '' '' (h # ws)) = to_lower h"
    using base(2) by (rule command_head_join)
  have trim_h: "trim_space h = h"
    using base(2) by (intro no_space_trim) simp
  have "words [''resume'']" "words [''--resume'']" "to_lower (trim_space ''resume'') = ''resume''"
    by code_simp+
  note lits = this
  show ?thesis
  proof (cases "is_codex_command_head (join '' '' (h # ws))")
    case True
    let ?ws = "[h, ''resume'', sid] @ after_resume (h # ws)"
    have "words ?ws"
      using base(2) assms(1,2) lits words_after_resume by simp
    then have "GoStrings.fields (trim_space (join '' '' ?ws)) = ?ws"
      by (rule fields_trim_join)
    moreover have "head_is ''codex'' (to_lower h)"
      using True head by (simp add: is_codex_command_head_def)
    moreover have "ensure_resume_command command sid = join '' '' ?ws"
      using True ensure_codex_join [OF base(2) sid assms(2)] base(1) by (simp add: ensure_resume_eq Let_def)
    ultimately show ?thesis
      using assms(3) lits trim_h by (simp add: extract_resume_arg_def Let_def)
  next
    case False
    then have plain: "\<forall>w\<in>set (h # ws). \<not> resume_flag w"
      using assms(4) base(1) by simp
    let ?ws = "(h # ws) @ [''--resume'', sid]"
    have "ensure_resume_command command sid = join '' '' ?ws"
      using no_resume_flag(1) [OF plain base(2)] False assms(2) base(1) join_snoc2 [of "h # ws" "'' ''" "''--resume''" sid]
      by (simp add: ensure_resume_eq Let_def)
    moreover have "words ?ws"
      using base(2) assms(1,2) lits by simp
    then have "GoStrings.fields (trim_space (join '' '' ?ws)) = ?ws"
      by (rule fields_trim_join)
    moreover have "\<not> head_is ''codex'' (to_lower (trim_space h))"
      using False head trim_h by (simp add: is_codex_command_head_def)
    ultimately show ?thesis
      using extract_resume_from_append [OF no_resume_flag(2) [OF plain base(2)], of sid]
      by (simp add: extract_resume_arg_def Let_def split: list.split)
  qed
qed

theorem resume_command_round_trip_witness:
  "extract_resume_arg (ensure_resume_command ''claude --session-id a --model opus'' ''s-1'') = ''s-1''"
proof -
  have facts: "no_space ''s-1''" "\<not> has_prefix ''s-1'' ''-''"
      "list_all (\<lambda>w. \<not> resume_flag w) (resume_base ''claude --session-id a --model opus'')"
    by code_simp+
  then show ?thesis
    using resume_command_round_trip [of "''s-1''" "''claude --session-id a --model opus''"] by (simp add: list_all_iff)
qed

lemma drop_flagged_free: "f \<in> set (drop_flagged p fs) \<Longrightarrow> \<not> p f"
  by (induction p fs rule: drop_flagged.induct) (auto split: if_splits)

lemma drop_flagged_id: "\<forall>f\<in>set fs. \<not> p f \<Longrightarrow> drop_flagged p fs = fs"
  by (induction p fs rule: drop_flagged.induct) auto

lemma resume_base_free: "\<forall>f\<in>set (resume_base command). \<not> (f = session_id_flag \<or> f = ''--session'')"
proof -
  have def: "\<not> (f = session_id_flag \<or> f = ''--session'')" if "f = default_ai_command command []" for f
    using that default_ai_command_cases [of command "[]"] by (elim insertE emptyE) (simp_all add: session_id_flag_def)
  let ?ws = "drop_flagged (\<lambda>f. f = session_id_flag \<or> f = ''--session'') (GoStrings.fields (trim_space command))"
  show ?thesis
  proof (cases "?ws = []")
    case True
    then have "resume_base command = [default_ai_command command []]"
      by (simp add: resume_base_def)
    then show ?thesis
      using def [OF refl] by (simp only: list.set ball_simps simp_thms)
  next
    case False
    then have "resume_base command = ?ws"
      unfolding resume_base_def Let_def by (rule if_not_P)
    then show ?thesis
      using drop_flagged_free [of _ "\<lambda>f. f = session_id_flag \<or> f = ''--session''"] by (simp only: Ball_def) blast
  qed
qed

lemma resume_base_joined:
  assumes "words ws" and "ws \<noteq> []" and "\<forall>f\<in>set ws. \<not> (f = session_id_flag \<or> f = ''--session'')"
  shows "resume_base (join '' '' ws) = ws"
  using drop_flagged_id [OF assms(3)] assms(1,2) by (simp add: resume_base_def fields_trim_join)

text \<open>
  A session once named is kept, except by Codex: asking a command of another assistant that resumes one
  session to resume a second leaves it as it is, so that the first session is resumed.
\<close>

theorem resumed_session_kept:
  assumes "no_space a" and "a \<noteq> []" and "\<not> has_prefix a ''-''"
    and "\<not> is_codex_command_head (join '' '' (resume_base command))" and "\<forall>w\<in>set (resume_base command). \<not> resume_flag w"
  shows "extract_resume_arg (ensure_resume_command (ensure_resume_command command a) b) = a"
proof -
  let ?ws = "resume_base command @ [''--resume'', a]"
  have words: "words ?ws"
  proof -
    have "words [''--resume'']"
      by code_simp
    then show ?thesis
      using resume_base_words [of command] assms(1,2) by simp
  qed
  have first: "ensure_resume_command command a = join '' '' ?ws"
    using no_resume_flag(1) [OF assms(5)] resume_base_words [of command] assms(2,4)
    by (simp add: ensure_resume_eq Let_def join_snoc2)
  have "a \<noteq> session_id_flag" "a \<noteq> ''--session''"
    using assms(3) by (auto simp: session_id_flag_def has_prefix_def)
  then have base: "resume_base (join '' '' ?ws) = ?ws"
    using resume_base_free [of command] words
    by (intro resume_base_joined) (auto simp: session_id_flag_def)
  obtain h ws where h: "resume_base command = h # ws" "words (h # ws)"
    by (rule resume_base_Cons)
  have "\<not> is_codex_command_head (join '' '' ?ws)"
    using assms(4) command_head_join [of h ws] command_head_join [of h "ws @ [''--resume'', a]"] h words
    by (simp add: is_codex_command_head_def)
  moreover have "str_contains (to_lower (join '' '' ?ws)) '' --resume''"
  proof -
    have lower: "to_lower '' --resume '' = '' --resume ''"
      by code_simp
    have "join '' '' ?ws = join '' '' (resume_base command) @ '' --resume '' @ a"
      using resume_base_words [of command] by (simp add: join_snoc2)
    then have "to_lower (join '' '' ?ws) = to_lower (join '' '' (resume_base command)) @ '' --resume'' @ '' '' @ to_lower a"
      using lower by (simp only: to_lower_append) simp
    then show ?thesis
      by (simp only: str_contains_mid)
  qed
  ultimately have "ensure_resume_command (ensure_resume_command command a) b = ensure_resume_command command a"
    unfolding first ensure_resume_eq [of "join '' '' ?ws"] base Let_def by simp
  then show ?thesis
    using resume_command_round_trip [OF assms(1-3)] assms(5) by simp
qed

theorem resumed_session_kept_witness:
  "extract_resume_arg (ensure_resume_command (ensure_resume_command ''claude'' ''s-1'') ''s-2'') = ''s-1''"
proof -
  have facts: "no_space ''s-1''" "\<not> has_prefix ''s-1'' ''-''" "\<not> is_codex_command_head (join '' '' (resume_base ''claude''))"
      "list_all (\<lambda>w. \<not> resume_flag w) (resume_base ''claude'')"
    by code_simp+
  then show ?thesis
    using resumed_session_kept [of "''s-1''" "''claude''" "''s-2''"] by (simp add: list_all_iff)
qed

end
