(* ===== verification/Service.thy ===== *)
theory Service
  imports ResumeCommand
begin

text \<open>
  The runtime service of a session (\<open>session/manager.go\<close>): the manager of the one active runner and the
  operations that start it, feed it, answer its permission requests and end it, each together with the
  controller of the session. A runner is known by its identity and by the answers of the optional interfaces it
  implements; what a write to it returns is given to the operation. \<open>now\<close> is the time of the call.
\<close>

section \<open>Runners and errors\<close>

record runner =
  rn_id :: nat
  rn_session :: "string option"
  rn_accepts :: "bool option"
  rn_pending :: "(bool \<times> string) option"
  rn_mode :: "string option"

text \<open>
  In this order: \<open>ClaudeSessionProvider\<close> with the session it reports, \<open>InteractiveStateProvider\<close> with its
  answer, \<open>PermissionResponseWriter\<close> with whether a request is pending and its identifier, and
  \<open>SetPermissionMode\<close> with the mode last set. \<^const>\<open>None\<close> is a runner without the interface.
\<close>

datatype sentinel = NoActiveRunner | RunnerNotInteractive | ResumeUnavailable | ConversationNotFound
  | PermissionExpired | InputNotSupported | NoPendingControl

text \<open>An error: the sentinel \<open>errors.Is\<close> finds in it, and its text.\<close>

record go_error =
  ge_is :: "sentinel option"
  ge_text :: string

fun sentinel_text :: "sentinel \<Rightarrow> string" where
  "sentinel_text NoActiveRunner = ''no active runner''"
| "sentinel_text RunnerNotInteractive = ''runner is not ready for interactive input''"
| "sentinel_text ResumeUnavailable = ''resume session id is unavailable''"
| "sentinel_text ConversationNotFound = ''resume conversation not found''"
| "sentinel_text PermissionExpired = ''permission request expired''"
| "sentinel_text InputNotSupported = ''input not supported''"
| "sentinel_text NoPendingControl = ''no pending control request''"

definition err :: "sentinel \<Rightarrow> go_error" where
  "err s = \<lparr>ge_is = Some s, ge_text = sentinel_text s\<rparr>"

definition plain_error :: "string \<Rightarrow> go_error" where
  "plain_error msg = \<lparr>ge_is = None, ge_text = msg\<rparr>"

section \<open>The manager\<close>

record manager =
  mg_runner :: "runner option"
  mg_meta :: runtime_meta
  mg_session :: string
  mg_resume :: string
  mg_lifecycle :: string

definition new_manager :: manager where
  "new_manager = \<lparr>mg_runner = None, mg_meta = empty_meta, mg_session = [], mg_resume = [], mg_lifecycle = ''inactive''\<rparr>"

definition runner_is_claude_session :: "runner option \<Rightarrow> string list \<Rightarrow> bool" where
  "runner_is_claude_session r commands \<longleftrightarrow>
     (case r of Some r \<Rightarrow> rn_session r \<noteq> None | None \<Rightarrow> False) \<or> list_ex is_supported_ai_session_command commands"

definition derive_runner_lifecycle :: "runner option \<Rightarrow> runtime_meta \<Rightarrow> string \<Rightarrow> string \<Rightarrow> string" where
  "derive_runner_lifecycle r m active resume =
     (let command = trim_space (m_command m);
          claude = runner_is_claude_session r [command, command];
          resume = trim_space (first_non_empty_string [m_resume_session_id m, resume])
      in if normalize_lifecycle (m_claude_lifecycle m) \<noteq> [] then normalize_lifecycle (m_claude_lifecycle m)
         else if r = None \<or> trim_space active = []
         then (if resume \<noteq> [] then ''resumable'' else if claude then ''unknown'' else ''inactive'')
         else if \<not> claude then (if resume \<noteq> [] then ''resumable'' else ''inactive'')
         else if (case r of Some r \<Rightarrow> rn_accepts r = Some True | None \<Rightarrow> False) then ''waiting_input''
         else if resume \<noteq> [] then ''active'' else ''starting'')"

definition keep_lifecycle :: "manager \<Rightarrow> manager" where
  "keep_lifecycle g =
     (let l = derive_runner_lifecycle (mg_runner g) (mg_meta g) (mg_session g) (mg_resume g)
      in g\<lparr>mg_lifecycle := l, mg_meta := (mg_meta g)\<lparr>m_claude_lifecycle := l\<rparr>\<rparr>)"

definition take_resume_id :: "manager \<Rightarrow> manager" where
  "take_resume_id g =
     (if trim_space (m_resume_session_id (mg_meta g)) \<noteq> []
      then g\<lparr>mg_resume := trim_space (m_resume_session_id (mg_meta g))\<rparr> else g)"

definition manager_start :: "string \<Rightarrow> runner \<Rightarrow> runtime_meta \<Rightarrow> manager \<Rightarrow> go_error option \<times> manager" where
  "manager_start sid r m g =
     (if mg_runner g \<noteq> None then (Some (plain_error ''another command is already running''), g)
      else (None, keep_lifecycle (take_resume_id (g\<lparr>mg_runner := Some r, mg_meta := m, mg_session := sid\<rparr>))))"

text \<open>What \<open>finishIfCurrent\<close> and \<open>closeActive\<close> leave: no runner, and whether its session can be resumed.\<close>

definition cleared :: "manager \<Rightarrow> manager" where
  "cleared g = g\<lparr>mg_runner := None, mg_meta := empty_meta, mg_session := [],
     mg_lifecycle := (if trim_space (mg_resume g) \<noteq> [] then ''resumable'' else ''inactive'')\<rparr>"

text \<open>Runners are compared as interface values: by identity.\<close>

definition finish_if_current :: "nat \<Rightarrow> manager \<Rightarrow> bool \<times> manager" where
  "finish_if_current rid g =
     (if map_option rn_id (mg_runner g) \<noteq> Some rid then (False, g) else (True, cleared g))"

definition update_meta :: "(runtime_meta \<Rightarrow> runtime_meta) \<Rightarrow> manager \<Rightarrow> manager" where
  "update_meta f g = keep_lifecycle (take_resume_id (g\<lparr>mg_meta := f (mg_meta g)\<rparr>))"

definition update_resume :: "string \<Rightarrow> manager \<Rightarrow> manager" where
  "update_resume sid g =
     (if trim_space sid \<noteq> []
      then keep_lifecycle (g\<lparr>mg_resume := trim_space sid, mg_meta := (mg_meta g)\<lparr>m_resume_session_id := trim_space sid\<rparr>\<rparr>)
      else g)"

text \<open>The snapshot; taking it stores the lifecycle it derives.\<close>

record runtime_snapshot =
  rs_running :: bool
  rs_accepts :: bool
  rs_meta :: runtime_meta
  rs_session :: string
  rs_resume :: string
  rs_lifecycle :: string

definition manager_snapshot :: "manager \<Rightarrow> runtime_snapshot \<times> manager" where
  "manager_snapshot g =
     (let m = (if trim_space (m_resume_session_id (mg_meta g)) = []
            then (mg_meta g)\<lparr>m_resume_session_id := mg_resume g\<rparr> else mg_meta g);
          l = derive_runner_lifecycle (mg_runner g) m (mg_session g) (mg_resume g)
      in (\<lparr>rs_running = (mg_runner g \<noteq> None),
           rs_accepts = (case mg_runner g of Some r \<Rightarrow> rn_accepts r = Some True | None \<Rightarrow> False),
           rs_meta = m\<lparr>m_claude_lifecycle := l\<rparr>, rs_session = mg_session g, rs_resume = mg_resume g,
           rs_lifecycle = l\<rparr>, g\<lparr>mg_lifecycle := l\<rparr>))"

section \<open>The service\<close>

record service =
  sv_ctl :: controller
  sv_mgr :: manager

definition new_service :: "string \<Rightarrow> service" where
  "new_service sid = \<lparr>sv_ctl = new_controller sid, sv_mgr = new_manager\<rparr>"

text \<open>What an operation returns, the events it emits, what it writes to the runner, and the service after it.\<close>

record outcome =
  oc_error :: "go_error option"
  oc_events :: "payload list"
  oc_writes :: "string list"
  oc_service :: service

definition fails :: "go_error \<Rightarrow> service \<Rightarrow> outcome" where
  "fails e s = \<lparr>oc_error = Some e, oc_events = [], oc_writes = [], oc_service = s\<rparr>"

definition set_mgr :: "manager \<Rightarrow> service \<Rightarrow> service" where
  "set_mgr g s = s\<lparr>sv_mgr := g\<rparr>"

text \<open>An operation of the controller whose events the service emits.\<close>

definition control ::
  "(controller \<Rightarrow> agent_state_event list \<times> controller) \<Rightarrow> service \<Rightarrow> payload list \<times> service" where
  "control f s = (case f (sv_ctl s) of (es, c) \<Rightarrow> (map EvAgentState es, s\<lparr>sv_ctl := c\<rparr>))"

text \<open>\<open>SetPermissionMode\<close> of the active runner, when it has it.\<close>

definition set_runner_mode :: "string \<Rightarrow> manager \<Rightarrow> manager" where
  "set_runner_mode mode g =
     g\<lparr>mg_runner := map_option (\<lambda>r. r\<lparr>rn_mode := map_option (\<lambda>_. mode) (rn_mode r)\<rparr>) (mg_runner g)\<rparr>"

record execute_request =
  xr_command :: string
  xr_cwd :: string
  xr_mode :: mode
  xr_permission_mode :: string
  xr_initial_input :: string
  xr_meta :: runtime_meta

text \<open>\<open>prepareExecuteRequest\<close>; the identifiers it may generate are given.\<close>

definition prepare_execute_request :: "string \<Rightarrow> string \<Rightarrow> execute_request \<Rightarrow> execute_request" where
  "prepare_execute_request new_exec new_session req =
     (let m = xr_meta req; pty = (xr_mode req = ModePTY);
          e = trim_space (to_lower (m_engine m));
          command = (if trim_space (xr_command req) \<noteq> [] then trim_space (xr_command req)
            else if e = ''codex'' then ''codex'' else if e = ''gemini'' then ''gemini'' else ''claude'');
          mode = (if pty \<and> runner_is_claude_session None [command, m_command m]
            then normalize_permission_mode (xr_permission_mode req) else xr_permission_mode req);
          m2 = merge_runtime_meta m (empty_meta\<lparr>m_command := command, m_cwd := xr_cwd req,
            m_model := detect_runtime_model command (m_engine m),
            m_reasoning_effort := detect_runtime_effort command (m_engine m), m_permission_mode := mode,
            m_permission_request_id := m_permission_request_id m,
            m_claude_lifecycle := first_non_empty_string [m_claude_lifecycle m,
              if pty \<and> runner_is_claude_session None [command, m_command m] then ''starting'' else ''inactive'']\<rparr>);
          m3 = (if pty \<and> trim_space (m_execution_id m2) = [] then m2\<lparr>m_execution_id := new_exec\<rparr> else m2);
          prepared = req\<lparr>xr_command := command, xr_permission_mode := mode, xr_meta := m3\<rparr>;
          arg = trim_space (extract_resume_arg command);
          managed = trim_space (extract_managed_session_id command (m_resume_session_id m3))
      in if \<not> pty \<or> \<not> runner_is_claude_session None [command, m_command m3] then prepared
         else if arg \<noteq> []
         then prepared\<lparr>xr_meta := m3\<lparr>m_resume_session_id := first_non_empty_string [m_resume_session_id m3, arg]\<rparr>\<rparr>
         else if trim_space (m_resume_session_id m3) \<noteq> [] then prepared
         else if managed \<noteq> [] then prepared\<lparr>xr_meta := m3\<lparr>m_resume_session_id := managed\<rparr>\<rparr>
         else if is_claude_command_head command
         then (let command = trim_space command @ '' '' @ session_id_flag @ '' '' @ new_session
               in prepared\<lparr>xr_command := command,
                    xr_meta := m3\<lparr>m_command := command, m_resume_session_id := new_session\<rparr>\<rparr>)
         else prepared)"

text \<open>\<open>Execute\<close> up to the start of the goroutine; \<open>r\<close> is the runner made for the request's mode.\<close>

definition service_execute ::
  "time \<Rightarrow> string \<Rightarrow> string \<Rightarrow> string \<Rightarrow> runner \<Rightarrow> execute_request \<Rightarrow> service \<Rightarrow> outcome" where
  "service_execute now new_exec new_session sid r req s =
     (let p = prepare_execute_request new_exec new_session req in
      case manager_start sid r (xr_meta p) (sv_mgr s) of
        (Some e, _) \<Rightarrow> fails e s
      | (None, g) \<Rightarrow>
          let g = (if trim_space (xr_permission_mode p) \<noteq> [] then set_runner_mode (xr_permission_mode p) g else g);
              (es, s') = control (on_exec_start now (xr_command p) (xr_meta p)) (set_mgr g s)
          in \<lparr>oc_error = None, oc_events = es, oc_writes = [], oc_service = s'\<rparr>)"

text \<open>
  \<open>extractRuntimeMetaFromEvent\<close>: of the events only \<open>AIStatusEvent\<close> and \<open>RuntimePhaseEvent\<close> have the method
  \<open>GetRuntimeMeta\<close>.
\<close>

fun extract_event_meta :: "payload \<Rightarrow> runtime_meta" where
  "extract_event_meta (EvAIStatus e) = ev_meta e"
| "extract_event_meta (EvRuntimePhase e) = ev_meta e"
| "extract_event_meta _ = empty_meta"

fun mapped_lifecycle :: "payload \<Rightarrow> bool \<Rightarrow> runtime_meta \<Rightarrow> runtime_meta \<Rightarrow> runtime_meta" where
  "mapped_lifecycle (EvPrompt _) claude incoming m = m\<lparr>m_claude_lifecycle := ''waiting_input''\<rparr>"
| "mapped_lifecycle (EvStepUpdate _) claude incoming m = (if claude then m\<lparr>m_claude_lifecycle := ''active''\<rparr> else m)"
| "mapped_lifecycle (EvFileDiff _) claude incoming m = (if claude then m\<lparr>m_claude_lifecycle := ''active''\<rparr> else m)"
| "mapped_lifecycle (EvSessionState _) claude incoming m =
     (let l = normalize_lifecycle (m_claude_lifecycle incoming) in
      if l \<noteq> [] \<and> l \<noteq> ''starting'' then m\<lparr>m_claude_lifecycle := l\<rparr> else m)"
| "mapped_lifecycle (EvLog _) claude incoming m =
     (let l = normalize_lifecycle (m_claude_lifecycle incoming) in
      if l \<noteq> [] \<and> l \<noteq> ''starting'' then m\<lparr>m_claude_lifecycle := l\<rparr> else m)"
| "mapped_lifecycle _ claude incoming m = m"

text \<open>The sink the runner of an execution reports to; \<open>selected\<close> is that runner, \<open>p\<close> its prepared request.\<close>

definition service_runner_event :: "time \<Rightarrow> runner \<Rightarrow> execute_request \<Rightarrow> payload \<Rightarrow> service \<Rightarrow> payload list \<times> service" where
  "service_runner_event now selected p e s =
     (let g = (case rn_session selected of
            Some sid \<Rightarrow> if trim_space sid \<noteq> [] then update_resume (trim_space sid) (sv_mgr s) else sv_mgr s
          | None \<Rightarrow> sv_mgr s);
          incoming = extract_event_meta e;
          resume = resolve_resume_session_id (rn_session selected) [incoming, xr_meta p];
          g = (if trim_space (m_resume_session_id incoming) \<noteq> [] \<and> resume \<noteq> [] then update_resume resume g else g);
          (snap, g) = manager_snapshot g;
          claude = runner_is_claude_session (Some selected) [xr_command p, m_command (rs_meta snap), m_command (xr_meta p)];
          m = mapped_lifecycle e claude incoming (rs_meta snap);
          g = update_meta (\<lambda>_. m) g;
          mapped = apply_runtime_meta e m;
          (es, s') = control (on_runner_event now mapped) (set_mgr g s)
      in (mapped # es, s'))"

text \<open>The end of the goroutine, after \<open>Run\<close> returned \<open>failed\<close>.\<close>

definition service_run_end ::
  "time \<Rightarrow> string \<Rightarrow> nat \<Rightarrow> execute_request \<Rightarrow> go_error option \<Rightarrow> service \<Rightarrow> payload list \<times> service" where
  "service_run_end now sid rid p failed s =
     (let report = (case failed of
            Some e \<Rightarrow> [apply_runtime_meta (EvError (new_error_event now sid (ge_text e) [])) (xr_meta p)] | None \<Rightarrow> []);
          (current, g) = finish_if_current rid (sv_mgr s);
          (es, s') = (if current then control (on_command_finished now (xr_meta p)) (set_mgr g s) else ([], s))
      in (report @ es, s'))"

text \<open>When the metadata of an input is worth merging into the active one.\<close>

definition input_informative :: "runtime_meta \<Rightarrow> bool" where
  "input_informative m \<longleftrightarrow> m_source m \<noteq> [] \<or> m_skill_name m \<noteq> [] \<or> m_resume_session_id m \<noteq> [] \<or> m_execution_id m \<noteq> [] \<or>
     m_group_id m \<noteq> [] \<or> m_group_title m \<noteq> [] \<or> m_context_id m \<noteq> [] \<or> m_context_title m \<noteq> [] \<or>
     m_target_text m \<noteq> [] \<or> m_target_path m \<noteq> [] \<or> m_permission_mode m \<noteq> []"

definition normalize_meta_mode :: "runtime_meta \<Rightarrow> runtime_meta" where
  "normalize_meta_mode m =
     (if m_permission_mode m \<noteq> [] then m\<lparr>m_permission_mode := normalize_permission_mode (m_permission_mode m)\<rparr> else m)"

text \<open>The effective metadata and the manager that has taken it over.\<close>

definition merge_input_meta :: "runtime_meta \<Rightarrow> manager \<Rightarrow> runtime_meta \<times> manager" where
  "merge_input_meta m g =
     (if input_informative m
      then let eff = merge_runtime_meta (mg_meta g) m; g = update_meta (\<lambda>_. eff) g
           in (eff, if m_permission_mode m \<noteq> [] then set_runner_mode (m_permission_mode m) g else g)
      else (mg_meta g, g))"

definition input_error :: "go_error \<Rightarrow> go_error" where
  "input_error e =
     (if ge_is e = Some InputNotSupported then err InputNotSupported
      else if ge_is e = Some NoActiveRunner \<or> str_contains (ge_text e) ''no active pty session'' then err NoActiveRunner
      else if str_contains (to_lower (ge_text e)) ''no conversation found with session id'' then err ConversationNotFound
      else if ge_is e = Some RunnerNotInteractive \<or>
        str_contains (ge_text e) ''runner is not ready for interactive input'' then err RunnerNotInteractive
      else e)"

definition response_error :: "go_error \<Rightarrow> go_error" where
  "response_error e =
     (if ge_is e = Some NoPendingControl then err NoPendingControl
      else if ge_is e = Some NoActiveRunner \<or> str_contains (ge_text e) ''no active pty session'' then err NoActiveRunner
      else if str_contains (to_lower (ge_text e)) ''no conversation found with session id'' then err ConversationNotFound
      else e)"

text \<open>\<open>SendInput\<close>; \<open>w\<close> is what the runner's \<open>Write\<close> returns.\<close>

definition send_input :: "time \<Rightarrow> string \<Rightarrow> runtime_meta \<Rightarrow> go_error option \<Rightarrow> service \<Rightarrow> outcome" where
  "send_input now input m w s =
     (if mg_runner (sv_mgr s) = None \<or> mg_session (sv_mgr s) = [] then fails (err NoActiveRunner) s
      else let (eff, g) = merge_input_meta (normalize_meta_mode m) (sv_mgr s); s' = set_mgr g s in
        case w of
          Some e \<Rightarrow> \<lparr>oc_error = Some (input_error e), oc_events = [], oc_writes = [input], oc_service = s'\<rparr>
        | None \<Rightarrow> (case control (on_input_sent now eff) s' of
            (es, s'') \<Rightarrow> \<lparr>oc_error = None, oc_events = es, oc_writes = [input], oc_service = s''\<rparr>))"

text \<open>\<open>SendPermissionDecision\<close>; \<open>w\<close> is what the runner's \<open>WritePermissionResponse\<close> returns.\<close>

definition send_permission_decision ::
  "time \<Rightarrow> string \<Rightarrow> runtime_meta \<Rightarrow> go_error option \<Rightarrow> service \<Rightarrow> outcome" where
  "send_permission_decision now decision m w s = (case mg_runner (sv_mgr s) of
     None \<Rightarrow> fails (err NoActiveRunner) s
   | Some r \<Rightarrow>
       if mg_session (sv_mgr s) = [] then fails (err NoActiveRunner) s
       else (case rn_pending r of
           None \<Rightarrow> fails (err InputNotSupported) s
         | Some (has, current) \<Rightarrow>
             let m = normalize_meta_mode m; rid = trim_space (m_permission_request_id m) in
             if \<not> has then fails (err NoPendingControl) s
             else if rid \<noteq> [] \<and> (trim_space current = [] \<or> trim_space current \<noteq> rid)
             then fails (err NoPendingControl) s
             else let (eff, g) = merge_input_meta m (sv_mgr s); s' = set_mgr g s in
               case w of
                 Some e \<Rightarrow> \<lparr>oc_error = Some (response_error e), oc_events = [], oc_writes = [decision], oc_service = s'\<rparr>
               | None \<Rightarrow> (case control (on_input_sent now eff) s' of
                   (es, s'') \<Rightarrow> \<lparr>oc_error = None, oc_events = es, oc_writes = [decision], oc_service = s''\<rparr>)))"

definition current_permission_request_id :: "string \<Rightarrow> manager \<Rightarrow> string" where
  "current_permission_request_id sid g = (case mg_runner g of
     None \<Rightarrow> []
   | Some r \<Rightarrow>
       if mg_session g = [] then []
       else if trim_space sid \<noteq> [] \<and> trim_space sid \<noteq> mg_session g then []
       else (case rn_pending r of Some (True, rid) \<Rightarrow> trim_space rid | _ \<Rightarrow> []))"

definition service_review_decision ::
  "time \<Rightarrow> string \<Rightarrow> bool \<Rightarrow> runtime_meta \<Rightarrow> go_error option \<Rightarrow> service \<Rightarrow> outcome" where
  "service_review_decision now decision review_only m w s =
     (let d = trim_space (to_lower decision);
          m = (normalize_meta_mode m)\<lparr>m_source := ''review-decision'', m_target_text := d\<rparr>
      in if d = [] then fails (plain_error ''review decision is required'') s
         else if review_only \<and> d \<noteq> ''revert''
         then (case control (on_input_sent now m) s of
             (es, s') \<Rightarrow> \<lparr>oc_error = None, oc_events = es, oc_writes = [], oc_service = s'\<rparr>)
         else if review_decision_payload d m = []
         then fails (plain_error ''review decision must be one of: accept, revert, revise'') s
         else send_input now (review_decision_payload d m) m w s)"

definition service_plan_decision ::
  "time \<Rightarrow> string \<Rightarrow> runtime_meta \<Rightarrow> go_error option \<Rightarrow> service \<Rightarrow> outcome" where
  "service_plan_decision now decision m w s =
     (let d = trim_space decision;
          m = (if trim_space (m_command m) = [] then m\<lparr>m_command := ''claude''\<rparr> else m);
          m' = (normalize_meta_mode m)\<lparr>m_source := ''plan-decision'', m_target_text := d\<rparr>;
          m' = (if m_resume_session_id m \<noteq> []
            then m'\<lparr>m_resume_session_id := first_non_empty_string [m_resume_session_id m, m_resume_session_id m']\<rparr> else m')
      in if d = [] then fails (plain_error ''plan decision is required'') s
         else send_input now (d @ [CHR 0x0A]) m' w s)"

definition service_update_permission_mode :: "string \<Rightarrow> service \<Rightarrow> service" where
  "service_update_permission_mode mode s =
     (let m = normalize_permission_mode mode in
      \<lparr>sv_ctl = update_permission_mode m (sv_ctl s),
       sv_mgr = set_runner_mode m (update_meta (\<lambda>b. b\<lparr>m_permission_mode := m\<rparr>) (sv_mgr s))\<rparr>)"

definition close_active :: "service \<Rightarrow> service" where
  "close_active s = set_mgr (cleared (sv_mgr s)) s"

definition txt_stopped :: string where "txt_stopped = [CHR 0xE5, CHR 0xB7, CHR 0xB2, CHR 0xE5, CHR 0x81,
  CHR 0x9C, CHR 0xE6, CHR 0xAD, CHR 0xA2, CHR 0xE5, CHR 0xBD, CHR 0x93, CHR 0xE5, CHR 0x89, CHR 0x8D,
  CHR 0xE8, CHR 0xBF, CHR 0x90, CHR 0xE8, CHR 0xA1, CHR 0x8C]"

definition new_session_state_event :: "time \<Rightarrow> string \<Rightarrow> string \<Rightarrow> string \<Rightarrow> session_state_event" where
  "new_session_state_event now sid state message =
     event.extend (new_base_event now ''session_state'' sid) (session_state_event.fields state message)"

text \<open>
  \<open>StopActive\<close> reads the active runner, releases the manager and takes it again to clear it: the two halves,
  and the whole when nothing happens between them.
\<close>

definition stop_read :: "service \<Rightarrow> runtime_meta option" where
  "stop_read s = (if mg_runner (sv_mgr s) = None \<or> mg_session (sv_mgr s) = [] then None else Some (mg_meta (sv_mgr s)))"

definition stop_finish :: "time \<Rightarrow> string \<Rightarrow> runtime_meta \<Rightarrow> service \<Rightarrow> payload list \<times> service" where
  "stop_finish now sid m s = (case control (on_command_finished now m) (close_active s) of
     (es, s') \<Rightarrow> (apply_runtime_meta (EvSessionState (new_session_state_event now sid ''stopped'' txt_stopped)) m # es, s'))"

definition stop_active :: "time \<Rightarrow> string \<Rightarrow> service \<Rightarrow> outcome" where
  "stop_active now sid s = (case stop_read s of
     None \<Rightarrow> fails (err NoActiveRunner) s
   | Some m \<Rightarrow> (case stop_finish now sid m s of
       (es, s') \<Rightarrow> \<lparr>oc_error = None, oc_events = es, oc_writes = [], oc_service = s'\<rparr>))"

section \<open>Resuming a session without a runner\<close>

definition can_resume_ai_session :: "mode \<Rightarrow> string \<Rightarrow> service \<Rightarrow> bool" where
  "can_resume_ai_session mode command s =
     (let g = sv_mgr s in
      mode = ModePTY \<and>
      (if mg_runner g \<noteq> None \<and> mg_session g \<noteq> []
       then runner_is_claude_session (mg_runner g) [command, m_command (mg_meta g)]
       else runner_is_claude_session None [command, m_command (mg_meta g), m_command (rs_meta (fst (manager_snapshot g)))]))"

definition has_resume_session :: "runtime_meta \<Rightarrow> service \<Rightarrow> bool" where
  "has_resume_session m s =
     (let g = sv_mgr s; provider = (case mg_runner g of Some r \<Rightarrow> rn_session r | None \<Rightarrow> None) in
      trim_space (resolve_resume_session_id provider
        [m, mg_meta g, rs_meta (fst (manager_snapshot g)),
         empty_meta\<lparr>m_resume_session_id := rs_resume (fst (manager_snapshot g))\<rparr>]) \<noteq> [])"

definition add_unless :: "string list \<Rightarrow> string \<Rightarrow> string \<Rightarrow> string" where
  "add_unless parts flags command =
     (if list_ex (str_contains (to_lower command)) parts then command else command @ flags)"

definition detached_flags :: "string \<Rightarrow> string" where
  "detached_flags command =
     (if \<not> is_claude_command_head command then command
      else let c1 = add_unless ['' --print'', '' -p''] '' --print'' command;
               lower = to_lower c1;
               add = (\<lambda>part flags c. if str_contains lower part then c else c @ flags)
           in add ''--permission-prompt-tool'' '' --permission-prompt-tool stdio''
                (add ''--input-format'' '' --input-format stream-json''
                (add ''--output-format'' '' --output-format stream-json''
                (add '' --verbose'' '' --verbose'' c1))))"

definition build_detached_resume_request ::
  "string \<Rightarrow> string \<Rightarrow> execute_request \<Rightarrow> string \<Rightarrow> service \<Rightarrow> go_error + execute_request" where
  "build_detached_resume_request new_exec new_session req target s =
     (let p = prepare_execute_request new_exec new_session req;
          snap = fst (manager_snapshot (sv_mgr s));
          resume = resolve_resume_session_id None
            [xr_meta p, rs_meta snap, empty_meta\<lparr>m_resume_session_id := rs_resume snap\<rparr>];
          base = (if trim_space (m_command (xr_meta p)) = [] then trim_space (xr_command p)
            else trim_space (m_command (xr_meta p)));
          command = ensure_resume_command base resume;
          session = extract_managed_session_id command resume;
          command = detached_flags command;
          target = normalize_permission_mode target
      in if xr_mode p \<noteq> ModePTY then Inl (err NoActiveRunner)
         else if \<not> runner_is_claude_session None [xr_command p, m_command (xr_meta p), m_command (rs_meta snap)]
         then Inl (err NoActiveRunner)
         else if resume = [] then Inl (err ResumeUnavailable)
         else Inr (p\<lparr>xr_command := command, xr_permission_mode := target,
           xr_meta := (xr_meta p)\<lparr>m_command := command, m_resume_session_id := session, m_permission_mode := target\<rparr>\<rparr>))"

text \<open>
  The polling loops: one answer per look, the last of them when the deadline has passed.
  \<open>waitForRunnerStart\<close> looks for a runner, \<open>waitForInteractive\<close> at whether the runner accepts input and
  whether it still runs.
\<close>

fun wait_for_runner_start :: "bool list \<Rightarrow> go_error option" where
  "wait_for_runner_start [] = Some (err NoActiveRunner)"
| "wait_for_runner_start (running # looks) = (if running then None else wait_for_runner_start looks)"

fun wait_for_interactive :: "(bool \<times> bool) list \<Rightarrow> go_error option" where
  "wait_for_interactive [] = Some (err RunnerNotInteractive)"
| "wait_for_interactive ((accepts, running) # looks) =
     (if accepts then None else if \<not> running then Some (err NoActiveRunner) else wait_for_interactive looks)"

text \<open>
  \<open>sendInputWhenRunnerReady\<close>: each look comes with what happened to the service before it and with what the
  write returns. It looks again after two errors only.
\<close>

definition not_ready :: "go_error \<Rightarrow> bool" where
  "not_ready e \<longleftrightarrow> ge_is e = Some NoActiveRunner \<or> ge_is e = Some RunnerNotInteractive"

definition deadline_error :: "go_error \<Rightarrow> go_error" where
  "deadline_error e = (if ge_is e = Some RunnerNotInteractive then err RunnerNotInteractive else err NoActiveRunner)"

fun send_when_ready ::
  "time \<Rightarrow> string \<Rightarrow> runtime_meta \<Rightarrow> ((service \<Rightarrow> service) \<times> go_error option) list \<Rightarrow> service \<Rightarrow> outcome" where
  "send_when_ready now input m [] s = fails (err NoActiveRunner) s"
| "send_when_ready now input m ((env, w) # looks) s =
     (let r = send_input now input m w (env s) in
      case oc_error r of
        None \<Rightarrow> r
      | Some e \<Rightarrow>
          if \<not> not_ready e then r
          else if looks = [] then r\<lparr>oc_error := Some (deadline_error e)\<rparr>
          else let r' = send_when_ready now input m looks (oc_service r)
               in r'\<lparr>oc_events := oc_events r @ oc_events r', oc_writes := oc_writes r @ oc_writes r'\<rparr>)"

text \<open>What came before is part of the outcome.\<close>

definition after :: "outcome \<Rightarrow> outcome \<Rightarrow> outcome" where
  "after r r' = r'\<lparr>oc_events := oc_events r @ oc_events r', oc_writes := oc_writes r @ oc_writes r'\<rparr>"

definition send_input_or_resume ::
  "time \<Rightarrow> string \<Rightarrow> string \<Rightarrow> string \<Rightarrow> runner \<Rightarrow> execute_request \<Rightarrow> string \<Rightarrow> runtime_meta \<Rightarrow> go_error option \<Rightarrow>
   bool list \<Rightarrow> ((service \<Rightarrow> service) \<times> go_error option) list \<Rightarrow> service \<Rightarrow> outcome" where
  "send_input_or_resume now new_exec new_session sid r req input m w starts looks s =
     (let first = send_input now input m w s; s1 = oc_service first in
      case oc_error first of
        None \<Rightarrow> first
      | Some e \<Rightarrow>
          if ge_is e \<noteq> Some NoActiveRunner then first
          else if xr_mode req \<noteq> ModePTY \<or> \<not> can_resume_ai_session (xr_mode req) (xr_command req) s1 \<or>
            \<not> has_resume_session (xr_meta req) s1
          then first\<lparr>oc_error := Some (err NoActiveRunner)\<rparr>
          else (case build_detached_resume_request new_exec new_session req (xr_permission_mode req) s1 of
              Inl e \<Rightarrow> first\<lparr>oc_error := Some e\<rparr>
            | Inr restart \<Rightarrow>
                let started = after first (service_execute now new_exec new_session sid r restart s1);
                    m' = merge_runtime_meta m (empty_meta\<lparr>
                      m_resume_session_id := m_resume_session_id (xr_meta restart),
                      m_permission_mode := xr_permission_mode restart\<rparr>)
                in if oc_error started \<noteq> None then started
                   else (case wait_for_runner_start starts of
                       Some e \<Rightarrow> started\<lparr>oc_error := Some e\<rparr>
                     | None \<Rightarrow> after started (send_when_ready now input m' looks (oc_service started)))))"

section \<open>Steps\<close>

text \<open>
  What can happen to a service, with the events it emits: the operations, the events and the end of a run,
  and a change of the answers of the active runner.
\<close>

inductive svc_step :: "service \<Rightarrow> payload list \<Rightarrow> service \<Rightarrow> bool" where
  Execute: "r = service_execute now ne ns sid run req s \<Longrightarrow> svc_step s (oc_events r) (oc_service r)"
| RunnerEvent: "service_runner_event now run p e s = (es, s') \<Longrightarrow> svc_step s es s'"
| RunEnd: "service_run_end now sid rid p failed s = (es, s') \<Longrightarrow> svc_step s es s'"
| Input: "r = send_input now input m w s \<Longrightarrow> svc_step s (oc_events r) (oc_service r)"
| Decision: "r = send_permission_decision now d m w s \<Longrightarrow> svc_step s (oc_events r) (oc_service r)"
| Review: "r = service_review_decision now d only m w s \<Longrightarrow> svc_step s (oc_events r) (oc_service r)"
| Plan: "r = service_plan_decision now d m w s \<Longrightarrow> svc_step s (oc_events r) (oc_service r)"
| Mode: "svc_step s [] (service_update_permission_mode mode s)"
| UserInput: "svc_step s [] (s\<lparr>sv_ctl := record_user_input input (sv_ctl s)\<rparr>)"
| StopFinish: "stop_finish now sid m s = (es, s') \<Longrightarrow> svc_step s es s'"
| Close: "svc_step s [] (close_active s)"
| Snapshot: "svc_step s [] (set_mgr (snd (manager_snapshot (sv_mgr s))) s)"
| Answers: "mg_runner (sv_mgr s) = Some r \<Longrightarrow> rn_id r' = rn_id r \<Longrightarrow>
    svc_step s [] (set_mgr ((sv_mgr s)\<lparr>mg_runner := Some r'\<rparr>) s)"

inductive svc_run :: "service \<Rightarrow> payload list \<Rightarrow> service \<Rightarrow> bool" where
  Done: "svc_run s [] s"
| More: "svc_step s es s' \<Longrightarrow> svc_run s' es' s'' \<Longrightarrow> svc_run s (es @ es') s''"

section \<open>Lemmas\<close>

lemma control_eq:
  "control f s = (map EvAgentState (fst (f (sv_ctl s))), s\<lparr>sv_ctl := snd (f (sv_ctl s))\<rparr>)"
  by (simp add: control_def split: prod.split)

lemma set_mgr_sel [simp]:
  "sv_ctl (set_mgr g s) = sv_ctl s" "sv_mgr (set_mgr g s) = g"
  by (simp_all add: set_mgr_def)

lemma set_mgr_same [simp]: "set_mgr (sv_mgr s) s = s"
  by (simp add: set_mgr_def)

lemma fails_sel [simp]:
  "oc_error (fails e s) = Some e" "oc_events (fails e s) = []" "oc_writes (fails e s) = []" "oc_service (fails e s) = s"
  by (simp_all add: fails_def)

lemma ctl_do_curried:
  "ctl_do now (CExec command m) = on_exec_start now command m" "ctl_do now (CEvent p) = on_runner_event now p"
  "ctl_do now (CInput m) = on_input_sent now m" "ctl_do now (CFinished m) = on_command_finished now m"
  by (simp_all add: fun_eq_iff)

lemma ctl_run_one: "ctl_run [(now, op)] c = ctl_do now op c"
  by (simp split: prod.split)

lemma ctl_run_append:
  "ctl_run a c = (es, c1) \<Longrightarrow> ctl_run b c1 = (es', c2) \<Longrightarrow> ctl_run (a @ b) c = (es @ es', c2)"
  by (induction a c arbitrary: es rule: ctl_run.induct) (auto split: prod.splits)

text \<open>A step that is, for the controller, a run of its operations, whose events are among those of the step.\<close>

definition controlled :: "service \<Rightarrow> payload list \<Rightarrow> service \<Rightarrow> bool" where
  "controlled s es s' \<longleftrightarrow>
     (\<exists>ops ces. ctl_run ops (sv_ctl s) = (ces, sv_ctl s') \<and> subseq (map EvAgentState ces) es)"

lemma controlled_none: "sv_ctl s' = sv_ctl s \<Longrightarrow> controlled s es s'"
  unfolding controlled_def by (intro exI [of _ "[]"] exI [of _ "[]"]) simp

lemma controlled_one:
  assumes "ctl_do now op (sv_ctl s) = (ces, sv_ctl s')" and "es = report @ map EvAgentState ces"
  shows "controlled s es s'"
  unfolding controlled_def
  using assms by (intro exI [of _ "[(now, op)]"] exI [of _ ces]) (simp add: ctl_run_one list_emb_append2)

lemma controlled_trans:
  assumes "controlled s es s'" and "controlled s' es' s''"
  shows "controlled s (es @ es') s''"
proof -
  obtain a ces b ces' where "ctl_run a (sv_ctl s) = (ces, sv_ctl s')" "subseq (map EvAgentState ces) es"
      "ctl_run b (sv_ctl s') = (ces', sv_ctl s'')" "subseq (map EvAgentState ces') es'"
    using assms unfolding controlled_def by metis
  then show ?thesis
    unfolding controlled_def
    by (intro exI [of _ "a @ b"] exI [of _ "ces @ ces'"]) (simp add: ctl_run_append list_emb_append_mono)
qed

text \<open>The invariant of the manager.\<close>

definition mgr_inv :: "manager \<Rightarrow> bool" where
  "mgr_inv g \<longleftrightarrow> mg_lifecycle g \<in> set lifecycles \<and> (mg_runner g = None \<longrightarrow> mg_session g = [])"

lemma derive_runner_lifecycle_range: "derive_runner_lifecycle r m active resume \<in> set lifecycles"
  using normalize_lifecycle_range by (simp add: derive_runner_lifecycle_def Let_def lifecycles_mem)

lemma keep_lifecycle_sel [simp]:
  "mg_runner (keep_lifecycle g) = mg_runner g" "mg_session (keep_lifecycle g) = mg_session g"
  "mg_resume (keep_lifecycle g) = mg_resume g"
  by (simp_all add: keep_lifecycle_def Let_def)

lemma keep_lifecycle_inv: "(mg_runner g = None \<longrightarrow> mg_session g = []) \<Longrightarrow> mgr_inv (keep_lifecycle g)"
  using derive_runner_lifecycle_range by (simp add: mgr_inv_def keep_lifecycle_def Let_def)

lemma take_resume_id_sel [simp]:
  "mg_runner (take_resume_id g) = mg_runner g" "mg_session (take_resume_id g) = mg_session g"
  "mg_meta (take_resume_id g) = mg_meta g"
  by (simp_all add: take_resume_id_def)

lemma update_meta_sel [simp]:
  "mg_runner (update_meta f g) = mg_runner g" "mg_session (update_meta f g) = mg_session g"
  by (simp_all add: update_meta_def)

lemma update_resume_sel [simp]:
  "mg_runner (update_resume sid g) = mg_runner g" "mg_session (update_resume sid g) = mg_session g"
  by (simp_all add: update_resume_def)

lemma set_runner_mode_sel [simp]:
  "mg_session (set_runner_mode mode g) = mg_session g" "mg_lifecycle (set_runner_mode mode g) = mg_lifecycle g"
  "mg_meta (set_runner_mode mode g) = mg_meta g" "mg_resume (set_runner_mode mode g) = mg_resume g"
  "mg_runner (set_runner_mode mode g) = None \<longleftrightarrow> mg_runner g = None"
  "map_option rn_id (mg_runner (set_runner_mode mode g)) = map_option rn_id (mg_runner g)"
  by (simp_all add: set_runner_mode_def option.map_comp comp_def)

lemma snapshot_sel [simp]:
  "mg_runner (snd (manager_snapshot g)) = mg_runner g" "mg_session (snd (manager_snapshot g)) = mg_session g"
  "mg_meta (snd (manager_snapshot g)) = mg_meta g" "mg_resume (snd (manager_snapshot g)) = mg_resume g"
  by (simp_all add: manager_snapshot_def Let_def)

lemma update_meta_inv: "mgr_inv g \<Longrightarrow> mgr_inv (update_meta f g)"
  unfolding update_meta_def by (rule keep_lifecycle_inv) (simp add: mgr_inv_def)

lemma update_resume_inv: "mgr_inv g \<Longrightarrow> mgr_inv (update_resume sid g)"
  unfolding update_resume_def using keep_lifecycle_inv by (auto simp: mgr_inv_def)

lemma set_runner_mode_inv: "mgr_inv g \<Longrightarrow> mgr_inv (set_runner_mode mode g)"
  by (simp add: mgr_inv_def)

lemma snapshot_inv: "mgr_inv g \<Longrightarrow> mgr_inv (snd (manager_snapshot g))"
  using derive_runner_lifecycle_range by (simp add: mgr_inv_def) (simp add: manager_snapshot_def Let_def)

lemma cleared_inv: "mgr_inv (cleared g)"
  by (simp add: mgr_inv_def cleared_def lifecycles_mem)

lemma cleared_sel [simp]: "mg_runner (cleared g) = None" "mg_session (cleared g) = []" "mg_meta (cleared g) = empty_meta"
  by (simp_all add: cleared_def)

lemma start_inv: "manager_start sid r m g = (None, g') \<Longrightarrow> mgr_inv g'"
  by (auto simp: manager_start_def split: if_splits intro!: keep_lifecycle_inv)

lemma finish_inv: "mgr_inv g \<Longrightarrow> mgr_inv (snd (finish_if_current rid g))"
  by (simp add: finish_if_current_def cleared_inv)

lemma merge_input_inv: "mgr_inv g \<Longrightarrow> mgr_inv (snd (merge_input_meta m g))"
  by (simp add: merge_input_meta_def Let_def update_meta_inv set_runner_mode_inv)

lemmas mgr_invs = update_meta_inv update_resume_inv set_runner_mode_inv snapshot_inv cleared_inv finish_inv merge_input_inv

section \<open>Every step\<close>

definition step_ok :: "service \<Rightarrow> payload list \<Rightarrow> service \<Rightarrow> bool" where
  "step_ok s es s' \<longleftrightarrow> controlled s es s' \<and> (mgr_inv (sv_mgr s) \<longrightarrow> mgr_inv (sv_mgr s'))"

lemma step_ok_silent: "sv_ctl s' = sv_ctl s \<Longrightarrow> (mgr_inv (sv_mgr s) \<Longrightarrow> mgr_inv (sv_mgr s')) \<Longrightarrow> step_ok s es s'"
  by (simp add: step_ok_def controlled_none)

lemma step_ok_control:
  assumes "control (ctl_do now op) (set_mgr g s) = (es, s')" and "mgr_inv (sv_mgr s) \<Longrightarrow> mgr_inv g"
  shows "step_ok s (report @ es) s'"
proof -
  have "es = map EvAgentState (fst (ctl_do now op (sv_ctl s)))" "sv_ctl s' = snd (ctl_do now op (sv_ctl s))" "sv_mgr s' = g"
    using assms(1) by (auto simp: control_eq)
  then show ?thesis
    using assms(2) controlled_one [of now op s "fst (ctl_do now op (sv_ctl s))" s' "report @ es" report]
    by (simp add: step_ok_def)
qed

lemma execute_ok: "step_ok s (oc_events (service_execute now ne ns sid r req s)) (oc_service (service_execute now ne ns sid r req s))"
proof -
  let ?p = "prepare_execute_request ne ns req"
  obtain e g where start: "manager_start sid r (xr_meta ?p) (sv_mgr s) = (e, g)"
    by (cases "manager_start sid r (xr_meta ?p) (sv_mgr s)")
  show ?thesis
  proof (cases e)
    case (Some x)
    then show ?thesis
      using start by (simp add: service_execute_def Let_def step_ok_silent)
  next
    case None
    define g' where "g' = (if trim_space (xr_permission_mode ?p) \<noteq> [] then set_runner_mode (xr_permission_mode ?p) g else g)"
    have "mgr_inv g"
      using start None start_inv by simp
    then have inv: "mgr_inv g'"
      by (simp add: g'_def set_runner_mode_inv)
    obtain es s' where c: "control (ctl_do now (CExec (xr_command ?p) (xr_meta ?p))) (set_mgr g' s) = (es, s')"
      by (cases "control (ctl_do now (CExec (xr_command ?p) (xr_meta ?p))) (set_mgr g' s)")
    have "step_ok s ([] @ es) s'"
      using c inv by (rule step_ok_control)
    moreover have "service_execute now ne ns sid r req s =
        \<lparr>oc_error = None, oc_events = es, oc_writes = [], oc_service = s'\<rparr>"
      using start None c by (simp add: service_execute_def Let_def ctl_do_curried g'_def split: if_splits)
    ultimately show ?thesis
      by simp
  qed
qed

lemma send_input_ok: "step_ok s (oc_events (send_input now input m w s)) (oc_service (send_input now input m w s))"
proof -
  obtain eff g where merge: "merge_input_meta (normalize_meta_mode m) (sv_mgr s) = (eff, g)"
    by (cases "merge_input_meta (normalize_meta_mode m) (sv_mgr s)")
  have inv: "mgr_inv (sv_mgr s) \<Longrightarrow> mgr_inv g"
    using merge_input_inv [of "sv_mgr s" "normalize_meta_mode m"] merge by simp
  obtain es s' where c: "control (ctl_do now (CInput eff)) (set_mgr g s) = (es, s')"
    by (cases "control (ctl_do now (CInput eff)) (set_mgr g s)")
  have "step_ok s ([] @ es) s'"
    using c inv by (rule step_ok_control)
  moreover have "step_ok s [] (set_mgr g s)"
    using inv by (simp add: step_ok_silent)
  moreover have "step_ok s [] s"
    by (simp add: step_ok_silent)
  ultimately show ?thesis
    using merge c by (simp add: send_input_def Let_def ctl_do_curried split: option.split)
qed

lemma decision_ok:
  "step_ok s (oc_events (send_permission_decision now d m w s)) (oc_service (send_permission_decision now d m w s))"
proof -
  obtain eff g where merge: "merge_input_meta (normalize_meta_mode m) (sv_mgr s) = (eff, g)"
    by (cases "merge_input_meta (normalize_meta_mode m) (sv_mgr s)")
  have inv: "mgr_inv (sv_mgr s) \<Longrightarrow> mgr_inv g"
    using merge_input_inv [of "sv_mgr s" "normalize_meta_mode m"] merge by simp
  obtain es s' where c: "control (ctl_do now (CInput eff)) (set_mgr g s) = (es, s')"
    by (cases "control (ctl_do now (CInput eff)) (set_mgr g s)")
  have "step_ok s ([] @ es) s'"
    using c inv by (rule step_ok_control)
  moreover have "step_ok s [] (set_mgr g s)"
    using inv by (simp add: step_ok_silent)
  moreover have "step_ok s [] s"
    by (simp add: step_ok_silent)
  ultimately show ?thesis
    using merge c by (simp add: send_permission_decision_def Let_def ctl_do_curried split: option.split prod.split)
qed

lemma review_ok:
  "step_ok s (oc_events (service_review_decision now d only m w s)) (oc_service (service_review_decision now d only m w s))"
proof -
  let ?m = "(normalize_meta_mode m)\<lparr>m_source := ''review-decision'', m_target_text := trim_space (to_lower d)\<rparr>"
  obtain es s' where c: "control (ctl_do now (CInput ?m)) (set_mgr (sv_mgr s) s) = (es, s')"
    by (cases "control (ctl_do now (CInput ?m)) (set_mgr (sv_mgr s) s)")
  then have "step_ok s ([] @ es) s'"
    by (rule step_ok_control)
  then show ?thesis
    using c send_input_ok
    by (simp add: service_review_decision_def Let_def step_ok_silent ctl_do_curried)
qed

lemma stop_finish_ok: "stop_finish now sid m s = (es, s') \<Longrightarrow> step_ok s es s'"
proof -
  assume r: "stop_finish now sid m s = (es, s')"
  obtain es' where c: "control (ctl_do now (CFinished m)) (set_mgr (cleared (sv_mgr s)) s) = (es', s')"
      and es: "es = [apply_runtime_meta (EvSessionState (new_session_state_event now sid ''stopped'' txt_stopped)) m] @ es'"
    using r by (auto simp: stop_finish_def close_active_def ctl_do_curried split: prod.splits)
  show ?thesis
    unfolding es using c cleared_inv by (rule step_ok_control)
qed

lemma runner_event_step_ok: "service_runner_event now run p e s = (es, s') \<Longrightarrow> step_ok s es s'"
proof -
  assume r: "service_runner_event now run p e s = (es, s')"
  define g0 where "g0 = (case rn_session run of
      Some sid \<Rightarrow> if trim_space sid \<noteq> [] then update_resume (trim_space sid) (sv_mgr s) else sv_mgr s
    | None \<Rightarrow> sv_mgr s)"
  define resume where "resume = resolve_resume_session_id (rn_session run) [extract_event_meta e, xr_meta p]"
  define g1 where "g1 = (if trim_space (m_resume_session_id (extract_event_meta e)) \<noteq> [] \<and> resume \<noteq> []
    then update_resume resume g0 else g0)"
  have inv: "mgr_inv (sv_mgr s) \<Longrightarrow> mgr_inv g1"
    by (simp add: g0_def g1_def mgr_invs split: option.split)
  define m where "m = mapped_lifecycle e
    (runner_is_claude_session (Some run) [xr_command p, m_command (rs_meta (fst (manager_snapshot g1))), m_command (xr_meta p)])
    (extract_event_meta e) (rs_meta (fst (manager_snapshot g1)))"
  let ?c = "control (ctl_do now (CEvent (apply_runtime_meta e m)))
    (set_mgr (update_meta (\<lambda>_. m) (snd (manager_snapshot g1))) s)"
  have eq: "service_runner_event now run p e s = ([apply_runtime_meta e m] @ fst ?c, snd ?c)"
    by (simp add: service_runner_event_def Let_def case_prod_beta m_def g1_def resume_def g0_def ctl_do_curried)
  have "mgr_inv (sv_mgr s) \<Longrightarrow> mgr_inv (update_meta (\<lambda>_. m) (snd (manager_snapshot g1)))"
    using inv by (simp add: mgr_invs)
  then have "step_ok s ([apply_runtime_meta e m] @ fst ?c) (snd ?c)"
    by (intro step_ok_control [OF prod.collapse [symmetric]])
  then show ?thesis
    using r eq by simp
qed

lemma run_end_ok: "service_run_end now sid rid p failed s = (es, s') \<Longrightarrow> step_ok s es s'"
proof -
  assume r: "service_run_end now sid rid p failed s = (es, s')"
  obtain current g where f: "finish_if_current rid (sv_mgr s) = (current, g)"
    by (cases "finish_if_current rid (sv_mgr s)")
  show ?thesis
  proof (cases current)
    case True
    obtain es' report where "control (ctl_do now (CFinished (xr_meta p))) (set_mgr g s) = (es', s')" "es = report @ es'"
      using r f True by (auto simp: service_run_end_def Let_def ctl_do_curried split: prod.splits)
    then show ?thesis
      using step_ok_control f finish_inv by (metis snd_conv)
  next
    case False
    then show ?thesis
      using r f by (auto simp: service_run_end_def Let_def intro: step_ok_silent)
  qed
qed

lemma plan_ok: "step_ok s (oc_events (service_plan_decision now d m w s)) (oc_service (service_plan_decision now d m w s))"
  using send_input_ok by (simp add: service_plan_decision_def Let_def step_ok_silent)

lemma svc_step_ok: "svc_step s es s' \<Longrightarrow> step_ok s es s'"
proof (induction rule: svc_step.induct)
  case (Mode s mode)
  have "step_ok s ([] @ []) (service_update_permission_mode mode s)"
    by (rule step_ok_control [where op = "CMode (normalize_permission_mode mode)"
          and g = "sv_mgr (service_update_permission_mode mode s)" and now = 0])
      (simp_all add: control_eq service_update_permission_mode_def Let_def set_mgr_def mgr_invs)
  then show ?case
    by simp
next
  case (UserInput s input)
  have "step_ok s ([] @ []) (s\<lparr>sv_ctl := record_user_input input (sv_ctl s)\<rparr>)"
    by (rule step_ok_control [where op = "CUserInput input" and g = "sv_mgr s" and now = 0])
      (simp_all add: control_eq set_mgr_def)
  then show ?case
    by simp
next
  case (Answers s r r')
  then show ?case
    by (intro step_ok_silent) (simp_all add: mgr_inv_def)
qed (simp_all add: execute_ok runner_event_step_ok run_end_ok send_input_ok decision_ok review_ok plan_ok
    stop_finish_ok close_active_def step_ok_silent mgr_invs)

lemma svc_run_ok:
  "svc_run s es s' \<Longrightarrow> controlled s es s' \<and> (mgr_inv (sv_mgr s) \<longrightarrow> mgr_inv (sv_mgr s'))"
proof (induction rule: svc_run.induct)
  case (Done s)
  then show ?case
    by (simp add: controlled_none)
next
  case (More s es s' es' s'')
  then show ?case
    using svc_step_ok [OF More.hyps(1)] controlled_trans by (auto simp: step_ok_def)
qed
section \<open>Properties\<close>


definition demo_runner :: runner where
  "demo_runner = \<lparr>rn_id = 7, rn_session = None, rn_accepts = Some True, rn_pending = Some (True, ''req-1''), rn_mode = None\<rparr>"

definition demo_request :: execute_request where
  "demo_request = \<lparr>xr_command = ''claude'', xr_cwd = ''/src'', xr_mode = ModePTY, xr_permission_mode = [],
     xr_initial_input = [], xr_meta = empty_meta\<rparr>"

definition demo_running :: service where
  "demo_running = oc_service (service_execute 5 ''exec-5'' ''uuid-5'' ''s'' demo_runner demo_request (new_service ''s''))"

lemma demo_running_runner: "mg_runner (sv_mgr demo_running) = Some demo_runner"
  by code_simp

lemma demo_running_session: "mg_session (sv_mgr demo_running) = ''s''"
  by code_simp






text \<open>
  Stopping is not atomic: \<open>StopActive\<close> looks at the active runner before it takes the manager again. A runner
  that ends in between has its end announced by its own goroutine, and once more by the stop; when the run ends
  before or after the whole of the stop, its end is announced once.
\<close>

theorem stop_race_announces_twice:
  assumes "mg_runner (sv_mgr s) = Some run" and "mg_session (sv_mgr s) \<noteq> []" and "stop_read s = Some m"
  shows "length (fst (service_run_end now sid (rn_id run) p None s)) = 1 \<and>
    length (fst (stop_finish now sid m (snd (service_run_end now sid (rn_id run) p None s)))) = 2 \<and>
    length (oc_events (stop_active now sid s)) = 2 \<and>
    fst (service_run_end now sid (rn_id run) p None (oc_service (stop_active now sid s))) = [] \<and>
    stop_read (snd (service_run_end now sid (rn_id run) p None s)) = None"
proof -
  have one: "length (fst (on_command_finished now m c)) = 1" for m c
    by (simp add: on_command_finished_def agent_state_def Let_def)
  show ?thesis
    using assms one
    by (simp add: stop_read_def stop_active_def stop_finish_def service_run_end_def Let_def finish_if_current_def
        control_eq close_active_def cleared_def)
qed

theorem stop_race_announces_twice_witness:
  "length (fst (stop_finish 6 ''s'' (mg_meta (sv_mgr demo_running)) (snd (service_run_end 6 ''s'' 7 demo_request None demo_running)))) = 2"
proof -
  have run: "mg_runner (sv_mgr demo_running) = Some demo_runner" "mg_session (sv_mgr demo_running) \<noteq> []"
    by (simp_all add: demo_running_runner demo_running_session)
  then have "stop_read demo_running = Some (mg_meta (sv_mgr demo_running))"
    by (simp add: stop_read_def)
  then show ?thesis
    using stop_race_announces_twice [OF run, of _ 6 "''s''" demo_request] by (simp add: demo_runner_def)
qed

text \<open>
  The manager does not learn from the events of its runner: of the metadata a log or a session-state event
  carries, neither the lifecycle nor the session to resume reaches the manager, although \<open>Execute\<close> has cases for
  both, since these events have no method \<open>GetRuntimeMeta\<close>.
\<close>

theorem runner_metadata_ignored:
  "sv_mgr (snd (service_runner_event now run p (EvLog (e\<lparr>ev_meta := m\<rparr>)) s)) = sv_mgr (snd (service_runner_event now run p (EvLog e) s)) \<and>
   sv_mgr (snd (service_runner_event now run p (EvSessionState (f\<lparr>ev_meta := m\<rparr>)) s)) = sv_mgr (snd (service_runner_event now run p (EvSessionState f) s))"
  by (simp add: service_runner_event_def Let_def control_eq case_prod_beta)

lemma send_input_writes:
  "(oc_error (send_input now input m w s) = None \<longrightarrow> oc_writes (send_input now input m w s) = [input]) \<and>
   set (oc_writes (send_input now input m w s)) \<subseteq> {input}"
  by (simp add: send_input_def Let_def case_prod_beta split: option.split)

lemma send_when_ready_writes:
  "(oc_error (send_when_ready now input m looks s) = None \<longrightarrow> oc_writes (send_when_ready now input m looks s) \<noteq> []) \<and>
   set (oc_writes (send_when_ready now input m looks s)) \<subseteq> {input}"
proof (induction now input m looks s rule: send_when_ready.induct)
  case (2 now input m env w looks s)
  let ?r = "send_input now input m w (env s)"
  show ?case
  proof (cases "oc_error ?r")
    case None
    then show ?thesis
      using send_input_writes [of now input m w "env s"] by (simp add: Let_def)
  next
    case (Some e)
    then show ?thesis
      using send_input_writes [of now input m w "env s"] "2.IH" [OF refl Some]
      by (cases "not_ready e"; cases "looks = []") (simp_all add: Let_def)
  qed
qed simp

text \<open>
  Input sent to a session is delivered or reported: when sending succeeds, with or without starting the
  assistant again, the input has been written to a runner, and the last write is the one that succeeded; nothing
  but the input is ever written.
\<close>

theorem input_delivered_or_reported:
  assumes "r = send_input_or_resume now ne ns sid run req input m w starts looks s"
  shows "set (oc_writes r) \<subseteq> {input} \<and> (oc_error r = None \<longrightarrow> oc_writes r \<noteq> [] \<and> last (oc_writes r) = input)"
proof -
  have none: "oc_writes (service_execute now ne ns sid run q s1) = []" for q s1
    by (simp add: service_execute_def Let_def case_prod_beta split: option.split)
  have "set (oc_writes r) \<subseteq> {input} \<and> (oc_error r = None \<longrightarrow> oc_writes r \<noteq> [])"
    using send_input_writes [of now input m w s] send_when_ready_writes [of now input]
    unfolding assms send_input_or_resume_def Let_def after_def
    by (simp add: none del: not_None_eq split: option.split sum.split)
  moreover have "last (oc_writes r) = input" if "set (oc_writes r) \<subseteq> {input}" "oc_writes r \<noteq> []"
    using that last_in_set [OF that(2)] by (meson singletonD subsetD)
  ultimately show ?thesis
    by simp
qed

theorem input_delivered_or_reported_witness:
  "oc_writes (send_input_or_resume 9 ''e'' ''u'' ''s'' demo_runner demo_request ''hi'' empty_meta None [] [] demo_running) = [''hi''] \<and>
   set (oc_writes (send_input_or_resume 9 ''e'' ''u'' ''s'' demo_runner demo_request ''hi'' empty_meta None [] [] demo_running)) \<subseteq> {''hi''}"
proof -
  have "oc_writes (send_input_or_resume 9 ''e'' ''u'' ''s'' demo_runner demo_request ''hi'' empty_meta None [] [] demo_running) = [''hi'']"
    by code_simp
  then show ?thesis
    using input_delivered_or_reported [OF refl, of 9 "''e''" "''u''" "''s''" demo_runner demo_request "''hi''" empty_meta None "[]" "[]" demo_running]
    by simp
qed

end
