(* ===== verification/Projector.thy ===== *)
theory Projector
  imports Service
begin

text \<open>
  The projection a client is shown and what the runtime adds to it (\<open>session/projector.go\<close>, and the review
  part of \<open>session/projection_events.go\<close>): normalisation, the review groups rebuilt from the diffs, merges of
  snapshots, the decisions of a review. The service, where a function takes one, is given by its runtime snapshot
  and its controller snapshot.
\<close>

section \<open>Lifecycles and busy states\<close>

definition normalize_projection_lifecycle :: "string \<Rightarrow> string \<Rightarrow> string" where
  "normalize_projection_lifecycle l resume =
     (if trim_space l = ''starting'' \<and> trim_space resume \<noteq> [] then ''resumable'' else trim_space l)"

definition is_busy_runtime_state :: "string \<Rightarrow> bool" where
  "is_busy_runtime_state s \<longleftrightarrow>
     trim_space (to_upper s) \<in> {''RUNNING'', ''THINKING'', ''RUNNING_TOOL'', ''RECOVERING''}"

section \<open>Review groups\<close>

definition group_key :: "diff_context \<Rightarrow> string" where
  "group_key d = first_non_empty_string [dx_group_id d, dx_execution_id d, dx_context_id d, dx_path d]"

definition fill_group :: "diff_context \<Rightarrow> diff_context" where
  "fill_group d =
     (let d = (if dx_group_id d = [] then d\<lparr>dx_group_id := group_key d\<rparr> else d)
      in if dx_group_title d = []
         then d\<lparr>dx_group_title := first_non_empty_string [dx_title d, dx_path d, group_key d]\<rparr> else d)"

text \<open>The first loop of \<open>RebuildReviewGroups\<close>: the diffs of each group and the order of the groups.\<close>

fun collect_groups ::
  "diff_context list \<Rightarrow> (string \<rightharpoonup> diff_context list) \<Rightarrow> string list \<Rightarrow> (string \<rightharpoonup> diff_context list) \<times> string list" where
  "collect_groups [] by_group order = (by_group, order)"
| "collect_groups (d # ds) by_group order =
     (let k = group_key d in
      if k = [] then collect_groups ds by_group order
      else (case by_group k of
          None \<Rightarrow> collect_groups ds (by_group(k \<mapsto> [fill_group d])) (order @ [k])
        | Some items \<Rightarrow> collect_groups ds (by_group(k \<mapsto> items @ [fill_group d])) order))"

definition file_of_diff :: "diff_context \<Rightarrow> review_file" where
  "file_of_diff d = \<lparr>rf_context_id = dx_context_id d, rf_title = dx_title d, rf_path = dx_path d, rf_diff = dx_diff d,
     rf_lang = dx_lang d, rf_pending = dx_pending d, rf_execution_id = dx_execution_id d, rf_status = dx_status d\<rparr>"

definition count_status :: "string \<Rightarrow> review_file list \<Rightarrow> int" where
  "count_status status files = int (length (filter (\<lambda>f. trim_space (rf_status f) = status) files))"

definition count_pending :: "review_file list \<Rightarrow> int" where
  "count_pending files = int (length (filter rf_pending files))"

definition pick_active_review_file :: "review_file list \<Rightarrow> review_file" where
  "pick_active_review_file files = (case find rf_pending files of
     Some f \<Rightarrow> f | None \<Rightarrow> (if files = [] then empty_file else last files))"

definition group_status :: "review_file list \<Rightarrow> string" where
  "group_status files =
     (let n = int (length files) in
      if count_pending files = n then ''pending''
      else if count_status ''accepted'' files = n then ''accepted''
      else if count_status ''reverted'' files = n then ''reverted''
      else if count_status ''revised'' files = n then ''revised'' else ''mixed'')"

definition build_group :: "string \<Rightarrow> diff_context list \<Rightarrow> review_group" where
  "build_group k items =
     (let files = map file_of_diff items; newest = last items; current = pick_active_review_file files in
      \<lparr>rv_id = k,
       rv_title = first_non_empty_string [dx_group_title newest, dx_title newest, dx_path newest, k],
       rv_execution_id = first_non_empty_string [dx_execution_id newest, k],
       rv_pending = (0 < count_pending files), rv_status = group_status files,
       rv_current_file_id = rf_context_id current, rv_current_path = rf_path current,
       rv_pending_count = count_pending files, rv_accepted_count = count_status ''accepted'' files,
       rv_reverted_count = count_status ''reverted'' files, rv_revised_count = count_status ''revised'' files,
       rv_files = files\<rparr>)"

definition rebuild_review_groups :: "diff_context list \<Rightarrow> review_group list" where
  "rebuild_review_groups ds =
     (if ds = [] then []
      else case collect_groups ds Map.empty [] of (by_group, order) \<Rightarrow>
        map (\<lambda>(k, items). build_group k items)
          (filter (\<lambda>(k, items). items \<noteq> [])
            (map (\<lambda>k. (k, case by_group k of Some items \<Rightarrow> items | None \<Rightarrow> [])) order)))"

definition pick_active_review_group :: "review_group list \<Rightarrow> review_group option" where
  "pick_active_review_group groups = (case find rv_pending (rev groups) of
     Some g \<Rightarrow> Some g | None \<Rightarrow> (if groups = [] then None else Some (last groups)))"

section \<open>Normalisation\<close>

definition fill :: "string \<Rightarrow> string \<Rightarrow> string" where
  "fill v w = (if v = [] then w else v)"

definition shown :: "diff_context \<Rightarrow> bool" where
  "shown d \<longleftrightarrow> trim_space (dx_context_id d @ dx_path d @ dx_title d) \<noteq> []"

text \<open>The fields of the runtime that are taken from the controller when they are empty.\<close>

definition fill_runtime :: "controller_snapshot \<Rightarrow> session_runtime \<Rightarrow> session_runtime" where
  "fill_runtime c r = r\<lparr>rt_resume_session_id := fill (rt_resume_session_id r) (sn_resume c),
     rt_command := fill (rt_command r) (sn_command c),
     rt_engine := fill (rt_engine r) (first_non_empty_string [m_engine (sn_meta c), m_skill_name (sn_meta c)]),
     rt_cwd := fill (rt_cwd r) (m_cwd (sn_meta c)),
     rt_permission_mode := fill (rt_permission_mode r) (m_permission_mode (sn_meta c))\<rparr>"

definition normalize_runtime :: "projection \<Rightarrow> projection" where
  "normalize_runtime p =
     (let c = pj_controller p; r = fill_runtime c (pj_runtime p);
          l = normalize_projection_lifecycle
            (first_non_empty_string [sn_lifecycle c, m_claude_lifecycle (sn_meta c), rt_lifecycle r])
            (rt_resume_session_id r);
          c = (if l \<noteq> [] then c\<lparr>sn_lifecycle := l, sn_meta := (sn_meta c)\<lparr>m_claude_lifecycle := l\<rparr>\<rparr> else c)
      in p\<lparr>pj_runtime := r\<lparr>rt_lifecycle := l\<rparr>, pj_controller := c\<rparr>)"

definition normalize_context :: "session_context \<Rightarrow> session_context" where
  "normalize_context c =
     (if \<not> cn_configured c \<and> cn_skill_names c = [] \<and> cn_memory_ids c = [] then empty_session_context else c)"

text \<open>The active group and diff of a projection.\<close>

definition set_active_group :: "projection \<Rightarrow> projection" where
  "set_active_group p = (case pick_active_review_group (pj_review_groups p) of
     Some g \<Rightarrow> p\<lparr>pj_active_group := Some g\<rparr> | None \<Rightarrow> p)"

definition set_current_diff :: "projection \<Rightarrow> projection" where
  "set_current_diff p =
     (if shown (pick_active (pj_diffs p)) then p\<lparr>pj_current_diff := Some (pick_active (pj_diffs p))\<rparr> else p)"

definition normalize_review :: "projection \<Rightarrow> projection" where
  "normalize_review p =
     (let p = (if pj_diffs p = [] then (case pj_current_diff p of Some d \<Rightarrow> p\<lparr>pj_diffs := [d]\<rparr> | None \<Rightarrow> p) else p);
          p = (if pj_review_groups p = [] \<and> pj_diffs p \<noteq> []
            then p\<lparr>pj_review_groups := rebuild_review_groups (pj_diffs p)\<rparr> else p)
      in set_current_diff (set_active_group p))"

definition empty_streams :: "string \<rightharpoonup> string" where
  "empty_streams = [''stdout'' \<mapsto> [], ''stderr'' \<mapsto> []]"

definition normalize_projection :: "projection \<Rightarrow> projection" where
  "normalize_projection p =
     (let p = (case pj_raw_terminal p of None \<Rightarrow> p\<lparr>pj_raw_terminal := Some empty_streams\<rparr> | Some _ \<Rightarrow> p);
          p = normalize_runtime p
      in normalize_review (p\<lparr>pj_context := normalize_context (pj_context p)\<rparr>))"

section \<open>The runtime in the projection\<close>

definition merge_store_session_runtime :: "session_runtime \<Rightarrow> session_runtime \<Rightarrow> session_runtime" where
  "merge_store_session_runtime base over =
     \<lparr>rt_resume_session_id = first_non_empty_string [rt_resume_session_id over, rt_resume_session_id base],
      rt_command = first_non_empty_string [rt_command over, rt_command base],
      rt_engine = first_non_empty_string [rt_engine over, rt_engine base],
      rt_permission_mode = first_non_empty_string [rt_permission_mode over, rt_permission_mode base],
      rt_cwd = first_non_empty_string [rt_cwd over, rt_cwd base],
      rt_lifecycle = first_non_empty_string [rt_lifecycle over, rt_lifecycle base],
      rt_source = first_non_empty_string [rt_source over, rt_source base]\<rparr>"

definition merge_controller_snapshot :: "controller_snapshot \<Rightarrow> controller_snapshot \<Rightarrow> controller_snapshot" where
  "merge_controller_snapshot base over = base\<lparr>
     sn_session_id := first_non_empty_string [sn_session_id over, sn_session_id base],
     sn_state := (if sn_state over \<noteq> [] then sn_state over else sn_state base),
     sn_command := first_non_empty_string [sn_command over, sn_command base],
     sn_last_step := first_non_empty_string [sn_last_step over, sn_last_step base],
     sn_last_tool := first_non_empty_string [sn_last_tool over, sn_last_tool base],
     sn_resume := first_non_empty_string [sn_resume over, sn_resume base],
     sn_lifecycle := first_non_empty_string [sn_lifecycle over, sn_lifecycle base],
     sn_last_user_input := first_non_empty_string [sn_last_user_input over, sn_last_user_input base],
     sn_meta := merge_runtime_meta (sn_meta base) (sn_meta over),
     sn_diffs := (if sn_diffs over \<noteq> [] then sn_diffs over else sn_diffs base),
     sn_diff := (if dx_context_id (sn_diff over) \<noteq> [] \<or> dx_path (sn_diff over) \<noteq> [] \<or> dx_title (sn_diff over) \<noteq> []
       then sn_diff over else sn_diff base),
     sn_review_groups := (if sn_review_groups over \<noteq> [] then sn_review_groups over else sn_review_groups base),
     sn_active_review_id := first_non_empty_string [sn_active_review_id over, sn_active_review_id base]\<rparr>"

definition has_live_state :: "runtime_snapshot \<Rightarrow> controller_snapshot \<Rightarrow> bool" where
  "has_live_state rs c \<longleftrightarrow> rs_running rs \<or> trim_space (rs_resume rs) \<noteq> [] \<or>
     trim_space (m_resume_session_id (rs_meta rs)) \<noteq> [] \<or> trim_space (m_command (rs_meta rs)) \<noteq> [] \<or>
     trim_space (m_engine (rs_meta rs)) \<noteq> [] \<or> (trim_space (sn_state c) \<noteq> [] \<and> sn_state c \<noteq> state_idle) \<or>
     trim_space (sn_resume c) \<noteq> [] \<or> trim_space (sn_command c) \<noteq> [] \<or> trim_space (m_command (sn_meta c)) \<noteq> [] \<or>
     trim_space (m_engine (sn_meta c)) \<noteq> [] \<or> trim_space (sn_lifecycle c) \<noteq> []"

type_synonym svc_view = "(runtime_snapshot \<times> controller_snapshot) option"

definition with_runtime_snapshot :: "projection \<Rightarrow> svc_view \<Rightarrow> projection" where
  "with_runtime_snapshot p svc =
     (let p = normalize_projection p in
      case svc of
        None \<Rightarrow> p
      | Some (rs, c) \<Rightarrow>
          if \<not> has_live_state rs c then p
          else let m = merge_runtime_meta (rs_meta rs) (sn_meta c); r = pj_runtime p in
            p\<lparr>pj_controller := c,
              pj_runtime := \<lparr>
                rt_resume_session_id = first_non_empty_string
                  [sn_resume c, m_resume_session_id m, rs_resume rs, rt_resume_session_id r],
                rt_command = first_non_empty_string [sn_command c, m_command m, rt_command r],
                rt_engine = first_non_empty_string [m_engine m, m_skill_name m, rt_engine r],
                rt_permission_mode = first_non_empty_string [m_permission_mode m, rt_permission_mode r],
                rt_cwd = first_non_empty_string [m_cwd m, rt_cwd r],
                rt_lifecycle = normalize_projection_lifecycle
                  (first_non_empty_string [sn_lifecycle c, m_claude_lifecycle m, rs_lifecycle rs])
                  (first_non_empty_string [sn_resume c, m_resume_session_id m, rs_resume rs]),
                rt_source = first_non_empty_string [rt_source r, ''mobilevc'']\<rparr>\<rparr>)"

definition session_record_runtime_alive :: "session_record \<Rightarrow> svc_view \<Rightarrow> bool \<Rightarrow> bool" where
  "session_record_runtime_alive rec svc allow_stored =
     (if (case svc of
            Some (rs, _) \<Rightarrow> rs_running rs \<and> trim_space (rs_session rs) = trim_space (sy_id (rec_summary rec))
          | None \<Rightarrow> False) then True
      else if \<not> allow_stored then False
      else let p = normalize_projection (rec_projection rec); l = trim_space (rt_lifecycle (pj_runtime p)) in
        is_busy_runtime_state (trim_space (sn_state (pj_controller p))) \<or> l = ''active'' \<or> l = ''starting'')"

definition should_preserve_busy_state :: "string \<Rightarrow> string list \<Rightarrow> bool" where
  "should_preserve_busy_state state ls =
     (let state = trim_space (to_upper state) in
      is_busy_runtime_state state \<and>
      (state \<noteq> state_thinking \<or> list_ex (\<lambda>l. equal_fold (trim_space l) ''active'') ls))"

text \<open>The state, the message and whether input is awaited that \<open>BuildTaskSnapshotEvent\<close> reports.\<close>

definition task_meta :: "runtime_snapshot \<Rightarrow> controller_snapshot \<Rightarrow> runtime_meta" where
  "task_meta rs c =
     (let m = merge_runtime_meta (sn_meta c) (rs_meta rs);
          m = (if trim_space (m_command m) = []
            then m\<lparr>m_command := trim_space (first_non_empty_string [sn_command c, m_command (rs_meta rs)])\<rparr> else m);
          m = (if trim_space (m_cwd m) = [] then m\<lparr>m_cwd := trim_space (m_cwd (rs_meta rs))\<rparr> else m);
          m = (if trim_space (m_resume_session_id m) = []
            then m\<lparr>m_resume_session_id := trim_space (first_non_empty_string [sn_resume c, rs_resume rs])\<rparr> else m)
      in if trim_space (m_claude_lifecycle m) = []
         then m\<lparr>m_claude_lifecycle := trim_space (first_non_empty_string [sn_lifecycle c, rs_lifecycle rs])\<rparr> else m)"

definition task_state :: "string \<Rightarrow> runtime_snapshot \<Rightarrow> controller_snapshot \<Rightarrow> bool \<times> string \<times> string \<times> bool" where
  "task_state sid rs c =
     (let alive = (rs_running rs \<and> trim_space (rs_session rs) = sid);
          m = task_meta rs c; state = trim_space (to_upper (sn_state c))
      in if alive
         then (if should_preserve_busy_state state [m_claude_lifecycle m, rs_lifecycle rs]
               then (alive, state, ''Task running on desktop'', False)
               else if rs_accepts rs \<or> equal_fold (trim_space (rs_lifecycle rs)) ''waiting_input''
               then (alive, ''WAIT_INPUT'', ''Task waiting for input'', True)
               else (alive, ''RUNNING'', ''Task running on desktop'', False))
         else if trim_space (m_resume_session_id m) \<noteq> [] \<or> equal_fold (trim_space (rs_lifecycle rs)) ''resumable''
         then (alive, ''IDLE'', ''Task resumable'', False)
         else (alive, ''IDLE'', ''Task idle'', False))"

definition build_task_snapshot_event ::
  "time \<Rightarrow> string \<Rightarrow> svc_view \<Rightarrow> int \<Rightarrow> time \<Rightarrow> string \<Rightarrow> bool \<Rightarrow> task_snapshot_event option" where
  "build_task_snapshot_event now sid svc latest last_output reason syncing =
     (let sid = trim_space sid; reason = trim_space reason in
      case svc of
        None \<Rightarrow> None
      | Some (rs, c) \<Rightarrow>
          if sid = [] then None
          else (case task_state sid rs c of (alive, state, message, await) \<Rightarrow>
            Some (event.extend ((new_base_event now ''task_snapshot'' sid)\<lparr>ev_meta := task_meta rs c\<rparr>)
              (task_snapshot_event.fields state (if reason \<noteq> [] then message @ '' ('' @ reason @ '')'' else message)
                alive await (m_command (task_meta rs c)) (sn_last_step c) (sn_last_tool c) latest last_output syncing))))"

section \<open>Recovering a session\<close>

definition runtime_of_snapshot :: "runtime_snapshot \<Rightarrow> session_runtime" where
  "runtime_of_snapshot rs = \<lparr>rt_resume_session_id = rs_resume rs, rt_command = m_command (rs_meta rs),
     rt_engine = m_engine (rs_meta rs), rt_permission_mode = m_permission_mode (rs_meta rs), rt_cwd = m_cwd (rs_meta rs),
     rt_lifecycle = rs_lifecycle rs, rt_source = ''mobilevc''\<rparr>"

definition txt_resuming :: string where "txt_resuming = [CHR 0xE6, CHR 0x81, CHR 0xA2, CHR 0xE5, CHR 0xA4,
  CHR 0x8D, CHR 0xE4, CHR 0xBC, CHR 0x9A, CHR 0xE8, CHR 0xAF, CHR 0x9D, CHR 0xE4, CHR 0xB8, CHR 0xAD]"
definition txt_resuming_run :: string where "txt_resuming_run = [CHR 0xE6, CHR 0x81, CHR 0xA2, CHR 0xE5,
  CHR 0xA4, CHR 0x8D, CHR 0xE6, CHR 0x89, CHR 0xA7, CHR 0xE8, CHR 0xA1, CHR 0x8C, CHR 0xE4, CHR 0xB8,
  CHR 0xAD]"

definition build_resume_recovery_state_event ::
  "time \<Rightarrow> string \<Rightarrow> svc_view \<Rightarrow> projection \<Rightarrow> string \<Rightarrow> agent_state_event" where
  "build_resume_recovery_state_event now sid svc p last_state =
     (let p = normalize_projection p;
          (c, r) = (case svc of
              None \<Rightarrow> (pj_controller p, pj_runtime p)
            | Some (rs, c) \<Rightarrow> (c, merge_store_session_runtime (pj_runtime p) (runtime_of_snapshot rs)));
          m = merge_runtime_meta (sn_meta c) (empty_meta\<lparr>
            m_source := first_non_empty_string [rt_source r, ''mobilevc''],
            m_resume_session_id := rt_resume_session_id r,
            m_command := first_non_empty_string [rt_command r, sn_command c],
            m_engine := rt_engine r, m_cwd := rt_cwd r, m_permission_mode := rt_permission_mode r,
            m_claude_lifecycle := first_non_empty_string [rt_lifecycle r, ''active'']\<rparr>);
          message = (if is_busy_runtime_state last_state then txt_resuming_run else txt_resuming)
      in (new_agent_state_event now sid ''RECOVERING'' message False (m_command m) (sn_last_step c) (sn_last_tool c))
           \<lparr>ev_meta := m\<rparr>)"

definition should_emit_resume_recovery :: "controller_snapshot option \<Rightarrow> projection \<Rightarrow> string \<Rightarrow> bool" where
  "should_emit_resume_recovery svc p last_state =
     (let p = normalize_projection p; c = pj_controller p;
          l = trim_space (first_non_empty_string [sn_lifecycle c, m_claude_lifecycle (sn_meta c), rt_lifecycle (pj_runtime p)]);
          (c, l) = (case svc of
              None \<Rightarrow> (c, l)
            | Some c' \<Rightarrow> (c', trim_space (first_non_empty_string [sn_lifecycle c', m_claude_lifecycle (sn_meta c'), l])));
          state = trim_space (to_upper (sn_state c))
      in if state = state_wait_input \<or> equal_fold l ''waiting_input'' then False
         else if is_busy_runtime_state last_state then True
         else if is_busy_runtime_state state then True
         else equal_fold l ''active'' \<or> equal_fold l ''starting'')"

definition resolved_resume_runtime_state :: "string \<Rightarrow> session_record \<Rightarrow> svc_view \<Rightarrow> string" where
  "resolved_resume_runtime_state restored rec svc =
     (if trim_space restored \<noteq> [] then restored
      else let p = normalize_projection (rec_projection rec);
               p = (case svc of None \<Rightarrow> p | Some _ \<Rightarrow> with_runtime_snapshot p svc);
               state = trim_space (sn_state (pj_controller p))
           in if state \<noteq> [] then state
              else case svc of Some (rs, _) \<Rightarrow> (if rs_running rs then ''RECOVERING'' else []) | None \<Rightarrow> [])"

section \<open>Review decisions\<close>

record review_request =
  rq_decision :: string
  rq_execution_id :: string
  rq_group_id :: string
  rq_group_title :: string
  rq_context_id :: string
  rq_context_title :: string
  rq_target_path :: string
  rq_permission_mode :: string
  rq_review_only :: bool

definition review_status_from_decision :: "string \<Rightarrow> string" where
  "review_status_from_decision decision =
     (let d = trim_space (to_lower decision) in
      if d = ''accept'' then ''accepted'' else if d = ''revert'' then ''reverted''
      else if d = ''revise'' then ''revised'' else ''pending'')"

definition snapshot_diff_matches :: "diff_context \<Rightarrow> string \<Rightarrow> string \<Rightarrow> bool" where
  "snapshot_diff_matches d cid path = diff_matches (trim_space cid) (trim_space path) d"

definition decide_diff :: "review_request \<Rightarrow> string \<Rightarrow> diff_context \<Rightarrow> diff_context \<Rightarrow> diff_context" where
  "decide_diff req decision current d =
     (let cid = first_non_empty_string [rq_context_id req, dx_context_id current];
          path = first_non_empty_string [rq_target_path req, dx_path current]
      in if \<not> snapshot_diff_matches d cid path then d
         else d\<lparr>dx_pending := (decision = ''revise''), dx_status := review_status_from_decision decision,
           dx_group_id := fill (dx_group_id d)
             (first_non_empty_string [rq_group_id req, rq_execution_id req, dx_group_id current, cid, path]),
           dx_group_title := fill (dx_group_title d)
             (first_non_empty_string [rq_group_title req, dx_group_title current, dx_title current]),
           dx_execution_id := fill (dx_execution_id d)
             (first_non_empty_string [rq_execution_id req, dx_execution_id current])\<rparr>)"

definition apply_review_decision :: "projection \<Rightarrow> review_request \<Rightarrow> string \<Rightarrow> diff_context \<Rightarrow> projection" where
  "apply_review_decision p req decision current =
     (let p = normalize_projection p;
          ds = map (decide_diff req decision current) (pj_diffs p)
      in set_current_diff (set_active_group (p\<lparr>pj_diffs := ds, pj_review_groups := rebuild_review_groups ds\<rparr>)))"

definition accept_diff :: "diff_context \<Rightarrow> diff_context" where
  "accept_diff d = (if dx_pending d then d\<lparr>dx_pending := False, dx_status := ''accepted''\<rparr> else d)"

definition apply_auto_review_acceptance :: "projection \<Rightarrow> projection" where
  "apply_auto_review_acceptance p =
     (let p = normalize_projection p; ds = map accept_diff (pj_diffs p); groups = rebuild_review_groups ds
      in p\<lparr>pj_diffs := ds, pj_review_groups := groups, pj_active_group := pick_active_review_group groups,
          pj_current_diff := (if shown (pick_active ds) then Some (pick_active ds) else None)\<rparr>)"

section \<open>Lemmas\<close>

text \<open>The groups, without the loop: the keys in the order of their first diff, and the diffs of each.\<close>

fun add_key :: "string list \<Rightarrow> string \<Rightarrow> string list" where
  "add_key ks k = (if k = [] \<or> k \<in> set ks then ks else ks @ [k])"

definition keys_of :: "diff_context list \<Rightarrow> string list" where
  "keys_of ds = foldl add_key [] (map group_key ds)"

definition members :: "string \<Rightarrow> diff_context list \<Rightarrow> diff_context list" where
  "members k ds = filter (\<lambda>d. group_key d = k) ds"

lemma set_add_keys: "set (foldl add_key ks xs) = set ks \<union> {x \<in> set xs. x \<noteq> []}"
  by (induction xs arbitrary: ks) auto

lemma distinct_add_keys: "distinct ks \<Longrightarrow> distinct (foldl add_key ks xs)"
  by (induction xs arbitrary: ks) auto

lemma collect_groups_eq:
  assumes "dom m = set order" and "[] \<notin> set order"
  shows "collect_groups ds m order =
    ((\<lambda>k. if k \<noteq> [] \<and> (m k \<noteq> None \<or> members k ds \<noteq> [])
        then Some ((case m k of Some items \<Rightarrow> items | None \<Rightarrow> []) @ map fill_group (members k ds)) else None),
     foldl add_key order (map group_key ds))"
  using assms
proof (induction ds arbitrary: m order)
  case Nil
  have "m [] = None"
    using Nil by auto
  then show ?case
    by (auto simp: members_def fun_eq_iff split: option.split)
next
  case (Cons d ds)
  let ?k = "group_key d"
  show ?case
  proof (cases "?k = []")
    case True
    then have "members k (d # ds) = members k ds" if "k \<noteq> []" for k
      using that by (auto simp: members_def)
    then show ?thesis
      using True Cons by (auto simp: fun_eq_iff)
  next
    case False
    let ?items = "case m ?k of Some items \<Rightarrow> items | None \<Rightarrow> []"
    let ?m = "m(?k \<mapsto> ?items @ [fill_group d])"
    let ?order = "if ?k \<in> set order then order else order @ [?k]"
    have key: "?k \<in> set order \<longleftrightarrow> m ?k \<noteq> None"
      using Cons.prems(1) by (metis domIff)
    have step: "collect_groups (d # ds) m order = collect_groups ds ?m ?order"
      using False key by (cases "m ?k") (simp_all add: Let_def)
    have "dom ?m = set ?order" "[] \<notin> set ?order"
      using Cons.prems False by auto
    note ih = Cons.IH [OF this]
    have order: "foldl add_key ?order (map group_key ds) = foldl add_key order (map group_key (d # ds))"
      using False by simp
    have "(if k \<noteq> [] \<and> (?m k \<noteq> None \<or> members k ds \<noteq> [])
        then Some ((case ?m k of Some items \<Rightarrow> items | None \<Rightarrow> []) @ map fill_group (members k ds)) else None) =
      (if k \<noteq> [] \<and> (m k \<noteq> None \<or> members k (d # ds) \<noteq> [])
        then Some ((case m k of Some items \<Rightarrow> items | None \<Rightarrow> []) @ map fill_group (members k (d # ds))) else None)" for k
      using False by (cases "k = ?k") (simp_all add: members_def)
    then show ?thesis
      unfolding step ih order by (simp only:)
  qed
qed

lemma in_keys_of: "k \<in> set (keys_of ds) \<longleftrightarrow> k \<noteq> [] \<and> members k ds \<noteq> []"
  by (auto simp: keys_of_def set_add_keys members_def filter_empty_conv)

lemma rebuild_eq: "rebuild_review_groups ds = map (\<lambda>k. build_group k (map fill_group (members k ds))) (keys_of ds)"
proof -
  let ?f = "\<lambda>k. if k \<noteq> [] \<and> members k ds \<noteq> [] then Some (map fill_group (members k ds)) else None"
  have c: "collect_groups ds Map.empty [] = (?f, keys_of ds)"
    by (subst collect_groups_eq) (auto simp: keys_of_def)
  have "filter (\<lambda>(k, items). items \<noteq> []) (map (\<lambda>k. (k, case ?f k of Some items \<Rightarrow> items | None \<Rightarrow> [])) ks) =
      map (\<lambda>k. (k, map fill_group (members k ds))) ks" if "set ks \<subseteq> set (keys_of ds)" for ks
    using that in_keys_of by (induction ks) (auto split: if_splits)
  then have "rebuild_review_groups ds = map (\<lambda>(k, items). build_group k items)
      (map (\<lambda>k. (k, map fill_group (members k ds))) (keys_of ds))" if "ds \<noteq> []"
    using that by (simp add: rebuild_review_groups_def c)
  then show ?thesis
    by (cases "ds = []") (simp_all add: rebuild_review_groups_def keys_of_def)
qed

lemma fill_group_file [simp]: "file_of_diff (fill_group d) = file_of_diff d"
  by (simp add: file_of_diff_def fill_group_def Let_def)

lemma build_group_sel [simp]:
  "rv_id (build_group k items) = k" "rv_files (build_group k items) = map file_of_diff items"
  "rv_pending (build_group k items) = (\<exists>d\<in>set items. dx_pending d)"
  by (auto simp: build_group_def Let_def count_pending_def file_of_diff_def filter_empty_conv)

lemma fill_group_pending [simp]: "dx_pending (fill_group d) = dx_pending d"
  by (simp add: fill_group_def Let_def)

subsection \<open>The groups partition the diffs\<close>

lemma members_partition:
  "distinct ks \<Longrightarrow>
   mset (concat (map (\<lambda>k. members k ds) ks)) = filter_mset (\<lambda>d. group_key d \<in> set ks) (mset ds)"
proof (induction ks)
  case (Cons k ks)
  have "filter_mset (\<lambda>d. group_key d \<in> set (k # ks)) (mset ds) =
      filter_mset (\<lambda>d. group_key d = k) (mset ds) + filter_mset (\<lambda>d. group_key d \<in> set ks) (mset ds)"
    using Cons.prems by (induction ds) auto
  then show ?case
    using Cons by (simp add: members_def)
qed simp

lemma members_keys: "mset (concat (map (\<lambda>k. members k ds) (keys_of ds))) = filter_mset (\<lambda>d. group_key d \<noteq> []) (mset ds)"
proof -
  have "distinct (keys_of ds)"
    by (simp add: keys_of_def distinct_add_keys)
  moreover have "filter_mset (\<lambda>d. group_key d \<in> set (keys_of ds)) (mset ds) = filter_mset (\<lambda>d. group_key d \<noteq> []) (mset ds)"
    by (rule filter_mset_cong) (auto simp: in_keys_of members_def filter_empty_conv)
  ultimately show ?thesis
    by (simp add: members_partition)
qed

lemma group_files: "concat (map rv_files (rebuild_review_groups ds)) =
  map file_of_diff (concat (map (\<lambda>k. members k ds) (keys_of ds)))"
  by (simp add: rebuild_eq o_def map_concat)

lemma group_ids: "map rv_id (rebuild_review_groups ds) = keys_of ds"
  by (simp add: rebuild_eq o_def)

lemma in_rebuilt: "g \<in> set (rebuild_review_groups ds) \<longleftrightarrow>
  (\<exists>k. k \<noteq> [] \<and> members k ds \<noteq> [] \<and> g = build_group k (map fill_group (members k ds)))"
  using in_keys_of by (auto simp: rebuild_eq)

lemma rebuilt_pending: "(\<exists>g\<in>set (rebuild_review_groups ds). rv_pending g) \<longleftrightarrow> (\<exists>d\<in>set ds. group_key d \<noteq> [] \<and> dx_pending d)"
  (is "?l \<longleftrightarrow> ?r")
proof
  assume ?l
  then obtain k d where "k \<noteq> []" "d \<in> set (members k ds)" "dx_pending d"
    by (auto simp: in_rebuilt)
  then show ?r
    by (intro bexI [of _ d]) (auto simp: members_def)
next
  assume ?r
  then obtain d where d: "d \<in> set ds" "group_key d \<noteq> []" "dx_pending d"
    by blast
  then have "d \<in> set (members (group_key d) ds)"
    by (simp add: members_def)
  moreover from this have "build_group (group_key d) (map fill_group (members (group_key d) ds)) \<in> set (rebuild_review_groups ds)"
    using d(2) by (auto simp: in_rebuilt)
  ultimately show ?l
    using d(3) by (intro bexI) auto
qed

lemma count_pending_sum:
  "sum_list (map (\<lambda>fs. count_pending fs) fss) = int (length (filter rf_pending (concat fss)))"
  by (induction fss) (simp_all add: count_pending_def)

text \<open>
  C26: \<open>RebuildReviewGroups\<close>: whatever the diffs, the groups have distinct non-empty identifiers, their files are
  the diffs that have a group key, each exactly as often as it occurs, a group is pending just when one of its
  files is, no group is empty, and the pending counts add up to the number of pending diffs.
\<close>

theorem review_groups_partition:
  "distinct (map rv_id (rebuild_review_groups ds)) \<and>
   [] \<notin> set (map rv_id (rebuild_review_groups ds)) \<and> [] \<notin> set (map rv_files (rebuild_review_groups ds)) \<and>
   mset (concat (map rv_files (rebuild_review_groups ds))) =
     mset (map file_of_diff (filter (\<lambda>d. group_key d \<noteq> []) ds)) \<and>
   list_all (\<lambda>g. rv_pending g = list_ex rf_pending (rv_files g)) (rebuild_review_groups ds) \<and>
   sum_list (map rv_pending_count (rebuild_review_groups ds)) =
     int (length (filter dx_pending (filter (\<lambda>d. group_key d \<noteq> []) ds)))"
  (is "?distinct \<and> ?ids \<and> ?nonempty \<and> ?files \<and> ?pending \<and> ?sum")
proof (intro conjI)
  let ?gs = "rebuild_review_groups ds"
  show ?distinct
    by (simp add: group_ids keys_of_def distinct_add_keys)
  show ?ids
    by (simp add: group_ids in_keys_of)
  show ?nonempty
    by (auto simp: in_rebuilt)
  show files: ?files
    using members_keys [of ds] by (simp add: group_files flip: mset_filter)
  show ?pending
    unfolding rebuild_eq list_all_iff by (simp add: list_ex_iff file_of_diff_def)
  have "map rv_pending_count ?gs = map count_pending (map rv_files ?gs)"
    by (simp add: rebuild_eq build_group_def Let_def)
  then have "sum_list (map rv_pending_count ?gs) = sum_list (map count_pending (map rv_files ?gs))"
    by (rule arg_cong)
  also have "\<dots> = int (length (filter rf_pending (concat (map rv_files ?gs))))"
    by (rule count_pending_sum)
  also have "\<dots> = int (size (filter_mset rf_pending (mset (concat (map rv_files ?gs)))))"
    by (simp flip: mset_filter)
  also have "\<dots> = int (length (filter dx_pending (filter (\<lambda>d. group_key d \<noteq> []) ds)))"
    unfolding files by (simp add: filter_map o_def file_of_diff_def del: mset_map flip: mset_filter)
  finally show ?sum .
qed

section \<open>Normal forms and decisions\<close>

lemma pick_active_group_cases:
  "pick_active_review_group gs = None \<longleftrightarrow> gs = []"
  "pick_active_review_group gs = Some g \<Longrightarrow> g \<in> set gs \<and> (rv_pending g \<longleftrightarrow> (\<exists>h\<in>set gs. rv_pending h))"
proof -
  show "pick_active_review_group gs = None \<longleftrightarrow> gs = []"
    by (simp add: pick_active_review_group_def split: option.split)
  assume g: "pick_active_review_group gs = Some g"
  show "g \<in> set gs \<and> (rv_pending g \<longleftrightarrow> (\<exists>h\<in>set gs. rv_pending h))"
  proof (cases "find rv_pending (rev gs)")
    case None
    then have "gs \<noteq> []" "g = last gs"
      using g by (auto simp: pick_active_review_group_def split: if_splits)
    moreover have "\<forall>h\<in>set gs. \<not> rv_pending h"
      using None by (auto simp: find_None_iff)
    ultimately show ?thesis
      by auto
  next
    case (Some h)
    then have "h = g"
      using g by (simp add: pick_active_review_group_def)
    then show ?thesis
      using find_rev_SomeD [OF Some] by auto
  qed
qed

lemma trim_resumable [simp]: "trim_space ''resumable'' = ''resumable''"
  by code_simp

lemma lifecycle_idem [simp]:
  "normalize_projection_lifecycle (normalize_projection_lifecycle l r) r = normalize_projection_lifecycle l r"
  "trim_space (normalize_projection_lifecycle l r) = normalize_projection_lifecycle l r"
  by (auto simp: normalize_projection_lifecycle_def)

lemma lifecycle_Nil [simp]: "normalize_projection_lifecycle l r = [] \<longleftrightarrow> trim_space l = []"
  by (auto simp: normalize_projection_lifecycle_def)

lemma fill_idem [simp]: "fill (fill v w) w = fill v w"
  by (simp add: fill_def)

lemma fill_runtime_idem:
  "fill_runtime (c\<lparr>sn_lifecycle := l, sn_meta := (sn_meta c)\<lparr>m_claude_lifecycle := l\<rparr>\<rparr>)
     (fill_runtime c r\<lparr>rt_lifecycle := l\<rparr>) = fill_runtime c r\<lparr>rt_lifecycle := l\<rparr>"
  "fill_runtime c (fill_runtime c r\<lparr>rt_lifecycle := []\<rparr>) = fill_runtime c r\<lparr>rt_lifecycle := []\<rparr>"
  by (simp_all add: fill_runtime_def)

lemma normalize_runtime_alt:
  assumes "l = normalize_projection_lifecycle
    (first_non_empty_string [sn_lifecycle (pj_controller p), m_claude_lifecycle (sn_meta (pj_controller p)), rt_lifecycle (pj_runtime p)])
    (rt_resume_session_id (fill_runtime (pj_controller p) (pj_runtime p)))"
  shows "normalize_runtime p = (if l \<noteq> []
     then p\<lparr>pj_runtime := fill_runtime (pj_controller p) (pj_runtime p)\<lparr>rt_lifecycle := l\<rparr>,
       pj_controller := (pj_controller p)\<lparr>sn_lifecycle := l, sn_meta := (sn_meta (pj_controller p))\<lparr>m_claude_lifecycle := l\<rparr>\<rparr>\<rparr>
     else p\<lparr>pj_runtime := fill_runtime (pj_controller p) (pj_runtime p)\<lparr>rt_lifecycle := []\<rparr>\<rparr>)"
proof -
  have "rt_lifecycle (fill_runtime c r) = rt_lifecycle r" for c r
    by (simp add: fill_runtime_def)
  then show ?thesis
    by (simp only: normalize_runtime_def Let_def assms split: if_splits) simp
qed

lemma normalize_runtime_idem: "normalize_runtime (normalize_runtime p) = normalize_runtime p"
proof -
  define c where "c = pj_controller p"
  define r where "r = fill_runtime c (pj_runtime p)"
  define l where "l = normalize_projection_lifecycle
    (first_non_empty_string [sn_lifecycle c, m_claude_lifecycle (sn_meta c), rt_lifecycle (pj_runtime p)])
    (rt_resume_session_id r)"
  have trimmed: "trim_space l = l"
    by (simp add: l_def)
  have fixed: "normalize_projection_lifecycle l (rt_resume_session_id r) = l"
    by (simp add: l_def)
  have n: "normalize_runtime p = (if l \<noteq> []
     then p\<lparr>pj_runtime := r\<lparr>rt_lifecycle := l\<rparr>,
       pj_controller := c\<lparr>sn_lifecycle := l, sn_meta := (sn_meta c)\<lparr>m_claude_lifecycle := l\<rparr>\<rparr>\<rparr>
     else p\<lparr>pj_runtime := r\<lparr>rt_lifecycle := []\<rparr>\<rparr>)"
    unfolding r_def c_def by (rule normalize_runtime_alt) (simp add: l_def r_def c_def)
  show ?thesis
  proof (cases "l = []")
    case True
    define q where "q = p\<lparr>pj_runtime := r\<lparr>rt_lifecycle := []\<rparr>\<rparr>"
    have sel: "pj_controller q = c" "pj_runtime q = r\<lparr>rt_lifecycle := []\<rparr>"
      by (simp_all add: q_def c_def)
    have "first_non_empty_string [sn_lifecycle c, m_claude_lifecycle (sn_meta c), rt_lifecycle (pj_runtime p)] = []"
      using True by (simp only: l_def lifecycle_Nil first_non_empty_trimmed)
    then have "first_non_empty_string [sn_lifecycle c, m_claude_lifecycle (sn_meta c), []] = []"
      by (simp split: if_splits)
    then have "normalize_runtime q = (if ([]::string) \<noteq> [] then undefined
        else q\<lparr>pj_runtime := fill_runtime c (r\<lparr>rt_lifecycle := []\<rparr>)\<lparr>rt_lifecycle := []\<rparr>\<rparr>)"
      by (subst normalize_runtime_alt [OF refl]) (simp add: sel)
    also have "\<dots> = q"
      by (simp add: r_def fill_runtime_idem q_def)
    finally show ?thesis
      using n True by (simp add: q_def)
  next
    case False
    define q where "q = p\<lparr>pj_runtime := r\<lparr>rt_lifecycle := l\<rparr>,
      pj_controller := c\<lparr>sn_lifecycle := l, sn_meta := (sn_meta c)\<lparr>m_claude_lifecycle := l\<rparr>\<rparr>\<rparr>"
    have sel: "pj_controller q = c\<lparr>sn_lifecycle := l, sn_meta := (sn_meta c)\<lparr>m_claude_lifecycle := l\<rparr>\<rparr>"
      "pj_runtime q = r\<lparr>rt_lifecycle := l\<rparr>"
      by (simp_all add: q_def)
    have fr: "fill_runtime (pj_controller q) (pj_runtime q) = r\<lparr>rt_lifecycle := l\<rparr>"
      by (simp add: sel r_def fill_runtime_idem)
    have "normalize_runtime q = (if l \<noteq> []
        then q\<lparr>pj_runtime := fill_runtime (pj_controller q) (pj_runtime q)\<lparr>rt_lifecycle := l\<rparr>,
          pj_controller := (pj_controller q)\<lparr>sn_lifecycle := l, sn_meta := (sn_meta (pj_controller q))\<lparr>m_claude_lifecycle := l\<rparr>\<rparr>\<rparr>
        else q\<lparr>pj_runtime := fill_runtime (pj_controller q) (pj_runtime q)\<lparr>rt_lifecycle := []\<rparr>\<rparr>)"
      by (rule normalize_runtime_alt) (unfold fr, simp add: sel trimmed False fixed)
    then have "normalize_runtime q = q"
      using False unfolding fr unfolding sel by (simp add: q_def)
    then show ?thesis
      using n False by (simp add: q_def)
  qed
qed

lemma normalize_context_idem [simp]: "normalize_context (normalize_context c) = normalize_context c"
  by (simp add: normalize_context_def empty_session_context_def)

definition with_review :: "diff_context list \<Rightarrow> diff_context option \<Rightarrow> review_group list \<Rightarrow> review_group option \<Rightarrow> projection \<Rightarrow> projection" where
  "with_review ds d gs g p = p\<lparr>pj_diffs := ds, pj_current_diff := d, pj_review_groups := gs, pj_active_group := g\<rparr>"

definition reviewed_diffs :: "projection \<Rightarrow> diff_context list" where
  "reviewed_diffs p = (if pj_diffs p = [] then case_option [] (\<lambda>d. [d]) (pj_current_diff p) else pj_diffs p)"

definition reviewed_groups :: "projection \<Rightarrow> review_group list" where
  "reviewed_groups p = (if pj_review_groups p = [] then rebuild_review_groups (reviewed_diffs p) else pj_review_groups p)"

lemma rebuild_Nil [simp]: "rebuild_review_groups [] = []"
  by (simp add: rebuild_review_groups_def)

lemma set_review_eq: "set_current_diff (set_active_group p) = with_review (pj_diffs p)
   (if shown (pick_active (pj_diffs p)) then Some (pick_active (pj_diffs p)) else pj_current_diff p)
   (pj_review_groups p)
   (case pick_active_review_group (pj_review_groups p) of None \<Rightarrow> pj_active_group p | Some g \<Rightarrow> Some g) p"
  by (simp add: set_current_diff_def set_active_group_def with_review_def split: option.split)

lemma normalize_review_eq: "normalize_review p = with_review (reviewed_diffs p)
   (if shown (pick_active (reviewed_diffs p)) then Some (pick_active (reviewed_diffs p)) else pj_current_diff p)
   (reviewed_groups p)
   (case pick_active_review_group (reviewed_groups p) of None \<Rightarrow> pj_active_group p | Some g \<Rightarrow> Some g) p"
  by (simp add: normalize_review_def set_review_eq reviewed_diffs_def reviewed_groups_def with_review_def Let_def
      split: option.split)

lemma not_shown_empty [simp]: "\<not> shown empty_diff"
  by (simp add: shown_def empty_diff_def)

lemma normalize_review_idem: "normalize_review (normalize_review p) = normalize_review p"
proof -
  define ds where "ds = reviewed_diffs p"
  define gs where "gs = reviewed_groups p"
  define d where "d = (if shown (pick_active ds) then Some (pick_active ds) else pj_current_diff p)"
  define g where "g = (case pick_active_review_group gs of None \<Rightarrow> pj_active_group p | Some g \<Rightarrow> Some g)"
  define q where "q = with_review ds d gs g p"
  have sel: "pj_diffs q = ds" "pj_current_diff q = d" "pj_review_groups q = gs" "pj_active_group q = g"
    by (simp_all add: q_def with_review_def)
  have "ds = [] \<Longrightarrow> d = None"
    by (auto simp: ds_def d_def reviewed_diffs_def pick_active_def split: if_splits option.splits)
  then have ds: "reviewed_diffs q = ds"
    by (auto simp: reviewed_diffs_def sel)
  have "gs = [] \<Longrightarrow> rebuild_review_groups ds = []"
    by (auto simp: gs_def reviewed_groups_def ds_def split: if_splits)
  then have gs: "reviewed_groups q = gs"
    by (auto simp: reviewed_groups_def sel ds)
  have "normalize_review p = q"
    by (simp add: normalize_review_eq q_def ds_def gs_def d_def g_def)
  moreover have "normalize_review q = q"
    unfolding normalize_review_eq ds gs sel by (simp add: q_def with_review_def d_def g_def split: option.split)
  ultimately show ?thesis
    by simp
qed

lemma normalize_runtime_with_review:
  "normalize_runtime (with_review ds d gs g p) = with_review ds d gs g (normalize_runtime p)"
  "normalize_runtime (p\<lparr>pj_context := x\<rparr>) = normalize_runtime p\<lparr>pj_context := x\<rparr>"
  by (simp_all add: normalize_runtime_def with_review_def Let_def)

lemma normalize_runtime_sel [simp]:
  "pj_context (normalize_runtime p) = pj_context p" "pj_raw_terminal (normalize_runtime p) = pj_raw_terminal p"
  by (simp_all add: normalize_runtime_def Let_def)

lemma with_review_sel [simp]:
  "pj_context (with_review ds d gs g p) = pj_context p" "pj_raw_terminal (with_review ds d gs g p) = pj_raw_terminal p"
  by (simp_all add: with_review_def)

text \<open>
  Normalising a projection is idempotent: what \<open>NormalizeProjection\<close> returns is its own normal form, so that
  reading a stored projection, normalising it and storing it again changes nothing more.
\<close>

theorem normalize_projection_idem: "normalize_projection (normalize_projection p) = normalize_projection p"
proof -
  define raw where "raw = (case pj_raw_terminal p of None \<Rightarrow> p\<lparr>pj_raw_terminal := Some empty_streams\<rparr> | Some _ \<Rightarrow> p)"
  define r where "r = (normalize_runtime raw)\<lparr>pj_context := normalize_context (pj_context (normalize_runtime raw))\<rparr>"
  have p: "normalize_projection p = normalize_review r"
    by (simp add: normalize_projection_def raw_def r_def Let_def)
  have raw: "pj_raw_terminal raw \<noteq> None"
    by (simp add: raw_def split: option.split)
  have r_fixed: "normalize_runtime r = r"
    by (simp add: r_def normalize_runtime_with_review normalize_runtime_idem)
  have q_fixed: "normalize_runtime (normalize_review r) = normalize_review r"
    unfolding normalize_review_eq by (simp add: normalize_runtime_with_review r_fixed)
  have "pj_raw_terminal (normalize_review r) \<noteq> None"
    using raw unfolding normalize_review_eq by (simp add: r_def del: not_None_eq)
  moreover have "normalize_context (pj_context (normalize_review r)) = pj_context (normalize_review r)"
    unfolding normalize_review_eq by (simp add: r_def)
  ultimately show ?thesis
    by (auto simp: normalize_projection_def [of "normalize_review r"] p q_fixed normalize_review_idem Let_def)
qed

lemma not_pending_rebuilt: "\<not> list_ex dx_pending ds \<Longrightarrow> \<not> list_ex rv_pending (rebuild_review_groups ds)"
  using rebuilt_pending [of ds] by (auto simp: list_ex_iff)

lemma accept_diff_not_pending [simp]: "\<not> dx_pending (accept_diff d)"
  by (simp add: accept_diff_def)

text \<open>
  \<open>ApplyAutoReviewAcceptance\<close> leaves nothing to review: no diff, no group, neither the active group nor the
  current diff is pending any more; the diffs that were pending are accepted, the others keep their status, and
  the change each diff stands for is the same.
\<close>

theorem auto_acceptance_settles_all:
  "\<not> list_ex dx_pending (pj_diffs (apply_auto_review_acceptance p)) \<and>
   \<not> list_ex rv_pending (pj_review_groups (apply_auto_review_acceptance p)) \<and>
   (case pj_active_group (apply_auto_review_acceptance p) of
      None \<Rightarrow> pj_review_groups (apply_auto_review_acceptance p) = []
    | Some g \<Rightarrow> \<not> rv_pending g) \<and>
   (case pj_current_diff (apply_auto_review_acceptance p) of None \<Rightarrow> True | Some d \<Rightarrow> \<not> dx_pending d) \<and>
   map dx_status (pj_diffs (apply_auto_review_acceptance p)) =
     map (\<lambda>d. if dx_pending d then ''accepted'' else dx_status d) (pj_diffs (normalize_projection p)) \<and>
   map dx_diff (pj_diffs (apply_auto_review_acceptance p)) = map dx_diff (pj_diffs (normalize_projection p))"
  (is "?diffs \<and> ?groups \<and> ?active \<and> ?current \<and> ?status \<and> ?content")
proof -
  define ds where "ds = map accept_diff (pj_diffs (normalize_projection p))"
  let ?q = "apply_auto_review_acceptance p"
  have q: "pj_diffs ?q = ds" "pj_review_groups ?q = rebuild_review_groups ds"
    "pj_active_group ?q = pick_active_review_group (rebuild_review_groups ds)"
    "pj_current_diff ?q = (if shown (pick_active ds) then Some (pick_active ds) else None)"
    by (simp_all add: apply_auto_review_acceptance_def Let_def ds_def)
  have ds: "\<not> list_ex dx_pending ds"
    by (simp add: ds_def list_ex_iff)
  have groups: "\<not> list_ex rv_pending (rebuild_review_groups ds)"
    by (rule not_pending_rebuilt [OF ds])
  have "?active"
    using groups pick_active_group_cases [of "rebuild_review_groups ds"]
    by (cases "pick_active_review_group (rebuild_review_groups ds)") (auto simp: q list_ex_iff)
  moreover have "?current"
    using ds pick_active_pending_iff [of ds] by (simp add: q list_ex_iff)
  moreover have "?status \<and> ?content"
    by (simp add: q(1) ds_def accept_diff_def)
  ultimately show ?thesis
    using ds groups by (simp add: q)
qed

lemma decide_diff_sel [simp]:
  "dx_context_id (decide_diff req decision current d) = dx_context_id d"
  "dx_path (decide_diff req decision current d) = dx_path d"
  "dx_diff (decide_diff req decision current d) = dx_diff d"
  by (simp_all add: decide_diff_def Let_def)

lemma decide_diff_matches [simp]:
  "snapshot_diff_matches (decide_diff req decision current d) cid path = snapshot_diff_matches d cid path"
  by (simp add: snapshot_diff_matches_def diff_matches_def)

lemma decide_diff_settled:
  assumes "cid = first_non_empty_string [rq_context_id req, dx_context_id current]"
    and "path = first_non_empty_string [rq_target_path req, dx_path current]"
  shows "if snapshot_diff_matches d cid path
    then dx_pending (decide_diff req decision current d) = (decision = ''revise'') \<and>
      dx_status (decide_diff req decision current d) = review_status_from_decision decision
    else decide_diff req decision current d = d"
  using assms by (simp add: decide_diff_def)

lemma matched_group_key: "snapshot_diff_matches d cid path \<Longrightarrow> group_key d \<noteq> []"
  by (auto simp: snapshot_diff_matches_def diff_matches_def group_key_def)

text \<open>
  C27: A review decision (\<open>ApplyReviewDecisionToProjection\<close>), for a request that names at least one diff of the
  projection: every diff it names gets the status of the decision and is pending just after a revision, every
  other diff is as before, the groups are those of the new diffs, and the active group is one of them, pending
  just when some group is.
\<close>

theorem review_decision_settles:
  assumes "\<exists>d\<in>set (pj_diffs (normalize_projection p)).
    snapshot_diff_matches d (first_non_empty_string [rq_context_id req, dx_context_id current])
      (first_non_empty_string [rq_target_path req, dx_path current])"
  shows "list_all (\<lambda>d. if snapshot_diff_matches d (first_non_empty_string [rq_context_id req, dx_context_id current])
             (first_non_empty_string [rq_target_path req, dx_path current])
           then dx_pending d = (decision = ''revise'') \<and> dx_status d = review_status_from_decision decision
           else d \<in> set (pj_diffs (normalize_projection p)))
         (pj_diffs (apply_review_decision p req decision current)) \<and>
    map (\<lambda>d. (dx_context_id d, dx_path d, dx_diff d)) (pj_diffs (apply_review_decision p req decision current)) =
      map (\<lambda>d. (dx_context_id d, dx_path d, dx_diff d)) (pj_diffs (normalize_projection p)) \<and>
    pj_review_groups (apply_review_decision p req decision current) =
      rebuild_review_groups (pj_diffs (apply_review_decision p req decision current)) \<and>
    (case pj_active_group (apply_review_decision p req decision current) of None \<Rightarrow> False
     | Some g \<Rightarrow> g \<in> set (pj_review_groups (apply_review_decision p req decision current)) \<and>
         rv_pending g = list_ex rv_pending (pj_review_groups (apply_review_decision p req decision current)))"
  (is "?settled \<and> ?content \<and> ?groups \<and> ?active")
proof -
  let ?q = "apply_review_decision p req decision current"
  let ?n = "normalize_projection p"
  define cid where "cid = first_non_empty_string [rq_context_id req, dx_context_id current]"
  define path where "path = first_non_empty_string [rq_target_path req, dx_path current]"
  define ds where "ds = map (decide_diff req decision current) (pj_diffs ?n)"
  define gs where "gs = rebuild_review_groups ds"
  have q: "pj_diffs ?q = ds" "pj_review_groups ?q = gs"
    "pj_active_group ?q = (case pick_active_review_group gs of None \<Rightarrow> pj_active_group ?n | Some g \<Rightarrow> Some g)"
    by (simp_all add: apply_review_decision_def Let_def set_review_eq with_review_def ds_def gs_def split: option.split)
  obtain d where d: "d \<in> set (pj_diffs ?n)" "snapshot_diff_matches d cid path"
    using assms unfolding cid_def path_def by blast
  let ?d = "decide_diff req decision current d"
  have "group_key ?d \<noteq> []"
    using d(2) by (intro matched_group_key [of _ cid path]) simp
  moreover have "?d \<in> set (members (group_key ?d) ds)"
    using d(1) by (simp add: ds_def members_def)
  ultimately have "group_key ?d \<in> set (keys_of ds)"
    by (auto simp: in_keys_of)
  then have "gs \<noteq> []"
    by (auto simp: gs_def rebuild_eq)
  then have "?active"
    using pick_active_group_cases [of gs] by (cases "pick_active_review_group gs") (auto simp: q list_ex_iff)
  moreover have "?settled"
    unfolding cid_def [symmetric] path_def [symmetric] q(1) ds_def list_all_iff set_map ball_simps(9)
  proof
    fix d
    assume "d \<in> set (pj_diffs ?n)"
    then show "if snapshot_diff_matches (decide_diff req decision current d) cid path
      then dx_pending (decide_diff req decision current d) = (decision = ''revise'') \<and>
        dx_status (decide_diff req decision current d) = review_status_from_decision decision
      else decide_diff req decision current d \<in> set (pj_diffs ?n)"
      using decide_diff_settled [OF cid_def path_def, of d decision] by (simp split: if_splits)
  qed
  moreover have "?content"
    by (simp add: q ds_def)
  ultimately show ?thesis
    by (simp add: q gs_def)
qed

definition demo_projection :: projection where
  "demo_projection = empty_projection\<lparr>pj_diffs :=
     [empty_diff\<lparr>dx_path := ''a.go'', dx_diff := ''+a'', dx_pending := True\<rparr>,
      empty_diff\<lparr>dx_path := ''b.go'', dx_diff := ''+b'', dx_pending := True\<rparr>]\<rparr>"

definition demo_review :: review_request where
  "demo_review = \<lparr>rq_decision = ''accept'', rq_execution_id = [], rq_group_id = [], rq_group_title = [],
     rq_context_id = [], rq_context_title = [], rq_target_path = ''a.go'', rq_permission_mode = [], rq_review_only = False\<rparr>"

lemma review_decision_settles_witness:
  "list_ex (\<lambda>d. snapshot_diff_matches d [] ''a.go'') (pj_diffs (normalize_projection demo_projection)) \<and>
   pj_review_groups (apply_review_decision demo_projection demo_review ''accept'' empty_diff) =
     rebuild_review_groups (pj_diffs (apply_review_decision demo_projection demo_review ''accept'' empty_diff)) \<and>
   (case pj_active_group (apply_review_decision demo_projection demo_review ''accept'' empty_diff) of None \<Rightarrow> False
     | Some g \<Rightarrow> g \<in> set (pj_review_groups (apply_review_decision demo_projection demo_review ''accept'' empty_diff)) \<and>
         rv_pending g = list_ex rv_pending (pj_review_groups (apply_review_decision demo_projection demo_review ''accept'' empty_diff)))"
proof -
  have named: "first_non_empty_string [rq_context_id demo_review, dx_context_id empty_diff] = []"
    "first_non_empty_string [rq_target_path demo_review, dx_path empty_diff] = ''a.go''"
    by code_simp+
  have hit: "list_ex (\<lambda>d. snapshot_diff_matches d [] ''a.go'') (pj_diffs (normalize_projection demo_projection))"
    by code_simp
  then have "\<exists>d\<in>set (pj_diffs (normalize_projection demo_projection)). snapshot_diff_matches d
      (first_non_empty_string [rq_context_id demo_review, dx_context_id empty_diff])
      (first_non_empty_string [rq_target_path demo_review, dx_path empty_diff])"
    unfolding named by (simp add: list_ex_iff)
  from review_decision_settles [OF this, of "''accept''"] hit show ?thesis
    by blast
qed

end
