(* ===== verification/ProjectionApply.thy ===== *)
theory ProjectionApply
  imports Projector Permissions
begin

text \<open>
  The projection as the sum of the events of a session (\<open>session/projection_apply.go\<close>): what each event adds to
  the stored log, the terminal output, the executions, the diffs and the controller, which earlier entries a reply of
  the assistant replaces, and the status the clients show for an event. \<open>fmt\<close> and \<open>fmtn\<close> are \<open>Time.Format\<close> with
  the layouts RFC3339 and RFC3339Nano. The functions are on values: the Go code writes through the slices and the
  map of the projection it is given.
\<close>

section \<open>Classifying log lines\<close>

definition runtime_engine_of_meta :: "runtime_meta \<Rightarrow> string" where
  "runtime_engine_of_meta m =
     (let e = trim_space (to_lower (m_engine m)); c = trim_space (to_lower (m_command m)) in
      if e = ''claude'' \<or> e = ''codex'' then e
      else if c = ''claude'' \<or> has_prefix c ''claude '' then ''claude''
      else if c = ''codex'' \<or> has_prefix c ''codex '' then ''codex''
      else if m_resume_session_id m \<noteq> [] then ''claude'' else [])"

definition bootstrap_texts :: "string list" where
  "bootstrap_texts = [[CHR 0xE8, CHR 0xAE, CHR 0xBE, CHR 0xE7, CHR 0xBD, CHR 0xAE, CHR 0xE6, CHR 0xA8,
    CHR 0xA1, CHR 0xE5, CHR 0x9E, CHR 0x8B],
     [CHR 0xE6, CHR 0x8E, CHR 0xA8, CHR 0xE7, CHR 0x90, CHR 0x86, CHR 0xE5, CHR 0xBC, CHR 0xBA, CHR 0xE5,
       CHR 0xBA, CHR 0xA6],
     [CHR 0xE6, CHR 0xA8, CHR 0xA1, CHR 0xE5, CHR 0x9E, CHR 0x8B, CHR 0xE5, CHR 0xBC, CHR 0xBA, CHR 0xE5,
       CHR 0xBA, CHR 0xA6],
     [CHR 0xE6, CHR 0xA8, CHR 0xA1, CHR 0xE5, CHR 0x9E, CHR 0x8B, CHR 0xE5, CHR 0xB7, CHR 0xB2, CHR 0xE8,
       CHR 0xAE, CHR 0xBE],
     ''Codex '' @ [CHR 0xE4, CHR 0xBC, CHR 0x9A, CHR 0xE8, CHR 0xAF, CHR 0x9D]]"

definition is_system_bootstrap_log :: "log_event \<Rightarrow> bool" where
  "is_system_bootstrap_log e \<longleftrightarrow>
     (let m = trim_space (to_lower (le_message e)) in
      runtime_engine_of_meta (ev_meta e) = ''codex'' \<and> m \<noteq> [] \<and>
      ((has_prefix m ''using '' \<and> str_contains m '' mode'') \<or>
       list_ex (str_contains m)
         [''reasoning effort'', ''model set to'', ''how can i help you'', ''what would you like to work on next''] \<or>
       list_ex (str_contains (trim_space (le_message e))) bootstrap_texts))"

definition mark_system_bootstrap_event :: "payload \<Rightarrow> payload" where
  "mark_system_bootstrap_event p = (case p of
     EvLog e \<Rightarrow>
       if is_system_bootstrap_log e
       then EvLog (e\<lparr>ev_meta := merge_runtime_meta (ev_meta e) (empty_meta\<lparr>m_source := ''system/bootstrap''\<rparr>)\<rparr>)
       else p
   | _ \<Rightarrow> p)"

definition backquote :: char where "backquote = CHR 0x60"

definition looks_like_markdown :: "string \<Rightarrow> bool" where
  "looks_like_markdown message \<longleftrightarrow> trim_space message \<noteq> [] \<and>
     (list_ex (str_contains message) [[backquote, backquote, backquote], ''# '', ''## '', ''- ''] \<or> 180 < length message)"

definition looks_like_terminal_line :: "string \<Rightarrow> bool" where
  "looks_like_terminal_line message \<longleftrightarrow>
     (let l = to_lower (trim_space message) in trim_space message \<noteq> [] \<and>
      (list_ex (has_prefix l) [''$ '', ''# '', ''> '', ''at ''] \<or>
       list_ex (str_contains l) [''fatal:'', ''error:'', ''traceback'', ''[info]'', ''[error]'', ''task :'']))"

definition is_visible_reply :: "log_event \<Rightarrow> bool" where
  "is_visible_reply e \<longleftrightarrow>
     (let source = trim_space (m_source (ev_meta e)); message = trim_space (le_message e);
          engine = runtime_engine_of_meta (ev_meta e); l = to_lower message
      in if equal_fold (trim_space (le_stream e)) ''stderr'' then False
         else if source = ''system/bootstrap'' then False
         else if source = ''claude/assistant'' \<or> source = ''codex/assistant'' then message \<noteq> []
         else if message = [] then False
         else if engine \<noteq> ''claude'' \<and> engine \<noteq> ''codex'' then False
         else if has_prefix l ''output'' \<or> has_prefix l ''wall time:'' then False
         else if looks_like_markdown message then True
         else if str_contains message newline then True
         else \<not> looks_like_terminal_line message)"

section \<open>Entries and executions\<close>

text \<open>\<open>strings.TrimLeft(s, "\r")\<close>.\<close>

definition trim_cr :: "string \<Rightarrow> string" where
  "trim_cr s = dropWhile (\<lambda>c. c = CHR 0x0D) s"

definition log_context :: "(time \<Rightarrow> string) \<Rightarrow> (time \<Rightarrow> string) \<Rightarrow> log_event \<Rightarrow> snapshot_context option" where
  "log_context fmt fmtn e =
     (let m = ev_meta e; command = first_non_empty_string [m_command m, m_command m];
          source = trim_space (m_source m); skill = trim_space (m_skill_name m)
      in if command = [] \<and> source = [] \<and> skill = [] \<and> trim_space (m_execution_id m) = [] then None
         else Some (empty_context\<lparr>
           cx_id := first_non_empty_string [m_context_id m, ''log:'' @ fmtn (ev_timestamp e)],
           cx_command := command, cx_title := first_non_empty_string [m_context_title m, le_message e],
           cx_timestamp := fmt (ev_timestamp e), cx_source := source, cx_skill_name := skill,
           cx_execution_id := m_execution_id m\<rparr>))"

definition normalize_reply :: "string \<Rightarrow> string" where
  "normalize_reply text = join '' '' (GoStrings.fields (trim_space text))"

text \<open>
  The loop of \<open>removeSupersededAssistantLogEntry\<close>, from the newest entry to the oldest: \<open>found\<close> says whether an
  entry has been removed; the first entry that does not fit then ends the loop.
\<close>

definition entry_elsewhere :: "string \<Rightarrow> string \<Rightarrow> log_entry \<Rightarrow> bool" where
  "entry_elsewhere stream exec en \<longleftrightarrow>
     (exec \<noteq> [] \<and> trim_space (ln_execution_id en) \<noteq> [] \<and> trim_space (ln_execution_id en) \<noteq> exec) \<or>
     (stream \<noteq> [] \<and> trim_space (ln_stream en) \<noteq> [] \<and> trim_space (ln_stream en) \<noteq> stream) \<or>
     (ln_kind en \<noteq> ''terminal'' \<and> ln_kind en \<noteq> ''markdown'')"

definition entry_text :: "log_entry \<Rightarrow> string" where
  "entry_text en = trim_space (first_non_empty_string [ln_message en, ln_text en])"

definition entry_superseded :: "string \<Rightarrow> log_entry \<Rightarrow> bool" where
  "entry_superseded message en \<longleftrightarrow>
     (let previous = normalize_reply (entry_text en) in
      previous = message \<or> has_prefix message previous \<or> str_contains message previous)"

fun drop_superseded :: "string \<Rightarrow> string \<Rightarrow> string \<Rightarrow> bool \<Rightarrow> log_entry list \<Rightarrow> log_entry list" where
  "drop_superseded stream exec message found [] = []"
| "drop_superseded stream exec message found (en # ens) =
     (if entry_elsewhere stream exec en
      then (if found then en # ens else en # drop_superseded stream exec message found ens)
      else if entry_text en = [] then en # drop_superseded stream exec message found ens
      else if entry_superseded message en then drop_superseded stream exec message True ens
      else en # ens)"

definition remove_superseded :: "log_entry list \<Rightarrow> log_event \<Rightarrow> log_entry list" where
  "remove_superseded entries e =
     (if trim_space (le_message e) = [] \<or> entries = [] then entries
      else rev (drop_superseded (trim_space (le_stream e)) (trim_space (m_execution_id (ev_meta e)))
        (normalize_reply (trim_space (le_message e))) False (rev entries)))"

definition empty_execution :: "string \<Rightarrow> terminal_execution" where
  "empty_execution x = \<lparr>tx_id = x, tx_command = [], tx_cwd = [], tx_started_at = [], tx_finished_at = [],
     tx_exit_code = None, tx_stdout = [], tx_stderr = []\<rparr>"

text \<open>A chunk of output on a new line, unless nothing comes before it.\<close>

definition add_line :: "string \<Rightarrow> string \<Rightarrow> string" where
  "add_line old text = (if old \<noteq> [] then old @ newline else old) @ text"

definition append_execution_stream :: "string \<Rightarrow> string \<Rightarrow> terminal_execution \<Rightarrow> terminal_execution" where
  "append_execution_stream stream text x =
     (if text = [] then x
      else if stream = ''stderr'' then x\<lparr>tx_stderr := add_line (tx_stderr x) text\<rparr>
      else x\<lparr>tx_stdout := add_line (tx_stdout x) text\<rparr>)"

definition merge_execution :: "terminal_execution \<Rightarrow> terminal_execution \<Rightarrow> terminal_execution" where
  "merge_execution new x =
     append_execution_stream ''stderr'' (tx_stderr new) (append_execution_stream ''stdout'' (tx_stdout new)
       (x\<lparr>tx_command := overlay_str (tx_command x) (tx_command new), tx_cwd := overlay_str (tx_cwd x) (tx_cwd new),
          tx_started_at := overlay_str (tx_started_at x) (tx_started_at new),
          tx_finished_at := overlay_str (tx_finished_at x) (tx_finished_at new),
          tx_exit_code := (if tx_exit_code new \<noteq> None then tx_exit_code new else tx_exit_code x)\<rparr>))"

definition upsert_execution :: "terminal_execution list \<Rightarrow> terminal_execution \<Rightarrow> terminal_execution list" where
  "upsert_execution xs new =
     (if trim_space (tx_id new) = [] then xs
      else upsert_first (\<lambda>x. tx_id x = tx_id new) (merge_execution new) new xs)"

definition update_execution ::
  "terminal_execution list \<Rightarrow> string \<Rightarrow> (terminal_execution \<Rightarrow> terminal_execution) \<Rightarrow> terminal_execution list" where
  "update_execution xs x f =
     (if trim_space x = [] then xs else upsert_first (\<lambda>y. tx_id y = x) f (f (empty_execution x)) xs)"

definition fallback_string :: "string \<Rightarrow> string \<Rightarrow> string" where
  "fallback_string v default_value = (if trim_space v = [] then default_value else v)"

definition empty_entry :: log_entry where
  "empty_entry = \<lparr>ln_kind = [], ln_message = [], ln_label = [], ln_timestamp = [], ln_stream = [], ln_text = [],
     ln_execution_id = [], ln_phase = [], ln_exit_code = None, ln_context = None\<rparr>"

definition txt_current_step :: string where "txt_current_step = [CHR 0xE5, CHR 0xBD, CHR 0x93, CHR 0xE5,
  CHR 0x89, CHR 0x8D, CHR 0xE6, CHR 0xAD, CHR 0xA5, CHR 0xE9, CHR 0xAA, CHR 0xA4]"
definition txt_recent_change :: string where "txt_recent_change = [CHR 0xE6, CHR 0x9C, CHR 0x80, CHR 0xE8,
  CHR 0xBF, CHR 0x91, CHR 0xE6, CHR 0x94, CHR 0xB9, CHR 0xE5, CHR 0x8A, CHR 0xA8]"

section \<open>Applying an event\<close>

definition system_entry :: "(time \<Rightarrow> string) \<Rightarrow> session_state_event \<Rightarrow> log_entry" where
  "system_entry fmt e = empty_entry\<lparr>ln_kind := ''system'', ln_message := ss_message e, ln_timestamp := fmt (ev_timestamp e)\<rparr>"

definition terminal_entry :: "(time \<Rightarrow> string) \<Rightarrow> (time \<Rightarrow> string) \<Rightarrow> log_event \<Rightarrow> log_entry" where
  "terminal_entry fmt fmtn e = \<lparr>ln_kind = ''terminal'', ln_message = le_message e, ln_label = [],
     ln_timestamp = fmt (ev_timestamp e), ln_stream = le_stream e, ln_text = trim_cr (le_message e),
     ln_execution_id = m_execution_id (ev_meta e), ln_phase = trim_space (le_phase e), ln_exit_code = le_exit_code e,
     ln_context = log_context fmt fmtn e\<rparr>"

definition markdown_entry :: "(time \<Rightarrow> string) \<Rightarrow> (time \<Rightarrow> string) \<Rightarrow> log_event \<Rightarrow> log_entry" where
  "markdown_entry fmt fmtn e = (terminal_entry fmt fmtn e)\<lparr>ln_kind := ''markdown'', ln_text := []\<rparr>"

definition add_entry :: "log_entry \<Rightarrow> projection \<Rightarrow> projection" where
  "add_entry en p = p\<lparr>pj_log_entries := pj_log_entries p @ [en]\<rparr>"

text \<open>The three phases of a command's log.\<close>

definition log_started :: "(time \<Rightarrow> string) \<Rightarrow> (time \<Rightarrow> string) \<Rightarrow> log_event \<Rightarrow> projection \<Rightarrow> projection" where
  "log_started fmt fmtn e p =
     (let m = ev_meta e in
      add_entry (terminal_entry fmt fmtn e) (p\<lparr>pj_executions := upsert_execution (pj_executions p)
        ((empty_execution (m_execution_id m))\<lparr>tx_command := first_non_empty_string [m_command m, le_message e],
           tx_cwd := m_cwd m, tx_started_at := fmt (ev_timestamp e)\<rparr>)\<rparr>))"

definition log_finished :: "(time \<Rightarrow> string) \<Rightarrow> (time \<Rightarrow> string) \<Rightarrow> log_event \<Rightarrow> projection \<Rightarrow> projection" where
  "log_finished fmt fmtn e p =
     add_entry (terminal_entry fmt fmtn e) (p\<lparr>pj_executions := update_execution (pj_executions p) (m_execution_id (ev_meta e))
       (\<lambda>x. x\<lparr>tx_started_at := fill (tx_started_at x) (fmt (ev_timestamp e)), tx_finished_at := fmt (ev_timestamp e),
          tx_exit_code := le_exit_code e\<rparr>)\<rparr>)"

definition log_reply :: "(time \<Rightarrow> string) \<Rightarrow> (time \<Rightarrow> string) \<Rightarrow> log_event \<Rightarrow> projection \<Rightarrow> projection" where
  "log_reply fmt fmtn e p =
     p\<lparr>pj_controller := (pj_controller p)\<lparr>sn_state := state_idle\<rparr>,
       pj_log_entries := remove_superseded (pj_log_entries p) e @ [markdown_entry fmt fmtn e]\<rparr>"

text \<open>A line of terminal output joins the last entry when that is of the same stream, execution and phase.\<close>

definition same_output :: "log_event \<Rightarrow> log_entry \<Rightarrow> bool" where
  "same_output e en \<longleftrightarrow> ln_kind en = ''terminal'' \<and> ln_stream en = le_stream e \<and>
     ln_execution_id en = m_execution_id (ev_meta e) \<and> ln_phase en = trim_space (le_phase e)"

definition output_entries :: "(time \<Rightarrow> string) \<Rightarrow> (time \<Rightarrow> string) \<Rightarrow> log_event \<Rightarrow> log_entry list \<Rightarrow> log_entry list" where
  "output_entries fmt fmtn e ens =
     (if ens \<noteq> [] \<and> same_output e (last ens)
      then butlast ens @ [(last ens)\<lparr>ln_text := add_line (ln_text (last ens)) (trim_cr (le_message e)),
        ln_timestamp := fmt (ev_timestamp e),
        ln_context := (case ln_context (last ens) of None \<Rightarrow> log_context fmt fmtn e | c \<Rightarrow> c)\<rparr>]
      else ens @ [terminal_entry fmt fmtn e])"

definition output_execution :: "(time \<Rightarrow> string) \<Rightarrow> log_event \<Rightarrow> string \<Rightarrow> terminal_execution \<Rightarrow> terminal_execution" where
  "output_execution fmt e stream x =
     append_execution_stream stream (trim_cr (le_message e))
       (x\<lparr>tx_id := fill (tx_id x) (m_execution_id (ev_meta e)), tx_command := fill (tx_command x) (m_command (ev_meta e)),
          tx_cwd := fill (tx_cwd x) (m_cwd (ev_meta e)), tx_started_at := fill (tx_started_at x) (fmt (ev_timestamp e))\<rparr>)"

definition stream_text :: "projection \<Rightarrow> string \<Rightarrow> string" where
  "stream_text p stream = (case pj_raw_terminal p of
     None \<Rightarrow> [] | Some t \<Rightarrow> (case t stream of None \<Rightarrow> [] | Some s \<Rightarrow> s))"

definition log_output :: "(time \<Rightarrow> string) \<Rightarrow> (time \<Rightarrow> string) \<Rightarrow> log_event \<Rightarrow> projection \<Rightarrow> projection" where
  "log_output fmt fmtn e p =
     (let stream = fallback_string (le_stream e) ''stdout'' in
      p\<lparr>pj_log_entries := output_entries fmt fmtn e (pj_log_entries p),
        pj_raw_terminal := map_option (\<lambda>t. t(stream \<mapsto> add_line (stream_text p stream) (trim_cr (le_message e))))
          (pj_raw_terminal p),
        pj_executions := update_execution (pj_executions p) (m_execution_id (ev_meta e)) (output_execution fmt e stream)\<rparr>)"

definition apply_log :: "(time \<Rightarrow> string) \<Rightarrow> (time \<Rightarrow> string) \<Rightarrow> log_event \<Rightarrow> projection \<Rightarrow> projection \<times> bool" where
  "apply_log fmt fmtn e p =
     (if trim_space (le_phase e) = ''started'' then (log_started fmt fmtn e p, True)
      else if trim_space (le_phase e) = ''finished'' then (log_finished fmt fmtn e p, True)
      else if trim_space (le_message e) = [] then (p, False)
      else if is_visible_reply e then (log_reply fmt fmtn e p, True)
      else (log_output fmt fmtn e p, True))"

definition error_context :: "(time \<Rightarrow> string) \<Rightarrow> (time \<Rightarrow> string) \<Rightarrow> error_event \<Rightarrow> snapshot_context" where
  "error_context fmt fmtn e = empty_context\<lparr>
     cx_id := first_non_empty_string [m_context_id (ev_meta e), ''error:'' @ fmtn (ev_timestamp e)],
     cx_message := ee_message e, cx_stack := ee_stack e, cx_code := ee_code e,
     cx_target_path := first_non_empty_string [ee_target_path e, m_target_path (ev_meta e)],
     cx_related_step := ee_step e, cx_command := ee_command e, cx_timestamp := fmt (ev_timestamp e),
     cx_title := first_non_empty_string [m_context_title (ev_meta e), ee_message e]\<rparr>"

definition step_context :: "(time \<Rightarrow> string) \<Rightarrow> (time \<Rightarrow> string) \<Rightarrow> step_update_event \<Rightarrow> snapshot_context" where
  "step_context fmt fmtn e = empty_context\<lparr>
     cx_id := first_non_empty_string [m_context_id (ev_meta e), ''step:'' @ fmtn (ev_timestamp e)],
     cx_type := ''step'', cx_message := su_message e, cx_status := su_status e, cx_target := su_target e,
     cx_target_path := first_non_empty_string [m_target_path (ev_meta e), su_target e], cx_tool := su_tool e,
     cx_command := su_command e, cx_timestamp := fmt (ev_timestamp e),
     cx_title := first_non_empty_string [m_context_title (ev_meta e), su_message e, txt_current_step]\<rparr>"

definition event_diff :: "file_diff_event \<Rightarrow> bool \<Rightarrow> diff_context" where
  "event_diff e pending =
     (let m = ev_meta e in
      \<lparr>dx_context_id = first_non_empty_string [m_context_id m, fd_path e, fd_title e],
       dx_title = first_non_empty_string [fd_title e, m_context_title m, txt_recent_change],
       dx_path = first_non_empty_string [fd_path e, m_target_path m], dx_diff = fd_diff e, dx_lang = fd_lang e,
       dx_pending = pending, dx_execution_id = m_execution_id m,
       dx_group_id = first_non_empty_string [m_group_id m, m_execution_id m, m_context_id m, fd_path e],
       dx_group_title = first_non_empty_string [m_group_title m, m_context_title m, fd_title e],
       dx_status = (if pending then ''pending'' else ''accepted'')\<rparr>)"

definition diff_entry :: "(time \<Rightarrow> string) \<Rightarrow> file_diff_event \<Rightarrow> diff_context \<Rightarrow> log_entry" where
  "diff_entry fmt e d = empty_entry\<lparr>ln_kind := ''diff'', ln_context := Some (empty_context\<lparr>
     cx_id := dx_context_id d, cx_path := dx_path d, cx_title := dx_title d, cx_diff := dx_diff d, cx_lang := dx_lang d,
     cx_pending := dx_pending d, cx_timestamp := fmt (ev_timestamp e), cx_source := m_source (ev_meta e),
     cx_skill_name := m_skill_name (ev_meta e), cx_execution_id := dx_execution_id d, cx_group_id := dx_group_id d,
     cx_group_title := dx_group_title d, cx_review_status := dx_status d\<rparr>)\<rparr>"

definition apply_diff :: "(time \<Rightarrow> string) \<Rightarrow> file_diff_event \<Rightarrow> projection \<Rightarrow> projection" where
  "apply_diff fmt e p =
     (let pending = (\<not> should_auto_accept_review [m_permission_mode (ev_meta e),
            m_permission_mode (sn_meta (pj_controller p)), rt_permission_mode (pj_runtime p)]);
          d = event_diff e pending; ds = upsert_diff d (pj_diffs p); gs = rebuild_review_groups ds
      in add_entry (diff_entry fmt e d) (set_current_diff
           (p\<lparr>pj_diffs := ds, pj_review_groups := gs, pj_active_group := pick_active_review_group gs\<rparr>)))"

text \<open>What the metadata of an event says about the runtime; \<open>ls\<close> are the lifecycles that come before the stored one.\<close>

definition take_runtime :: "runtime_meta \<Rightarrow> string list \<Rightarrow> projection \<Rightarrow> projection" where
  "take_runtime m ls p =
     (let r = pj_runtime p; resume = first_non_empty_string [m_resume_session_id m, rt_resume_session_id r] in
      p\<lparr>pj_runtime := r\<lparr>rt_resume_session_id := resume,
        rt_command := first_non_empty_string [m_command m, rt_command r, sn_command (pj_controller p)],
        rt_engine := first_non_empty_string [m_engine m, rt_engine r], rt_cwd := first_non_empty_string [m_cwd m, rt_cwd r],
        rt_permission_mode := first_non_empty_string [m_permission_mode m, rt_permission_mode r],
        rt_lifecycle := normalize_projection_lifecycle (first_non_empty_string (ls @ [rt_lifecycle r]))
          (first_non_empty_string [m_resume_session_id m, resume])\<rparr>\<rparr>)"

definition apply_agent_state :: "agent_state_event \<Rightarrow> projection \<Rightarrow> projection" where
  "apply_agent_state e p =
     (let c = pj_controller p; m = ev_meta e in
      take_runtime m [m_claude_lifecycle m] (p\<lparr>pj_controller := c\<lparr>sn_state := as_state e,
        sn_command := first_non_empty_string [as_command e, sn_command c],
        sn_last_step := first_non_empty_string [as_step e, sn_last_step c],
        sn_last_tool := first_non_empty_string [as_tool e, sn_last_tool c],
        sn_meta := merge_runtime_meta (sn_meta c) m\<rparr>\<rparr>))"

definition apply_prompt :: "prompt_request_event \<Rightarrow> projection \<Rightarrow> projection" where
  "apply_prompt e p =
     (let c = pj_controller p; m = ev_meta e in
      take_runtime m [m_claude_lifecycle m, ''waiting_input'']
        (p\<lparr>pj_controller := c\<lparr>sn_state := state_wait_input, sn_meta := merge_runtime_meta (sn_meta c) m\<rparr>\<rparr>))"

text \<open>\<open>ApplyEventToProjection\<close>; the flag says whether the event belongs in the projection.\<close>

definition apply_event :: "(time \<Rightarrow> string) \<Rightarrow> (time \<Rightarrow> string) \<Rightarrow> projection \<Rightarrow> payload \<Rightarrow> projection \<times> bool" where
  "apply_event fmt fmtn p ev =
     (let p = normalize_projection p in
      case ev of
        EvSessionState e \<Rightarrow> (if ss_message e \<noteq> [] then add_entry (system_entry fmt e) p else p, True)
      | EvLog e \<Rightarrow> apply_log fmt fmtn e p
      | EvError e \<Rightarrow> (let c = error_context fmt fmtn e in
          (add_entry (empty_entry\<lparr>ln_kind := ''error'', ln_context := Some c\<rparr>) (p\<lparr>pj_latest_error := Some c\<rparr>), True))
      | EvStepUpdate e \<Rightarrow> (let c = step_context fmt fmtn e in
          (add_entry (empty_entry\<lparr>ln_kind := ''step'', ln_context := Some c\<rparr>)
             (if \<not> is_terminal_step_status (su_status e) \<and> \<not> is_terminal_step_message (su_message e)
              then p\<lparr>pj_current_step := Some c\<rparr> else p), True))
      | EvFileDiff e \<Rightarrow> (apply_diff fmt e p, True)
      | EvAgentState e \<Rightarrow> (apply_agent_state e p, True)
      | EvPrompt e \<Rightarrow> (apply_prompt e p, True)
      | _ \<Rightarrow> (p, False))"

text \<open>A session's projection: its events applied in order.\<close>

definition apply_events :: "(time \<Rightarrow> string) \<Rightarrow> (time \<Rightarrow> string) \<Rightarrow> payload list \<Rightarrow> projection \<Rightarrow> projection" where
  "apply_events fmt fmtn evs p = foldl (\<lambda>p ev. fst (apply_event fmt fmtn p ev)) p evs"

section \<open>The status shown for an event\<close>

definition is_ai_status_context :: "string \<Rightarrow> runtime_meta \<Rightarrow> projection \<Rightarrow> bool" where
  "is_ai_status_context command m p \<longleftrightarrow>
     is_ai_command command \<or> is_ai_command (m_command m) \<or> is_ai_command (sn_command (pj_controller p)) \<or>
     is_ai_command (rt_command (pj_runtime p)) \<or>
     trim_space (to_lower (first_non_empty_string [m_engine m, m_engine (sn_meta (pj_controller p)), rt_engine (pj_runtime p)]))
       \<in> {''claude'', ''codex'', ''gemini''}"

definition letters :: "string \<Rightarrow> string" where
  "letters s = filter (\<lambda>c. (97 \<le> byte c \<and> byte c \<le> 122) \<or> (65 \<le> byte c \<and> byte c \<le> 90)) s"

definition tool_verbs :: "(string \<times> string) list" where
  "tool_verbs = [(''read'', [CHR 0xE6, CHR 0xAD, CHR 0xA3, CHR 0xE5, CHR 0x9C, CHR 0xA8, CHR 0xE8, CHR 0xAF,
    CHR 0xBB, CHR 0xE5, CHR 0x8F, CHR 0x96]),
     (''write'', [CHR 0xE6, CHR 0xAD, CHR 0xA3, CHR 0xE5, CHR 0x9C, CHR 0xA8, CHR 0xE5, CHR 0x86, CHR 0x99,
       CHR 0xE5, CHR 0x85, CHR 0xA5]),
     (''edit'', [CHR 0xE6, CHR 0xAD, CHR 0xA3, CHR 0xE5, CHR 0x9C, CHR 0xA8, CHR 0xE4, CHR 0xBF, CHR 0xAE,
       CHR 0xE6, CHR 0x94, CHR 0xB9]),
     (''bash'', [CHR 0xE6, CHR 0xAD, CHR 0xA3, CHR 0xE5, CHR 0x9C, CHR 0xA8, CHR 0xE6, CHR 0x89, CHR 0xA7,
       CHR 0xE8, CHR 0xA1, CHR 0x8C, CHR 0xE5, CHR 0x91, CHR 0xBD, CHR 0xE4, CHR 0xBB, CHR 0xA4]),
     (''grep'', [CHR 0xE6, CHR 0xAD, CHR 0xA3, CHR 0xE5, CHR 0x9C, CHR 0xA8, CHR 0xE6, CHR 0x90, CHR 0x9C,
       CHR 0xE7, CHR 0xB4, CHR 0xA2]),
     (''glob'', [CHR 0xE6, CHR 0xAD, CHR 0xA3, CHR 0xE5, CHR 0x9C, CHR 0xA8, CHR 0xE6, CHR 0x9F, CHR 0xA5,
       CHR 0xE6, CHR 0x89, CHR 0xBE, CHR 0xE6, CHR 0x96, CHR 0x87, CHR 0xE4, CHR 0xBB, CHR 0xB6]),
     (''webfetch'', [CHR 0xE6, CHR 0xAD, CHR 0xA3, CHR 0xE5, CHR 0x9C, CHR 0xA8, CHR 0xE6, CHR 0x8A, CHR 0x93,
       CHR 0xE5, CHR 0x8F, CHR 0x96, CHR 0xE7, CHR 0xBD, CHR 0x91, CHR 0xE9, CHR 0xA1, CHR 0xB5]),
     (''websearch'', [CHR 0xE6, CHR 0xAD, CHR 0xA3, CHR 0xE5, CHR 0x9C, CHR 0xA8, CHR 0xE8, CHR 0x81,
       CHR 0x94, CHR 0xE7, CHR 0xBD, CHR 0x91, CHR 0xE6, CHR 0x90, CHR 0x9C, CHR 0xE7, CHR 0xB4, CHR 0xA2]),
     (''agent'', [CHR 0xE6, CHR 0xAD, CHR 0xA3, CHR 0xE5, CHR 0x9C, CHR 0xA8, CHR 0xE6, CHR 0xB4, CHR 0xBE,
       CHR 0xE5, CHR 0x8F, CHR 0x91, CHR 0xE5, CHR 0xAD, CHR 0x90, CHR 0xE4, CHR 0xBB, CHR 0xA3, CHR 0xE7,
       CHR 0x90, CHR 0x86]),
     (''skill'', [CHR 0xE6, CHR 0xAD, CHR 0xA3, CHR 0xE5, CHR 0x9C, CHR 0xA8, CHR 0xE8, CHR 0xB0, CHR 0x83,
       CHR 0xE7, CHR 0x94, CHR 0xA8] @ '' skill'')]"

definition verb_for_tool :: "string \<Rightarrow> string" where
  "verb_for_tool tool = (case map_of tool_verbs (to_lower (letters (trim_space tool))) of Some v \<Rightarrow> v | None \<Rightarrow> [])"

definition normalize_tool_label :: "string \<Rightarrow> string" where
  "normalize_tool_label tool =
     (let t = trim_space tool in
      if t = [] then []
      else case map_of [(''read'', ''Read''), (''write'', ''Write''), (''edit'', ''Edit''), (''bash'', ''Bash'')] (to_lower t) of
        Some l \<Rightarrow> l | None \<Rightarrow> t)"

definition path_base :: "string \<Rightarrow> string" where
  "path_base path =
     (let n = trim_space (map (\<lambda>c. if c = CHR 0x5C then CHR ''/'' else c) path) in
      if n = [] then [] else last (split_on (CHR ''/'') n))"

definition txt_running :: string where "txt_running = [CHR 0xE6, CHR 0x89, CHR 0xA7, CHR 0xE8, CHR 0xA1,
  CHR 0x8C, CHR 0xE4, CHR 0xB8, CHR 0xAD]"
definition txt_in_progress :: string where "txt_in_progress = [CHR 0xE8, CHR 0xBF, CHR 0x90, CHR 0xE8,
  CHR 0xA1, CHR 0x8C, CHR 0xE4, CHR 0xB8, CHR 0xAD]"
definition txt_recovering :: string where "txt_recovering = [CHR 0xE6, CHR 0x81, CHR 0xA2, CHR 0xE5, CHR 0xA4,
  CHR 0x8D, CHR 0xE4, CHR 0xB8, CHR 0xAD]"
definition txt_thinking_now :: string where "txt_thinking_now = [CHR 0xE6, CHR 0x80, CHR 0x9D, CHR 0xE8,
  CHR 0x80, CHR 0x83, CHR 0xE4, CHR 0xB8, CHR 0xAD]"

definition status_label :: "string \<Rightarrow> string \<Rightarrow> string \<Rightarrow> string \<Rightarrow> runtime_meta \<Rightarrow> projection \<Rightarrow> string" where
  "status_label state step tool command m p =
     (let step = trim_space step; verb = verb_for_tool tool;
          target = path_base (first_non_empty_string [m_target_path m, m_target m, m_target_path (sn_meta (pj_controller p))])
      in if step \<noteq> [] \<and> \<not> is_terminal_step_message step then step
         else if verb \<noteq> [] \<and> target \<noteq> [] then verb @ txt_dot @ target
         else if verb \<noteq> [] then verb
         else if normalize_tool_label tool \<noteq> [] \<and> state = state_running_tool
         then txt_running @ txt_dot @ normalize_tool_label tool
         else if command_head command \<noteq> [] \<and> state = state_running_tool
         then txt_running @ txt_dot @ command_head command
         else if state = ''RECOVERING'' then txt_recovering
         else if state = state_running_tool then txt_running
         else if state = ''RUNNING'' then txt_in_progress
         else txt_thinking_now)"

definition new_ai_status_event :: "time \<Rightarrow> string \<Rightarrow> bool \<Rightarrow> string \<Rightarrow> string \<Rightarrow> runtime_meta \<Rightarrow> ai_status_event" where
  "new_ai_status_event now sid visible label phase m =
     (let e = event.extend (new_base_event now ''ai_status'' sid) (ai_status_event.fields visible label phase)
      in e\<lparr>ev_meta := merge_runtime_meta (ev_meta e) m\<rparr>)"

definition build_ai_status ::
  "time \<Rightarrow> string \<Rightarrow> string \<Rightarrow> bool \<Rightarrow> string \<Rightarrow> string \<Rightarrow> string \<Rightarrow> runtime_meta \<Rightarrow> projection \<Rightarrow> ai_status_event" where
  "build_ai_status now sid state await step tool command m p =
     (let state = trim_space (to_upper state); phase = (if to_lower state = [] then ''idle'' else to_lower state) in
      if await \<or> state = state_wait_input then new_ai_status_event now sid False [] ''waiting_input'' m
      else if \<not> is_busy_runtime_state state \<and> state \<noteq> ''RUNNING'' then new_ai_status_event now sid False [] phase m
      else new_ai_status_event now sid True (status_label state step tool command m p) phase m)"

definition ai_status_of_snapshot :: "time \<Rightarrow> string \<Rightarrow> task_snapshot_event \<Rightarrow> projection \<Rightarrow> ai_status_event" where
  "ai_status_of_snapshot now sid e p =
     (let p = normalize_projection p; c = pj_controller p;
          state = trim_space (to_upper (ts_state e)); projected = trim_space (to_upper (sn_state c))
      in if \<not> ts_await_input e \<and> \<not> is_busy_runtime_state state \<and> is_busy_runtime_state projected
         then build_ai_status now sid projected (ts_await_input e) (first_non_empty_string [sn_last_step c, ts_step e])
           (first_non_empty_string [sn_last_tool c, ts_tool e]) (first_non_empty_string [sn_command c, ts_command e])
           (merge_runtime_meta (ev_meta e) (sn_meta c)) p
         else build_ai_status now sid state (ts_await_input e) (ts_step e) (ts_tool e) (ts_command e) (ev_meta e) p)"

text \<open>The status after a change of the session's state; the controller of the service wins when it is busy.\<close>

definition ai_status_of_session :: "time \<Rightarrow> string \<Rightarrow> controller_snapshot option \<Rightarrow> projection \<Rightarrow> session_state_event \<Rightarrow> ai_status_event option" where
  "ai_status_of_session now sid svc p e =
     (let p = normalize_projection p; c = pj_controller p; projected = trim_space (to_upper (sn_state c));
          (m, state, step, tool, command) = (case svc of
              None \<Rightarrow> (sn_meta c, projected, sn_last_step c, sn_last_tool c, sn_command c)
            | Some r \<Rightarrow>
                if is_busy_runtime_state (trim_space (to_upper (sn_state r)))
                then (merge_runtime_meta (sn_meta c) (sn_meta r), trim_space (to_upper (sn_state r)),
                  first_non_empty_string [sn_last_step r, sn_last_step c],
                  first_non_empty_string [sn_last_tool r, sn_last_tool c],
                  first_non_empty_string [sn_command r, sn_command c])
                else (merge_runtime_meta (sn_meta c) (sn_meta r), projected, sn_last_step c, sn_last_tool c, sn_command c));
          state = (if state = [] \<or> \<not> is_busy_runtime_state state then ss_state e else state)
      in if \<not> is_ai_status_context command m p then None
         else Some (build_ai_status now sid state False step tool command m p))"

text \<open>\<open>AIStatusEventForBackendEvent\<close>; the service is given by its controller snapshot.\<close>

definition ai_status_for_event :: "time \<Rightarrow> string \<Rightarrow> controller_snapshot option \<Rightarrow> projection \<Rightarrow> payload \<Rightarrow> ai_status_event option" where
  "ai_status_for_event now sid svc p ev = (case ev of
     EvAgentState e \<Rightarrow>
       if \<not> is_ai_status_context (as_command e) (ev_meta e) p then None
       else Some (build_ai_status now sid (as_state e) (as_await_input e) (as_step e) (as_tool e) (as_command e) (ev_meta e) p)
   | EvTaskSnapshot e \<Rightarrow>
       if \<not> is_ai_status_context (ts_command e) (ev_meta e) p then None else Some (ai_status_of_snapshot now sid e p)
   | EvPrompt _ \<Rightarrow> Some (new_ai_status_event now sid False [] ''waiting_input'' empty_meta)
   | EvInteraction _ \<Rightarrow> Some (new_ai_status_event now sid False [] ''waiting_input'' empty_meta)
   | EvLog e \<Rightarrow>
       if \<not> is_ai_status_context (m_command (ev_meta e)) (ev_meta e) p then None
       else if \<not> is_visible_reply e then None
       else if is_busy_runtime_state (trim_space (to_upper (sn_state (pj_controller p)))) then None
       else if (case svc of Some c \<Rightarrow> is_busy_runtime_state (trim_space (to_upper (sn_state c))) | None \<Rightarrow> False) then None
       else Some (new_ai_status_event now sid False [] ''settled'' (ev_meta e))
   | EvSessionState e \<Rightarrow> ai_status_of_session now sid svc p e
   | _ \<Rightarrow> None)"

section \<open>Lemmas\<close>

lemma normalize_projection_sel [simp]:
  "pj_log_entries (normalize_projection p) = pj_log_entries p" "pj_executions (normalize_projection p) = pj_executions p"
  by (simp_all add: normalize_projection_def normalize_review_eq with_review_def normalize_runtime_def Let_def split: option.split)

lemma normalize_raw: "pj_raw_terminal (normalize_projection p) =
  Some (case pj_raw_terminal p of None \<Rightarrow> empty_streams | Some t \<Rightarrow> t)"
  by (simp add: normalize_projection_def normalize_review_eq with_review_def normalize_runtime_def Let_def split: option.split)

text \<open>When an earlier entry stays although a new reply has come.\<close>

definition entry_kept :: "log_event \<Rightarrow> log_entry \<Rightarrow> bool" where
  "entry_kept e en \<longleftrightarrow>
     entry_elsewhere (trim_space (le_stream e)) (trim_space (m_execution_id (ev_meta e))) en \<or> entry_text en = [] \<or>
     \<not> entry_superseded (normalize_reply (trim_space (le_message e))) en"

lemma drop_superseded_subseq: "subseq (drop_superseded stream exec message found ens) ens"
  by (induction stream exec message found ens rule: drop_superseded.induct) auto

lemma drop_superseded_filter:
  "filter (\<lambda>en. entry_elsewhere stream exec en \<or> entry_text en = [] \<or> \<not> entry_superseded message en)
     (drop_superseded stream exec message found ens) =
   filter (\<lambda>en. entry_elsewhere stream exec en \<or> entry_text en = [] \<or> \<not> entry_superseded message en) ens"
  by (induction stream exec message found ens rule: drop_superseded.induct) auto

lemma subseq_rev: "subseq xs ys \<Longrightarrow> subseq (rev xs) (rev ys)"
  by (induction rule: list_emb.induct) (auto intro: list_emb_append_mono)

lemma remove_superseded_subseq: "subseq (remove_superseded ens e) ens"
  using subseq_rev [OF drop_superseded_subseq [where ens = "rev ens"]] by (simp add: remove_superseded_def)

lemma remove_superseded_filter: "filter (entry_kept e) (remove_superseded ens e) = filter (entry_kept e) ens"
proof (cases "trim_space (le_message e) = [] \<or> ens = []")
  case False
  then show ?thesis
    unfolding remove_superseded_def entry_kept_def
    by (simp add: rev_filter [symmetric] drop_superseded_filter)
qed (simp add: remove_superseded_def)

lemma remove_superseded_last:
  assumes "\<not> entry_kept e en" and "trim_space (le_message e) \<noteq> []"
  shows "subseq (remove_superseded (ens @ [en]) e) ens"
proof -
  have "\<not> entry_elsewhere (trim_space (le_stream e)) (trim_space (m_execution_id (ev_meta e))) en" "entry_text en \<noteq> []"
    "entry_superseded (normalize_reply (trim_space (le_message e))) en"
    using assms(1) by (auto simp: entry_kept_def)
  then have "rev (remove_superseded (ens @ [en]) e) = drop_superseded (trim_space (le_stream e))
      (trim_space (m_execution_id (ev_meta e))) (normalize_reply (trim_space (le_message e))) True (rev ens)"
    using assms(2) by (simp add: remove_superseded_def)
  then have "subseq (rev (remove_superseded (ens @ [en]) e)) (rev ens)"
    using drop_superseded_subseq by metis
  from subseq_rev [OF this] show ?thesis
    by simp
qed

text \<open>Logs that are shown as a reply of the assistant.\<close>

definition reply_log :: "log_event \<Rightarrow> bool" where
  "reply_log e \<longleftrightarrow> trim_space (le_phase e) \<notin> {''started'', ''finished''} \<and> trim_space (le_message e) \<noteq> [] \<and> is_visible_reply e"

lemma apply_reply:
  "reply_log e \<Longrightarrow> pj_log_entries (fst (apply_event fmt fmtn p (EvLog e))) =
     remove_superseded (pj_log_entries p) e @ [markdown_entry fmt fmtn e]"
  by (simp add: apply_event_def apply_log_def log_reply_def reply_log_def Let_def)

lemma markdown_entry_kept:
  "entry_kept e (markdown_entry fmt fmtn e') \<longleftrightarrow>
     entry_elsewhere (trim_space (le_stream e)) (trim_space (m_execution_id (ev_meta e))) (markdown_entry fmt fmtn e') \<or>
     trim_space (le_message e') = [] \<or>
     \<not> entry_superseded (normalize_reply (trim_space (le_message e))) (markdown_entry fmt fmtn e')"
  by (simp add: entry_kept_def entry_text_def markdown_entry_def terminal_entry_def)

text \<open>
  A reply of the assistant in the stored log: it becomes the last entry, and of the entries before it exactly some
  disappear that are output or replies of the same stream and execution and whose text the new reply contains; in
  particular the reply it continues, when that was the last entry, is gone.
\<close>

theorem reply_replaces_contained:
  assumes "reply_log e"
  shows "(\<exists>kept. pj_log_entries (fst (apply_event fmt fmtn p (EvLog e))) = kept @ [markdown_entry fmt fmtn e] \<and>
      subseq kept (pj_log_entries p) \<and> filter (entry_kept e) kept = filter (entry_kept e) (pj_log_entries p)) \<and>
    (\<forall>e'. reply_log e' \<and> \<not> entry_kept e (markdown_entry fmt fmtn e') \<longrightarrow>
      (\<exists>kept. pj_log_entries (apply_events fmt fmtn [EvLog e', EvLog e] p) = kept @ [markdown_entry fmt fmtn e] \<and>
        subseq kept (pj_log_entries p)))"
proof (intro conjI allI impI)
  show "\<exists>kept. pj_log_entries (fst (apply_event fmt fmtn p (EvLog e))) = kept @ [markdown_entry fmt fmtn e] \<and>
      subseq kept (pj_log_entries p) \<and> filter (entry_kept e) kept = filter (entry_kept e) (pj_log_entries p)"
    using assms apply_reply remove_superseded_subseq remove_superseded_filter by blast
  fix e'
  assume e': "reply_log e' \<and> \<not> entry_kept e (markdown_entry fmt fmtn e')"
  let ?kept = "remove_superseded (remove_superseded (pj_log_entries p) e' @ [markdown_entry fmt fmtn e']) e"
  have "pj_log_entries (apply_events fmt fmtn [EvLog e', EvLog e] p) = ?kept @ [markdown_entry fmt fmtn e]"
    using e' assms by (simp add: apply_events_def apply_reply)
  moreover have "subseq ?kept (remove_superseded (pj_log_entries p) e')"
    using e' assms by (intro remove_superseded_last) (auto simp: reply_log_def)
  then have "subseq ?kept (pj_log_entries p)"
    using remove_superseded_subseq subseq_order.trans by blast
  ultimately show "\<exists>kept. pj_log_entries (apply_events fmt fmtn [EvLog e', EvLog e] p) = kept @ [markdown_entry fmt fmtn e] \<and>
      subseq kept (pj_log_entries p)"
    by blast
qed

definition demo_reply :: "string \<Rightarrow> log_event" where
  "demo_reply message = event.extend ((new_base_event 1 ''log'' ''s'')\<lparr>ev_meta := empty_meta\<lparr>m_source := ''claude/assistant''\<rparr>\<rparr>)
     (log_event.fields message ''stdout'' [] None)"

lemma reply_replaces_contained_witness:
  "reply_log (demo_reply ''Hello you'') \<and>
   pj_log_entries (apply_events (\<lambda>_. []) (\<lambda>_. []) [EvLog (demo_reply ''Hello''), EvLog (demo_reply ''Hello you'')] empty_projection) =
     [markdown_entry (\<lambda>_. []) (\<lambda>_. []) (demo_reply ''Hello you'')]"
proof -
  let ?f = "\<lambda>_::time. []::string"
  have replies: "reply_log (demo_reply ''Hello'')" "reply_log (demo_reply ''Hello you'')"
    "\<not> entry_kept (demo_reply ''Hello you'') (markdown_entry ?f ?f (demo_reply ''Hello''))"
    by code_simp+
  have "pj_log_entries empty_projection = []"
    by (simp add: empty_projection_def)
  then have "\<exists>kept. pj_log_entries (apply_events ?f ?f [EvLog (demo_reply ''Hello''), EvLog (demo_reply ''Hello you'')] empty_projection) =
      kept @ [markdown_entry ?f ?f (demo_reply ''Hello you'')] \<and> subseq kept []"
    using reply_replaces_contained [OF replies(2), of ?f ?f empty_projection] replies by metis
  then show ?thesis
    using replies(2) by auto
qed

subsection \<open>What stays consistent\<close>

text \<open>
  The review part of a projection agrees with its diffs, and its executions have distinct identifiers that are
  not blank.
\<close>

definition projection_ok :: "projection \<Rightarrow> bool" where
  "projection_ok p \<longleftrightarrow> pj_review_groups p = rebuild_review_groups (pj_diffs p) \<and>
     pj_active_group p = pick_active_review_group (pj_review_groups p) \<and>
     (pj_diffs p = [] \<longrightarrow> pj_current_diff p = None) \<and>
     (shown (pick_active (pj_diffs p)) \<longrightarrow> pj_current_diff p = Some (pick_active (pj_diffs p))) \<and>
     distinct (map tx_id (pj_executions p)) \<and> list_all (\<lambda>x. trim_space (tx_id x) \<noteq> []) (pj_executions p)"

lemma normalize_projection_review:
  "pj_diffs (normalize_projection p) = reviewed_diffs p"
  "pj_review_groups (normalize_projection p) = reviewed_groups p"
  "pj_active_group (normalize_projection p) = (case pick_active_review_group (reviewed_groups p) of None \<Rightarrow> pj_active_group p | Some g \<Rightarrow> Some g)"
  "pj_current_diff (normalize_projection p) = (if shown (pick_active (reviewed_diffs p)) then Some (pick_active (reviewed_diffs p)) else pj_current_diff p)"
proof -
  obtain q where q: "normalize_projection p = normalize_review q" "pj_diffs q = pj_diffs p" "pj_review_groups q = pj_review_groups p"
    "pj_active_group q = pj_active_group p" "pj_current_diff q = pj_current_diff p"
    by (auto simp: normalize_projection_def normalize_runtime_def Let_def split: option.split)
  then have "reviewed_diffs q = reviewed_diffs p" "reviewed_groups q = reviewed_groups p"
    by (simp_all add: reviewed_diffs_def reviewed_groups_def)
  then show "pj_diffs (normalize_projection p) = reviewed_diffs p"
    "pj_review_groups (normalize_projection p) = reviewed_groups p"
    "pj_active_group (normalize_projection p) = (case pick_active_review_group (reviewed_groups p) of None \<Rightarrow> pj_active_group p | Some g \<Rightarrow> Some g)"
    "pj_current_diff (normalize_projection p) = (if shown (pick_active (reviewed_diffs p)) then Some (pick_active (reviewed_diffs p)) else pj_current_diff p)"
    unfolding q(1) normalize_review_eq with_review_def by (simp_all add: q split: option.split)
qed

lemma normalize_projection_ok:
  assumes "projection_ok p"
  shows "projection_ok (normalize_projection p)"
proof -
  have ds: "reviewed_diffs p = pj_diffs p"
    using assms by (auto simp: reviewed_diffs_def projection_ok_def)
  then have gs: "reviewed_groups p = rebuild_review_groups (pj_diffs p)"
    using assms by (auto simp: reviewed_groups_def projection_ok_def)
  have "(case pick_active_review_group (rebuild_review_groups (pj_diffs p)) of None \<Rightarrow> pj_active_group p | Some g \<Rightarrow> Some g) =
      pick_active_review_group (rebuild_review_groups (pj_diffs p))"
    using assms by (auto simp: projection_ok_def split: option.split)
  then show ?thesis
    using assms by (auto simp: projection_ok_def normalize_projection_review ds gs)
qed

lemma upsert_first_ids:
  assumes "distinct (map tx_id xs)" and "list_all (\<lambda>x. trim_space (tx_id x) \<noteq> []) xs" and "trim_space i \<noteq> []"
    and "\<And>x. tx_id x = i \<Longrightarrow> tx_id (f x) = i" and "tx_id y = i"
  shows "distinct (map tx_id (upsert_first (\<lambda>x. tx_id x = i) f y xs)) \<and>
    list_all (\<lambda>x. trim_space (tx_id x) \<noteq> []) (upsert_first (\<lambda>x. tx_id x = i) f y xs) \<and>
    set (map tx_id (upsert_first (\<lambda>x. tx_id x = i) f y xs)) = insert i (set (map tx_id xs))"
  using assms(1,2)
proof (induction xs)
  case (Cons x xs)
  then show ?case
    using assms(3-5) by auto
qed (use assms(3-5) in simp)

definition executions_ok :: "terminal_execution list \<Rightarrow> bool" where
  "executions_ok xs \<longleftrightarrow> distinct (map tx_id xs) \<and> list_all (\<lambda>x. trim_space (tx_id x) \<noteq> []) xs"

lemma append_stream_id [simp]: "tx_id (append_execution_stream stream text x) = tx_id x"
  by (simp add: append_execution_stream_def)

lemma upsert_execution_ok: "executions_ok xs \<Longrightarrow> executions_ok (upsert_execution xs new)"
  using upsert_first_ids [of xs "tx_id new" "merge_execution new" new]
  by (auto simp: executions_ok_def upsert_execution_def merge_execution_def)

lemma update_execution_ok:
  assumes "executions_ok xs" and "\<And>x. tx_id x = i \<Longrightarrow> tx_id (f x) = i"
  shows "executions_ok (update_execution xs i f)"
  using assms upsert_first_ids [of xs i f "f (empty_execution i)"]
  by (auto simp: executions_ok_def update_execution_def empty_execution_def)

lemma projection_ok_same:
  assumes "projection_ok p" and "pj_diffs q = pj_diffs p" and "pj_review_groups q = pj_review_groups p"
    and "pj_active_group q = pj_active_group p" and "pj_current_diff q = pj_current_diff p"
    and "executions_ok (pj_executions p) \<Longrightarrow> executions_ok (pj_executions q)"
  shows "projection_ok q"
  using assms by (auto simp: projection_ok_def executions_ok_def)

lemma apply_log_ok: "projection_ok p \<Longrightarrow> projection_ok (fst (apply_log fmt fmtn e p))"
proof -
  assume ok: "projection_ok p"
  have "projection_ok (log_started fmt fmtn e p)" "projection_ok (log_reply fmt fmtn e p)"
    by (rule projection_ok_same [OF ok];
        simp add: log_started_def log_reply_def add_entry_def Let_def upsert_execution_ok)+
  moreover have "projection_ok (log_finished fmt fmtn e p)" "projection_ok (log_output fmt fmtn e p)"
    by (rule projection_ok_same [OF ok]; auto simp: log_finished_def log_output_def add_entry_def Let_def
          output_execution_def fill_def intro!: update_execution_ok)+
  ultimately show ?thesis
    using ok by (simp add: apply_log_def)
qed

lemma apply_diff_ok:
  assumes "projection_ok p"
  shows "projection_ok (apply_diff fmt e p)"
proof -
  have "upsert_diff d ds \<noteq> []" for d ds
    using upsert_diff_mem [of d ds] by auto
  then show ?thesis
    using assms by (auto simp: projection_ok_def apply_diff_def set_current_diff_def add_entry_def Let_def)
qed

lemma apply_event_ok:
  assumes "projection_ok p"
  shows "projection_ok (fst (apply_event fmt fmtn p ev))"
proof -
  have n: "projection_ok (normalize_projection p)"
    by (rule normalize_projection_ok [OF assms])
  show ?thesis
  proof (cases ev)
    case (EvLog e)
    then show ?thesis
      using apply_log_ok [OF n] by (simp add: apply_event_def)
  next
    case (EvFileDiff e)
    then show ?thesis
      using apply_diff_ok [OF n] by (simp add: apply_event_def)
  next
    case (EvAgentState e)
    moreover have "projection_ok (apply_agent_state e (normalize_projection p))"
      by (rule projection_ok_same [OF n]) (simp_all add: apply_agent_state_def take_runtime_def Let_def executions_ok_def)
    ultimately show ?thesis
      by (simp add: apply_event_def)
  next
    case (EvPrompt e)
    moreover have "projection_ok (apply_prompt e (normalize_projection p))"
      by (rule projection_ok_same [OF n]) (simp_all add: apply_prompt_def take_runtime_def Let_def executions_ok_def)
    ultimately show ?thesis
      by (simp add: apply_event_def)
  next
    case (EvSessionState e)
    moreover have "projection_ok (add_entry (system_entry fmt e) (normalize_projection p))"
      by (rule projection_ok_same [OF n]) (simp_all add: add_entry_def executions_ok_def)
    ultimately show ?thesis
      using n by (simp add: apply_event_def Let_def)
  next
    case (EvError e)
    moreover have "projection_ok (add_entry en ((normalize_projection p)\<lparr>pj_latest_error := c\<rparr>))" for en c
      by (rule projection_ok_same [OF n]) (simp_all add: add_entry_def executions_ok_def)
    ultimately show ?thesis
      by (simp add: apply_event_def Let_def)
  next
    case (EvStepUpdate e)
    moreover have "projection_ok (add_entry en ((normalize_projection p)\<lparr>pj_current_step := c\<rparr>))"
      "projection_ok (add_entry en (normalize_projection p))" for en c
      by (rule projection_ok_same [OF n]; simp add: add_entry_def executions_ok_def)+
    ultimately show ?thesis
      by (simp add: apply_event_def Let_def)
  qed (simp_all add: apply_event_def n)
qed

lemma apply_events_snoc:
  "apply_events fmt fmtn (evs @ [ev]) p = fst (apply_event fmt fmtn (apply_events fmt fmtn evs p) ev)"
  by (simp add: apply_events_def)

text \<open>
  C22: Whatever events a session has, its projection stays consistent: the review groups are those of its diffs, the
  active group is the newest pending group (or the newest), the current diff is the newest pending diff, and the
  terminal executions have distinct identifiers that are not blank.
\<close>

theorem projection_follows_events:
  "projection_ok (apply_events fmt fmtn evs empty_projection)"
proof (induction evs rule: rev_induct)
  case Nil
  then show ?case
    by (simp add: apply_events_def projection_ok_def empty_projection_def pick_active_review_group_def pick_active_def)
next
  case (snoc ev evs)
  then show ?case
    by (simp add: apply_events_snoc apply_event_ok)
qed

subsection \<open>The status shown\<close>

lemma new_ai_status_sel [simp]:
  "ai_visible (new_ai_status_event now sid v l ph m) = v" "ai_label (new_ai_status_event now sid v l ph m) = l"
  "ai_phase (new_ai_status_event now sid v l ph m) = ph"
  by (simp_all add: new_ai_status_event_def Let_def event.defs ai_status_event.defs)

lemma txt_nonempty: "txt_running \<noteq> []" "txt_recovering \<noteq> []" "txt_in_progress \<noteq> []" "txt_thinking_now \<noteq> []"
  by (simp_all add: txt_running_def txt_recovering_def txt_in_progress_def txt_thinking_now_def)

lemma if_nonempty: "(c \<Longrightarrow> xs \<noteq> []) \<Longrightarrow> (\<not> c \<Longrightarrow> ys \<noteq> []) \<Longrightarrow> (if c then xs else ys) \<noteq> []"
  by simp

lemma status_label_nonempty: "status_label state step tool command m p \<noteq> []"
  unfolding status_label_def Let_def by (intro if_nonempty) (simp_all only: txt_nonempty append_is_Nil_conv simp_thms)

lemma upper_lower_char: "upper_char (lower_char c) = upper_char c"
  by (auto simp: upper_char_def lower_char_def byte_def)

lemma busy_to_lower [simp]: "is_busy_runtime_state (to_lower s) = is_busy_runtime_state s"
proof -
  have "to_upper (to_lower s) = to_upper s"
    by (simp add: to_upper_def to_lower_def upper_lower_char)
  then show ?thesis
    by (simp add: is_busy_runtime_state_def)
qed

lemma not_busy: "\<not> is_busy_runtime_state ''waiting_input''" "\<not> is_busy_runtime_state ''settled''"
  "\<not> is_busy_runtime_state ''idle''" "\<not> is_busy_runtime_state []"
  by code_simp+

definition status_consistent :: "ai_status_event \<Rightarrow> bool" where
  "status_consistent s \<longleftrightarrow> (ai_visible s \<longleftrightarrow> is_busy_runtime_state (ai_phase s)) \<and> (ai_visible s \<longleftrightarrow> ai_label s \<noteq> [])"

lemma hidden_consistent: "\<not> is_busy_runtime_state ph \<Longrightarrow> status_consistent (new_ai_status_event now sid False [] ph m)"
  by (simp add: status_consistent_def)

lemma build_ai_status_consistent: "status_consistent (build_ai_status now sid state await step tool command m p)"
proof -
  define st where "st = trim_space (to_upper state)"
  define ph where "ph = (if to_lower st = [] then ''idle'' else to_lower st)"
  have busy: "is_busy_runtime_state ph = is_busy_runtime_state st"
    using not_busy by (auto simp: ph_def)
  have running: "is_busy_runtime_state ''RUNNING''"
    by code_simp
  have "build_ai_status now sid state await step tool command m p =
      (if await \<or> st = state_wait_input then new_ai_status_event now sid False [] ''waiting_input'' m
       else if \<not> is_busy_runtime_state st \<and> st \<noteq> ''RUNNING'' then new_ai_status_event now sid False [] ph m
       else new_ai_status_event now sid True (status_label st step tool command m p) ph m)"
    by (simp add: build_ai_status_def Let_def st_def ph_def)
  moreover have "status_consistent (new_ai_status_event now sid True (status_label st step tool command m p) ph m)"
    if "is_busy_runtime_state st"
    using that busy by (simp add: status_consistent_def status_label_nonempty)
  ultimately show ?thesis
    using busy running not_busy(1) hidden_consistent by auto
qed

text \<open>
  The status shown for an event: it is visible exactly in the busy phases, exactly then it has a label, and a
  reply of the assistant never ends it while the controller of the runtime is still busy.
\<close>

theorem status_shown_when_busy:
  "(case ai_status_for_event now sid svc p ev of None \<Rightarrow> True
    | Some s \<Rightarrow> ai_visible s = is_busy_runtime_state (ai_phase s) \<and> ai_visible s = (ai_label s \<noteq> [])) \<and>
   (case (ev, svc) of
      (EvLog e, Some c) \<Rightarrow>
        if is_busy_runtime_state (trim_space (to_upper (sn_state c))) then ai_status_for_event now sid svc p ev = None else True
    | _ \<Rightarrow> True)"
proof -
  have "case ai_status_for_event now sid svc p ev of None \<Rightarrow> True | Some s \<Rightarrow> status_consistent s"
  proof (cases ev)
    case (EvSessionState e)
    then show ?thesis
      by (auto simp: ai_status_for_event_def ai_status_of_session_def Let_def build_ai_status_consistent split: prod.split)
  qed (auto simp: ai_status_for_event_def ai_status_of_snapshot_def build_ai_status_consistent hidden_consistent not_busy Let_def)
  then have "case ai_status_for_event now sid svc p ev of None \<Rightarrow> True
      | Some s \<Rightarrow> ai_visible s = is_busy_runtime_state (ai_phase s) \<and> ai_visible s = (ai_label s \<noteq> [])"
    unfolding status_consistent_def .
  moreover have "case (ev, svc) of
      (EvLog e, Some c) \<Rightarrow>
        if is_busy_runtime_state (trim_space (to_upper (sn_state c))) then ai_status_for_event now sid svc p ev = None else True
    | _ \<Rightarrow> True"
    by (cases ev; cases svc) (simp_all add: ai_status_for_event_def)
  ultimately show ?thesis
    by blast
qed

subsection \<open>Terminal output\<close>

definition output_log :: "log_event \<Rightarrow> bool" where
  "output_log e \<longleftrightarrow> trim_space (le_phase e) \<notin> {''started'', ''finished''} \<and> trim_space (le_message e) \<noteq> [] \<and> \<not> is_visible_reply e"

lemma stream_text_normalize [simp]: "stream_text (normalize_projection p) stream = stream_text p stream"
  by (simp add: stream_text_def normalize_raw empty_streams_def split: option.split)

lemma apply_output:
  assumes "output_log e"
  shows "pj_log_entries (fst (apply_event fmt fmtn p (EvLog e))) = output_entries fmt fmtn e (pj_log_entries p)"
    and "stream_text (fst (apply_event fmt fmtn p (EvLog e))) (fallback_string (le_stream e) ''stdout'') =
      add_line (stream_text p (fallback_string (le_stream e) ''stdout'')) (trim_cr (le_message e))"
    and "pj_executions (fst (apply_event fmt fmtn p (EvLog e))) =
      update_execution (pj_executions p) (m_execution_id (ev_meta e)) (output_execution fmt e (fallback_string (le_stream e) ''stdout''))"
proof -
  have q: "fst (apply_event fmt fmtn p (EvLog e)) = log_output fmt fmtn e (normalize_projection p)"
    using assms by (simp add: apply_event_def apply_log_def output_log_def)
  show "pj_log_entries (fst (apply_event fmt fmtn p (EvLog e))) = output_entries fmt fmtn e (pj_log_entries p)"
    "pj_executions (fst (apply_event fmt fmtn p (EvLog e))) =
      update_execution (pj_executions p) (m_execution_id (ev_meta e)) (output_execution fmt e (fallback_string (le_stream e) ''stdout''))"
    unfolding q by (simp_all add: log_output_def Let_def)
  have "stream_text (log_output fmt fmtn e n) st = add_line (stream_text n st) (trim_cr (le_message e))"
    if "pj_raw_terminal n = Some t" "st = fallback_string (le_stream e) ''stdout''" for n t st
    using that by (simp add: log_output_def Let_def stream_text_def)
  from this [OF normalize_raw refl] show "stream_text (fst (apply_event fmt fmtn p (EvLog e))) (fallback_string (le_stream e) ''stdout'') =
      add_line (stream_text p (fallback_string (le_stream e) ''stdout'')) (trim_cr (le_message e))"
    unfolding q by simp
qed

lemma space_len_cr: "space_len (CHR 0x0D # s) = 1"
  by (cases s rule: space_len.cases) (auto simp: ascii_space_def byte_def)

lemma trim_cr_nonempty: "trim_space s \<noteq> [] \<Longrightarrow> trim_cr s \<noteq> []"
proof (rule ccontr)
  assume "trim_space s \<noteq> []" and "\<not> trim_cr s \<noteq> []"
  then have "\<forall>c\<in>set s. c = CHR 0x0D"
    by (simp add: trim_cr_def)
  then have "trim_left s = []"
    by (induction s) (simp_all add: trim_left_unfold space_len_cr)
  with \<open>trim_space s \<noteq> []\<close> show False
    by (simp add: trim_space_def trim_right_def trim_rev.simps)
qed

lemma join_snoc: "join sep (ws @ [w]) = (if ws = [] then w else join sep ws @ sep @ w)"
  by (induction sep ws rule: join.induct) auto

lemma join_nonempty: "ws \<noteq> [] \<Longrightarrow> \<forall>w\<in>set ws. w \<noteq> [] \<Longrightarrow> join sep ws \<noteq> []"
  by (cases "(sep, ws)" rule: join.cases) auto

lemma add_line_join:
  "\<forall>w\<in>set ws. w \<noteq> [] \<Longrightarrow> add_line (join newline ws) w = join newline (ws @ [w])"
  using join_nonempty [of ws newline] by (cases "ws = []") (auto simp: add_line_def join_snoc)

text \<open>The output of an execution in one stream.\<close>

definition output_of :: "string \<Rightarrow> terminal_execution \<Rightarrow> string" where
  "output_of stream x = (if stream = ''stderr'' then tx_stderr x else tx_stdout x)"

lemma output_execution_of:
  "trim_cr (le_message e) \<noteq> [] \<Longrightarrow>
     output_of stream (output_execution fmt e stream x) = add_line (output_of stream x) (trim_cr (le_message e))"
  "tx_id x \<noteq> [] \<Longrightarrow> tx_id (output_execution fmt e stream x) = tx_id x"
  by (simp_all add: output_of_def output_execution_def append_execution_stream_def fill_def)

text \<open>What the records of the output \<open>ws\<close> are.\<close>

definition recorded :: "string \<Rightarrow> string \<Rightarrow> string \<Rightarrow> string list \<Rightarrow> projection \<Rightarrow> bool" where
  "recorded stream i ph ws p \<longleftrightarrow> (\<exists>x en. pj_executions p = [x] \<and> tx_id x = i \<and>
     output_of (fallback_string stream ''stdout'') x = join newline ws \<and>
     pj_log_entries p = [en] \<and> ln_kind en = ''terminal'' \<and> ln_stream en = stream \<and> ln_execution_id en = i \<and>
     ln_phase en = ph \<and> ln_text en = join newline ws) \<and>
     stream_text p (fallback_string stream ''stdout'') = join newline ws"

definition output_of_execution :: "string \<Rightarrow> string \<Rightarrow> string \<Rightarrow> log_event \<Rightarrow> bool" where
  "output_of_execution stream i ph e \<longleftrightarrow>
     output_log e \<and> le_stream e = stream \<and> m_execution_id (ev_meta e) = i \<and> trim_space (le_phase e) = ph"

lemma recorded_first:
  assumes "output_of_execution stream i ph e" and "trim_space i \<noteq> []"
  shows "recorded stream i ph [trim_cr (le_message e)] (fst (apply_event fmt fmtn empty_projection (EvLog e)))"
proof -
  let ?st = "fallback_string stream ''stdout''"
  have e: "output_log e" "le_stream e = stream" "m_execution_id (ev_meta e) = i" "trim_space (le_phase e) = ph"
    using assms(1) by (simp_all add: output_of_execution_def)
  have ne: "trim_cr (le_message e) \<noteq> []" "i \<noteq> []"
    using e(1) assms(2) trim_cr_nonempty by (auto simp: output_log_def)
  have start: "pj_executions empty_projection = []" "pj_log_entries empty_projection = []" "stream_text empty_projection ?st = []"
    by (simp_all add: empty_projection_def stream_text_def)
  have id: "tx_id (empty_execution i) = i" "output_of ?st (empty_execution i) = []"
    by (simp_all add: empty_execution_def output_of_def)
  have x: "tx_id (output_execution fmt e ?st (empty_execution i)) = i"
    "output_of ?st (output_execution fmt e ?st (empty_execution i)) = trim_cr (le_message e)"
    using ne id by (simp_all add: output_execution_of add_line_def)
  show ?thesis
    using e x apply_output [OF e(1), of fmt fmtn empty_projection]
    by (simp add: recorded_def start update_execution_def assms(2) output_entries_def terminal_entry_def add_line_def)
qed

lemma recorded_next:
  assumes "output_of_execution stream i ph e" and "trim_space i \<noteq> []" and "recorded stream i ph ws p" and "\<forall>w\<in>set ws. w \<noteq> []"
  shows "recorded stream i ph (ws @ [trim_cr (le_message e)]) (fst (apply_event fmt fmtn p (EvLog e)))"
proof -
  let ?st = "fallback_string stream ''stdout''"
  let ?text = "join newline (ws @ [trim_cr (le_message e)])"
  have e: "output_log e" "le_stream e = stream" "m_execution_id (ev_meta e) = i" "trim_space (le_phase e) = ph"
    using assms(1) by (simp_all add: output_of_execution_def)
  have ne: "trim_cr (le_message e) \<noteq> []" "i \<noteq> []"
    using e(1) assms(2) trim_cr_nonempty by (auto simp: output_log_def)
  obtain x en where p: "pj_executions p = [x]" "tx_id x = i" "output_of ?st x = join newline ws" "pj_log_entries p = [en]"
    "ln_kind en = ''terminal''" "ln_stream en = stream" "ln_execution_id en = i" "ln_phase en = ph" "ln_text en = join newline ws"
    "stream_text p ?st = join newline ws"
    using assms(3) by (auto simp: recorded_def)
  have joined: "add_line (join newline ws) (trim_cr (le_message e)) = ?text"
    by (rule add_line_join [OF assms(4)])
  note q = apply_output [OF e(1), of fmt fmtn p]
  have "pj_executions (fst (apply_event fmt fmtn p (EvLog e))) = [output_execution fmt e ?st x]"
    unfolding q(3) e(2,3) by (simp add: p(1,2) update_execution_def assms(2))
  moreover have "tx_id (output_execution fmt e ?st x) = i" "output_of ?st (output_execution fmt e ?st x) = ?text"
    using ne by (simp_all add: output_execution_of p(2,3) joined)
  moreover have "\<exists>en'. pj_log_entries (fst (apply_event fmt fmtn p (EvLog e))) = [en'] \<and> ln_kind en' = ''terminal'' \<and>
      ln_stream en' = stream \<and> ln_execution_id en' = i \<and> ln_phase en' = ph \<and> ln_text en' = ?text"
    unfolding q(1) by (simp add: output_entries_def same_output_def p e joined)
  moreover have "stream_text (fst (apply_event fmt fmtn p (EvLog e))) ?st = ?text"
    using q(2) by (simp add: e(2) p(10) joined)
  ultimately show ?thesis
    unfolding recorded_def by blast
qed

text \<open>
  The output of one execution in one stream is recorded three times, and the records agree: the raw terminal of
  the stream, the execution's own text and the single log entry all hold the messages in order, one below the
  other, without their leading carriage returns.
\<close>

theorem terminal_output_recorded:
  assumes "es \<noteq> []" and "trim_space i \<noteq> []" and "\<forall>e\<in>set es. output_of_execution stream i ph e"
  shows "recorded stream i ph (map (\<lambda>e. trim_cr (le_message e)) es) (apply_events fmt fmtn (map EvLog es) empty_projection)"
  using assms(1,3)
proof (induction es rule: rev_nonempty_induct)
  case (single e)
  then show ?case
    using recorded_first assms(2) by (simp add: apply_events_def)
next
  case (snoc e es)
  have "\<forall>w\<in>set (map (\<lambda>e. trim_cr (le_message e)) es). w \<noteq> []"
    using snoc.prems trim_cr_nonempty by (auto simp: output_of_execution_def output_log_def)
  then show ?case
    using recorded_next [OF _ assms(2)] snoc by (simp add: apply_events_snoc)
qed

definition demo_output :: "string \<Rightarrow> log_event" where
  "demo_output message = event.extend ((new_base_event 1 ''log'' ''s'')\<lparr>ev_meta := empty_meta\<lparr>m_execution_id := ''x''\<rparr>\<rparr>)
     (log_event.fields message ''stdout'' [] None)"

lemma terminal_output_recorded_witness:
  "stream_text (apply_events (\<lambda>_. []) (\<lambda>_. []) [EvLog (demo_output ''one''), EvLog (demo_output ''two'')] empty_projection) ''stdout'' =
     ''one'' @ newline @ ''two''"
proof -
  have outputs: "output_of_execution ''stdout'' ''x'' [] (demo_output ''one'')"
    "output_of_execution ''stdout'' ''x'' [] (demo_output ''two'')" "trim_space ''x'' \<noteq> []"
    "map (\<lambda>e. trim_cr (le_message e)) [demo_output ''one'', demo_output ''two''] = [''one'', ''two'']"
    "fallback_string ''stdout'' ''stdout'' = ''stdout''"
    by code_simp+
  have "recorded ''stdout'' ''x'' [] (map (\<lambda>e. trim_cr (le_message e)) [demo_output ''one'', demo_output ''two''])
      (apply_events (\<lambda>_. []) (\<lambda>_. []) (map EvLog [demo_output ''one'', demo_output ''two'']) empty_projection)"
    using outputs(1-3) by (intro terminal_output_recorded) simp_all
  then show ?thesis
    unfolding outputs(4) by (simp add: recorded_def outputs(5))
qed

end
