(* ===== verification/ProjectionEvents.thy ===== *)
theory ProjectionEvents
  imports ProjectionApply
begin

text \<open>
  What a client is sent of a projection (\<open>session/projection_events.go\<close>): the whole history, the part it does not
  have yet, and the state of the agent when a session is restored. The wire types of \<open>protocol/event.go\<close> are
  records of their own; \<open>fmt\<close> is \<open>Time.Format\<close> with the layout RFC3339.
\<close>

section \<open>Wire types\<close>

record history_context =
  hc_id :: string
  hc_type :: string
  hc_message :: string
  hc_status :: string
  hc_target :: string
  hc_target_path :: string
  hc_tool :: string
  hc_command :: string
  hc_timestamp :: string
  hc_title :: string
  hc_stack :: string
  hc_code :: string
  hc_related_step :: string
  hc_path :: string
  hc_diff :: string
  hc_lang :: string
  hc_pending :: bool
  hc_source :: string
  hc_skill_name :: string
  hc_execution_id :: string
  hc_group_id :: string
  hc_group_title :: string
  hc_review_status :: string

record wire_review_file =
  wf_id :: string
  wf_path :: string
  wf_title :: string
  wf_diff :: string
  wf_lang :: string
  wf_pending :: bool
  wf_status :: string
  wf_execution_id :: string

record wire_review_group =
  wg_id :: string
  wg_title :: string
  wg_execution_id :: string
  wg_pending :: bool
  wg_status :: string
  wg_current_file_id :: string
  wg_current_path :: string
  wg_pending_count :: int
  wg_accepted_count :: int
  wg_reverted_count :: int
  wg_revised_count :: int
  wg_files :: "wire_review_file list"

record history_log_entry =
  he_kind :: string
  he_message :: string
  he_label :: string
  he_timestamp :: string
  he_stream :: string
  he_text :: string
  he_execution_id :: string
  he_phase :: string
  he_exit_code :: "int option"
  he_context :: "history_context option"

record wire_execution =
  wx_id :: string
  wx_command :: string
  wx_cwd :: string
  wx_started_at :: string
  wx_finished_at :: string
  wx_exit_code :: "int option"
  wx_stdout :: string
  wx_stderr :: string

record wire_summary =
  wy_id :: string
  wy_title :: string
  wy_created_at :: string
  wy_updated_at :: string
  wy_last_preview :: string
  wy_entry_count :: int
  wy_source :: string
  wy_external :: bool
  wy_ownership :: string
  wy_execution_active :: bool
  wy_runtime :: runtime_meta

record wire_session_context =
  wc_skill_names :: "string list"
  wc_memory_ids :: "string list"

record wire_catalog_metadata =
  wm_domain :: string
  wm_source_of_truth :: string
  wm_sync_state :: string
  wm_drift :: bool
  wm_last_synced_at :: string
  wm_version_token :: string
  wm_last_error :: string

record delta_known =
  dk_cursor :: int
  dk_log_entries :: int
  dk_diffs :: int
  dk_executions :: int
  dk_stdout :: int
  dk_stderr :: int

text \<open>What the history and the delta have in common.\<close>

record session_state_parts = event +
  sp_summary :: wire_summary
  sp_current_diff :: "history_context option"
  sp_review_groups :: "wire_review_group list"
  sp_active_group :: "wire_review_group option"
  sp_current_step :: "history_context option"
  sp_latest_error :: "history_context option"
  sp_raw_terminal :: "string \<rightharpoonup> string"
  sp_executions :: "wire_execution list"
  sp_context :: wire_session_context
  sp_skill_meta :: wire_catalog_metadata
  sp_memory_meta :: wire_catalog_metadata
  sp_can_resume :: bool
  sp_runtime_alive :: bool
  sp_resume_meta :: runtime_meta

record session_history_event = session_state_parts +
  sh_log_entries :: "history_log_entry list"
  sh_diffs :: "history_context list"

record session_delta_event = session_state_parts +
  sd_base :: delta_known
  sd_latest :: delta_known
  sd_log_entries :: "history_log_entry list"
  sd_diffs :: "history_context list"
  sd_full_sync :: bool

section \<open>Conversions\<close>

definition wire_runtime :: "session_runtime \<Rightarrow> runtime_meta" where
  "wire_runtime r = empty_meta\<lparr>m_resume_session_id := rt_resume_session_id r, m_command := rt_command r,
     m_engine := rt_engine r, m_cwd := rt_cwd r, m_permission_mode := rt_permission_mode r,
     m_claude_lifecycle := rt_lifecycle r, m_source := rt_source r\<rparr>"

definition to_protocol_summary :: "(time \<Rightarrow> string) \<Rightarrow> session_summary \<Rightarrow> wire_summary" where
  "to_protocol_summary fmt s = \<lparr>wy_id = sy_id s, wy_title = sy_title s, wy_created_at = fmt (sy_created_at s),
     wy_updated_at = fmt (sy_updated_at s), wy_last_preview = sy_last_preview s, wy_entry_count = sy_entry_count s,
     wy_source = sy_source s, wy_external = sy_external s, wy_ownership = sy_ownership s,
     wy_execution_active = sy_execution_active s, wy_runtime = wire_runtime (sy_runtime s)\<rparr>"

definition to_protocol_context :: "session_context \<Rightarrow> wire_session_context" where
  "to_protocol_context c = \<lparr>wc_skill_names = cn_skill_names c, wc_memory_ids = cn_memory_ids c\<rparr>"

definition to_protocol_metadata :: "(time \<Rightarrow> string) \<Rightarrow> catalog_metadata \<Rightarrow> wire_catalog_metadata" where
  "to_protocol_metadata fmt m = \<lparr>wm_domain = cm_domain m, wm_source_of_truth = cm_source_of_truth m,
     wm_sync_state = cm_sync_state m, wm_drift = cm_drift m,
     wm_last_synced_at = (if is_zero (cm_last_synced_at m) then [] else fmt (cm_last_synced_at m)),
     wm_version_token = cm_version_token m, wm_last_error = cm_last_error m\<rparr>"

definition history_of_context :: "snapshot_context \<Rightarrow> history_context" where
  "history_of_context c = \<lparr>hc_id = cx_id c, hc_type = cx_type c, hc_message = cx_message c, hc_status = cx_status c,
     hc_target = cx_target c, hc_target_path = cx_target_path c, hc_tool = cx_tool c, hc_command = cx_command c,
     hc_timestamp = cx_timestamp c, hc_title = cx_title c, hc_stack = cx_stack c, hc_code = cx_code c,
     hc_related_step = cx_related_step c, hc_path = cx_path c, hc_diff = cx_diff c, hc_lang = cx_lang c,
     hc_pending = cx_pending c, hc_source = cx_source c, hc_skill_name = cx_skill_name c,
     hc_execution_id = cx_execution_id c, hc_group_id = cx_group_id c, hc_group_title = cx_group_title c,
     hc_review_status = cx_review_status c\<rparr>"

definition protocol_review_file :: "review_file \<Rightarrow> wire_review_file" where
  "protocol_review_file f = \<lparr>wf_id = rf_context_id f, wf_path = rf_path f, wf_title = rf_title f, wf_diff = rf_diff f,
     wf_lang = rf_lang f, wf_pending = rf_pending f, wf_status = rf_status f, wf_execution_id = rf_execution_id f\<rparr>"

definition protocol_review_group :: "review_group \<Rightarrow> wire_review_group" where
  "protocol_review_group g = \<lparr>wg_id = rv_id g, wg_title = rv_title g, wg_execution_id = rv_execution_id g,
     wg_pending = rv_pending g, wg_status = rv_status g, wg_current_file_id = rv_current_file_id g,
     wg_current_path = rv_current_path g, wg_pending_count = rv_pending_count g,
     wg_accepted_count = rv_accepted_count g, wg_reverted_count = rv_reverted_count g,
     wg_revised_count = rv_revised_count g, wg_files = map protocol_review_file (rv_files g)\<rparr>"

definition protocol_diff :: "diff_context \<Rightarrow> history_context" where
  "protocol_diff d = (history_of_context empty_context)\<lparr>hc_id := dx_context_id d, hc_type := ''diff'', hc_path := dx_path d,
     hc_title := dx_title d, hc_diff := dx_diff d, hc_lang := dx_lang d, hc_pending := dx_pending d,
     hc_execution_id := dx_execution_id d, hc_group_id := dx_group_id d, hc_group_title := dx_group_title d,
     hc_review_status := dx_status d\<rparr>"

definition protocol_log_entry :: "log_entry \<Rightarrow> history_log_entry" where
  "protocol_log_entry e = \<lparr>he_kind = ln_kind e, he_message = ln_message e, he_label = ln_label e,
     he_timestamp = ln_timestamp e, he_stream = ln_stream e, he_text = ln_text e, he_execution_id = ln_execution_id e,
     he_phase = ln_phase e, he_exit_code = ln_exit_code e, he_context = map_option history_of_context (ln_context e)\<rparr>"

definition protocol_execution :: "terminal_execution \<Rightarrow> wire_execution" where
  "protocol_execution x = \<lparr>wx_id = tx_id x, wx_command = tx_command x, wx_cwd = tx_cwd x, wx_started_at = tx_started_at x,
     wx_finished_at = tx_finished_at x, wx_exit_code = tx_exit_code x, wx_stdout = tx_stdout x, wx_stderr = tx_stderr x\<rparr>"

definition resume_meta_of :: "projection \<Rightarrow> runtime_meta" where
  "resume_meta_of p =
     (let r = pj_runtime p in empty_meta\<lparr>m_resume_session_id := rt_resume_session_id r, m_command := rt_command r,
       m_engine := rt_engine r, m_cwd := rt_cwd r, m_permission_mode := rt_permission_mode r,
       m_claude_lifecycle := normalize_projection_lifecycle (rt_lifecycle r) (rt_resume_session_id r)\<rparr>)"

section \<open>Review state\<close>

definition review_state_of :: "projection \<Rightarrow> wire_review_group list \<times> wire_review_group option" where
  "review_state_of p =
     (let p = normalize_projection p in
      (map protocol_review_group (pj_review_groups p), map_option protocol_review_group (pj_active_group p)))"

section \<open>History and delta\<close>

text \<open>The part that both events take from the (normalised) projection, with the terminal text given.\<close>

definition state_parts ::
  "(time \<Rightarrow> string) \<Rightarrow> event \<Rightarrow> session_record \<Rightarrow> projection \<Rightarrow> (string \<rightharpoonup> string) \<Rightarrow> bool \<Rightarrow> session_state_parts" where
  "state_parts fmt base rec p raw alive = event.extend base
     (session_state_parts.fields (to_protocol_summary fmt (rec_summary rec)) (map_option protocol_diff (pj_current_diff p))
       (map protocol_review_group (pj_review_groups p)) (map_option protocol_review_group (pj_active_group p))
       (map_option history_of_context (pj_current_step p)) (map_option history_of_context (pj_latest_error p)) raw
       (map protocol_execution (pj_executions p)) (to_protocol_context (pj_context p))
       (to_protocol_metadata fmt (pj_skill_meta p)) (to_protocol_metadata fmt (pj_memory_meta p))
       (trim_space (m_resume_session_id (resume_meta_of p)) \<noteq> []) alive (resume_meta_of p))"

definition raw_terminal :: "projection \<Rightarrow> string \<rightharpoonup> string" where
  "raw_terminal p = (case pj_raw_terminal p of None \<Rightarrow> Map.empty | Some t \<Rightarrow> t)"

definition session_history ::
  "(time \<Rightarrow> string) \<Rightarrow> time \<Rightarrow> session_record \<Rightarrow> bool \<Rightarrow> session_history_event" where
  "session_history fmt now rec alive =
     (let p = normalize_projection (rec_projection rec) in
      session_state_parts.extend
        (state_parts fmt (new_base_event now ''session_history'' (sy_id (rec_summary rec))) rec p (raw_terminal p) alive)
        (session_history_event.fields (map protocol_log_entry (pj_log_entries p)) (map protocol_diff (pj_diffs p))))"

text \<open>Where the part the client does not have begins: \<open>owned\<close> is what it has, \<open>n\<close> what there is.\<close>

definition delta_start :: "int \<Rightarrow> delta_known \<Rightarrow> int \<Rightarrow> nat \<Rightarrow> nat" where
  "delta_start latest known owned n =
     (let start = (if 0 < latest \<and> latest \<le> dk_cursor known then int n else owned)
      in if start < 0 \<or> int n < start then 0 else nat start)"

definition delta_stream :: "string \<Rightarrow> nat \<Rightarrow> string option" where
  "delta_stream s start = (if start < length s then Some (drop start s) else None)"

definition session_delta ::
  "(time \<Rightarrow> string) \<Rightarrow> time \<Rightarrow> session_record \<Rightarrow> delta_known \<Rightarrow> int \<Rightarrow> bool \<Rightarrow> session_delta_event" where
  "session_delta fmt now rec known latest alive =
     (let p = normalize_projection (rec_projection rec);
          entries = map protocol_log_entry (pj_log_entries p); diffs = map protocol_diff (pj_diffs p);
          stdout = stream_text p ''stdout''; stderr = stream_text p ''stderr'';
          start_log = delta_start latest known (dk_log_entries known) (length entries);
          start_diff = delta_start latest known (dk_diffs known) (length diffs);
          start_out = delta_start latest known (dk_stdout known) (length stdout);
          start_err = delta_start latest known (dk_stderr known) (length stderr);
          upsert = (if start_diff = length diffs \<and>
              (pj_current_diff p \<noteq> None \<or> pj_review_groups p \<noteq> [] \<or> pj_active_group p \<noteq> None)
            then diffs else drop start_diff diffs);
          raw = Map.empty(''stdout'' := delta_stream stdout start_out, ''stderr'' := delta_stream stderr start_err)
      in session_state_parts.extend
        (state_parts fmt (new_base_event now ''session_delta'' (sy_id (rec_summary rec))) rec p raw alive)
        (session_delta_event.fields known
          \<lparr>dk_cursor = latest, dk_log_entries = int (length entries), dk_diffs = int (length diffs),
           dk_executions = int (length (pj_executions p)), dk_stdout = int (length stdout), dk_stderr = int (length stderr)\<rparr>
          (drop start_log entries) upsert
          ((start_log = 0 \<and> 0 < dk_log_entries known) \<or> (start_out = 0 \<and> 0 < dk_stdout known) \<or>
           (start_err = 0 \<and> 0 < dk_stderr known))))"

section \<open>Restoring a session\<close>

definition restored_meta :: "projection \<Rightarrow> runtime_meta" where
  "restored_meta p =
     (let c = pj_controller p; m = sn_meta c; r = pj_runtime p;
          resume = first_non_empty_string [sn_resume c, m_resume_session_id m, rt_resume_session_id r]
      in merge_runtime_meta m (empty_meta\<lparr>m_resume_session_id := resume,
           m_command := first_non_empty_string [sn_command c, m_command m, rt_command r],
           m_engine := first_non_empty_string [m_engine m, rt_engine r],
           m_cwd := first_non_empty_string [m_cwd m, rt_cwd r],
           m_permission_mode := first_non_empty_string [m_permission_mode m, rt_permission_mode r, ''auto''],
           m_claude_lifecycle := normalize_projection_lifecycle
             (first_non_empty_string [sn_lifecycle c, m_claude_lifecycle m, rt_lifecycle r]) resume\<rparr>))"

definition state_of_lifecycle :: "string \<Rightarrow> string" where
  "state_of_lifecycle l =
     (if trim_space l = ''waiting_input'' then state_wait_input
      else if trim_space l = ''starting'' \<or> trim_space l = ''active'' then state_thinking
      else if trim_space l = ''resumable'' then state_idle else [])"

text \<open>A busy state without a runner: the state, the metadata and whether it was stale.\<close>

definition downgrade :: "bool \<Rightarrow> string \<Rightarrow> runtime_meta \<Rightarrow> string \<times> runtime_meta \<times> bool" where
  "downgrade alive state m =
     (if alive \<or> (state \<noteq> state_thinking \<and> state \<noteq> state_running_tool) then (state, m, False)
      else if trim_space (m_resume_session_id m) \<noteq> []
      then (state_wait_input, m\<lparr>m_claude_lifecycle := ''waiting_input''\<rparr>, False)
      else (state_idle, m\<lparr>m_claude_lifecycle := []\<rparr>, True))"

definition txt_waiting :: string where "txt_waiting = [CHR 0xE7, CHR 0xAD, CHR 0x89, CHR 0xE5, CHR 0xBE,
  CHR 0x85, CHR 0xE8, CHR 0xBE, CHR 0x93, CHR 0xE5, CHR 0x85, CHR 0xA5]"
definition txt_running_tool :: string where "txt_running_tool = [CHR 0xE6, CHR 0x89, CHR 0xA7, CHR 0xE8,
  CHR 0xA1, CHR 0x8C, CHR 0xE5, CHR 0xB7, CHR 0xA5, CHR 0xE5, CHR 0x85, CHR 0xB7, CHR 0xE4, CHR 0xB8,
  CHR 0xAD]"
definition txt_session_paused :: string where "txt_session_paused = [CHR 0xE4, CHR 0xBC, CHR 0x9A, CHR 0xE8,
  CHR 0xAF, CHR 0x9D, CHR 0xE5, CHR 0xB7, CHR 0xB2, CHR 0xE6, CHR 0x9A, CHR 0x82, CHR 0xE5, CHR 0x81,
  CHR 0x9C, CHR 0xEF, CHR 0xBC, CHR 0x8C, CHR 0xE5, CHR 0x8F, CHR 0xAF, CHR 0xE7, CHR 0xBB, CHR 0xA7,
  CHR 0xE7, CHR 0xBB, CHR 0xAD, CHR 0xE5, CHR 0xAF, CHR 0xB9, CHR 0xE8, CHR 0xAF, CHR 0x9D]"

text \<open>The message for a state, and the metadata with it; none when there is nothing to report.\<close>

definition restored_message :: "string \<Rightarrow> string \<Rightarrow> runtime_meta \<Rightarrow> (string \<times> runtime_meta) option" where
  "restored_message state message m =
     (if state = state_wait_input then Some (first_non_empty_string [message, txt_waiting], m)
      else if state = state_thinking then Some (first_non_empty_string [message, txt_thinking_now], m)
      else if state = state_running_tool then Some (first_non_empty_string [message, txt_running_tool], m)
      else if state = state_idle
      then (let resumable = (trim_space (m_resume_session_id m) \<noteq> []); l = (trim_space (m_claude_lifecycle m) \<noteq> []) in
        if \<not> resumable \<and> \<not> l then None
        else Some (first_non_empty_string [message, txt_session_paused],
          if \<not> l \<and> resumable then m\<lparr>m_claude_lifecycle := ''waiting_input''\<rparr> else m))
      else if trim_space message = [] then None else Some (message, m))"

definition restored_agent_state :: "time \<Rightarrow> session_record \<Rightarrow> bool \<Rightarrow> bool \<Rightarrow> agent_state_event option" where
  "restored_agent_state now rec runner external =
     (let p = normalize_projection (rec_projection rec); c = pj_controller p; m = restored_meta p;
          state = (if sn_state c = [] then state_of_lifecycle (m_claude_lifecycle m) else sn_state c);
          (state, m, stale) = downgrade (runner \<or> external) state m;
          step = (case pj_current_step p of
              Some s \<Rightarrow> if \<not> is_terminal_step_status (cx_status s) \<and> \<not> is_terminal_step_message (cx_message s)
                then cx_message s else []
            | None \<Rightarrow> []);
          message = (if stale then [] else first_non_empty_string [sn_last_step c, step])
      in if state = [] then None
         else (case restored_message state message m of
             None \<Rightarrow> None
           | Some (message, m) \<Rightarrow>
               Some ((new_agent_state_event now (sy_id (rec_summary rec)) state message (state = state_wait_input)
                 (m_command m) (sn_last_step c) (sn_last_tool c))\<lparr>ev_meta := m\<rparr>)))"

section \<open>Lemmas\<close>

lemma state_parts_sel [simp]:
  "sp_raw_terminal (state_parts fmt base rec p raw alive) = raw"
  by (simp add: state_parts_def event.defs session_state_parts.defs)

lemma session_history_sel:
  "sh_log_entries (session_history fmt now rec alive) = map protocol_log_entry (pj_log_entries (rec_projection rec))"
  "sh_diffs (session_history fmt now rec alive) = map protocol_diff (pj_diffs (normalize_projection (rec_projection rec)))"
  "session_state_parts.truncate (session_history fmt now rec alive) =
     state_parts fmt (new_base_event now ''session_history'' (sy_id (rec_summary rec))) rec (normalize_projection (rec_projection rec))
       (raw_terminal (normalize_projection (rec_projection rec))) alive"
  by (simp_all add: session_history_def Let_def session_state_parts.defs session_history_event.defs state_parts_def event.defs)

text \<open>The text a client is sent of a stream.\<close>

definition sent_text :: "('a session_state_parts_scheme) \<Rightarrow> string \<Rightarrow> string" where
  "sent_text e stream = (case sp_raw_terminal e stream of None \<Rightarrow> [] | Some s \<Rightarrow> s)"

lemma session_delta_sel:
  assumes "p = normalize_projection (rec_projection rec)"
  shows "sd_log_entries (session_delta fmt now rec known latest alive) =
      drop (delta_start latest known (dk_log_entries known) (length (pj_log_entries p))) (map protocol_log_entry (pj_log_entries p))"
    and "sent_text (session_delta fmt now rec known latest alive) ''stdout'' =
      drop (delta_start latest known (dk_stdout known) (length (stream_text p ''stdout''))) (stream_text p ''stdout'')"
    and "sent_text (session_delta fmt now rec known latest alive) ''stderr'' =
      drop (delta_start latest known (dk_stderr known) (length (stream_text p ''stderr''))) (stream_text p ''stderr'')"
    and "sd_latest (session_delta fmt now rec known latest alive) =
      \<lparr>dk_cursor = latest, dk_log_entries = int (length (pj_log_entries p)), dk_diffs = int (length (pj_diffs p)),
       dk_executions = int (length (pj_executions p)), dk_stdout = int (length (stream_text p ''stdout'')),
       dk_stderr = int (length (stream_text p ''stderr''))\<rparr>"
    and "sd_full_sync (session_delta fmt now rec known latest alive) \<longleftrightarrow>
      (delta_start latest known (dk_log_entries known) (length (pj_log_entries p)) = 0 \<and> 0 < dk_log_entries known) \<or>
      (delta_start latest known (dk_stdout known) (length (stream_text p ''stdout'')) = 0 \<and> 0 < dk_stdout known) \<or>
      (delta_start latest known (dk_stderr known) (length (stream_text p ''stderr'')) = 0 \<and> 0 < dk_stderr known)"
  unfolding assms
  by (simp_all add: session_delta_def Let_def session_state_parts.defs session_delta_event.defs state_parts_def event.defs
      sent_text_def delta_stream_def)

lemma session_delta_parts:
  "\<exists>raw. session_state_parts.truncate (session_delta fmt now rec known latest alive) =
     state_parts fmt (new_base_event now ''session_delta'' (sy_id (rec_summary rec))) rec
       (normalize_projection (rec_projection rec)) raw alive"
  by (rule exI) (simp add: session_delta_def Let_def session_state_parts.defs session_delta_event.defs state_parts_def event.defs)

lemma state_parts_same:
  "(state_parts fmt (new_base_event now k sid) rec p raw alive)\<lparr>ev_type := t, sp_raw_terminal := raw0\<rparr> =
   (state_parts fmt (new_base_event now k' sid) rec p raw' alive)\<lparr>ev_type := t, sp_raw_terminal := raw0\<rparr>"
  by (simp add: state_parts_def event.defs session_state_parts.defs new_base_event_def)

lemma delta_start_owned:
  "\<not> (0 < latest \<and> latest \<le> dk_cursor known) \<Longrightarrow> delta_start latest known (int k) n = (if k \<le> n then k else 0)"
  by (auto simp add: delta_start_def Let_def)

lemma sent_text_history: "sent_text (session_history fmt now rec alive) stream = stream_text (rec_projection rec) stream"
proof -
  have "sp_raw_terminal (session_history fmt now rec alive) = raw_terminal (normalize_projection (rec_projection rec))"
    by (simp add: session_history_def Let_def session_state_parts.defs session_history_event.defs state_parts_def event.defs)
  then have "sent_text (session_history fmt now rec alive) stream = stream_text (normalize_projection (rec_projection rec)) stream"
    by (simp add: sent_text_def raw_terminal_def stream_text_def split: option.split)
  then show ?thesis
    by simp
qed

lemma delta_start_all: "delta_start latest known (int n) n = n"
  by (simp add: delta_start_def Let_def)

lemma downgrade_not_working:
  "fst (downgrade alive state m) \<in> {state_thinking, state_running_tool} \<Longrightarrow> alive"
  by (auto simp add: downgrade_def state_thinking_def state_running_tool_def state_wait_input_def state_idle_def split: if_splits)

lemma restored_texts:
  "trim_space txt_waiting \<noteq> []" "trim_space txt_thinking_now \<noteq> []" "trim_space txt_running_tool \<noteq> []"
  "trim_space txt_session_paused \<noteq> []"
  by code_simp+

lemma restored_message_text: "restored_message state message m = Some (text', m') \<Longrightarrow> text' \<noteq> []"
  using restored_texts by (auto simp add: restored_message_def Let_def split: if_splits)

section \<open>Properties\<close>


text \<open>A recorded session with these replies in its log and this text on its standard output.\<close>

definition demo_record :: "string list \<Rightarrow> string \<Rightarrow> session_record" where
  "demo_record replies stdout = \<lparr>rec_summary = \<lparr>sy_id = ''s'', sy_title = [], sy_created_at = 0,
     sy_updated_at = 0, sy_last_preview = [], sy_entry_count = 0, sy_runtime = empty_runtime, sy_source = [], sy_external = False,
     sy_ownership = [], sy_execution_active = False, sy_claude_uuid = [], sy_jsonl_count = 0\<rparr>, rec_projection = empty_projection
     \<lparr>pj_log_entries := map (\<lambda>m. empty_entry\<lparr>ln_kind := ''markdown'', ln_message := m\<rparr>) replies,
      pj_raw_terminal := Some (empty_streams(''stdout'' \<mapsto> stdout))\<rparr>\<rparr>"

lemma demo_record_sel [simp]:
  "pj_log_entries (rec_projection (demo_record replies stdout)) =
     map (\<lambda>m. empty_entry\<lparr>ln_kind := ''markdown'', ln_message := m\<rparr>) replies"
  "stream_text (rec_projection (demo_record replies stdout)) ''stdout'' = stdout"
  "stream_text (rec_projection (demo_record replies stdout)) ''stderr'' = []"
  by (simp_all add: demo_record_def stream_text_def empty_streams_def)


text \<open>
  A client that knows nothing: the delta carries what the history carries, the texts of the two streams included.
\<close>

theorem empty_client_delta_is_history:
  "sd_log_entries (session_delta fmt now rec \<lparr>dk_cursor = 0, dk_log_entries = 0, dk_diffs = 0, dk_executions = 0, dk_stdout = 0, dk_stderr = 0\<rparr> latest alive) =
     sh_log_entries (session_history fmt now rec alive) \<and>
   sd_diffs (session_delta fmt now rec \<lparr>dk_cursor = 0, dk_log_entries = 0, dk_diffs = 0, dk_executions = 0, dk_stdout = 0, dk_stderr = 0\<rparr> latest alive) =
     sh_diffs (session_history fmt now rec alive) \<and>
   (session_state_parts.truncate (session_delta fmt now rec \<lparr>dk_cursor = 0, dk_log_entries = 0, dk_diffs = 0, dk_executions = 0, dk_stdout = 0, dk_stderr = 0\<rparr> latest alive))
       \<lparr>ev_type := t, sp_raw_terminal := raw\<rparr> =
     (session_state_parts.truncate (session_history fmt now rec alive))\<lparr>ev_type := t, sp_raw_terminal := raw\<rparr> \<and>
   list_all (\<lambda>stream. sent_text (session_delta fmt now rec \<lparr>dk_cursor = 0, dk_log_entries = 0, dk_diffs = 0, dk_executions = 0, dk_stdout = 0, dk_stderr = 0\<rparr> latest alive) stream =
     sent_text (session_history fmt now rec alive) stream) [''stdout'', ''stderr'']"
proof -
  let ?known = "\<lparr>dk_cursor = 0, dk_log_entries = 0, dk_diffs = 0, dk_executions = 0, dk_stdout = 0, dk_stderr = 0\<rparr>"
  have start: "delta_start latest ?known 0 n = 0" for n
    by (simp add: delta_start_def Let_def)
  note sel = session_delta_sel [OF refl, of fmt now rec ?known latest alive, simplified, unfolded start]
  have "list_all (\<lambda>stream. sent_text (session_delta fmt now rec ?known latest alive) stream =
      sent_text (session_history fmt now rec alive) stream) [''stdout'', ''stderr'']"
    by (simp add: sel sent_text_history)
  moreover have "sd_diffs (session_delta fmt now rec ?known latest alive) = sh_diffs (session_history fmt now rec alive)"
    by (simp add: session_delta_def Let_def session_history_sel start session_state_parts.defs session_delta_event.defs
        state_parts_def event.defs)
  moreover have "(session_state_parts.truncate (session_delta fmt now rec ?known latest alive))\<lparr>ev_type := t, sp_raw_terminal := raw\<rparr> =
     (session_state_parts.truncate (session_history fmt now rec alive))\<lparr>ev_type := t, sp_raw_terminal := raw\<rparr>"
    using session_delta_parts [of fmt now rec ?known latest alive] state_parts_same by (auto simp only: session_history_sel(3))
  ultimately show ?thesis
    by (simp add: sel session_history_sel)
qed

text \<open>
  The delta counts entries and characters, it does not compare them: once a client has the delta of a session, a later
  one whose log has as many entries sends none of them and asks for no full synchronisation, although an entry may
  have been replaced or extended in between (a reply that continues the one before it, a line added to an output).
\<close>

theorem delta_misses_changed_entries:
  assumes "length (pj_log_entries (rec_projection rec')) = length (pj_log_entries (rec_projection rec))"
    and "length (stream_text (rec_projection rec) ''stdout'') \<le> length (stream_text (rec_projection rec') ''stdout'')"
    and "length (stream_text (rec_projection rec) ''stderr'') \<le> length (stream_text (rec_projection rec') ''stderr'')"
    and "known = sd_latest (session_delta fmt now rec known0 latest alive)"
  shows "sd_log_entries (session_delta fmt now' rec' known latest' alive') = [] \<and>
    \<not> sd_full_sync (session_delta fmt now' rec' known latest' alive')"
  using assms(1-3) unfolding assms(4) by (auto simp add: session_delta_sel [OF refl] delta_start_def Let_def)

lemma delta_misses_changed_entries_witness:
  "sd_log_entries (session_delta (\<lambda>_. []) 2 (demo_record [''Hello you''] [])
     (sd_latest (session_delta (\<lambda>_. []) 1 (demo_record [''Hello''] [])
       \<lparr>dk_cursor = 0, dk_log_entries = 0, dk_diffs = 0, dk_executions = 0, dk_stdout = 0, dk_stderr = 0\<rparr> 1 False)) 2 False) = []"
  using delta_misses_changed_entries [OF _ _ _ refl, of "demo_record [''Hello you''] []" "demo_record [''Hello''] []"] by simp


end
