(* ===== verification/Ansi.thy ===== *)
theory Ansi
  imports GoStrings
begin

text \<open>
  Removing terminal control sequences from output that arrives in chunks (\<open>engine/ansi.go\<close>), and cutting a byte
  stream into lines (\<open>engine/line_reader.go\<close>).

  The regular expression of \<open>StripANSI\<close> is a matcher on bytes: every class of it is made of ASCII characters or is the
  complement of two of them, so a character of several bytes is treated byte by byte. Its four alternatives are tried in
  the order they are written, and the character classes of the first two do not overlap, so that nothing is gained by
  backtracking. \<open>bufio.Reader.ReadLine\<close> is modelled with the size of its buffer as an argument, which must be
  positive; the file uses 64 KiB.
\<close>

section \<open>Control sequences\<close>

abbreviation esc :: char where "esc \<equiv> CHR 0x1B"
abbreviation bel :: char where "bel \<equiv> CHR 0x07"

definition csi_param :: "char \<Rightarrow> bool" where "csi_param c \<longleftrightarrow> 0x30 \<le> byte c \<and> byte c \<le> 0x3F"
definition csi_inter :: "char \<Rightarrow> bool" where "csi_inter c \<longleftrightarrow> 0x20 \<le> byte c \<and> byte c \<le> 0x2F"
definition csi_final :: "char \<Rightarrow> bool" where "csi_final c \<longleftrightarrow> 0x40 \<le> byte c \<and> byte c \<le> 0x7E"
definition esc_second :: "char \<Rightarrow> bool" where "esc_second c \<longleftrightarrow> 0x40 \<le> byte c \<and> byte c \<le> 0x5F"
definition control_char :: "char \<Rightarrow> bool" where
  "control_char c \<longleftrightarrow> byte c \<le> 8 \<or> byte c = 0xB \<or> byte c = 0xC \<or> 0xE \<le> byte c \<and> byte c \<le> 0x1F \<or> byte c = 0x7F"

text \<open>The length of what follows ESC and the opening bracket, when the sequence is complete.\<close>

definition csi_len :: "string \<Rightarrow> nat option" where
  "csi_len s = (case dropWhile csi_inter (dropWhile csi_param s) of
     [] \<Rightarrow> None
   | c # r \<Rightarrow> if csi_final c then Some (length s - length r) else None)"

definition osc_len :: "string \<Rightarrow> nat option" where
  "osc_len s = (case dropWhile (\<lambda>c. c \<noteq> bel \<and> c \<noteq> esc) s of
     [] \<Rightarrow> None
   | c # r \<Rightarrow> if c = bel then Some (length s - length r)
             else (case r of d # r' \<Rightarrow> if d = CHR 0x5C then Some (length s - length r') else None | [] \<Rightarrow> None))"

text \<open>The length of the match at the start of a string, 0 for none.\<close>

definition seq_len :: "char \<Rightarrow> string \<Rightarrow> nat option" where
  "seq_len d t = (if d = CHR ''['' then csi_len t else if d = CHR '']'' then osc_len t else None)"

definition match_after_esc :: "string \<Rightarrow> nat" where
  "match_after_esc s = (case s of
     [] \<Rightarrow> 1
   | d # t \<Rightarrow>
      (case seq_len d t of
         Some n \<Rightarrow> Suc (Suc n)
       | None \<Rightarrow> if esc_second d then 2 else 1))"

definition ansi_match :: "string \<Rightarrow> nat" where
  "ansi_match s = (case s of
     [] \<Rightarrow> 0
   | c # t \<Rightarrow> if c = esc then match_after_esc t else if control_char c then 1 else 0)"

function strip_ansi :: "string \<Rightarrow> string" where
  "strip_ansi [] = []"
| "strip_ansi (c # s) =
     (if ansi_match (c # s) = 0 then c # strip_ansi s else strip_ansi (drop (ansi_match (c # s)) (c # s)))"
  by pat_completeness auto
termination
  by (relation "measure length") auto

section \<open>Chunks\<close>

definition incomplete_csi :: "string \<Rightarrow> bool" where
  "incomplete_csi s \<longleftrightarrow> list_all (\<lambda>c. csi_param c \<or> csi_inter c) s"

fun incomplete_osc :: "string \<Rightarrow> bool" where
  "incomplete_osc [] = True"
| "incomplete_osc (c # s) =
     (if c = bel then False
      else if c = esc then (case s of [] \<Rightarrow> True | d # _ \<Rightarrow> d \<noteq> CHR 0x5C)
      else incomplete_osc s)"

definition incomplete_suffix :: "string \<Rightarrow> bool" where
  "incomplete_suffix s = (case s of
     [] \<Rightarrow> False
   | c # t \<Rightarrow> c = esc \<and> (case t of
       [] \<Rightarrow> True
     | d # u \<Rightarrow> if d = CHR ''['' then incomplete_csi u else if d = CHR '']'' then incomplete_osc u else False))"

text \<open>The loop from the end of the text to the last ESC: the text before it, and the text from it on.\<close>

fun last_esc :: "string \<Rightarrow> (string \<times> string) option" where
  "last_esc [] = None"
| "last_esc (c # s) = (case last_esc s of
     Some (u, v) \<Rightarrow> Some (c # u, v)
   | None \<Rightarrow> if c = esc then Some ([], c # s) else None)"

definition split_carry :: "string \<Rightarrow> string \<times> string" where
  "split_carry s = (case last_esc s of
     Some (u, v) \<Rightarrow> if incomplete_suffix v then (u, v) else (s, [])
   | None \<Rightarrow> (s, []))"

definition strip_chunk :: "string \<Rightarrow> string \<Rightarrow> string \<times> string" where
  "strip_chunk chunk carry =
     (if carry @ chunk = [] then ([], [])
      else (case split_carry (carry @ chunk) of (safe, trailing) \<Rightarrow> (strip_ansi safe, trailing)))"

text \<open>A reader passes the carry of one chunk to the next (\<open>readOutput\<close> of \<open>engine/pty_engine.go\<close>).\<close>

fun strip_chunks :: "string list \<Rightarrow> string \<Rightarrow> string \<times> string" where
  "strip_chunks [] carry = ([], carry)"
| "strip_chunks (c # cs) carry =
     (case strip_chunk c carry of (out, carry') \<Rightarrow>
      (case strip_chunks cs carry' of (outs, carry'') \<Rightarrow> (out @ outs, carry'')))"

section \<open>Lemmas on the matcher\<close>

lemma last_esc_None: "last_esc s = None \<longleftrightarrow> esc \<notin> set s"
  by (induction s) (auto split: option.splits prod.splits)

lemma last_esc_Some: "last_esc s = Some (u, v) \<Longrightarrow> \<exists>w. s = u @ v \<and> v = esc # w \<and> esc \<notin> set w"
  by (induction s arbitrary: u) (auto simp: last_esc_None split: option.splits prod.splits if_splits)

lemma last_esc_append: "esc \<notin> set w \<Longrightarrow> last_esc (u @ esc # w) = Some (u, esc # w)"
  by (induction u) (auto simp: last_esc_None[THEN iffD2])

text \<open>A text whose last control sequence is not cut off.\<close>

definition closed_text :: "string \<Rightarrow> bool" where
  "closed_text s \<longleftrightarrow> (\<forall>u w. s = u @ esc # w \<longrightarrow> esc \<notin> set w \<longrightarrow> \<not> incomplete_suffix (esc # w))"

lemma closed_text_drop: "closed_text s \<Longrightarrow> closed_text (drop n s)"
  unfolding closed_text_def by (metis append_assoc append_take_drop_id)

lemma closed_text_tl: "closed_text (c # s) \<Longrightarrow> closed_text s"
  using closed_text_drop [of "c # s" 1] by simp

lemma closed_text_esc: "closed_text s \<Longrightarrow> s \<noteq> u @ [esc]"
proof
  assume "closed_text s" and "s = u @ [esc]"
  then have "\<not> incomplete_suffix [esc]"
    by (auto simp: closed_text_def)
  then show False
    by (simp add: incomplete_suffix_def)
qed

lemma split_carry_closed: "split_carry s = (s, []) \<Longrightarrow> closed_text s"
  by (auto simp: split_carry_def closed_text_def last_esc_append split: if_splits)

lemma split_carry_cut:
  "split_carry s = (u, v) \<Longrightarrow> v \<noteq> [] \<Longrightarrow> s = u @ v \<and> (\<exists>w. v = esc # w \<and> esc \<notin> set w \<and> incomplete_suffix v)"
  by (auto simp: split_carry_def split: option.splits prod.splits if_splits dest: last_esc_Some)

lemma split_carry_cases:
  obtains (whole) "split_carry s = (s, [])" "closed_text s"
    | (cut) u w where "split_carry s = (u, esc # w)" "s = u @ esc # w" "esc \<notin> set w" "incomplete_suffix (esc # w)"
proof (cases "split_carry s")
  case (Pair u v)
  show ?thesis
  proof (cases "v = []")
    case True
    then have "u = s"
      using Pair by (auto simp: split_carry_def split: option.splits prod.splits if_splits dest: last_esc_Some)
    then show ?thesis
      using True Pair whole split_carry_closed by simp
  next
    case False
    then show ?thesis
      using split_carry_cut [OF Pair] Pair cut by auto
  qed
qed

lemma dropWhile_app: "dropWhile P (xs @ ys) = (if dropWhile P xs = [] then dropWhile P ys else dropWhile P xs @ ys)"
  by (induction xs) auto

lemma dropWhile_length: "dropWhile P xs = y # ys \<Longrightarrow> length ys < length xs"
  using length_dropWhile_le [of P xs] by simp

abbreviation csi_body :: "char \<Rightarrow> bool" where "csi_body c \<equiv> csi_param c \<or> csi_inter c"

lemma csi_rest_Nil:
  assumes "dropWhile csi_inter (dropWhile csi_param s) = []"
  shows "incomplete_csi s"
proof -
  have "\<forall>c\<in>set (dropWhile csi_param s). csi_inter c"
    using assms by (simp only: dropWhile_eq_Nil_conv)
  moreover have "\<forall>c\<in>set (takeWhile csi_param s). csi_param c"
    using set_takeWhileD by metis
  moreover have "set s = set (takeWhile csi_param s) \<union> set (dropWhile csi_param s)"
    by (metis set_append takeWhile_dropWhile_id)
  ultimately show ?thesis
    unfolding incomplete_csi_def list_all_iff by blast
qed

lemma dropWhile2_app:
  assumes "dropWhile Q (dropWhile P s) = c # t"
  shows "dropWhile Q (dropWhile P (s @ r)) = c # t @ r"
proof -
  have "dropWhile P s \<noteq> []"
    using assms by (metis dropWhile.simps(1) list.discI)
  then have "dropWhile P (s @ r) = dropWhile P s @ r"
    by (metis dropWhile_app)
  then show ?thesis
    using assms by (metis dropWhile_app append_Cons list.discI)
qed

lemma csi_len_append: "\<not> incomplete_csi s \<Longrightarrow> csi_len (s @ r) = csi_len s"
  by (cases "dropWhile csi_inter (dropWhile csi_param s)") (use csi_rest_Nil in blast, simp add: csi_len_def dropWhile2_app)

lemma not_final: "csi_body c \<Longrightarrow> \<not> csi_final c" "\<not> csi_final esc" "\<not> csi_body esc" "\<not> esc_second esc"
  by (auto simp: csi_param_def csi_inter_def csi_final_def esc_second_def byte_def)

lemma csi_len_incomplete: "incomplete_csi s \<Longrightarrow> csi_len s = None"
  using not_final(1) set_dropWhileD [of _ csi_inter "dropWhile csi_param s"] set_dropWhileD [of _ csi_param s]
  by (fastforce simp: csi_len_def incomplete_csi_def list_all_iff split: list.split)

lemma csi_len_before_esc: "csi_len (s @ esc # v) = csi_len s"
proof (cases "incomplete_csi s")
  case True
  then have heads: "c \<in> set s \<Longrightarrow> csi_body c" for c
    by (auto simp: incomplete_csi_def list_all_iff)
  obtain c r where rest: "dropWhile csi_inter (dropWhile csi_param (s @ esc # v)) = c # r" and "c = esc \<or> c \<in> set s"
  proof (cases "dropWhile csi_inter (dropWhile csi_param s)")
    case Nil
    then have "dropWhile csi_inter (dropWhile csi_param (s @ esc # v)) = esc # v"
      using not_final(3) by (cases "dropWhile csi_param s = []") (simp_all only: dropWhile_app dropWhile.simps de_Morgan_disj if_True if_False simp_thms)
    then show thesis
      using that by simp
  next
    case (Cons c r)
    then have "c \<in> set s"
      by (metis list.set_intros(1) set_dropWhileD)
    then show thesis
      using that dropWhile2_app [OF Cons] by simp
  qed
  then have "\<not> csi_final c"
    using heads not_final by auto
  then show ?thesis
    using csi_len_incomplete [OF True] rest by (simp add: csi_len_def)
qed (rule csi_len_append)

lemma incomplete_osc_iff: "incomplete_osc s \<longleftrightarrow> (case dropWhile (\<lambda>c. c \<noteq> bel \<and> c \<noteq> esc) s of
    [] \<Rightarrow> True | c # r \<Rightarrow> c = esc \<and> (r = [] \<or> hd r \<noteq> CHR 0x5C))"
  by (induction s rule: incomplete_osc.induct) (auto split: list.split)

lemma osc_len_append:
  assumes "esc \<in> set s \<or> bel \<in> set s" and "closed_text s"
  shows "osc_len (s @ r) = osc_len s"
proof -
  let ?P = "\<lambda>c. c \<noteq> bel \<and> c \<noteq> esc"
  obtain c t where rest: "dropWhile ?P s = c # t"
    using assms(1) by (cases "dropWhile ?P s") (auto simp: dropWhile_eq_Nil_conv)
  have "c = esc \<Longrightarrow> t \<noteq> []"
  proof
    assume "c = esc" and "t = []"
    then obtain u where "s = u @ [esc]"
      using rest by (metis takeWhile_dropWhile_id)
    then show False
      using assms(2) closed_text_esc by blast
  qed
  moreover have "c = bel \<or> c = esc"
    using hd_dropWhile [of ?P s] rest by fastforce
  ultimately show ?thesis
    by (auto simp: osc_len_def dropWhile_app rest split: list.split)
qed

lemma osc_len_before_esc:
  assumes "v = [] \<or> hd v \<noteq> CHR 0x5C"
  shows "osc_len (s @ esc # v) = osc_len s"
proof (cases "dropWhile (\<lambda>c. c \<noteq> bel \<and> c \<noteq> esc) s")
  case Nil
  then show ?thesis
    using assms by (cases v) (simp_all only: osc_len_def dropWhile_app, simp_all)
next
  case (Cons c t)
  then show ?thesis
    by (cases t) (simp_all only: osc_len_def dropWhile_app, simp_all)
qed

lemma seq_len_before_esc: "v = [] \<or> hd v \<noteq> CHR 0x5C \<Longrightarrow> seq_len d (s @ esc # v) = seq_len d s"
  by (simp add: seq_len_def csi_len_before_esc osc_len_before_esc)

lemma seq_len_esc: "seq_len esc s = None"
  by (simp add: seq_len_def)

lemma match_before_esc:
  assumes "s \<noteq> []" and "v = [] \<or> hd v \<noteq> CHR 0x5C"
  shows "ansi_match (s @ esc # v) = ansi_match s"
proof -
  have "match_after_esc (t @ esc # v) = match_after_esc t" for t
    by (cases t) (simp_all add: match_after_esc_def seq_len_esc not_final seq_len_before_esc [OF assms(2)])
  then show ?thesis
    using assms(1) by (cases s) (simp_all add: ansi_match_def)
qed

lemma closed_csi: "closed_text (esc # CHR ''['' # u) \<Longrightarrow> \<not> incomplete_csi u"
proof
  assume closed: "closed_text (esc # CHR ''['' # u)" and incomplete: "incomplete_csi u"
  then have "esc \<notin> set (CHR ''['' # u)"
    using not_final(3) by (auto simp: incomplete_csi_def list_all_iff)
  then have "\<not> incomplete_suffix (esc # CHR ''['' # u)"
    using closed unfolding closed_text_def by (metis append_Nil)
  then show False
    using incomplete by (simp add: incomplete_suffix_def)
qed

lemma closed_osc: "closed_text (esc # CHR '']'' # u) \<Longrightarrow> esc \<in> set u \<or> bel \<in> set u"
proof (rule ccontr)
  assume closed: "closed_text (esc # CHR '']'' # u)" and none: "\<not> (esc \<in> set u \<or> bel \<in> set u)"
  have "incomplete_osc u"
    using none by (induction u) auto
  moreover have "esc \<notin> set (CHR '']'' # u)"
    using none by simp
  then have "\<not> incomplete_suffix (esc # CHR '']'' # u)"
    using closed unfolding closed_text_def by (metis append_Nil)
  ultimately show False
    by (simp add: incomplete_suffix_def)
qed

lemma seq_len_closed: "closed_text (esc # d # u) \<Longrightarrow> seq_len d (u @ r) = seq_len d u"
  using closed_csi [of u] closed_osc [of u] csi_len_append [of u r] osc_len_append [of u r] closed_text_drop [of "esc # d # u" 2]
  by (cases "d = CHR ''[''"; cases "d = CHR '']''") (simp_all add: seq_len_def)

lemma match_closed:
  assumes "s \<noteq> []" and "closed_text s"
  shows "ansi_match (s @ r) = ansi_match s"
proof -
  obtain c t where s: "s = c # t"
    using assms(1) by (cases s) auto
  show ?thesis
  proof (cases "c = esc")
    case True
    then obtain d u where t: "t = d # u"
      using assms(2) s closed_text_esc [of s "[]"] by (cases t) auto
    then show ?thesis
      using seq_len_closed [of d u r] assms(2) by (simp add: s True ansi_match_def match_after_esc_def)
  qed (simp add: s ansi_match_def)
qed

lemma ansi_match_le: "ansi_match s \<le> length s"
proof -
  have csi: "csi_len t = Some n \<Longrightarrow> n \<le> length t" for t n
    by (auto simp: csi_len_def split: list.splits if_splits)
  have osc: "osc_len t = Some n \<Longrightarrow> n \<le> length t" for t n
    by (auto simp: osc_len_def split: list.splits if_splits)
  have "match_after_esc t \<le> Suc (length t)" for t
    using csi osc by (cases t) (auto simp: match_after_esc_def seq_len_def split: option.splits if_splits)
  then show ?thesis
    by (cases s) (simp_all add: ansi_match_def)
qed

lemma strip_closed: "closed_text s \<Longrightarrow> strip_ansi (s @ r) = strip_ansi s @ strip_ansi r"
proof (induction s rule: strip_ansi.induct)
  case (2 c s)
  have same: "ansi_match (c # s @ r) = ansi_match (c # s)"
    using match_closed [of "c # s" r] 2(3) by simp
  have "drop (ansi_match (c # s)) (c # s @ r) = drop (ansi_match (c # s)) (c # s) @ r"
    using ansi_match_le [of "c # s"] by (metis append_Cons drop_append diff_is_0_eq drop0)
  then show ?case
    using 2 same closed_text_drop [OF 2(3)] closed_text_tl [OF 2(3)] by simp
qed simp

lemma strip_before_esc:
  assumes "v = [] \<or> hd v \<noteq> CHR 0x5C"
  shows "strip_ansi (s @ esc # v) = strip_ansi s @ strip_ansi (esc # v)"
proof (induction s rule: strip_ansi.induct)
  case (2 c s)
  have same: "ansi_match (c # s @ esc # v) = ansi_match (c # s)"
    using match_before_esc [of "c # s" v] assms by simp
  have "drop (ansi_match (c # s)) (c # s @ esc # v) = drop (ansi_match (c # s)) (c # s) @ esc # v"
    using ansi_match_le [of "c # s"] by (metis append_Cons drop_append diff_is_0_eq drop0)
  then show ?case
    using 2 same by simp
qed simp

text \<open>
  A string terminator (ESC and a backslash) cut between two chunks: some chunk ends with ESC and the text that
  follows starts with a backslash.
\<close>

definition ends_esc :: "string \<Rightarrow> bool" where
  "ends_esc s \<longleftrightarrow> s \<noteq> [] \<and> last s = esc"

fun cuts_terminator :: "string list \<Rightarrow> bool" where
  "cuts_terminator [] = False"
| "cuts_terminator (c # cs) = (ends_esc c \<and> has_prefix (concat cs) [CHR 0x5C] \<or> cuts_terminator cs)"

lemma carry_step:
  assumes "\<not> (ends_esc (carry @ c) \<and> has_prefix rest [CHR 0x5C])"
  shows "\<exists>out carry'. strip_chunk c carry = (out, carry') \<and>
    strip_ansi (carry @ c @ rest) = out @ strip_ansi (carry' @ rest) \<and> (ends_esc carry' \<longrightarrow> ends_esc (carry @ c))"
proof (cases "carry @ c = []")
  case True
  then show ?thesis
    by (simp add: strip_chunk_def)
next
  case False
  show ?thesis
  proof (cases rule: split_carry_cases [of "carry @ c"])
    case whole
    then show ?thesis
      using False strip_closed [OF whole(2), of rest] by (simp add: strip_chunk_def ends_esc_def)
  next
    case (cut u w)
    have "w @ rest = [] \<or> hd (w @ rest) \<noteq> CHR 0x5C"
    proof (cases w)
      case Nil
      then have "ends_esc (carry @ c)"
        using cut(2) by (simp add: ends_esc_def)
      then show ?thesis
        using assms Nil by (cases rest) (auto simp: has_prefix_def)
    next
      case (Cons d w')
      then have "d \<in> {CHR ''['', CHR '']''}"
        using cut(4) by (simp add: incomplete_suffix_def split: if_splits)
      then show ?thesis
        using Cons by auto
    qed
    then have "strip_ansi (carry @ c @ rest) = strip_ansi u @ strip_ansi (esc # w @ rest)"
      using strip_before_esc [of "w @ rest" u] arg_cong [OF cut(2), of "\<lambda>x. strip_ansi (x @ rest)"]
      by (simp del: strip_ansi.simps)
    moreover have "strip_chunk c carry = (strip_ansi u, esc # w)"
      using False cut(1) by (simp add: strip_chunk_def)
    moreover have "ends_esc (esc # w) \<longrightarrow> ends_esc (carry @ c)"
      using cut(2) by (simp add: ends_esc_def)
    ultimately show ?thesis
      by simp
  qed
qed

lemma strip_chunks_from:
  assumes "\<not> cuts_terminator chunks" and "\<not> (ends_esc carry \<and> has_prefix (concat chunks) [CHR 0x5C])"
  shows "fst (strip_chunks chunks carry) @ strip_ansi (snd (strip_chunks chunks carry)) = strip_ansi (carry @ concat chunks)"
  using assms
proof (induction chunks arbitrary: carry)
  case (Cons c cs)
  have ends: "\<not> (ends_esc (carry @ c) \<and> has_prefix (concat cs) [CHR 0x5C])"
    using Cons.prems by (cases c) (auto simp: ends_esc_def)
  then obtain out carry' where step: "strip_chunk c carry = (out, carry')"
    "strip_ansi (carry @ c @ concat cs) = out @ strip_ansi (carry' @ concat cs)" "ends_esc carry' \<longrightarrow> ends_esc (carry @ c)"
    using carry_step [of carry c "concat cs"] by blast
  then show ?case
    using Cons.IH [of carry'] Cons.prems(1) ends by (auto split: prod.split)
qed simp

section \<open>Lines\<close>

abbreviation nl :: char where "nl \<equiv> CHR 0x0A"
abbreviation cr :: char where "cr \<equiv> CHR 0x0D"

definition drop_cr :: "string \<Rightarrow> string" where
  "drop_cr s = (if s \<noteq> [] \<and> last s = cr then butlast s else s)"

text \<open>
  \<open>ReadLine\<close> on the bytes the reader still has to deliver: a fragment, whether the line goes on, and what is left.
  A carriage return at the end of a full buffer is put back, it may belong to the end of the line.
\<close>

definition read_line :: "nat \<Rightarrow> string \<Rightarrow> (string \<times> bool \<times> string) option" where
  "read_line n s =
     (if s = [] then None
      else (case index_of (take n s) [nl] of
          Some i \<Rightarrow> Some (drop_cr (take i s), False, drop (Suc i) s)
        | None \<Rightarrow>
            if length s < n then Some (s, False, [])
            else if last (take n s) = cr then Some (butlast (take n s), True, cr # drop n s)
            else Some (take n s, True, drop n s)))"

datatype 'e line_error = Line_too_long | Callback_failed 'e | Read_failed 'e

definition max_line_bytes :: nat where "max_line_bytes = 16 * 1024 * 1024"

definition flush_line :: "(string \<Rightarrow> 's \<Rightarrow> 's \<times> 'e option) \<Rightarrow> string \<Rightarrow> 's \<Rightarrow> 's \<times> 'e line_error option" where
  "flush_line fn line st = (if line = [] then (st, None) else (case fn line st of (st', e) \<Rightarrow> (st', map_option Callback_failed e)))"

lemma index_of_less: "index_of s [c] = Some i \<Longrightarrow> i < length s"
  by (induction s arbitrary: i) (auto split: if_splits)

lemma read_line_shorter: "read_line n s = Some (frag, more, rest) \<Longrightarrow> 2 \<le> n \<Longrightarrow> length rest < length s"
  by (auto simp: read_line_def split: option.splits if_splits)

text \<open>The loop of \<open>forEachLine\<close>; \<open>ending\<close> is how the reader ends, \<open>bufio\<close> gives every reader at least 16 bytes.\<close>

function for_each_line ::
  "nat \<Rightarrow> 'e option \<Rightarrow> (string \<Rightarrow> 's \<Rightarrow> 's \<times> 'e option) \<Rightarrow> string \<Rightarrow> string \<Rightarrow> 's \<Rightarrow> 's \<times> 'e line_error option" where
  "for_each_line n ending fn line s st =
     (case read_line (max 16 n) s of
        None \<Rightarrow> (case ending of None \<Rightarrow> flush_line fn line st | Some e \<Rightarrow> (st, Some (Read_failed e)))
      | Some (frag, more, rest) \<Rightarrow>
          if max_line_bytes < length line + length frag then (st, Some Line_too_long)
          else if more then for_each_line n ending fn (line @ frag) rest st
          else (case flush_line fn (line @ frag) st of
              (st', Some e) \<Rightarrow> (st', Some e)
            | (st', None) \<Rightarrow> for_each_line n ending fn [] rest st'))"
  by pat_completeness auto
termination
  by (relation "measure (\<lambda>(n, ending, fn, line, s, st). length s)") (auto dest: read_line_shorter)

text \<open>What the loop does, said on the lines of the text: empty lines are skipped, the first error ends it.\<close>

definition lines_of :: "string \<Rightarrow> string list" where
  "lines_of s = (let parts = split_on nl s in map drop_cr (butlast parts) @ [last parts])"

fun run_lines :: "(string \<Rightarrow> 's \<Rightarrow> 's \<times> 'e option) \<Rightarrow> string list \<Rightarrow> 's \<Rightarrow> 's \<times> 'e line_error option" where
  "run_lines fn [] st = (st, None)"
| "run_lines fn (l # ls) st = (case flush_line fn l st of (st', Some e) \<Rightarrow> (st', Some e) | (st', None) \<Rightarrow> run_lines fn ls st')"

definition prepend :: "string \<Rightarrow> string list \<Rightarrow> string list" where
  "prepend u ls = (u @ hd ls) # tl ls"

lemma prepend_append [simp]: "prepend u (prepend v ls) = prepend (u @ v) ls"
  by (simp add: prepend_def)

lemma lines_of_nonempty [simp]: "lines_of s \<noteq> []"
  by (simp add: lines_of_def Let_def)

lemma prepend_Nil [simp]: "ls \<noteq> [] \<Longrightarrow> prepend [] ls = ls"
  by (simp add: prepend_def)

lemma lines_of_Nil [simp]: "lines_of [] = [[]]"
  by (simp add: lines_of_def)

lemma split_on_app: "c \<notin> set u \<Longrightarrow> split_on c (u @ c # s) = u # split_on c s"
  by (induction u) (auto split: list.split)

lemma split_on_none: "c \<notin> set u \<Longrightarrow> split_on c u = [u]"
  by (induction u) (auto split: list.split)

lemma split_on_prepend: "c \<notin> set u \<Longrightarrow> split_on c (u @ s) = prepend u (split_on c s)"
  by (induction u) (auto simp: prepend_def split: list.split)

lemma lines_of_line: "nl \<notin> set u \<Longrightarrow> lines_of (u @ nl # s) = drop_cr u # lines_of s"
  by (simp add: lines_of_def Let_def split_on_app)

lemma lines_of_last: "nl \<notin> set u \<Longrightarrow> lines_of u = [u]"
  by (simp add: lines_of_def Let_def split_on_none)

lemma lines_of_prepend:
  assumes "nl \<notin> set u" and "u = [] \<or> last u \<noteq> cr \<or> (s \<noteq> [] \<and> hd s \<noteq> nl)"
  shows "lines_of (u @ s) = prepend u (lines_of s)"
proof -
  obtain w ws where parts: "split_on nl s = w # ws"
    by (cases "split_on nl s") auto
  have "w \<noteq> [] \<or> u = [] \<or> last u \<noteq> cr"
    using assms(2) parts by (cases s) (auto split: list.splits)
  then have "drop_cr (u @ w) = u @ drop_cr w"
    by (auto simp: drop_cr_def butlast_append)
  then show ?thesis
    using assms(1) parts by (simp add: lines_of_def Let_def split_on_prepend prepend_def)
qed

lemma index_of_None: "index_of s [c] = None \<longleftrightarrow> c \<notin> set s"
  by (induction s) (auto simp: has_prefix_def)

lemma index_of_before: "index_of s [c] = Some i \<Longrightarrow> c \<notin> set (take i s)"
  by (induction s arbitrary: i) (auto simp: has_prefix_def split: if_splits)

text \<open>A step of the reader against the lines of the text.\<close>

lemma read_line_end:
  assumes "read_line n s = Some (frag, False, rest)"
  shows "lines_of s = frag # lines_of rest \<or> (rest = [] \<and> lines_of s = [frag])"
proof (cases "index_of (take n s) [nl]")
  case (Some i)
  have i: "i < length (take n s)"
    using index_of_less [OF Some] .
  have "take n s ! i = nl"
    using index_of_Some [OF Some] i by (metis Cons_nth_drop_Suc append_Cons append_take_drop_id list.sel(1) nth_via_drop same_append_eq self_append_conv2)
  then have "s = take i s @ nl # drop (Suc i) s"
    using i id_take_nth_drop [of i s] by simp
  moreover have "nl \<notin> set (take i s)"
    using index_of_before [OF Some] i by (simp add: min_def split: if_splits)
  ultimately have "lines_of s = drop_cr (take i s) # lines_of (drop (Suc i) s)"
    by (metis lines_of_line)
  then show ?thesis
    using assms Some by (auto simp: read_line_def split: if_splits)
next
  case None
  then have "length s < n \<and> frag = s \<and> rest = []"
    using assms by (auto simp: read_line_def split: if_splits)
  then show ?thesis
    using None lines_of_last by (auto simp: index_of_None)
qed

lemma read_line_more:
  assumes "read_line n s = Some (frag, True, rest)" and "0 < n"
  shows "lines_of s = prepend frag (lines_of rest)"
proof -
  have none: "nl \<notin> set (take n s)" and long: "\<not> length s < n" "s \<noteq> []"
    using assms by (auto simp: read_line_def index_of_None[symmetric] split: option.splits if_splits)
  show ?thesis
  proof (cases "last (take n s) = cr")
    case True
    then have parts: "frag = butlast (take n s)" "rest = cr # drop n s"
      using assms none long by (auto simp: read_line_def index_of_None[symmetric])
    have "take n s \<noteq> []"
      using assms long by auto
    then have "s = frag @ rest"
      using True parts by (metis append_butlast_last_id append_take_drop_id append.assoc append_Cons append_Nil)
    moreover have "nl \<notin> set frag"
      using none parts(1) by (meson in_set_butlastD)
    ultimately show ?thesis
      using lines_of_prepend [of frag rest] parts(2) by simp
  next
    case False
    then have "frag = take n s" "rest = drop n s"
      using assms none long by (auto simp: read_line_def index_of_None[symmetric])
    then show ?thesis
      using lines_of_prepend [of frag rest] none False by simp
  qed
qed

lemma run_lines_skip [simp]: "run_lines fn [[]] st = (st, None)"
  by (simp add: flush_line_def)

lemma flush_as_run: "flush_line fn l st = run_lines fn [l] st"
  by (simp split: prod.split option.split)

declare for_each_line.simps [simp del]

lemma for_each_line_run:
  assumes "list_all (\<lambda>l. length l \<le> max_line_bytes) (prepend line (lines_of s))"
  shows "for_each_line n None fn line s st = run_lines fn (prepend line (lines_of s)) st"
  using assms
proof (induction "length s" arbitrary: line s st rule: less_induct)
  case (less s line st)
  show ?case
  proof (cases "read_line (max 16 n) s")
    case None
    then have "s = []"
      by (auto simp: read_line_def split: option.splits if_splits)
    then show ?thesis
      unfolding for_each_line.simps [of n _ _ line s] None by (simp only: option.case flush_as_run lines_of_Nil prepend_def) simp
  next
    case (Some step)
    obtain frag more rest where step: "step = (frag, more, rest)"
      by (cases step)
    note here = Some [unfolded step]
    have shorter: "length rest < length s"
      using read_line_shorter [OF here] by simp
    show ?thesis
    proof (cases more)
      case True
      then have lines: "prepend line (lines_of s) = prepend (line @ frag) (lines_of rest)"
        using read_line_more [of "max 16 n" s frag rest] here by simp
      have "length line + length frag \<le> max_line_bytes"
        using less(2) unfolding lines by (simp add: prepend_def)
      then show ?thesis
        using less(1) [OF shorter] less(2) here True
        by (simp add: lines for_each_line.simps [of n _ _ line s])
    next
      case False
      then have ends: "lines_of s = frag # lines_of rest \<or> (rest = [] \<and> lines_of s = [frag])"
        using read_line_end here by simp
      then have short: "length line + length frag \<le> max_line_bytes"
        using less(2) by (auto simp: prepend_def)
      have run: "run_lines fn (prepend line (lines_of s)) st = run_lines fn ((line @ frag) # lines_of rest) st"
        using ends by (auto simp: prepend_def flush_line_def split: prod.split option.split)
      show ?thesis
      proof (cases "flush_line fn (line @ frag) st")
        case (Pair st' e)
        have "list_all (\<lambda>l. length l \<le> max_line_bytes) (prepend [] (lines_of rest))"
          using ends less(2) by (auto simp: prepend_def)
        then have "for_each_line n None fn [] rest st' = run_lines fn (lines_of rest) st'"
          using less(1) [OF shorter] by simp
        then show ?thesis
          using here short False Pair run by (simp add: for_each_line.simps [of n _ _ line s] split: option.split)
      qed
    qed
  qed
qed

section \<open>Properties\<close>

text \<open>
  C36: Removing the control sequences chunk by chunk gives what removing them from the whole text gives, however the text
  is cut: what a chunk cannot decide yet is carried over to the next. The one place where a cut is not repaired is
  inside a string terminator.
\<close>

theorem strip_chunks_whole:
  assumes "\<not> cuts_terminator chunks"
  shows "fst (strip_chunks chunks []) @ strip_ansi (snd (strip_chunks chunks [])) = strip_ansi (concat chunks)"
  using strip_chunks_from [OF assms, of "[]"] by (simp add: ends_esc_def)

lemma strip_chunks_whole_witness:
  "fst (strip_chunks [''a'' @ [esc], ''[3'', ''1mred'' @ [esc] @ '']0;ti'', ''tle'' @ [bel] @ ''b''] []) = ''aredb''"
proof -
  let ?chunks = "[''a'' @ [esc], ''[3'', ''1mred'' @ [esc] @ '']0;ti'', ''tle'' @ [bel] @ ''b'']"
  have "\<not> cuts_terminator ?chunks"
    by code_simp
  then have "fst (strip_chunks ?chunks []) @ strip_ansi (snd (strip_chunks ?chunks [])) = strip_ansi (concat ?chunks)"
    by (rule strip_chunks_whole)
  moreover have "strip_ansi (snd (strip_chunks ?chunks [])) = []" "strip_ansi (concat ?chunks) = ''aredb''"
    by code_simp+
  ultimately show ?thesis
    by (simp only: append_Nil2)
qed

text \<open>
  When the terminator of a title sequence (ESC and a backslash) is cut in two, the carry keeps the ESC only: the
  title is taken for output, and so is the backslash that follows.
\<close>

theorem cut_terminator_leaks_title:
  "strip_ansi ([esc] @ '']0;secret'' @ [esc, CHR 0x5C]) = [] \<and>
   fst (strip_chunks [[esc] @ '']0;secret'' @ [esc], [CHR 0x5C]] []) = ''0;secret'' \<and>
   snd (strip_chunks [[esc] @ '']0;secret'' @ [esc], [CHR 0x5C]] []) = []"
  by code_simp

text \<open>
  C37: The loop over the lines of a stream always ends, and what it does does not depend on the size of the buffer the stream
  is read with: as long as no line is longer than the bound, the function is called on every line that is not empty, in
  order, without the carriage return before its line feed, until it fails.
\<close>

theorem for_each_line_lines:
  assumes "list_all (\<lambda>l. length l \<le> max_line_bytes) (lines_of s)"
  shows "for_each_line n None fn [] s st = run_lines fn (lines_of s) st"
  using for_each_line_run [of "[]" s] assms by simp

definition keep_line :: "string \<Rightarrow> string list \<Rightarrow> string list \<times> string option" where
  "keep_line l ls = (if l = ''stop'' then (ls, Some l) else (ls @ [l], None))"

lemma for_each_line_lines_witness:
  "for_each_line 16 None keep_line [] (''one'' @ [cr, nl, nl] @ ''two'' @ [nl] @ ''stop'' @ [nl] @ ''three'') [] =
     ([''one'', ''two''], Some (Callback_failed ''stop''))"
proof -
  let ?s = "''one'' @ [cr, nl, nl] @ ''two'' @ [nl] @ ''stop'' @ [nl] @ ''three''"
  have lines: "lines_of ?s = [''one'', [], ''two'', ''stop'', ''three'']"
    by code_simp
  then have "list_all (\<lambda>l. length l \<le> max_line_bytes) (lines_of ?s)"
    by (simp add: max_line_bytes_def)
  then have "for_each_line 16 None keep_line [] ?s [] = run_lines keep_line (lines_of ?s) []"
    by (rule for_each_line_lines)
  then show ?thesis
    unfolding lines by (simp add: flush_line_def keep_line_def)
qed

end
