(* ===== verification/Parser.thy ===== *)
theory Parser
  imports Ansi Protocol
begin

text \<open>
  The line parser of command output (\<open>engine/generic_parser.go\<close>): stack traces and diffs are gathered until a line
  that does not belong to them, lines that report a step become step updates, every other line a log event; and its use
  on the output of a command (\<open>streamOutput\<close> of \<open>engine/exec_engine.go\<close>). The regular expressions are written out as
  predicates on bytes. All events of one call carry the time \<open>now\<close>.
\<close>

section \<open>Regular expressions\<close>

definition re_space :: "char \<Rightarrow> bool" where
  "re_space c \<longleftrightarrow> byte c \<in> {9, 10, 12, 13, 32}"

definition letter :: "char \<Rightarrow> bool" where
  "letter c \<longleftrightarrow> 65 \<le> byte c \<and> byte c \<le> 90 \<or> 97 \<le> byte c \<and> byte c \<le> 122"

definition decimal :: "char \<Rightarrow> bool" where
  "decimal c \<longleftrightarrow> 48 \<le> byte c \<and> byte c \<le> 57"

definition word_char :: "char \<Rightarrow> bool" where
  "word_char c \<longleftrightarrow> letter c \<or> decimal c \<or> c = CHR ''_''"

text \<open>A word boundary after a letter, then anything but a line feed up to the end.\<close>

definition word_end :: "string \<Rightarrow> bool" where
  "word_end s \<longleftrightarrow> (case s of [] \<Rightarrow> True | c # _ \<Rightarrow> \<not> word_char c) \<and> nl \<notin> set s"

definition strip_bullet :: "string \<Rightarrow> string" where
  "strip_bullet s =
     (if has_prefix s [CHR 0xE2, CHR 0x80, CHR 0xA2] then dropWhile re_space (drop 3 s)
      else (case s of c # t \<Rightarrow> if c \<in> {CHR ''*'', CHR ''-''} then dropWhile re_space t else s | [] \<Rightarrow> []))"

definition starts_with_word :: "string list \<Rightarrow> string \<Rightarrow> bool" where
  "starts_with_word ws s \<longleftrightarrow> list_ex (\<lambda>w. has_prefix (strip_bullet s) w \<and> word_end (drop (length w) (strip_bullet s))) ws"

definition step_words :: "string list" where
  "step_words = [''Installing'', ''Reading'', ''Updating'', ''Creating'', ''Running'', ''Thinking'', ''Analyzing'',
     ''Writing'', ''Editing'', ''Checking'', ''Loading'', ''Searching'', ''Inspecting'', ''Planning'', ''Applying'',
     ''Resolving'', ''Building'', ''Compiling'', ''Testing'', ''Reviewing'', ''Opening'', ''Exploring'']"

definition done_words :: "string list" where
  "done_words = [''Done'', ''Completed'', ''Finished'', ''Resolved'']"

text \<open>\<open>pathTailPattern\<close>: the leftmost suffix that is a path with an extension.\<close>

definition path_char :: "char \<Rightarrow> bool" where
  "path_char c \<longleftrightarrow> letter c \<or> decimal c \<or> c \<in> {CHR ''_'', CHR ''.'', CHR ''/'', CHR 0x5C, CHR ''-''}"

definition ext_char :: "char \<Rightarrow> bool" where
  "ext_char c \<longleftrightarrow> letter c \<or> decimal c \<or> c \<in> {CHR ''_'', CHR ''+'', CHR ''-''}"

definition is_path_tail :: "string \<Rightarrow> bool" where
  "is_path_tail s \<longleftrightarrow> list_ex (\<lambda>i. list_all path_char (take i s) \<and> s ! i = CHR ''.'' \<and> drop (Suc i) s \<noteq> [] \<and>
     list_all ext_char (drop (Suc i) s)) [1..<length s]"

fun path_tail :: "string \<Rightarrow> string option" where
  "path_tail [] = None"
| "path_tail (c # s) = (if is_path_tail (c # s) then Some (c # s) else path_tail s)"

text \<open>\<open>diffGitStartPattern\<close>: the first group is as long as it can be; the second one is returned.\<close>

definition diff_git_path :: "string \<Rightarrow> string option" where
  "diff_git_path s =
     (let r = drop 13 s in
      if \<not> has_prefix s ''diff --git a/'' \<or> nl \<in> set r then None
      else map_option (\<lambda>i. drop (i + 3) r)
        (find (\<lambda>i. has_prefix (drop i r) '' b/'' \<and> drop (i + 3) r \<noteq> []) (rev [1..<length r])))"

definition is_diff_hunk :: "string \<Rightarrow> bool" where
  "is_diff_hunk s \<longleftrightarrow> has_prefix s ''@@ '' \<and>
     list_ex (\<lambda>i. has_prefix (drop i (drop 3 s)) '' @@'' \<and> nl \<notin> set (take i (drop 3 s))) [1..<length (drop 3 s)]"

text \<open>
  \<open>patchFilePattern\<close>: the action and the path. White space alone after the colon leaves its last character for the
  path, unless that is a line feed.
\<close>

definition patch_path :: "string \<Rightarrow> string option" where
  "patch_path r =
     (let w = takeWhile re_space r; p = dropWhile re_space r in
      if w = [] \<or> nl \<in> set p then None
      else if p \<noteq> [] then Some p
      else if 2 \<le> length w \<and> last w \<noteq> nl then Some [last w] else None)"

definition patch_file :: "string \<Rightarrow> (string \<times> string) option" where
  "patch_file s =
     (if has_prefix s ''*** Update File:'' then map_option (Pair ''Update'') (patch_path (drop 16 s))
      else if has_prefix s ''*** Add File:'' then map_option (Pair ''Add'') (patch_path (drop 13 s))
      else if has_prefix s ''*** Delete File:'' then map_option (Pair ''Delete'') (patch_path (drop 16 s))
      else None)"

definition is_python_start :: "string \<Rightarrow> bool" where
  "is_python_start s \<longleftrightarrow> s = ''Traceback (most recent call last):''"

definition is_java_start :: "string \<Rightarrow> bool" where
  "is_java_start s \<longleftrightarrow> has_prefix s ''Exception in thread ''"

text \<open>A line such as \<open>ValueError: message\<close>, its last word given.\<close>

definition exception_line :: "string \<Rightarrow> string \<Rightarrow> bool" where
  "exception_line suf s \<longleftrightarrow> s \<noteq> [] \<and> (letter (hd s) \<or> hd s = CHR ''_'') \<and>
     list_ex (\<lambda>i. list_all (\<lambda>c. word_char c \<or> c = CHR ''.'') (take i s) \<and> has_prefix (drop i s) suf \<and>
       length (drop i s) > length suf \<and> s ! (i + length suf) \<noteq> nl) [1..<length s]"

definition is_python_exception :: "string \<Rightarrow> bool" where
  "is_python_exception s \<longleftrightarrow> exception_line ''Error: '' s \<or> exception_line ''Exception: '' s"

definition is_java_stack :: "string \<Rightarrow> bool" where
  "is_java_stack s \<longleftrightarrow> (let r = dropWhile re_space s in
     takeWhile re_space s \<noteq> [] \<and> has_prefix r ''at'' \<and> (case drop 2 r of c # _ \<Rightarrow> re_space c | [] \<Rightarrow> False))"

section \<open>The parser\<close>

record parser =
  gp_buffer :: "string list"
  gp_buffering :: bool
  gp_error_kind :: string
  gp_diff_buffer :: "string list"
  gp_diffing :: bool
  gp_diff_path :: string
  gp_diff_title :: string
  gp_diff_lang :: string
  gp_patch :: bool

definition new_parser :: parser where
  "new_parser = \<lparr>gp_buffer = [], gp_buffering = False, gp_error_kind = [], gp_diff_buffer = [], gp_diffing = False,
     gp_diff_path = [], gp_diff_title = [], gp_diff_lang = [], gp_patch = False\<rparr>"

definition new_log_event :: "time \<Rightarrow> string \<Rightarrow> string \<Rightarrow> string \<Rightarrow> log_event" where
  "new_log_event now sid message stream =
     event.extend (new_base_event now ''log'' sid) (log_event.fields message stream stream None)"

definition new_step_update_event ::
  "time \<Rightarrow> string \<Rightarrow> string \<Rightarrow> string \<Rightarrow> string \<Rightarrow> string \<Rightarrow> string \<Rightarrow> step_update_event" where
  "new_step_update_event now sid message status target tool command =
     event.extend (new_base_event now ''step_update'' sid) (step_update_event.fields message status target tool command)"

definition new_file_diff_event :: "time \<Rightarrow> string \<Rightarrow> string \<Rightarrow> string \<Rightarrow> string \<Rightarrow> string \<Rightarrow> file_diff_event" where
  "new_file_diff_event now sid path title diff lang =
     event.extend (new_base_event now ''file_diff'' sid) (file_diff_event.fields path title diff lang)"

definition should_continue_error :: "string \<Rightarrow> string \<Rightarrow> bool" where
  "should_continue_error kind line \<longleftrightarrow>
     line = [] \<or>
     (if kind = ''python'' then has_prefix line ''  File '' \<or> has_prefix line ''    '' \<or> is_python_exception line
      else if kind = ''java'' then is_java_stack line \<or> has_prefix line ''Caused by: '' \<or>
        has_prefix line ([CHR 0x09] @ ''...'') \<or> has_prefix line ([CHR 0x09] @ ''Suppressed: '')
      else False)"

fun last_non_empty_line :: "string list \<Rightarrow> string" where
  "last_non_empty_line [] = []"
| "last_non_empty_line (l # ls) =
     (if last_non_empty_line ls \<noteq> [] then last_non_empty_line ls else trim_space l)"

definition flush_error :: "time \<Rightarrow> string \<Rightarrow> parser \<Rightarrow> parser \<times> payload list" where
  "flush_error now sid p =
     (let stack = join [nl] (gp_buffer p); message = last_non_empty_line (gp_buffer p);
          message = (if message = [] \<and> gp_buffer p \<noteq> [] then hd (gp_buffer p) else message)
      in (p\<lparr>gp_buffer := [], gp_buffering := False, gp_error_kind := []\<rparr>, [EvError (new_error_event now sid message stack)]))"

definition start_error :: "string \<Rightarrow> string \<Rightarrow> parser \<Rightarrow> parser" where
  "start_error kind line p = p\<lparr>gp_buffering := True, gp_error_kind := kind, gp_buffer := [line]\<rparr>"

text \<open>\<open>filepath.Ext\<close>\<close>

fun ext_from :: "string \<Rightarrow> string \<Rightarrow> string" where
  "ext_from suf [] = []"
| "ext_from suf (c # rest) =
     (if c = CHR ''/'' then [] else if c = CHR ''.'' then c # suf else ext_from (c # suf) rest)"

definition file_ext :: "string \<Rightarrow> string" where
  "file_ext path = ext_from [] (rev path)"

definition set_diff_path :: "string \<Rightarrow> parser \<Rightarrow> parser" where
  "set_diff_path path p =
     (let path = trim_space path in
      if path = [] \<or> path = ''/dev/null'' then p
      else (let ext = trim_prefix (file_ext path) ''.'' in
        p\<lparr>gp_diff_path := path, gp_diff_lang := (if ext \<noteq> [] then ext else gp_diff_lang p),
          gp_diff_title := (if gp_diff_title p = [] then ''Updating '' @ path else gp_diff_title p)\<rparr>))"

definition capture_metadata :: "string \<Rightarrow> parser \<Rightarrow> parser" where
  "capture_metadata line p =
     (case diff_git_path line of
        Some path \<Rightarrow> (let p = set_diff_path path p in
          if gp_diff_title p = [] then p\<lparr>gp_diff_title := ''Updating '' @ path\<rparr> else p)
      | None \<Rightarrow> (case patch_file line of
          Some (action, path) \<Rightarrow> (let path = trim_space path in
            (set_diff_path path p)\<lparr>gp_diff_title := action @ '' '' @ path\<rparr>)
        | None \<Rightarrow>
            if has_prefix line ''+++ b/'' then set_diff_path (trim_prefix line ''+++ b/'') p
            else if has_prefix line ''--- a/'' \<and> gp_diff_path p = [] then set_diff_path (trim_prefix line ''--- a/'') p
            else p))"

definition append_diff_line :: "string \<Rightarrow> parser \<Rightarrow> parser" where
  "append_diff_line line p = capture_metadata line (p\<lparr>gp_diff_buffer := gp_diff_buffer p @ [line]\<rparr>)"

definition start_diff :: "string \<Rightarrow> parser \<Rightarrow> parser" where
  "start_diff line p = append_diff_line line (p\<lparr>gp_diffing := True, gp_diff_buffer := [], gp_diff_path := [],
     gp_diff_title := [], gp_diff_lang := [], gp_patch := has_prefix line ''*** ''\<rparr>)"

definition is_diff_start :: "string \<Rightarrow> bool" where
  "is_diff_start line \<longleftrightarrow>
     (let t = trim_space line in t \<noteq> [] \<and>
       (diff_git_path t \<noteq> None \<or> has_prefix t ''*** Begin Patch'' \<or> patch_file t \<noteq> None \<or> has_prefix t ''--- '' \<or>
        has_prefix t ''+++ '' \<or> is_diff_hunk t))"

text \<open>The last prefix has two backslashes: it stands in a raw string of the source.\<close>

definition diff_prefixes :: "string list" where
  "diff_prefixes = [''index '', ''new file mode '', ''deleted file mode '', ''similarity index '', ''rename from '',
     ''rename to '', ''--- '', ''+++ '', ''+'', ''-'', '' '', [CHR 0x5C, CHR 0x5C] @ '' No newline at end of file'']"

definition should_continue_diff :: "bool \<Rightarrow> string \<Rightarrow> bool" where
  "should_continue_diff patch line \<longleftrightarrow>
     line = [] \<or>
     (if patch then list_ex (has_prefix line) [''*** '', ''@@'', ''+'', ''-'', '' '']
      else is_diff_start line \<or> is_diff_hunk line \<or> list_ex (has_prefix line) diff_prefixes)"

definition flush_diff :: "time \<Rightarrow> string \<Rightarrow> parser \<Rightarrow> parser \<times> payload list" where
  "flush_diff now sid p =
     (let title = (if gp_diff_title p \<noteq> [] then gp_diff_title p
          else if gp_diff_path p \<noteq> [] then ''Updating '' @ gp_diff_path p else ''File diff'')
      in (p\<lparr>gp_diff_buffer := [], gp_diffing := False, gp_diff_path := [], gp_diff_title := [], gp_diff_lang := [],
            gp_patch := False\<rparr>,
          [EvFileDiff (new_file_diff_event now sid (gp_diff_path p) title (join [nl] (gp_diff_buffer p)) (gp_diff_lang p))]))"

definition detect_step :: "string \<Rightarrow> (string \<times> string \<times> string) option" where
  "detect_step line =
     (let t = trim_space line in
      if t = [] \<or> 140 < length t \<or> list_ex (str_contains t) [''$'', ''|'', [CHR 0x09]] \<or>
         list_ex (has_prefix t) [''['', ''('', ''{''] \<or> str_contains t ''://'' \<or>
         \<not> (starts_with_word step_words t \<or> starts_with_word done_words t)
      then None
      else Some (t,
        if starts_with_word done_words t then ''done'' else if has_suffix t ''...'' then ''info'' else ''running'',
        case path_tail t of Some p \<Rightarrow> p | None \<Rightarrow> []))"

definition step_tool_and_command :: "string \<Rightarrow> string \<times> string" where
  "step_tool_and_command message =
     (let t = trim_space message in
      if t = [] then ([], []) else (case GoStrings.fields t of [] \<Rightarrow> ([], []) | w # _ \<Rightarrow> (to_lower w, t)))"

text \<open>The branches of \<open>parseLine\<close> when nothing is being gathered.\<close>

definition parse_fresh :: "time \<Rightarrow> string \<Rightarrow> string \<Rightarrow> string \<Rightarrow> parser \<Rightarrow> parser \<times> payload list" where
  "parse_fresh now sid stream line p =
     (if is_python_start line then (start_error ''python'' line p, [])
      else if is_java_start line then (start_error ''java'' line p, [])
      else if is_diff_start line
      then (let p = start_diff line p in if gp_patch p \<and> line = ''*** End Patch'' then flush_diff now sid p else (p, []))
      else (case detect_step line of
          Some (message, status, target) \<Rightarrow> (case step_tool_and_command message of (tool, command) \<Rightarrow>
            (p, [EvStepUpdate (new_step_update_event now sid message status target tool command)]))
        | None \<Rightarrow> (p, [EvLog (new_log_event now sid line stream)])))"

text \<open>
  \<open>parseLine\<close>: a line that does not belong to what is being gathered flushes it and is parsed again.
\<close>

function parse_line :: "time \<Rightarrow> string \<Rightarrow> string \<Rightarrow> string \<Rightarrow> parser \<Rightarrow> parser \<times> payload list" where
  "parse_line now sid stream line p =
     (if gp_buffering p
      then if should_continue_error (gp_error_kind p) line then (p\<lparr>gp_buffer := gp_buffer p @ [line]\<rparr>, [])
        else (case flush_error now sid p of (p', evs) \<Rightarrow>
          if line = [] then (p', evs)
          else (case parse_line now sid stream line p' of (p'', evs') \<Rightarrow> (p'', evs @ evs')))
      else if gp_diffing p
      then if should_continue_diff (gp_patch p) line
        then (let p = append_diff_line line p in
          if gp_patch p \<and> line = ''*** End Patch'' then flush_diff now sid p else (p, []))
        else (case flush_diff now sid p of (p', evs) \<Rightarrow>
          if line = [] then (p', evs)
          else (case parse_line now sid stream line p' of (p'', evs') \<Rightarrow> (p'', evs @ evs')))
      else parse_fresh now sid stream line p)"
  by pat_completeness auto
termination
  by (relation "measure (\<lambda>(now, sid, stream, line, p). of_bool (gp_buffering p) + of_bool (gp_diffing p))")
    (auto simp: flush_error_def flush_diff_def Let_def)

definition trim_eol :: "string \<Rightarrow> string" where
  "trim_eol s = dropWhile (\<lambda>c. c = cr) (rev (dropWhile (\<lambda>c. c = cr \<or> c = nl) (rev s)))"

definition parser_line :: "time \<Rightarrow> string \<Rightarrow> string \<Rightarrow> string \<Rightarrow> parser \<Rightarrow> parser \<times> payload list" where
  "parser_line now sid stream line p = parse_line now sid stream (trim_eol line) p"

definition parser_flush :: "time \<Rightarrow> string \<Rightarrow> parser \<Rightarrow> parser \<times> payload list" where
  "parser_flush now sid p =
     (case (if gp_buffering p then flush_error now sid p else (p, [])) of (p, evs) \<Rightarrow>
      (case (if gp_diffing p then flush_diff now sid p else (p, [])) of (p, evs') \<Rightarrow> (p, evs @ evs')))"

definition has_pending_diff :: "parser \<Rightarrow> bool" where
  "has_pending_diff p \<longleftrightarrow> gp_diffing p \<and> gp_diff_buffer p \<noteq> []"

text \<open>The lines of a stream, one after the other.\<close>

fun parse_lines :: "time \<Rightarrow> string \<Rightarrow> string \<Rightarrow> string list \<Rightarrow> parser \<Rightarrow> parser \<times> payload list" where
  "parse_lines now sid stream [] p = (p, [])"
| "parse_lines now sid stream (l # ls) p =
     (case parser_line now sid stream l p of (p', evs) \<Rightarrow>
      (case parse_lines now sid stream ls p' of (p'', evs') \<Rightarrow> (p'', evs @ evs')))"

section \<open>The output of a command\<close>

definition attach_execution_meta :: "string \<Rightarrow> string \<Rightarrow> payload \<Rightarrow> payload" where
  "attach_execution_meta exec stream e =
     (case apply_runtime_meta e (empty_meta\<lparr>m_execution_id := exec\<rparr>) of
        EvLog l \<Rightarrow> EvLog (if le_phase l = [] then l\<lparr>le_phase := stream\<rparr> else l)
      | e' \<Rightarrow> e')"

definition output_line ::
  "time \<Rightarrow> string \<Rightarrow> string \<Rightarrow> string \<Rightarrow> string \<Rightarrow> parser \<times> payload list \<Rightarrow> (parser \<times> payload list) \<times> string option" where
  "output_line now sid exec stream line st =
     (case st of (p, sent) \<Rightarrow> (case parser_line now sid stream line p of (p', evs) \<Rightarrow>
        ((p', sent @ map (attach_execution_meta exec stream) evs), None)))"

definition read_error_text :: "string line_error \<Rightarrow> string" where
  "read_error_text e = (case e of
     Line_too_long \<Rightarrow> ''line too long: exceeded 16777216 bytes'' | Callback_failed t \<Rightarrow> t | Read_failed t \<Rightarrow> t)"

text \<open>The events \<open>streamOutput\<close> sends for a stream of bytes that ends with \<open>ending\<close>.\<close>

definition stream_output ::
  "nat \<Rightarrow> string option \<Rightarrow> time \<Rightarrow> string \<Rightarrow> string \<Rightarrow> string \<Rightarrow> string \<Rightarrow> payload list" where
  "stream_output n ending now sid exec stream s =
     (case for_each_line n ending (output_line now sid exec stream) [] s (new_parser, []) of ((p, sent), failure) \<Rightarrow>
      (case parser_flush now sid p of (p', evs) \<Rightarrow>
        sent @ map (attach_execution_meta exec stream) evs @
        (case failure of None \<Rightarrow> []
         | Some e \<Rightarrow> [apply_runtime_meta (EvError (new_error_event now sid (''read '' @ stream @ '': '' @ read_error_text e) []))
             (empty_meta\<lparr>m_execution_id := exec\<rparr>)])))"

section \<open>Lemmas\<close>

text \<open>The lines of the output an event reports.\<close>

definition event_lines :: "payload \<Rightarrow> string list" where
  "event_lines e = (case e of
     EvLog l \<Rightarrow> [le_message l] | EvStepUpdate u \<Rightarrow> [su_message u]
   | EvError x \<Rightarrow> split_on nl (ee_stack x) | EvFileDiff d \<Rightarrow> split_on nl (fd_diff d) | _ \<Rightarrow> [])"

abbreviation lines_in :: "payload list \<Rightarrow> string list" where
  "lines_in evs \<equiv> concat (map event_lines evs)"

text \<open>A line is reported as it is, or without the white space around it (in a step).\<close>

definition same_lines :: "string list \<Rightarrow> string list \<Rightarrow> bool" where
  "same_lines = list_all2 (\<lambda>l l'. l' = l \<or> l' = trim_space l)"

lemma same_lines_refl [simp]: "same_lines ls ls"
  by (simp add: same_lines_def list.rel_refl)

lemma same_lines_append: "same_lines ls ls' \<Longrightarrow> same_lines ms ms' \<Longrightarrow> same_lines (ls @ ms) (ls' @ ms')"
  by (simp add: same_lines_def list_all2_appendI)

lemma same_lines_trans: "same_lines ls ms \<Longrightarrow> same_lines ms ns \<Longrightarrow> same_lines ls ns"
  unfolding same_lines_def list_all2_conv_all_nth by (metis trim_space_idem)

lemma same_lines_chain:
  assumes "same_lines ls (us @ vs)" and "same_lines (vs @ ms) ns"
  shows "same_lines (ls @ ms) (us @ ns)"
proof (rule same_lines_trans)
  show "same_lines (ls @ ms) (us @ vs @ ms)"
    using same_lines_append [OF assms(1) same_lines_refl [of ms]] by simp
  show "same_lines (us @ vs @ ms) (us @ ns)"
    by (rule same_lines_append [OF same_lines_refl assms(2)])
qed

definition gathered :: "parser \<Rightarrow> string list" where
  "gathered p = gp_buffer p @ gp_diff_buffer p"

definition parser_ok :: "parser \<Rightarrow> bool" where
  "parser_ok p \<longleftrightarrow>
     (if gp_buffering p then gp_buffer p \<noteq> [] else gp_buffer p = [] \<and> gp_error_kind p = []) \<and>
     (if gp_diffing p then gp_diff_buffer p \<noteq> []
      else gp_diff_buffer p = [] \<and> gp_diff_path p = [] \<and> gp_diff_title p = [] \<and> gp_diff_lang p = [] \<and> \<not> gp_patch p) \<and>
     \<not> (gp_buffering p \<and> gp_diffing p) \<and> list_all (\<lambda>l. nl \<notin> set l) (gathered p)"

lemma split_join: "ls \<noteq> [] \<Longrightarrow> list_all (\<lambda>l. c \<notin> set l) ls \<Longrightarrow> split_on c (join [c] ls) = ls"
  by (induction "[c]" ls rule: join.induct) (auto simp: split_on_app split_on_none)

lemma new_parser_ok [simp]: "parser_ok new_parser" "gathered new_parser = []"
  by (simp_all add: parser_ok_def new_parser_def gathered_def)

lemma idle_parser: "parser_ok p \<Longrightarrow> \<not> gp_buffering p \<Longrightarrow> \<not> gp_diffing p \<Longrightarrow> p = new_parser"
  by (cases p) (simp add: parser_ok_def new_parser_def)

lemma set_diff_path_keeps [simp]:
  "gp_buffer (set_diff_path x p) = gp_buffer p" "gp_buffering (set_diff_path x p) = gp_buffering p"
  "gp_error_kind (set_diff_path x p) = gp_error_kind p" "gp_diff_buffer (set_diff_path x p) = gp_diff_buffer p"
  "gp_diffing (set_diff_path x p) = gp_diffing p" "gp_patch (set_diff_path x p) = gp_patch p"
  by (simp_all add: set_diff_path_def Let_def)

lemma append_diff_keeps [simp]:
  "gp_buffer (append_diff_line x p) = gp_buffer p" "gp_buffering (append_diff_line x p) = gp_buffering p"
  "gp_error_kind (append_diff_line x p) = gp_error_kind p"
  "gp_diff_buffer (append_diff_line x p) = gp_diff_buffer p @ [x]"
  "gp_diffing (append_diff_line x p) = gp_diffing p" "gp_patch (append_diff_line x p) = gp_patch p"
  by (simp_all add: append_diff_line_def capture_metadata_def Let_def split: option.split prod.split)

lemma append_diff_ok:
  assumes "parser_ok p" and "gp_diffing p" and "nl \<notin> set line"
  shows "parser_ok (append_diff_line line p)" and "gathered (append_diff_line line p) = gathered p @ [line]"
  using assms by (simp_all add: parser_ok_def gathered_def)

lemma flush_error_ok:
  assumes "parser_ok p" and "gp_buffering p"
  shows "fst (flush_error now sid p) = new_parser" and "lines_in (snd (flush_error now sid p)) = gathered p"
proof -
  have "split_on nl (join [nl] (gp_buffer p)) = gp_buffer p"
    using assms by (simp add: split_join parser_ok_def gathered_def)
  then show "lines_in (snd (flush_error now sid p)) = gathered p"
    using assms by (simp add: flush_error_def Let_def event_lines_def new_error_event_def new_base_event_def event.defs
        error_event.defs gathered_def parser_ok_def)
qed (use assms in \<open>cases p; simp add: flush_error_def Let_def parser_ok_def new_parser_def\<close>)

lemma flush_diff_ok:
  assumes "parser_ok p" and "gp_diffing p"
  shows "fst (flush_diff now sid p) = new_parser" and "lines_in (snd (flush_diff now sid p)) = gathered p"
proof -
  have "split_on nl (join [nl] (gp_diff_buffer p)) = gp_diff_buffer p"
    using assms by (simp add: split_join parser_ok_def gathered_def)
  then show "lines_in (snd (flush_diff now sid p)) = gathered p"
    using assms by (simp add: flush_diff_def Let_def event_lines_def new_file_diff_event_def new_base_event_def event.defs
        file_diff_event.defs gathered_def parser_ok_def)
qed (use assms in \<open>cases p; simp add: flush_diff_def Let_def parser_ok_def new_parser_def\<close>)

text \<open>What a step of the parser keeps: the lines gathered before and the new one are reported or still gathered.\<close>

definition keeps :: "string \<Rightarrow> parser \<Rightarrow> parser \<times> payload list \<Rightarrow> bool" where
  "keeps line p r \<longleftrightarrow> parser_ok (fst r) \<and> same_lines (gathered p @ [line]) (lines_in (snd r) @ gathered (fst r))"

lemma keeps_after_flush:
  assumes "keeps line new_parser r" and "lines_in evs = gathered p"
  shows "keeps line p (case r of (p'', evs') \<Rightarrow> (p'', evs @ evs'))"
  using assms same_lines_append [OF same_lines_refl [of "gathered p"], of "[line]"] by (cases r) (auto simp: keeps_def)

lemma detect_step_message: "detect_step line = Some (m, s, t) \<Longrightarrow> m = trim_space line"
  by (simp add: detect_step_def Let_def split: if_splits)

lemma keeps_fresh:
  assumes "nl \<notin> set line"
  shows "keeps line new_parser (parse_fresh now sid stream line new_parser)"
proof -
  have start: "keeps line new_parser (start_error kind line new_parser, [])" for kind
    using assms by (simp add: keeps_def start_error_def new_parser_def parser_ok_def gathered_def)
  have diff: "parser_ok (start_diff line new_parser)" "gathered (start_diff line new_parser) = [line]"
    "gp_diffing (start_diff line new_parser)"
    using assms by (simp_all add: start_diff_def new_parser_def parser_ok_def gathered_def)
  have flushed: "keeps line new_parser (flush_diff now sid (start_diff line new_parser))"
    using flush_diff_ok [OF diff(1,3), of now sid] by (simp add: keeps_def diff)
  show ?thesis
    using start flushed diff
    by (auto simp: parse_fresh_def Let_def keeps_def event_lines_def new_log_event_def new_step_update_event_def
        new_base_event_def event.defs log_event.defs step_update_event.defs same_lines_def dest!: detect_step_message
        split: option.split prod.split)
qed

declare parse_line.simps [simp del]

lemma keeps_line:
  assumes "parser_ok p" and "nl \<notin> set line"
  shows "keeps line p (parse_line now sid stream line p)"
proof -
  have fresh: "parse_line now sid stream line new_parser = parse_fresh now sid stream line new_parser"
    by (subst parse_line.simps) (simp add: new_parser_def)
  show ?thesis
  proof (cases "gp_buffering p")
    case True
    show ?thesis
    proof (cases "should_continue_error (gp_error_kind p) line")
      case continues: True
      then have "parse_line now sid stream line p = (p\<lparr>gp_buffer := gp_buffer p @ [line]\<rparr>, [])"
        using True by (subst parse_line.simps) simp
      then show ?thesis
        using assms True by (simp add: keeps_def parser_ok_def gathered_def)
    next
      case False
      obtain evs where flush: "flush_error now sid p = (new_parser, evs)" "lines_in evs = gathered p"
        using flush_error_ok [OF assms(1) True, of now sid] by (metis prod.collapse)
      then have "parse_line now sid stream line p =
          (case parse_fresh now sid stream line new_parser of (p'', evs') \<Rightarrow> (p'', evs @ evs'))"
        using True False fresh by (subst parse_line.simps) (simp add: should_continue_error_def)
      then show ?thesis
        using keeps_after_flush [OF keeps_fresh [OF assms(2)] flush(2)] by simp
    qed
  next
    case idle: False
    show ?thesis
    proof (cases "gp_diffing p")
      case True
      show ?thesis
      proof (cases "should_continue_diff (gp_patch p) line")
        case continues: True
        let ?q = "append_diff_line line p"
        have "parse_line now sid stream line p = (if gp_patch p \<and> line = ''*** End Patch'' then flush_diff now sid ?q else (?q, []))"
          using idle True continues by (subst parse_line.simps) (simp add: Let_def)
        moreover have "keeps line p (flush_diff now sid ?q)" "keeps line p (?q, [])"
          using append_diff_ok [OF assms(1) True assms(2)] flush_diff_ok [of ?q now sid] True by (simp_all add: keeps_def)
        ultimately show ?thesis
          by presburger
      next
        case False
        obtain evs where flush: "flush_diff now sid p = (new_parser, evs)" "lines_in evs = gathered p"
          using flush_diff_ok [OF assms(1) True, of now sid] by (metis prod.collapse)
        then have "parse_line now sid stream line p =
            (case parse_fresh now sid stream line new_parser of (p'', evs') \<Rightarrow> (p'', evs @ evs'))"
          using True False idle fresh by (subst parse_line.simps) (simp add: should_continue_diff_def)
        then show ?thesis
          using keeps_after_flush [OF keeps_fresh [OF assms(2)] flush(2)] by simp
      qed
    next
      case False
      then have "p = new_parser"
        using idle_parser [OF assms(1) idle] by simp
      then show ?thesis
        using fresh keeps_fresh [OF assms(2)] by simp
    qed
  qed
qed

lemma trim_eol_no_nl: "nl \<notin> set l \<Longrightarrow> nl \<notin> set (trim_eol l)"
  unfolding trim_eol_def by (metis set_dropWhileD set_rev)

lemma parser_flush_ok:
  assumes "parser_ok p"
  shows "fst (parser_flush now sid p) = new_parser \<and> lines_in (snd (parser_flush now sid p)) = gathered p"
proof (cases "gp_buffering p")
  case True
  obtain evs where "flush_error now sid p = (new_parser, evs)" "lines_in evs = gathered p"
    using flush_error_ok [OF assms True, of now sid] by (metis prod.collapse)
  then show ?thesis
    using True by (simp add: parser_flush_def) (simp add: new_parser_def)
next
  case idle: False
  show ?thesis
  proof (cases "gp_diffing p")
    case True
    then show ?thesis
      using flush_diff_ok [OF assms True, of now sid] idle by (simp add: parser_flush_def split: prod.split)
  next
    case False
    then show ?thesis
      using idle idle_parser [OF assms idle] by (simp add: parser_flush_def new_parser_def gathered_def)
  qed
qed

lemma parse_lines_keep:
  assumes "parser_ok p" and "list_all (\<lambda>l. nl \<notin> set l) ls"
  shows "parser_ok (fst (parse_lines now sid stream ls p)) \<and>
    same_lines (gathered p @ map trim_eol ls)
      (lines_in (snd (parse_lines now sid stream ls p)) @ gathered (fst (parse_lines now sid stream ls p)))"
  using assms
proof (induction ls arbitrary: p)
  case (Cons l ls)
  obtain p' evs where line: "parser_line now sid stream l p = (p', evs)"
    by (cases "parser_line now sid stream l p")
  then have ok: "parser_ok p'" and first: "same_lines (gathered p @ [trim_eol l]) (lines_in evs @ gathered p')"
    using keeps_line [of p "trim_eol l" now sid stream] Cons.prems trim_eol_no_nl by (simp_all add: parser_line_def keeps_def)
  obtain p'' evs' where rest: "parse_lines now sid stream ls p' = (p'', evs')"
    by (cases "parse_lines now sid stream ls p'")
  have "parser_ok p''" and later: "same_lines (gathered p' @ map trim_eol ls) (lines_in evs' @ gathered p'')"
    using Cons.IH [OF ok] Cons.prems(2) rest by simp_all
  moreover have "same_lines (gathered p @ trim_eol l # map trim_eol ls) (lines_in evs @ lines_in evs' @ gathered p'')"
    using same_lines_chain [OF first later] by simp
  ultimately show ?case
    by (simp add: line rest)
qed simp

lemma attach_lines [simp]: "event_lines (attach_execution_meta exec stream e) = event_lines e"
  by (cases e) (simp_all add: attach_execution_meta_def event_lines_def)

lemma attach_lines_comp [simp]: "event_lines \<circ> attach_execution_meta exec stream = event_lines"
  by (rule ext) simp

lemma run_output_lines:
  "run_lines (output_line now sid exec stream) ls (p, sent) =
    ((fst (parse_lines now sid stream (filter (\<lambda>l. l \<noteq> []) ls) p),
      sent @ map (attach_execution_meta exec stream) (snd (parse_lines now sid stream (filter (\<lambda>l. l \<noteq> []) ls) p))), None)"
  by (induction ls arbitrary: p sent) (simp_all add: flush_line_def output_line_def split: prod.split)

lemma lines_of_no_nl: "list_all (\<lambda>l. nl \<notin> set l) (lines_of s)"
proof -
  have "nl \<notin> set l \<Longrightarrow> nl \<notin> set (drop_cr l)" for l
    by (auto simp: drop_cr_def dest: in_set_butlastD)
  then show ?thesis
    using split_on_no_sep [of _ nl s] by (auto simp: lines_of_def Let_def list_all_iff dest: in_set_butlastD)
qed

section \<open>Properties\<close>

text \<open>
  The parser loses nothing: when the lines of an output have been fed to it and it is flushed, its events report exactly
  those lines, once each and in order, a step without the white space around it, and the parser is as new.
\<close>

theorem parser_keeps_lines:
  assumes "list_all (\<lambda>l. nl \<notin> set l) ls" and "parse_lines now sid stream ls new_parser = (p, evs)"
    and "parser_flush now sid p = (p', evs')"
  shows "same_lines (map trim_eol ls) (lines_in (evs @ evs')) \<and> p' = new_parser"
  using parse_lines_keep [OF new_parser_ok(1) assms(1), of now sid stream] parser_flush_ok [of p now sid] assms(2,3) by simp

definition demo_lines :: "string list" where
  "demo_lines = [''Reading main.go '', ''Traceback (most recent call last):'', ''  File x.py, line 1'', ''ValueError: no'', ''bye'',
     ''diff --git a/x.go b/x.go'', ''@@ -1 +1 @@'', ''-old'', ''+new'']"

lemma parser_keeps_lines_witness:
  "\<exists>evs. snd (parse_lines 5 ''s'' ''stdout'' demo_lines new_parser) = evs \<and>
     same_lines demo_lines (lines_in (evs @ snd (parser_flush 5 ''s'' (fst (parse_lines 5 ''s'' ''stdout'' demo_lines new_parser)))))"
proof -
  have "list_all (\<lambda>l. nl \<notin> set l) demo_lines" "map trim_eol demo_lines = demo_lines"
    by code_simp+
  then show ?thesis
    using parser_keeps_lines [of demo_lines 5 "''s''" "''stdout''"] by (metis prod.collapse)
qed

text \<open>
  C21: The output of a command reaches the session complete: whatever the size of the buffer it is read with, the events of
  a stream that ends normally report its lines, those without a text apart, once each and in order.
\<close>

theorem command_output_complete:
  assumes "list_all (\<lambda>l. length l \<le> max_line_bytes) (lines_of s)"
  shows "same_lines (map trim_eol (filter (\<lambda>l. l \<noteq> []) (lines_of s))) (lines_in (stream_output n None now sid exec stream s))"
proof -
  let ?ls = "filter (\<lambda>l. l \<noteq> []) (lines_of s)"
  obtain p evs where lines: "parse_lines now sid stream ?ls new_parser = (p, evs)"
    by (cases "parse_lines now sid stream ?ls new_parser")
  obtain p' evs' where flush: "parser_flush now sid p = (p', evs')"
    by (cases "parser_flush now sid p")
  have "list_all (\<lambda>l. nl \<notin> set l) ?ls"
    using lines_of_no_nl [of s] by (simp add: list_all_iff)
  then have ok: "parser_ok p" "same_lines (map trim_eol ?ls) (lines_in evs @ gathered p)"
    using parse_lines_keep [OF new_parser_ok(1), of ?ls now sid stream] lines by simp_all
  have "stream_output n None now sid exec stream s =
      map (attach_execution_meta exec stream) evs @ map (attach_execution_meta exec stream) evs'"
    using for_each_line_run [of "[]" s n "output_line now sid exec stream" "(new_parser, [])"] assms
    by (simp add: stream_output_def run_output_lines lines flush)
  then show ?thesis
    using ok(2) parser_flush_ok [OF ok(1), of now sid] flush by simp
qed

lemma command_output_complete_witness:
  "lines_in (stream_output 16 None 5 ''s'' ''x'' ''stdout'' (''one'' @ [cr, nl, nl] @ ''two'')) = [''one'', ''two'']"
proof -
  let ?s = "''one'' @ [cr, nl, nl] @ ''two''"
  have "lines_of ?s = [''one'', [], ''two'']"
    by code_simp
  then have "list_all (\<lambda>l. length l \<le> max_line_bytes) (lines_of ?s)"
    and lines: "map trim_eol (filter (\<lambda>l. l \<noteq> []) (lines_of ?s)) = [''one'', ''two'']"
    by (simp_all add: max_line_bytes_def trim_eol_def)
  then have "same_lines [''one'', ''two''] (lines_in (stream_output 16 None 5 ''s'' ''x'' ''stdout'' ?s))"
    using command_output_complete [of ?s 16 5 "''s''" "''x''" "''stdout''"] by simp
  moreover have "trim_space ''one'' = ''one''" "trim_space ''two'' = ''two''"
    by code_simp+
  ultimately show ?thesis
    by (auto simp: same_lines_def list_all2_Cons1)
qed

text \<open>
  The line git prints after the last line of a file without a line feed ends a diff that is being gathered (it starts
  with one backslash, the parser expects two): a change of such a line is reported as a diff without the new line, and
  what follows as plain output.
\<close>

theorem no_newline_marker_ends_diff:
  "map event_lines (snd (parse_lines now sid stream
      [''diff --git a/x b/x'', ''@@ -1 +1 @@'', ''-old'', [CHR 0x5C] @ '' No newline at end of file'', ''+new''] new_parser)) =
     [[''diff --git a/x b/x'', ''@@ -1 +1 @@'', ''-old''], [[CHR 0x5C] @ '' No newline at end of file''], [''+new'']]"
  by code_simp

end
