(* ===== verification/PromptText.thy ===== *)
theory PromptText
  imports GoStrings
begin

text \<open>
  What the terminal reader makes of a text (\<open>engine/pty_engine.go\<close>): whether it is a prompt and with which options,
  whether it asks for a permission, what answers it, whether its emission can wait, and how a screen that is drawn
  again is folded. UTF-8 is decoded as \<open>unicode/utf8\<close> does: a byte that starts no valid sequence is the rune U+FFFD of
  width one.
\<close>

section \<open>Runes\<close>

definition cont_byte :: "char \<Rightarrow> bool" where
  "cont_byte c \<longleftrightarrow> 0x80 \<le> byte c \<and> byte c \<le> 0xBF"

definition low6 :: "char \<Rightarrow> nat" where "low6 c = byte c mod 64"

definition rune_error :: nat where "rune_error = 0xFFFD"

definition second_ok :: "nat \<Rightarrow> char \<Rightarrow> bool" where
  "second_ok a c \<longleftrightarrow>
     (if a = 0xE0 then 0xA0 \<le> byte c \<and> byte c \<le> 0xBF else if a = 0xED then 0x80 \<le> byte c \<and> byte c \<le> 0x9F
      else if a = 0xF0 then 0x90 \<le> byte c \<and> byte c \<le> 0xBF else if a = 0xF4 then 0x80 \<le> byte c \<and> byte c \<le> 0x8F
      else cont_byte c)"

text \<open>The first rune of a string that is not empty, and its width.\<close>

definition decode_rune :: "string \<Rightarrow> nat \<times> nat" where
  "decode_rune s =
     (let a = byte (hd s); r = tl s in
      if a < 0x80 then (a, 1)
      else if 0xC2 \<le> a \<and> a \<le> 0xDF \<and> 1 \<le> length r \<and> cont_byte (r ! 0) then (a mod 32 * 64 + low6 (r ! 0), 2)
      else if 0xE0 \<le> a \<and> a \<le> 0xEF \<and> 2 \<le> length r \<and> second_ok a (r ! 0) \<and> cont_byte (r ! 1)
      then (a mod 16 * 4096 + low6 (r ! 0) * 64 + low6 (r ! 1), 3)
      else if 0xF0 \<le> a \<and> a \<le> 0xF4 \<and> 3 \<le> length r \<and> second_ok a (r ! 0) \<and> cont_byte (r ! 1) \<and> cont_byte (r ! 2)
      then (a mod 8 * 262144 + low6 (r ! 0) * 4096 + low6 (r ! 1) * 64 + low6 (r ! 2), 4)
      else (rune_error, 1))"

lemma decode_rune_width: "0 < snd (decode_rune s)"
  by (simp add: decode_rune_def Let_def)

function runes :: "string \<Rightarrow> nat list" where
  "runes [] = []"
| "runes (c # s) = fst (decode_rune (c # s)) # runes (drop (snd (decode_rune (c # s))) (c # s))"
  by pat_completeness auto
termination
  by (relation "measure length") (auto simp: decode_rune_width)

abbreviation rune_count :: "string \<Rightarrow> nat" where "rune_count s \<equiv> length (runes s)"

definition encode_rune :: "nat \<Rightarrow> string" where
  "encode_rune n = map char_of
     (if n < 0x80 then [n]
      else if n < 0x800 then [0xC0 + n div 64, 0x80 + n mod 64]
      else if n < 0x10000 then [0xE0 + n div 4096, 0x80 + n div 64 mod 64, 0x80 + n mod 64]
      else [0xF0 + n div 262144, 0x80 + n div 4096 mod 64, 0x80 + n div 64 mod 64, 0x80 + n mod 64])"

section \<open>Screens and live tails\<close>

text \<open>\<open>strings.ReplaceAll\<close> of CR LF by LF, and then of CR by LF.\<close>

fun replace_crlf :: "string \<Rightarrow> string" where
  "replace_crlf (c # d # s) =
     (if c = CHR 0x0D \<and> d = CHR 0x0A then CHR 0x0A # replace_crlf s else c # replace_crlf (d # s))"
| "replace_crlf s = s"

definition cr_to_lf :: "string \<Rightarrow> string" where
  "cr_to_lf s = map (\<lambda>c. if c = CHR 0x0D then CHR 0x0A else c) s"

definition looks_like_screen_redraw :: "string \<Rightarrow> bool" where
  "looks_like_screen_redraw raw \<longleftrightarrow> list_ex (\<lambda>t. str_contains raw (CHR 0x1B # t))
     [''[K'', ''[?2026'', ''[1;1H'', ''[?25'', ''[39;49m'']"

definition normalize_screen_redraw :: "string \<Rightarrow> string \<Rightarrow> string" where
  "normalize_screen_redraw raw chunk =
     (if chunk = [] \<or> \<not> looks_like_screen_redraw raw then chunk
      else
        (let parts = split_on (CHR 0x0A) (cr_to_lf (replace_crlf chunk));
             full = filter (\<lambda>p. p \<noteq> []) parts; empty = length parts - length full
         in if length full < 4 \<or> list_ex (\<lambda>p. 2 < rune_count p) full \<or> empty < length full div 2 then chunk
            else concat full))"

definition live_tail_boundaries :: "string list" where
  "live_tail_boundaries = ['' '', [CHR 0x09], ''.'', '','', ''!'', ''?'', '':'', '';'', '')'', '']'', ''}'', ''>'',
     [CHR 0xE3, CHR 0x80, CHR 0x82], [CHR 0xEF, CHR 0xBC, CHR 0x8C], [CHR 0xEF, CHR 0xBC, CHR 0x81],
       [CHR 0xEF, CHR 0xBC, CHR 0x9F], [CHR 0xEF, CHR 0xBC, CHR 0x9A], [CHR 0xEF, CHR 0xBC, CHR 0x9B]]"

definition ends_with_live_tail_boundary :: "string \<Rightarrow> bool" where
  "ends_with_live_tail_boundary s \<longleftrightarrow> list_ex (has_suffix s) live_tail_boundaries"

fun common_prefix :: "nat list \<Rightarrow> nat list \<Rightarrow> nat" where
  "common_prefix (a # as) (b # bs) = (if a = b then Suc (common_prefix as bs) else 0)"
| "common_prefix _ _ = 0"

definition common_prefix_runes :: "string \<Rightarrow> string \<Rightarrow> nat" where
  "common_prefix_runes s t = common_prefix (runes s) (runes t)"

definition should_defer_live_tail :: "string \<Rightarrow> string \<Rightarrow> string \<Rightarrow> time \<Rightarrow> time \<Rightarrow> bool" where
  "should_defer_live_tail pending emitted raw last_emit now =
     (let t = trim_space pending; n = int (rune_count t); shared = int (common_prefix_runes t emitted) in
      if t = [] \<or> t = emitted then False
      else if ends_with_live_tail_boundary t then False
      else if is_zero last_emit then n < 12
      else if looks_like_screen_redraw raw \<and> now - last_emit < 250 * millisecond then True
      else if 0 < shared \<and> n - shared < 8 \<and> now - last_emit < 180 * millisecond then True
      else n < 16 \<and> now - last_emit < 120 * millisecond)"

definition should_flush_parser :: "string \<Rightarrow> bool \<Rightarrow> bool" where
  "should_flush_parser s prompt \<longleftrightarrow>
     trim_space s \<noteq> [] \<and> (prompt \<or> has_prefix (trim_space s) ''diff --git '' \<or> has_prefix (trim_space s) ''*** '')"

section \<open>Prompts\<close>

abbreviation contains_one :: "string \<Rightarrow> string list \<Rightarrow> bool" where
  "contains_one s ts \<equiv> list_ex (str_contains s) ts"

definition permission_words :: "string list" where
  "permission_words = [''permission'', ''authorize'', ''approval'', ''allow once'', ''allow this time'', ''always allow'', ''always deny'']"

definition txt_permission_words :: "string list" where
  "txt_permission_words = [[CHR 0xE6, CHR 0x8E, CHR 0x88, CHR 0xE6, CHR 0x9D, CHR 0x83], [CHR 0xE6, CHR 0x9D,
    CHR 0x83, CHR 0xE9, CHR 0x99, CHR 0x90], [CHR 0xE5, CHR 0x85, CHR 0x81, CHR 0xE8, CHR 0xAE, CHR 0xB8]]"

definition txt_permission_phrases :: "string list" where
  "txt_permission_phrases = [[CHR 0xE8, CHR 0xBF, CHR 0x98, CHR 0xE6, CHR 0xB2, CHR 0xA1, CHR 0xE6, CHR 0x8E,
    CHR 0x88, CHR 0xE6, CHR 0x9D, CHR 0x83], [CHR 0xE9, CHR 0x9C, CHR 0x80, CHR 0xE8, CHR 0xA6, CHR 0x81,
    CHR 0xE4, CHR 0xBD, CHR 0xA0, CHR 0xE7, CHR 0x9A, CHR 0x84, CHR 0xE6, CHR 0x8E, CHR 0x88, CHR 0xE6,
    CHR 0x9D, CHR 0x83], [CHR 0xE6, CHR 0x8B, CHR 0xBF, CHR 0xE5, CHR 0x88, CHR 0xB0, CHR 0xE6, CHR 0x9D,
    CHR 0x83, CHR 0xE9, CHR 0x99, CHR 0x90, CHR 0xE5, CHR 0x90, CHR 0x8E], [CHR 0xE4, CHR 0xBD, CHR 0xA0,
    CHR 0xE6, CHR 0x8E, CHR 0x88, CHR 0xE6, CHR 0x9D, CHR 0x83, CHR 0xE5, CHR 0x90, CHR 0x8E]]"

definition txt_write_words :: "string list" where
  "txt_write_words = [[CHR 0xE5, CHR 0x86, CHR 0x99, CHR 0xE5, CHR 0x85, CHR 0xA5], [CHR 0xE7, CHR 0xBC,
    CHR 0x96, CHR 0xE8, CHR 0xBE, CHR 0x91], [CHR 0xE4, CHR 0xBF, CHR 0xAE, CHR 0xE6, CHR 0x94, CHR 0xB9],
    [CHR 0xE8, CHR 0xA6, CHR 0x86, CHR 0xE7, CHR 0x9B, CHR 0x96]]"

definition txt_arrow :: string where
  "txt_arrow = [CHR 0xE2, CHR 0x9D, CHR 0xAF]"

definition is_live_tail_prompt :: "string \<Rightarrow> bool" where
  "is_live_tail_prompt s =
     (let t = trim_space s; lower = to_lower t in
      if t = [] then False
      else if list_ex (has_suffix t) [''[y/N]'', ''[Y/n]'', ''(y/n)'', ''(Y/n)'', ''[yes/no]'', ''(yes/no)''] then True
      else if (contains_one lower permission_words \<or> contains_one t txt_permission_words) \<and>
        (contains_one lower [''write'', ''edit'', ''overwrite'', ''modify'', ''update''] \<or> contains_one t txt_write_words) then True
      else if contains_one t txt_permission_phrases then True
      else if has_suffix t ''>'' \<and> (let b = trim_space (trim_suffix lower ''>'') in
        b = ''decision'' \<or> has_suffix b '' decision'' \<or> has_suffix b '' input'') then True
      else if has_suffix t '':'' \<and> (let b = trim_space (trim_suffix lower '':'') in
        b = ''password'' \<or> list_ex (has_prefix b) [''enter '', ''input '', ''select '']) then True
      else if has_suffix t ''?'' \<and> list_ex (has_prefix lower) [''continue'', ''proceed'', ''confirm'', ''approve''] then True
      else if has_prefix t txt_arrow \<or> has_prefix t ''>'' then True
      else has_suffix t ''>'' \<and> contains_one t ['' '', ''ready'', ''resume''])"

definition is_prompt_text :: "string \<Rightarrow> bool" where
  "is_prompt_text s =
     (let t = trim_space s; lower = to_lower t in
      if t = [] then False
      else if contains_one t [''[y/N]'', ''[Y/n]'', ''(y/n)'', ''(Y/n)'', '' (y/n)''] then True
      else if is_live_tail_prompt t then True
      else if t = ''>'' \<or> has_suffix t '' >'' \<or> has_suffix t (CHR 0x0A # ''>'') then True
      else list_ex (has_suffix t) [''?'', '':'', ''>''] \<and>
        contains_one lower [''continue'', ''confirm'', ''password'', ''input'', ''select'', ''proceed'', ''approve'', ''yes/no'', ''message''])"

definition prompt_options :: "string \<Rightarrow> string list" where
  "prompt_options s =
     (let t = trim_space s; lower = to_lower t in
      if contains_one t [''[y/N]'', ''[Y/n]'', ''(y/n)'', ''(Y/n)''] then [''y'', ''n'']
      else if contains_one lower [''should i proceed'', ''proceed'', ''approve'', ''yes/no''] then [''yes'', ''no'']
      else if contains_one lower [''permission'', ''authorize'', ''always allow'', ''always deny'', ''allow once'', ''allow this time''] \<or>
        contains_one t (txt_permission_words @ txt_permission_phrases) then [''y'', ''n'']
      else [])"

definition answer_words :: "string list" where
  "answer_words = [''y'', ''n'', ''yes'', ''no'', ''allow'', ''deny'', ''approve'', ''reject'', [CHR 0xE5,
    CHR 0x85, CHR 0x81, CHR 0xE8, CHR 0xAE, CHR 0xB8], [CHR 0xE6, CHR 0x8B, CHR 0x92, CHR 0xE7, CHR 0xBB,
    CHR 0x9D], [CHR 0xE5, CHR 0x90, CHR 0x8C, CHR 0xE6, CHR 0x84, CHR 0x8F], [CHR 0xE5, CHR 0x8F, CHR 0x96,
    CHR 0xE6, CHR 0xB6, CHR 0x88]]"

definition looks_like_permission_prompt_text :: "string \<Rightarrow> string list \<Rightarrow> bool" where
  "looks_like_permission_prompt_text message options =
     (let t = trim_space (to_lower message) in
      if contains_one t permission_words \<or> contains_one t txt_permission_words then True
      else options \<noteq> [] \<and> list_all (\<lambda>o'. trim_space (to_lower o') \<in> set answer_words) options)"

definition should_emit_claude_text_as_prompt :: "string \<Rightarrow> bool" where
  "should_emit_claude_text_as_prompt s =
     (let t = trim_space s in t \<noteq> [] \<and> is_prompt_text t \<and> prompt_options t \<noteq> [])"

text \<open>The token typed for a decision, among the options of the prompt.\<close>

definition resolve_decision_token :: "string \<Rightarrow> string list \<Rightarrow> string" where
  "resolve_decision_token decision options =
     (let d = trim_space (to_lower decision); candidates = filter (\<lambda>c. c \<noteq> []) (map trim_space options) in
      if candidates = [] then (if d = ''approve'' then ''y'' else if d = ''deny'' then ''n'' else [])
      else if d = ''approve'' then hd candidates else last candidates)"

section \<open>Lemmas\<close>

lemma prompt_options_cases: "prompt_options s \<in> {[], [''y'', ''n''], [''yes'', ''no'']}"
  by (simp add: prompt_options_def Let_def)

text \<open>
  For the options the reader offers itself an approval types the first one and a denial the last one, so that the two
  decisions are never typed as the same token.
\<close>

lemma decision_tokens:
  "resolve_decision_token ''approve'' (prompt_options s) \<in> {''y'', ''yes''} \<and>
   resolve_decision_token ''deny'' (prompt_options s) \<in> {''n'', ''no''}"
proof -
  have "resolve_decision_token ''approve'' [] = ''y''" "resolve_decision_token ''approve'' [''y'', ''n''] = ''y''"
    "resolve_decision_token ''approve'' [''yes'', ''no''] = ''yes''" "resolve_decision_token ''deny'' [] = ''n''"
    "resolve_decision_token ''deny'' [''y'', ''n''] = ''n''" "resolve_decision_token ''deny'' [''yes'', ''no''] = ''no''"
    by code_simp+
  then show ?thesis
    using prompt_options_cases [of s] by (elim insertE emptyE) (simp_all only: insert_iff simp_thms)
qed

end
