(* ===== verification/Json.thy ===== *)
theory Json
  imports PromptText
begin

text \<open>
  The part of \<open>encoding/json\<close> that the program uses, on the byte strings of Go: reading a value, the raw text of the
  fields of an object (\<open>json.RawMessage\<close>), and writing a value with the keys of a map in order. A number is kept as its
  literal; what becomes of it as a \<open>float64\<close> is a parameter where a value is written again. Reading uses as fuel the
  length of the text, which is enough as every nested call has taken a byte; the limit of 10000 on the nesting is left out.
\<close>

datatype json = JString string | JBool bool | JNumber string | JNull | JList "json list" | JObject "(string \<times> json) list"

text \<open>A map holds what the last entry with a key says.\<close>

definition lookup_json :: "string \<Rightarrow> (string \<times> json) list \<Rightarrow> json" where
  "lookup_json key item = (case map_of (rev item) key of Some v \<Rightarrow> v | None \<Rightarrow> JNull)"

section \<open>Reading\<close>

definition quote :: char where "quote = CHR 0x22"
definition backslash :: char where "backslash = CHR 0x5C"

definition json_space :: "char \<Rightarrow> bool" where
  "json_space c \<longleftrightarrow> c = CHR '' '' \<or> byte c \<in> {9, 10, 13}"

abbreviation skip_space :: "string \<Rightarrow> string" where
  "skip_space s \<equiv> dropWhile json_space s"

definition hex_digit :: "char \<Rightarrow> nat option" where
  "hex_digit c = (let b = byte c in
     if 48 \<le> b \<and> b \<le> 57 then Some (b - 48) else if 97 \<le> b \<and> b \<le> 102 then Some (b - 87)
     else if 65 \<le> b \<and> b \<le> 70 then Some (b - 55) else None)"

definition hex4 :: "string \<Rightarrow> nat option" where
  "hex4 s = (case map hex_digit (take 4 s) of
     [Some a, Some b, Some c, Some d] \<Rightarrow> Some (((a * 16 + b) * 16 + c) * 16 + d) | _ \<Rightarrow> None)"

text \<open>What follows a backslash: the bytes it stands for and the rest. A surrogate that has no partner is U+FFFD.\<close>

definition simple_escape :: "char \<Rightarrow> char option" where
  "simple_escape c = (if c = quote \<or> c = backslash \<or> c = CHR ''/'' then Some c
     else if c = CHR ''b'' then Some (CHR 0x08) else if c = CHR ''f'' then Some (CHR 0x0C) else if c = CHR ''n'' then Some (CHR 0x0A)
     else if c = CHR ''r'' then Some (CHR 0x0D) else if c = CHR ''t'' then Some (CHR 0x09) else None)"

definition unicode_escape :: "string \<Rightarrow> (string \<times> string) option" where
  "unicode_escape s = (case hex4 s of
     None \<Rightarrow> None
   | Some r \<Rightarrow>
       let rest = drop 4 s in
       if r < 0xD800 \<or> 0xE000 \<le> r then Some (encode_rune r, rest)
       else (case (if take 2 rest = [backslash, CHR ''u''] then hex4 (drop 2 rest) else None) of
           Some r2 \<Rightarrow>
             if r < 0xDC00 \<and> 0xDC00 \<le> r2 \<and> r2 < 0xE000
             then Some (encode_rune ((r - 0xD800) * 1024 + (r2 - 0xDC00) + 0x10000), drop 6 rest)
             else Some (encode_rune rune_error, rest)
         | None \<Rightarrow> Some (encode_rune rune_error, rest)))"

fun escape :: "string \<Rightarrow> (string \<times> string) option" where
  "escape [] = None"
| "escape (c # s) = (if c = CHR ''u'' then unicode_escape s else map_option (\<lambda>d. ([d], s)) (simple_escape c))"

lemma unicode_escape_shorter: "unicode_escape s = Some (t, rest) \<Longrightarrow> length rest \<le> length s"
  by (auto simp: unicode_escape_def Let_def split: option.splits if_splits)

lemma escape_shorter: "escape s = Some (t, rest) \<Longrightarrow> length rest < length s"
  by (cases s) (auto split: if_splits dest: unicode_escape_shorter)

text \<open>The rest of a string after its opening quote; bytes that are no UTF-8 become U+FFFD.\<close>

function string_body :: "string \<Rightarrow> (string \<times> string) option" where
  "string_body [] = None"
| "string_body (c # s) =
     (if c = quote then Some ([], s)
      else if c = backslash
      then (case escape s of None \<Rightarrow> None | Some (t, rest) \<Rightarrow> map_option (apfst ((@) t)) (string_body rest))
      else if byte c < 0x20 then None
      else (case decode_rune (c # s) of (r, w) \<Rightarrow> map_option (apfst ((@) (encode_rune r))) (string_body (drop (w - 1) s))))"
  by pat_completeness auto
termination
  by (relation "measure length") (auto dest: escape_shorter)

definition is_digit :: "char \<Rightarrow> bool" where
  "is_digit c \<longleftrightarrow> 48 \<le> byte c \<and> byte c \<le> 57"

text \<open>What is left behind the parts of a number: the whole digits, a fraction, an exponent.\<close>

definition some_digits :: "string \<Rightarrow> string option" where
  "some_digits s = (if s \<noteq> [] \<and> is_digit (hd s) then Some (dropWhile is_digit s) else None)"

definition after_int :: "string \<Rightarrow> string option" where
  "after_int s = (let t = (if s \<noteq> [] \<and> hd s = CHR ''-'' then tl s else s) in
     if t \<noteq> [] \<and> hd t = CHR ''0'' then Some (tl t) else some_digits t)"

definition after_fraction :: "string \<Rightarrow> string option" where
  "after_fraction s = (if s \<noteq> [] \<and> hd s = CHR ''.'' then some_digits (tl s) else Some s)"

definition after_exponent :: "string \<Rightarrow> string option" where
  "after_exponent s =
     (if s \<noteq> [] \<and> hd s \<in> {CHR ''e'', CHR ''E''}
      then (let t = tl s in some_digits (if t \<noteq> [] \<and> hd t \<in> {CHR ''+'', CHR ''-''} then tl t else t)) else Some s)"

definition number_rest :: "string \<Rightarrow> string option" where
  "number_rest s = Option.bind (Option.bind (after_int s) after_fraction) after_exponent"

text \<open>The text between a string and what is left of it.\<close>

definition taken :: "string \<Rightarrow> string \<Rightarrow> string" where
  "taken s rest = take (length s - length rest) s"

definition literals :: "(string \<times> json) list" where
  "literals = [(''null'', JNull), (''true'', JBool True), (''false'', JBool False)]"

definition scalar :: "string \<Rightarrow> (json \<times> string) option" where
  "scalar s = (case find (\<lambda>(w, v). has_prefix s w) literals of
     Some (w, v) \<Rightarrow> Some (v, drop (length w) s)
   | None \<Rightarrow> map_option (\<lambda>rest. (JNumber (taken s rest), rest)) (number_rest s))"

definition next_is :: "char \<Rightarrow> string \<Rightarrow> bool" where
  "next_is c s \<longleftrightarrow> skip_space s \<noteq> [] \<and> hd (skip_space s) = c"

abbreviation behind :: "string \<Rightarrow> string" where
  "behind s \<equiv> tl (skip_space s)"

text \<open>A value; the elements of a list and the members of an object that are not empty, each with its raw text.\<close>

fun json_value :: "nat \<Rightarrow> string \<Rightarrow> (json \<times> string) option"
and json_elems :: "nat \<Rightarrow> string \<Rightarrow> ((string \<times> json) list \<times> string) option"
and json_members :: "nat \<Rightarrow> string \<Rightarrow> ((string \<times> string \<times> json) list \<times> string) option" where
  "json_value 0 s = None"
| "json_value (Suc n) s =
     (if next_is quote s then map_option (apfst JString) (string_body (behind s))
      else if next_is (CHR ''['') s
      then (if next_is (CHR '']'') (behind s) then Some (JList [], behind (behind s))
        else map_option (apfst (\<lambda>es. JList (map snd es))) (json_elems n (behind s)))
      else if next_is (CHR ''{'') s
      then (if next_is (CHR ''}'') (behind s) then Some (JObject [], behind (behind s))
        else map_option (apfst (\<lambda>ms. JObject (map (\<lambda>(k, r, v). (k, v)) ms))) (json_members n (behind s)))
      else scalar (skip_space s))"
| "json_elems 0 s = None"
| "json_elems (Suc n) s =
     (case json_value n s of None \<Rightarrow> None
      | Some (v, r) \<Rightarrow>
          if next_is (CHR '','') r
          then map_option (apfst ((#) (taken (skip_space s) r, v))) (json_elems n (behind r))
          else if next_is (CHR '']'') r then Some ([(taken (skip_space s) r, v)], behind r)
          else None)"
| "json_members 0 s = None"
| "json_members (Suc n) s =
     (if \<not> next_is quote s then None
      else (case string_body (behind s) of None \<Rightarrow> None
        | Some (k, q) \<Rightarrow>
            if \<not> next_is (CHR '':'') q then None
            else (case json_value n (behind q) of None \<Rightarrow> None
              | Some (v, r) \<Rightarrow>
                  if next_is (CHR '','') r
                  then map_option (apfst ((#) (k, taken (skip_space (behind q)) r, v))) (json_members n (behind r))
                  else if next_is (CHR ''}'') r then Some ([(k, taken (skip_space (behind q)) r, v)], behind r)
                  else None)))"

text \<open>\<open>json.Unmarshal\<close> into a value of any type.\<close>

definition json_parse :: "string \<Rightarrow> json option" where
  "json_parse s = (case json_value (Suc (length s)) s of
     Some (v, r) \<Rightarrow> if skip_space r = [] then Some v else None | None \<Rightarrow> None)"

text \<open>The members of an object, or the elements of a list, with their raw texts.\<close>

definition raw_members :: "string \<Rightarrow> (string \<times> string \<times> json) list" where
  "raw_members s = (if next_is (CHR ''{'') s
     then (case json_members (length s) (behind s) of Some (ms, _) \<Rightarrow> ms | None \<Rightarrow> []) else [])"

definition raw_elems :: "string \<Rightarrow> (string \<times> json) list" where
  "raw_elems s = (if next_is (CHR ''['') s
     then (case json_elems (length s) (behind s) of Some (es, _) \<Rightarrow> es | None \<Rightarrow> []) else [])"

section \<open>Decoding into fields\<close>

text \<open>A raw message that is an object, and one that decodes into a map; null does and leaves no map.\<close>

definition is_object :: "string \<Rightarrow> bool" where
  "is_object raw = (case json_parse raw of Some (JObject _) \<Rightarrow> True | _ \<Rightarrow> False)"

definition decodes_to_map :: "string \<Rightarrow> bool" where
  "decodes_to_map raw = (case json_parse raw of Some (JObject _) \<Rightarrow> True | Some JNull \<Rightarrow> True | _ \<Rightarrow> False)"

text \<open>
  A field of a struct takes what the last member says whose key is the name of the field, upper and lower case being the
  same; null leaves it as it is. A value of another type is an error.
\<close>

definition field :: "string \<Rightarrow> (string \<times> string \<times> json) list \<Rightarrow> (string \<times> json) option" where
  "field name ms = map_option snd (find (\<lambda>(k, _). equal_fold k name) (rev ms))"

definition string_field :: "string \<Rightarrow> (string \<times> string \<times> json) list \<Rightarrow> string option" where
  "string_field name ms = (case field name ms of
     None \<Rightarrow> Some [] | Some (_, JNull) \<Rightarrow> Some [] | Some (_, JString s) \<Rightarrow> Some s | _ \<Rightarrow> None)"

definition bool_field :: "string \<Rightarrow> (string \<times> string \<times> json) list \<Rightarrow> bool option" where
  "bool_field name ms = (case field name ms of
     None \<Rightarrow> Some False | Some (_, JNull) \<Rightarrow> Some False | Some (_, JBool b) \<Rightarrow> Some b | _ \<Rightarrow> None)"

definition int_literal :: "string \<Rightarrow> int option" where
  "int_literal l = (let t = (if has_prefix l ''-'' then tl l else l) in
     if t \<noteq> [] \<and> list_all is_digit t
     then (let i = (if has_prefix l ''-'' then - int (val_of t) else int (val_of t)) in
       if - (2 ^ 63) \<le> i \<and> i < 2 ^ 63 then Some i else None)
     else None)"

definition int_field :: "string \<Rightarrow> (string \<times> string \<times> json) list \<Rightarrow> int option" where
  "int_field name ms = (case field name ms of
     None \<Rightarrow> Some 0 | Some (_, JNull) \<Rightarrow> Some 0 | Some (_, JNumber l) \<Rightarrow> int_literal l | _ \<Rightarrow> None)"

definition raw_field :: "string \<Rightarrow> (string \<times> string \<times> json) list \<Rightarrow> string" where
  "raw_field name ms = (case field name ms of None \<Rightarrow> [] | Some (r, _) \<Rightarrow> r)"

section \<open>Writing\<close>

definition hex_char :: "nat \<Rightarrow> char" where
  "hex_char n = char_of (if n < 10 then 48 + n else 87 + n)"

text \<open>\<open>html\<close> is the switch \<open>SetEscapeHTML\<close>, which is on in \<open>json.Marshal\<close>.\<close>

definition escape_byte :: "bool \<Rightarrow> char \<Rightarrow> string" where
  "escape_byte html c =
     (if c = quote \<or> c = backslash then [backslash, c]
      else if c = CHR 0x08 then [backslash, CHR ''b''] else if c = CHR 0x0C then [backslash, CHR ''f'']
      else if c = CHR 0x0A then [backslash, CHR ''n''] else if c = CHR 0x0D then [backslash, CHR ''r'']
      else if c = CHR 0x09 then [backslash, CHR ''t'']
      else if byte c < 0x20 \<or> html \<and> c \<in> {CHR ''<'', CHR ''>'', CHR ''&''}
      then [backslash] @ ''u00'' @ [hex_char (byte c div 16), hex_char (byte c mod 16)] else [c])"

definition escape_rune :: "nat \<Rightarrow> nat \<Rightarrow> string \<Rightarrow> string" where
  "escape_rune r w bytes =
     (if r = rune_error \<and> w = 1 then [backslash] @ ''ufffd''
      else if r = 0x2028 \<or> r = 0x2029 then [backslash] @ ''u202'' @ [hex_char (r mod 16)] else bytes)"

function quoted_body :: "bool \<Rightarrow> string \<Rightarrow> string" where
  "quoted_body html [] = []"
| "quoted_body html (c # s) =
     (if byte c < 0x80 then escape_byte html c @ quoted_body html s
      else (case decode_rune (c # s) of (r, w) \<Rightarrow> escape_rune r w (take w (c # s)) @ quoted_body html (drop (w - 1) s)))"
  by pat_completeness auto
termination
  by (relation "measure (length o snd)") auto

definition quoted :: "bool \<Rightarrow> string \<Rightarrow> string" where
  "quoted html s = quote # quoted_body html s @ [quote]"

text \<open>The keys of a map are written in order, each once.\<close>

fun string_less :: "string \<Rightarrow> string \<Rightarrow> bool" where
  "string_less _ [] = False"
| "string_less [] (d # t) = True"
| "string_less (c # s) (d # t) = (byte c < byte d \<or> c = d \<and> string_less s t)"

fun put_key :: "string \<times> 'v \<Rightarrow> (string \<times> 'v) list \<Rightarrow> (string \<times> 'v) list" where
  "put_key (k, v) [] = [(k, v)]"
| "put_key (k, v) ((j, w) # xs) =
     (if k = j then (k, v) # xs else if string_less k j then (k, v) # (j, w) # xs else (j, w) # put_key (k, v) xs)"

definition map_entries :: "(string \<times> 'v) list \<Rightarrow> (string \<times> 'v) list" where
  "map_entries xs = fold put_key xs []"

text \<open>
  What an encoder writes, with the members of an object in the order they are given, as those of a struct are;
  \<open>fl\<close> is how a number literal is written again after it has been a \<open>float64\<close>.
\<close>

fun struct_text :: "bool \<Rightarrow> (string \<Rightarrow> string) \<Rightarrow> json \<Rightarrow> string" where
  "struct_text html fl (JString s) = quoted html s"
| "struct_text html fl (JBool b) = (if b then ''true'' else ''false'')"
| "struct_text html fl (JNumber l) = fl l"
| "struct_text html fl JNull = ''null''"
| "struct_text html fl (JList vs) = ''['' @ join '','' (map (struct_text html fl) vs) @ '']''"
| "struct_text html fl (JObject xs) =
     ''{'' @ join '','' (map (\<lambda>(k, v). quoted html k @ '':'' @ struct_text html fl v) xs) @ ''}''"

text \<open>A value made of maps has the members of its objects in the order of the keys; \<open>json.Marshal\<close> of it.\<close>

fun in_order :: "json \<Rightarrow> json" where
  "in_order (JList vs) = JList (map in_order vs)"
| "in_order (JObject xs) = JObject (map_entries (map (\<lambda>(k, v). (k, in_order v)) xs))"
| "in_order j = j"

definition json_text :: "(string \<Rightarrow> string) \<Rightarrow> json \<Rightarrow> string" where
  "json_text fl j = struct_text True fl (in_order j)"

section \<open>What is written is read again\<close>

text \<open>The bytes of a string that are no UTF-8 are replaced by U+FFFD.\<close>

definition clean :: "string \<Rightarrow> string" where
  "clean s = concat (map encode_rune (runes s))"

lemma clean_Nil [simp]: "clean [] = []"
  by (simp add: clean_def)

lemma clean_Cons: "decode_rune (c # s) = (r, w) \<Longrightarrow> clean (c # s) = encode_rune r @ clean (drop (w - 1) s)"
  using decode_rune_width [of "c # s"] by (simp add: clean_def drop_Cons')

lemma decode_ascii: "byte c < 0x80 \<Longrightarrow> decode_rune (c # s) = (byte c, 1)"
  by (simp add: decode_rune_def Let_def)

lemma encode_ascii: "byte c < 0x80 \<Longrightarrow> encode_rune (byte c) = [c]"
  by (simp add: encode_rune_def byte_def)

lemma decode_rune_wide:
  assumes "decode_rune (c # s) = (r, w)" and "\<not> (r = rune_error \<and> w = 1)" and "\<not> byte c < 0x80"
  shows "2 \<le> w \<and> w \<le> length (c # s) \<and> decode_rune (take w (c # s) @ x) = (r, w)"
proof -
  have w: "w \<in> {2, 3, 4}" and len: "w \<le> length (c # s)"
    using assms by (auto simp: decode_rune_def Let_def split: if_splits)
  then have "\<forall>i < w - 1. (take (w - 1) s @ x) ! i = s ! i"
    by (auto simp: nth_append)
  moreover have "take w (c # s) @ x = c # (take (w - 1) s @ x)" and "min (length s) (w - 1) = w - 1"
    using w len by (auto simp: take_Cons')
  ultimately show ?thesis
    using assms w len unfolding decode_rune_def Let_def by (auto simp: nth_append split: if_splits)
qed

lemma hex_digit_char: "n < 16 \<Longrightarrow> hex_digit (hex_char n) = Some n"
  by (auto simp: hex_digit_def hex_char_def byte_def Let_def)

lemma hex4_four: "hex_digit a = Some i \<Longrightarrow> hex_digit b = Some j \<Longrightarrow> hex_digit c = Some k \<Longrightarrow> hex_digit d = Some l \<Longrightarrow>
  hex4 (a # b # c # d # s) = Some (((i * 16 + j) * 16 + k) * 16 + l)"
  by (simp add: hex4_def numeral_eq_Suc)

lemma drop_four: "drop 4 (a # b # c # d # s) = s"
  by (simp add: numeral_eq_Suc)

lemma append_one [simp]: "(@) [c] = (#) c"
  by (rule ext) simp

lemma zero_digit: "hex_digit CHR ''0'' = Some 0" "hex_digit CHR ''2'' = Some 2" "hex_digit CHR ''f'' = Some 15"
  "hex_digit CHR ''d'' = Some 13"
  by code_simp+

lemma quote_backslash: "quote \<noteq> backslash" "byte backslash = 0x5C" "byte quote = 0x22"
  by code_simp+

lemma string_body_escape:
  "escape s = Some (t, rest) \<Longrightarrow> string_body (backslash # s) = map_option (apfst ((@) t)) (string_body rest)"
  using quote_backslash by simp

lemma byte_simple:
  "simple_escape quote = Some quote" "simple_escape backslash = Some backslash" "simple_escape CHR ''b'' = Some CHR 0x08"
  "simple_escape CHR ''f'' = Some CHR 0x0C" "simple_escape CHR ''n'' = Some CHR 0x0A" "simple_escape CHR ''r'' = Some CHR 0x0D"
  "simple_escape CHR ''t'' = Some CHR 0x09" "quote \<noteq> CHR ''u''" "backslash \<noteq> CHR ''u''"
  by code_simp+

lemma escape_unicode_small:
  assumes "byte c < 0x80"
  shows "escape (''u00'' @ [hex_char (byte c div 16), hex_char (byte c mod 16)] @ x) = Some ([c], x)"
proof -
  have "hex4 (CHR ''0'' # CHR ''0'' # hex_char (byte c div 16) # hex_char (byte c mod 16) # x) = Some (byte c)"
    using assms hex4_four [OF zero_digit(1) zero_digit(1) hex_digit_char hex_digit_char, of "byte c div 16" "byte c mod 16" x] by simp
  then show ?thesis
    using assms encode_ascii [of c] by (simp add: unicode_escape_def drop_four)
qed

lemma escape_byte_read:
  assumes "byte c < 0x80"
  shows "string_body (escape_byte html c @ x) = map_option (apfst ((#) c)) (string_body x)"
proof (cases "escape_byte html c = [c]")
  case True
  then have "c \<noteq> quote \<and> c \<noteq> backslash \<and> \<not> byte c < 0x20"
    by (auto simp: escape_byte_def split: if_splits)
  then show ?thesis
    using assms True by (simp add: decode_ascii encode_ascii)
next
  case False
  then consider (simple) d where "escape_byte html c = [backslash, d]" "simple_escape d = Some c" "d \<noteq> CHR ''u''"
    | (hex) "escape_byte html c = [backslash] @ ''u00'' @ [hex_char (byte c div 16), hex_char (byte c mod 16)]"
    unfolding escape_byte_def using byte_simple by (auto split: if_splits)
  then show ?thesis
  proof cases
    case simple
    have "escape (d # x) = Some ([c], x)"
      using simple(2,3) by simp
    then show ?thesis
      unfolding simple(1) by (simp add: string_body_escape del: escape.simps string_body.simps)
  next
    case hex
    then show ?thesis
      using string_body_escape [OF escape_unicode_small [OF assms, of x]] by simp
  qed
qed

lemma escape_rune_read:
  assumes "decode_rune (c # s) = (r, w)" and "\<not> byte c < 0x80"
  shows "string_body (escape_rune r w (take w (c # s)) @ x) = map_option (apfst ((@) (encode_rune r))) (string_body x)"
proof -
  have bytes: "string_body (take w (c # s) @ x) = map_option (apfst ((@) (encode_rune r))) (string_body x)"
    if "\<not> (r = rune_error \<and> w = 1)"
  proof -
    have wide: "2 \<le> w" "w \<le> length (c # s)" "decode_rune (take w (c # s) @ x) = (r, w)"
      using decode_rune_wide [OF assms(1) that assms(2), of x] by simp_all
    moreover have "take w (c # s) @ x = c # take (w - 1) s @ x"
      using wide(1) by (simp add: take_Cons')
    moreover have "c \<noteq> quote" "c \<noteq> backslash"
      using assms(2) quote_backslash by auto
    ultimately show ?thesis
      using assms(2) by simp
  qed
  have small: "escape (''u202'' @ [hex_char (r mod 16)] @ x) = Some (encode_rune r, x)" if "r = 0x2028 \<or> r = 0x2029"
  proof -
    have "hex4 (CHR ''2'' # CHR ''0'' # CHR ''2'' # hex_char (r mod 16) # x) = Some r"
      using that hex4_four [OF zero_digit(2) zero_digit(1) zero_digit(2) hex_digit_char, of "r mod 16" x] by auto
    then show ?thesis
      using that by (auto simp: unicode_escape_def drop_four)
  qed
  have error: "escape (''ufffd'' @ x) = Some (encode_rune rune_error, x)"
    using hex4_four [OF zero_digit(3) zero_digit(3) zero_digit(3) zero_digit(4), of x]
    by (simp add: unicode_escape_def drop_four rune_error_def)
  show ?thesis
    using bytes string_body_escape [OF small] string_body_escape [OF error]
    by (auto simp: escape_rune_def)
qed

lemma quoted_read: "string_body (quoted_body html s @ quote # x) = Some (clean s, x)"
proof (induction html s rule: quoted_body.induct)
  case (1 html)
  then show ?case
    by simp
next
  case (2 html c s)
  obtain r w where rune: "decode_rune (c # s) = (r, w)"
    by force
  show ?case
  proof (cases "byte c < 0x80")
    case True
    have "clean (c # s) = c # clean s"
      using clean_Cons [OF decode_ascii [OF True]] encode_ascii [OF True] by simp
    then show ?thesis
      using 2(1) True by (simp add: escape_byte_read del: string_body.simps)
  next
    case False
    have "string_body (quoted_body html (drop (w - 1) s) @ quote # x) = Some (clean (drop (w - 1) s), x)"
      using 2(2) [OF False rune [symmetric]] by simp
    then show ?thesis
      using False rune escape_rune_read [OF rune False] clean_Cons [OF rune] by (simp del: string_body.simps)
  qed
qed

text \<open>What a value becomes when it is written and read again.\<close>

fun read_back :: "(string \<Rightarrow> string) \<Rightarrow> json \<Rightarrow> json" where
  "read_back fl (JString s) = JString (clean s)"
| "read_back fl (JBool b) = JBool b"
| "read_back fl (JNumber l) = JNumber (fl l)"
| "read_back fl JNull = JNull"
| "read_back fl (JList vs) = JList (map (read_back fl) vs)"
| "read_back fl (JObject xs) = JObject (map (\<lambda>(k, v). (clean k, read_back fl v)) xs)"

definition canon :: "(string \<Rightarrow> string) \<Rightarrow> json \<Rightarrow> json" where
  "canon fl j = read_back fl (in_order j)"

text \<open>The literals of numbers; what ends one.\<close>

definition number_literal :: "string \<Rightarrow> bool" where
  "number_literal t \<longleftrightarrow> number_rest t = Some []"

definition ends_number :: "string \<Rightarrow> bool" where
  "ends_number r \<longleftrightarrow> (r = [] \<or> \<not> is_digit (hd r) \<and> hd r \<notin> {CHR ''.'', CHR ''e'', CHR ''E''})"

lemma drop_digits: "ends_number r \<Longrightarrow> dropWhile is_digit (s @ r) = dropWhile is_digit s @ r"
  by (induction s) (auto simp: ends_number_def dropWhile_eq_self_iff)

lemma some_digits_append: "ends_number r \<Longrightarrow> some_digits s = Some t \<Longrightarrow> some_digits (s @ r) = Some (t @ r)"
  by (auto simp: some_digits_def drop_digits split: if_splits)

lemma after_int_append:
  assumes r: "ends_number r" and t: "after_int s = Some t"
  shows "after_int (s @ r) = Some (t @ r)"
proof -
  let ?u = "\<lambda>t. if t \<noteq> [] \<and> hd t = CHR ''0'' then Some (tl t) else some_digits t"
  have unsigned: "u \<noteq> [] \<and> ?u (u @ r) = Some (v @ r)" if "?u u = Some v" for u v
    using that some_digits_append [OF r, of u v] by (cases u) (auto simp: some_digits_def split: if_splits)
  show ?thesis
  proof (cases "s \<noteq> [] \<and> hd s = CHR ''-''")
    case True
    then show ?thesis
      using t unsigned [of "tl s" t] by (auto simp: after_int_def Let_def split: if_splits)
  next
    case False
    then have "?u s = Some t"
      using t False by (cases s) (auto simp: after_int_def Let_def split: if_splits)
    then show ?thesis
      using False unsigned [of s t] by (auto simp: after_int_def Let_def)
  qed
qed

lemma after_fraction_append: "ends_number r \<Longrightarrow> after_fraction s = Some t \<Longrightarrow> after_fraction (s @ r) = Some (t @ r)"
  by (cases s) (auto simp: after_fraction_def some_digits_append ends_number_def split: if_splits)

lemma after_exponent_append: "ends_number r \<Longrightarrow> after_exponent s = Some t \<Longrightarrow> after_exponent (s @ r) = Some (t @ r)"
proof (cases "s \<noteq> [] \<and> hd s \<in> {CHR ''e'', CHR ''E''}")
  case True
  assume r: "ends_number r" and t: "after_exponent s = Some t"
  let ?u = "\<lambda>t. if t \<noteq> [] \<and> hd t \<in> {CHR ''+'', CHR ''-''} then tl t else t"
  have digits: "some_digits (?u (tl s)) = Some t"
    using t True by (simp add: after_exponent_def Let_def)
  then have "tl s \<noteq> []"
    by (auto simp: some_digits_def)
  then have "?u (tl s @ r) = ?u (tl s) @ r"
    by simp
  then show ?thesis
    using some_digits_append [OF r digits] True by (simp add: after_exponent_def Let_def)
next
  case False
  assume "ends_number r" and "after_exponent s = Some t"
  then show ?thesis
    using False by (cases s) (auto simp: after_exponent_def ends_number_def split: if_splits)
qed

lemma number_read: "number_literal t \<Longrightarrow> ends_number r \<Longrightarrow> number_rest (t @ r) = Some r"
  unfolding number_literal_def number_rest_def
  using after_int_append after_fraction_append after_exponent_append by (fastforce simp: bind_eq_Some_conv)

lemma number_head:
  assumes "number_literal t"
  shows "t \<noteq> [] \<and> (hd t = CHR ''-'' \<or> is_digit (hd t))"
proof -
  obtain u where "after_int t = Some u"
    using assms by (auto simp: number_literal_def number_rest_def bind_eq_Some_conv)
  moreover have "is_digit CHR ''0''"
    by code_simp
  ultimately show ?thesis
    by (cases t) (auto simp: after_int_def some_digits_def Let_def split: if_splits)
qed

text \<open>The numbers of a value are written as literals.\<close>

fun writable :: "(string \<Rightarrow> string) \<Rightarrow> json \<Rightarrow> bool" where
  "writable fl (JNumber l) = number_literal (fl l)"
| "writable fl (JList vs) = list_all (writable fl) vs"
| "writable fl (JObject xs) = list_all (\<lambda>(k, v). writable fl v) xs"
| "writable fl _ = True"

lemma put_key_map: "put_key (k, f v) (map (apsnd f) xs) = map (apsnd f) (put_key (k, v) xs)"
  by (induction xs) auto

lemma map_entries_map: "map_entries (map (\<lambda>(k, v). (k, f v)) xs) = map (apsnd f) (map_entries xs)"
proof -
  have "fold put_key (map (\<lambda>(k, v). (k, f v)) xs) (map (apsnd f) acc) = map (apsnd f) (fold put_key xs acc)" for acc
    by (induction xs arbitrary: acc) (auto simp: put_key_map)
  from this [of "[]"] show ?thesis
    by (simp add: map_entries_def)
qed

lemma set_put_key: "set (put_key kv xs) \<subseteq> insert kv (set xs)"
  by (induction kv xs rule: put_key.induct) auto

lemma set_map_entries: "set (map_entries xs) \<subseteq> set xs"
proof -
  have "set (fold put_key xs acc) \<subseteq> set xs \<union> set acc" for acc
  proof (induction xs arbitrary: acc)
    case (Cons kv xs)
    show ?case
      using Cons.IH [of "put_key kv acc"] set_put_key [of kv acc] by auto
  qed simp
  from this [of "[]"] show ?thesis
    by (simp add: map_entries_def)
qed

text \<open>The text of a value made of maps.\<close>

lemma json_text_simps [simp]:
  "json_text fl (JString s) = quoted True s"
  "json_text fl (JBool b) = (if b then ''true'' else ''false'')"
  "json_text fl (JNumber l) = fl l"
  "json_text fl JNull = ''null''"
  "json_text fl (JList vs) = ''['' @ join '','' (map (json_text fl) vs) @ '']''"
  by (simp_all add: json_text_def [abs_def] comp_def)

lemma json_text_object:
  "json_text fl (JObject xs) =
     ''{'' @ join '','' (map (\<lambda>(k, v). quoted True k @ '':'' @ json_text fl v) (map_entries xs)) @ ''}''"
  by (simp add: json_text_def map_entries_map [unfolded case_prod_unfold] comp_def case_prod_unfold apsnd_def map_prod_def)

lemma canon_simps [simp]:
  "canon fl (JString s) = JString (clean s)" "canon fl (JBool b) = JBool b" "canon fl (JNumber l) = JNumber (fl l)"
  "canon fl JNull = JNull" "canon fl (JList vs) = JList (map (canon fl) vs)"
  by (simp_all add: canon_def comp_def)

lemma canon_object: "canon fl (JObject xs) = JObject (map (\<lambda>(k, v). (clean k, canon fl v)) (map_entries xs))"
  by (simp add: canon_def map_entries_map [unfolded case_prod_unfold] comp_def case_prod_unfold apsnd_def apfst_def map_prod_def)

lemma writable_in_order: "writable fl j \<Longrightarrow> writable fl (in_order j)"
proof (induction fl j rule: writable.induct)
  case (3 fl xs)
  have "writable fl w" if "(k, w) \<in> set (map_entries (map (\<lambda>(k, v). (k, in_order v)) xs))" for k w
    using that set_map_entries [of "map (\<lambda>(k, v). (k, in_order v)) xs"] 3 by (fastforce simp: list_all_iff)
  then show ?case
    by (auto simp: list_all_iff)
qed (auto simp: list_all_iff)

declare struct_text.simps(6) [simp del]

lemma struct_text_empty [simp]: "struct_text html fl (JObject []) = ''{}''"
  by (simp add: struct_text.simps(6))

text \<open>The first byte of a value.\<close>

definition value_head :: "char \<Rightarrow> bool" where
  "value_head c \<longleftrightarrow> c \<in> {quote, CHR ''['', CHR ''{'', CHR ''n'', CHR ''t'', CHR ''f'', CHR ''-''} \<or> is_digit c"

lemma struct_text_head:
  assumes "writable fl j"
  shows "struct_text html fl j \<noteq> [] \<and> value_head (hd (struct_text html fl j))"
  using assms number_head by (cases j) (auto simp: value_head_def quoted_def struct_text.simps(6))

lemma value_head_no_space: "value_head c \<Longrightarrow> \<not> json_space c"
proof -
  assume "value_head c"
  then have "byte c \<in> {0x22, 0x5B, 0x7B, 0x6E, 0x74, 0x66, 0x2D} \<or> is_digit c"
    by (auto simp: value_head_def quote_def byte_def)
  then show ?thesis
    by (auto simp: json_space_def is_digit_def byte_def)
qed

lemma skip_text [simp]: "writable fl j \<Longrightarrow> skip_space (struct_text html fl j @ r) = struct_text html fl j @ r"
  using struct_text_head [of fl j html] value_head_no_space by (cases "struct_text html fl j") auto

lemma taken_append [simp]: "taken (t @ r) r = t"
  by (simp add: taken_def)

lemma hd_append_text: "t \<noteq> [] \<Longrightarrow> hd (t @ r) = hd t"
  by (cases t) auto

lemma next_is_text [simp]: "writable fl j \<Longrightarrow> next_is c (struct_text html fl j @ r) = (hd (struct_text html fl j) = c)"
  using struct_text_head [of fl j html] by (simp add: next_is_def hd_append_text)

lemma next_is_Cons [simp]: "\<not> json_space d \<Longrightarrow> next_is c (d # s) = (d = c)"
  by (auto simp: next_is_def)

lemma punctuation [simp]:
  "\<not> json_space CHR '',''" "\<not> json_space CHR '']''" "\<not> json_space CHR ''['' " "\<not> json_space CHR ''{''"
  "\<not> json_space CHR ''}''" "\<not> json_space CHR '':''" "\<not> json_space quote"
  by code_simp+

lemma quote_marks: "quote \<noteq> CHR ''[''" "quote \<noteq> CHR ''{''" "quote \<noteq> CHR '',''" "quote \<noteq> CHR '']''" "quote \<noteq> CHR ''}''"
  "quote \<noteq> CHR ''-''" "quote \<noteq> CHR ''n''" "quote \<noteq> CHR ''t''" "quote \<noteq> CHR ''f''"
  by code_simp+

lemma digit_marks: "\<not> is_digit quote" "\<not> is_digit CHR ''[''" "\<not> is_digit CHR ''{''" "\<not> is_digit CHR '']''"
  "\<not> is_digit CHR ''}''" "\<not> is_digit CHR '',''"
  by code_simp+

lemmas marks = quote_marks quote_marks [symmetric] digit_marks

lemma letter_marks: "\<not> json_space CHR ''n''" "\<not> json_space CHR ''t''" "\<not> json_space CHR ''f''"
  by code_simp+

lemma punctuation_ends [simp]: "ends_number (CHR '','' # r)" "ends_number (CHR '']'' # r)" "ends_number (CHR ''}'' # r)" "ends_number []"
  by (simp_all add: ends_number_def marks)

lemma number_value:
  assumes t: "number_literal t" and r: "ends_number r"
  shows "json_value (Suc n) (t @ r) = Some (JNumber t, r)"
proof -
  have head: "t \<noteq> []" "hd t = CHR ''-'' \<or> is_digit (hd t)"
    using number_head [OF t] by simp_all
  have words: "\<not> is_digit CHR ''n''" "\<not> is_digit CHR ''t''" "\<not> is_digit CHR ''f''"
    by code_simp+
  have no_space: "\<not> json_space (hd t)"
    using head(2) value_head_no_space by (auto simp: value_head_def)
  have hd: "hd t \<notin> {quote, CHR ''['', CHR ''{'', CHR ''n'', CHR ''t'', CHR ''f''}"
    using head(2) marks words by auto
  obtain c u where "t = c # u"
    using head(1) by (cases t) auto
  then have "scalar (t @ r) = Some (JNumber t, r)"
    using hd number_read [OF t r] taken_append [of "c # u" r] by (simp add: scalar_def literals_def has_prefix_def)
  then show ?thesis
    using \<open>t = c # u\<close> hd no_space by simp
qed

lemma elems_read:
  assumes read: "\<And>v n r. v \<in> set vs \<Longrightarrow> length (struct_text html fl v) < n \<Longrightarrow> ends_number r \<Longrightarrow>
      json_value n (struct_text html fl v @ r) = Some (read_back fl v, r)"
    and "vs \<noteq> []" and "list_all (writable fl) vs" and "Suc (length (join '','' (map (struct_text html fl) vs))) < n"
  shows "json_elems n (join '','' (map (struct_text html fl) vs) @ CHR '']'' # r) =
    Some (map (\<lambda>v. (struct_text html fl v, read_back fl v)) vs, r)"
  using assms
proof (induction vs arbitrary: n)
  case (Cons v vs)
  obtain m where n: "n = Suc m"
    using Cons.prems(4) by (cases n) auto
  have v: "writable fl v" "struct_text html fl v \<noteq> []"
    using Cons.prems(3) struct_text_head [of fl v html] by simp_all
  show ?case
  proof (cases vs)
    case Nil
    then show ?thesis
      using Cons.prems v n by (simp add: marks)
  next
    case (Cons w ws)
    let ?rest = "join '','' (map (struct_text html fl) vs) @ CHR '']'' # r"
    have "json_elems m ?rest = Some (map (\<lambda>v. (struct_text html fl v, read_back fl v)) vs, r)"
      using Cons Cons.prems v n by (intro Cons.IH) (auto simp: neq_Nil_conv)
    moreover have "json_value m (struct_text html fl v @ CHR '','' # ?rest) = Some (read_back fl v, CHR '','' # ?rest)"
      using Cons Cons.prems(1) [of v m] Cons.prems(4) n by simp
    ultimately show ?thesis
      using Cons n v by simp
  qed
qed simp

definition member_text :: "bool \<Rightarrow> (string \<Rightarrow> string) \<Rightarrow> string \<times> json \<Rightarrow> string" where
  "member_text html fl kv = quoted html (fst kv) @ CHR '':'' # struct_text html fl (snd kv)"

lemma member_text_Pair [simp]: "member_text html fl (k, v) = quoted html k @ CHR '':'' # struct_text html fl v"
  by (simp add: member_text_def)

lemma quoted_behind: "behind (quoted html k @ x) = quoted_body html k @ quote # x" "next_is quote (quoted html k @ x)"
  by (simp_all add: quoted_def)

lemma members_read:
  assumes read: "\<And>k v n r. (k, v) \<in> set xs \<Longrightarrow> length (struct_text html fl v) < n \<Longrightarrow> ends_number r \<Longrightarrow>
      json_value n (struct_text html fl v @ r) = Some (read_back fl v, r)"
    and "xs \<noteq> []" and "list_all (\<lambda>(k, v). writable fl v) xs" and "Suc (length (join '','' (map (member_text html fl) xs))) < n"
  shows "json_members n (join '','' (map (member_text html fl) xs) @ CHR ''}'' # r) =
    Some (map (\<lambda>(k, v). (clean k, struct_text html fl v, read_back fl v)) xs, r)"
  using assms
proof (induction xs arbitrary: n)
  case (Cons kv xs)
  obtain m k v where n: "n = Suc m" and kv: "kv = (k, v)"
    using Cons.prems(4) by (cases n; cases kv) auto
  have v: "writable fl v" "struct_text html fl v \<noteq> []"
    using Cons.prems(3) struct_text_head [of fl v html] kv by simp_all
  show ?case
  proof (cases xs)
    case Nil
    then show ?thesis
      using Cons.prems v n kv by (simp add: quoted_behind quoted_read marks)
  next
    case (Cons w ws)
    let ?rest = "join '','' (map (member_text html fl) xs) @ CHR ''}'' # r"
    have "json_members m ?rest = Some (map (\<lambda>(k, v). (clean k, struct_text html fl v, read_back fl v)) xs, r)"
      using Cons Cons.prems v n kv by (intro Cons.IH) (auto simp: neq_Nil_conv)
    moreover have "json_value m (struct_text html fl v @ CHR '','' # ?rest) = Some (read_back fl v, CHR '','' # ?rest)"
      using Cons Cons.prems(1) [of k v m] Cons.prems(4) n kv by simp
    ultimately show ?thesis
      using Cons n v kv by (simp add: quoted_behind quoted_read)
  qed
qed simp

theorem json_value_read:
  "writable fl j \<Longrightarrow> length (struct_text html fl j) < n \<Longrightarrow> ends_number r \<Longrightarrow> json_value n (struct_text html fl j @ r) = Some (read_back fl j, r)"
proof (induction fl j arbitrary: n r rule: read_back.induct)
  case (1 fl s)
  then show ?case
    by (cases n) (simp_all add: quoted_behind quoted_read)
next
  case (2 fl b)
  then show ?case
    using marks letter_marks by (cases n; cases b) (simp_all add: scalar_def literals_def has_prefix_def)
next
  case (3 fl l)
  then show ?case
    using number_value [of "fl l" r] by (cases n) simp_all
next
  case (4 fl)
  then show ?case
    using marks letter_marks by (cases n) (simp_all add: scalar_def literals_def has_prefix_def)
next
  case (5 fl vs)
  obtain m where n: "n = Suc m"
    using 5(3) by (cases n) auto
  show ?case
  proof (cases "vs = []")
    case True
    then show ?thesis
      using n marks by simp
  next
    case False
    have "hd (struct_text html fl (hd vs)) \<noteq> CHR '']''" and "writable fl (hd vs)"
      using False 5(2) struct_text_head [of fl "hd vs" html] marks by (auto simp: value_head_def list_all_iff)
    moreover have "\<exists>q. join '','' (map (struct_text html fl) vs) @ CHR '']'' # r = struct_text html fl (hd vs) @ q"
      using False by (cases vs; cases "tl vs") auto
    ultimately have "\<not> next_is CHR '']'' (join '','' (map (struct_text html fl) vs) @ CHR '']'' # r)"
      by (metis next_is_text)
    moreover have "json_elems m (join '','' (map (struct_text html fl) vs) @ CHR '']'' # r) = Some (map (\<lambda>v. (struct_text html fl v, read_back fl v)) vs, r)"
      using False 5 n by (intro elems_read) (auto simp: list_all_iff)
    ultimately show ?thesis
      using n marks by (simp add: comp_def)
  qed
next
  case (6 fl xs)
  obtain m where n: "n = Suc m"
    using 6(3) by (cases n) auto
  have whole: "struct_text html fl (JObject xs) = CHR ''{'' # join '','' (map (member_text html fl) xs) @ ''}''"
    by (simp add: struct_text.simps(6) member_text_def [abs_def] case_prod_unfold)
  show ?case
  proof (cases "xs = []")
    case True
    then show ?thesis
      using n marks by simp
  next
    case False
    have "json_value n (struct_text html fl v @ r) = Some (read_back fl v, r)"
      if "(k, v) \<in> set xs" "length (struct_text html fl v) < n" "ends_number r" for k v n r
      using 6(1) [of "(k, v)" k v n r] 6(2) that by (auto simp: list_all_iff)
    then have "json_members m (join '','' (map (member_text html fl) xs) @ CHR ''}'' # r) =
        Some (map (\<lambda>(k, v). (clean k, struct_text html fl v, read_back fl v)) xs, r)"
      using False 6(2,3) n whole by (intro members_read) auto
    moreover have "\<exists>q. join '','' (map (member_text html fl) xs) @ CHR ''}'' # r = quote # q"
      using False by (cases xs; cases "tl xs") (auto simp: member_text_def quoted_def)
    ultimately show ?thesis
      using n marks by (auto simp: whole comp_def case_prod_unfold)
  qed
qed

text \<open>What an encoder writes \<open>Unmarshal\<close> reads, a struct as well as a map.\<close>

theorem struct_round_trip: "writable fl j \<Longrightarrow> json_parse (struct_text html fl j) = Some (read_back fl j)"
  using json_value_read [of fl j html "Suc (length (struct_text html fl j))" "[]"] by (simp add: json_parse_def)

theorem json_round_trip: "writable fl j \<Longrightarrow> json_parse (json_text fl j) = Some (canon fl j)"
  unfolding json_text_def canon_def by (intro struct_round_trip writable_in_order)

text \<open>The members of the text of an object, as far as they are kept raw.\<close>

theorem struct_members_read:
  assumes "writable fl (JObject xs)"
  shows "raw_members (struct_text html fl (JObject xs)) = map (\<lambda>(k, v). (clean k, struct_text html fl v, read_back fl v)) xs"
proof (cases "xs = []")
  case True
  then show ?thesis
    using marks by (simp add: raw_members_def)
next
  case False
  have whole: "struct_text html fl (JObject xs) = CHR ''{'' # join '','' (map (member_text html fl) xs) @ ''}''"
    by (simp add: struct_text.simps(6) member_text_def [abs_def] case_prod_unfold)
  have "json_members (length (struct_text html fl (JObject xs))) (join '','' (map (member_text html fl) xs) @ CHR ''}'' # []) =
      Some (map (\<lambda>(k, v). (clean k, struct_text html fl v, read_back fl v)) xs, [])"
    using False assms json_value_read unfolding whole by (intro members_read) (auto simp: list_all_iff)
  then show ?thesis
    unfolding raw_members_def whole by simp
qed

theorem struct_elems_read:
  assumes "writable fl (JList vs)"
  shows "raw_elems (struct_text html fl (JList vs)) = map (\<lambda>v. (struct_text html fl v, read_back fl v)) vs"
proof (cases "vs = []")
  case True
  moreover have "scalar '']'' = None"
    by code_simp
  ultimately show ?thesis
    using marks by (simp add: raw_elems_def)
next
  case False
  have "json_elems (length (struct_text html fl (JList vs))) (join '','' (map (struct_text html fl) vs) @ CHR '']'' # []) =
      Some (map (\<lambda>v. (struct_text html fl v, read_back fl v)) vs, [])"
    using False assms json_value_read by (intro elems_read) (auto simp: list_all_iff)
  then show ?thesis
    unfolding raw_elems_def by simp
qed

section \<open>The bytes that are written\<close>

lemma byte_256: "byte c < 256"
  by (simp add: byte_def)

lemma hex_char_byte: "n < 16 \<Longrightarrow> 0x20 \<le> byte (hex_char n)"
  by (auto simp: hex_char_def byte_def)

lemma escape_letters: "\<forall>d\<in>set (quote # backslash # ''bfnrtu0f2d8''). 0x20 \<le> byte d"
  by code_simp

lemma list_all_if: "(b \<Longrightarrow> list_all P xs) \<Longrightarrow> (\<not> b \<Longrightarrow> list_all P ys) \<Longrightarrow> list_all P (if b then xs else ys)"
  by simp

lemma escape_byte_bytes: "d \<in> set (escape_byte html c) \<Longrightarrow> 0x20 \<le> byte d"
proof -
  have marks: "0x20 \<le> byte backslash" "0x20 \<le> byte quote" "0x20 \<le> byte CHR ''b''" "0x20 \<le> byte CHR ''f''" "0x20 \<le> byte CHR ''n''"
    "0x20 \<le> byte CHR ''r''" "0x20 \<le> byte CHR ''t''" "0x20 \<le> byte CHR ''u''" "0x20 \<le> byte CHR ''0''"
    by code_simp+
  have "byte c div 16 < 16" "byte c mod 16 < 16"
    using byte_256 [of c] by auto
  note digits = this [THEN hex_char_byte]
  have "list_all (\<lambda>d. 0x20 \<le> byte d) (escape_byte html c)"
    unfolding escape_byte_def append_Cons append_Nil
    by (intro list_all_if; (elim disjE conjE)?; simp only: list.pred_inject marks digits simp_thms not_less de_Morgan_disj)
  then show "d \<in> set (escape_byte html c) \<Longrightarrow> 0x20 \<le> byte d"
    by (simp add: list_all_iff)
qed

lemma second_ok_byte: "second_ok a c \<Longrightarrow> 0x80 \<le> byte c" "cont_byte c \<Longrightarrow> 0x80 \<le> byte c"
  by (auto simp: second_ok_def cont_byte_def split: if_splits)

lemma decode_rune_bytes:
  assumes "decode_rune (c # s) = (r, w)" and "\<not> byte c < 0x80" and "d \<in> set (take w (c # s))"
  shows "0x80 \<le> byte d"
proof -
  obtain i where "i < w" "i < length (c # s)" "d = (c # s) ! i"
    using assms(3) by (auto simp: in_set_conv_nth)
  moreover have "w \<le> 4"
    using assms(1) by (auto simp: decode_rune_def Let_def split: if_splits)
  ultimately have "i \<in> {0, 1, 2, 3}"
    by auto
  then show ?thesis
    using assms(1,2) \<open>i < w\<close> \<open>d = (c # s) ! i\<close> second_ok_byte
    by (auto simp: decode_rune_def Let_def numeral_2_eq_2 numeral_3_eq_3 split: if_splits)
qed

lemma quoted_bytes: "d \<in> set (quoted_body html s) \<Longrightarrow> 0x20 \<le> byte d"
proof (induction html s rule: quoted_body.induct)
  case (2 html c s)
  obtain r w where rune: "decode_rune (c # s) = (r, w)"
    by force
  have wide: "0x20 \<le> byte d" if "d \<in> set (escape_rune r w (take w (c # s)))" "\<not> byte c < 0x80"
    using that(1) decode_rune_bytes [OF rune that(2), of d] escape_letters hex_char_byte [of "r mod 16"]
    by (auto simp: escape_rune_def split: if_splits)
  show ?case
    using 2 escape_byte_bytes [of d html c] wide rune by (auto split: if_splits)
qed simp

text \<open>No line break is written inside a value.\<close>

lemma nl_quoted [simp]: "CHR 0x0A \<notin> set (quoted html s)"
  using quoted_bytes [of "CHR 0x0A" html s] by (auto simp: quoted_def quote_def byte_def)

lemma nl_join: "CHR 0x0A \<notin> set sep \<Longrightarrow> \<forall>t\<in>set ts. CHR 0x0A \<notin> set t \<Longrightarrow> CHR 0x0A \<notin> set (join sep ts)"
  by (induction sep ts rule: join.induct) auto

lemma struct_text_no_nl:
  assumes "\<And>l. CHR 0x0A \<notin> set (fl l)"
  shows "CHR 0x0A \<notin> set (struct_text html fl j)"
proof -
  have marks: "CHR 0x0A \<notin> set ''[]{},:truefalsnu''"
    by code_simp
  show ?thesis
    using assms
  proof (induction html fl j rule: struct_text.induct)
    case (5 html fl vs)
    then have "CHR 0x0A \<notin> set (join '','' (map (struct_text html fl) vs))"
      using marks by (intro nl_join) auto
    then show ?case
      using marks by simp
  next
    case (6 html fl xs)
    have "CHR 0x0A \<notin> set (struct_text html fl v)" if "(k, v) \<in> set xs" for k v
      using that 6(1) [of "(k, v)" k v] 6(2) by blast
    then have "CHR 0x0A \<notin> set (join '','' (map (\<lambda>(k, v). quoted html k @ '':'' @ struct_text html fl v) xs))"
      using marks by (intro nl_join) auto
    then show ?case
      unfolding struct_text.simps(6) using marks by simp
  qed (use marks in auto)
qed

lemma clean_ascii: "list_all (\<lambda>c. byte c < 0x80) s \<Longrightarrow> clean s = s"
proof (induction s)
  case (Cons c s)
  then show ?case
    using clean_Cons [OF decode_ascii [of c s]] encode_ascii [of c] by simp
qed simp

end
