(* ===== verification/CodexSession.thy ===== *)
theory CodexSession
  imports Parser Json
begin

text \<open>
  A session with the Codex app server (\<open>engine/codex_transport.go\<close>): the table of the calls that wait for an answer,
  the thread and the turn, the approval the server waits for, the text of the assistant, which reaches the program
  more than once, and the delayed prompt after a reply. Messages are given decoded: \<open>encoding/json\<close> maps the bytes of a
  line to the fields the notification types name, and a message whose parameters do not decode is one that is not
  handled. The channel of a call holds at most one answer, as it is created with room for one.
\<close>

section \<open>Calls\<close>

datatype rpc_answer = Answered (rpc_error: "string option") (rpc_result: string) | Failed_call string

record rpc =
  rp_next_id :: int
  rp_pending :: "string list"
  rp_channels :: "string \<rightharpoonup> rpc_answer"
  rp_read_err :: "string option"

definition new_rpc :: rpc where
  "new_rpc = \<lparr>rp_next_id = 0, rp_pending = [], rp_channels = Map.empty, rp_read_err = None\<rparr>"

definition remove_pending :: "string \<Rightarrow> rpc \<Rightarrow> rpc" where
  "remove_pending key r = r\<lparr>rp_pending := removeAll key (rp_pending r)\<rparr>"

definition rpc_key :: "int \<Rightarrow> string" where
  "rpc_key i = (if i < 0 then CHR ''-'' # digits (nat (- i)) else digits (nat i))"

text \<open>
  The first half of \<open>call\<close>, up to the wait: the key of the call, and the error it returns at once if it does (the
  reader has ended, or the message could not be written). The key stays in the table when the reader has ended.
\<close>

definition call_begin :: "string option \<Rightarrow> rpc \<Rightarrow> rpc \<times> string \<times> string option" where
  "call_begin write_err r =
     (let i = wrap64 (rp_next_id r + 1); key = rpc_key i;
          r' = r\<lparr>rp_next_id := i, rp_pending := List.insert key (rp_pending r), rp_channels := (rp_channels r)(key := None)\<rparr>
      in (case rp_read_err r of
            Some e \<Rightarrow> (r', key, Some e)
          | None \<Rightarrow> (case write_err of Some e \<Rightarrow> (remove_pending key r', key, Some e) | None \<Rightarrow> (r', key, None))))"

definition resolve_pending :: "string \<Rightarrow> rpc_answer \<Rightarrow> rpc \<Rightarrow> rpc" where
  "resolve_pending key answer r =
     (if key \<in> set (rp_pending r)
      then (remove_pending key r)\<lparr>rp_channels := (rp_channels r)(key \<mapsto> answer)\<rparr> else r)"

definition fail_pending :: "string \<Rightarrow> rpc \<Rightarrow> rpc" where
  "fail_pending e r = r\<lparr>rp_read_err := (case rp_read_err r of None \<Rightarrow> Some e | Some e0 \<Rightarrow> Some e0), rp_pending := [],
     rp_channels := (\<lambda>key. if key \<in> set (rp_pending r) then Some (Failed_call e) else rp_channels r key)\<rparr>"

text \<open>The second half of \<open>call\<close>: what it returns for an answer, \<open>method\<close> being the method that was called.\<close>

definition call_result :: "string \<Rightarrow> rpc_answer \<Rightarrow> string + string" where
  "call_result meth answer = (case answer of
     Failed_call e \<Rightarrow> Inl e
   | Answered (Some e) _ \<Rightarrow> Inl (meth @ '': '' @ trim_space e)
   | Answered None result \<Rightarrow> Inr result)"

section \<open>The session\<close>

datatype approval_method = File_change | Command_execution | Permissions_request

record approval =
  ap_id :: string
  ap_method :: approval_method
  ap_permissions :: string

record codex_session =
  cs_session_id :: string
  cs_thread :: string
  cs_turn :: string
  cs_last_diff :: string
  cs_buffer :: string
  cs_last_text :: string
  cs_emitted :: string
  cs_approval :: "approval option"
  cs_prompt_seq :: nat
  cs_timers :: "(nat \<times> runtime_meta) list"

definition new_codex_session :: "string \<Rightarrow> codex_session" where
  "new_codex_session sid = \<lparr>cs_session_id = sid, cs_thread = [], cs_turn = [], cs_last_diff = [], cs_buffer = [],
     cs_last_text = [], cs_emitted = [], cs_approval = None, cs_prompt_seq = 0, cs_timers = []\<rparr>"

definition codex_meta :: "string \<Rightarrow> codex_session \<Rightarrow> runtime_meta" where
  "codex_meta lifecycle s =
     (let l = (if lifecycle = [] then ''active'' else lifecycle) in
      empty_meta\<lparr>m_resume_session_id := cs_thread s, m_claude_lifecycle := l,
        m_blocking_kind := (if l = ''waiting_input'' then ''ready'' else [])\<rparr>)"

text \<open>\<open>setThreadID\<close>, which sets the session of the runner too.\<close>

definition set_thread_id :: "string \<Rightarrow> codex_session \<Rightarrow> codex_session" where
  "set_thread_id i s = (if trim_space i = [] then s else s\<lparr>cs_thread := trim_space i\<rparr>)"

definition runner_session_after :: "string \<Rightarrow> string \<Rightarrow> string" where
  "runner_session_after i sid = (if trim_space i = [] then sid else trim_space i)"

definition set_active_turn :: "string \<Rightarrow> codex_session \<Rightarrow> codex_session" where
  "set_active_turn i s =
     (let t = trim_space i;
          s = (if t \<noteq> [] \<and> t \<noteq> cs_turn s then s\<lparr>cs_buffer := [], cs_last_text := [], cs_emitted := []\<rparr> else s)
      in s\<lparr>cs_turn := t\<rparr>)"

definition clear_active_turn :: "string \<Rightarrow> codex_session \<Rightarrow> codex_session" where
  "clear_active_turn i s = (if trim_space i = [] \<or> cs_turn s = trim_space i then s\<lparr>cs_turn := []\<rparr> else s)"

section \<open>The text of the assistant\<close>

text \<open>\<open>codexDrainAssistantChunks\<close>: what is emitted, and what stays in the buffer.\<close>

definition drain_chunks :: "bool \<Rightarrow> string \<Rightarrow> string list \<times> string" where
  "drain_chunks all s =
     (let parts = split_on nl s; rest = last parts; t = trim_space rest;
          whole = filter (\<lambda>c. c \<noteq> []) (map trim_space (butlast parts))
      in if t \<noteq> [] \<and> (all \<or> 64 \<le> rune_count t \<or> (24 \<le> rune_count t \<and> ends_with_live_tail_boundary t))
         then (whole @ [t], []) else (whole, rest))"

definition append_delta :: "string \<Rightarrow> codex_session \<Rightarrow> codex_session" where
  "append_delta d s = s\<lparr>cs_buffer := cs_buffer s @ d\<rparr>"

definition assistant_meta :: "codex_session \<Rightarrow> runtime_meta" where
  "assistant_meta s = (codex_meta ''active'' s)\<lparr>m_source := ''codex/assistant''\<rparr>"

definition codex_log :: "time \<Rightarrow> string \<Rightarrow> string \<Rightarrow> runtime_meta \<Rightarrow> codex_session \<Rightarrow> payload" where
  "codex_log now stream message m s = apply_runtime_meta (EvLog (new_log_event now (cs_session_id s) message stream)) m"

definition emit_chunk :: "time \<Rightarrow> string \<Rightarrow> codex_session \<Rightarrow> codex_session \<times> payload list" where
  "emit_chunk now chunk s =
     (let t = trim_space chunk in
      if t = [] \<or> t = cs_last_text s then (s, [])
      else if cs_last_text s \<noteq> [] \<and> str_contains t (cs_last_text s) \<and> rune_count t \<le> rune_count (cs_last_text s) * 2 + 16
      then (s\<lparr>cs_last_text := t\<rparr>, [])
      else (s\<lparr>cs_last_text := t, cs_emitted := cs_emitted s @ t\<rparr>, [codex_log now ''stdout'' t (assistant_meta s) s]))"

fun emit_chunks :: "time \<Rightarrow> string list \<Rightarrow> codex_session \<Rightarrow> codex_session \<times> payload list" where
  "emit_chunks now [] s = (s, [])"
| "emit_chunks now (c # cs) s =
     (case emit_chunk now c s of (s', evs) \<Rightarrow> (case emit_chunks now cs s' of (s'', evs') \<Rightarrow> (s'', evs @ evs')))"

text \<open>\<open>flushAssistantDelta\<close>, and the chunks it gives emitted.\<close>

definition flush_delta :: "time \<Rightarrow> codex_session \<Rightarrow> codex_session \<times> payload list" where
  "flush_delta now s =
     (if cs_buffer s = [] then (s, [])
      else (case drain_chunks True (cs_buffer s) of (chunks, rest) \<Rightarrow> emit_chunks now chunks (s\<lparr>cs_buffer := rest\<rparr>)))"

definition emit_completed :: "time \<Rightarrow> string \<Rightarrow> codex_session \<Rightarrow> codex_session \<times> payload list" where
  "emit_completed now reply s =
     (let t = trim_space reply; emitted = trim_space (cs_emitted s); s' = s\<lparr>cs_buffer := []\<rparr> in
      if t = [] then (s, [])
      else if emitted \<noteq> [] \<and> t = emitted then (s'\<lparr>cs_last_text := t, cs_emitted := t\<rparr>, [])
      else if emitted \<noteq> [] \<and> has_prefix t emitted
      then (let r = trim_space (trim_prefix t emitted) in
        if r = [] then (s'\<lparr>cs_last_text := emitted, cs_emitted := emitted\<rparr>, []) else emit_chunk now r s')
      else emit_chunk now t s')"

section \<open>The prompt after a reply\<close>

text \<open>
  \<open>emitReadyPromptAfterReply\<close> counts, and starts a timer that remembers the count and the metadata; when the timer runs
  out it emits the prompt if nothing was counted since.
\<close>

definition ready_prompt :: "time \<Rightarrow> string \<Rightarrow> runtime_meta \<Rightarrow> payload" where
  "ready_prompt now sid m = apply_runtime_meta (EvPrompt (new_prompt_request_event now sid [] [])) m"

definition prompt_after_reply :: "codex_session \<Rightarrow> codex_session" where
  "prompt_after_reply s =
     (let n = wrap_u64 (Suc (cs_prompt_seq s)) in
      s\<lparr>cs_prompt_seq := n, cs_timers := cs_timers s @ [(n, codex_meta ''waiting_input'' s)]\<rparr>)"

definition prompt_timer :: "time \<Rightarrow> nat \<Rightarrow> codex_session \<Rightarrow> codex_session \<times> payload list" where
  "prompt_timer now i s =
     (if i < length (cs_timers s)
      then (case cs_timers s ! i of (n, m) \<Rightarrow>
        (s\<lparr>cs_timers := remove_nth i (cs_timers s)\<rparr>, if n = cs_prompt_seq s then [ready_prompt now (cs_session_id s) m] else []))
      else (s, []))"

section \<open>Notifications\<close>

text \<open>The fields of an item.\<close>

definition as_string :: "json \<Rightarrow> string" where
  "as_string v = (case v of JString s \<Rightarrow> s | _ \<Rightarrow> [])"

definition first_text :: "string list \<Rightarrow> (string \<times> json) list \<Rightarrow> string option" where
  "first_text keys item = find (\<lambda>t. t \<noteq> []) (map (\<lambda>k. trim_space (as_string (lookup_json k item))) keys)"

definition item_text :: "(string \<times> json) list \<Rightarrow> string" where
  "item_text item = (case first_text [''text'', ''message'', ''content'', ''output_text''] item of
     Some t \<Rightarrow> t
   | None \<Rightarrow> (case lookup_json ''content'' item of
       JList entries \<Rightarrow> trim_space (join [nl] (List.map_filter (\<lambda>e. case e of
           JObject m \<Rightarrow> first_text [''text'', ''content'', ''output_text''] m | _ \<Rightarrow> None) entries))
     | _ \<Rightarrow> []))"

definition item_step_summary :: "(string \<times> json) list \<Rightarrow> string \<Rightarrow> string \<times> string" where
  "item_step_summary item status =
     (let t = trim_space (as_string (lookup_json ''type'' item)); val = \<lambda>k. trim_space (as_string (lookup_json k item)); fin = (status = ''done'') in
      if t = ''commandExecution''
      then (if fin then ''Completed command'' else ''Running command'', if val ''command'' = [] then ''shell command'' else val ''command'')
      else if t = ''fileChange'' then (if fin then ''Applied file changes'' else ''Applying file changes'', [])
      else if t = ''mcpToolCall'' \<or> t = ''dynamicToolCall''
      then (if fin then ''Completed tool call'' else ''Running tool call'', val ''tool'')
      else if t = ''webSearch'' then (if fin then ''Completed web search'' else ''Running web search'', val ''query'')
      else ([], []))"

definition handle_item :: "time \<Rightarrow> (string \<times> json) list \<Rightarrow> string \<Rightarrow> codex_session \<Rightarrow> codex_session \<times> payload list" where
  "handle_item now item status s =
     (let t = trim_space (as_string (lookup_json ''type'' item)) in
      if t = [] then (s, [])
      else if status = ''done''
      then (if t = ''agentMessage''
        then (if item_text item \<noteq> [] then emit_completed now (item_text item) s else flush_delta now s) else (s, []))
      else (case item_step_summary item status of (message, target) \<Rightarrow>
        if message = [] then (s, [])
        else (s, [apply_runtime_meta (EvStepUpdate (new_step_update_event now (cs_session_id s) message status target t []))
          (codex_meta ''active'' s)])))"

text \<open>\<open>codexDiffPath\<close> and \<open>codexGuessLangFromPath\<close>\<close>

definition diff_line_path :: "string \<Rightarrow> string option" where
  "diff_line_path line =
     (let t = trim_space line in
      case diff_git_path t of Some p \<Rightarrow> Some (trim_space p)
      | None \<Rightarrow> if has_prefix t ''+++ b/'' then Some (trim_space (trim_prefix t ''+++ b/'')) else None)"

definition diff_path :: "string \<Rightarrow> string" where
  "diff_path diff = (case List.map_filter diff_line_path (split_on nl (replace_crlf diff)) of p # _ \<Rightarrow> p | [] \<Rightarrow> [])"

definition guess_lang :: "string \<Rightarrow> string" where
  "guess_lang path =
     (if has_suffix path ''.go'' then ''go''
      else if list_ex (has_suffix path) [''.js'', ''.ts'', ''.tsx''] then ''javascript''
      else if has_suffix path ''.dart'' then ''dart'' else if has_suffix path ''.py'' then ''python''
      else if has_suffix path ''.md'' then ''markdown'' else if trim_space path = [] then [] else ''text'')"

definition handle_diff :: "time \<Rightarrow> string \<Rightarrow> string \<Rightarrow> codex_session \<Rightarrow> codex_session \<times> payload list" where
  "handle_diff now turn diff s =
     (let d = trim_space diff; path = diff_path d; title = (if path \<noteq> [] then ''Updating '' @ path else ''Codex changes'') in
      if d = [] \<or> d = cs_last_diff s then (s, [])
      else (s\<lparr>cs_last_diff := d\<rparr>,
        [apply_runtime_meta (EvFileDiff (new_file_diff_event now (cs_session_id s) path title d (guess_lang path)))
          ((codex_meta ''active'' s)\<lparr>m_context_id := ''codex-turn:'' @ trim_space turn, m_context_title := title,
             m_target_path := (if path \<noteq> [] then path else [])\<rparr>)]))"

datatype codex_note =
    Thread_started string
  | Thread_status string
  | Turn_started string
  | Turn_completed string "(string \<times> string) option"
  | Agent_delta string
  | Item_started "(string \<times> json) list"
  | Item_completed "(string \<times> json) list"
  | Raw_item_completed "(string \<times> json) list"
  | Turn_diff string string
  | Codex_error bool string string
  | Other_note

definition txt_processing :: string where
  "txt_processing = [CHR 0xE5, CHR 0xA4, CHR 0x84, CHR 0xE7, CHR 0x90, CHR 0x86, CHR 0xE4, CHR 0xB8,
    CHR 0xAD]"

definition codex_error :: "time \<Rightarrow> string \<Rightarrow> string \<Rightarrow> string \<Rightarrow> codex_session \<Rightarrow> payload" where
  "codex_error now lifecycle message details s =
     apply_runtime_meta (EvError (new_error_event now (cs_session_id s) (trim_space message) (trim_space details))) (codex_meta lifecycle s)"

definition handle_turn_completed :: "time \<Rightarrow> string \<Rightarrow> (string \<times> string) option \<Rightarrow> codex_session \<Rightarrow> codex_session \<times> payload list" where
  "handle_turn_completed now turn failure s =
     (case flush_delta now s of (s, evs) \<Rightarrow>
      (let s = clear_active_turn turn s;
           errs = (case failure of Some (message, details) \<Rightarrow>
               if trim_space message \<noteq> [] then [codex_error now ''active'' message details s] else [] | None \<Rightarrow> [])
       in (prompt_after_reply s, evs @ errs)))"

fun handle_note :: "time \<Rightarrow> codex_note \<Rightarrow> codex_session \<Rightarrow> codex_session \<times> payload list" where
  "handle_note now (Thread_started i) s = (set_thread_id i s, [])"
| "handle_note now (Thread_status st) s = (if equal_fold st ''idle'' \<and> cs_turn s = [] then prompt_after_reply s else s, [])"
| "handle_note now (Turn_started i) s =
     (let s = set_active_turn i s in
      (s, [apply_runtime_meta (EvAgentState (new_agent_state_event now (cs_session_id s) ''THINKING'' txt_processing False [] [] []))
        (codex_meta ''active'' s)]))"
| "handle_note now (Turn_completed i failure) s = handle_turn_completed now i failure s"
| "handle_note now (Agent_delta d) s = (append_delta d s, [])"
| "handle_note now (Item_started item) s = handle_item now item ''running'' s"
| "handle_note now (Item_completed item) s = handle_item now item ''done'' s"
| "handle_note now (Raw_item_completed item) s =
     (if item_text item = [] then (s, []) else emit_completed now (item_text item) s)"
| "handle_note now (Turn_diff turn diff) s = handle_diff now turn diff s"
| "handle_note now (Codex_error retry message details) s =
     (s, [if retry then codex_log now ''stderr'' (trim_space message) (codex_meta ''active'' s) s
          else codex_error now ''active'' message details s])"
| "handle_note now Other_note s = (s, [])"

fun handle_notes :: "time \<Rightarrow> codex_note list \<Rightarrow> codex_session \<Rightarrow> codex_session \<times> payload list" where
  "handle_notes now [] s = (s, [])"
| "handle_notes now (n # ns) s =
     (case handle_note now n s of (s', evs) \<Rightarrow> (case handle_notes now ns s' of (s'', evs') \<Rightarrow> (s'', evs @ evs')))"

section \<open>Approvals\<close>

datatype codex_request =
    Approve_file string
  | Approve_command string string
  | Approve_permissions string string
  | Request_user_input
  | Other_request

definition txt_modify_file :: string where "txt_modify_file = ''Codex '' @ [CHR 0xE8, CHR 0xAF, CHR 0xB7,
  CHR 0xE6, CHR 0xB1, CHR 0x82, CHR 0xE4, CHR 0xBF, CHR 0xAE, CHR 0xE6, CHR 0x94, CHR 0xB9, CHR 0xE6,
  CHR 0x96, CHR 0x87, CHR 0xE4, CHR 0xBB, CHR 0xB6]"
definition txt_more_permissions :: string where "txt_more_permissions = ''Codex '' @ [CHR 0xE8, CHR 0xAF,
  CHR 0xB7, CHR 0xE6, CHR 0xB1, CHR 0x82, CHR 0xE9, CHR 0xA2, CHR 0x9D, CHR 0xE5, CHR 0xA4, CHR 0x96,
  CHR 0xE6, CHR 0x9D, CHR 0x83, CHR 0xE9, CHR 0x99, CHR 0x90]"
definition txt_run_command :: string where "txt_run_command = ''Codex '' @ [CHR 0xE8, CHR 0xAF, CHR 0xB7,
  CHR 0xE6, CHR 0xB1, CHR 0x82, CHR 0xE6, CHR 0x89, CHR 0xA7, CHR 0xE8, CHR 0xA1, CHR 0x8C, CHR 0xE5,
  CHR 0x91, CHR 0xBD, CHR 0xE4, CHR 0xBB, CHR 0xA4]"
definition txt_command_label :: string where "txt_command_label = [CHR 0xE5, CHR 0x91, CHR 0xBD, CHR 0xE4,
  CHR 0xBB, CHR 0xA4, CHR 0xEF, CHR 0xBC, CHR 0x9A]"
definition txt_colon :: string where "txt_colon = [CHR 0xEF, CHR 0xBC, CHR 0x9A]"
definition txt_no_structured_input :: string where "txt_no_structured_input = ''Codex '' @
  [CHR 0xE8, CHR 0xAF, CHR 0xB7, CHR 0xE6, CHR 0xB1, CHR 0x82, CHR 0xE4, CHR 0xBA, CHR 0x86, CHR 0xE7,
    CHR 0xBB, CHR 0x93, CHR 0xE6, CHR 0x9E, CHR 0x84, CHR 0xE5, CHR 0x8C, CHR 0x96, CHR 0xE7, CHR 0x94,
    CHR 0xA8, CHR 0xE6, CHR 0x88, CHR 0xB7, CHR 0xE8, CHR 0xBE, CHR 0x93, CHR 0xE5, CHR 0x85, CHR 0xA5,
    CHR 0xEF, CHR 0xBC, CHR 0x8C, CHR 0xE5, CHR 0xBD, CHR 0x93, CHR 0xE5, CHR 0x89, CHR 0x8D] @
    '' MobileVC '' @ [CHR 0xE7, CHR 0x89, CHR 0x88, CHR 0xE6, CHR 0x9C, CHR 0xAC, CHR 0xE6, CHR 0x9A,
    CHR 0x82, CHR 0xE6, CHR 0x9C, CHR 0xAA, CHR 0xE5, CHR 0xAE, CHR 0x8C, CHR 0xE6, CHR 0x88, CHR 0x90,
    CHR 0xE8, CHR 0xAF, CHR 0xA5, CHR 0xE9, CHR 0x80, CHR 0x9A, CHR 0xE8, CHR 0xB7, CHR 0xAF]"

definition command_prompt_message :: "string \<Rightarrow> string \<Rightarrow> string" where
  "command_prompt_message command reason =
     (let c = trim_space command; r = trim_space reason in
      if c \<noteq> [] \<and> r \<noteq> [] then r @ [nl, nl] @ txt_command_label @ c
      else if c \<noteq> [] then txt_run_command @ txt_colon @ [nl] @ c else if r \<noteq> [] then r else txt_run_command)"

definition approval_prompt :: "time \<Rightarrow> string \<Rightarrow> codex_session \<Rightarrow> payload" where
  "approval_prompt now message s =
     apply_runtime_meta (EvPrompt (new_prompt_request_event now (cs_session_id s) message [''approve'', ''deny'']))
       (merge_runtime_meta (codex_meta ''waiting_input'' s) (empty_meta\<lparr>m_blocking_kind := ''permission''\<rparr>))"

text \<open>\<open>handleServerRequest\<close>: the events, and whether an empty answer is sent.\<close>

fun handle_request :: "time \<Rightarrow> string \<Rightarrow> codex_request \<Rightarrow> codex_session \<Rightarrow> codex_session \<times> payload list \<times> bool" where
  "handle_request now i (Approve_file reason) s =
     (s\<lparr>cs_approval := Some \<lparr>ap_id = i, ap_method = File_change, ap_permissions = []\<rparr>\<rparr>,
      [approval_prompt now (first_non_empty_string [trim_space reason, txt_modify_file]) s], False)"
| "handle_request now i (Approve_command command reason) s =
     (s\<lparr>cs_approval := Some \<lparr>ap_id = i, ap_method = Command_execution, ap_permissions = []\<rparr>\<rparr>,
      [approval_prompt now (command_prompt_message command reason) s], False)"
| "handle_request now i (Approve_permissions permissions reason) s =
     (s\<lparr>cs_approval := Some \<lparr>ap_id = i, ap_method = Permissions_request, ap_permissions = permissions\<rparr>\<rparr>,
      [approval_prompt now (first_non_empty_string [trim_space reason, txt_more_permissions]) s], False)"
| "handle_request now i Request_user_input s = (s, [codex_error now ''waiting_input'' txt_no_structured_input [] s], True)"
| "handle_request now i Other_request s = (s, [], False)"

datatype approval_answer = Decision string | Granted (granted: "string option") (granted_scope: string)

definition approval_decision :: "string \<Rightarrow> string \<Rightarrow> string" where
  "approval_decision mode decision =
     (if decision = ''deny'' then ''decline'' else if trim_space mode = ''auto'' then ''acceptForSession'' else ''accept'')"

text \<open>
  \<open>codexPermissionsApprovalResult\<close>: the permissions that were asked for when they decode to an object, none otherwise.
\<close>

definition permissions_result :: "string \<Rightarrow> string \<Rightarrow> string \<Rightarrow> approval_answer" where
  "permissions_result mode decision requested =
     Granted (if decision = ''deny'' \<or> requested = [] \<or> \<not> is_object requested then None else Some requested)
       (if trim_space mode = ''auto'' then ''session'' else ''turn'')"

definition clear_approval :: "string \<Rightarrow> codex_session \<Rightarrow> codex_session" where
  "clear_approval i s = (case cs_approval s of
     None \<Rightarrow> s | Some a \<Rightarrow> if i = [] \<or> ap_id a = i then s\<lparr>cs_approval := None\<rparr> else s)"

datatype codex_perm_error = No_pending_request | Write_failed string

text \<open>The answer to an approval: what is written and to which request, or an error.\<close>

definition codex_permission_response ::
  "string option \<Rightarrow> string \<Rightarrow> string \<Rightarrow> codex_session \<Rightarrow>
   codex_session \<times> (codex_perm_error + string \<times> approval_answer)" where
  "codex_permission_response write_err mode decision s =
     (let d = trim_space (to_lower decision) in
      case cs_approval s of
        None \<Rightarrow> (s, Inl No_pending_request)
      | Some a \<Rightarrow>
          (let answer = (case ap_method a of
                Permissions_request \<Rightarrow> permissions_result mode d (ap_permissions a)
              | _ \<Rightarrow> Decision (approval_decision mode d))
           in case write_err of
                Some e \<Rightarrow> (s, Inl (Write_failed e))
              | None \<Rightarrow> (clear_approval (ap_id a) s, Inr (ap_id a, answer))))"

definition codex_has_pending :: "codex_session \<Rightarrow> bool" where
  "codex_has_pending s \<longleftrightarrow> (case cs_approval s of None \<Rightarrow> False | Some a \<Rightarrow> ap_id a \<noteq> [])"

definition codex_current_request :: "codex_session \<Rightarrow> string" where
  "codex_current_request s = (case cs_approval s of None \<Rightarrow> [] | Some a \<Rightarrow> trim_space (ap_id a))"

definition codex_approval_policy :: "string \<Rightarrow> string" where
  "codex_approval_policy mode = (if trim_space mode = ''bypassPermissions'' then ''never'' else ''on-request'')"

section \<open>Calls, answers and the end of the reader\<close>

text \<open>
  The calls in progress beside the table: a call begins, an answer is delivered, the reader ends, a call takes its
  answer or gives up. The counter of the calls does not reach its maximum.
\<close>

inductive rpc_reach :: "rpc \<Rightarrow> string list \<Rightarrow> bool" where
  init: "rpc_reach new_rpc []"
| call_begins: "rpc_reach r ks \<Longrightarrow> rp_next_id r < max_int64 \<Longrightarrow> call_begin write_err r = (r', key, failure) \<Longrightarrow>
    rpc_reach r' (if failure = None then key # ks else ks)"
| answer: "rpc_reach r ks \<Longrightarrow> rpc_reach (resolve_pending key a r) ks"
| reader_ends: "rpc_reach r ks \<Longrightarrow> rpc_reach (fail_pending e r) ks"
| take: "rpc_reach r ks \<Longrightarrow> rp_channels r key = Some a \<Longrightarrow> rpc_reach r (removeAll key ks)"
| give_up: "rpc_reach r ks \<Longrightarrow> rpc_reach (remove_pending key r) (removeAll key ks)"

text \<open>A call in progress has its answer or is in the table; when the reader has ended it has its answer.\<close>

definition call_ok :: "rpc \<Rightarrow> string \<Rightarrow> bool" where
  "call_ok r key \<longleftrightarrow>
     (if rp_read_err r = None then key \<in> set (rp_pending r) \<or> rp_channels r key \<noteq> None else rp_channels r key \<noteq> None)"

definition old_key :: "rpc \<Rightarrow> string \<Rightarrow> bool" where
  "old_key r key \<longleftrightarrow> (\<exists>i. 1 \<le> i \<and> i \<le> rp_next_id r \<and> key = rpc_key i)"

definition rpc_inv :: "rpc \<Rightarrow> string list \<Rightarrow> bool" where
  "rpc_inv r ks \<longleftrightarrow> 0 \<le> rp_next_id r \<and> rp_next_id r \<le> max_int64 \<and> list_all (old_key r) ks \<and> list_all (call_ok r) ks"

lemma rpc_key_inj: "0 \<le> i \<Longrightarrow> 0 \<le> j \<Longrightarrow> rpc_key i = rpc_key j \<longleftrightarrow> i = j"
  by (simp add: rpc_key_def digits_inj eq_nat_nat_iff)

lemma rpc_inv_mono:
  assumes "rpc_inv r ks" and "rp_next_id r' = rp_next_id r" and "set ks' \<subseteq> set ks"
    and "\<And>key. key \<in> set ks' \<Longrightarrow> call_ok r key \<Longrightarrow> call_ok r' key"
  shows "rpc_inv r' ks'"
  using assms by (auto simp: rpc_inv_def old_key_def list_all_iff)

lemma rpc_inv_begin:
  assumes "rpc_inv r ks" and "rp_next_id r < max_int64" and "call_begin write_err r = (r', key, failure)"
  shows "rpc_inv r' (if failure = None then key # ks else ks)"
proof -
  have nonneg: "0 \<le> rp_next_id r" and old: "list_all (old_key r) ks" and ok: "list_all (call_ok r) ks"
    using assms(1) by (simp_all add: rpc_inv_def)
  have next_id: "rp_next_id r' = rp_next_id r + 1" and key: "key = rpc_key (rp_next_id r + 1)"
    using assms(2,3) wrap64_Suc [OF nonneg]
    by (auto simp: call_begin_def Let_def remove_pending_def split: option.splits)
  have fresh: "k \<noteq> key" if "k \<in> set ks" for k
    using old that rpc_key_inj nonneg unfolding key by (fastforce simp: list_all_iff old_key_def)
  have "call_ok r' k" if "k \<in> set ks" for k
    using assms(3) ok fresh [OF that] that
    by (auto simp: call_begin_def Let_def remove_pending_def call_ok_def list_all_iff split: option.splits if_splits)
  moreover have "failure = None \<Longrightarrow> call_ok r' key"
    using assms(3) by (auto simp: call_begin_def Let_def call_ok_def split: option.splits)
  moreover have "old_key r' k" if "old_key r k" for k
    using that unfolding old_key_def next_id by force
  moreover have "old_key r' key"
    unfolding old_key_def next_id key using nonneg by (intro exI [of _ "rp_next_id r + 1"]) simp
  ultimately show ?thesis
    using old nonneg assms(2) by (simp add: rpc_inv_def next_id list_all_iff)
qed

lemma rpc_reach_inv: "rpc_reach r ks \<Longrightarrow> rpc_inv r ks"
proof (induction rule: rpc_reach.induct)
  case init
  show ?case
    by (simp add: rpc_inv_def new_rpc_def max_int64_def)
next
  case (call_begins r ks write_err r' key failure)
  then show ?case
    using rpc_inv_begin by blast
next
  case (answer r ks key a)
  then show ?case
    by (elim rpc_inv_mono) (auto simp: call_ok_def resolve_pending_def remove_pending_def)
next
  case (reader_ends r ks e)
  then show ?case
    by (elim rpc_inv_mono) (auto simp: call_ok_def fail_pending_def split: option.splits if_splits)
next
  case (take r ks key a)
  then show ?case
    by (elim rpc_inv_mono) auto
next
  case (give_up r ks key)
  then show ?case
    by (elim rpc_inv_mono) (auto simp: call_ok_def remove_pending_def split: if_splits)
qed

section \<open>Lemmas on the session\<close>

lemma emit_chunk_fields [simp]:
  "cs_buffer (fst (emit_chunk now c s)) = cs_buffer s" "cs_thread (fst (emit_chunk now c s)) = cs_thread s"
  "cs_session_id (fst (emit_chunk now c s)) = cs_session_id s"
  by (simp_all add: emit_chunk_def Let_def)

lemma emit_fresh:
  "trim_space c \<noteq> [] \<Longrightarrow> cs_last_text s = [] \<Longrightarrow>
   emit_chunk now c s = (s\<lparr>cs_last_text := trim_space c, cs_emitted := cs_emitted s @ trim_space c\<rparr>,
     [codex_log now ''stdout'' (trim_space c) (assistant_meta s) s])"
  by (simp add: emit_chunk_def Let_def)

lemma completed_fresh:
  "trim_space t \<noteq> [] \<Longrightarrow> cs_last_text s = [] \<Longrightarrow> cs_emitted s = [] \<Longrightarrow>
   emit_completed now t s = (s\<lparr>cs_buffer := [], cs_last_text := trim_space t, cs_emitted := trim_space t\<rparr>,
     [codex_log now ''stdout'' (trim_space t) (assistant_meta s) s])"
  by (simp add: emit_completed_def Let_def emit_fresh assistant_meta_def codex_meta_def codex_log_def)

lemma completed_again:
  "trim_space t \<noteq> [] \<Longrightarrow> cs_emitted s = trim_space t \<Longrightarrow>
   emit_completed now t s = (s\<lparr>cs_buffer := [], cs_last_text := trim_space t, cs_emitted := trim_space t\<rparr>, [])"
  by (simp add: emit_completed_def Let_def)

lemma flush_empty: "cs_buffer s = [] \<Longrightarrow> flush_delta now s = (s, [])"
  by (simp add: flush_delta_def)

lemma append_deltas: "handle_notes now (map Agent_delta ds) s = (s\<lparr>cs_buffer := cs_buffer s @ concat ds\<rparr>, [])"
  by (induction ds arbitrary: s) (simp_all add: append_delta_def)

lemma handle_notes_append:
  "handle_notes now (ns @ ms) s =
    (case handle_notes now ns s of (s', evs) \<Rightarrow> (case handle_notes now ms s' of (s'', evs') \<Rightarrow> (s'', evs @ evs')))"
  by (induction ns arbitrary: s) (simp_all split: prod.split)

definition is_log :: "payload \<Rightarrow> bool" where
  "is_log e = (case e of EvLog _ \<Rightarrow> True | _ \<Rightarrow> False)"

lemma codex_log_is_log [simp]: "is_log (codex_log now stream m x s)"
  by (simp add: is_log_def codex_log_def)

lemma first_text_trimmed: "first_text keys item = Some t \<Longrightarrow> trim_space t = t"
  by (auto simp: first_text_def find_Some_iff)

lemma item_text_trimmed [simp]: "trim_space (item_text item) = item_text item"
proof (cases "first_text [''text'', ''message'', ''content'', ''output_text''] item")
  case None
  then show ?thesis
    by (simp add: item_text_def split: json.split)
next
  case (Some t)
  then show ?thesis
    using first_text_trimmed [OF Some] by (simp add: item_text_def)
qed

section \<open>The prompt timers\<close>

definition timers_ok :: "nat \<Rightarrow> codex_session \<Rightarrow> bool" where
  "timers_ok n s \<longleftrightarrow> cs_prompt_seq s \<le> n \<and> distinct (map fst (cs_timers s)) \<and> (\<forall>t\<in>set (cs_timers s). fst t \<le> cs_prompt_seq s)"

lemma timers_ok_same:
  "timers_ok n s \<Longrightarrow> cs_prompt_seq s' = cs_prompt_seq s \<Longrightarrow> cs_timers s' = cs_timers s \<Longrightarrow> timers_ok (Suc n) s'"
  by (simp add: timers_ok_def)

lemma timers_ok_prompt: "timers_ok n s \<Longrightarrow> Suc n < 2 ^ 64 \<Longrightarrow> timers_ok (Suc n) (prompt_after_reply s)"
  by (auto simp: timers_ok_def prompt_after_reply_def Let_def wrap_u64_id)

lemma emit_chunk_timers:
  "cs_prompt_seq (fst (emit_chunk now c s)) = cs_prompt_seq s" "cs_timers (fst (emit_chunk now c s)) = cs_timers s"
  by (simp_all add: emit_chunk_def Let_def)

lemma emit_chunks_timers:
  "cs_prompt_seq (fst (emit_chunks now cs s)) = cs_prompt_seq s \<and> cs_timers (fst (emit_chunks now cs s)) = cs_timers s"
proof (induction cs arbitrary: s)
  case (Cons c cs)
  then show ?case
    using Cons.IH [of "fst (emit_chunk now c s)"] by (simp add: emit_chunk_timers split: prod.split) (metis emit_chunk_timers fst_conv)
qed simp

lemma flush_delta_timers:
  "cs_prompt_seq (fst (flush_delta now s)) = cs_prompt_seq s \<and> cs_timers (fst (flush_delta now s)) = cs_timers s"
  by (simp add: flush_delta_def emit_chunks_timers split: prod.split)

lemma emit_completed_timers:
  "cs_prompt_seq (fst (emit_completed now t s)) = cs_prompt_seq s \<and> cs_timers (fst (emit_completed now t s)) = cs_timers s"
  by (simp add: emit_completed_def Let_def emit_chunk_timers)

lemma handle_note_timers:
  assumes "timers_ok n s" and "Suc n < 2 ^ 64"
  shows "timers_ok (Suc n) (fst (handle_note now x s))"
proof -
  note same = timers_ok_same [OF assms(1)]
  show ?thesis
  proof (cases x)
    case (Turn_completed i failure)
    have "timers_ok n (clear_active_turn i (fst (flush_delta now s)))"
      using assms(1) flush_delta_timers [of now s] by (simp add: timers_ok_def clear_active_turn_def)
    then show ?thesis
      using timers_ok_prompt assms(2) by (simp add: Turn_completed handle_turn_completed_def Let_def case_prod_beta)
  next
    case (Item_started item)
    then show ?thesis
      using same by (simp add: handle_item_def Let_def split: prod.split)
  next
    case (Item_completed item)
    then show ?thesis
      using same flush_delta_timers emit_completed_timers by (simp add: handle_item_def Let_def)
  next
    case (Raw_item_completed item)
    then show ?thesis
      using same emit_completed_timers by simp
  next
    case (Turn_diff turn diff)
    then show ?thesis
      using same by (simp add: handle_diff_def Let_def)
  next
    case (Thread_status st)
    then show ?thesis
      using same timers_ok_prompt [OF assms] by simp
  qed (use same in \<open>simp_all add: set_thread_id_def set_active_turn_def append_delta_def Let_def\<close>)
qed

lemma handle_notes_timers:
  assumes "timers_ok n s" and "n + length ns < 2 ^ 64"
  shows "timers_ok (n + length ns) (fst (handle_notes now ns s))"
  using assms
proof (induction ns arbitrary: n s)
  case (Cons x ns)
  obtain s' evs where step: "handle_note now x s = (s', evs)"
    by (cases "handle_note now x s")
  then have "timers_ok (Suc n) s'"
    using handle_note_timers [OF Cons.prems(1), of now x] Cons.prems(2) by simp
  then show ?case
    using Cons.IH [of "Suc n" s'] Cons.prems(2) by (simp add: step split: prod.split) (metis fst_conv)
qed simp

fun fire_timers :: "time \<Rightarrow> nat list \<Rightarrow> codex_session \<Rightarrow> codex_session \<times> payload list" where
  "fire_timers now [] s = (s, [])"
| "fire_timers now (i # is) s =
     (case prompt_timer now i s of (s', evs) \<Rightarrow> (case fire_timers now is s' of (s'', evs') \<Rightarrow> (s'', evs @ evs')))"

lemma set_remove_nth_distinct: "distinct (map f xs) \<Longrightarrow> i < length xs \<Longrightarrow> f (xs ! i) \<notin> f ` set (remove_nth i xs) \<and> distinct (map f (remove_nth i xs))"
proof -
  assume distinct: "distinct (map f xs)" and i: "i < length xs"
  have split: "xs = take i xs @ xs ! i # drop (Suc i) xs"
    using id_take_nth_drop [OF i] .
  have "distinct (map f (take i xs @ xs ! i # drop (Suc i) xs))"
    using distinct split by simp
  then show ?thesis
    by (auto simp: remove_nth_def)
qed

lemma fire_none: "cs_prompt_seq s \<notin> fst ` set (cs_timers s) \<Longrightarrow> snd (fire_timers now is s) = []"
proof (induction "is" arbitrary: s)
  case (Cons i "is")
  obtain n m where timer: "i < length (cs_timers s) \<Longrightarrow> cs_timers s ! i = (n, m)"
    by (cases "cs_timers s ! i") blast
  have "n \<noteq> cs_prompt_seq s" if "i < length (cs_timers s)"
    using Cons.prems nth_mem [OF that] timer [OF that] by force
  then have "snd (prompt_timer now i s) = []"
    using timer by (simp add: prompt_timer_def)
  moreover have "cs_prompt_seq (fst (prompt_timer now i s)) \<notin> fst ` set (cs_timers (fst (prompt_timer now i s)))"
    using Cons.prems set_remove_nth [of i "cs_timers s"] timer by (auto simp: prompt_timer_def)
  ultimately show ?case
    using Cons.IH [of "fst (prompt_timer now i s)"] by (simp add: case_prod_beta)
qed simp

lemma fire_once: "distinct (map fst (cs_timers s)) \<Longrightarrow> length (snd (fire_timers now is s)) \<le> 1"
proof (induction "is" arbitrary: s)
  case (Cons i "is")
  show ?case
  proof (cases "i < length (cs_timers s)")
    case True
    obtain n m where timer: "cs_timers s ! i = (n, m)"
      by (cases "cs_timers s ! i")
    let ?s = "s\<lparr>cs_timers := remove_nth i (cs_timers s)\<rparr>"
    have rest: "n \<notin> fst ` set (remove_nth i (cs_timers s))" "distinct (map fst (remove_nth i (cs_timers s)))"
      using set_remove_nth_distinct [OF Cons.prems True] timer by simp_all
    have fired: "prompt_timer now i s = (?s, if n = cs_prompt_seq s then [ready_prompt now (cs_session_id s) m] else [])"
      using True timer by (simp add: prompt_timer_def)
    show ?thesis
      using fire_none [of ?s now "is"] Cons.IH [of ?s] rest by (auto simp: fired split: prod.split)
  next
    case False
    then show ?thesis
      using Cons.IH [of s] Cons.prems by (auto simp: prompt_timer_def split: prod.split)
  qed
qed simp

section \<open>Properties\<close>

text \<open>
  C20: No call to the Codex server is forgotten: in every state a call in progress is in the table or has its answer, and
  once the reader has ended every call in progress has its answer and a new call fails at once with the error the
  reader ended with.
\<close>

theorem codex_calls_answered:
  assumes "rpc_reach r ks"
  shows "list_all (\<lambda>key. key \<in> set (rp_pending r) \<or> rp_channels r key \<noteq> None) ks \<and>
    (case rp_read_err r of None \<Rightarrow> True
     | Some e \<Rightarrow> list_all (\<lambda>key. rp_channels r key \<noteq> None) ks \<and> snd (snd (call_begin write_err r)) = Some e)"
  using rpc_reach_inv [OF assms]
  by (auto simp: rpc_inv_def call_ok_def list_all_iff call_begin_def Let_def split: option.split if_splits)

lemma codex_calls_answered_witness:
  "rp_channels (fail_pending ''EOF'' (fst (call_begin None new_rpc))) ''1'' \<noteq> None"
proof -
  have "rpc_key 1 = ''1''" "wrap64 1 = 1"
    by code_simp+
  then have first: "call_begin None new_rpc = (fst (call_begin None new_rpc), ''1'', None)"
    by (simp add: call_begin_def new_rpc_def Let_def)
  have "rpc_reach (fst (call_begin None new_rpc)) [''1'']"
    using rpc_reach.call_begins [OF rpc_reach.init _ first] by (simp add: new_rpc_def max_int64_def)
  then have "rpc_reach (fail_pending ''EOF'' (fst (call_begin None new_rpc))) [''1'']"
    by (rule rpc_reach.reader_ends)
  from codex_calls_answered [OF this, of None] show ?thesis
    by (simp add: fail_pending_def call_begin_def new_rpc_def split: option.splits)
qed

text \<open>
  A reply is reported once: the pieces it arrives in, the finished item, the raw item with the same text and the end of
  the turn give one log event, with the whole text.
\<close>

theorem codex_reply_once:
  assumes "item_text item = t" and "item_text raw_item = t" and "t \<noteq> []" and "lookup_json ''type'' item = JString ''agentMessage''"
    and "trim_space turn \<noteq> []" and "trim_space turn \<noteq> cs_turn s"
  shows "filter is_log (snd (handle_notes now
      ([Turn_started turn] @ map Agent_delta ds @ [Item_completed item, Raw_item_completed raw_item, Turn_completed turn None]) s)) =
    [codex_log now ''stdout'' t (assistant_meta s) s]"
proof -
  let ?s1 = "s\<lparr>cs_last_text := [], cs_emitted := [], cs_turn := trim_space turn, cs_buffer := concat ds\<rparr>"
  have trimmed: "trim_space t = t"
    using assms(1) item_text_trimmed by metis
  have type: "trim_space (as_string (lookup_json ''type'' item)) = ''agentMessage''"
    unfolding assms(4) by code_simp
  have start: "fst (handle_note now (Turn_started turn) s) = s\<lparr>cs_buffer := [], cs_last_text := [], cs_emitted := [], cs_turn := trim_space turn\<rparr>"
    "filter is_log (snd (handle_note now (Turn_started turn) s)) = []"
    using assms(5,6) by (simp_all add: set_active_turn_def Let_def is_log_def)
  have done1: "handle_note now (Item_completed item) ?s1 =
      (?s1\<lparr>cs_buffer := [], cs_last_text := t, cs_emitted := t\<rparr>, [codex_log now ''stdout'' t (assistant_meta s) s])"
    using assms(1,3) trimmed type completed_fresh [of t ?s1 now]
    by (simp add: handle_item_def assistant_meta_def codex_meta_def codex_log_def Let_def)
  let ?s2 = "s\<lparr>cs_turn := trim_space turn, cs_buffer := [], cs_last_text := t, cs_emitted := t\<rparr>"
  have done2: "handle_note now (Raw_item_completed raw_item) ?s2 = (?s2, [])"
    using assms(2,3) trimmed completed_again [of t ?s2 now] by simp
  have done3: "snd (handle_note now (Turn_completed turn None) ?s2) = []"
    by (simp add: handle_turn_completed_def flush_empty Let_def)
  show ?thesis
    using start by (simp add: handle_notes_append append_deltas done1 done2 done3
        case_prod_beta del: handle_note.simps)
qed

lemma codex_reply_once_witness:
  "filter is_log (snd (handle_notes 1 ([Turn_started ''t''] @ map Agent_delta [''He'', ''llo''] @
      [Item_completed [(''type'', JString ''agentMessage''), (''text'', JString ''Hello'')],
       Raw_item_completed [(''content'', JList [JObject [(''text'', JString ''Hello'')]])], Turn_completed ''t'' None])
      (new_codex_session ''s''))) =
   [codex_log 1 ''stdout'' ''Hello'' (assistant_meta (new_codex_session ''s'')) (new_codex_session ''s'')]"
proof (rule codex_reply_once)
  show "item_text [(''type'', JString ''agentMessage''), (''text'', JString ''Hello'')] = ''Hello''"
    "item_text [(''content'', JList [JObject [(''text'', JString ''Hello'')]])] = ''Hello''"
    "lookup_json ''type'' [(''type'', JString ''agentMessage''), (''text'', JString ''Hello'')] = JString ''agentMessage''"
    "trim_space ''t'' \<noteq> []" "trim_space ''t'' \<noteq> cs_turn (new_codex_session ''s'')" "''Hello'' \<noteq> []"
    by code_simp+
qed

text \<open>
  After any run of notifications the timers that wait, however many there are and in whatever order they run out,
  prompt for input at most once.
\<close>

theorem codex_prompts_once:
  assumes "length ns < 2 ^ 63"
  shows "length (snd (fire_timers now' is (fst (handle_notes now ns (new_codex_session sid))))) \<le> 1"
proof -
  have "timers_ok 0 (new_codex_session sid)"
    by (simp add: timers_ok_def new_codex_session_def)
  then have "timers_ok (length ns) (fst (handle_notes now ns (new_codex_session sid)))"
    using handle_notes_timers [of 0 "new_codex_session sid" ns now] assms by simp
  then show ?thesis
    using fire_once by (simp add: timers_ok_def)
qed

lemma codex_prompts_once_witness:
  "length (snd (fire_timers 9 [1, 0] (fst (handle_notes 1 [Turn_completed ''t'' None, Thread_status ''idle''] (new_codex_session ''s''))))) \<le> 1"
  by (rule codex_prompts_once) simp

text \<open>The answers that decline, and the requests that ask for an approval.\<close>

definition declines :: "approval_answer \<Rightarrow> bool" where
  "declines a = (case a of Decision d \<Rightarrow> d = ''decline'' | Granted p _ \<Rightarrow> p = None)"

definition asks_approval :: "codex_request \<Rightarrow> bool" where
  "asks_approval req = (case req of
     Approve_file _ \<Rightarrow> True | Approve_command _ _ \<Rightarrow> True | Approve_permissions p _ \<Rightarrow> p \<noteq> [] \<and> is_object p | _ \<Rightarrow> False)"



text \<open>
  There is room for one approval only: a second request takes the place of the first, which is never answered.
\<close>

theorem codex_second_approval_replaces_first:
  "snd (codex_permission_response None mode ''approve''
     (fst (handle_request now ''8'' (Approve_file reason) (fst (handle_request now ''7'' (Approve_command command reason') s))))) =
     Inr (''8'', Decision (approval_decision mode ''approve'')) \<and>
   snd (codex_permission_response None mode decision
     (fst (codex_permission_response None mode ''approve''
       (fst (handle_request now ''8'' (Approve_file reason) (fst (handle_request now ''7'' (Approve_command command reason') s))))))) =
     Inl No_pending_request"
proof -
  have "trim_space (to_lower ''approve'') = ''approve''"
    by code_simp
  then show ?thesis
    by (simp add: codex_permission_response_def clear_approval_def)
qed

text \<open>
  A second message of a turn is taken for more of the first when it starts with it, and is dropped when it contains
  the text that was reported last and is not much longer.
\<close>

theorem codex_second_message_cut:
  "map event_lines (filter is_log (snd (handle_notes 1 [Turn_started ''t'',
      Item_completed [(''type'', JString ''agentMessage''), (''text'', JString ''Done'')],
      Item_completed [(''type'', JString ''agentMessage''), (''text'', JString ''Donetsk is next'')]] (new_codex_session ''s'')))) =
     [[''Done''], [''tsk is next'']] \<and>
   map event_lines (filter is_log (snd (handle_notes 1 [Turn_started ''t'',
      Item_completed [(''type'', JString ''agentMessage''), (''text'', JString ''ok'')],
      Item_completed [(''type'', JString ''agentMessage''), (''text'', JString ''it is broken'')]] (new_codex_session ''s'')))) =
     [[''ok'']]"
  by code_simp

end
