(* ===== verification/Paths.thy ===== *)
theory Paths
  imports Parser
begin

text \<open>
  File paths as package \<open>path/filepath\<close> sees them on Unix: \<open>Clean\<close>, \<open>Join\<close>, \<open>IsAbs\<close> and \<open>Rel\<close>, on the components
  between the slashes.
\<close>

abbreviation slash :: char where "slash \<equiv> CHR ''/''"
abbreviation dotdot :: string where "dotdot \<equiv> ''..''"

definition is_abs :: "string \<Rightarrow> bool" where
  "is_abs p \<longleftrightarrow> p \<noteq> [] \<and> hd p = slash"

text \<open>One component is added to a cleaned path, given with its last component first.\<close>

definition push_part :: "bool \<Rightarrow> string \<Rightarrow> string list \<Rightarrow> string list" where
  "push_part rooted c stack =
     (if c = [] \<or> c = ''.'' then stack
      else if c = dotdot
      then (case stack of
          d # rest \<Rightarrow> if d = dotdot then dotdot # stack else rest
        | [] \<Rightarrow> if rooted then [] else [dotdot])
      else c # stack)"

definition clean_parts :: "bool \<Rightarrow> string list \<Rightarrow> string list" where
  "clean_parts rooted cs = rev (fold (push_part rooted) cs [])"

definition show_path :: "bool \<Rightarrow> string list \<Rightarrow> string" where
  "show_path rooted cs =
     (if rooted then slash # join [slash] cs else if cs = [] then ''.'' else join [slash] cs)"

definition clean_path :: "string \<Rightarrow> string" where
  "clean_path p = show_path (is_abs p) (clean_parts (is_abs p) (split_on slash p))"

definition join_path :: "string \<Rightarrow> string \<Rightarrow> string" where
  "join_path a b =
     (if a = [] \<and> b = [] then []
      else clean_path (if a = [] then b else if b = [] then a else a @ [slash] @ b))"

text \<open>\<open>Rel\<close>; none stands for its error.\<close>

fun strip_common :: "string list \<Rightarrow> string list \<Rightarrow> string list \<times> string list" where
  "strip_common (a # as) (b # bs) = (if a = b then strip_common as bs else (a # as, b # bs))"
| "strip_common as bs = (as, bs)"

definition rel_path :: "string \<Rightarrow> string \<Rightarrow> string option" where
  "rel_path base target =
     (let bs = clean_parts (is_abs base) (split_on slash base); ts = clean_parts (is_abs target) (split_on slash target) in
      if is_abs base \<noteq> is_abs target then None
      else (case strip_common bs ts of (bs', ts') \<Rightarrow>
        if bs' \<noteq> [] \<and> hd bs' = dotdot then None
        else Some (show_path False (replicate (length bs') dotdot @ ts'))))"

section \<open>Lemmas\<close>

lemma push_part_name: "c \<notin> {[], ''.'', dotdot} \<Longrightarrow> push_part rooted c stack = c # stack"
  by (simp add: push_part_def)

text \<open>What the components of a cleaned path look like: going up comes first, and not at all when it starts at the root.\<close>

definition clean_stack :: "bool \<Rightarrow> string list \<Rightarrow> bool" where
  "clean_stack rooted stack \<longleftrightarrow>
     (\<exists>names ups. stack = names @ replicate ups dotdot \<and> (rooted \<longrightarrow> ups = 0) \<and>
       (\<forall>c\<in>set names. c \<noteq> [] \<and> c \<noteq> ''.'' \<and> c \<noteq> dotdot \<and> slash \<notin> set c))"

lemma push_part_clean:
  assumes "clean_stack rooted stack" and "slash \<notin> set c"
  shows "clean_stack rooted (push_part rooted c stack)"
proof -
  obtain names ups where stack: "stack = names @ replicate ups dotdot" "rooted \<longrightarrow> ups = 0"
    "\<forall>c\<in>set names. c \<noteq> [] \<and> c \<noteq> ''.'' \<and> c \<noteq> dotdot \<and> slash \<notin> set c"
    using assms(1) by (auto simp: clean_stack_def)
  consider "c = [] \<or> c = ''.''" | "c = dotdot" | "c \<notin> {[], ''.'', dotdot}"
    by blast
  then show ?thesis
  proof cases
    case 1
    then show ?thesis
      using assms(1) by (simp add: push_part_def)
  next
    case 2
    show ?thesis
    proof (cases names)
      case Nil
      then have "push_part rooted c stack = replicate (if rooted then 0 else Suc ups) dotdot"
        using 2 stack by (cases ups) (simp_all add: push_part_def)
      then show ?thesis
        unfolding clean_stack_def by (intro exI [of _ "[]"] exI [of _ "if rooted then 0 else Suc ups"]) simp
    next
      case (Cons d rest)
      then have "push_part rooted c stack = rest @ replicate ups dotdot"
        using 2 stack by (simp add: push_part_def)
      then show ?thesis
        using stack Cons unfolding clean_stack_def by (intro exI [of _ rest] exI [of _ ups]) simp
    qed
  next
    case 3
    then have "push_part rooted c stack = (c # names) @ replicate ups dotdot"
      using stack by (simp add: push_part_name)
    then show ?thesis
      using stack 3 assms(2) unfolding clean_stack_def by (intro exI [of _ "c # names"] exI [of _ ups]) simp
  qed
qed

lemma fold_push_clean:
  "clean_stack rooted stack \<Longrightarrow> \<forall>c\<in>set cs. slash \<notin> set c \<Longrightarrow> clean_stack rooted (fold (push_part rooted) cs stack)"
  by (induction cs arbitrary: stack) (simp_all add: push_part_clean)

lemma clean_parts_clean: "clean_stack rooted (rev (clean_parts rooted (split_on slash p)))"
  unfolding clean_parts_def rev_rev_ident
  by (rule fold_push_clean) (auto simp: clean_stack_def dest: split_on_no_sep)

lemma fold_push_names:
  "\<forall>c\<in>set cs. c \<noteq> [] \<and> c \<noteq> ''.'' \<and> c \<noteq> dotdot \<Longrightarrow> fold (push_part rooted) cs stack = rev cs @ stack"
  by (induction cs arbitrary: stack) (simp_all add: push_part_name)

lemma fold_push_ups: "fold (push_part False) (replicate n dotdot) (replicate k dotdot) = replicate (n + k) dotdot"
proof (induction n arbitrary: k)
  case (Suc n)
  have "push_part False dotdot (replicate k dotdot) = replicate (Suc k) dotdot"
    by (cases k) (simp_all add: push_part_def)
  then show ?case
    using Suc.IH [of "Suc k"] by simp
qed simp

lemma clean_parts_again:
  assumes "clean_stack rooted (rev cs)"
  shows "clean_parts rooted cs = cs"
proof -
  obtain names ups where parts: "rev cs = names @ replicate ups dotdot" "rooted \<longrightarrow> ups = 0"
    "\<forall>c\<in>set names. c \<noteq> [] \<and> c \<noteq> ''.'' \<and> c \<noteq> dotdot \<and> slash \<notin> set c"
    using assms by (auto simp: clean_stack_def)
  have cs: "cs = replicate ups dotdot @ rev names"
    using parts(1) by (metis rev_append rev_replicate rev_rev_ident)
  have "fold (push_part rooted) (replicate ups dotdot) [] = replicate ups dotdot"
    using parts(2) fold_push_ups [of ups 0] by (cases rooted) simp_all
  then show ?thesis
    using fold_push_names [of "rev names" rooted "replicate ups dotdot"] parts(3) by (simp add: clean_parts_def cs)
qed

lemma clean_stack_no_slash:
  assumes "clean_stack rooted (rev cs)"
  shows "list_all (\<lambda>c. slash \<notin> set c) cs"
proof -
  have "slash \<notin> set dotdot"
    by code_simp
  then have "slash \<notin> set c" if "c \<in> set (rev cs)" for c
    using assms that unfolding clean_stack_def by (metis Un_iff in_set_replicate set_append)
  then show ?thesis
    by (simp add: list_all_iff)
qed

lemma join_no_slash_head:
  assumes "clean_stack rooted (rev cs)" and "cs \<noteq> []"
  shows "\<not> is_abs (join [slash] cs)"
proof -
  obtain c ds where cs: "cs = c # ds"
    using assms(2) by (cases cs) auto
  have "c \<in> set (rev cs)"
    by (simp add: cs)
  then have "c \<noteq> []"
    using assms(1) unfolding clean_stack_def by (metis Un_iff in_set_replicate list.discI set_append)
  moreover have "slash \<notin> set c"
    using clean_stack_no_slash [OF assms(1)] by (simp add: cs)
  ultimately have "hd (c @ u) \<noteq> slash" for u
    by (cases c) auto
  then show ?thesis
    using \<open>c \<noteq> []\<close> by (cases ds) (auto simp: cs is_abs_def)
qed

text \<open>A file of a directory, given by its name.\<close>

lemma split_on_append: "split_on c (u @ c # s) = split_on c u @ split_on c s"
proof (induction u)
  case (Cons x u)
  then show ?case
    by (cases "split_on c u") auto
qed simp

definition file_name :: "string \<Rightarrow> bool" where
  "file_name c \<longleftrightarrow> c \<noteq> [] \<and> c \<noteq> ''.'' \<and> c \<noteq> dotdot \<and> slash \<notin> set c"

lemma file_nameD:
  assumes "file_name c"
  shows "c \<noteq> []" and "slash \<notin> set c" and "push_part rooted c stack = c # stack"
  using assms unfolding file_name_def by (blast, blast, intro push_part_name, blast)

lemma join_path_name:
  assumes "file_name c" and "base \<noteq> []"
  shows "join_path base c = show_path (is_abs base) (clean_parts (is_abs base) (split_on slash base) @ [c])"
proof -
  have "is_abs (base @ slash # c) = is_abs base"
    using assms(2) by (simp add: is_abs_def)
  moreover have "split_on slash (base @ slash # c) = split_on slash base @ [c]"
    using file_nameD(2) [OF assms(1)] by (simp add: split_on_append split_on_none)
  moreover have "clean_parts r (cs @ [c]) = clean_parts r cs @ [c]" for r cs
    using file_nameD(3) [OF assms(1)] by (simp add: clean_parts_def)
  moreover have "c \<noteq> []"
    by (rule file_nameD(1) [OF assms(1)])
  ultimately show ?thesis
    using assms(2) by (simp add: join_path_def clean_path_def)
qed

lemma show_path_join: "cs \<noteq> [] \<Longrightarrow> ds \<noteq> [] \<Longrightarrow> show_path r cs = show_path r ds \<Longrightarrow> join [slash] cs = join [slash] ds"
  by (cases r) (simp_all add: show_path_def)

lemma join_path_inj:
  assumes "file_name c" and "file_name d" and "base \<noteq> []"
  shows "join_path base c = join_path base d \<longleftrightarrow> c = d"
proof
  assume same: "join_path base c = join_path base d"
  let ?cs = "clean_parts (is_abs base) (split_on slash base)"
  have names: "list_all (\<lambda>x. slash \<notin> set x) (?cs @ [c])" "list_all (\<lambda>x. slash \<notin> set x) (?cs @ [d])"
    using clean_stack_no_slash [OF clean_parts_clean, of "is_abs base" base] file_nameD(2) [OF assms(1)]
      file_nameD(2) [OF assms(2)] by (simp_all only: list_all_append list.pred_inject simp_thms)
  have "join [slash] (?cs @ [c]) = join [slash] (?cs @ [d])"
    by (rule show_path_join [OF _ _ same [unfolded join_path_name [OF assms(1,3)] join_path_name [OF assms(2,3)]]]) simp_all
  then have "?cs @ [c] = ?cs @ [d]"
    by (metis names split_join append_is_Nil_conv not_Cons_self2)
  then show "c = d"
    by simp
qed simp

section \<open>Properties\<close>

text \<open>Cleaning a path once is enough: a cleaned path is its own cleaned path, and stays absolute or relative.\<close>

theorem clean_path_idem: "clean_path (clean_path p) = clean_path p \<and> is_abs (clean_path p) = is_abs p"
proof -
  let ?r = "is_abs p"
  let ?cs = "clean_parts ?r (split_on slash p)"
  have stack: "clean_stack ?r (rev ?cs)"
    by (rule clean_parts_clean)
  have abs: "is_abs (show_path ?r ?cs) = ?r"
    using join_no_slash_head [OF stack] by (auto simp: show_path_def is_abs_def)
  have dot: "fold (push_part b) [''.''] [] = []" "fold (push_part b) [[], []] [] = []" for b
    by (simp_all add: push_part_def)
  have "clean_parts ?r (split_on slash (show_path ?r ?cs)) = ?cs"
  proof (cases "?cs = []")
    case True
    have "split_on slash ''.'' = [''.'']" "split_on slash [slash] = [[], []]"
      by code_simp+
    then show ?thesis
      using dot unfolding True by (cases ?r) (simp_all add: show_path_def clean_parts_def)
  next
    case False
    have parts: "split_on slash (join [slash] ?cs) = ?cs"
      using split_join [OF False clean_stack_no_slash [OF stack]] .
    have skip: "clean_parts ?r ([] # ?cs) = clean_parts ?r ?cs"
      by (simp add: clean_parts_def push_part_def)
    show ?thesis
      using parts skip clean_parts_again [OF stack] False by (cases ?r) (simp_all add: show_path_def)
  qed
  then show ?thesis
    using abs by (simp add: clean_path_def)
qed

end
