(* ===== verification/PtyRunner.thy ===== *)
theory PtyRunner
  imports CodexSession Service
begin

text \<open>
  The interactive runner (\<open>engine/pty_engine.go\<close>): its flags, the permission requests that wait for an answer, the
  answers, closing and the generations of its processes, and the watchdog on its silence. \<open>Service.runner\<close> is
  what the runtime service sees of it. An operation that unlocks the runner while it writes has two halves.
\<close>

section \<open>Commands\<close>

text \<open>The heads of \<open>engine/shell.go\<close>; the suffix of a Windows path is written with two backslashes in a raw string.\<close>

definition engine_head :: "string \<Rightarrow> string \<Rightarrow> bool" where
  "engine_head name head \<longleftrightarrow> head = name \<or> has_suffix head (CHR ''/'' # name) \<or> has_suffix head ([CHR 0x5C, CHR 0x5C] @ name) \<or>
     head \<in> {name @ ''.exe'', name @ ''.cmd'', name @ ''.ps1''}"

definition command_named :: "string \<Rightarrow> string \<Rightarrow> bool" where
  "command_named name command = (case GoStrings.fields (trim_space command) of [] \<Rightarrow> False | h # _ \<Rightarrow> engine_head name (to_lower h))"

abbreviation is_claude_command_name :: "string \<Rightarrow> bool" where "is_claude_command_name \<equiv> command_named ''claude''"
abbreviation is_codex_command_name :: "string \<Rightarrow> bool" where "is_codex_command_name \<equiv> command_named ''codex''"

definition is_ai_command_name :: "string \<Rightarrow> bool" where
  "is_ai_command_name command \<longleftrightarrow> command_named ''claude'' command \<or> command_named ''gemini'' command \<or> command_named ''codex'' command"

definition lazy_ready_engine :: "string \<Rightarrow> string" where
  "lazy_ready_engine command =
     (if is_codex_command_name command then ''codex'' else if is_claude_command_name command then ''claude'' else [])"

fun arg_after :: "string \<Rightarrow> string list \<Rightarrow> string" where
  "arg_after flag (f # v # rest) = (if f = flag then v else arg_after flag (v # rest))"
| "arg_after flag _ = []"

definition extract_claude_session_id_arg :: "string \<Rightarrow> string" where
  "extract_claude_session_id_arg command = arg_after ''--session-id'' (GoStrings.fields (trim_space command))"

definition engine_resume_arg :: "string \<Rightarrow> string" where
  "engine_resume_arg command =
     (let fs = GoStrings.fields (trim_space command) in
      if 3 \<le> length fs \<and> is_codex_command_name (fs ! 0) \<and> equal_fold (trim_space (fs ! 1)) ''resume'' \<and> \<not> has_prefix (fs ! 2) ''-''
      then fs ! 2 else arg_after ''--resume'' fs)"

definition should_use_claude_resume_interactive :: "string \<Rightarrow> bool" where
  "should_use_claude_resume_interactive command \<longleftrightarrow>
     is_claude_command_name command \<and>
     (let fs = GoStrings.fields (trim_space command) in
       ''--resume'' \<in> set (butlast fs) \<and> ''--print'' \<notin> set fs \<and> ''-p'' \<notin> set fs)"

definition txt_wait_input :: string where
  "txt_wait_input = [CHR 0xE7, CHR 0xAD, CHR 0x89, CHR 0xE5, CHR 0xBE, CHR 0x85, CHR 0xE8, CHR 0xBE, CHR 0x93,
    CHR 0xE5, CHR 0x85, CHR 0xA5]"

section \<open>The runner\<close>

record pty =
  pt_writer :: bool
  pt_closer :: bool
  pt_process :: bool
  pt_closed :: bool
  pt_suppress_exit :: bool
  pt_lazy :: bool
  pt_interactive :: bool
  pt_awaiting :: bool
  pt_command :: string
  pt_engine :: string
  pt_source :: string
  pt_req_meta :: runtime_meta
  pt_dir :: string
  pt_session :: string
  pt_codex :: "codex_session option"
  pt_mode :: string
  pt_request :: string
  pt_request_prev :: string
  pt_input :: string
  pt_input_prev :: string
  pt_options :: "string list"
  pt_tool :: string
  pt_target :: string
  pt_snapshots :: "string \<rightharpoonup> string option"
  pt_catalog :: string
  pt_assistant_key :: string
  pt_generation :: nat
  pt_last_output :: time
  pt_watchdog :: bool
  pt_tool_pending :: bool
  pt_first_line_seen :: bool

definition new_pty :: pty where
  "new_pty = \<lparr>pt_writer = False, pt_closer = False, pt_process = False, pt_closed = False, pt_suppress_exit = False,
     pt_lazy = False, pt_interactive = False, pt_awaiting = False, pt_command = [], pt_engine = [], pt_source = [],
     pt_req_meta = empty_meta, pt_dir = [], pt_session = [], pt_codex = None, pt_mode = [], pt_request = [],
     pt_request_prev = [], pt_input = [], pt_input_prev = [], pt_options = [], pt_tool = [], pt_target = [],
     pt_snapshots = Map.empty, pt_catalog = [], pt_assistant_key = [], pt_generation = 0, pt_last_output = 0,
     pt_watchdog = False, pt_tool_pending = False, pt_first_line_seen = False\<rparr>"

definition can_accept_input :: "pty \<Rightarrow> bool" where
  "can_accept_input r \<longleftrightarrow> pt_interactive r \<and> pt_writer r \<and> \<not> pt_closed r"

definition has_pending_request :: "pty \<Rightarrow> bool" where
  "has_pending_request r = (case pt_codex r of
     Some s \<Rightarrow> codex_has_pending s
   | None \<Rightarrow> trim_space (pt_request r) \<noteq> [] \<or> trim_space (pt_request_prev r) \<noteq> [])"

definition current_request :: "pty \<Rightarrow> string" where
  "current_request r = (case pt_codex r of
     Some s \<Rightarrow> codex_current_request s
   | None \<Rightarrow> if trim_space (pt_request r) \<noteq> [] then trim_space (pt_request r) else trim_space (pt_request_prev r))"

definition claude_session_id :: "pty \<Rightarrow> string" where
  "claude_session_id r =
     (let s = extract_claude_session_id_arg (pt_command r) in if s \<noteq> [] then s else trim_space (pt_session r))"

definition mark_interactive_ready :: "pty \<Rightarrow> pty" where
  "mark_interactive_ready r = r\<lparr>pt_awaiting := False, pt_interactive := True\<rparr>"

definition set_permission_mode :: "string \<Rightarrow> pty \<Rightarrow> pty" where
  "set_permission_mode mode r = r\<lparr>pt_mode := mode\<rparr>"

definition mark_output_seen :: "time \<Rightarrow> pty \<Rightarrow> pty" where
  "mark_output_seen now r = r\<lparr>pt_last_output := now\<rparr>"

definition next_generation :: "pty \<Rightarrow> pty" where
  "next_generation r = r\<lparr>pt_generation := wrap_u64 (Suc (pt_generation r))\<rparr>"

definition clear_requests :: "pty \<Rightarrow> pty" where
  "clear_requests r = r\<lparr>pt_request := [], pt_request_prev := [], pt_input := [], pt_input_prev := [], pt_options := []\<rparr>"

text \<open>\<open>clearGeneration\<close>; generation 0 clears whatever runs.\<close>

definition clear_generation :: "nat \<Rightarrow> pty \<Rightarrow> pty" where
  "clear_generation g r =
     (if g \<noteq> 0 \<and> pt_generation r \<noteq> g then r
      else (clear_requests r)\<lparr>pt_watchdog := False, pt_writer := False, pt_closer := False, pt_process := False,
        pt_codex := None, pt_dir := [], pt_tool := [], pt_target := [], pt_snapshots := Map.empty, pt_catalog := [],
        pt_assistant_key := [], pt_lazy := False, pt_interactive := False, pt_awaiting := False,
        pt_tool_pending := False, pt_closed := True, pt_suppress_exit := False\<rparr>)"

definition close_pty :: "pty \<Rightarrow> pty" where
  "close_pty r = r\<lparr>pt_closed := True, pt_suppress_exit := True\<rparr>"

definition lazy_ready_prompt :: "time \<Rightarrow> string \<Rightarrow> string \<Rightarrow> string \<Rightarrow> string \<Rightarrow> runtime_meta \<Rightarrow> payload" where
  "lazy_ready_prompt now sid command cwd mode m =
     (let e = (if trim_space (m_engine m) = [] then lazy_ready_engine command else trim_space (m_engine m)) in
      apply_runtime_meta (EvPrompt (new_prompt_request_event now sid txt_wait_input []))
        (merge_runtime_meta m (empty_meta\<lparr>m_command := command, m_engine := e, m_cwd := cwd, m_permission_mode := mode,
           m_blocking_kind := ''ready'', m_claude_lifecycle := ''waiting_input''\<rparr>)))"

section \<open>Permission requests\<close>

definition text_request :: string where "text_request = ''__text_permission_prompt__''"

text \<open>A control request of the engine: the one that waits becomes the previous one.\<close>

definition queue_request :: "string \<Rightarrow> string \<Rightarrow> pty \<Rightarrow> pty" where
  "queue_request i input r =
     (let r = (if pt_request r \<noteq> [] \<and> pt_request r \<noteq> i
            then r\<lparr>pt_request_prev := pt_request r, pt_input_prev := pt_input r\<rparr> else r)
      in r\<lparr>pt_request := i, pt_input := input\<rparr>)"

definition set_prompt_options :: "string \<Rightarrow> string list \<Rightarrow> pty \<Rightarrow> pty" where
  "set_prompt_options i options r = (if pt_request r = i then r\<lparr>pt_options := options\<rparr> else r)"

definition cache_text_prompt :: "string \<Rightarrow> string list \<Rightarrow> pty \<Rightarrow> pty" where
  "cache_text_prompt message options r =
     (if \<not> looks_like_permission_prompt_text message options \<or> trim_space (pt_request r) \<noteq> [] then r
      else r\<lparr>pt_request := text_request, pt_options := options\<rparr>)"

text \<open>What is written to the engine for a decision.\<close>

datatype pty_out = Text_line string | Control_response string bool string | Codex_response string approval_answer

definition decision_of :: "string \<Rightarrow> bool option" where
  "decision_of d = (let t = trim_space (to_lower d) in
     if t = ''approve'' then Some True else if t = ''deny'' then Some False else None)"

text \<open>
  The first half of \<open>WritePermissionResponse\<close>: the request it read and what it writes, or the error. The answer of a
  codex session is given by that session. The input of the tool is decoded into a map.
\<close>

definition response_begin ::
  "string \<Rightarrow> pty \<Rightarrow> go_error + string \<times> pty_out" where
  "response_begin d r =
     (case decision_of d of
        None \<Rightarrow> Inl (plain_error ''permission decision must be one of: approve, deny'')
      | Some approve \<Rightarrow>
          (let i = trim_space (pt_request r) in
           if \<not> pt_writer r \<or> pt_closed r then Inl (plain_error ''no active pty session'')
           else if i = [] then Inl (err NoPendingControl)
           else if i = text_request
           then (let t = resolve_decision_token d (pt_options r) in
             Inr (i, Text_line (if t = [] then (if approve then ''y'' else ''n'') else t)))
           else if approve \<and> pt_input r \<noteq> [] \<and> \<not> decodes_to_map (pt_input r)
           then Inl (plain_error ''decode permission tool input'')
           else Inr (i, Control_response i approve (if approve then pt_input r else []))))"

text \<open>The second half, after the write.\<close>

definition response_end :: "string \<Rightarrow> pty \<Rightarrow> pty" where
  "response_end i r =
     (if pt_request r \<noteq> i then r
      else if i = text_request then clear_requests r
      else if pt_request_prev r \<noteq> []
      then r\<lparr>pt_request := pt_request_prev r, pt_input := pt_input_prev r, pt_options := [], pt_request_prev := [], pt_input_prev := []\<rparr>
      else r\<lparr>pt_request := [], pt_input := [], pt_options := []\<rparr>)"

definition codex_error_of :: "codex_perm_error \<Rightarrow> go_error" where
  "codex_error_of e = (case e of No_pending_request \<Rightarrow> err NoPendingControl | Write_failed t \<Rightarrow> plain_error t)"

text \<open>The whole operation when nothing comes in between; \<open>write_err\<close> is the error of the write.\<close>

definition write_permission_response ::
  "string option \<Rightarrow> string \<Rightarrow> pty \<Rightarrow> pty \<times> (go_error + pty_out)" where
  "write_permission_response write_err d r =
     (case pt_codex r of
        Some s \<Rightarrow>
          (if decision_of d = None then (r, Inl (plain_error ''permission decision must be one of: approve, deny''))
           else if pt_closed r then (r, Inl (plain_error ''no active pty session''))
           else (case codex_permission_response write_err (pt_mode r) d s of
               (s', Inl e) \<Rightarrow> (r\<lparr>pt_codex := Some s'\<rparr>, Inl (codex_error_of e))
             | (s', Inr (i, a)) \<Rightarrow> (r\<lparr>pt_codex := Some s'\<rparr>, Inr (Codex_response i a))))
      | None \<Rightarrow> (case response_begin d r of
          Inl e \<Rightarrow> (r, Inl e)
        | Inr (i, out) \<Rightarrow> (case write_err of
            Some t \<Rightarrow> (r, Inl (plain_error ((if i = text_request then ''write text permission response: '' else ''write control response: '') @ t)))
          | None \<Rightarrow> (response_end i r, Inr out))))"

section \<open>Writing input\<close>

text \<open>
  One round of \<open>Write\<close>: where the input goes, or the error. The rounds in which the runner waits for its first prompt
  are \<open>wait_for_interactive\<close> of the runtime service in the same form.
\<close>

datatype write_step = Start_codex | Start_claude | Wait_ready | Write_bytes string | Write_error go_error

definition final_input :: "string \<Rightarrow> string \<Rightarrow> string" where
  "final_input command data =
     (if is_ai_command_name command \<and> data \<noteq> [] \<and> last data = nl \<and> (length data = 1 \<or> data ! (length data - 2) \<noteq> cr)
      then butlast data @ [cr, nl] else data)"

definition write_round :: "string \<Rightarrow> pty \<Rightarrow> write_step" where
  "write_round data r =
     (if data = [] then Write_error (plain_error ''input data is required'')
      else if pt_lazy r \<and> \<not> pt_interactive r
      then (if is_codex_command_name (pt_command r) then Start_codex else Start_claude)
      else if pt_awaiting r \<and> \<not> pt_interactive r then Wait_ready
      else if \<not> pt_writer r \<or> pt_closed r then Write_error (plain_error ''no active pty session'')
      else if is_codex_command_name (pt_command r) then Write_bytes data
      else Write_bytes (final_input (pt_command r) data))"

text \<open>A look of \<open>waitForInteractiveReady\<close>: done, an error, or wait for the next.\<close>

definition ready_look :: "pty \<Rightarrow> go_error option option" where
  "ready_look r =
     (if can_accept_input r then Some None
      else if pt_closed r then Some (Some (plain_error ''no active runner''))
      else if \<not> pt_awaiting r then Some (Some (plain_error ''runner is not ready for interactive input'')) else None)"

section \<open>The watchdog on silence\<close>

definition stall_warn1 :: duration where "stall_warn1 = 60 * second"
definition stall_warn2 :: duration where "stall_warn2 = 90 * second"
definition stall_abort :: duration where "stall_abort = 120 * second"
definition stall_abort_tool :: duration where "stall_abort_tool = 600 * second"

definition txt_stall1 :: string where "txt_stall1 = ''AI '' @ [CHR 0xE9, CHR 0x95, CHR 0xBF, CHR 0xE6,
  CHR 0x97, CHR 0xB6, CHR 0xE9, CHR 0x97, CHR 0xB4, CHR 0xE6, CHR 0x97, CHR 0xA0, CHR 0xE5, CHR 0x93,
  CHR 0x8D, CHR 0xE5, CHR 0xBA, CHR 0x94, CHR 0xEF, CHR 0xBC, CHR 0x88]"
definition txt_stall2 :: string where "txt_stall2 = '' '' @ [CHR 0xE7, CHR 0xA7, CHR 0x92, CHR 0xEF, CHR 0xBC,
  CHR 0x89, CHR 0xEF, CHR 0xBC, CHR 0x8C, CHR 0xE5, CHR 0xB7, CHR 0xB2, CHR 0xE8, CHR 0x87, CHR 0xAA,
  CHR 0xE5, CHR 0x8A, CHR 0xA8, CHR 0xE5, CHR 0x81, CHR 0x9C, CHR 0xE6, CHR 0xAD, CHR 0xA2, CHR 0xE3,
  CHR 0x80, CHR 0x82, CHR 0xE8, CHR 0xAF, CHR 0xB7, CHR 0xE9, CHR 0x87, CHR 0x8D, CHR 0xE6, CHR 0x96,
  CHR 0xB0, CHR 0xE5, CHR 0x8F, CHR 0x91, CHR 0xE9, CHR 0x80, CHR 0x81, CHR 0xE8, CHR 0xAF, CHR 0xB7,
  CHR 0xE6, CHR 0xB1, CHR 0x82, CHR 0xE3, CHR 0x80, CHR 0x82]"

datatype stall_result = Stall_stop | Stall_wait nat | Stall_abort payload

text \<open>One tick of \<open>runStallWatchdog\<close> with the warnings it has logged; an abort closes the runner and ends the loop.\<close>

definition stall_tick :: "time \<Rightarrow> string \<Rightarrow> nat \<Rightarrow> pty \<Rightarrow> pty \<times> stall_result" where
  "stall_tick now sid warned r =
     (let silent = now - pt_last_output r; limit = (if pt_tool_pending r then stall_abort_tool else stall_abort) in
      if pt_closed r then (r, Stall_stop)
      else if is_zero (pt_last_output r) then (r, Stall_wait warned)
      else if silent < stall_warn1 then (r, Stall_wait 0)
      else if limit \<le> silent
      then (close_pty r, Stall_abort (EvError (new_error_event now sid (txt_stall1 @ digits (nat (silent div second)) @ txt_stall2) [])))
      else if stall_warn2 \<le> silent \<and> warned < 2 then (r, Stall_wait 2)
      else if stall_warn1 \<le> silent \<and> warned < 1 then (r, Stall_wait 1)
      else (r, Stall_wait warned))"

text \<open>What the runtime service sees of the runner.\<close>

definition pty_view :: "nat \<Rightarrow> pty \<Rightarrow> runner" where
  "pty_view i r = \<lparr>rn_id = i, rn_session = Some (claude_session_id r), rn_accepts = Some (can_accept_input r),
     rn_pending = Some (has_pending_request r, current_request r), rn_mode = Some (pt_mode r)\<rparr>"

section \<open>Runs of permission requests\<close>

text \<open>
  What changes the requests of the runner: a control request (its identifier trimmed and not empty, as the reader takes
  it), the options of its prompt, a prompt in the text, the second half of an answer, the end of a turn, the end of a
  process, a codex session coming or going.
\<close>

datatype perm_op =
    Control_request string string
  | Prompt_options string string
  | Text_prompt string
  | Answered_request string
  | Turn_over
  | Process_over nat
  | Codex_session "codex_session option"

fun perm_step :: "perm_op \<Rightarrow> pty \<Rightarrow> pty" where
  "perm_step (Control_request i input) r = (if trim_space i = [] then r else queue_request (trim_space i) input r)"
| "perm_step (Prompt_options i message) r = set_prompt_options (trim_space i) (prompt_options message) r"
| "perm_step (Text_prompt message) r = cache_text_prompt message (prompt_options message) r"
| "perm_step (Answered_request i) r = (if i = [] then r else response_end i r)"
| "perm_step Turn_over r = clear_requests r"
| "perm_step (Process_over g) r = clear_generation g r"
| "perm_step (Codex_session s) r = r\<lparr>pt_codex := s\<rparr>"

abbreviation perm_run :: "perm_op list \<Rightarrow> pty" where
  "perm_run ops \<equiv> fold perm_step ops new_pty"

definition requests_ok :: "pty \<Rightarrow> bool" where
  "requests_ok r \<longleftrightarrow> trim_space (pt_request r) = pt_request r \<and> trim_space (pt_request_prev r) = pt_request_prev r \<and>
     (pt_request r = [] \<longrightarrow> pt_request_prev r = []) \<and> pt_options r \<in> range prompt_options"

lemma no_options: "[] \<in> range prompt_options"
proof -
  have "prompt_options [] = []"
    by code_simp
  then show ?thesis
    by (metis rangeI)
qed

lemma text_request_trimmed: "trim_space text_request = text_request" "text_request \<noteq> []"
  by code_simp+

lemma perm_step_ok: "requests_ok r \<Longrightarrow> requests_ok (perm_step op r)"
  using no_options text_request_trimmed
  by (cases op) (auto simp: requests_ok_def queue_request_def Let_def set_prompt_options_def cache_text_prompt_def
      response_end_def clear_requests_def clear_generation_def)

lemma perm_run_ok: "requests_ok (perm_run ops)"
proof -
  have "requests_ok r \<Longrightarrow> requests_ok (fold perm_step ops r)" for r
    by (induction ops arbitrary: r) (simp_all add: perm_step_ok)
  moreover have "requests_ok new_pty"
    using no_options by (simp add: requests_ok_def new_pty_def)
  ultimately show ?thesis
    by blast
qed

text \<open>The request an output answers, and whether it lets the engine go on.\<close>

definition answers :: "pty_out \<Rightarrow> string" where
  "answers out = (case out of Text_line _ \<Rightarrow> text_request | Control_response i _ _ \<Rightarrow> i | Codex_response i _ \<Rightarrow> trim_space i)"

definition allows :: "pty_out \<Rightarrow> bool" where
  "allows out = (case out of
     Text_line t \<Rightarrow> t \<notin> {''n'', ''no''} | Control_response _ ok _ \<Rightarrow> ok | Codex_response _ a \<Rightarrow> \<not> declines a)"

lemma response_begin_answers: "response_begin d r = Inr (i, out) \<Longrightarrow> answers out = i \<and> trim_space (pt_request r) = i"
  by (auto simp: response_begin_def Let_def answers_def split: option.splits if_splits)

lemma decision_deny: "decision_of d = Some False \<Longrightarrow> trim_space (to_lower d) = ''deny''"
  by (auto simp: decision_of_def Let_def split: if_splits)

lemma deny_token:
  assumes "trim_space (to_lower d) = ''deny''"
  shows "resolve_decision_token d opts = resolve_decision_token ''deny'' opts"
proof -
  have "trim_space (to_lower ''deny'') = ''deny''"
    by code_simp
  then show ?thesis
    by (simp only: resolve_decision_token_def assms)
qed

lemma response_begin_denied:
  assumes begun: "response_begin d r = Inr (i, out)" and "decision_of d = Some False"
    and "pt_options r \<in> range prompt_options"
  shows "\<not> allows out"
proof -
  have token: "resolve_decision_token d (pt_options r) \<in> {''n'', ''no''}"
    using decision_tokens assms(3) deny_token [OF decision_deny [OF assms(2)]] by force
  have written: "out = Text_line (let t = resolve_decision_token d (pt_options r) in if t = [] then ''n'' else t) \<or>
      (\<exists>j. out = Control_response j False [])"
    using begun unfolding response_begin_def assms(2) by (auto simp: Let_def split: if_splits)
  have "(let t = resolve_decision_token d (pt_options r) in if t = [] then ''n'' else t) \<in> {''n'', ''no''}"
    using token by (simp add: Let_def split: if_splits)
  then show ?thesis
    using written unfolding allows_def by (elim disjE exE) (simp_all only: pty_out.case simp_thms)
qed

lemma codex_answer:
  assumes "snd (codex_permission_response write_err mode d s) = Inr (j, a)"
  shows "codex_current_request s = trim_space j \<and> (if trim_space (to_lower d) = ''deny'' then declines a else True)"
  using assms by (auto simp: codex_permission_response_def codex_current_request_def Let_def declines_def permissions_result_def
      approval_decision_def split: option.splits approval_method.splits)

section \<open>Properties\<close>


text \<open>
  Two control requests that wait are both answered, the newest first: each answer goes to the request that was current
  when it was given, and after the second nothing is pending. With a third request in the queue the oldest one is gone.
\<close>

theorem queued_requests_answered:
  assumes "pt_request r = []" and "pt_request_prev r = []"
    and "a \<noteq> [] \<and> b \<noteq> [] \<and> c \<noteq> []" and "distinct [a, b, c, text_request]"
  shows "pt_request (queue_request b y (queue_request a x r)) = b \<and>
    pt_request (response_end b (queue_request b y (queue_request a x r))) = a \<and>
    pt_input (response_end b (queue_request b y (queue_request a x r))) = x \<and>
    pt_request (response_end a (response_end b (queue_request b y (queue_request a x r)))) = [] \<and>
    pt_request (response_end b (response_end c (queue_request c z (queue_request b y (queue_request a x r))))) = [] \<and>
    pt_request_prev (response_end b (response_end c (queue_request c z (queue_request b y (queue_request a x r))))) = []"
  using assms by (auto simp: queue_request_def response_end_def Let_def)

lemma queued_requests_answered_witness:
  "pt_request (response_end ''r2'' (queue_request ''r2'' [] (queue_request ''r1'' [] new_pty))) = ''r1''"
proof -
  have "distinct [''r1'', ''r2'', ''r3'', text_request]" "pt_request new_pty = []" "pt_request_prev new_pty = []"
    by code_simp+
  then show ?thesis
    using queued_requests_answered [of new_pty "''r1''" "''r2''" "''r3''"] by simp
qed

text \<open>
  The answer is written without the lock of the runner. When a new request arrives in between, the answered one is kept
  as the previous request: it comes back as the current one when the new request has been answered.
\<close>

theorem answered_request_returns:
  assumes "pt_request r = a" and "a \<noteq> [] \<and> b \<noteq> [] \<and> a \<noteq> b \<and> b \<noteq> text_request" and "pt_codex r = None" and "trim_space a = a"
  shows "current_request (response_end b (response_end a (queue_request b y r))) = a \<and>
    has_pending_request (response_end b (response_end a (queue_request b y r)))"
  using assms by (auto simp: queue_request_def response_end_def Let_def current_request_def has_pending_request_def)

lemma answered_request_returns_witness:
  "current_request (response_end ''r2'' (response_end ''r1'' (queue_request ''r2'' [] (queue_request ''r1'' [] new_pty)))) = ''r1''"
proof -
  have "pt_request (queue_request ''r1'' [] new_pty) = ''r1''" "pt_codex (queue_request ''r1'' [] new_pty) = None"
    "trim_space ''r1'' = ''r1''" "''r2'' \<noteq> text_request"
    by code_simp+
  then show ?thesis
    using answered_request_returns [of "queue_request ''r1'' [] new_pty" "''r1''" "''r2''" "[]"] by simp
qed


definition demo_pty :: pty where
  "demo_pty = perm_run [Control_request ''req-1'' []]\<lparr>pt_writer := True, pt_closed := False\<rparr>"

definition demo_attached :: service where
  "demo_attached = (new_service ''s'')\<lparr>sv_mgr := new_manager\<lparr>mg_runner := Some (pty_view 1 demo_pty), mg_session := ''s''\<rparr>\<rparr>"


end
