(* ===== verification/ToolDiff.thy ===== *)
theory ToolDiff
  imports Paths PtyRunner
begin

text \<open>
  The files a tool of Claude changes (\<open>engine/pty_engine.go\<close>): what a tool works on, the snapshot of the file before the
  tool runs, and the diff that is emitted when it has run. The file system is a function from paths to what reading them
  gives; the order in which the range over the snapshots visits them is given.
\<close>

section \<open>What a tool works on\<close>

definition is_file_mutation_tool :: "string \<Rightarrow> bool" where
  "is_file_mutation_tool name \<longleftrightarrow> to_lower (trim_space name) \<in> {''edit'', ''write'', ''multiedit'', ''notebookedit''}"

definition command_prefixes :: "string list" where
  "command_prefixes = [''mkdir '', ''touch '', ''rm '', ''mv '', ''cp '', ''cat '', ''ls '', ''chmod '', ''chown '', ''ln '', ''cd '', ''pwd'']"

definition extract_path_from_command :: "string \<Rightarrow> string" where
  "extract_path_from_command command =
     (let c = trim_space command in
      case find (has_prefix c) command_prefixes of
        None \<Rightarrow> []
      | Some p \<Rightarrow> (case find (\<lambda>w. \<not> has_prefix w ''-'') (GoStrings.fields (trim_space (drop (length p) c))) of
          Some w \<Rightarrow> w | None \<Rightarrow> []))"

definition first_string :: "string list \<Rightarrow> (string \<times> json) list \<Rightarrow> string option" where
  "first_string keys input = find (\<lambda>t. t \<noteq> []) (map (\<lambda>k. as_string (lookup_json k input)) keys)"

definition extract_tool_target :: "string \<Rightarrow> string \<Rightarrow> string" where
  "extract_tool_target tool raw =
     (case json_parse raw of
        Some (JObject input) \<Rightarrow>
          (case first_string ([''file_path'', ''path'', ''notebook_path''] @ (if is_file_mutation_tool tool then [''cell_id''] else [])) input of
             Some t \<Rightarrow> trim_space t
           | None \<Rightarrow>
               (let p = extract_path_from_command (as_string (lookup_json ''command'' input)) in
                if p \<noteq> [] then p
                else (case first_string [''pattern'', ''query'', ''url''] input of Some t \<Rightarrow> trim_space t | None \<Rightarrow> [])))
      | _ \<Rightarrow> [])"

definition resolve_tool_path :: "string \<Rightarrow> string \<Rightarrow> string" where
  "resolve_tool_path cwd target =
     (let t = trim_space target in
      if t = [] then [] else if is_abs t then clean_path t else if cwd = [] then clean_path t
      else clean_path (join_path cwd t))"

section \<open>Snapshots and diffs\<close>

datatype file_read = Missing | Unreadable | Content string

type_synonym files = "string \<Rightarrow> file_read"

text \<open>A snapshot is the content of the file, none for a file that does not exist.\<close>

definition capture_snapshot :: "file_read \<Rightarrow> string option" where
  "capture_snapshot f = (case f of Content c \<Rightarrow> Some c | _ \<Rightarrow> None)"

definition display_path :: "string \<Rightarrow> string \<Rightarrow> string" where
  "display_path cwd path =
     (if cwd = [] then path
      else (case rel_path cwd path of Some r \<Rightarrow> if r \<noteq> [] \<and> r \<noteq> ''.'' then r else path | None \<Rightarrow> path))"

definition split_lines :: "string \<Rightarrow> string list" where
  "split_lines content =
     (if content = [] then []
      else (let ls = split_on nl content in if last ls = [] then butlast ls else ls))"

definition trim_newlines :: "string \<Rightarrow> string" where
  "trim_newlines s = rev (dropWhile (\<lambda>c. c = nl) (rev s))"

definition mark_lines :: "char \<Rightarrow> string list \<Rightarrow> string" where
  "mark_lines c ls = concat (map (\<lambda>l. c # l @ [nl]) ls)"

definition build_unified_diff :: "string \<Rightarrow> string option \<Rightarrow> string option \<Rightarrow> string" where
  "build_unified_diff path old fresh =
     (let b = split_lines (case old of Some c \<Rightarrow> c | None \<Rightarrow> []); a = split_lines (case fresh of Some c \<Rightarrow> c | None \<Rightarrow> []);
          start = ''diff --git a/'' @ path @ '' b/'' @ path @ [nl] in
      trim_newlines
       (if old = None \<and> fresh \<noteq> None
        then start @ ''new file mode 100644'' @ [nl] @ ''--- /dev/null'' @ [nl] @ ''+++ b/'' @ path @ [nl] @
          ''@@ -0,0 +1,'' @ digits (length a) @ '' @@'' @ [nl] @ mark_lines (CHR ''+'') a
        else if old \<noteq> None \<and> fresh = None
        then start @ ''deleted file mode 100644'' @ [nl] @ ''--- a/'' @ path @ [nl] @ ''+++ /dev/null'' @ [nl] @
          ''@@ -1,'' @ digits (length b) @ '' +0,0 @@'' @ [nl] @ mark_lines (CHR ''-'') b
        else start @ ''--- a/'' @ path @ [nl] @ ''+++ b/'' @ path @ [nl] @
          ''@@ -1,'' @ digits (length b) @ '' +1,'' @ digits (length a) @ '' @@'' @ [nl] @
          mark_lines (CHR ''-'') b @ mark_lines (CHR ''+'') a))"

definition build_file_diff_event :: "time \<Rightarrow> string \<Rightarrow> string \<Rightarrow> string \<Rightarrow> string option \<Rightarrow> file_read \<Rightarrow> file_diff_event option" where
  "build_file_diff_event now sid cwd path old f =
     (let fresh = capture_snapshot f; shown = display_path cwd path; diff = build_unified_diff shown old fresh in
      if f = Unreadable \<or> old = fresh \<or> trim_space diff = [] then None
      else Some (new_file_diff_event now sid shown
        ((if old = None then ''Creating '' else if fresh = None then ''Deleting '' else ''Updating '') @ shown)
        diff (trim_prefix (file_ext shown) ''.'')))"

section \<open>Around a tool\<close>

definition append_unique :: "string list \<Rightarrow> string \<Rightarrow> string list" where
  "append_unique vs v = (let t = trim_space v in if t = [] \<or> t \<in> set vs then vs else vs @ [t])"

definition unique_non_empty :: "string list \<Rightarrow> string list" where
  "unique_non_empty vs = fold (\<lambda>v acc. append_unique acc v) vs []"

definition note_tool_use :: "files \<Rightarrow> string \<Rightarrow> string \<Rightarrow> pty \<Rightarrow> pty" where
  "note_tool_use fs tool target r =
     (let r = r\<lparr>pt_tool := trim_space tool, pt_target := trim_space target\<rparr>; path = resolve_tool_path (pt_dir r) target in
      if \<not> is_file_mutation_tool tool \<or> path = [] then r
      else r\<lparr>pt_snapshots := (pt_snapshots r)(path \<mapsto> capture_snapshot (fs path))\<rparr>)"

definition diff_group_meta :: "pty \<Rightarrow> runtime_meta" where
  "diff_group_meta r = (let m = pt_req_meta r in
     empty_meta\<lparr>m_execution_id := m_execution_id m, m_group_id := first_non_empty_string [m_group_id m, m_execution_id m],
       m_group_title := first_non_empty_string [m_group_title m, m_context_title m]\<rparr>)"

text \<open>\<open>order\<close> lists the paths that have a snapshot.\<close>

definition emit_file_diffs :: "time \<Rightarrow> files \<Rightarrow> string list \<Rightarrow> string \<Rightarrow> string \<Rightarrow> pty \<Rightarrow> pty \<times> payload list" where
  "emit_file_diffs now fs order sid fallback r =
     (if \<not> is_file_mutation_tool (pt_tool r) then (r, [])
      else
        (let paths = fold (\<lambda>v acc. append_unique acc v) order
               (unique_non_empty [resolve_tool_path (pt_dir r) fallback, resolve_tool_path (pt_dir r) (pt_target r)]);
             diff = \<lambda>p. build_file_diff_event now sid (pt_dir r) p (case pt_snapshots r p of Some s \<Rightarrow> s | None \<Rightarrow> None) (fs p)
         in (r\<lparr>pt_tool := [], pt_target := [], pt_snapshots := Map.empty\<rparr>,
             map (\<lambda>e. apply_runtime_meta (EvFileDiff e) (diff_group_meta r)) (List.map_filter diff paths))))"

section \<open>What a diff says\<close>

text \<open>The lines a diff takes away and adds: what stands behind its hunk header.\<close>

definition diff_body :: "string \<Rightarrow> string list" where
  "diff_body d = tl (dropWhile (\<lambda>l. \<not> has_prefix l ''@@ '') (split_on nl d))"

definition removed_lines :: "string \<Rightarrow> string list" where
  "removed_lines d = map tl (filter (\<lambda>l. has_prefix l ''-'') (diff_body d))"

definition added_lines :: "string \<Rightarrow> string list" where
  "added_lines d = map tl (filter (\<lambda>l. has_prefix l ''+'') (diff_body d))"

lemma split_on_no_nl [simp]: "nl \<notin> set u \<Longrightarrow> split_on nl (u @ nl # s) = u # split_on nl s"
  by (induction u) auto

lemma split_lines_no_nl: "l \<in> set (split_lines c) \<Longrightarrow> nl \<notin> set l"
  by (auto simp: split_lines_def Let_def dest: split_on_no_sep in_set_butlastD split: if_splits)

lemma split_mark_lines:
  "\<forall>l\<in>set ls. nl \<notin> set l \<Longrightarrow> c \<noteq> nl \<Longrightarrow> split_on nl (mark_lines c ls @ s) = map ((#) c) ls @ split_on nl s"
proof (induction ls)
  case (Cons l ls)
  have "mark_lines c (l # ls) @ s = (c # l) @ nl # (mark_lines c ls @ s)"
    by (simp add: mark_lines_def)
  moreover have "nl \<notin> set (c # l)"
    using Cons.prems by auto
  ultimately show ?case
    using Cons by (simp only: split_on_no_nl) simp
qed (simp add: mark_lines_def)

text \<open>The text of a diff as lines: none is empty, so only the end of the last one is trimmed.\<close>

lemma trim_newlines_lines: "ls \<noteq> [] \<Longrightarrow> last ls \<noteq> [] \<Longrightarrow> nl \<notin> set (last ls) \<Longrightarrow> trim_newlines (concat (map (\<lambda>l. l @ [nl]) ls)) = join [nl] ls"
proof (induction ls)
  case (Cons l ls)
  show ?case
  proof (cases ls)
    case Nil
    then show ?thesis
      using Cons.prems by (cases l rule: rev_cases) (auto simp: trim_newlines_def)
  next
    case (Cons m ms)
    have tail: "trim_newlines (x @ y) = x @ trim_newlines y" if "\<exists>d\<in>set y. d \<noteq> nl" for x y
      using that by (auto simp: trim_newlines_def dropWhile_append1)
    have "last ls \<in> set ls" "last ls \<noteq> []" "nl \<notin> set (last ls)"
      using Cons Cons.prems by (auto split: if_splits)
    then have "hd (last ls) \<in> set (concat (map (\<lambda>l. l @ [nl]) ls))" "hd (last ls) \<noteq> nl"
      by (force, metis list.set_sel(1))
    then have "trim_newlines (concat (map (\<lambda>l. l @ [nl]) (l # ls))) = (l @ [nl]) @ trim_newlines (concat (map (\<lambda>l. l @ [nl]) ls))"
      using tail [of "concat (map (\<lambda>l. l @ [nl]) ls)" "l @ [nl]"] by auto
    then show ?thesis
      using Cons Cons.IH Cons.prems by simp
  qed
qed simp

lemma split_on_join: "ls \<noteq> [] \<Longrightarrow> \<forall>l\<in>set ls. nl \<notin> set l \<Longrightarrow> split_on nl (join [nl] ls) = ls"
proof (induction ls)
  case (Cons l ls)
  then show ?case
    by (cases ls) (simp_all add: split_on_none)
qed simp

abbreviation content_of :: "string option \<Rightarrow> string" where
  "content_of s \<equiv> (case s of Some c \<Rightarrow> c | None \<Rightarrow> [])"

definition diff_head :: "string \<Rightarrow> string option \<Rightarrow> string option \<Rightarrow> string list" where
  "diff_head path old fresh = (''diff --git a/'' @ path @ '' b/'' @ path) #
     (if old = None \<and> fresh \<noteq> None then [''new file mode 100644'', ''--- /dev/null'', ''+++ b/'' @ path]
      else if old \<noteq> None \<and> fresh = None then [''deleted file mode 100644'', ''--- a/'' @ path, ''+++ /dev/null'']
      else [''--- a/'' @ path, ''+++ b/'' @ path])"

definition hunk_line :: "string option \<Rightarrow> string option \<Rightarrow> string" where
  "hunk_line old fresh =
     (let b = digits (length (split_lines (content_of old))); a = digits (length (split_lines (content_of fresh))) in
      if old = None \<and> fresh \<noteq> None then ''@@ -0,0 +1,'' @ a @ '' @@''
      else if old \<noteq> None \<and> fresh = None then ''@@ -1,'' @ b @ '' +0,0 @@''
      else ''@@ -1,'' @ b @ '' +1,'' @ a @ '' @@'')"

definition marked :: "string option \<Rightarrow> string option \<Rightarrow> string list" where
  "marked old fresh = map ((#) (CHR ''-'')) (split_lines (content_of old)) @ map ((#) (CHR ''+'')) (split_lines (content_of fresh))"

lemma nl_not_char [simp]: "nl \<noteq> CHR ''-''" "nl \<noteq> CHR ''+''" "nl \<noteq> CHR ''@''"
  by code_simp+

lemma digits_no_nl [simp]: "nl \<notin> set (digits n)"
  using digits_chars [of nl n] by (auto simp: byte_def)

lemma hunk_line_no_nl: "nl \<notin> set (hunk_line old fresh) \<and> has_prefix (hunk_line old fresh) ''@@ ''"
proof -
  have "nl \<notin> set ''@@ -0,0 +1, @@''"
    by code_simp
  then show ?thesis
    by (auto simp: hunk_line_def Let_def has_prefix_def)
qed

lemma marked_no_nl: "\<forall>l\<in>set (marked old fresh). l \<noteq> [] \<and> nl \<notin> set l"
  using split_lines_no_nl by (auto simp: marked_def)

lemma split_lines_Nil [simp]: "split_lines [] = []"
  by (simp add: split_lines_def)

lemma build_unified_diff_lines:
  "build_unified_diff path old fresh = join [nl] (diff_head path old fresh @ hunk_line old fresh # marked old fresh)"
proof -
  have "build_unified_diff path old fresh =
      trim_newlines (concat (map (\<lambda>l. l @ [nl]) (diff_head path old fresh @ hunk_line old fresh # marked old fresh)))"
    by (cases old; cases fresh) (simp_all add: build_unified_diff_def diff_head_def hunk_line_def marked_def mark_lines_def Let_def comp_def)
  also have "\<dots> = join [nl] (diff_head path old fresh @ hunk_line old fresh # marked old fresh)"
  proof (rule trim_newlines_lines)
    have "last (hunk_line old fresh # marked old fresh) \<in> set (hunk_line old fresh # marked old fresh)"
      by (rule last_in_set) simp
    moreover have "hunk_line old fresh \<noteq> []"
      using hunk_line_no_nl [of old fresh] by (auto simp: has_prefix_def)
    ultimately have "last (hunk_line old fresh # marked old fresh) \<noteq> [] \<and> nl \<notin> set (last (hunk_line old fresh # marked old fresh))"
      using marked_no_nl [of old fresh] hunk_line_no_nl [of old fresh] by (metis set_ConsD)
    then show "last (diff_head path old fresh @ hunk_line old fresh # marked old fresh) \<noteq> []"
        and "nl \<notin> set (last (diff_head path old fresh @ hunk_line old fresh # marked old fresh))"
      by (metis last_appendR list.distinct(1))+
  qed simp
  finally show ?thesis .
qed

text \<open>
  C18: The diff of a change can be read back: the lines it takes away are the lines of the file before, and the lines it adds
  are the lines of the file afterwards, for every file that was created, changed or deleted and whatever is in it.
\<close>

theorem tool_diff_round_trip:
  assumes "nl \<notin> set path"
  shows "removed_lines (build_unified_diff path old fresh) = split_lines (content_of old) \<and>
    added_lines (build_unified_diff path old fresh) = split_lines (content_of fresh)"
proof -
  let ?ls = "diff_head path old fresh @ hunk_line old fresh # marked old fresh"
  have literals: "nl \<notin> set ''diff --git a/ new file mode 100644 deleted --- /dev/null +++ b/''"
    by code_simp
  have head: "\<forall>l\<in>set (diff_head path old fresh). nl \<notin> set l \<and> \<not> has_prefix l ''@@ ''"
    using assms literals by (auto simp: diff_head_def has_prefix_def)
  then have "split_on nl (build_unified_diff path old fresh) = ?ls"
    unfolding build_unified_diff_lines using marked_no_nl [of old fresh] hunk_line_no_nl [of old fresh]
    by (intro split_on_join) auto
  moreover have "dropWhile (\<lambda>l. \<not> has_prefix l ''@@ '') ?ls = hunk_line old fresh # marked old fresh"
    using head hunk_line_no_nl [of old fresh] by (simp add: dropWhile_append2)
  ultimately have "diff_body (build_unified_diff path old fresh) = marked old fresh"
    by (simp add: diff_body_def)
  then show ?thesis
    by (simp add: removed_lines_def added_lines_def marked_def has_prefix_def filter_map comp_def)
qed

lemma tool_diff_round_trip_witness:
  "removed_lines (build_unified_diff ''a.txt'' (Some ''x'') (Some ''y'')) = [''x''] \<and>
   added_lines (build_unified_diff ''a.txt'' (Some ''x'') (Some ''y'')) = [''y'']"
proof -
  have "nl \<notin> set ''a.txt''" "split_lines ''x'' = [''x'']" "split_lines ''y'' = [''y'']"
    by code_simp+
  then show ?thesis
    using tool_diff_round_trip [of "''a.txt''" "Some ''x''" "Some ''y''"] by simp
qed

lemma mutation_trimmed [simp]: "is_file_mutation_tool (trim_space t) = is_file_mutation_tool t"
  by (simp add: is_file_mutation_tool_def)

lemma resolve_trimmed [simp]: "resolve_tool_path cwd (trim_space t) = resolve_tool_path cwd t"
  by (simp add: resolve_tool_path_def)

lemma diff_event_fields [simp]:
  "\<exists>e'. apply_runtime_meta (EvFileDiff e) m = EvFileDiff e' \<and> fd_path e' = fd_path e \<and> fd_diff e' = fd_diff e"
  by simp

lemma new_file_diff_sel [simp]:
  "fd_path (new_file_diff_event now sid path title diff lang) = path" "fd_diff (new_file_diff_event now sid path title diff lang) = diff"
  by (simp_all add: new_file_diff_event_def event.defs file_diff_event.defs)

lemma unified_diff_not_blank: "trim_space (build_unified_diff path old fresh) \<noteq> []"
proof -
  have "build_unified_diff path old fresh =
      CHR ''d'' # ''iff --git a/'' @ path @ '' b/'' @ path @ join [nl] ([] # tl (diff_head path old fresh) @ hunk_line old fresh # marked old fresh)"
    by (simp add: build_unified_diff_lines diff_head_def)
  moreover have "printable CHR ''d''"
    by code_simp
  ultimately have "CHR ''d'' \<in> set (trim_space (build_unified_diff path old fresh))"
    by (intro printable_trim_space) simp_all
  then show ?thesis
    by auto
qed

text \<open>
  What a tool does to its file is reported: when its result arrives the file is compared with what it was before the tool
  ran, and unless it is unreadable or the same one diff is emitted, for that file, which says what was and what is in it.
\<close>

theorem tool_change_reported:
  assumes "is_file_mutation_tool tool" and "pt_snapshots r = Map.empty" and "path = resolve_tool_path (pt_dir r) target"
    and "path \<noteq> [] \<and> trim_space path = path \<and> nl \<notin> set (display_path (pt_dir r) path)"
    and "resolve_tool_path (pt_dir r) fallback = [] \<or> resolve_tool_path (pt_dir r) fallback = path"
  shows "case snd (emit_file_diffs now fs' [path] sid fallback (note_tool_use fs tool target r)) of
      [] \<Rightarrow> fs' path = Unreadable \<or> capture_snapshot (fs path) = capture_snapshot (fs' path)
    | [EvFileDiff e] \<Rightarrow> fd_path e = display_path (pt_dir r) path \<and>
        removed_lines (fd_diff e) = split_lines (content_of (capture_snapshot (fs path))) \<and>
        added_lines (fd_diff e) = split_lines (content_of (capture_snapshot (fs' path)))
    | _ \<Rightarrow> False"
proof -
  let ?r = "note_tool_use fs tool target r"
  have tool: "is_file_mutation_tool (pt_tool ?r)" and dir: "pt_dir ?r = pt_dir r"
      and target: "resolve_tool_path (pt_dir r) (pt_target ?r) = path" and snap: "pt_snapshots ?r path = Some (capture_snapshot (fs path))"
    using assms(1-4) by (simp_all add: note_tool_use_def Let_def)
  have paths: "fold (\<lambda>v acc. append_unique acc v) [path]
      (unique_non_empty [resolve_tool_path (pt_dir r) fallback, resolve_tool_path (pt_dir r) (pt_target ?r)]) = [path]"
    using assms(4,5) by (auto simp: target unique_non_empty_def append_unique_def)
  let ?e = "build_file_diff_event now sid (pt_dir r) path (capture_snapshot (fs path)) (fs' path)"
  have emitted: "snd (emit_file_diffs now fs' [path] sid fallback ?r) =
      (case ?e of None \<Rightarrow> [] | Some e \<Rightarrow> [apply_runtime_meta (EvFileDiff e) (diff_group_meta ?r)])"
    unfolding emit_file_diffs_def using tool paths by (simp add: Let_def dir snap map_filter_def split: option.split)
  show ?thesis
  proof (cases ?e)
    case None
    then show ?thesis
      using unified_diff_not_blank by (auto simp: emitted build_file_diff_event_def Let_def split: if_splits)
  next
    case (Some e)
    obtain e' where e': "apply_runtime_meta (EvFileDiff e) (diff_group_meta ?r) = EvFileDiff e'" "fd_path e' = fd_path e" "fd_diff e' = fd_diff e"
      using diff_event_fields by blast
    then show ?thesis
      using Some tool_diff_round_trip [of "display_path (pt_dir r) path"] assms(4)
      by (auto simp: emitted build_file_diff_event_def Let_def split: if_splits)
  qed
qed

definition demo_editor :: pty where
  "demo_editor = new_pty\<lparr>pt_dir := ''/w''\<rparr>"

lemma tool_change_reported_witness:
  "case snd (emit_file_diffs 1 (\<lambda>_. Content ''new'') [''/w/a''] ''s'' [] (note_tool_use (\<lambda>_. Missing) ''Write'' ''a'' demo_editor)) of
      [] \<Rightarrow> False
    | [EvFileDiff e] \<Rightarrow> fd_path e = ''a'' \<and> removed_lines (fd_diff e) = [] \<and> added_lines (fd_diff e) = [''new'']
    | _ \<Rightarrow> False"
proof -
  have dir: "pt_dir demo_editor = ''/w''" and fresh: "pt_snapshots demo_editor = Map.empty"
    by (simp_all add: demo_editor_def new_pty_def)
  have tool: "is_file_mutation_tool ''Write''" and path: "''/w/a'' = resolve_tool_path (pt_dir demo_editor) ''a''"
      and shown: "display_path (pt_dir demo_editor) ''/w/a'' = ''a''" and ok: "''/w/a'' \<noteq> [] \<and> trim_space ''/w/a'' = ''/w/a'' \<and> nl \<notin> set ''a''"
      and none: "resolve_tool_path (pt_dir demo_editor) [] = []" and ls: "split_lines ''new'' = [''new'']"
    unfolding dir by code_simp+
  have "''/w/a'' \<noteq> [] \<and> trim_space ''/w/a'' = ''/w/a'' \<and> nl \<notin> set (display_path (pt_dir demo_editor) ''/w/a'')"
    unfolding shown by (rule ok)
  from tool_change_reported [OF tool fresh path this disjI1 [OF none], where now = 1 and fs' = "\<lambda>_. Content ''new''" and sid = "''s''"
      and fs = "\<lambda>_. Missing"]
  show ?thesis
    by (simp only: shown ls capture_snapshot_def file_read.simps option.simps split_lines_Nil simp_thms)
qed

text \<open>
  The first result after a tool that changes files takes all that is known of the changes: a second result, of another
  tool of the same message, reports no change of its file, whatever has happened to it in between.
\<close>

theorem second_result_reports_nothing:
  "snd (emit_file_diffs now' fs' order' sid fallback' (fst (emit_file_diffs now fs order sid fallback r))) = []"
proof -
  have "\<not> is_file_mutation_tool []"
    by code_simp
  then show ?thesis
    by (simp add: emit_file_diffs_def Let_def)
qed

end
