(* ===== verification/ClaudeStream.thy ===== *)
theory ClaudeStream
  imports ToolDiff "HOL-Library.Monad_Syntax"
begin

text \<open>
  The stream of JSON lines of Claude (\<open>readClaudeStreamJSON\<close> of \<open>engine/pty_engine.go\<close>): what a line decodes to, the
  control requests, the messages of the assistant and their tools, the results, and the lines the runner writes back.
  What the reader asks of the outside at a line (the clock, the file system, the order of a range, the formatting of
  floating-point numbers) is a record.
\<close>

section \<open>Lines\<close>

record claude_block =
  cb_type :: string
  cb_text :: string
  cb_name :: string
  cb_input :: string
  cb_content :: string
  cb_error :: bool

record claude_envelope =
  en_type :: string
  en_subtype :: string
  en_session :: string
  en_request :: string
  en_result :: string
  en_duration :: int
  en_turns :: int
  en_cost :: string
  en_tool_result :: string
  en_req_subtype :: string
  en_req_tool :: string
  en_req_input :: string
  en_blocks :: "claude_block list"

text \<open>The members of a value that is decoded into a struct; null leaves the struct as it is.\<close>

definition struct_members :: "string \<Rightarrow> json \<Rightarrow> (string \<times> string \<times> json) list option" where
  "struct_members raw v = (case v of JObject _ \<Rightarrow> Some (raw_members raw) | JNull \<Rightarrow> Some [] | _ \<Rightarrow> None)"

definition struct_field :: "string \<Rightarrow> (string \<times> string \<times> json) list \<Rightarrow> (string \<times> string \<times> json) list option" where
  "struct_field name ms = (case field name ms of None \<Rightarrow> Some [] | Some (raw, v) \<Rightarrow> struct_members raw v)"

text \<open>A \<open>float64\<close> is kept as its literal; \<open>fl\<close> is none for a literal out of range, else whether it is positive and its text.\<close>

definition float_field :: "(string \<Rightarrow> (bool \<times> string) option) \<Rightarrow> string \<Rightarrow> (string \<times> string \<times> json) list \<Rightarrow> string option" where
  "float_field fl name ms = (case field name ms of
     None \<Rightarrow> Some ''0'' | Some (_, JNull) \<Rightarrow> Some ''0''
   | Some (_, JNumber l) \<Rightarrow> (if fl l = None then None else Some l) | _ \<Rightarrow> None)"

definition decode_block :: "string \<times> json \<Rightarrow> claude_block option" where
  "decode_block e = do {
     ms \<leftarrow> struct_members (fst e) (snd e);
     t \<leftarrow> string_field ''type'' ms; tx \<leftarrow> string_field ''text'' ms; n \<leftarrow> string_field ''name'' ms;
     c \<leftarrow> string_field ''content'' ms; e \<leftarrow> bool_field ''is_error'' ms;
     Some \<lparr>cb_type = t, cb_text = tx, cb_name = n, cb_input = raw_field ''input'' ms, cb_content = c, cb_error = e\<rparr> }"

definition blocks_field :: "(string \<times> string \<times> json) list \<Rightarrow> claude_block list option" where
  "blocks_field ms = (case field ''content'' ms of
     None \<Rightarrow> Some [] | Some (_, JNull) \<Rightarrow> Some []
   | Some (raw, JList _) \<Rightarrow> those (map decode_block (raw_elems raw)) | _ \<Rightarrow> None)"

definition decode_envelope :: "(string \<Rightarrow> (bool \<times> string) option) \<Rightarrow> string \<Rightarrow> claude_envelope option" where
  "decode_envelope fl line = do {
     v \<leftarrow> json_parse line; ms \<leftarrow> struct_members line v;
     t \<leftarrow> string_field ''type'' ms; st \<leftarrow> string_field ''subtype'' ms; s \<leftarrow> string_field ''session_id'' ms;
     rid \<leftarrow> string_field ''request_id'' ms; res \<leftarrow> string_field ''result'' ms; d \<leftarrow> int_field ''duration_ms'' ms;
     n \<leftarrow> int_field ''num_turns'' ms; c \<leftarrow> float_field fl ''total_cost_usd'' ms;
     rq \<leftarrow> struct_field ''request'' ms; qs \<leftarrow> string_field ''subtype'' rq; qt \<leftarrow> string_field ''tool_name'' rq;
     m \<leftarrow> struct_field ''message'' ms; bs \<leftarrow> blocks_field m;
     Some \<lparr>en_type = t, en_subtype = st, en_session = s, en_request = rid, en_result = res, en_duration = d, en_turns = n,
       en_cost = c, en_tool_result = raw_field ''tool_use_result'' ms, en_req_subtype = qs, en_req_tool = qt,
       en_req_input = raw_field ''input'' rq, en_blocks = bs\<rparr> }"

definition should_suppress_raw_line :: "string \<Rightarrow> bool" where
  "should_suppress_raw_line line =
     (let t = trim_space line in
      if t = [] then True else if \<not> (has_prefix t ''{'' \<or> has_prefix t ''['') then False
      else (case json_parse t of
          Some (JObject xs) \<Rightarrow> list_ex (\<lambda>k. k \<in> fst ` set xs) [''type'', ''message'', ''tool_use_result'', ''session_id'']
        | _ \<Rightarrow> False))"

section \<open>Texts with a meaning\<close>

text \<open>A text that is itself JSON and announces a phase: the phase, its kind and the message.\<close>

definition parse_structured_phase :: "string \<Rightarrow> string \<times> string \<times> string" where
  "parse_structured_phase t =
     (case (do { v \<leftarrow> json_parse (trim_space t); ms \<leftarrow> struct_members (trim_space t) v;
         b \<leftarrow> bool_field ''mobilevcRuntimePhase'' ms; p \<leftarrow> string_field ''phase'' ms; k \<leftarrow> string_field ''kind'' ms;
         m \<leftarrow> string_field ''message'' ms; g \<leftarrow> string_field ''msg'' ms; Some (b, p, k, m, g) }) of
        Some (True, p, k, m, g) \<Rightarrow>
          (if trim_space p = [] then ([], [], []) else (trim_space p, trim_space k, first_non_empty_string [m, g]))
      | _ \<Rightarrow> ([], [], []))"

definition is_structured_phase :: "string \<Rightarrow> bool" where
  "is_structured_phase t \<longleftrightarrow> fst (parse_structured_phase t) \<noteq> []"

definition ready_phases :: "string list" where
  "ready_phases = [''permission_blocked'', ''plan_requested'', ''plan_active'', ''execute_active'']"

definition extract_bash_preview :: "string \<Rightarrow> string" where
  "extract_bash_preview raw =
     (case json_parse raw of
        Some (JObject input) \<Rightarrow>
          (let c = trim_space (as_string (lookup_json ''command'' input)) in if 80 < length c then take 77 c @ ''...'' else c)
      | _ \<Rightarrow> [])"

definition block_texts :: "claude_envelope \<Rightarrow> string list" where
  "block_texts en = filter (\<lambda>t. t \<noteq> []) (map (\<lambda>b. trim_space (cb_text b)) (filter (\<lambda>b. cb_type b = ''text'') (en_blocks en)))"

definition can_use_tool :: "claude_envelope \<Rightarrow> bool" where
  "can_use_tool en \<longleftrightarrow> equal_fold (trim_space (en_req_subtype en)) ''can_use_tool''"

definition extract_control_prompt :: "claude_envelope \<Rightarrow> string" where
  "extract_control_prompt en =
     (case block_texts en of
        t # _ \<Rightarrow> (if is_structured_phase t \<and> snd (snd (parse_structured_phase t)) \<noteq> [] then snd (snd (parse_structured_phase t)) else t)
      | [] \<Rightarrow>
          (let tool = trim_space (en_req_tool en); cmd = extract_bash_preview (en_req_input en);
               target = trim_space (extract_tool_target tool (en_req_input en)) in
           if can_use_tool en \<and> equal_fold tool ''Bash'' \<and> cmd \<noteq> [] then ''Claude requested permissions to use Bash: '' @ cmd
           else if can_use_tool en \<and> tool \<noteq> [] \<and> target \<noteq> []
           then ''Claude requested permissions to use '' @ tool @ '' on '' @ target
           else if can_use_tool en \<and> tool \<noteq> [] then ''Claude requested permissions to use '' @ tool
           else ''Claude requested permissions to continue''))"

definition parse_tool_result :: "string \<Rightarrow> (string \<times> string) option" where
  "parse_tool_result raw =
     (case (do { v \<leftarrow> json_parse raw; ms \<leftarrow> struct_members raw v; t \<leftarrow> string_field ''type'' ms; p \<leftarrow> string_field ''filePath'' ms;
         Some (trim_space p, trim_space t) }) of
        Some r \<Rightarrow> Some r
      | None \<Rightarrow> (case json_parse raw of Some (JString s) \<Rightarrow> Some ([], trim_space s) | _ \<Rightarrow> None))"

section \<open>Texts said before\<close>

definition normalize_result :: "string \<Rightarrow> string" where
  "normalize_result t = join '' '' (GoStrings.fields (trim_space t))"

definition remember_text :: "string \<Rightarrow> pty \<Rightarrow> pty" where
  "remember_text t r = r\<lparr>pt_assistant_key := normalize_result t\<rparr>"

definition should_emit_result :: "string \<Rightarrow> pty \<Rightarrow> pty \<times> bool" where
  "should_emit_result t r =
     (let n = normalize_result t in
      if n = [] then (r, False)
      else if pt_assistant_key r = n then (r\<lparr>pt_assistant_key := []\<rparr>, False)
      else (r\<lparr>pt_assistant_key := n\<rparr>, True))"

text \<open>The result of an authoring request: a skill or a memory, each with the texts the program takes.\<close>

datatype authored =
    Authored_skill (skill_name: string) string string string string
  | Authored_memory string (memory_title: string) string

datatype claude_out = Emit payload | Authored runtime_meta authored

definition texts_of :: "string list \<Rightarrow> (string \<times> string \<times> json) list \<Rightarrow> string list option" where
  "texts_of names ms = those (map (\<lambda>n. string_field n ms) names)"

text \<open>The kind as it stands beside what is authored: the check trims the kind, the caller does not.\<close>

definition parse_authoring :: "string \<Rightarrow> (string \<times> authored) option" where
  "parse_authoring t = do {
     v \<leftarrow> json_parse t; ms \<leftarrow> struct_members t v; b \<leftarrow> bool_field ''mobilevcCatalogAuthoring'' ms; k \<leftarrow> string_field ''kind'' ms;
     s \<leftarrow> struct_field ''skill'' ms; ss \<leftarrow> texts_of [''name'', ''description'', ''prompt'', ''targetType'', ''resultView''] s;
     m \<leftarrow> struct_field ''memory'' ms; mm \<leftarrow> texts_of [''id'', ''title'', ''content''] m;
     let ss = map trim_space ss; mm = map trim_space mm in
     if \<not> b then None
     else if trim_space k = ''skill'' \<and> ss ! 0 \<noteq> [] \<and> ss ! 2 \<noteq> []
     then Some (k, Authored_skill (ss ! 0) (ss ! 1) (ss ! 2) (ss ! 3) (ss ! 4))
     else if trim_space k = ''memory'' \<and> mm ! 1 \<noteq> [] \<and> mm ! 2 \<noteq> [] then Some (k, Authored_memory (mm ! 0) (mm ! 1) (mm ! 2))
     else None }"

definition try_authoring :: "string \<Rightarrow> pty \<Rightarrow> pty \<times> claude_out list" where
  "try_authoring t r =
     (if trim_space (pt_source r) \<noteq> ''catalog-authoring'' \<or> trim_space t = [] then (r, [])
      else
        (let r = r\<lparr>pt_catalog := (if pt_catalog r = [] then [] else pt_catalog r @ [nl]) @ trim_space t\<rparr> in
         case parse_authoring (trim_space (pt_catalog r)) of
           Some (k, a) \<Rightarrow>
             (if k = ''skill'' \<or> k = ''memory''
              then (r\<lparr>pt_catalog := []\<rparr>, [Authored (merge_runtime_meta empty_meta (pt_req_meta r)) a]) else (r, []))
         | None \<Rightarrow> (r, [])))"

section \<open>The reader\<close>

record world =
  w_now :: time
  w_files :: files
  w_range :: "string list"
  w_float :: "string \<Rightarrow> (bool \<times> string) option"
  w_seconds :: "int \<Rightarrow> string"

definition txt_thinking :: string where "txt_thinking = [CHR 0xE6, CHR 0x80, CHR 0x9D, CHR 0xE8, CHR 0x80,
  CHR 0x83, CHR 0xE4, CHR 0xB8, CHR 0xAD]"
definition txt_calling :: string where "txt_calling = [CHR 0xE8, CHR 0xB0, CHR 0x83, CHR 0xE7, CHR 0x94,
  CHR 0xA8, CHR 0xE5, CHR 0xB7, CHR 0xA5, CHR 0xE5, CHR 0x85, CHR 0xB7] @ '': ''"
definition txt_resumed :: string where "txt_resumed = ''AI '' @ [CHR 0xE4, CHR 0xBC, CHR 0x9A, CHR 0xE8,
  CHR 0xAF, CHR 0x9D, CHR 0xE5, CHR 0xB7, CHR 0xB2, CHR 0xE7, CHR 0xBB, CHR 0xAD, CHR 0xE6, CHR 0x8E,
  CHR 0xA5]"
definition txt_took :: string where "txt_took = [CHR 0xE8, CHR 0x80, CHR 0x97, CHR 0xE6, CHR 0x97, CHR 0xB6] @
  '' ''"
definition txt_rounds1 :: string where "txt_rounds1 = ''s '' @ [CHR 0xC2, CHR 0xB7] @ '' ''"
definition txt_rounds2 :: string where "txt_rounds2 = '' '' @ [CHR 0xE8, CHR 0xBD, CHR 0xAE] @ '' '' @
  [CHR 0xC2, CHR 0xB7] @ '' $''"

definition new_runtime_phase_event :: "time \<Rightarrow> string \<Rightarrow> string \<Rightarrow> string \<Rightarrow> string \<Rightarrow> runtime_phase_event" where
  "new_runtime_phase_event now sid phase kind message =
     event.extend (new_base_event now ''runtime_phase'' sid) (runtime_phase_event.fields phase kind message)"

definition phase_event :: "time \<Rightarrow> string \<Rightarrow> claude_envelope \<Rightarrow> string \<Rightarrow> claude_out" where
  "phase_event now sid en t = (case parse_structured_phase t of (p, k, m) \<Rightarrow>
     Emit (apply_runtime_meta (EvRuntimePhase (new_runtime_phase_event now sid p k m)) (empty_meta\<lparr>m_resume_session_id := en_session en\<rparr>)))"

definition text_event :: "time \<Rightarrow> string \<Rightarrow> claude_envelope \<Rightarrow> string \<Rightarrow> string \<Rightarrow> pty \<Rightarrow> claude_out" where
  "text_event now sid en source t r =
     Emit (apply_runtime_meta (EvLog (new_log_event now sid t ''stdout''))
       (empty_meta\<lparr>m_resume_session_id := en_session en, m_engine := pt_engine r, m_source := source\<rparr>))"

text \<open>The steps of a list one after the other, with what they emit.\<close>

fun each :: "('b \<Rightarrow> 's \<Rightarrow> 's \<times> 'o list) \<Rightarrow> 'b list \<Rightarrow> 's \<Rightarrow> 's \<times> 'o list" where
  "each f [] s = (s, [])"
| "each f (b # bs) s = (case f b s of (s', os) \<Rightarrow> case each f bs s' of (s'', os') \<Rightarrow> (s'', os @ os'))"

definition mark_if_ready :: "string \<Rightarrow> pty \<Rightarrow> pty" where
  "mark_if_ready t r = (if fst (parse_structured_phase t) \<in> set ready_phases then mark_interactive_ready r else r)"

definition control_text :: "time \<Rightarrow> string \<Rightarrow> claude_envelope \<Rightarrow> string \<Rightarrow> pty \<Rightarrow> pty \<times> claude_out list" where
  "control_text now sid en t r =
     (if is_structured_phase t then (mark_if_ready t r, [phase_event now sid en t]) else (r, [text_event now sid en [] t r]))"

definition control_meta :: "claude_envelope \<Rightarrow> string \<Rightarrow> pty \<Rightarrow> runtime_meta" where
  "control_meta en prompt r =
     (let m = empty_meta\<lparr>m_resume_session_id := en_session en, m_command := pt_command r, m_cwd := pt_dir r,
            m_engine := pt_engine r, m_permission_mode := pt_mode r\<rparr>;
          target = trim_space (extract_tool_target (trim_space (en_req_tool en)) (en_req_input en)) in
      if \<not> looks_like_permission_prompt_text prompt (prompt_options prompt) then m
      else m\<lparr>m_blocking_kind := ''permission'', m_permission_request_id := trim_space (en_request en),
        m_target_path := (if can_use_tool en then target else [])\<rparr>)"

definition handle_control :: "time \<Rightarrow> string \<Rightarrow> claude_envelope \<Rightarrow> pty \<Rightarrow> pty \<times> claude_out list" where
  "handle_control now sid en r =
     (let i = trim_space (en_request en);
          r1 = (if i \<noteq> [] then queue_request i (en_req_input en) r else r);
          prompt = extract_control_prompt en; choices = prompt_options prompt;
          (r2, os) = each (control_text now sid en) (block_texts en) r1 in
      if i = [] then (r2, os)
      else (set_prompt_options i choices (mark_interactive_ready r2),
        os @ [Emit (apply_runtime_meta (EvPrompt (new_prompt_request_event now sid prompt choices)) (control_meta en prompt r2))]))"

definition assistant_block :: "world \<Rightarrow> string \<Rightarrow> claude_envelope \<Rightarrow> claude_block \<Rightarrow> pty \<Rightarrow> pty \<times> claude_out list" where
  "assistant_block w sid en b r =
     (let now = w_now w; t = trim_space (cb_text b) in
      if cb_type b = ''tool_use''
      then (let target = extract_tool_target (cb_name b) (cb_input b) in
        (note_tool_use (w_files w) (cb_name b) target r,
          [Emit (EvAgentState (new_agent_state_event now sid ''RUNNING_TOOL'' (txt_calling @ cb_name b) False [] [] [])),
           Emit (EvStepUpdate (new_step_update_event now sid (cb_name b) ''running'' target (cb_name b) []))]))
      else if cb_type b = ''text'' \<and> t \<noteq> []
      then (case try_authoring t r of (r1, os) \<Rightarrow>
        let r2 = remember_text t r1 in
        (r2, os @ [if is_structured_phase t then phase_event now sid en t else text_event now sid en ''claude/assistant'' t r2]))
      else (r, []))"

definition handle_assistant :: "world \<Rightarrow> string \<Rightarrow> claude_envelope \<Rightarrow> pty \<Rightarrow> pty \<times> claude_out list" where
  "handle_assistant w sid en r =
     (case each (assistant_block w sid en) (en_blocks en) r of (r1, os) \<Rightarrow>
        (r1\<lparr>pt_tool_pending := list_ex (\<lambda>b. cb_type b = ''tool_use'') (en_blocks en)\<rparr>,
         (if en_blocks en = [] then [] else [Emit (EvAgentState (new_agent_state_event (w_now w) sid ''THINKING'' txt_thinking False [] [] []))]) @ os))"

definition user_block :: "time \<Rightarrow> string \<Rightarrow> claude_envelope \<Rightarrow> claude_block \<Rightarrow> pty \<Rightarrow> pty \<times> claude_out list" where
  "user_block now sid en b r =
     (let t = trim_space (cb_content b) in
      if cb_type b \<noteq> ''tool_result'' \<or> \<not> cb_error b then (r, [])
      else if is_structured_phase t then (mark_if_ready t r, [phase_event now sid en t])
      else (r, [Emit (EvStepUpdate (new_step_update_event now sid ''tool retry'' ''info'' [] [] []))]))"

definition handle_user :: "world \<Rightarrow> string \<Rightarrow> claude_envelope \<Rightarrow> pty \<Rightarrow> pty \<times> claude_out list" where
  "handle_user w sid en r =
     (case each (user_block (w_now w) sid en) (en_blocks en) r of (r1, os) \<Rightarrow>
        case parse_tool_result (en_tool_result en) of
          None \<Rightarrow> (r1, os)
        | Some (target, message) \<Rightarrow>
            (case emit_file_diffs (w_now w) (w_files w) (w_range w) sid target r1 of (r2, ds) \<Rightarrow>
              (r2, os @ Emit (EvStepUpdate (new_step_update_event (w_now w) sid
                (if message = [] then ''tool completed'' else message) ''done'' target [] [])) # map Emit ds)))"

definition should_emit_ready :: "claude_envelope \<Rightarrow> bool" where
  "should_emit_ready en \<longleftrightarrow> trim_space (en_session en) \<noteq> [] \<and> \<not> equal_fold (trim_space (en_subtype en)) ''error''"

definition result_text :: "world \<Rightarrow> string \<Rightarrow> claude_envelope \<Rightarrow> pty \<Rightarrow> pty \<times> claude_out list" where
  "result_text w sid en r =
     (let t = trim_space (en_result en) in
      if t = [] then (r, [])
      else (case try_authoring t r of (r1, os) \<Rightarrow>
        case should_emit_result t r1 of (r2, shows) \<Rightarrow>
          (r2, os @ (if shows then [text_event (w_now w) sid en [] t r2] else []))))"

definition int_text :: "int \<Rightarrow> string" where
  "int_text n = (if n < 0 then CHR ''-'' # digits (nat (- n)) else digits (nat n))"

definition progress_out :: "world \<Rightarrow> string \<Rightarrow> claude_envelope \<Rightarrow> claude_out list" where
  "progress_out w sid en =
     (case w_float w (en_cost en) of
        None \<Rightarrow> []
      | Some (positive, cost) \<Rightarrow>
          if 0 < en_duration en \<or> positive
          then [Emit (EvProgress (event.extend (new_base_event (w_now w) ''progress'' sid)
            (progress_event.fields (txt_took @ w_seconds w (en_duration en) @ txt_rounds1 @ int_text (en_turns en) @ txt_rounds2 @ cost) 100)))]
          else [])"

definition handle_result :: "world \<Rightarrow> string \<Rightarrow> claude_envelope \<Rightarrow> pty \<Rightarrow> pty \<times> claude_out list" where
  "handle_result w sid en r =
     (case result_text w sid en r of (r1, os) \<Rightarrow>
        let (r2, ready) =
          (if should_emit_ready en
           then (clear_requests (mark_interactive_ready r1),
             [Emit (apply_runtime_meta (EvPrompt (new_prompt_request_event (w_now w) sid PtyRunner.txt_wait_input []))
               (empty_meta\<lparr>m_resume_session_id := en_session en, m_blocking_kind := ''ready''\<rparr>))])
           else (r1, []))
        in (r2, os @ ready @ progress_out w sid en))"

definition note_session :: "time \<Rightarrow> string \<Rightarrow> claude_envelope \<Rightarrow> pty \<Rightarrow> pty \<times> claude_out list" where
  "note_session now sid en r =
     (if en_session en = [] then (r, [])
      else (r\<lparr>pt_session := en_session en\<rparr>,
        if pt_session r = en_session en then []
        else [Emit (apply_runtime_meta (EvSessionState (new_session_state_event now sid ''active'' txt_resumed))
          (empty_meta\<lparr>m_resume_session_id := en_session en\<rparr>))]))"

definition handle_envelope :: "world \<Rightarrow> string \<Rightarrow> claude_envelope \<Rightarrow> pty \<Rightarrow> pty \<times> claude_out list" where
  "handle_envelope w sid en r =
     (case note_session (w_now w) sid en r of (r1, os) \<Rightarrow>
        case (if en_type en = ''control_request'' then handle_control (w_now w) sid en r1
              else if en_type en = ''assistant'' then handle_assistant w sid en r1
              else if en_type en = ''user'' then handle_user w sid en r1
              else if en_type en = ''result'' then handle_result w sid en r1 else (r1, []))
        of (r2, os') \<Rightarrow> (r2, os @ os'))"

definition claude_line :: "world \<Rightarrow> string \<Rightarrow> string \<Rightarrow> pty \<Rightarrow> pty \<times> claude_out list" where
  "claude_line w sid raw r =
     (let r = mark_output_seen (w_now w) r; line = trim_space raw in
      if line = [] then (r, [])
      else
        (let ready = (if pt_first_line_seen r then []
               else [Emit (EvRuntimePhase (new_runtime_phase_event (w_now w) sid ''engine_ready'' ''engine'' []))]);
             r = r\<lparr>pt_first_line_seen := True\<rparr> in
         case decode_envelope (w_float w) line of
           None \<Rightarrow> (r, ready @ (if should_suppress_raw_line line then [] else [Emit (EvLog (new_log_event (w_now w) sid line ''stdout''))]))
         | Some en \<Rightarrow> (case handle_envelope w sid en r of (r', os) \<Rightarrow> (r', ready @ os))))"

section \<open>What the runner writes\<close>

text \<open>\<open>claudeStreamWriter.Write\<close>: blank input is swallowed.\<close>

definition user_line :: "string \<Rightarrow> string option" where
  "user_line input =
     (let t = trim_space input in
      if t = [] then None
      else Some (json_text (\<lambda>l. l) (JObject [(''type'', JString ''user''),
        (''message'', JObject [(''role'', JString ''user''), (''content'', JString t)])]) @ [nl]))"

definition response_body :: "bool \<Rightarrow> string \<Rightarrow> json" where
  "response_body allow input =
     (if allow
      then JObject [(''behavior'', JString ''allow''),
        (''updatedInput'', case json_parse input of Some (JObject m) \<Rightarrow> JObject m | Some JNull \<Rightarrow> JNull | _ \<Rightarrow> JObject [])]
      else JObject [(''behavior'', JString ''deny''), (''message'', JString ''Permission denied by user'')])"

definition control_line :: "(string \<Rightarrow> string) \<Rightarrow> string \<Rightarrow> bool \<Rightarrow> string \<Rightarrow> string" where
  "control_line fl i allow input =
     json_text fl (JObject [(''type'', JString ''control_response''),
       (''response'', JObject [(''subtype'', JString ''success''), (''request_id'', JString i), (''response'', response_body allow input)])]) @ [nl]"

definition pty_line :: "(string \<Rightarrow> string) \<Rightarrow> pty_out \<Rightarrow> string option" where
  "pty_line fl out = (case out of
     Text_line t \<Rightarrow> user_line (t @ [nl])
   | Control_response i allow input \<Rightarrow> Some (control_line fl i allow input)
   | Codex_response _ _ \<Rightarrow> None)"

section \<open>Properties\<close>

lemma clean_literals:
  "clean ''type'' = ''type''" "clean ''user'' = ''user''" "clean ''message'' = ''message''" "clean ''role'' = ''role''"
  "clean ''content'' = ''content''"
  by (rule clean_ascii, code_simp)+

lemma entries_user: "map_entries [(''type'', a), (''message'', b)] = [(''message'', b), (''type'', a)]"
  "map_entries [(''role'', a), (''content'', b)] = [(''content'', b), (''role'', a)]"
  by (simp_all add: map_entries_def byte_def)


lemma each_inv: "(\<And>b s. P s \<Longrightarrow> P (fst (f b s))) \<Longrightarrow> P s \<Longrightarrow> P (fst (each f bs s))"
proof (induction bs arbitrary: s)
  case (Cons b bs)
  then show ?case
    using Cons.IH [of "fst (f b s)"] by (simp add: case_prod_beta)
qed simp

text \<open>What a control request leaves behind is the queued request, perhaps marked as ready.\<close>

lemma control_texts: "fst (each (control_text now sid en) ts r) \<in> {r, mark_interactive_ready r}"
proof -
  have "fst (control_text now sid en t s) \<in> {r, mark_interactive_ready r}" if "s \<in> {r, mark_interactive_ready r}" for t s
    using that unfolding control_text_def mark_if_ready_def mark_interactive_ready_def
    by (elim insertE emptyE) simp_all
  then show ?thesis
    by (rule each_inv [where P = "\<lambda>s. s \<in> {r, mark_interactive_ready r}"]) simp_all
qed

lemma note_session_fields [simp]:
  "pt_writer (fst (note_session now sid en r)) = pt_writer r" "pt_closed (fst (note_session now sid en r)) = pt_closed r"
  "pt_codex (fst (note_session now sid en r)) = pt_codex r" "pt_assistant_key (fst (note_session now sid en r)) = pt_assistant_key r"
  by (simp_all add: note_session_def)


lemma json_empty [simp]: "json_parse [] = None"
  by code_simp

definition demo_control :: claude_envelope where
  "demo_control = \<lparr>en_type = ''control_request'', en_subtype = [], en_session = ''c-1'', en_request = ''req-1'', en_result = [],
     en_duration = 0, en_turns = 0, en_cost = ''0'', en_tool_result = [], en_req_subtype = ''can_use_tool'', en_req_tool = ''Bash'',
     en_req_input = [], en_blocks = []\<rparr>"

definition demo_world :: world where
  "demo_world = \<lparr>w_now = 1, w_files = (\<lambda>_. Missing), w_range = [], w_float = (\<lambda>l. Some (False, l)), w_seconds = (\<lambda>_. [])\<rparr>"


text \<open>The texts among the outputs, in order.\<close>

definition shown_texts :: "claude_out list \<Rightarrow> string list" where
  "shown_texts os = List.map_filter (\<lambda>o'. case o' of Emit (EvLog e) \<Rightarrow> Some (le_message e) | _ \<Rightarrow> None) os"

lemma shown_texts_simps [simp]:
  "shown_texts [] = []" "shown_texts (os @ os') = shown_texts os @ shown_texts os'"
  "shown_texts (Authored m a # os) = shown_texts os"
  by (simp_all add: shown_texts_def map_filter_def)

lemma shown_text_event [simp]: "shown_texts [text_event now sid en source t r] = [t]"
  by (simp add: shown_texts_def map_filter_def text_event_def new_log_event_def event.defs log_event.defs)

lemma try_authoring_quiet [simp]: "shown_texts (snd (try_authoring t r)) = []" "pt_assistant_key (fst (try_authoring t r)) = pt_assistant_key r"
  by (auto simp: try_authoring_def Let_def shown_texts_def map_filter_def split: option.splits)

lemma note_session_quiet [simp]: "shown_texts (snd (note_session now sid en r)) = []"
  by (simp add: note_session_def shown_texts_def map_filter_def)

lemma progress_quiet [simp]: "shown_texts (progress_out w sid en) = []"
  by (simp add: progress_out_def shown_texts_def map_filter_def split: option.splits prod.splits)

lemma each_append: "each f (bs @ cs) s = (case each f bs s of (s', os) \<Rightarrow> case each f cs s' of (s'', os') \<Rightarrow> (s'', os @ os'))"
  by (induction bs arbitrary: s) (simp_all add: case_prod_beta)

lemma normalize_empty: "normalize_result [] = []"
  by code_simp

lemma normalize_trimmed: "normalize_result (trim_space t) = normalize_result t"
  by (simp add: normalize_result_def)

lemma assistant_key:
  assumes "en_type a = ''assistant''" and "en_blocks a = bs @ [b]" and "cb_type b = ''text''" and "trim_space (cb_text b) \<noteq> []"
  shows "pt_assistant_key (fst (handle_envelope w sid a r)) = normalize_result (cb_text b)"
  using assms
  by (simp add: handle_envelope_def handle_assistant_def case_prod_beta each_append assistant_block_def Let_def remember_text_def normalize_trimmed)

text \<open>
  The text of a turn is shown once: after a message of the assistant that ends in a text, the result of the turn is shown
  again only if it says something else, where spaces do not count.
\<close>

theorem result_shown_once:
  assumes "en_type a = ''assistant''" and "en_blocks a = bs @ [b]" and "cb_type b = ''text''" and "trim_space (cb_text b) \<noteq> []"
    and "en_type e = ''result''"
  shows "shown_texts (snd (handle_envelope w' sid e (fst (handle_envelope w sid a r)))) =
    (if normalize_result (en_result e) = [] \<or> normalize_result (en_result e) = normalize_result (cb_text b) then [] else [trim_space (en_result e)])"
proof -
  let ?r = "fst (note_session (w_now w') sid e (fst (handle_envelope w sid a r)))"
  have key: "pt_assistant_key ?r = normalize_result (cb_text b)"
    using assistant_key [OF assms(1-4)] by simp
  have ready: "shown_texts (snd (if should_emit_ready e then (x, [Emit (apply_runtime_meta (EvPrompt p) m)]) else (y, []))) = []" for x y p m
    by (simp add: shown_texts_def map_filter_def)
  have "shown_texts (snd (handle_envelope w' sid e (fst (handle_envelope w sid a r)))) = shown_texts (snd (result_text w' sid e ?r))"
    using assms(5) by (simp add: handle_envelope_def handle_result_def Let_def case_prod_beta ready)
  also have "\<dots> = (if normalize_result (en_result e) = [] \<or> normalize_result (en_result e) = normalize_result (cb_text b) then [] else [trim_space (en_result e)])"
  proof (cases "trim_space (en_result e) = []")
    case True
    then have "normalize_result (en_result e) = []"
      using normalize_trimmed [of "en_result e"] normalize_empty by simp
    then show ?thesis
      using True by (simp add: result_text_def)
  next
    case False
    then show ?thesis
      using key by (simp add: result_text_def Let_def case_prod_beta should_emit_result_def normalize_trimmed)
  qed
  finally show ?thesis .
qed

definition demo_assistant :: claude_envelope where
  "demo_assistant = demo_control\<lparr>en_type := ''assistant'',
     en_blocks := [\<lparr>cb_type = ''text'', cb_text = ''all done'', cb_name = [], cb_input = [], cb_content = [], cb_error = False\<rparr>]\<rparr>"

lemma result_shown_once_witness:
  "shown_texts (snd (handle_envelope demo_world ''s'' (demo_control\<lparr>en_type := ''result'', en_result := '' all  done''\<rparr>)
     (fst (handle_envelope demo_world ''s'' demo_assistant new_pty)))) = []"
proof -
  have same: "normalize_result '' all  done'' = normalize_result ''all done''" and some: "trim_space ''all done'' \<noteq> []"
    by code_simp+
  show ?thesis
    using result_shown_once [of demo_assistant "[]" "hd (en_blocks demo_assistant)"
        "demo_control\<lparr>en_type := ''result'', en_result := '' all  done''\<rparr>" demo_world "''s''" demo_world new_pty] same some
    by (simp add: demo_assistant_def)
qed

end
