(* ===== verification/StoreRecords.thy ===== *)
theory StoreRecords
  imports ToolDiff ResumeCommand
begin

text \<open>
  What the file store makes of a record before it is written and after it is read (\<open>data/file_store.go\<close>): the
  normal form of a projection, a session, the catalogues and the permission rules, and the title and preview a
  session is listed with. As elsewhere \<open>mix\<close> permutes a slice before a stable sort, since \<open>sort.Slice\<close> is not stable.
\<close>

section \<open>The order of strings\<close>

text \<open>Go compares strings byte by byte; as a type of its own a string has this order for \<open>sort_key\<close>.\<close>

datatype go_string = Go_string (go_bytes: string)

lemma string_less_irrefl [simp]: "\<not> string_less s s"
  by (induction s) auto

lemma byte_eq: "byte c = byte d \<longleftrightarrow> c = d"
  by (simp add: byte_def)

lemma string_less_trans: "string_less s t \<Longrightarrow> string_less t u \<Longrightarrow> string_less s u"
proof (induction s t arbitrary: u rule: string_less.induct)
  case (2 d t)
  then show ?case
    by (cases u) auto
next
  case (3 c s d t)
  then show ?case
    by (cases u) (auto simp: byte_eq)
qed simp

lemma string_less_total: "s = t \<or> string_less s t \<or> string_less t s"
proof (induction s t rule: string_less.induct)
  case (1 s)
  then show ?case
    by (cases s) simp_all
next
  case (3 c s d t)
  then show ?case
    using byte_eq [of c d] by auto
qed simp

instantiation go_string :: linorder
begin

definition less_go_string :: "go_string \<Rightarrow> go_string \<Rightarrow> bool" where
  "less_go_string a b = string_less (go_bytes a) (go_bytes b)"

definition less_eq_go_string :: "go_string \<Rightarrow> go_string \<Rightarrow> bool" where
  "less_eq_go_string a b = (a = b \<or> string_less (go_bytes a) (go_bytes b))"

instance
proof
  fix a b c :: go_string
  show "(a < b) = (a \<le> b \<and> \<not> b \<le> a)"
    using string_less_trans [of "go_bytes a" "go_bytes b" "go_bytes a"] by (auto simp: less_go_string_def less_eq_go_string_def)
  show "a \<le> a"
    by (simp add: less_eq_go_string_def)
  show "a \<le> b \<Longrightarrow> b \<le> c \<Longrightarrow> a \<le> c"
    using string_less_trans [of "go_bytes a" "go_bytes b" "go_bytes c"] by (auto simp: less_eq_go_string_def)
  show "a \<le> b \<Longrightarrow> b \<le> a \<Longrightarrow> a = b"
    using string_less_trans [of "go_bytes a" "go_bytes b" "go_bytes a"] by (auto simp: less_eq_go_string_def)
  show "a \<le> b \<or> b \<le> a"
    using string_less_total [of "go_bytes a" "go_bytes b"] by (cases a; cases b) (auto simp: less_eq_go_string_def)
qed

end

section \<open>Runtimes, contexts, rules\<close>

text \<open>Here the first value that is not blank is not trimmed.\<close>

fun first_non_blank :: "string list \<Rightarrow> string" where
  "first_non_blank [] = []"
| "first_non_blank (v # vs) = (if trim_space v \<noteq> [] then v else first_non_blank vs)"

definition merge_session_runtime :: "session_runtime \<Rightarrow> session_runtime \<Rightarrow> session_runtime" where
  "merge_session_runtime base over =
     \<lparr>rt_resume_session_id = first_non_blank [rt_resume_session_id over, rt_resume_session_id base],
      rt_command = first_non_blank [rt_command over, rt_command base],
      rt_engine = first_non_blank [rt_engine over, rt_engine base],
      rt_permission_mode = first_non_blank [rt_permission_mode over, rt_permission_mode base],
      rt_cwd = first_non_blank [rt_cwd over, rt_cwd base],
      rt_lifecycle = first_non_blank [rt_lifecycle over, rt_lifecycle base],
      rt_source = first_non_blank [rt_source over, rt_source base]\<rparr>"

text \<open>The loops that skip items without a key and all but the first of a key.\<close>

fun first_of_key :: "('a \<Rightarrow> string) \<Rightarrow> string list \<Rightarrow> 'a list \<Rightarrow> 'a list" where
  "first_of_key key seen [] = []"
| "first_of_key key seen (x # xs) =
     (if key x = [] \<or> key x \<in> set seen then first_of_key key seen xs else x # first_of_key key (key x # seen) xs)"

definition normalize_string_slice :: "string list \<Rightarrow> string list" where
  "normalize_string_slice ss = sort_key Go_string (first_of_key (\<lambda>s. s) [] (map trim_space ss))"

definition normalize_session_context :: "session_context \<Rightarrow> session_context" where
  "normalize_session_context x =
     (let skills = normalize_string_slice (cn_skill_names x); ids = normalize_string_slice (cn_memory_ids x) in
      \<lparr>cn_skill_names = skills, cn_memory_ids = ids, cn_configured = (skills \<noteq> [] \<or> ids \<noteq> [] \<or> cn_configured x)\<rparr>)"

definition truth_claude :: string where "truth_claude = ''claude''"
definition sync_idle :: string where "sync_idle = ''idle''"
definition sync_draft :: string where "sync_draft = ''draft''"
definition source_local :: string where "source_local = ''local''"
definition source_builtin :: string where "source_builtin = ''builtin''"

definition normalize_catalog_metadata :: "string \<Rightarrow> catalog_metadata \<Rightarrow> catalog_metadata" where
  "normalize_catalog_metadata area m = m\<lparr>
     cm_domain := (if cm_domain m = [] then area else cm_domain m),
     cm_source_of_truth := (if cm_source_of_truth m = [] then truth_claude else cm_source_of_truth m),
     cm_sync_state := (if cm_sync_state m = [] then sync_idle else cm_sync_state m)\<rparr>"

definition normalize_rule :: "permission_rule \<Rightarrow> permission_rule" where
  "normalize_rule p = p\<lparr>pm_id := trim_space (pm_id p), pm_engine := trim_space (to_lower (pm_engine p)),
     pm_command_head := trim_space (to_lower (pm_command_head p)), pm_target_path_prefix := trim_space (pm_target_path_prefix p),
     pm_summary := trim_space (pm_summary p), pm_scope := (if pm_scope p = [] then scope_session else pm_scope p),
     pm_kind := (if pm_kind p = [] then kind_generic else pm_kind p)\<rparr>"

definition normalize_permission_rules :: "(permission_rule list \<Rightarrow> permission_rule list) \<Rightarrow> permission_rule list \<Rightarrow> permission_rule list" where
  "normalize_permission_rules mix ps = sort_key (\<lambda>p. - pm_created_at p) (mix (first_of_key pm_id [] (map normalize_rule ps)))"

section \<open>Catalogues\<close>

record skill_definition =
  sd_name :: string
  sd_description :: string
  sd_prompt :: string
  sd_result_view :: string
  sd_target_type :: string
  sd_source :: string
  sd_source_of_truth :: string
  sd_sync_state :: string
  sd_editable :: bool
  sd_drift :: bool
  sd_updated_at :: time
  sd_last_synced_at :: time

record memory_item =
  mi_id :: string
  mi_title :: string
  mi_content :: string
  mi_source :: string
  mi_source_of_truth :: string
  mi_sync_state :: string
  mi_editable :: bool
  mi_drift :: bool
  mi_updated_at :: time
  mi_last_synced_at :: time

record skill_catalog =
  sg_meta :: catalog_metadata
  sg_items :: "skill_definition list"

record memory_catalog =
  mg_meta :: catalog_metadata
  mg_items :: "memory_item list"

definition domain_skill :: string where "domain_skill = ''skill''"
definition domain_memory :: string where "domain_memory = ''memory''"

definition default_state :: "string \<Rightarrow> string \<Rightarrow> string" where
  "default_state source st = (if st \<noteq> [] then st else if source = source_local then sync_draft else sync_idle)"

definition normalize_skill :: "skill_definition \<Rightarrow> skill_definition" where
  "normalize_skill d =
     (let source = (if sd_source d = [] then source_local else sd_source d) in
      d\<lparr>sd_name := trim_space (sd_name d), sd_description := trim_space (sd_description d), sd_prompt := trim_space (sd_prompt d),
        sd_result_view := trim_space (sd_result_view d), sd_target_type := trim_space (sd_target_type d), sd_source := source,
        sd_source_of_truth := (if sd_source_of_truth d = [] then truth_claude else sd_source_of_truth d),
        sd_sync_state := default_state source (sd_sync_state d), sd_editable := (source \<noteq> source_builtin)\<rparr>)"

definition normalize_skill_items :: "skill_definition list \<Rightarrow> skill_definition list" where
  "normalize_skill_items ds = sort_key (\<lambda>d. Go_string (sd_name d)) (first_of_key sd_name [] (map normalize_skill ds))"

definition normalize_memory_item :: "memory_item \<Rightarrow> memory_item" where
  "normalize_memory_item m =
     (let source = (if trim_space (mi_source m) = [] then source_local else trim_space (mi_source m)) in
      m\<lparr>mi_id := trim_space (mi_id m), mi_title := trim_space (mi_title m), mi_content := trim_space (mi_content m), mi_source := source,
        mi_source_of_truth := (if mi_source_of_truth m = [] then truth_claude else mi_source_of_truth m),
        mi_sync_state := default_state source (mi_sync_state m), mi_editable := (source \<noteq> source_builtin)\<rparr>)"

definition normalize_memory_items :: "(memory_item list \<Rightarrow> memory_item list) \<Rightarrow> memory_item list \<Rightarrow> memory_item list" where
  "normalize_memory_items mix ms = sort_key (\<lambda>m. - mi_updated_at m) (mix (first_of_key mi_id [] (map normalize_memory_item ms)))"

definition normalize_skill_catalog :: "skill_catalog \<Rightarrow> skill_catalog" where
  "normalize_skill_catalog g = g\<lparr>sg_meta := normalize_catalog_metadata domain_skill (sg_meta g), sg_items := normalize_skill_items (sg_items g)\<rparr>"

definition normalize_memory_catalog :: "(memory_item list \<Rightarrow> memory_item list) \<Rightarrow> memory_catalog \<Rightarrow> memory_catalog" where
  "normalize_memory_catalog mix g = g\<lparr>mg_meta := normalize_catalog_metadata domain_memory (mg_meta g), mg_items := normalize_memory_items mix (mg_items g)\<rparr>"

definition normalize_rule_snapshot :: "(permission_rule list \<Rightarrow> permission_rule list) \<Rightarrow> permission_rule_snapshot \<Rightarrow> permission_rule_snapshot" where
  "normalize_rule_snapshot mix s = s\<lparr>ps_items := normalize_permission_rules mix (ps_items s)\<rparr>"

section \<open>Titles and previews\<close>

definition normalize_summary_text :: "string \<Rightarrow> string" where
  "normalize_summary_text t = join '' '' (GoStrings.fields (trim_space t))"

text \<open>The two regular expressions: a placeholder title and a time.\<close>

definition name_char :: "char \<Rightarrow> bool" where
  "name_char c \<longleftrightarrow> is_digit c \<or> (byte CHR ''a'' \<le> byte c \<and> byte c \<le> byte CHR ''z'')"

definition session_placeholder :: "string \<Rightarrow> bool" where
  "session_placeholder s \<longleftrightarrow> s = ''session'' \<or>
     (has_prefix s ''session'' \<and>
       (case drop 7 s of [] \<Rightarrow> False | c # cs \<Rightarrow> (c \<in> set ''-_ '' \<or> byte c \<in> {9, 10, 12, 13}) \<and> cs \<noteq> [] \<and> list_all name_char cs))"

text \<open>In a shape a 0 stands for a digit and a t for a space or a t.\<close>

definition shape_char :: "char \<Rightarrow> char \<Rightarrow> bool" where
  "shape_char p c \<longleftrightarrow> (if p = CHR ''0'' then is_digit c else if p = CHR ''t'' then c = CHR '' '' \<or> c = CHR ''t'' else c = p)"

definition session_timestamp :: "string \<Rightarrow> bool" where
  "session_timestamp s \<longleftrightarrow>
     list_ex (\<lambda>p. list_all2 shape_char p s) [''0000-00-00'', ''0000-00-00t00:00'', ''0000-00-00t00:00:00'']"

definition lower_text :: "string \<Rightarrow> string" where
  "lower_text t = to_lower (normalize_summary_text t)"

definition looks_like_timestamp :: "string \<Rightarrow> bool" where
  "looks_like_timestamp t \<longleftrightarrow> session_timestamp (lower_text t)"

definition looks_like_model_summary :: "string \<Rightarrow> bool" where
  "looks_like_model_summary t =
     (case GoStrings.fields (lower_text t) of
        f # g # gs \<Rightarrow> f \<in> set [''claude'', ''codex'', ''gemini''] \<and>
          list_ex (\<lambda>x. str_contains x ''gpt-'' \<or> str_contains x ''sonnet'' \<or> str_contains x ''opus'' \<or>
            x \<in> set [''-low'', ''-medium'', ''-high'', ''low'', ''medium'', ''high'']) (g # gs)
      | _ \<Rightarrow> False)"

definition txt_ready :: string where "txt_ready = [CHR 0xE5, CHR 0xB7, CHR 0xB2, CHR 0xE5, CHR 0xB0, CHR 0xB1,
  CHR 0xE7, CHR 0xBB, CHR 0xAA]"

definition noise_words :: "string list" where
  "noise_words = [''ok'', ''done'', ''running'', ''thinking'', ''processing'', ''active'', ''ready'', ''idle'', ''is ready'', txt_ready,
     ''session active'', ''session ready'', ''command started'', ''command finished'', ''status: active'', ''status: ready'', ''status: idle'']"

definition noise_prefixes :: "string list" where
  "noise_prefixes = [''command started '', ''command finished '', ''active:'', ''ready:'', ''idle:'', ''--config model_reasoning_effort='',
     ''model_reasoning_effort='']"

definition looks_like_noise :: "string \<Rightarrow> bool" where
  "looks_like_noise t =
     (let l = lower_text t in
      l = [] \<or> l \<in> set noise_words \<or> list_ex (has_prefix l) noise_prefixes \<or> looks_like_timestamp l \<or> looks_like_model_summary l)"

definition looks_like_placeholder :: "string \<Rightarrow> bool" where
  "looks_like_placeholder t =
     (let l = lower_text t in l = [] \<or> l \<in> set [''session'', ''new session'', ''history''] \<or> session_placeholder l)"

definition bootstrap_flags :: "string list" where
  "bootstrap_flags = ['' --model '', '' -m '', '' --config '', '' --permission-mode '', '' --approval-mode '', '' --dangerously-skip-permissions'']"

definition looks_like_bootstrap :: "string \<Rightarrow> bool" where
  "looks_like_bootstrap t =
     (let n = normalize_summary_text t; l = to_lower n in
      if n = [] then False
      else if list_ex (has_prefix l) [''--config '', ''--model '', ''-m ''] then True
      else if \<not> list_ex (\<lambda>w. l = w \<or> has_prefix l (w @ '' '')) [''claude'', ''codex'', ''gemini''] then False
      else \<not> str_contains n '' '' \<or> list_ex (str_contains l) bootstrap_flags \<or> looks_like_model_summary l)"

definition meaningful_text :: "string \<Rightarrow> bool" where
  "meaningful_text t \<longleftrightarrow> t \<noteq> [] \<and> \<not> looks_like_noise t \<and> \<not> looks_like_bootstrap t"

definition meaningful_title :: "string \<Rightarrow> bool" where
  "meaningful_title t \<longleftrightarrow> meaningful_text t \<and> \<not> looks_like_placeholder t"

definition txt_ellipsis :: string where "txt_ellipsis = [CHR 0xE2, CHR 0x80, CHR 0xA6]"

definition truncate_preview :: "string \<Rightarrow> string" where
  "truncate_preview t = (if length (runes t) \<le> 80 then t else concat (map encode_rune (take 80 (runes t))) @ txt_ellipsis)"

text \<open>\<open>clock\<close> writes a local time.\<close>

definition fallback_title :: "(time \<Rightarrow> string) \<Rightarrow> string \<Rightarrow> time \<Rightarrow> string" where
  "fallback_title clock t now = (if trim_space t \<noteq> [] then trim_space t else clock now)"

definition meaningful_entry_text :: "bool \<Rightarrow> log_entry \<Rightarrow> string" where
  "meaningful_entry_text user_only e =
     (let t = normalize_summary_text
            (if ln_kind e \<in> set [''markdown'', ''system'', ''user''] then first_non_blank [ln_message e, ln_text e]
             else if ln_kind e = ''error'' then (case ln_context e of Some x \<Rightarrow> cx_message x | None \<Rightarrow> []) else []) in
      if user_only \<and> ln_kind e \<noteq> ''user'' then [] else if meaningful_text t then t else [])"

definition first_text_of :: "bool \<Rightarrow> log_entry list \<Rightarrow> string" where
  "first_text_of user_only es = (case find (\<lambda>t. t \<noteq> []) (map (meaningful_entry_text user_only) es) of Some t \<Rightarrow> t | None \<Rightarrow> [])"

definition latest_text_of :: "bool \<Rightarrow> log_entry list \<Rightarrow> string" where
  "latest_text_of user_only es = (case find (\<lambda>t. t \<noteq> []) (rev (map (meaningful_entry_text user_only) es)) of Some t \<Rightarrow> t | None \<Rightarrow> [])"

definition is_codex_native :: "string \<Rightarrow> bool" where
  "is_codex_native s \<longleftrightarrow> equal_fold (trim_space s) ''codex-native''"

definition build_preview :: "session_summary \<Rightarrow> projection \<Rightarrow> string" where
  "build_preview y p =
     (let any = latest_text_of False (pj_log_entries p); user = latest_text_of True (pj_log_entries p) in
      if (sy_external y \<or> is_codex_native (sy_source y) \<or> is_codex_native (rt_source (sy_runtime y))) \<and> any \<noteq> [] then truncate_preview any
      else if user \<noteq> [] then truncate_preview user
      else if any \<noteq> [] then truncate_preview any else [])"

definition build_summary_title :: "(time \<Rightarrow> string) \<Rightarrow> time \<Rightarrow> string \<Rightarrow> projection \<Rightarrow> time \<Rightarrow> string" where
  "build_summary_title clock now current p created =
     (let n = normalize_summary_text current; user = first_text_of True (pj_log_entries p); any = first_text_of False (pj_log_entries p) in
      if meaningful_title n then n
      else if user \<noteq> [] then truncate_preview user
      else if any \<noteq> [] then truncate_preview any
      else if n \<noteq> [] \<and> \<not> (looks_like_noise n \<or> looks_like_bootstrap n) then n
      else fallback_title clock [] (if created \<noteq> 0 then created else now))"

definition derive_summary :: "(time \<Rightarrow> string) \<Rightarrow> time \<Rightarrow> session_summary \<Rightarrow> projection \<Rightarrow> session_summary" where
  "derive_summary clock now y p =
     (let y = y\<lparr>sy_entry_count := int (length (pj_log_entries p))\<rparr>;
          t = build_summary_title clock now (sy_title y) p (sy_created_at y);
          y = (if t \<noteq> [] then y\<lparr>sy_title := t\<rparr> else y) in
      y\<lparr>sy_last_preview := build_preview y p\<rparr>)"

section \<open>Records\<close>

definition store_projection :: "(permission_rule list \<Rightarrow> permission_rule list) \<Rightarrow> projection \<Rightarrow> projection" where
  "store_projection mix p =
     (let m = (case pj_raw_terminal p of None \<Rightarrow> Map.empty | Some m \<Rightarrow> m) in
      p\<lparr>pj_raw_terminal := Some (Map.map_add [''stdout'' \<mapsto> [], ''stderr'' \<mapsto> []] m),
        pj_rules := normalize_permission_rules mix (pj_rules p), pj_context := normalize_session_context (pj_context p),
        pj_skill_meta := normalize_catalog_metadata domain_skill (pj_skill_meta p),
        pj_memory_meta := normalize_catalog_metadata domain_memory (pj_memory_meta p)\<rparr>)"

definition with_source :: "string \<Rightarrow> session_runtime \<Rightarrow> session_runtime" where
  "with_source s r = (if rt_source r = [] then r\<lparr>rt_source := s\<rparr> else r)"

definition source_mobilevc :: string where "source_mobilevc = ''mobilevc''"
definition source_codex :: string where "source_codex = ''codex-native''"
definition owner_claude :: string where "owner_claude = ''claude-native''"

definition fallback_source :: "bool \<Rightarrow> string" where
  "fallback_source external = (if external then source_codex else source_mobilevc)"

definition record_external :: "session_summary \<Rightarrow> projection \<Rightarrow> bool" where
  "record_external y p \<longleftrightarrow> sy_external y \<or>
     to_lower (trim_space (first_non_blank [rt_source (pj_runtime p), rt_source (sy_runtime y), sy_source y])) = source_codex"

definition execution_active :: "projection \<Rightarrow> bool" where
  "execution_active p \<longleftrightarrow> trim_space (sn_state (pj_controller p)) \<notin> {[], state_idle}"

definition settle_summary :: "bool \<Rightarrow> session_runtime \<Rightarrow> projection \<Rightarrow> session_summary \<Rightarrow> session_summary" where
  "settle_summary external rt p y = y\<lparr>sy_external := external,
     sy_ownership := (if sy_ownership y = [] then (if external then owner_claude else source_mobilevc) else sy_ownership y),
     sy_runtime := rt, sy_source := (if sy_source y = [] then fallback_source external else sy_source y),
     sy_execution_active := execution_active p\<rparr>"

definition store_record ::
  "(permission_rule list \<Rightarrow> permission_rule list) \<Rightarrow> (time \<Rightarrow> string) \<Rightarrow> time \<Rightarrow> session_record \<Rightarrow> session_record" where
  "store_record mix clock now r =
     (let p = store_projection mix (rec_projection r); y = rec_summary r; external = record_external y p;
          rt = with_source (fallback_source external) (merge_session_runtime (sy_runtime y) (pj_runtime p));
          p = p\<lparr>pj_runtime := rt\<rparr>;
          y = settle_summary external (with_source (fallback_source external) (merge_session_runtime (sy_runtime y) rt)) p y in
      \<lparr>rec_summary = derive_summary clock now y p, rec_projection = p\<rparr>)"

text \<open>A session nobody has used yet, and which sessions are listed.\<close>

definition is_untouched :: "session_record \<Rightarrow> bool" where
  "is_untouched r =
     (let y = rec_summary r; p = rec_projection r;
          src = to_lower (trim_space (first_non_blank [rt_source (sy_runtime y), rt_source (pj_runtime p), sy_source y]));
          t = normalize_summary_text (sy_title y) in
      \<not> (sy_external y \<or> is_codex_native (sy_source y)) \<and> (src = [] \<or> src = source_mobilevc) \<and>
      sy_entry_count y \<le> 0 \<and> pj_log_entries p = [] \<and> trim_space (sy_last_preview y) = [] \<and>
      trim_space (first_non_blank [rt_resume_session_id (sy_runtime y), rt_resume_session_id (pj_runtime p)]) = [] \<and>
      trim_space (first_non_blank [rt_command (sy_runtime y), rt_command (pj_runtime p)]) = [] \<and>
      (t = [] \<or> looks_like_placeholder t \<or> looks_like_timestamp t))"

definition newer :: "session_summary \<Rightarrow> session_summary \<Rightarrow> session_summary" where
  "newer best item =
     (if sy_updated_at best < sy_updated_at item then item
      else if sy_updated_at item = sy_updated_at best \<and> sy_created_at best < sy_created_at item then item else best)"

definition select_visible :: "string set \<Rightarrow> session_summary list \<Rightarrow> session_summary list" where
  "select_visible untouched items =
     (let visible = filter (\<lambda>y. sy_id y \<notin> untouched) items in
      if visible \<noteq> [] then visible
      else if length items \<le> 1 then items
      else [foldl newer (hd items) (tl items)])"

section \<open>Lemmas\<close>

lemma first_of_key_sub: "x \<in> set (first_of_key key seen xs) \<Longrightarrow> x \<in> set xs \<and> key x \<noteq> [] \<and> key x \<notin> set seen"
  by (induction key seen xs rule: first_of_key.induct) (auto split: if_splits)

lemma first_of_key_keys: "key ` set (first_of_key key seen xs) = {k \<in> key ` set xs. k \<noteq> [] \<and> k \<notin> set seen}"
  by (induction key seen xs rule: first_of_key.induct) auto

lemma first_of_key_distinct: "distinct (map key (first_of_key key seen xs))"
  by (induction key seen xs rule: first_of_key.induct) (auto dest: first_of_key_sub)

lemma first_of_key_first:
  "k \<noteq> [] \<Longrightarrow> k \<notin> set seen \<Longrightarrow> find (\<lambda>x. key x = k) (first_of_key key seen xs) = find (\<lambda>x. key x = k) xs"
  by (induction key seen xs rule: first_of_key.induct) auto

lemma first_of_key_id: "distinct (map key xs) \<Longrightarrow> \<forall>x\<in>set xs. key x \<noteq> [] \<and> key x \<notin> set seen \<Longrightarrow> first_of_key key seen xs = xs"
  by (induction key seen xs rule: first_of_key.induct) (auto simp: image_iff eq_commute)

lemma find_distinct_perm:
  assumes "set xs = set ys" and "distinct (map key xs)" and "distinct (map key ys)"
  shows "find (\<lambda>x. key x = k) xs = find (\<lambda>x. key x = k) ys"
proof (cases "\<exists>x\<in>set xs. key x = k")
  case True
  then obtain x where x: "x \<in> set xs" "key x = k"
    by blast
  have *: "find (\<lambda>x. key x = k) zs = Some x" if "x \<in> set zs" "distinct (map key zs)" for zs
    using that x(2) by (induction zs) (auto simp: image_iff)
  show ?thesis
    using * [of xs] * [of ys] x(1) assms by simp
next
  case False
  then have "find (\<lambda>x. key x = k) xs = None" "find (\<lambda>x. key x = k) ys = None"
    using assms(1) by (auto simp: find_None_iff)
  then show ?thesis
    by simp
qed

lemma map_trim_id [simp]: "map trim_space (map trim_space ss) = map trim_space ss"
  by simp

lemma first_non_blank_idem [simp]: "first_non_blank [first_non_blank [a, b], b] = first_non_blank [a, b]"
  by simp

text \<open>A skill in normal form stays as it is.\<close>

lemma normalize_skill_idem [simp]: "normalize_skill (normalize_skill d) = normalize_skill d"
  by (simp add: normalize_skill_def default_state_def Let_def source_local_def source_builtin_def truth_claude_def sync_draft_def sync_idle_def)

lemma normalize_skill_name [simp]: "sd_name (normalize_skill d) = trim_space (sd_name d)"
  by (simp add: normalize_skill_def Let_def)

lemma skill_items_normal: "d \<in> set (normalize_skill_items ds) \<Longrightarrow> normalize_skill d = d"
  by (auto simp: normalize_skill_items_def dest!: first_of_key_sub)

lemma skill_items_distinct: "distinct (map sd_name (normalize_skill_items ds))"
  by (metis normalize_skill_items_def first_of_key_distinct mset_map mset_sort mset_eq_imp_distinct_iff)

lemma skill_items_set: "set (normalize_skill_items ds) = set (first_of_key sd_name [] (map normalize_skill ds))"
  by (simp add: normalize_skill_items_def)

lemma find_map: "find P (map f xs) = map_option f (find (P \<circ> f) xs)"
  by (induction xs) auto

lemma sorted_string_less: "sorted (map (\<lambda>x. Go_string (key x)) xs) \<Longrightarrow> distinct (map key xs) \<Longrightarrow> sorted_wrt string_less (map key xs)"
  by (induction xs) (auto simp: less_eq_go_string_def image_iff)

lemma normalize_skill_items_idem: "normalize_skill_items (normalize_skill_items ds) = normalize_skill_items ds"
proof -
  let ?ds = "normalize_skill_items ds"
  have order: "sorted (map (\<lambda>d. Go_string (sd_name d)) ?ds)"
    by (simp add: normalize_skill_items_def)
  have blank: "sd_name d \<noteq> []" if "d \<in> set ?ds" for d
    using that by (auto simp: skill_items_set dest: first_of_key_sub)
  have "map normalize_skill ?ds = ?ds"
    by (simp add: map_idI skill_items_normal)
  then have "normalize_skill_items ?ds = sort_key (\<lambda>d. Go_string (sd_name d)) ?ds"
    using first_of_key_id [of sd_name ?ds "[]"] skill_items_distinct [of ds] blank by (simp add: normalize_skill_items_def)
  also have "\<dots> = ?ds"
    using order by (rule sort_key_id_if_sorted)
  finally show ?thesis .
qed

text \<open>
  The catalogue of skills is a set keyed by name: the names are trimmed, not blank and in strictly ascending order, each
  is taken from the first item that has it, and saving what was read changes nothing.
\<close>

theorem skill_catalog_normal:
  "sorted_wrt string_less (map sd_name (normalize_skill_items ds)) \<and>
   find (\<lambda>d. sd_name d = k) (normalize_skill_items ds) =
     (if k = [] then None else map_option normalize_skill (find (\<lambda>d. trim_space (sd_name d) = k) ds)) \<and>
   normalize_skill_items (normalize_skill_items ds) = normalize_skill_items ds"
proof (intro conjI)
  let ?ds = "normalize_skill_items ds"
  have "sorted (map (\<lambda>d. Go_string (sd_name d)) ?ds)"
    by (simp add: normalize_skill_items_def)
  then show "sorted_wrt string_less (map sd_name ?ds)"
    by (rule sorted_string_less) (rule skill_items_distinct)
  have "find (\<lambda>d. sd_name d = k) ?ds = find (\<lambda>d. sd_name d = k) (first_of_key sd_name [] (map normalize_skill ds))"
    by (rule find_distinct_perm [OF skill_items_set skill_items_distinct first_of_key_distinct])
  also have "\<dots> = (if k = [] then None else map_option normalize_skill (find (\<lambda>d. trim_space (sd_name d) = k) ds))"
    by (auto simp: first_of_key_first find_map comp_def find_None_iff dest: first_of_key_sub)
  finally show "find (\<lambda>d. sd_name d = k) ?ds = \<dots>" .
qed (rule normalize_skill_items_idem)

section \<open>What is written is in normal form\<close>

lemma normalize_summary_idem [simp]: "normalize_summary_text (normalize_summary_text t) = normalize_summary_text t"
  by (simp add: normalize_summary_text_def fields_trim_join)

lemma normalize_slice_idem [simp]: "normalize_string_slice (normalize_string_slice ss) = normalize_string_slice ss"
proof -
  let ?ss = "normalize_string_slice ss"
  have set: "set ?ss = set (first_of_key (\<lambda>s. s) [] (map trim_space ss))"
    by (simp add: normalize_string_slice_def)
  have item: "s \<noteq> [] \<and> trim_space s = s" if "s \<in> set ?ss" for s
    using first_of_key_sub [of s "\<lambda>s. s" "[]" "map trim_space ss"] that unfolding set by auto
  then have trimmed: "map trim_space ?ss = ?ss"
    by (intro map_idI) blast
  have blank: "\<forall>s\<in>set ?ss. s \<noteq> []"
    using item by blast
  have "distinct ?ss"
    using first_of_key_distinct [of "\<lambda>s. s" "[]" "map trim_space ss"] by (simp add: normalize_string_slice_def)
  then have "normalize_string_slice ?ss = sort_key Go_string ?ss"
    using first_of_key_id [of "\<lambda>s. s" ?ss "[]"] trimmed blank by (simp add: normalize_string_slice_def [of ?ss])
  also have "\<dots> = ?ss"
    by (rule sort_key_id_if_sorted) (simp add: normalize_string_slice_def)
  finally show ?thesis .
qed

lemma normalize_session_context_idem [simp]: "normalize_session_context (normalize_session_context x) = normalize_session_context x"
  by (auto simp: normalize_session_context_def Let_def)

lemma normalize_metadata_idem [simp]:
  "area \<noteq> [] \<Longrightarrow> normalize_catalog_metadata area (normalize_catalog_metadata area m) = normalize_catalog_metadata area m"
  by (simp add: normalize_catalog_metadata_def truth_claude_def sync_idle_def)

text \<open>Of the sort of Go only this much is asked: it rearranges, and it leaves a slice in order as it is.\<close>

definition stable_mix :: "('a \<Rightarrow> time) \<Rightarrow> ('a list \<Rightarrow> 'a list) \<Rightarrow> bool" where
  "stable_mix at mix \<longleftrightarrow> (\<forall>xs. mset (mix xs) = mset xs \<and> (sorted (map (\<lambda>x. - at x) xs) \<longrightarrow> mix xs = xs))"

lemma normalize_rule_idem [simp]: "normalize_rule (normalize_rule p) = normalize_rule p"
  by (simp add: normalize_rule_def trim_to_lower scope_session_def kind_generic_def)

lemma permission_rules_idem:
  assumes "stable_mix pm_created_at mix"
  shows "normalize_permission_rules mix (normalize_permission_rules mix ps) = normalize_permission_rules mix ps"
proof -
  let ?first = "first_of_key pm_id [] (map normalize_rule ps)"
  let ?ps = "normalize_permission_rules mix ps"
  have perm: "mset ?ps = mset ?first"
    using assms by (simp add: normalize_permission_rules_def stable_mix_def)
  then have set: "set ?ps = set ?first"
    by (rule mset_eq_setD)
  have ordered: "sorted (map (\<lambda>p. - pm_created_at p) ?ps)"
    by (simp add: normalize_permission_rules_def)
  have item: "normalize_rule p = p \<and> pm_id p \<noteq> []" if "p \<in> set ?ps" for p
    using first_of_key_sub [of p pm_id "[]" "map normalize_rule ps"] that unfolding set by auto
  have normal: "map normalize_rule ?ps = ?ps"
    using item by (intro map_idI) blast
  have "mset (map pm_id ?ps) = mset (map pm_id ?first)"
    by (simp only: mset_map perm)
  then have "distinct (map pm_id ?ps)"
    by (rule mset_eq_imp_distinct_iff [THEN iffD2]) (rule first_of_key_distinct)
  moreover have "\<forall>p\<in>set ?ps. pm_id p \<noteq> []"
    using item by blast
  ultimately have "first_of_key pm_id [] ?ps = ?ps"
    by (intro first_of_key_id) auto
  then have "normalize_permission_rules mix ?ps = sort_key (\<lambda>p. - pm_created_at p) (mix ?ps)"
    using normal by (simp add: normalize_permission_rules_def [of mix ?ps])
  also have "\<dots> = ?ps"
    using assms ordered by (simp add: stable_mix_def sort_key_id_if_sorted)
  finally show ?thesis .
qed

lemma store_projection_idem:
  assumes "stable_mix pm_created_at mix"
  shows "store_projection mix ((store_projection mix p)\<lparr>pj_runtime := r\<rparr>) = (store_projection mix p)\<lparr>pj_runtime := r\<rparr>"
  by (auto simp: store_projection_def Let_def permission_rules_idem [OF assms] domain_skill_def domain_memory_def map_add_def fun_eq_iff
      split: option.splits)

lemma merge_runtime_stable:
  assumes "trim_space d \<noteq> []" and "r = with_source d (merge_session_runtime y p)"
  shows "merge_session_runtime y r = r" and "merge_session_runtime r r = r" and "with_source d' r = r"
    "trim_space (rt_source r) \<noteq> []"
  using assms by (auto simp: with_source_def merge_session_runtime_def)

lemma normalize_summary_Nil [simp]: "normalize_summary_text [] = []"
  by code_simp

lemma text_of_entries:
  assumes "t = first_text_of u es \<or> t = latest_text_of u es"
  shows "normalize_summary_text t = t"
proof -
  have "normalize_summary_text (meaningful_entry_text u e) = meaningful_entry_text u e" for e
    by (simp add: meaningful_entry_text_def Let_def del: if_not_P)
  then show ?thesis
    using assms by (auto simp: first_text_of_def latest_text_of_def find_Some_iff rev_map split: option.splits)
qed

lemma title_stable:
  assumes "length (runes (first_text_of True (pj_log_entries p))) \<le> 80" and "length (runes (first_text_of False (pj_log_entries p))) \<le> 80"
    and "created \<noteq> 0" and "looks_like_noise (clock created)" and "trim_space (clock created) \<noteq> []"
    and "t = build_summary_title clock now current p created"
  shows "build_summary_title clock now' t p created = t"
proof -
  let ?u = "first_text_of True (pj_log_entries p)" and ?a = "first_text_of False (pj_log_entries p)"
  have short: "truncate_preview ?u = ?u" "truncate_preview ?a = ?a"
    using assms(1,2) by (simp_all add: truncate_preview_def)
  have normal: "normalize_summary_text ?u = ?u" "normalize_summary_text ?a = ?a"
    by (rule text_of_entries [OF disjI1 [OF refl]])+
  have noise: "looks_like_noise (normalize_summary_text s) = looks_like_noise s" for s
    by (simp add: looks_like_noise_def lower_text_def)
  have clock: "\<not> meaningful_title (normalize_summary_text (clock created))" "looks_like_noise (normalize_summary_text (clock created))"
    using assms(4) by (simp_all add: meaningful_title_def meaningful_text_def noise)
  have title: "t = (let n = normalize_summary_text current in
      if meaningful_title n then n else if ?u \<noteq> [] then ?u else if ?a \<noteq> [] then ?a
      else if n \<noteq> [] \<and> \<not> (looks_like_noise n \<or> looks_like_bootstrap n) then n else clock created)"
    using assms(3) short by (simp add: assms(6) build_summary_title_def fallback_title_def Let_def)
  have again: "build_summary_title clock now' t p created =
     (let n = normalize_summary_text t in
      if meaningful_title n then n else if ?u \<noteq> [] then ?u else if ?a \<noteq> [] then ?a
      else if n \<noteq> [] \<and> \<not> (looks_like_noise n \<or> looks_like_bootstrap n) then n else clock created)"
    using assms(3) short by (simp add: build_summary_title_def fallback_title_def Let_def)
  show ?thesis
    unfolding again using title normal clock by (auto simp: Let_def split: if_splits)
qed

lemma derive_stable:
  assumes "length (runes (first_text_of True (pj_log_entries p))) \<le> 80" and "length (runes (first_text_of False (pj_log_entries p))) \<le> 80"
    and "sy_created_at y \<noteq> 0" and "looks_like_noise (clock (sy_created_at y))" and "trim_space (clock (sy_created_at y)) \<noteq> []"
  shows "derive_summary clock now' (derive_summary clock now y p) p = derive_summary clock now y p"
proof -
  let ?t = "build_summary_title clock now (sy_title y) p (sy_created_at y)"
  have same: "build_summary_title clock now' (sy_title y) p (sy_created_at y) = ?t"
    using assms(3) by (simp add: build_summary_title_def)
  have again: "build_summary_title clock now' ?t p (sy_created_at y) = ?t"
    by (rule title_stable) (use assms in auto)
  show ?thesis
    using same again by (simp add: derive_summary_def Let_def build_preview_def)
qed

lemma source_names:
  "trim_space (fallback_source e) \<noteq> []" "fallback_source e \<noteq> []" "owner_claude \<noteq> []" "source_mobilevc \<noteq> []"
proof -
  have "trim_space source_codex \<noteq> []" "trim_space source_mobilevc \<noteq> []" "source_codex \<noteq> []" "source_mobilevc \<noteq> []"
    by code_simp+
  then show "trim_space (fallback_source e) \<noteq> []" "fallback_source e \<noteq> []"
    by (simp_all add: fallback_source_def)
qed code_simp+

text \<open>After the runtimes are merged a record is external exactly if it was before.\<close>

lemma external_stable:
  assumes "r = with_source (fallback_source (record_external y p)) (merge_session_runtime (sy_runtime y) (pj_runtime p))"
    and "sy_external y' = record_external y p" and "pj_runtime p' = r"
  shows "record_external y' p' = record_external y p"
proof -
  have "to_lower (trim_space source_mobilevc) \<noteq> source_codex"
    by code_simp
  moreover have "trim_space (rt_source r) \<noteq> []"
    by (rule merge_runtime_stable(4) [OF source_names(1) assms(1)])
  ultimately show ?thesis
    using assms by (auto simp: record_external_def fallback_source_def with_source_def merge_session_runtime_def split: if_splits)
qed

text \<open>
  C19: A record in normal form is read back as it was written: normalising it again, at whatever time, changes nothing. The
  titles must not have been cut, and the fallback title must be what a time looks like.
\<close>

theorem store_record_stable:
  assumes "stable_mix pm_created_at mix" and "sy_created_at (rec_summary r) \<noteq> 0"
    and "\<forall>u. length (runes (first_text_of u (pj_log_entries (rec_projection r)))) \<le> 80"
    and "looks_like_noise (clock (sy_created_at (rec_summary r))) \<and> trim_space (clock (sy_created_at (rec_summary r))) \<noteq> []"
  shows "store_record mix clock now' (store_record mix clock now r) = store_record mix clock now r"
proof -
  let ?p = "store_projection mix (rec_projection r)" and ?y = "rec_summary r"
  let ?e = "record_external ?y ?p"
  let ?rt = "with_source (fallback_source ?e) (merge_session_runtime (sy_runtime ?y) (pj_runtime ?p))"
  let ?q = "?p\<lparr>pj_runtime := ?rt\<rparr>"
  let ?w = "derive_summary clock now (settle_summary ?e ?rt ?q ?y) ?q"
  note rt = merge_runtime_stable [OF source_names(1) refl]
  have once: "store_record mix clock now r = \<lparr>rec_summary = ?w, rec_projection = ?q\<rparr>"
    by (simp add: store_record_def Let_def rt(1,3))
  have kept: "sy_external ?w = ?e" "sy_runtime ?w = ?rt"
    by (simp_all add: derive_summary_def settle_summary_def Let_def)
  have ext: "record_external ?w ?q = ?e"
    by (rule external_stable [OF refl kept(1)]) simp
  have same: "settle_summary ?e ?rt ?q ?w = ?w"
    using source_names by (simp add: derive_summary_def settle_summary_def Let_def)
  have "store_record mix clock now' \<lparr>rec_summary = ?w, rec_projection = ?q\<rparr> =
      \<lparr>rec_summary = derive_summary clock now' ?w ?q, rec_projection = ?q\<rparr>"
    using same by (simp add: store_record_def store_projection_idem [OF assms(1)] ext kept rt Let_def)
  also have "derive_summary clock now' ?w ?q = ?w"
    using assms(2-4) by (intro derive_stable) (simp_all add: store_projection_def settle_summary_def Let_def)
  finally show ?thesis
    by (simp only: once)
qed

definition sample_session :: session_record where
  "sample_session = \<lparr>rec_summary = \<lparr>sy_id = ''session-1'', sy_title = [], sy_created_at = 5, sy_updated_at = 7, sy_last_preview = [],
     sy_entry_count = 0, sy_runtime = empty_runtime, sy_source = [], sy_external = False, sy_ownership = [], sy_execution_active = False,
     sy_claude_uuid = [], sy_jsonl_count = 0\<rparr>, rec_projection = empty_projection\<rparr>"

lemma demo_clock: "looks_like_noise ''2024-01-01 00:00''" "trim_space ''2024-01-01 00:00'' \<noteq> []"
  by code_simp+

lemma store_record_stable_witness:
  "store_record (\<lambda>xs. xs) (\<lambda>_. ''2024-01-01 00:00'') 9 (store_record (\<lambda>xs. xs) (\<lambda>_. ''2024-01-01 00:00'') 8 sample_session) =
   store_record (\<lambda>xs. xs) (\<lambda>_. ''2024-01-01 00:00'') 8 sample_session"
proof (rule store_record_stable)
  show "stable_mix pm_created_at (\<lambda>xs. xs)"
    by (simp add: stable_mix_def)
  show "sy_created_at (rec_summary sample_session) \<noteq> 0"
    by (simp add: sample_session_def)
  show "\<forall>u. length (runes (first_text_of u (pj_log_entries (rec_projection sample_session)))) \<le> 80"
    by (simp add: sample_session_def empty_projection_def first_text_of_def)
qed (use demo_clock in simp)

end
