(* ===== verification/FileStore.thy ===== *)
theory FileStore
  imports StoreRecords
begin

text \<open>
  The session store on the file system (\<open>data/file_store.go\<close>): one file per session, an index, two catalogues, the
  permission rules and the push tokens. A path names what is read there; the codec (\<open>encoding/json\<close> on the records of
  \<open>data/store.go\<close>) and what the operating system makes of a write or a removal are parameters.
\<close>

section \<open>The store and its surroundings\<close>

record file_store =
  fs_base :: string
  fs_index :: string
  fs_skills :: string
  fs_memories :: string
  fs_rules :: string
  fs_tokens :: string

type_synonym push_tokens = "string \<rightharpoonup> (string \<rightharpoonup> string)"

text \<open>
  Encoding may fail, and so may decoding. The decoded tokens are kept whether or not decoding failed; none stands for
  the nil map.
\<close>

record codec =
  co_put_record :: "session_record \<Rightarrow> string option"
  co_get_record :: "string \<Rightarrow> session_record option"
  co_put_index :: "session_summary list \<Rightarrow> string option"
  co_get_index :: "string \<Rightarrow> session_summary list option"
  co_put_skills :: "skill_catalog \<Rightarrow> string option"
  co_get_skills :: "string \<Rightarrow> skill_catalog option"
  co_get_skill_items :: "string \<Rightarrow> skill_definition list option"
  co_put_memories :: "memory_catalog \<Rightarrow> string option"
  co_get_memories :: "string \<Rightarrow> memory_catalog option"
  co_put_rules :: "permission_rule_snapshot \<Rightarrow> string option"
  co_get_rules :: "string \<Rightarrow> permission_rule_snapshot option"
  co_put_tokens :: "push_tokens \<Rightarrow> string option"
  co_get_tokens :: "string \<Rightarrow> push_tokens option \<times> bool"

text \<open>
  What an operation meets: whether its context is cancelled, the clock and a fresh UUID, how a local time is written, how
  an unstable sort mixes its slice, the writes that fail and what they leave in the file, the removals that fail.
\<close>

record surroundings =
  su_cancelled :: bool
  su_now :: time
  su_uuid :: string
  su_clock :: "time \<Rightarrow> string"
  su_mix_rules :: "permission_rule list \<Rightarrow> permission_rule list"
  su_mix_memories :: "memory_item list \<Rightarrow> memory_item list"
  su_mix_sessions :: "session_summary list \<Rightarrow> session_summary list"
  su_torn :: "string \<Rightarrow> file_read option"
  su_stuck :: "string \<Rightarrow> bool"

datatype store_error =
    Cancelled
  | No_session string
  | Id_required
  | No_directory string
  | Read_error string
  | Decode_error string
  | Encode_error string
  | Write_error string
  | Remove_error string
  | Nil_map_panic

type_synonym 'a store_outcome = "(store_error + 'a) \<times> files"

definition default_base_dir :: "string option \<Rightarrow> string" where
  "default_base_dir home = (case home of
     Some h \<Rightarrow> if trim_space h = [] then ''.mobilevc/sessions'' else join_path (join_path h ''.mobilevc'') ''sessions''
   | None \<Rightarrow> ''.mobilevc/sessions'')"

definition store_at :: "string \<Rightarrow> file_store" where
  "store_at base = \<lparr>fs_base = base, fs_index = join_path base ''index.json'', fs_skills = join_path base ''skills.catalog.json'',
     fs_memories = join_path base ''memory.catalog.json'', fs_rules = join_path base ''permissions.rules.json'',
     fs_tokens = join_path base ''push_tokens.json''\<rparr>"

definition new_file_store :: "string option \<Rightarrow> (string \<Rightarrow> bool) \<Rightarrow> string \<Rightarrow> store_error + file_store" where
  "new_file_store home made base =
     (let base = (if trim_space base = [] then default_base_dir home else base) in
      if made base then Inr (store_at base) else Inl (No_directory base))"

definition session_path :: "file_store \<Rightarrow> string \<Rightarrow> string" where
  "session_path s i = join_path (fs_base s) (i @ ''.json'')"

section \<open>Files\<close>

text \<open>An absent or empty file reads as the zero value.\<close>

definition read_json :: "(string \<Rightarrow> 'a option) \<Rightarrow> 'a \<Rightarrow> string \<Rightarrow> files \<Rightarrow> store_error + 'a" where
  "read_json get zero p d = (case d p of
     Missing \<Rightarrow> Inr zero
   | Unreadable \<Rightarrow> Inl (Read_error p)
   | Content t \<Rightarrow> (if t = [] then Inr zero else case get t of None \<Rightarrow> Inl (Decode_error p) | Some v \<Rightarrow> Inr v))"

definition write_json :: "surroundings \<Rightarrow> string option \<Rightarrow> string \<Rightarrow> files \<Rightarrow> store_error option \<times> files" where
  "write_json u t p d = (case t of
     None \<Rightarrow> (Some (Encode_error p), d)
   | Some t \<Rightarrow> (case su_torn u p of None \<Rightarrow> (None, d(p := Content t)) | Some f \<Rightarrow> (Some (Write_error p), d(p := f))))"

definition read_index :: "codec \<Rightarrow> file_store \<Rightarrow> files \<Rightarrow> store_error + session_summary list" where
  "read_index c s d = read_json (co_get_index c) [] (fs_index s) d"

definition write_index :: "surroundings \<Rightarrow> codec \<Rightarrow> file_store \<Rightarrow> session_summary list \<Rightarrow> files \<Rightarrow> store_error option \<times> files" where
  "write_index u c s ys d = write_json u (co_put_index c ys) (fs_index s) d"

definition normal :: "surroundings \<Rightarrow> session_record \<Rightarrow> session_record" where
  "normal u r = store_record (su_mix_rules u) (su_clock u) (su_now u) r"

definition read_session :: "surroundings \<Rightarrow> codec \<Rightarrow> file_store \<Rightarrow> string \<Rightarrow> files \<Rightarrow> store_error + session_record" where
  "read_session u c s i d = (case d (session_path s i) of
     Missing \<Rightarrow> Inl (No_session i)
   | Unreadable \<Rightarrow> Inl (Read_error (session_path s i))
   | Content t \<Rightarrow> (case co_get_record c t of None \<Rightarrow> Inl (Decode_error (session_path s i)) | Some r \<Rightarrow> Inr (normal u r)))"

definition write_session :: "surroundings \<Rightarrow> codec \<Rightarrow> file_store \<Rightarrow> session_record \<Rightarrow> files \<Rightarrow> store_error option \<times> files" where
  "write_session u c s r d = write_json u (co_put_record c (normal u r)) (session_path s (sy_id (rec_summary (normal u r)))) d"

text \<open>The writes one after the other, until one fails.\<close>

fun writes :: "(files \<Rightarrow> store_error option \<times> files) list \<Rightarrow> 'a \<Rightarrow> files \<Rightarrow> 'a store_outcome" where
  "writes [] v d = (Inr v, d)"
| "writes (w # ws) v d = (case w d of (Some e, d') \<Rightarrow> (Inl e, d') | (None, d') \<Rightarrow> writes ws v d')"

section \<open>Sessions\<close>

definition filter_out :: "string \<Rightarrow> session_summary list \<Rightarrow> session_summary list" where
  "filter_out i ys = filter (\<lambda>y. sy_id y \<noteq> i) ys"

definition newest_first :: "surroundings \<Rightarrow> session_summary list \<Rightarrow> session_summary list" where
  "newest_first u ys = sort_key (\<lambda>y. - sy_updated_at y) (su_mix_sessions u ys)"

text \<open>A time counts from the year 1, \<open>UnixNano\<close> from the year 1970 in 64 bits.\<close>

definition unix_nano :: "time \<Rightarrow> int" where
  "unix_nano now = wrap64 (now - 62135596800 * second)"

definition new_session_id :: "time \<Rightarrow> string" where
  "new_session_id now = ''session-'' @ (if unix_nano now < 0 then [CHR ''-''] else []) @ digits (nat \<bar>unix_nano now\<bar>)"

definition create_session :: "surroundings \<Rightarrow> codec \<Rightarrow> file_store \<Rightarrow> string \<Rightarrow> files \<Rightarrow> session_summary store_outcome" where
  "create_session u c s title d =
     (if su_cancelled u then (Inl Cancelled, d)
      else
        (let now = su_now u;
             y = \<lparr>sy_id = new_session_id now, sy_title = fallback_title (su_clock u) title now, sy_created_at = now, sy_updated_at = now,
               sy_last_preview = [], sy_entry_count = 0, sy_runtime = empty_runtime\<lparr>rt_source := source_mobilevc\<rparr>,
               sy_source = source_mobilevc, sy_external = False, sy_ownership = source_mobilevc, sy_execution_active = False,
               sy_claude_uuid = su_uuid u, sy_jsonl_count = 0\<rparr>;
             r = \<lparr>rec_summary = y, rec_projection = store_projection (su_mix_rules u) empty_projection\<rparr> in
         case read_index c s d of
           Inl e \<Rightarrow> (Inl e, d)
         | Inr ys \<Rightarrow> writes [write_session u c s r, write_index u c s (y # filter_out (sy_id y) ys)] y d))"

text \<open>\<open>UpsertSession\<close>: the record before the old one is looked at, with what is taken from the old one.\<close>

definition dated :: "surroundings \<Rightarrow> session_record \<Rightarrow> session_record" where
  "dated u r =
     (let y = rec_summary r; y = (if sy_created_at y = 0 then y\<lparr>sy_created_at := su_now u\<rparr> else y);
          y = (if sy_updated_at y = 0 then y\<lparr>sy_updated_at := sy_created_at y\<rparr> else y) in r\<lparr>rec_summary := y\<rparr>)"

definition inherit_summary :: "session_summary \<Rightarrow> session_summary \<Rightarrow> session_summary" where
  "inherit_summary old y = y\<lparr>
     sy_title := (if sy_title y = [] then sy_title old else sy_title y),
     sy_last_preview := (if sy_last_preview y = [] then sy_last_preview old else sy_last_preview y),
     sy_created_at := (if sy_created_at y = 0 then sy_created_at old else sy_created_at y),
     sy_claude_uuid := (if sy_claude_uuid y = [] then sy_claude_uuid old else sy_claude_uuid y)\<rparr>"

definition upsert_record :: "surroundings \<Rightarrow> codec \<Rightarrow> file_store \<Rightarrow> session_record \<Rightarrow> files \<Rightarrow> session_record" where
  "upsert_record u c s r d =
     (let r = dated u (normal u r);
          r = (case read_session u c s (sy_id (rec_summary r)) d of
            Inr old \<Rightarrow> r\<lparr>rec_summary := inherit_summary (rec_summary old) (rec_summary r)\<rparr> | Inl _ \<Rightarrow> r) in
      r\<lparr>rec_summary := derive_summary (su_clock u) (su_now u) (rec_summary r) (rec_projection r)\<rparr>)"

definition put_summary :: "session_summary \<Rightarrow> session_summary list \<Rightarrow> session_summary list" where
  "put_summary y ys = upsert_first (\<lambda>x. sy_id x = sy_id y) (\<lambda>_. y) y ys"

definition upsert_session :: "surroundings \<Rightarrow> codec \<Rightarrow> file_store \<Rightarrow> session_record \<Rightarrow> files \<Rightarrow> session_summary store_outcome" where
  "upsert_session u c s r d =
     (if su_cancelled u then (Inl Cancelled, d)
      else if trim_space (sy_id (rec_summary r)) = [] then (Inl Id_required, d)
      else
        (case read_index c s d of
           Inl e \<Rightarrow> (Inl e, d)
         | Inr ys \<Rightarrow>
             (let r = upsert_record u c s r d; y = rec_summary r in
              writes [write_session u c s r, write_index u c s (newest_first u (put_summary y ys))] y d)))"

definition with_context :: "projection \<Rightarrow> projection \<Rightarrow> projection" where
  "with_context old p =
     (let x = pj_context p;
          set = (pj_context_set p \<or> cn_configured x \<or> cn_skill_names x \<noteq> [] \<or> cn_memory_ids x \<noteq> []) in
      if set then p\<lparr>pj_context_set := True\<rparr>
      else p\<lparr>pj_context := pj_context old, pj_context_set := cn_configured (pj_context old)\<rparr>)"

definition save_projection ::
  "surroundings \<Rightarrow> codec \<Rightarrow> file_store \<Rightarrow> string \<Rightarrow> projection \<Rightarrow> files \<Rightarrow> session_summary store_outcome" where
  "save_projection u c s i p d =
     (if su_cancelled u then (Inl Cancelled, d)
      else
        (case read_session u c s i d of
           Inl e \<Rightarrow> (Inl e, d)
         | Inr r \<Rightarrow>
             (let r = normal u (r\<lparr>rec_projection := store_projection (su_mix_rules u) (with_context (rec_projection r) p)\<rparr>);
                  y = (rec_summary r)\<lparr>sy_updated_at := su_now u\<rparr>; r = r\<lparr>rec_summary := y\<rparr> in
              case write_session u c s r d of
                (Some e, d') \<Rightarrow> (Inl e, d')
              | (None, d') \<Rightarrow>
                  (case read_index c s d' of
                     Inl e \<Rightarrow> (Inl e, d')
                   | Inr ys \<Rightarrow> writes [write_index u c s (newest_first u (upsert_first (\<lambda>x. sy_id x = i) (\<lambda>_. y) y ys))] y d'))))"

definition get_session :: "surroundings \<Rightarrow> codec \<Rightarrow> file_store \<Rightarrow> string \<Rightarrow> files \<Rightarrow> store_error + session_record" where
  "get_session u c s i d = (if su_cancelled u then Inl Cancelled else read_session u c s i d)"

text \<open>The summary an entry of the index stands for and whether its session is still untouched.\<close>

definition reconciled :: "surroundings \<Rightarrow> codec \<Rightarrow> file_store \<Rightarrow> files \<Rightarrow> session_summary \<Rightarrow> session_summary" where
  "reconciled u c s d y = (case read_session u c s (sy_id y) d of Inl _ \<Rightarrow> y | Inr r \<Rightarrow> rec_summary r)"

definition untouched_ids :: "surroundings \<Rightarrow> codec \<Rightarrow> file_store \<Rightarrow> files \<Rightarrow> session_summary list \<Rightarrow> string set" where
  "untouched_ids u c s d ys =
     set (List.map_filter (\<lambda>y. case read_session u c s (sy_id y) d of
       Inl _ \<Rightarrow> None | Inr r \<Rightarrow> if is_untouched r then Some (sy_id (rec_summary r)) else None) ys)"

definition reconcile_index ::
  "surroundings \<Rightarrow> codec \<Rightarrow> file_store \<Rightarrow> session_summary list \<Rightarrow> files \<Rightarrow> session_summary list store_outcome" where
  "reconcile_index u c s ys d =
     (let zs = map (reconciled u c s d) ys; visible = select_visible (untouched_ids u c s d ys) zs in
      if ys = zs \<and> ys = visible then (Inr ys, d) else writes [write_index u c s visible] visible d)"

definition list_sessions :: "surroundings \<Rightarrow> codec \<Rightarrow> file_store \<Rightarrow> files \<Rightarrow> session_summary list store_outcome" where
  "list_sessions u c s d =
     (if su_cancelled u then (Inl Cancelled, d)
      else
        (case read_index c s d of
           Inl e \<Rightarrow> (Inl e, d)
         | Inr ys \<Rightarrow> (case reconcile_index u c s ys d of
             (Inl e, d') \<Rightarrow> (Inl e, d') | (Inr zs, d') \<Rightarrow> (Inr (newest_first u zs), d'))))"

definition delete_session :: "surroundings \<Rightarrow> codec \<Rightarrow> file_store \<Rightarrow> string \<Rightarrow> files \<Rightarrow> unit store_outcome" where
  "delete_session u c s i d =
     (if su_cancelled u then (Inl Cancelled, d)
      else
        (case read_session u c s i d of
           Inl e \<Rightarrow> (Inl e, d)
         | Inr _ \<Rightarrow>
             (if su_stuck u (session_path s i) then (Inl (Remove_error (session_path s i)), d)
              else
                (let d = d(session_path s i := Missing) in
                 case read_index c s d of
                   Inl e \<Rightarrow> (Inl e, d)
                 | Inr ys \<Rightarrow> writes [write_index u c s (filter_out i ys)] () d))))"

section \<open>Catalogues, rules and tokens\<close>

definition empty_skills :: skill_catalog where
  "empty_skills = \<lparr>sg_meta = empty_catalog_metadata, sg_items = []\<rparr>"

definition empty_memories :: memory_catalog where
  "empty_memories = \<lparr>mg_meta = empty_catalog_metadata, mg_items = []\<rparr>"

text \<open>A file that holds no snapshot may hold the bare list of an older version.\<close>

definition read_skills :: "codec \<Rightarrow> file_store \<Rightarrow> files \<Rightarrow> store_error + skill_catalog" where
  "read_skills c s d =
     (case read_json (\<lambda>t. case co_get_skills c t of
          Some g \<Rightarrow> Some g
        | None \<Rightarrow> map_option (\<lambda>items. empty_skills\<lparr>sg_items := items\<rparr>) (co_get_skill_items c t)) empty_skills (fs_skills s) d of
      Inl e \<Rightarrow> Inl e | Inr g \<Rightarrow> Inr (normalize_skill_catalog g))"

definition get_skills :: "surroundings \<Rightarrow> codec \<Rightarrow> file_store \<Rightarrow> files \<Rightarrow> store_error + skill_catalog" where
  "get_skills u c s d = (if su_cancelled u then Inl Cancelled else read_skills c s d)"

definition save_skills :: "surroundings \<Rightarrow> codec \<Rightarrow> file_store \<Rightarrow> skill_catalog \<Rightarrow> files \<Rightarrow> unit store_outcome" where
  "save_skills u c s g d =
     (if su_cancelled u then (Inl Cancelled, d)
      else writes [write_json u (co_put_skills c (normalize_skill_catalog g)) (fs_skills s)] () d)"

definition list_skills :: "surroundings \<Rightarrow> codec \<Rightarrow> file_store \<Rightarrow> files \<Rightarrow> store_error + skill_definition list" where
  "list_skills u c s d = (case get_skills u c s d of Inl e \<Rightarrow> Inl e | Inr g \<Rightarrow> Inr (sg_items g))"

definition save_skill_items :: "surroundings \<Rightarrow> codec \<Rightarrow> file_store \<Rightarrow> skill_definition list \<Rightarrow> files \<Rightarrow> unit store_outcome" where
  "save_skill_items u c s items d =
     (case get_skills u c s d of
        Inl e \<Rightarrow> (Inl e, d)
      | Inr g \<Rightarrow> (let m = sg_meta g in
          save_skills u c s \<lparr>sg_meta = m\<lparr>cm_domain := (if cm_domain m = [] then domain_skill else cm_domain m)\<rparr>, sg_items = items\<rparr> d))"

definition get_memories :: "surroundings \<Rightarrow> codec \<Rightarrow> file_store \<Rightarrow> files \<Rightarrow> store_error + memory_catalog" where
  "get_memories u c s d =
     (if su_cancelled u then Inl Cancelled
      else (case read_json (co_get_memories c) empty_memories (fs_memories s) d of
        Inl e \<Rightarrow> Inl e | Inr g \<Rightarrow> Inr (normalize_memory_catalog (su_mix_memories u) g)))"

definition save_memories :: "surroundings \<Rightarrow> codec \<Rightarrow> file_store \<Rightarrow> memory_catalog \<Rightarrow> files \<Rightarrow> unit store_outcome" where
  "save_memories u c s g d =
     (if su_cancelled u then (Inl Cancelled, d)
      else writes [write_json u (co_put_memories c (normalize_memory_catalog (su_mix_memories u) g)) (fs_memories s)] () d)"

definition list_memories :: "surroundings \<Rightarrow> codec \<Rightarrow> file_store \<Rightarrow> files \<Rightarrow> store_error + memory_item list" where
  "list_memories u c s d = (case get_memories u c s d of Inl e \<Rightarrow> Inl e | Inr g \<Rightarrow> Inr (mg_items g))"

definition save_memory_items :: "surroundings \<Rightarrow> codec \<Rightarrow> file_store \<Rightarrow> memory_item list \<Rightarrow> files \<Rightarrow> unit store_outcome" where
  "save_memory_items u c s items d =
     (case get_memories u c s d of
        Inl e \<Rightarrow> (Inl e, d)
      | Inr g \<Rightarrow> (let m = mg_meta g in
          save_memories u c s \<lparr>mg_meta = m\<lparr>cm_domain := (if cm_domain m = [] then domain_memory else cm_domain m)\<rparr>, mg_items = items\<rparr> d))"

definition get_rules :: "surroundings \<Rightarrow> codec \<Rightarrow> file_store \<Rightarrow> files \<Rightarrow> store_error + permission_rule_snapshot" where
  "get_rules u c s d =
     (if su_cancelled u then Inl Cancelled
      else (case read_json (co_get_rules c) \<lparr>ps_enabled = False, ps_items = []\<rparr> (fs_rules s) d of
        Inl e \<Rightarrow> Inl e | Inr g \<Rightarrow> Inr (normalize_rule_snapshot (su_mix_rules u) g)))"

definition save_rules :: "surroundings \<Rightarrow> codec \<Rightarrow> file_store \<Rightarrow> permission_rule_snapshot \<Rightarrow> files \<Rightarrow> unit store_outcome" where
  "save_rules u c s g d =
     (if su_cancelled u then (Inl Cancelled, d)
      else writes [write_json u (co_put_rules c (normalize_rule_snapshot (su_mix_rules u) g)) (fs_rules s)] () d)"

text \<open>The push tokens: no context is looked at; a file that cannot be read counts as empty, what fails to decode is kept.\<close>

definition save_push_token :: "surroundings \<Rightarrow> codec \<Rightarrow> file_store \<Rightarrow> string \<Rightarrow> string \<Rightarrow> string \<Rightarrow> files \<Rightarrow> unit store_outcome" where
  "save_push_token u c s i token platform d =
     (case (case d (fs_tokens s) of Content t \<Rightarrow> fst (co_get_tokens c t) | _ \<Rightarrow> Some Map.empty) of
        None \<Rightarrow> (Inl Nil_map_panic, d)
      | Some m \<Rightarrow>
          (let info = (case m i of None \<Rightarrow> Map.empty | Some x \<Rightarrow> x)(''token'' \<mapsto> token, ''platform'' \<mapsto> platform) in
           writes [write_json u (co_put_tokens c (m(i \<mapsto> info))) (fs_tokens s)] () d))"

definition get_push_token :: "codec \<Rightarrow> file_store \<Rightarrow> string \<Rightarrow> files \<Rightarrow> store_error + string \<times> string" where
  "get_push_token c s i d =
     (case d (fs_tokens s) of
        Missing \<Rightarrow> Inr ([], [])
      | Unreadable \<Rightarrow> Inl (Read_error (fs_tokens s))
      | Content t \<Rightarrow>
          (case co_get_tokens c t of
             (_, False) \<Rightarrow> Inl (Decode_error (fs_tokens s))
           | (m, True) \<Rightarrow>
               (let get = (\<lambda>x k. case x k of None \<Rightarrow> [] | Some v \<Rightarrow> v);
                    info = (case m of None \<Rightarrow> Map.empty | Some m \<Rightarrow> case m i of None \<Rightarrow> Map.empty | Some x \<Rightarrow> x) in
                Inr (get info ''token'', get info ''platform''))))"

section \<open>Lemmas\<close>

lemma read_json_content [simp]: "t \<noteq> [] \<Longrightarrow> read_json get zero p (d(p := Content t)) = (case get t of None \<Rightarrow> Inl (Decode_error p) | Some v \<Rightarrow> Inr v)"
  by (simp add: read_json_def)

lemma write_json_none: "write_json u t p d = (None, d') \<Longrightarrow> \<exists>x. t = Some x \<and> d' = d(p := Content x)"
  by (auto simp: write_json_def split: option.splits)

lemma write_json_elsewhere: "write_json u t p d = (e, d') \<Longrightarrow> q \<noteq> p \<Longrightarrow> d' q = d q"
  by (auto simp: write_json_def split: option.splits)

lemma writes_Inr: "writes ws v d = (Inr v', d') \<Longrightarrow> v' = v"
  by (induction ws v d rule: writes.induct) (auto split: prod.splits option.splits)

lemma writes_two:
  assumes "writes [w, w'] v d = (Inr v', d')"
  obtains d1 where "w d = (None, d1)" and "w' d1 = (None, d')" and "v' = v"
  using assms by (auto split: prod.splits option.splits)

lemma writes_one:
  assumes "writes [w] v d = (Inr v', d')"
  obtains "w d = (None, d')" and "v' = v"
  using assms by (auto split: prod.splits option.splits)

text \<open>What a codec gives back of a record or an index.\<close>

definition reads_record :: "codec \<Rightarrow> session_record \<Rightarrow> bool" where
  "reads_record c r \<longleftrightarrow> (case co_put_record c r of None \<Rightarrow> False | Some t \<Rightarrow> co_get_record c t = Some r)"

definition reads_index :: "codec \<Rightarrow> session_summary list \<Rightarrow> bool" where
  "reads_index c ys \<longleftrightarrow> (case co_put_index c ys of None \<Rightarrow> False | Some t \<Rightarrow> t \<noteq> [] \<and> co_get_index c t = Some ys)"

lemma write_index_reads: "write_index u c s ys d = (None, d') \<Longrightarrow> reads_index c ys \<Longrightarrow> read_index c s d' = Inr ys"
  by (auto simp: write_index_def read_index_def reads_index_def dest!: write_json_none split: option.splits)

lemma write_index_elsewhere: "write_index u c s ys d = (e, d') \<Longrightarrow> q \<noteq> fs_index s \<Longrightarrow> d' q = d q"
  unfolding write_index_def by (rule write_json_elsewhere)

lemma normal_id [simp]: "sy_id (rec_summary (normal u r)) = sy_id (rec_summary r)"
  by (simp add: normal_def store_record_def derive_summary_def settle_summary_def Let_def)

lemma read_session_path: "d (session_path s i) = d' (session_path s i) \<Longrightarrow> read_session u c s i d = read_session u c s i d'"
  by (simp add: read_session_def)

lemma write_session_reads:
  assumes "write_session u c s r d = (None, d')" and "reads_record c (normal u r)" and "i = sy_id (rec_summary r)"
  shows "read_session u' c s i d' = Inr (normal u' (normal u r))"
  using assms by (auto simp: write_session_def read_session_def reads_record_def dest!: write_json_none split: option.splits)

lemma write_session_elsewhere: "write_session u c s r d = (e, d') \<Longrightarrow> q \<noteq> session_path s (sy_id (rec_summary r)) \<Longrightarrow> d' q = d q"
  unfolding write_session_def by (rule write_json_elsewhere) simp_all

lemma filter_out_put: "filter_out (sy_id y) (put_summary y ys) = filter_out (sy_id y) ys"
  unfolding put_summary_def filter_out_def by (induction ys) auto

lemma put_summary_mem: "y \<in> set (put_summary y ys)"
  unfolding put_summary_def by (induction ys) auto

lemma put_summary_ids: "distinct (map sy_id ys) \<Longrightarrow> distinct (map sy_id (put_summary y ys)) \<and> sy_id ` set (put_summary y ys) = insert (sy_id y) (sy_id ` set ys)"
  unfolding put_summary_def by (induction ys) (auto simp: image_iff)

lemma newest_first_mset: "mset (su_mix_sessions u ys) = mset ys \<Longrightarrow> mset (newest_first u ys) = mset ys"
  by (simp add: newest_first_def)

lemma newest_first_sorted: "sorted (map (\<lambda>y. - sy_updated_at y) (newest_first u ys))"
  by (simp add: newest_first_def)

lemma upsert_record_id [simp]: "sy_id (rec_summary (upsert_record u c s r d)) = sy_id (rec_summary r)"
  by (simp add: upsert_record_def dated_def inherit_summary_def derive_summary_def Let_def split: sum.splits)

section \<open>Properties\<close>


text \<open>
  A session that is deleted is gone: reading it says so, the index no longer names it, and no other file is touched.
\<close>

theorem deleted_session_is_gone:
  assumes "delete_session u c s i d = (Inr (), d')" and "\<not> su_cancelled u'" and "session_path s i \<noteq> fs_index s"
    and "read_index c s d = Inr ys" and "reads_index c (filter_out i ys)"
  shows "get_session u' c s i d' = Inl (No_session i) \<and> read_index c s d' = Inr (filter_out i ys) \<and>
    (if q \<in> {session_path s i, fs_index s} then True else d' q = d q)"
proof -
  let ?d = "d(session_path s i := Missing)"
  have "read_index c s ?d = Inr ys"
    using assms(3,4) by (simp add: read_index_def read_json_def)
  then have "writes [write_index u c s (filter_out i ys)] () ?d = (Inr (), d')"
    using assms(1) by (auto simp: delete_session_def Let_def split: if_splits sum.splits)
  then have index: "write_index u c s (filter_out i ys) ?d = (None, d')"
    by (rule writes_one)
  then show ?thesis
    using assms(2,3) write_index_elsewhere [OF index] write_index_reads [OF index assms(5)]
    by (simp add: get_session_def read_session_def)
qed

text \<open>
  C33: No identifier is refused, and the files of the store stand beside those of the sessions: who asks to delete the session
  named index empties the list of all sessions, whatever they are, when the index decodes as a record, which it does for
  a decoder that skips unknown members.
\<close>

theorem deleting_index_empties_the_list:
  assumes "\<not> su_cancelled u" and "\<not> su_stuck u (fs_index (store_at b))" and "su_torn u (fs_index (store_at b)) = None"
    and "d (fs_index (store_at b)) = Content t" and "co_get_record c t = Some r" and "reads_index c []"
  shows "(case delete_session u c (store_at b) ''index'' d of (e, d') \<Rightarrow>
    e = Inr () \<and> read_index c (store_at b) d' = Inr [])"
proof -
  let ?s = "store_at b" and ?d = "d(fs_index (store_at b) := Missing)"
  have path: "session_path ?s ''index'' = fs_index ?s"
    by (simp add: session_path_def store_at_def)
  obtain x where x: "co_put_index c [] = Some x"
    using assms(6) by (auto simp: reads_index_def split: option.splits)
  have "read_index c ?s ?d = Inr []"
    by (simp add: read_index_def read_json_def)
  moreover have index: "write_index u c ?s [] ?d = (None, ?d(fs_index ?s := Content x))"
    using assms(3) x by (simp add: write_index_def write_json_def)
  ultimately have "delete_session u c ?s ''index'' d = (Inr (), ?d(fs_index ?s := Content x))"
    using assms(1,2,4,5) by (simp add: delete_session_def read_session_def path filter_out_def)
  then show ?thesis
    using write_index_reads [OF index assms(6)] by simp
qed

lemma foldl_newer_mem: "foldl newer y ys \<in> insert y (set ys)"
  by (induction ys arbitrary: y) (auto simp: newer_def)

lemma select_visible_sub: "z \<in> set (select_visible un zs) \<Longrightarrow> z \<in> set zs"
  using foldl_newer_mem [of "hd zs" "tl zs"]
  by (cases zs) (auto simp: select_visible_def Let_def split: if_splits)

lemma select_visible_some: "zs \<noteq> [] \<Longrightarrow> select_visible un zs \<noteq> []"
  by (auto simp: select_visible_def Let_def)

lemma select_visible_touched:
  "z \<in> set zs \<Longrightarrow> sy_id z \<notin> un \<Longrightarrow> select_visible un zs = filter (\<lambda>y. sy_id y \<notin> un) zs"
  by (auto simp: select_visible_def Let_def filter_empty_conv)

lemma select_visible_single: "\<forall>z\<in>set zs. sy_id z \<in> un \<Longrightarrow> length (select_visible un zs) \<le> 1"
  by (auto simp: select_visible_def Let_def filter_empty_conv)

lemma reconcile_index_Inr:
  assumes "reconcile_index u c s ys d = (Inr zs, d')"
  shows "zs = select_visible (untouched_ids u c s d ys) (map (reconciled u c s d) ys)"
proof (cases "ys = map (reconciled u c s d) ys \<and> ys = select_visible (untouched_ids u c s d ys) (map (reconciled u c s d) ys)")
  case True
  then have "reconcile_index u c s ys d = (Inr ys, d)"
    unfolding reconcile_index_def Let_def by (rule if_P)
  with assms have "zs = ys"
    by simp
  with True show ?thesis
    by blast
next
  case False
  then show ?thesis
    using assms unfolding reconcile_index_def Let_def by (simp only: if_False) (rule writes_Inr)
qed

text \<open>
  C16: The list shows the sessions that matter: with a session that was used in the index it is exactly those, each with the
  summary of its own file, newest first; with none it is one placeholder; it is empty only if the index is.
\<close>

theorem listed_sessions:
  assumes "read_index c s d = Inr ys" and "list_sessions u c s d = (Inr zs, d')"
    and "\<And>xs. mset (su_mix_sessions u xs) = mset xs"
  shows "sorted (map (\<lambda>z. - sy_updated_at z) zs) \<and> (zs = [] \<longleftrightarrow> ys = []) \<and>
    (let un = untouched_ids u c s d ys; touched = filter (\<lambda>y. sy_id y \<notin> un) (map (reconciled u c s d) ys) in
     if touched \<noteq> [] then mset zs = mset touched
     else length zs \<le> 1 \<and> set zs \<subseteq> reconciled u c s d ` set ys)"
proof -
  let ?un = "untouched_ids u c s d ys" and ?rs = "map (reconciled u c s d) ys"
  let ?vs = "select_visible ?un ?rs"
  have zs: "zs = newest_first u ?vs"
    using assms(1,2) by (auto simp: list_sessions_def split: if_splits prod.splits sum.splits dest!: reconcile_index_Inr)
  have perm: "mset zs = mset ?vs"
    unfolding zs by (rule newest_first_mset [OF assms(3)])
  then have same: "set zs = set ?vs" "length zs = length ?vs" "zs = [] \<longleftrightarrow> ?vs = []"
    by (auto dest: mset_eq_setD mset_eq_length)
  have empty: "?vs = [] \<longleftrightarrow> ys = []"
    using select_visible_some [of ?rs ?un] by (cases "ys = []") (simp_all add: select_visible_def Let_def)
  have sub: "set zs \<subseteq> reconciled u c s d ` set ys"
    using select_visible_sub [of _ ?un ?rs] unfolding same by auto
  show ?thesis
  proof (cases "filter (\<lambda>y. sy_id y \<notin> ?un) ?rs = []")
    case True
    then have "length ?vs \<le> 1"
      by (intro select_visible_single) (simp add: filter_empty_conv)
    then show ?thesis
      using True zs newest_first_sorted same empty sub by (simp add: Let_def)
  next
    case False
    then obtain z where "z \<in> set ?rs" "sy_id z \<notin> ?un"
      by (auto simp: filter_empty_conv)
    then have "?vs = filter (\<lambda>y. sy_id y \<notin> ?un) ?rs"
      by (rule select_visible_touched)
    then show ?thesis
      using False perm zs newest_first_sorted same(3) empty by (simp add: Let_def)
  qed
qed

lemma truncate_preview_named: "t \<noteq> [] \<Longrightarrow> truncate_preview t \<noteq> []"
  by (simp add: truncate_preview_def txt_ellipsis_def)

lemma if_named: "(b \<Longrightarrow> x \<noteq> []) \<Longrightarrow> (\<not> b \<Longrightarrow> y \<noteq> []) \<Longrightarrow> (if b then x else y) \<noteq> []"
  by simp

lemma build_title_named:
  assumes "clock (if created = 0 then now else created) \<noteq> []"
  shows "build_summary_title clock now current p created \<noteq> []"
proof -
  have "fallback_title clock [] (if created \<noteq> 0 then created else now) \<noteq> []"
    using assms by (simp add: fallback_title_def split: if_splits)
  then show ?thesis
    unfolding build_summary_title_def Let_def
    by (intro if_named truncate_preview_named) (assumption | simp only: meaningful_title_def meaningful_text_def simp_thms not_False_eq_True)+
qed

text \<open>
  C34: What \<open>UpsertSession\<close> takes over from the record it replaces is the UUID alone: a title, a preview or a time of creation
  that the new record leaves out is not restored, since it has been filled in before the old record is looked at.
\<close>

theorem upsert_takes_over_only_the_uuid:
  assumes "su_clock u (if sy_created_at (rec_summary r) = 0 then su_now u else sy_created_at (rec_summary r)) \<noteq> []" and "su_now u \<noteq> 0"
  shows "upsert_record u c s r d =
    (let x = dated u (normal u r); y = rec_summary x;
         uuid = (if sy_claude_uuid y \<noteq> [] then sy_claude_uuid y
           else case read_session u c s (sy_id (rec_summary r)) d of Inl _ \<Rightarrow> [] | Inr old \<Rightarrow> sy_claude_uuid (rec_summary old)) in
     x\<lparr>rec_summary := derive_summary (su_clock u) (su_now u) (y\<lparr>sy_claude_uuid := uuid\<rparr>) (rec_projection x)\<rparr>)"
proof -
  let ?x = "dated u (normal u r)"
  have title: "sy_title (rec_summary ?x) \<noteq> []"
    using build_title_named assms by (auto simp: dated_def normal_def store_record_def derive_summary_def settle_summary_def Let_def)
  have created: "sy_created_at (rec_summary ?x) \<noteq> 0"
    using assms(2) by (simp add: dated_def Let_def)
  have "derive_summary k n (y\<lparr>sy_last_preview := a, sy_claude_uuid := b\<rparr>) p = derive_summary k n (y\<lparr>sy_claude_uuid := b\<rparr>) p" for k n y a b p
    by (simp add: derive_summary_def build_preview_def Let_def)
  then have taken: "derive_summary k n (inherit_summary old (rec_summary ?x)) p = derive_summary k n ((rec_summary ?x)\<lparr>sy_claude_uuid :=
      (if sy_claude_uuid (rec_summary ?x) = [] then sy_claude_uuid old else sy_claude_uuid (rec_summary ?x))\<rparr>) p" for k n old p
    using title created by (simp add: inherit_summary_def)
  have same: "y\<lparr>sy_claude_uuid := sy_claude_uuid y\<rparr> = y" "sy_claude_uuid y = [] \<Longrightarrow> y\<lparr>sy_claude_uuid := []\<rparr> = y" for y :: session_summary
    by (cases y; simp)+
  have i: "sy_id (rec_summary ?x) = sy_id (rec_summary r)"
    by (simp add: dated_def Let_def)
  show ?thesis
  proof (cases "read_session u c s (sy_id (rec_summary r)) d")
    case (Inl e)
    then show ?thesis
      by (simp add: upsert_record_def Let_def i same)
  next
    case (Inr old)
    then show ?thesis
      by (simp add: upsert_record_def Let_def i taken)
  qed
qed

text \<open>
  The catalogue of skills survives the disk: what is saved is read back in its normal form, which is read back as it is
  when it is saved again.
\<close>

theorem saved_skills_are_read:
  assumes "save_skills u c s g d = (Inr (), d')" and "\<not> su_cancelled u'"
    and "\<And>h t. co_put_skills c h = Some t \<Longrightarrow> t \<noteq> [] \<and> co_get_skills c t = Some h"
  shows "get_skills u' c s d' = Inr (normalize_skill_catalog g) \<and>
    normalize_skill_catalog (normalize_skill_catalog g) = normalize_skill_catalog g"
proof -
  have idem: "normalize_skill_catalog (normalize_skill_catalog g) = normalize_skill_catalog g"
    by (simp add: normalize_skill_catalog_def normalize_skill_items_idem domain_skill_def)
  have "writes [write_json u (co_put_skills c (normalize_skill_catalog g)) (fs_skills s)] () d = (Inr (), d')"
    using assms(1) by (simp add: save_skills_def split: if_splits)
  then have "write_json u (co_put_skills c (normalize_skill_catalog g)) (fs_skills s) d = (None, d')"
    by (rule writes_one)
  then obtain t where "co_put_skills c (normalize_skill_catalog g) = Some t" and "d' = d(fs_skills s := Content t)"
    using write_json_none by blast
  then show ?thesis
    using assms(2) assms(3) [of "normalize_skill_catalog g" t] idem by (simp add: get_skills_def read_skills_def)
qed

text \<open>The token that is saved for a session is the one its notifications are sent to; those of the other sessions stay.\<close>

theorem saved_token_is_read:
  assumes "save_push_token u c s i token platform d = (Inr (), d')"
    and "\<And>m t. co_put_tokens c m = Some t \<Longrightarrow> co_get_tokens c t = (Some m, True)"
  shows "get_push_token c s i d' = Inr (token, platform) \<and>
    (if j = i then True else case get_push_token c s j d of Inl _ \<Rightarrow> True | Inr x \<Rightarrow> get_push_token c s j d' = Inr x)"
proof -
  obtain m where m: "(case d (fs_tokens s) of Content t \<Rightarrow> fst (co_get_tokens c t) | _ \<Rightarrow> Some Map.empty) = Some m"
    using assms(1) unfolding save_push_token_def by (cases "case d (fs_tokens s) of Content t \<Rightarrow> fst (co_get_tokens c t) | _ \<Rightarrow> Some Map.empty") auto
  let ?info = "(case m i of None \<Rightarrow> Map.empty | Some x \<Rightarrow> x)(''token'' \<mapsto> token, ''platform'' \<mapsto> platform)"
  have "writes [write_json u (co_put_tokens c (m(i \<mapsto> ?info))) (fs_tokens s)] () d = (Inr (), d')"
    using assms(1) by (simp add: save_push_token_def m Let_def)
  then have "write_json u (co_put_tokens c (m(i \<mapsto> ?info))) (fs_tokens s) d = (None, d')"
    by (rule writes_one)
  then obtain t where t: "co_put_tokens c (m(i \<mapsto> ?info)) = Some t" and d': "d' = d(fs_tokens s := Content t)"
    using write_json_none by blast
  then show ?thesis
    using m assms(2) [OF t] by (auto simp: get_push_token_def Let_def split: file_read.splits prod.splits bool.splits)
qed

section \<open>Examples\<close>

definition demo_codec :: "session_record \<Rightarrow> session_summary list \<Rightarrow> codec" where
  "demo_codec r ys = \<lparr>co_put_record = (\<lambda>x. if x = r then Some ''r'' else None), co_get_record = (\<lambda>_. Some r),
     co_put_index = (\<lambda>x. if x = ys then Some ''i'' else Some ''[]''), co_get_index = (\<lambda>t. Some (if t = ''i'' then ys else [])),
     co_put_skills = (\<lambda>g. if g = normalize_skill_catalog empty_skills then Some ''s'' else None),
     co_get_skills = (\<lambda>_. Some (normalize_skill_catalog empty_skills)), co_get_skill_items = (\<lambda>_. None),
     co_put_memories = (\<lambda>_. None), co_get_memories = (\<lambda>_. None), co_put_rules = (\<lambda>_. None), co_get_rules = (\<lambda>_. None),
     co_put_tokens = (\<lambda>m. if m = [''session-1'' \<mapsto> [''token'' \<mapsto> ''t'', ''platform'' \<mapsto> ''ios'']] then Some ''p'' else None),
     co_get_tokens = (\<lambda>_. (Some [''session-1'' \<mapsto> [''token'' \<mapsto> ''t'', ''platform'' \<mapsto> ''ios'']], True))\<rparr>"

lemma demo_codec_simps [simp]:
  "co_put_record (demo_codec r ys) x = (if x = r then Some ''r'' else None)" "co_get_record (demo_codec r ys) t = Some r"
  "co_put_index (demo_codec r ys) zs = (if zs = ys then Some ''i'' else Some ''[]'')" "co_get_index (demo_codec r ys) t = Some (if t = ''i'' then ys else [])"
  "co_put_skills (demo_codec r ys) g = (if g = normalize_skill_catalog empty_skills then Some ''s'' else None)"
  "co_get_skills (demo_codec r ys) t = Some (normalize_skill_catalog empty_skills)"
  "co_put_tokens (demo_codec r ys) m = (if m = [''session-1'' \<mapsto> [''token'' \<mapsto> ''t'', ''platform'' \<mapsto> ''ios'']] then Some ''p'' else None)"
  "co_get_tokens (demo_codec r ys) t = (Some [''session-1'' \<mapsto> [''token'' \<mapsto> ''t'', ''platform'' \<mapsto> ''ios'']], True)"
  by (simp_all add: demo_codec_def)

definition demo_around :: surroundings where
  "demo_around = \<lparr>su_cancelled = False, su_now = 9, su_uuid = ''u'', su_clock = (\<lambda>_. ''2024-01-01 00:00''), su_mix_rules = (\<lambda>xs. xs),
     su_mix_memories = (\<lambda>xs. xs), su_mix_sessions = (\<lambda>xs. xs), su_torn = (\<lambda>_. None), su_stuck = (\<lambda>_. False)\<rparr>"

definition no_files :: files where "no_files = (\<lambda>_. Missing)"

definition demo_stored :: session_record where
  "demo_stored = upsert_record demo_around (demo_codec sample_session []) (store_at ''/d'') sample_session no_files"

lemma demo_paths: "session_path (store_at ''/d'') ''session-1'' \<noteq> fs_index (store_at ''/d'')" "trim_space ''session-1'' \<noteq> []"
  by code_simp+

lemma demo_id [simp]: "sy_id (rec_summary sample_session) = ''session-1''" "sy_id (rec_summary demo_stored) = ''session-1''"
  by (simp_all add: demo_stored_def) (simp_all add: sample_session_def)

lemma demo_around_simps [simp]:
  "su_cancelled demo_around = False" "su_torn demo_around = (\<lambda>_. None)" "su_mix_sessions demo_around = (\<lambda>xs. xs)" "su_stuck demo_around = (\<lambda>_. False)"
  "su_now demo_around = 9" "su_clock demo_around = (\<lambda>_. ''2024-01-01 00:00'')"
  by (simp_all add: demo_around_def)


lemma deleted_session_is_gone_witness:
  "get_session demo_around (demo_codec sample_session [rec_summary sample_session]) (store_at ''/d'') ''session-1''
     (snd (delete_session demo_around (demo_codec sample_session [rec_summary sample_session]) (store_at ''/d'') ''session-1''
       (no_files(session_path (store_at ''/d'') ''session-1'' := Content ''r'', fs_index (store_at ''/d'') := Content ''i'')))) =
   Inl (No_session ''session-1'')"
proof -
  let ?c = "demo_codec sample_session [rec_summary sample_session]" and ?s = "store_at ''/d''"
  let ?d = "no_files(session_path ?s ''session-1'' := Content ''r'', fs_index ?s := Content ''i'')"
  have index: "read_index ?c ?s ?d = Inr [rec_summary sample_session]"
    by (simp add: read_index_def read_json_def)
  have result: "delete_session demo_around ?c ?s ''session-1'' ?d = (Inr (), snd (delete_session demo_around ?c ?s ''session-1'' ?d))"
    using demo_paths(1)
    by (simp add: delete_session_def read_session_def read_index_def read_json_def write_index_def write_json_def Let_def filter_out_def)
  have reads: "reads_index ?c (filter_out ''session-1'' [rec_summary sample_session])"
    by (simp add: reads_index_def filter_out_def)
  show ?thesis
    using deleted_session_is_gone [OF result _ demo_paths(1) index reads, of demo_around] by simp
qed

lemma deleting_index_empties_the_list_witness:
  "fst (delete_session demo_around (demo_codec sample_session [rec_summary sample_session]) (store_at ''/d'') ''index''
     (no_files(fs_index (store_at ''/d'') := Content ''i''))) = Inr ()"
  using deleting_index_empties_the_list [of demo_around "''/d''" "no_files(fs_index (store_at ''/d'') := Content ''i'')" "''i''"
      "demo_codec sample_session [rec_summary sample_session]" sample_session]
  by (simp add: reads_index_def case_prod_beta)

lemma listed_sessions_witness:
  "fst (list_sessions demo_around (demo_codec sample_session [rec_summary sample_session]) (store_at ''/d'')
     (no_files(fs_index (store_at ''/d'') := Content ''i''))) = Inr [rec_summary sample_session]"
proof -
  let ?c = "demo_codec sample_session [rec_summary sample_session]" and ?s = "store_at ''/d''"
  let ?d = "no_files(fs_index ?s := Content ''i'')"
  have index: "read_index ?c ?s ?d = Inr [rec_summary sample_session]"
    by (simp add: read_index_def read_json_def)
  have absent: "read_session demo_around ?c ?s ''session-1'' ?d = Inl (No_session ''session-1'')"
    using demo_paths(1) by (simp add: read_session_def no_files_def)
  have none: "untouched_ids demo_around ?c ?s ?d [rec_summary sample_session] = {}" "reconciled demo_around ?c ?s ?d (rec_summary sample_session) = rec_summary sample_session"
    by (simp_all add: untouched_ids_def reconciled_def absent map_filter_def)
  obtain zs d' where list: "list_sessions demo_around ?c ?s ?d = (Inr zs, d')"
    by (simp add: list_sessions_def index reconcile_index_def none select_visible_def)
  have "mset zs = {#rec_summary sample_session#}"
    using listed_sessions [OF index list] none by (simp add: Let_def)
  then show ?thesis
    by (simp add: list)
qed

lemma upsert_takes_over_only_the_uuid_witness:
  "sy_claude_uuid (rec_summary demo_stored) = []"
proof -
  have "sy_claude_uuid (rec_summary (dated demo_around (normal demo_around sample_session))) = []"
    by (simp add: dated_def normal_def store_record_def derive_summary_def settle_summary_def sample_session_def Let_def)
  then show ?thesis
    using upsert_takes_over_only_the_uuid [of demo_around sample_session "demo_codec sample_session []" "store_at ''/d''" no_files]
    by (simp add: demo_stored_def read_session_def no_files_def Let_def derive_summary_def)
qed

lemma saved_skills_are_read_witness:
  "get_skills demo_around (demo_codec sample_session []) (store_at ''/d'')
     (snd (save_skills demo_around (demo_codec sample_session []) (store_at ''/d'') empty_skills no_files)) = Inr (normalize_skill_catalog empty_skills)"
proof -
  let ?c = "demo_codec sample_session []" and ?s = "store_at ''/d''"
  have result: "save_skills demo_around ?c ?s empty_skills no_files = (Inr (), snd (save_skills demo_around ?c ?s empty_skills no_files))"
    by (simp add: save_skills_def write_json_def)
  have law: "t \<noteq> [] \<and> co_get_skills ?c t = Some h" if "co_put_skills ?c h = Some t" for h t
    using that by (auto split: if_splits)
  show ?thesis
    using saved_skills_are_read [OF result _ law, of demo_around] by simp
qed

lemma saved_token_is_read_witness:
  "get_push_token (demo_codec sample_session []) (store_at ''/d'') ''session-1''
     (snd (save_push_token demo_around (demo_codec sample_session []) (store_at ''/d'') ''session-1'' ''t'' ''ios'' no_files)) = Inr (''t'', ''ios'')"
proof -
  let ?c = "demo_codec sample_session []" and ?s = "store_at ''/d''"
  have result: "save_push_token demo_around ?c ?s ''session-1'' ''t'' ''ios'' no_files = (Inr (), snd (save_push_token demo_around ?c ?s ''session-1'' ''t'' ''ios'' no_files))"
    by (simp add: save_push_token_def write_json_def no_files_def)
  have law: "co_get_tokens ?c t = (Some m, True)" if "co_put_tokens ?c m = Some t" for m t
    using that by (auto split: if_splits)
  show ?thesis
    using saved_token_is_read [OF result law] by blast
qed

end
