(* ===== verification/PermissionFlow.thy ===== *)
theory PermissionFlow
  imports Service Permissions Projector FileStore
begin

text \<open>
  What a decision on a permission sets in motion (\<open>gateway/permission_decision.go\<close>, \<open>kernel/permission.go\<close>), and the
  prompts that are answered by a rule without asking (\<open>maybeAutoApplyPermissionEvent\<close> of \<open>gateway/permission_rules.go\<close>):
  the plan, the service of the session and the store put together.
\<close>

section \<open>Decisions\<close>

datatype flow_error =
    Bad_decision decision_error
  | Service_failed go_error
  | Request_expired
  | Store_failed store_error

record flow =
  fl_error :: "flow_error option"
  fl_events :: "payload list"
  fl_writes :: "string list"
  fl_service :: service

definition flow_of :: "outcome \<Rightarrow> flow" where
  "flow_of o1 = \<lparr>fl_error = map_option Service_failed (oc_error o1), fl_events = oc_events o1, fl_writes = oc_writes o1, fl_service = oc_service o1\<rparr>"

text \<open>The error of a request that is no longer there.\<close>

definition expiring :: "flow \<Rightarrow> flow" where
  "expiring f = f\<lparr>fl_error := (case fl_error f of
     Some (Service_failed e) \<Rightarrow> Some (if ge_is e = Some NoPendingControl then Request_expired else Service_failed e)
   | e \<Rightarrow> e)\<rparr>"

definition with_mode :: "string \<Rightarrow> service \<Rightarrow> service" where
  "with_mode mode s = (if mode \<noteq> [] then service_update_permission_mode mode s else s)"

text \<open>A denial that the runner does not take is sent to it as input.\<close>

definition deny_then_input ::
  "time \<Rightarrow> go_error option \<Rightarrow> go_error option \<Rightarrow> decision_plan \<Rightarrow> service \<Rightarrow> flow" where
  "deny_then_input now w1 w2 plan s =
     (if m_permission_request_id (dp_meta plan) = [] then flow_of (send_input now (dp_prompt plan) (dp_meta plan) w2 s)
      else
        (let o1 = send_permission_decision now (dp_decision plan) (dp_meta plan) w1 s in
         case oc_error o1 of
           None \<Rightarrow> flow_of o1
         | Some e \<Rightarrow>
             (if ge_is e \<noteq> Some NoPendingControl \<and> ge_is e \<noteq> Some InputNotSupported then flow_of o1
              else flow_of (after o1 (send_input now (dp_prompt plan) (dp_meta plan) w2 (oc_service o1))))))"

text \<open>
  \<open>executePermissionDecision\<close>; \<open>w1\<close> and \<open>w2\<close> are what the runner answers to a permission response and to an input. The
  default branch of the source does what the first one does.
\<close>

definition execute_permission_decision ::
  "time \<Rightarrow> go_error option \<Rightarrow> go_error option \<Rightarrow> permission_request \<Rightarrow> projection \<Rightarrow> controller_snapshot \<Rightarrow> service \<Rightarrow> flow" where
  "execute_permission_decision now w1 w2 req p c s =
     (case build_permission_decision_plan req p c of
        Inl e \<Rightarrow> \<lparr>fl_error = Some (Bad_decision e), fl_events = [], fl_writes = [], fl_service = s\<rparr>
      | Inr plan \<Rightarrow>
          (let s = with_mode (m_permission_mode (dp_meta plan)) s in
           case dp_action plan of
             Direct \<Rightarrow> expiring (flow_of (send_permission_decision now (dp_decision plan) (dp_meta plan) w1 s))
           | DenyThenInput \<Rightarrow> deny_then_input now w1 w2 plan s
           | AutoThenDirect \<Rightarrow>
               expiring (flow_of (send_permission_decision now (dp_decision plan) (dp_meta plan) w1
                 (service_update_permission_mode ''auto'' s)))))"

text \<open>
  \<open>ExecutePermissionDecision\<close> of the kernel, for a connection that may have no service; none is the panic of a call on
  the missing service.
\<close>

definition kernel_permission_decision ::
  "time \<Rightarrow> go_error option \<Rightarrow> go_error option \<Rightarrow> permission_request \<Rightarrow> projection \<Rightarrow> controller_snapshot \<Rightarrow> service option \<Rightarrow>
   (flow_error option \<times> flow option) option" where
  "kernel_permission_decision now w1 w2 req p c svc =
     (case svc of
        Some s \<Rightarrow> (let f = execute_permission_decision now w1 w2 req p c s in Some (fl_error f, Some f))
      | None \<Rightarrow>
          (case build_permission_decision_plan req p c of
             Inl e \<Rightarrow> Some (Some (Bad_decision e), None)
           | Inr plan \<Rightarrow>
               (if dp_action plan = DenyThenInput \<and> m_permission_request_id (dp_meta plan) = [] then None
                else Some (Some (Service_failed (err NoActiveRunner)), None))))"

section \<open>Rules that answer\<close>

text \<open>The message and the metadata of an event that asks for a permission.\<close>

definition permission_event :: "payload \<Rightarrow> (string \<times> runtime_meta) option" where
  "permission_event ev = (case ev of
     EvPrompt e \<Rightarrow> if looks_like_permission_prompt e then Some (pr_message e, ev_meta e) else None
   | EvInteraction e \<Rightarrow> if looks_like_permission_interaction e then Some (ir_message e, ev_meta e) else None
   | _ \<Rightarrow> None)"

datatype auto_output =
    Auto_applied string string string string string
  | Rule_listing string "string + (bool \<times> bool \<times> wire_rule list \<times> wire_rule list)"

record auto_result =
  au_applied :: bool
  au_error :: "flow_error option"
  au_events :: "payload list"
  au_writes :: "string list"
  au_emits :: "auto_output list"
  au_service :: service
  au_files :: files

text \<open>
  What is asked of outside: \<open>fmt\<close> and \<open>shows\<close> write a time and an error, \<open>persist\<close> is what handing the events on does to
  the files.
\<close>

record auto_world =
  aw_now :: time
  aw_fmt :: "time \<Rightarrow> string"
  aw_shows :: "store_error \<Rightarrow> string"
  aw_persist :: "payload list \<Rightarrow> files \<Rightarrow> files"
  aw_response :: "go_error option"
  aw_input :: "go_error option"

definition stored_projection :: "surroundings \<Rightarrow> codec \<Rightarrow> file_store \<Rightarrow> string \<Rightarrow> files \<Rightarrow> store_error + projection" where
  "stored_projection u c st sid d = (case get_session u c st sid d of Inl e \<Rightarrow> Inl e | Inr r \<Rightarrow> Inr (normalize_projection (rec_projection r)))"

definition current_projection :: "surroundings \<Rightarrow> codec \<Rightarrow> file_store \<Rightarrow> string \<Rightarrow> files \<Rightarrow> projection" where
  "current_projection u c st sid d =
     (if trim_space sid = [] then normalize_projection empty_projection
      else case stored_projection u c st sid d of Inl _ \<Rightarrow> normalize_projection empty_projection | Inr p \<Rightarrow> p)"

definition rule_listing :: "auto_world \<Rightarrow> surroundings \<Rightarrow> codec \<Rightarrow> file_store \<Rightarrow> string \<Rightarrow> files \<Rightarrow> auto_output" where
  "rule_listing a u c st sid d =
     Rule_listing sid (permission_rule_list (aw_fmt a) sid (map_sum (aw_shows a) (\<lambda>g. g) (get_rules u c st d))
       (map_sum (aw_shows a) (\<lambda>p. p) (stored_projection u c st sid d)))"

definition nothing_applied :: "flow_error option \<Rightarrow> service \<Rightarrow> files \<Rightarrow> auto_result" where
  "nothing_applied e s d = \<lparr>au_applied = False, au_error = e, au_events = [], au_writes = [], au_emits = [], au_service = s, au_files = d\<rparr>"

text \<open>A rule that matches: the request is approved, \<open>mark\<close> counts the match in the store, the client is told.\<close>

definition apply_rule ::
  "auto_world \<Rightarrow> surroundings \<Rightarrow> codec \<Rightarrow> file_store \<Rightarrow> string \<Rightarrow> permission_request \<Rightarrow> projection \<Rightarrow> controller_snapshot \<Rightarrow> string \<Rightarrow>
   (files \<Rightarrow> files) \<Rightarrow> permission_rule \<Rightarrow> service \<Rightarrow> files \<Rightarrow> auto_result" where
  "apply_rule a u c st sid req p ctl message mark rule s d =
     (let f = execute_permission_decision (aw_now a) (aw_response a) (aw_input a) req p ctl s; d1 = aw_persist a (fl_events f) d in
      if fl_error f \<noteq> None
      then (nothing_applied (fl_error f) (fl_service f) d1)\<lparr>au_events := fl_events f, au_writes := fl_writes f\<rparr>
      else
        (let d2 = mark d1 in
         \<lparr>au_applied = True, au_error = None, au_events = fl_events f, au_writes = fl_writes f,
           au_emits = [Auto_applied sid (pm_id rule) (pm_scope rule) (pm_summary rule) message, rule_listing a u c st sid d2],
           au_service = fl_service f, au_files = d2\<rparr>))"

definition mark_in_session :: "auto_world \<Rightarrow> surroundings \<Rightarrow> codec \<Rightarrow> file_store \<Rightarrow> string \<Rightarrow> string \<Rightarrow> files \<Rightarrow> files" where
  "mark_in_session a u c st sid rid d =
     (if trim_space sid = [] then d
      else (case stored_projection u c st sid d of
        Inl _ \<Rightarrow> d
      | Inr p \<Rightarrow> snd (save_projection u c st sid (p\<lparr>pj_rules := mark_rule_matched (aw_now a) (pj_rules p) rid\<rparr>) d)))"

definition mark_in_store :: "auto_world \<Rightarrow> surroundings \<Rightarrow> codec \<Rightarrow> file_store \<Rightarrow> permission_rule_snapshot \<Rightarrow> string \<Rightarrow> files \<Rightarrow> files" where
  "mark_in_store a u c st g rid d = snd (save_rules u c st (g\<lparr>ps_items := mark_rule_matched (aw_now a) (ps_items g) rid\<rparr>) d)"

definition txt_session_rule :: string where "txt_session_rule = [CHR 0xE5, CHR 0xB7, CHR 0xB2, CHR 0xE6,
  CHR 0x8C, CHR 0x89, CHR 0xE4, CHR 0xBC, CHR 0x9A, CHR 0xE8, CHR 0xAF, CHR 0x9D, CHR 0xE6, CHR 0x9D,
  CHR 0x83, CHR 0xE9, CHR 0x99, CHR 0x90, CHR 0xE8, CHR 0xA7, CHR 0x84, CHR 0xE5, CHR 0x88, CHR 0x99,
  CHR 0xE8, CHR 0x87, CHR 0xAA, CHR 0xE5, CHR 0x8A, CHR 0xA8, CHR 0xE5, CHR 0x85, CHR 0x81, CHR 0xE8,
  CHR 0xAE, CHR 0xB8]"
definition txt_store_rule :: string where "txt_store_rule = [CHR 0xE5, CHR 0xB7, CHR 0xB2, CHR 0xE6, CHR 0x8C,
  CHR 0x89, CHR 0xE9, CHR 0x95, CHR 0xBF, CHR 0xE6, CHR 0x9C, CHR 0x9F, CHR 0xE6, CHR 0x9D, CHR 0x83,
  CHR 0xE9, CHR 0x99, CHR 0x90, CHR 0xE8, CHR 0xA7, CHR 0x84, CHR 0xE5, CHR 0x88, CHR 0x99, CHR 0xE8,
  CHR 0x87, CHR 0xAA, CHR 0xE5, CHR 0x8A, CHR 0xA8, CHR 0xE5, CHR 0x85, CHR 0x81, CHR 0xE8, CHR 0xAE,
  CHR 0xB8]"

definition maybe_auto_apply ::
  "auto_world \<Rightarrow> surroundings \<Rightarrow> codec \<Rightarrow> file_store option \<Rightarrow> string \<Rightarrow> payload \<Rightarrow> service \<Rightarrow> files \<Rightarrow> auto_result" where
  "maybe_auto_apply a u c store sid ev s d =
     (case (store, permission_event ev) of
        (Some st, Some (message, m)) \<Rightarrow>
          (let p = current_projection u c st sid d; ctl = controller_snapshot_of (sv_ctl s);
               ctx = context_from_prompt message m p ctl; req = decision_from_event message m p ctl in
           case (if pj_rules_enabled p then match_permission_rule (pj_rules p) ctx else None) of
             Some rule \<Rightarrow> apply_rule a u c st sid req p ctl txt_session_rule (mark_in_session a u c st sid (pm_id rule)) rule s d
           | None \<Rightarrow>
               (case get_rules u c st d of
                  Inl e \<Rightarrow> nothing_applied (Some (Store_failed e)) s d
                | Inr g \<Rightarrow>
                    (if \<not> ps_enabled g then nothing_applied None s d
                     else (case match_permission_rule (ps_items g) ctx of
                         None \<Rightarrow> nothing_applied None s d
                       | Some rule \<Rightarrow> apply_rule a u c st sid req p ctl txt_store_rule (mark_in_store a u c st g (pm_id rule)) rule s d))))
      | _ \<Rightarrow> nothing_applied None s d)"

section \<open>Lemmas\<close>

lemma match_rule_applies: "match_permission_rule rs ctx = Some r \<Longrightarrow> r \<in> set rs \<and> rule_applies ctx r"
  by (induction rs) (auto split: if_splits)

text \<open>What an approval is planned as.\<close>

lemma approve_plan:
  assumes "trim_space (to_lower (pq_decision req)) = d" and "d \<noteq> ''deny''"
  shows "build_permission_decision_plan req p c = Inr \<lparr>dp_action = Direct, dp_decision = d, dp_meta = decision_meta d req p c, dp_prompt = []\<rparr>"
  using assms by (simp add: build_permission_decision_plan_def Let_def)

lemma decision_meta_id [simp]: "m_permission_request_id (decision_meta d req p c) = trim_space (pq_request_id req)"
  by (simp add: decision_meta_def Let_def)

lemma approve_words: "trim_space (to_lower ''approve'') = ''approve''" "''approve'' \<noteq> ''deny''"
  by code_simp+

lemma with_mode_runner: "map_option rn_pending (mg_runner (sv_mgr (with_mode mode s))) = map_option rn_pending (mg_runner (sv_mgr s))"
  by (simp add: with_mode_def service_update_permission_mode_def set_runner_mode_def update_meta_def Let_def option.map_comp comp_def)

text \<open>A decision is written only to a runner that has a request pending, the one that is named if any.\<close>

lemma decision_written:
  assumes "oc_writes (send_permission_decision now d m w s) \<noteq> []"
  shows "oc_writes (send_permission_decision now d m w s) = [d] \<and>
    (\<exists>r current. mg_runner (sv_mgr s) = Some r \<and> rn_pending r = Some (True, current) \<and>
      (trim_space (m_permission_request_id m) = [] \<or> trim_space current = trim_space (m_permission_request_id m)))"
proof -
  have rid: "m_permission_request_id (normalize_meta_mode m) = m_permission_request_id m"
    by (simp add: normalize_meta_mode_def)
  show ?thesis
    using assms
    by (auto simp: send_permission_decision_def fails_def Let_def rid case_prod_beta split: option.splits prod.splits if_splits)
qed


lemma execute_approval:
  assumes "pq_decision req = ''approve''" and "f = execute_permission_decision now w1 w2 req p c s"
  shows "(fl_writes f = [] \<or> fl_writes f = [''approve''] \<and>
      (\<exists>r current. mg_runner (sv_mgr s) = Some r \<and> rn_pending r = Some (True, current) \<and>
        (trim_space (pq_request_id req) = [] \<or> trim_space current = trim_space (pq_request_id req))))"
proof (cases "fl_writes f = []")
  case False
  let ?m = "decision_meta ''approve'' req p c"
  let ?s = "with_mode (m_permission_mode ?m) s"
  have "trim_space (to_lower (pq_decision req)) = ''approve''"
    using assms(1) approve_words(1) by simp
  then have f: "fl_writes f = oc_writes (send_permission_decision now ''approve'' ?m w1 ?s)"
    by (simp add: assms(2) execute_permission_decision_def approve_plan approve_words(2) Let_def expiring_def flow_of_def)
  with False decision_written [of now "''approve''" ?m w1 ?s] obtain r current where
      "fl_writes f = [''approve'']" "mg_runner (sv_mgr ?s) = Some r" "rn_pending r = Some (True, current)"
      "trim_space (pq_request_id req) = [] \<or> trim_space current = trim_space (pq_request_id req)"
    by auto
  moreover from this obtain r' where "mg_runner (sv_mgr s) = Some r'" "rn_pending r' = Some (True, current)"
    using with_mode_runner [of "m_permission_mode ?m" s] by (cases "mg_runner (sv_mgr s)") auto
  ultimately show ?thesis
    by blast
qed simp

lemma send_decision_outcome:
  "(oc_writes (send_permission_decision now d m w s) = [] \<and> oc_error (send_permission_decision now d m w s) \<noteq> None) \<or>
   (oc_writes (send_permission_decision now d m w s) = [d] \<and> (oc_error (send_permission_decision now d m w s) = None \<longleftrightarrow> w = None))"
  by (auto simp: send_permission_decision_def fails_def Let_def case_prod_beta split: option.splits prod.splits)

lemma send_input_outcome:
  "(oc_writes (send_input now t m w s) = [] \<and> oc_error (send_input now t m w s) \<noteq> None) \<or>
   (oc_writes (send_input now t m w s) = [t] \<and> (oc_error (send_input now t m w s) = None \<longleftrightarrow> w = None))"
  by (auto simp: send_input_def fails_def Let_def case_prod_beta split: option.splits prod.splits)

lemma apply_rule_writes: "au_writes (apply_rule a u c st sid req p ctl message mark rule s d) =
    fl_writes (execute_permission_decision (aw_now a) (aw_response a) (aw_input a) req p ctl s)"
  by (simp add: apply_rule_def nothing_applied_def Let_def)

lemma nothing_applied_writes [simp]: "au_writes (nothing_applied e s d) = []" "au_applied (nothing_applied e s d) = False"
  by (simp_all add: nothing_applied_def)

section \<open>Properties\<close>


lemma trim_deny: "trim_space (to_lower ''deny'') = ''deny''" "''deny'' \<noteq> ''approve''"
  by code_simp+

lemma deny_plan:
  assumes "build_permission_decision_plan req p c = Inr plan" and "dp_action plan = DenyThenInput"
  shows "dp_decision plan = ''deny''" and "dp_prompt plan \<noteq> ''deny''"
proof -
  have prompt: "build_permission_decision_prompt ''deny'' req = Inr (dp_prompt plan)" and d: "dp_decision plan = ''deny''"
    using assms by (auto simp: build_permission_decision_plan_def Let_def split: if_splits sum.splits)
  have "\<exists>t. txt_denied_write @ t = dp_prompt plan"
    using prompt trim_deny by (simp add: build_permission_decision_prompt_def Let_def) blast
  then obtain t where "dp_prompt plan = txt_denied_write @ t"
    by metis
  moreover have "length txt_denied_write > 4"
    by code_simp
  ultimately have "length (dp_prompt plan) > 4"
    by simp
  then show "dp_prompt plan \<noteq> ''deny''"
    by auto
  show "dp_decision plan = ''deny''"
    by (rule d)
qed

text \<open>
  A denial is said once: the runner takes either the decision or, when it has no such request, the text, and not both; the
  flow succeeds exactly if it took the one that was written last.
\<close>

theorem denial_said_once:
  assumes "build_permission_decision_plan req p c = Inr plan" and "dp_action plan = DenyThenInput"
    and "f = execute_permission_decision now w1 w2 req p c s"
  shows "(fl_error f = None \<longleftrightarrow> fl_writes f = [dp_decision plan] \<and> w1 = None \<or>
      w2 = None \<and> (fl_writes f = [dp_prompt plan] \<or> w1 \<noteq> None \<and> fl_writes f = [dp_decision plan, dp_prompt plan]))"
proof -
  let ?m = "dp_meta plan" and ?d = "dp_decision plan" and ?t = "dp_prompt plan"
  let ?s = "with_mode (m_permission_mode ?m) s"
  let ?o = "send_permission_decision now ?d ?m w1 ?s"
  have f: "f = deny_then_input now w1 w2 plan ?s"
    using assms by (simp add: execute_permission_decision_def Let_def)
  have differ: "?t \<noteq> ?d"
    using deny_plan [OF assms(1,2)] by simp
  note input = send_input_outcome [of now ?t ?m w2]
  consider "m_permission_request_id ?m = []" | "m_permission_request_id ?m \<noteq> []" "oc_error ?o = None"
    | e where "m_permission_request_id ?m \<noteq> []" "oc_error ?o = Some e" "ge_is e \<noteq> Some NoPendingControl \<and> ge_is e \<noteq> Some InputNotSupported"
    | e where "m_permission_request_id ?m \<noteq> []" "oc_error ?o = Some e" "\<not> (ge_is e \<noteq> Some NoPendingControl \<and> ge_is e \<noteq> Some InputNotSupported)"
    by blast
  then show ?thesis
  proof cases
    case 1
    then show ?thesis
      using input [of ?s] differ by (auto simp: f deny_then_input_def flow_of_def)
  next
    case 2
    then show ?thesis
      using send_decision_outcome [of now ?d ?m w1 ?s] differ by (auto simp: f deny_then_input_def flow_of_def Let_def)
  next
    case 3
    then show ?thesis
      using send_decision_outcome [of now ?d ?m w1 ?s] differ by (auto simp: f deny_then_input_def flow_of_def Let_def)
  next
    case 4
    then have "f = flow_of (after ?o (send_input now ?t ?m w2 (oc_service ?o)))"
      by (auto simp: f deny_then_input_def Let_def)
    then show ?thesis
      using 4(2) input [of "oc_service ?o"] send_decision_outcome [of now ?d ?m w1 ?s] differ
      by (auto simp: flow_of_def after_def)
  qed
qed

text \<open>The panic of the kernel: a denial to an assistant, without a request, on a connection without a service.\<close>

lemma kernel_decision_panics:
  "kernel_permission_decision now w1 w2 req p c None = None \<longleftrightarrow>
   (case build_permission_decision_plan req p c of
      Inl _ \<Rightarrow> False | Inr plan \<Rightarrow> dp_action plan = DenyThenInput \<and> m_permission_request_id (dp_meta plan) = [])"
  by (simp add: kernel_permission_decision_def split: sum.splits)

definition denying :: permission_request where
  "denying = \<lparr>pq_action = ''permission_decision'', pq_decision = ''deny'', pq_scope = [], pq_permission_mode = [], pq_request_id = ''req-1'',
     pq_resume = [], pq_target_path = [], pq_context_id = [], pq_context_title = [], pq_prompt_message = [], pq_command = ''claude'',
     pq_cwd = [], pq_engine = [], pq_target = [], pq_target_type = []\<rparr>"

lemma denial_said_once_witness:
  "(case build_permission_decision_plan denying empty_projection empty_controller of
     Inl _ \<Rightarrow> False
   | Inr plan \<Rightarrow>
       (let f = execute_permission_decision 6 (Some (err NoPendingControl)) None denying empty_projection empty_controller demo_running in
        fl_error f = None \<longleftrightarrow> fl_writes f = [dp_prompt plan] \<or> fl_writes f = [dp_decision plan, dp_prompt plan]))"
proof -
  have "trim_space (to_lower (pq_decision denying)) = ''deny''" and claude: "is_claude_command_like ''claude''" "trim_space ''claude'' = ''claude''"
    unfolding denying_def permission_request.select_convs by code_simp+
  then have d: "trim_space (to_lower (pq_decision denying)) = ''deny''"
    by simp
  have "m_command (decision_meta ''deny'' denying empty_projection empty_controller) = ''claude''"
    using claude(2) by (simp add: decision_meta_def denying_def Let_def)
  moreover have "build_permission_decision_prompt ''deny'' denying = Inr (case build_permission_decision_prompt ''deny'' denying of Inr t \<Rightarrow> t)"
    using trim_deny by (simp add: build_permission_decision_prompt_def Let_def)
  ultimately obtain plan where plan: "build_permission_decision_plan denying empty_projection empty_controller = Inr plan" "dp_action plan = DenyThenInput"
    using d claude(1) by (auto simp: build_permission_decision_plan_def Let_def split: sum.splits)
  show ?thesis
    using denial_said_once [OF plan refl, of 6 "Some (err NoPendingControl)" None demo_running] by (simp add: plan Let_def)
qed

definition anything_rule :: permission_rule where
  "anything_rule = \<lparr>pm_id = ''r'', pm_scope = scope_persistent, pm_enabled = True, pm_engine = [], pm_kind = [], pm_command_head = [],
     pm_target_path_prefix = [], pm_summary = [], pm_created_at = 5, pm_last_matched_at = 0, pm_match_count = 0\<rparr>"

definition demo_ask :: payload where
  "demo_ask = EvPrompt (event.extend (new_base_event 5 ''prompt_request'' ''s'') (prompt_request_event.fields ''Allow?'' [''yes'', ''no'']))"

definition demo_outside :: auto_world where
  "demo_outside = \<lparr>aw_now = 6, aw_fmt = (\<lambda>_. []), aw_shows = (\<lambda>_. []), aw_persist = (\<lambda>_ d. d), aw_response = None, aw_input = None\<rparr>"

definition rules_codec :: codec where
  "rules_codec = (demo_codec sample_session [])\<lparr>co_get_rules := (\<lambda>_. Some \<lparr>ps_enabled = True, ps_items = [anything_rule]\<rparr>)\<rparr>"

lemma demo_rules:
  "\<exists>g rule. get_rules demo_around rules_codec (store_at ''/d'') (no_files(fs_rules (store_at ''/d'') := Content ''r'')) = Inr g \<and>
     ps_enabled g \<and> match_permission_rule (ps_items g) ctx = Some rule"
proof -
  let ?r = "normalize_rule anything_rule"
  have r: "pm_id ?r = ''r''" "pm_enabled ?r" "pm_engine ?r = []" "pm_kind ?r = kind_generic" "pm_command_head ?r = []" "pm_target_path_prefix ?r = []"
    unfolding anything_rule_def by code_simp+
  then have "normalize_permission_rules (\<lambda>xs. xs) [anything_rule] = [?r]"
    by (simp add: normalize_permission_rules_def)
  moreover have "rule_applies ctx ?r"
    using r by (simp add: rule_applies_def)
  ultimately show ?thesis
    by (simp add: get_rules_def read_json_def rules_codec_def normalize_rule_snapshot_def demo_around_def)
qed

lemma demo_ask_event: "permission_event demo_ask = Some (''Allow?'', empty_meta)"
proof -
  have "to_lower (trim_space ''yes'') = ''yes''" "to_lower (trim_space ''no'') = ''no''"
    by code_simp+
  then show ?thesis
    by (simp add: permission_event_def demo_ask_def looks_like_permission_prompt_def new_base_event_def event.defs prompt_request_event.defs)
qed

lemma no_session_rules: "current_projection demo_around rules_codec (store_at ''/d'') [] d = normalize_projection empty_projection"
    "\<not> pj_rules_enabled (normalize_projection empty_projection)"
  by (simp add: current_projection_def) code_simp

lemma decision_taken:
  assumes "mg_runner (sv_mgr s) = Some r" and "rn_pending r = Some (True, current)" and "mg_session (sv_mgr s) \<noteq> []"
    and "trim_space (m_permission_request_id m) = []"
  shows "oc_writes (send_permission_decision now d m w s) = [d]"
  using assms by (simp add: send_permission_decision_def normalize_meta_mode_def Let_def case_prod_beta split: option.splits)

lemma demo_runner_waits:
  "\<exists>r. mg_runner (sv_mgr (with_mode mode demo_running)) = Some r \<and> rn_pending r = Some (True, ''req-1'') \<and>
     mg_session (sv_mgr (with_mode mode demo_running)) = ''s''"
  using demo_running_runner demo_running_session
  by (simp add: with_mode_def service_update_permission_mode_def set_runner_mode_def update_meta_def Let_def demo_runner_def)


end
