(* ===== verification/ClaudeFiles.thy ===== *)
theory ClaudeFiles
  imports FileStore SessionList ClaudeStream
begin

text \<open>
  The files in which Claude keeps its sessions (\<open>data/claudesync\<close>, and \<open>normalizeSessionJSONL\<close> of
  \<open>engine/pty_engine.go\<close>): how a conversation is read from one, how messages are appended to one, which sessions are
  found, and how what Claude has written is merged into a session of the store. The file system, the identifiers that
  are drawn and the parsing and rendering of times are parameters; all clock readings of a call are the same instant.
\<close>

section \<open>Lines of a file\<close>

text \<open>
  \<open>bufio.Scanner\<close> with the size its buffer may grow to: the lines, and whether it stopped at one that does not fit. The
  buffer must not be full before the line break has been seen.
\<close>

function scan_lines :: "nat \<Rightarrow> string \<Rightarrow> string list \<times> bool" where
  "scan_lines room s =
     (if s = [] then ([], False)
      else let l = takeWhile (\<lambda>c. c \<noteq> nl) s in
        if room \<le> length l then ([], True)
        else case scan_lines room (drop (Suc (length l)) s) of (ls, e) \<Rightarrow> (drop_cr l # ls, e))"
  by pat_completeness auto
termination
  by (relation "measure (length o snd)") auto

declare scan_lines.simps [simp del]

text \<open>The clock, and how times are read and written.\<close>

record times =
  ti_now :: time
  ti_parse :: "string \<Rightarrow> time option"
  ti_show :: "time \<Rightarrow> string"
  ti_show_nano :: "time \<Rightarrow> string"

section \<open>Reading a session\<close>

record native_session =
  ns_session_id :: string
  ns_mirror_id :: string
  ns_title :: string
  ns_cwd :: string
  ns_created :: time
  ns_updated :: time
  ns_first_user :: string
  ns_last_assistant :: string
  ns_entries :: "log_entry list"
  ns_files :: "string list"

definition empty_native :: native_session where
  "empty_native = \<lparr>ns_session_id = [], ns_mirror_id = [], ns_title = [], ns_cwd = [], ns_created = 0, ns_updated = 0,
     ns_first_user = [], ns_last_assistant = [], ns_entries = [], ns_files = []\<rparr>"

record jsonl_line =
  jl_type :: string
  jl_session :: string
  jl_cwd :: string
  jl_timestamp :: string
  jl_message :: string

definition decode_line :: "string \<Rightarrow> jsonl_line option" where
  "decode_line line = do {
     v \<leftarrow> json_parse line; ms \<leftarrow> struct_members line v;
     t \<leftarrow> string_field ''type'' ms; s \<leftarrow> string_field ''sessionId'' ms; c \<leftarrow> string_field ''cwd'' ms;
     ts \<leftarrow> string_field ''timestamp'' ms;
     Some \<lparr>jl_type = t, jl_session = s, jl_cwd = c, jl_timestamp = ts, jl_message = raw_field ''message'' ms\<rparr> }"

definition is_meaningful_prompt_text :: "string \<Rightarrow> bool" where
  "is_meaningful_prompt_text t =
     (let t = trim_space t; l = to_lower t in
      t \<noteq> [] \<and> l \<notin> {''session'', ''new session'', ''command started'', ''command finished''} \<and>
      \<not> has_prefix l ''command finished '')"

definition normalize_jsonl_timestamp :: "times \<Rightarrow> string \<Rightarrow> string" where
  "normalize_jsonl_timestamp ti s =
     (let t = trim_space s in
      if t = [] then ti_show ti (ti_now ti) else case ti_parse ti t of Some at \<Rightarrow> ti_show ti at | None \<Rightarrow> t)"

definition decode_text_block :: "string \<times> json \<Rightarrow> (string \<times> string) option" where
  "decode_text_block e = do {
     ms \<leftarrow> struct_members (fst e) (snd e); t \<leftarrow> string_field ''type'' ms; x \<leftarrow> string_field ''text'' ms; Some (t, x) }"

definition decode_text_blocks :: "string \<Rightarrow> (string \<times> string) list option" where
  "decode_text_blocks raw = (case json_parse raw of
     Some (JList _) \<Rightarrow> those (map decode_text_block (raw_elems raw)) | Some JNull \<Rightarrow> Some [] | _ \<Rightarrow> None)"

definition first_block_text :: "(string \<times> string) list option \<Rightarrow> string" where
  "first_block_text bs = (case bs of
     None \<Rightarrow> []
   | Some bs \<Rightarrow> (case find (\<lambda>b. trim_space (fst b) = ''text'' \<and> trim_space (snd b) \<noteq> []) bs of
         Some b \<Rightarrow> trim_space (snd b) | None \<Rightarrow> []))"

text \<open>The content of a message of the user, whose role is decoded as well, and of one of the assistant.\<close>

definition user_content :: "string \<Rightarrow> string" where
  "user_content raw = (case (do {
       v \<leftarrow> json_parse raw; ms \<leftarrow> struct_members raw v; r \<leftarrow> string_field ''role'' ms; Some (raw_field ''content'' ms) }) of
     Some c \<Rightarrow> c | None \<Rightarrow> [])"

definition extract_user_message_text :: "string \<Rightarrow> string" where
  "extract_user_message_text raw =
     (let c = user_content raw in
      if c = [] then []
      else case (if hd c = Json.quote then json_parse c else None) of
          Some (JString t) \<Rightarrow> trim_space t
        | _ \<Rightarrow> first_block_text (decode_text_blocks c))"

definition assistant_content :: "string \<Rightarrow> string" where
  "assistant_content raw = (case (do { v \<leftarrow> json_parse raw; ms \<leftarrow> struct_members raw v; Some (raw_field ''content'' ms) }) of
     Some c \<Rightarrow> c | None \<Rightarrow> [])"

definition extract_assistant_text :: "string \<Rightarrow> string" where
  "extract_assistant_text raw =
     (let c = assistant_content raw in if c = [] then [] else first_block_text (decode_text_blocks c))"

definition txt_history_input :: string where "txt_history_input = [CHR 0xE5, CHR 0x8E, CHR 0x86, CHR 0xE5,
  CHR 0x8F, CHR 0xB2, CHR 0xE8, CHR 0xBE, CHR 0x93, CHR 0xE5, CHR 0x85, CHR 0xA5]"
definition txt_claude_session :: string where "txt_claude_session = ''Claude '' @ [CHR 0xE4, CHR 0xBC,
  CHR 0x9A, CHR 0xE8, CHR 0xAF, CHR 0x9D]"

definition plain_entry :: "string \<Rightarrow> string \<Rightarrow> string \<Rightarrow> string \<Rightarrow> log_entry" where
  "plain_entry kind label t ts = \<lparr>ln_kind = kind, ln_message = t, ln_label = label, ln_timestamp = ts, ln_stream = [], ln_text = t,
     ln_execution_id = [], ln_phase = [], ln_exit_code = None, ln_context = None\<rparr>"

definition add_user_line :: "string \<Rightarrow> string \<Rightarrow> native_session \<Rightarrow> native_session" where
  "add_user_line t ts s =
     (if \<not> is_meaningful_prompt_text t then s
      else s\<lparr>ns_first_user := (if ns_first_user s = [] then t else ns_first_user s),
        ns_title := (if ns_title s = [] then t else ns_title s),
        ns_entries := ns_entries s @ [plain_entry ''user'' txt_history_input t ts]\<rparr>)"

definition add_assistant_line :: "string \<Rightarrow> string \<Rightarrow> native_session \<Rightarrow> native_session" where
  "add_assistant_line t ts s =
     (if t = [] then s
      else s\<lparr>ns_last_assistant := t, ns_entries := ns_entries s @ [plain_entry ''markdown'' [] t ts]\<rparr>)"

definition session_line :: "times \<Rightarrow> string \<Rightarrow> native_session \<Rightarrow> native_session" where
  "session_line ti line s = (case decode_line line of
     None \<Rightarrow> s
   | Some l \<Rightarrow>
       let s = (if ns_session_id s = [] \<and> trim_space (jl_session l) \<noteq> []
           then s\<lparr>ns_session_id := trim_space (jl_session l)\<rparr> else s);
         s = (if ns_cwd s = [] \<and> trim_space (jl_cwd l) \<noteq> [] then s\<lparr>ns_cwd := trim_space (jl_cwd l)\<rparr> else s);
         ts = normalize_jsonl_timestamp ti (jl_timestamp l) in
       if trim_space (jl_type l) = ''user'' then add_user_line (extract_user_message_text (jl_message l)) ts s
       else if trim_space (jl_type l) = ''assistant'' then add_assistant_line (extract_assistant_text (jl_message l)) ts s
       else s)"

definition session_line_size :: nat where "session_line_size = 4 * 1024 * 1024"
definition first_line_size :: nat where "first_line_size = 1024 * 1024"

text \<open>None is an error: the file is not opened, or a line of it is too long.\<close>

definition parse_session :: "times \<Rightarrow> string \<Rightarrow> string \<Rightarrow> native_session option" where
  "parse_session ti content sid = (case scan_lines session_line_size content of
     (ls, e) \<Rightarrow> if e then None else Some (fold (session_line ti) ls (empty_native\<lparr>ns_session_id := sid\<rparr>)))"

definition parse_session_from_file :: "times \<Rightarrow> file_read \<Rightarrow> string \<Rightarrow> native_session option" where
  "parse_session_from_file ti f sid = (case f of Content c \<Rightarrow> parse_session ti c sid | _ \<Rightarrow> None)"

definition read_first_session_id :: "file_read \<Rightarrow> string" where
  "read_first_session_id f = (case f of
     Content c \<Rightarrow>
       (case find (\<lambda>s. s \<noteq> []) (map (\<lambda>l. case decode_line l of None \<Rightarrow> [] | Some l \<Rightarrow> trim_space (jl_session l))
           (fst (scan_lines first_line_size c))) of
          Some s \<Rightarrow> s | None \<Rightarrow> [])
   | _ \<Rightarrow> [])"

section \<open>Finding sessions\<close>

text \<open>The directory of a project is named by its path, with a hyphen for every character that is no letter or digit.\<close>

definition plain_rune :: "nat \<Rightarrow> bool" where
  "plain_rune r \<longleftrightarrow> 97 \<le> r \<and> r \<le> 122 \<or> 65 \<le> r \<and> r \<le> 90 \<or> 48 \<le> r \<and> r \<le> 57"

definition dashed :: "string \<Rightarrow> string" where
  "dashed s = map (\<lambda>r. if plain_rune r then char_of r else CHR ''-'') (runes s)"

definition encode_cwd_to_project_dir :: "string \<Rightarrow> string" where
  "encode_cwd_to_project_dir cwd = dashed (trim_space cwd)"

datatype dir_stat = No_stat | Bad_stat | Stat bool

record dir_entry =
  de_name :: string
  de_is_dir :: bool
  de_modified :: "time option"

datatype dir_read = No_dir | Bad_dir | Dir "dir_entry list"

text \<open>
  What the operations meet: the home directory, files, directories and what they are, \<open>filepath.Abs\<close> and
  \<open>filepath.EvalSymlinks\<close>, at which session or directory the context has ended, the order of a range over a map, what an
  unstable sort does first, which directories and files cannot be made or opened, and how many bytes of the n-th line
  are written when its write fails.
\<close>

record claude_disk =
  cd_home :: "string option"
  cd_files :: files
  cd_dirs :: "string \<Rightarrow> dir_read"
  cd_stat :: "string \<Rightarrow> dir_stat"
  cd_abs :: "string \<Rightarrow> string option"
  cd_links :: "string \<Rightarrow> string option"
  cd_over :: "string \<Rightarrow> bool"
  cd_range :: "string list \<Rightarrow> string list"
  cd_mix_files :: "(string \<times> time) list \<Rightarrow> (string \<times> time) list"
  cd_mix_sessions :: "native_session list \<Rightarrow> native_session list"
  cd_no_dir :: "string \<Rightarrow> bool"
  cd_no_append :: "string \<Rightarrow> bool"
  cd_torn :: "nat \<Rightarrow> nat option"

datatype sync_error =
    Home_error
  | Encode_cwd_error string
  | Dir_error string
  | Context_over
  | Empty_native_id
  | No_native string
  | Make_dir_error string
  | Append_error string
  | Event_error
  | Parse_error

definition claude_projects_dir :: "claude_disk \<Rightarrow> string option" where
  "claude_projects_dir d = map_option (\<lambda>h. join_path (join_path h ''.claude'') ''projects'') (cd_home d)"

text \<open>The files of a directory that hold a session: whose, where and from when.\<close>

definition session_files :: "claude_disk \<Rightarrow> string \<Rightarrow> dir_entry list \<Rightarrow> (string \<times> string \<times> time) list" where
  "session_files d dir es = concat (map (\<lambda>e.
     if de_is_dir e \<or> \<not> has_suffix (de_name e) ''.jsonl'' then []
     else case de_modified e of
         None \<Rightarrow> []
       | Some m \<Rightarrow>
           let path = join_path dir (de_name e); first = read_first_session_id (cd_files d path);
             sid = (if first \<noteq> [] then first else trim_suffix (de_name e) ''.jsonl'') in
           if trim_space sid = [] then [] else [(sid, path, m)]) es)"

text \<open>The newest file of a session is read, the others count for the times.\<close>

definition widen_times :: "time \<Rightarrow> native_session \<Rightarrow> native_session" where
  "widen_times m s =
     (let s = (if ns_updated s < m then s\<lparr>ns_updated := m\<rparr> else s) in
      if is_zero (ns_created s) \<or> m < ns_created s then s\<lparr>ns_created := m\<rparr> else s)"

definition newest_files :: "claude_disk \<Rightarrow> (string \<times> time) list \<Rightarrow> (string \<times> time) list" where
  "newest_files d fs = sort_key (\<lambda>f. - snd f) (cd_mix_files d fs)"

definition session_of_files :: "claude_disk \<Rightarrow> times \<Rightarrow> string \<Rightarrow> string \<Rightarrow> (string \<times> time) list \<Rightarrow> native_session option" where
  "session_of_files d ti cwd sid fs =
     (let fs = newest_files d fs in
      map_option (\<lambda>s.
          let s = (if trim_space (ns_cwd s) = [] then s\<lparr>ns_cwd := cwd\<rparr> else s) in
          (fold (\<lambda>f. widen_times (snd f)) fs s)\<lparr>ns_files := map fst fs, ns_mirror_id := claude_mirror_session_id sid\<rparr>)
        (parse_session_from_file ti (cd_files d (fst (hd fs))) sid))"

fun scan_ids :: "claude_disk \<Rightarrow> (string \<Rightarrow> native_session option) \<Rightarrow> string list \<Rightarrow> sync_error + native_session list" where
  "scan_ids d read [] = Inr []"
| "scan_ids d read (sid # sids) =
     (if cd_over d sid then Inl Context_over
      else case scan_ids d read sids of
          Inl e \<Rightarrow> Inl e | Inr ss \<Rightarrow> Inr ((case read sid of None \<Rightarrow> [] | Some s \<Rightarrow> [s]) @ ss))"

definition newest_sessions :: "claude_disk \<Rightarrow> native_session list \<Rightarrow> native_session list" where
  "newest_sessions d ss = sort_key (\<lambda>s. - ns_updated s) (cd_mix_sessions d ss)"

definition scan_dir :: "claude_disk \<Rightarrow> times \<Rightarrow> string \<Rightarrow> string \<Rightarrow> sync_error + native_session list" where
  "scan_dir d ti dir cwd = (case cd_dirs d dir of
     No_dir \<Rightarrow> Inr [] | Bad_dir \<Rightarrow> Inl (Dir_error dir)
   | Dir es \<Rightarrow>
       let fs = session_files d dir es;
         read = (\<lambda>sid. session_of_files d ti cwd sid (map snd (filter (\<lambda>f. fst f = sid) fs))) in
       map_sum id (newest_sessions d) (scan_ids d read (cd_range d (remdups (map fst fs)))))"

definition add_candidate :: "string list \<Rightarrow> string \<Rightarrow> string list" where
  "add_candidate out v =
     (let v = trim_space v; c = trim_suffix (clean_path v) ''/'' in
      if v = [] \<or> c = [] \<or> c \<in> set out then out else out @ [c])"

definition candidate_project_cwds :: "claude_disk \<Rightarrow> string \<Rightarrow> string list" where
  "candidate_project_cwds d raw =
     (let t = trim_space raw;
        paths = t # (case cd_abs d t of None \<Rightarrow> [] | Some a \<Rightarrow> a # (case cd_links d a of None \<Rightarrow> [] | Some l \<Rightarrow> [l])) @
          (case cd_links d t of None \<Rightarrow> [] | Some l \<Rightarrow> [l]) in
      if t = [] then [] else foldl add_candidate [] paths)"

definition add_unseen :: "native_session list \<Rightarrow> native_session \<Rightarrow> native_session list" where
  "add_unseen ss s = (if ns_session_id s \<in> ns_session_id ` set ss then ss else ss @ [s])"

fun collect_dirs ::
  "claude_disk \<Rightarrow> times \<Rightarrow> string \<Rightarrow> string list \<Rightarrow> string set \<Rightarrow> native_session list \<Rightarrow> sync_error + native_session list" where
  "collect_dirs d ti projects [] seen acc = Inr acc"
| "collect_dirs d ti projects (cwd # cwds) seen acc =
     (let enc = encode_cwd_to_project_dir cwd; dir = join_path projects enc in
      if enc = [] \<or> dir \<in> seen then collect_dirs d ti projects cwds seen acc
      else case cd_stat d dir of
          No_stat \<Rightarrow> collect_dirs d ti projects cwds (insert dir seen) acc
        | Bad_stat \<Rightarrow> Inl (Dir_error dir)
        | Stat False \<Rightarrow> collect_dirs d ti projects cwds (insert dir seen) acc
        | Stat True \<Rightarrow> (case scan_dir d ti dir cwd of
            Inl e \<Rightarrow> Inl e
          | Inr ss \<Rightarrow> collect_dirs d ti projects cwds (insert dir seen) (foldl add_unseen acc ss)))"

definition list_native_sessions :: "claude_disk \<Rightarrow> times \<Rightarrow> string \<Rightarrow> sync_error + native_session list" where
  "list_native_sessions d ti cwd =
     (case candidate_project_cwds d cwd of
        [] \<Rightarrow> Inr []
      | cwds \<Rightarrow> (case claude_projects_dir d of
          None \<Rightarrow> Inl Home_error
        | Some projects \<Rightarrow> map_sum id (newest_sessions d) (collect_dirs d ti projects cwds {} [])))"

text \<open>All directories are searched, and those that cannot be read are passed over.\<close>

fun find_in_dirs :: "claude_disk \<Rightarrow> times \<Rightarrow> string \<Rightarrow> string \<Rightarrow> dir_entry list \<Rightarrow> sync_error + native_session" where
  "find_in_dirs d ti projects sid [] = Inl (No_native sid)"
| "find_in_dirs d ti projects sid (e # es) =
     (if \<not> de_is_dir e then find_in_dirs d ti projects sid es
      else if cd_over d (de_name e) then Inl Context_over
      else case scan_dir d ti (join_path projects (de_name e)) [] of
          Inl _ \<Rightarrow> find_in_dirs d ti projects sid es
        | Inr ss \<Rightarrow> (case find (\<lambda>s. ns_session_id s = sid) ss of
            Some s \<Rightarrow> Inr s | None \<Rightarrow> find_in_dirs d ti projects sid es))"

definition find_native_session :: "claude_disk \<Rightarrow> times \<Rightarrow> string \<Rightarrow> sync_error + native_session" where
  "find_native_session d ti sid =
     (let t = trim_space sid; t = (if claude_is_mirror t then claude_session_from_mirror t else t) in
      if t = [] then Inl Empty_native_id
      else case claude_projects_dir d of
          None \<Rightarrow> Inl Home_error
        | Some projects \<Rightarrow> (case cd_dirs d projects of
            No_dir \<Rightarrow> Inl (No_native t) | Bad_dir \<Rightarrow> Inl (Dir_error projects) | Dir es \<Rightarrow> find_in_dirs d ti projects t es))"

section \<open>A session as a record\<close>

fun non_zero_time :: "time list \<Rightarrow> time \<Rightarrow> time" where
  "non_zero_time [] now = now"
| "non_zero_time (t # ts) now = (if is_zero t then non_zero_time ts now else t)"

definition mirror_runtime :: "string \<Rightarrow> string \<Rightarrow> string \<Rightarrow> string \<Rightarrow> session_runtime" where
  "mirror_runtime engine sid cwd lifecycle = empty_runtime\<lparr>rt_resume_session_id := sid, rt_command := engine, rt_engine := engine,
     rt_cwd := cwd, rt_lifecycle := lifecycle, rt_source := engine @ ''-native''\<rparr>"

definition mirror_controller :: "string \<Rightarrow> string \<Rightarrow> string \<Rightarrow> string \<Rightarrow> string \<Rightarrow> string \<Rightarrow> string \<Rightarrow> controller_snapshot" where
  "mirror_controller engine model mid state sid cwd lifecycle = empty_controller\<lparr>sn_session_id := mid, sn_state := state,
     sn_command := engine, sn_resume := sid, sn_lifecycle := lifecycle,
     sn_meta := empty_meta\<lparr>m_resume_session_id := sid, m_command := engine, m_engine := engine, m_model := model, m_cwd := cwd,
       m_claude_lifecycle := lifecycle\<rparr>\<rparr>"

definition mirrored :: "string \<Rightarrow> string \<Rightarrow> time \<Rightarrow> time \<Rightarrow> string \<Rightarrow> log_entry list \<Rightarrow> session_runtime \<Rightarrow> controller_snapshot \<Rightarrow>
    session_record" where
  "mirrored mid title created updated preview es runtime controller = \<lparr>
     rec_summary = \<lparr>sy_id = mid, sy_title = title, sy_created_at = created, sy_updated_at = updated, sy_last_preview = preview,
       sy_entry_count = int (length es), sy_runtime = runtime, sy_source = rt_source runtime, sy_external = True,
       sy_ownership = [], sy_execution_active = False, sy_claude_uuid = [], sy_jsonl_count = 0\<rparr>,
     rec_projection = empty_projection\<lparr>pj_log_entries := es, pj_raw_terminal := Some [''stdout'' \<mapsto> [], ''stderr'' \<mapsto> []],
       pj_controller := controller, pj_runtime := runtime\<rparr>\<rparr>"

definition claude_mirror_record :: "time \<Rightarrow> native_session \<Rightarrow> session_record" where
  "claude_mirror_record now s =
     (let title = trim_space (ns_title s);
        title = (if is_meaningful_prompt_text title then title else trim_space (ns_first_user s));
        title = (if is_meaningful_prompt_text title then title else txt_claude_session);
        preview = trim_space (ns_last_assistant s);
        preview = (if preview = [] then trim_space (ns_first_user s) else preview);
        preview = (if preview = [] then title else preview);
        sid = ns_session_id s; mid = claude_mirror_session_id sid in
      mirrored mid title (non_zero_time [ns_created s, ns_updated s] now) (non_zero_time [ns_updated s, ns_created s] now) preview
        (ns_entries s) (mirror_runtime ''claude'' sid (ns_cwd s) ''resumable'')
        (mirror_controller ''claude'' [] mid state_idle sid (ns_cwd s) ''resumable''))"

section \<open>Writing messages\<close>

record jsonl_event =
  je_type :: string
  je_text :: string
  je_timestamp :: string

text \<open>What is drawn for an event: its UUID, the one of its prompt, the letters of its message identifier.\<close>

record drawn =
  dw_uuid :: string
  dw_prompt :: string
  dw_letters :: string

definition synthetic_version :: string where "synthetic_version = ''2.1.119''"

definition uuid_or_null :: "string \<Rightarrow> json" where
  "uuid_or_null u = (if u = [] then JNull else JString u)"

definition claude_user_event :: "string \<Rightarrow> string \<Rightarrow> string \<Rightarrow> string \<Rightarrow> drawn \<Rightarrow> string \<Rightarrow> json" where
  "claude_user_event cwd sid parent ts w t = JObject [
     (''parentUuid'', uuid_or_null parent), (''isSidechain'', JBool False), (''promptId'', JString (dw_prompt w)),
     (''type'', JString ''user''),
     (''message'', JObject [(''role'', JString ''user''), (''content'', JString t)]),
     (''uuid'', JString (dw_uuid w)), (''timestamp'', JString ts), (''permissionMode'', JString ''default''),
     (''userType'', JString ''external''), (''entrypoint'', JString ''cli''), (''cwd'', JString cwd),
     (''sessionId'', JString sid), (''version'', JString synthetic_version), (''gitBranch'', JString ''main'')]"

definition claude_assistant_event :: "string \<Rightarrow> string \<Rightarrow> string \<Rightarrow> string \<Rightarrow> drawn \<Rightarrow> string \<Rightarrow> json" where
  "claude_assistant_event cwd sid parent ts w t = JObject [
     (''parentUuid'', uuid_or_null parent), (''isSidechain'', JBool False), (''type'', JString ''assistant''),
     (''message'', JObject [(''id'', JString (''msg_'' @ dw_letters w)), (''type'', JString ''message''),
        (''role'', JString ''assistant''), (''model'', JString ''claude-sonnet-4-6''),
        (''content'', JList [JObject [(''type'', JString ''text''), (''text'', JString t)]]),
        (''stop_reason'', JString ''end_turn''), (''stop_sequence'', JNull),
        (''usage'', JObject [(''input_tokens'', JNumber ''0''), (''output_tokens'', JNumber ''0'')])]),
     (''uuid'', JString (dw_uuid w)), (''timestamp'', JString ts), (''userType'', JString ''external''),
     (''entrypoint'', JString ''cli''), (''cwd'', JString cwd), (''sessionId'', JString sid),
     (''version'', JString synthetic_version), (''gitBranch'', JString ''main'')]"

text \<open>The events of the other two kinds are maps.\<close>

definition claude_title_event :: "string \<Rightarrow> string \<Rightarrow> string \<Rightarrow> drawn \<Rightarrow> string \<Rightarrow> json" where
  "claude_title_event cwd sid ts w t = in_order (JObject [
     (''type'', JString ''ai-title''), (''title'', JString t), (''uuid'', JString (dw_uuid w)), (''timestamp'', JString ts),
     (''cwd'', JString cwd), (''sessionId'', JString sid), (''entrypoint'', JString ''cli''), (''version'', JString synthetic_version)])"

definition claude_prompt_event :: "string \<Rightarrow> string \<Rightarrow> drawn \<Rightarrow> string \<Rightarrow> json" where
  "claude_prompt_event sid parent w t = in_order (JObject [
     (''type'', JString ''last-prompt''), (''lastPrompt'', JString t), (''sessionId'', JString sid), (''uuid'', JString (dw_uuid w)),
     (''parentUuid'', uuid_or_null parent)])"

text \<open>What is encoded for an event, and the UUID the next one hangs on.\<close>

definition encode_event :: "times \<Rightarrow> string \<Rightarrow> string \<Rightarrow> string \<Rightarrow> jsonl_event \<times> drawn \<Rightarrow> (json \<times> string) option" where
  "encode_event ti cwd sid parent ew = (case ew of (e, w) \<Rightarrow>
     let ts = trim_space (je_timestamp e); ts = (if ts = [] then ti_show_nano ti (ti_now ti) else ts); k = trim_space (je_type e) in
     if k = ''user'' then Some (claude_user_event cwd sid parent ts w (je_text e), dw_uuid w)
     else if k = ''assistant'' then Some (claude_assistant_event cwd sid parent ts w (je_text e), dw_uuid w)
     else if k = ''ai-title'' then Some (claude_title_event cwd sid ts w (je_text e), parent)
     else if k = ''last-prompt'' then Some (claude_prompt_event sid parent w (je_text e), dw_uuid w)
     else None)"

definition event_text :: "json \<Rightarrow> string" where
  "event_text j = struct_text False (\<lambda>l. l) j @ [nl]"

fun event_lines :: "times \<Rightarrow> string \<Rightarrow> string \<Rightarrow> string \<Rightarrow> (jsonl_event \<times> drawn) list \<Rightarrow> string list" where
  "event_lines ti cwd sid parent [] = []"
| "event_lines ti cwd sid parent (e # es) = (case encode_event ti cwd sid parent e of
     None \<Rightarrow> event_lines ti cwd sid parent es
   | Some (j, next) \<Rightarrow> event_text j # event_lines ti cwd sid next es)"

text \<open>The UUID on the last line of the file, as far as that line lies in the last 4096 bytes.\<close>

definition uuid_of_line :: "string \<Rightarrow> string" where
  "uuid_of_line l =
     (if l = [] then []
      else case (do { v \<leftarrow> json_parse l; ms \<leftarrow> struct_members l v; string_field ''uuid'' ms }) of Some u \<Rightarrow> trim_space u | None \<Rightarrow> [])"

definition last_uuid :: "string \<Rightarrow> string" where
  "last_uuid c = (case fst (scan_lines (64 * 1024) (last_n 4096 c)) of [] \<Rightarrow> [] | ls \<Rightarrow> uuid_of_line (last ls))"

definition read_last_uuid :: "file_read \<Rightarrow> string" where
  "read_last_uuid f = (case f of Content c \<Rightarrow> last_uuid c | _ \<Rightarrow> [])"

text \<open>The lines one after the other, until a write fails; what is appended to a file that cannot be read is not seen.\<close>

fun put_lines :: "(nat \<Rightarrow> nat option) \<Rightarrow> nat \<Rightarrow> string list \<Rightarrow> string \<times> bool" where
  "put_lines torn k [] = ([], False)"
| "put_lines torn k (l # ls) = (case torn k of
     Some n \<Rightarrow> (take n l, True)
   | None \<Rightarrow> (case put_lines torn (Suc k) ls of (t, e) \<Rightarrow> (l @ t, e)))"

definition append_to :: "file_read \<Rightarrow> string \<Rightarrow> file_read" where
  "append_to f t = (case f of Missing \<Rightarrow> Content t | Content c \<Rightarrow> Content (c @ t) | Unreadable \<Rightarrow> Unreadable)"

definition session_file :: "string \<Rightarrow> string \<Rightarrow> string \<Rightarrow> string" where
  "session_file projects cwd sid = join_path (join_path projects (encode_cwd_to_project_dir cwd)) (sid @ ''.jsonl'')"

definition write_session_to_jsonl ::
  "claude_disk \<Rightarrow> times \<Rightarrow> string \<Rightarrow> string \<Rightarrow> (jsonl_event \<times> drawn) list \<Rightarrow> sync_error option \<times> files" where
  "write_session_to_jsonl d ti cwd sid es =
     (if trim_space cwd = [] \<or> trim_space sid = [] \<or> es = [] then (None, cd_files d)
      else case claude_projects_dir d of
          None \<Rightarrow> (Some Home_error, cd_files d)
        | Some projects \<Rightarrow>
            if encode_cwd_to_project_dir cwd = [] then (Some (Encode_cwd_error cwd), cd_files d)
            else let dir = join_path projects (encode_cwd_to_project_dir cwd); p = session_file projects cwd sid in
              if cd_no_dir d dir then (Some (Make_dir_error dir), cd_files d)
              else if cd_no_append d p then (Some (Append_error p), cd_files d)
              else case put_lines (cd_torn d) 0 (event_lines ti cwd sid (read_last_uuid (cd_files d p)) es) of
                  (t, e) \<Rightarrow> (if e then Some Event_error else None, (cd_files d)(p := append_to (cd_files d p) t)))"

text \<open>
  When the runner ends, the file gets two header lines in front of the first line that is not an entry of the queue.
  The identifier and the directory stand in them as they are. None is a file that is not rewritten.
\<close>

text \<open>A tilde stands for a double quote.\<close>

definition dq :: "string \<Rightarrow> string" where
  "dq s = map (\<lambda>c. if c = CHR ''~'' then Json.quote else c) s"

definition header_lines :: "string \<Rightarrow> string \<Rightarrow> string \<Rightarrow> string list" where
  "header_lines sid cwd ts =
     (let rest = sid @ dq ''~,~cwd~:~'' @ cwd @ dq ''~,~timestamp~:~'' @ ts @ dq ''~,~version~:~2.1.119~,~entrypoint~:~cli~}'' in
      [dq ''{~type~:~permission-mode~,~permissionMode~:~default~,~sessionId~:~'' @ rest,
       dq ''{~type~:~file-history-snapshot~,~sessionId~:~'' @ rest])"

fun normalize_lines :: "string list \<Rightarrow> bool \<Rightarrow> string list \<Rightarrow> string list" where
  "normalize_lines header written [] = []"
| "normalize_lines header written (l # ls) =
     (let l = trim_space l in
      if l = [] then normalize_lines header written ls
      else if \<not> written \<and> str_contains l (dq ''~type~:~queue-operation~'') then normalize_lines header written ls
      else (if written then [] else header) @ l # normalize_lines header True ls)"

definition normalized_content :: "string \<Rightarrow> string \<Rightarrow> string \<Rightarrow> string \<Rightarrow> string option" where
  "normalized_content sid cwd ts content =
     (case normalize_lines (header_lines sid cwd ts) False (split_on nl content) of
        [] \<Rightarrow> None | ls \<Rightarrow> Some (join [nl] ls @ [nl]))"

definition normalize_session_jsonl :: "claude_disk \<Rightarrow> times \<Rightarrow> string \<Rightarrow> string \<Rightarrow> files" where
  "normalize_session_jsonl d ti sid cwd =
     (let r = (case cd_abs d cwd of Some a \<Rightarrow> a | None \<Rightarrow> cwd); r = (case cd_links d r of Some l \<Rightarrow> l | None \<Rightarrow> r) in
      if sid = [] \<or> cwd = [] then cd_files d
      else case claude_projects_dir d of
          None \<Rightarrow> cd_files d
        | Some projects \<Rightarrow>
            let p = join_path (join_path projects (dashed r)) (sid @ ''.jsonl'') in
            case cd_files d p of
                Content c \<Rightarrow> (case normalized_content sid r (ti_show_nano ti (ti_now ti)) c of
                    None \<Rightarrow> cd_files d
                  | Some t \<Rightarrow> (cd_files d)(p := Content (fst (put_lines (cd_torn d) 0 [t]))))
              | _ \<Rightarrow> cd_files d)"

section \<open>Exchanging messages with a session of the store\<close>

definition entry_text :: "log_entry \<Rightarrow> string" where
  "entry_text e = (if trim_space (ln_message e) = [] then trim_space (ln_text e) else trim_space (ln_message e))"

definition extract_event :: "log_entry \<Rightarrow> jsonl_event list" where
  "extract_event e =
     (if entry_text e = [] then []
      else if ln_kind e = ''user'' then [\<lparr>je_type = ''user'', je_text = entry_text e, je_timestamp = ln_timestamp e\<rparr>]
      else if ln_kind e = ''markdown'' then [\<lparr>je_type = ''assistant'', je_text = entry_text e, je_timestamp = ln_timestamp e\<rparr>]
      else [])"

text \<open>None is the panic of an index below zero.\<close>

definition extract_jsonl_events :: "log_entry list \<Rightarrow> int \<Rightarrow> (jsonl_event list \<times> int) option" where
  "extract_jsonl_events es start =
     (if int (length es) \<le> start then Some ([], int (length es))
      else if start < 0 then None
      else Some (concat (map extract_event (drop (nat start) es)), int (length es)))"

definition entry_dedup_key :: "log_entry \<Rightarrow> string" where
  "entry_dedup_key e = (if entry_text e = [] then [] else ln_kind e @ '':'' @ join '' '' (GoStrings.fields (entry_text e)))"

fun unseen_entries :: "string set \<Rightarrow> log_entry list \<Rightarrow> log_entry list" where
  "unseen_entries seen [] = []"
| "unseen_entries seen (e # es) =
     (if entry_dedup_key e = [] \<or> entry_dedup_key e \<in> seen then unseen_entries seen es
      else e # unseen_entries (insert (entry_dedup_key e) seen) es)"

text \<open>The entries that are new, and how many there are with the old ones.\<close>

definition merge_entries :: "log_entry list \<Rightarrow> log_entry list \<Rightarrow> log_entry list \<times> int" where
  "merge_entries native existing =
     (let new = unseen_entries (entry_dedup_key ` set existing - {[]}) native in
      if new = [] then ([], 0) else (new, int (length existing + length new)))"

definition merge_jsonl_to_session ::
  "claude_disk \<Rightarrow> times \<Rightarrow> string \<Rightarrow> string \<Rightarrow> log_entry list \<Rightarrow> sync_error + log_entry list \<times> int" where
  "merge_jsonl_to_session d ti cwd sid existing =
     (if trim_space cwd = [] \<or> trim_space sid = [] then Inr ([], 0)
      else case claude_projects_dir d of
          None \<Rightarrow> Inl Home_error
        | Some projects \<Rightarrow>
            if encode_cwd_to_project_dir cwd = [] then Inr ([], 0)
            else let p = session_file projects cwd sid in
              if cd_files d p = Missing then Inr ([], 0)
              else case parse_session_from_file ti (cd_files d p) sid of
                  None \<Rightarrow> Inl Parse_error
                | Some s \<Rightarrow> Inr (merge_entries (ns_entries s) existing))"

section \<open>What is written is read\<close>

lemma takeWhile_line: "nl \<notin> set l \<Longrightarrow> takeWhile (\<lambda>c. c \<noteq> nl) (l @ nl # s) = l" "nl \<notin> set l \<Longrightarrow> takeWhile (\<lambda>c. c \<noteq> nl) l = l"
  by (induction l) auto

lemma scan_lines_Nil [simp]: "scan_lines room [] = ([], False)"
  by (subst scan_lines.simps) simp

lemma scan_lines_line:
  assumes "nl \<notin> set l" and "length l < room"
  shows "scan_lines room (l @ nl # s) = apfst ((#) (drop_cr l)) (scan_lines room s)"
  using assms by (subst scan_lines.simps) (simp add: takeWhile_line Let_def case_prod_beta apfst_def map_prod_def)

lemma scan_lines_append:
  assumes "c = [] \<or> last c = nl" and "scan_lines room c = (ls, False)"
  shows "scan_lines room (c @ s) = apfst ((@) ls) (scan_lines room s)"
  using assms
proof (induction "length c" arbitrary: c ls rule: less_induct)
  case less
  show ?case
  proof (cases "c = []")
    case False
    then have "nl \<in> set c"
      using less.prems(1) last_in_set by metis
    then obtain l r where c: "c = l @ nl # r" "nl \<notin> set l"
      using split_list_first by metis
    then have short: "length l < room"
      using less.prems(2) by (subst (asm) scan_lines.simps) (auto simp: takeWhile_line Let_def split: if_splits)
    obtain ls' where ls': "scan_lines room r = (ls', False)" "ls = drop_cr l # ls'"
      using less.prems(2) scan_lines_line [OF c(2) short, of r] unfolding c(1) by (cases "scan_lines room r") auto
    have "r = [] \<or> last r = nl"
      using less.prems(1) c(1) by (cases "r = []") simp_all
    then have "scan_lines room (r @ s) = apfst ((@) ls') (scan_lines room s)"
      using c(1) ls'(1) by (intro less.hyps) simp_all
    then show ?thesis
      using scan_lines_line [OF c(2) short, of "r @ s"] c(1) ls'(2) by (simp add: apfst_def map_prod_def case_prod_beta)
  qed (use less.prems in \<open>simp add: apfst_def map_prod_def\<close>)
qed

lemma scan_lines_concat:
  assumes "\<forall>l\<in>set ls. length l < room \<and> nl \<notin> set l \<and> drop_cr l = l"
  shows "scan_lines room (concat (map (\<lambda>l. l @ [nl]) ls)) = (ls, False)"
  using assms
proof (induction ls)
  case (Cons l ls)
  then show ?case
    using scan_lines_line [of l room "concat (map (\<lambda>l. l @ [nl]) ls)"] by simp
qed simp

text \<open>Where a member of an object stands: the last key that is the name of the field.\<close>

definition key_at :: "string \<Rightarrow> string list \<Rightarrow> nat option" where
  "key_at name ks = find (\<lambda>i. equal_fold (clean (ks ! i)) name) (rev [0..<length ks])"

lemma find_rev_map: "find P (rev (map h ys)) = map_option h (find (P \<circ> h) (rev ys))"
  by (induction ys rule: rev_induct) auto

lemma find_cong_on: "(\<And>x. x \<in> set xs \<Longrightarrow> P x = Q x) \<Longrightarrow> find P xs = find Q xs"
  by (induction xs) auto

lemma field_object:
  "field name (map (\<lambda>(k, v). (clean k, f v, g v)) xs) = map_option (\<lambda>i. (f (snd (xs ! i)), g (snd (xs ! i)))) (key_at name (map fst xs))"
proof -
  let ?h = "\<lambda>(k, v). (clean k, f v, g v)"
  have "map ?h xs = map (?h \<circ> (!) xs) [0..<length xs]"
    by (simp only: map_map [symmetric] map_nth)
  then have "find (\<lambda>(k, _). equal_fold k name) (rev (map ?h xs)) =
      map_option (?h \<circ> (!) xs) (find (\<lambda>i. equal_fold (clean (fst (xs ! i))) name) (rev [0..<length xs]))"
    by (simp only: find_rev_map) (simp add: comp_def case_prod_beta)
  moreover have "key_at name (map fst xs) = find (\<lambda>i. equal_fold (clean (fst (xs ! i))) name) (rev [0..<length xs])"
    unfolding key_at_def length_map by (rule find_cong_on) simp
  ultimately show ?thesis
    unfolding field_def by (simp add: option.map_comp comp_def case_prod_beta)
qed

definition members_of :: "(string \<times> json) list \<Rightarrow> (string \<times> string \<times> json) list" where
  "members_of xs = map (\<lambda>(k, v). (clean k, struct_text False (\<lambda>l. l) v, read_back (\<lambda>l. l) v)) xs"

abbreviation written :: "json \<Rightarrow> string" where
  "written j \<equiv> struct_text False (\<lambda>l. l) j"

abbreviation plain_numbers :: "json \<Rightarrow> bool" where
  "plain_numbers j \<equiv> writable (\<lambda>l. l) j"

lemma read_struct:
  assumes "plain_numbers (JObject xs)"
  shows "\<exists>v. json_parse (written (JObject xs)) = Some v \<and> struct_members (written (JObject xs)) v = Some (members_of xs)"
  using struct_round_trip [OF assms, of False] struct_members_read [OF assms, of False]
  by (simp add: struct_members_def members_of_def)

lemma read_member:
  assumes "plain_numbers (JObject xs)"
  shows "struct_members (written (JObject xs)) (read_back (\<lambda>l. l) (JObject xs)) = Some (members_of xs)"
  using struct_members_read [OF assms, of False] by (simp add: struct_members_def members_of_def)

lemma string_member:
  "string_field name (members_of xs) = (case key_at name (map fst xs) of
     None \<Rightarrow> Some []
   | Some i \<Rightarrow> (case snd (xs ! i) of JString s \<Rightarrow> Some (clean s) | JNull \<Rightarrow> Some [] | _ \<Rightarrow> None))"
  unfolding string_field_def members_of_def field_object by (auto split: option.split json.split)

lemma raw_member:
  "raw_field name (members_of xs) = (case key_at name (map fst xs) of None \<Rightarrow> [] | Some i \<Rightarrow> written (snd (xs ! i)))"
  unfolding raw_field_def members_of_def field_object by (auto split: option.split)

definition user_keys :: "string list" where
  "user_keys = [''parentUuid'', ''isSidechain'', ''promptId'', ''type'', ''message'', ''uuid'', ''timestamp'', ''permissionMode'',
     ''userType'', ''entrypoint'', ''cwd'', ''sessionId'', ''version'', ''gitBranch'']"

definition assistant_keys :: "string list" where
  "assistant_keys = [''parentUuid'', ''isSidechain'', ''type'', ''message'', ''uuid'', ''timestamp'', ''userType'', ''entrypoint'',
     ''cwd'', ''sessionId'', ''version'', ''gitBranch'']"

text \<open>Keys of ASCII characters, among which the names are told apart.\<close>

definition plain_keys :: "string list \<Rightarrow> bool" where
  "plain_keys ks \<longleftrightarrow> list_all (list_all (\<lambda>c. byte c < 0x80)) ks \<and> distinct (map to_lower ks)"

lemma key_at_plain:
  assumes "plain_keys ks" and "i < length ks" and "to_lower (ks ! i) = to_lower name"
  shows "key_at name ks = Some i"
proof -
  have "clean (ks ! j) = ks ! j" if "j < length ks" for j
    using assms(1) that by (intro clean_ascii) (simp add: plain_keys_def list_all_length)
  then have "equal_fold (clean (ks ! j)) name \<longleftrightarrow> j = i" if "j < length ks" for j
    using assms that nth_eq_iff_index_eq [of "map to_lower ks" j i] by (simp add: equal_fold_def plain_keys_def)
  then have "key_at name ks = find (\<lambda>j. j = i) (rev [0..<length ks])"
    unfolding key_at_def by (intro find_cong_on) simp
  also have "\<dots> = Some i"
  proof -
    have "find (\<lambda>j. j = i) js = Some i" if "i \<in> set js" for js
      using that by (induction js) auto
    then show ?thesis
      using assms(2) by simp
  qed
  finally show ?thesis .
qed

abbreviation message_keys :: "string list" where
  "message_keys \<equiv> [''id'', ''type'', ''role'', ''model'', ''content'', ''stop_reason'', ''stop_sequence'', ''usage'']"

lemma keys_plain: "plain_keys user_keys" "plain_keys assistant_keys" "plain_keys [''role'', ''content'']" "plain_keys message_keys"
  "plain_keys [''type'', ''text'']"
  by code_simp+

lemma key_positions:
  "key_at ''type'' user_keys = Some 3" "key_at ''message'' user_keys = Some 4" "key_at ''uuid'' user_keys = Some 5"
  "key_at ''timestamp'' user_keys = Some 6" "key_at ''cwd'' user_keys = Some 10" "key_at ''sessionId'' user_keys = Some 11"
  by (rule key_at_plain [OF keys_plain(1)]; simp add: user_keys_def)+

lemma assistant_key_positions:
  "key_at ''type'' assistant_keys = Some 2" "key_at ''message'' assistant_keys = Some 3" "key_at ''uuid'' assistant_keys = Some 4"
  "key_at ''timestamp'' assistant_keys = Some 5" "key_at ''cwd'' assistant_keys = Some 8"
  "key_at ''sessionId'' assistant_keys = Some 9"
  by (rule key_at_plain [OF keys_plain(2)]; simp add: assistant_keys_def)+

lemma message_key_positions:
  "key_at ''role'' [''role'', ''content''] = Some 0" "key_at ''content'' [''role'', ''content''] = Some 1"
  "key_at ''content'' message_keys = Some 4" "key_at ''type'' [''type'', ''text''] = Some 0"
  "key_at ''text'' [''type'', ''text''] = Some 1"
  by (rule key_at_plain, rule keys_plain; simp)+

lemmas positions = key_positions assistant_key_positions message_key_positions

lemma clean_words: "clean ''user'' = ''user''" "clean ''assistant'' = ''assistant''" "clean ''text'' = ''text''"
  "trim_space ''user'' = ''user''" "trim_space ''assistant'' = ''assistant''" "trim_space ''text'' = ''text''"
  by code_simp+

definition user_message :: "string \<Rightarrow> json" where
  "user_message t = JObject [(''role'', JString ''user''), (''content'', JString t)]"

lemma user_message_read: "extract_user_message_text (written (user_message t)) = trim_space (clean t)"
proof -
  let ?xs = "[(''role'', JString ''user''), (''content'', JString t)]"
  have "user_content (written (user_message t)) = written (JString t)"
    using read_struct [of ?xs] by (auto simp: user_content_def user_message_def string_member raw_member positions)
  moreover have "json_parse (written (JString t)) = Some (JString (clean t))"
    using struct_round_trip [of "\<lambda>l. l" "JString t" False] by simp
  ultimately show ?thesis
    by (simp add: extract_user_message_text_def quoted_def)
qed

definition assistant_message :: "string \<Rightarrow> string \<Rightarrow> (string \<times> json) list" where
  "assistant_message i t = [(''id'', JString (''msg_'' @ i)), (''type'', JString ''message''), (''role'', JString ''assistant''),
     (''model'', JString ''claude-sonnet-4-6''), (''content'', JList [JObject [(''type'', JString ''text''), (''text'', JString t)]]),
     (''stop_reason'', JString ''end_turn''), (''stop_sequence'', JNull),
     (''usage'', JObject [(''input_tokens'', JNumber ''0''), (''output_tokens'', JNumber ''0'')])]"

lemma zero_literal: "number_literal ''0''"
  by code_simp

lemma assistant_message_read: "extract_assistant_text (written (JObject (assistant_message i t))) = trim_space (clean t)"
proof -
  let ?b = "[(''type'', JString ''text''), (''text'', JString t)]"
  have "plain_numbers (JObject (assistant_message i t))"
    by (simp add: assistant_message_def zero_literal)
  from read_struct [OF this]
  have content: "assistant_content (written (JObject (assistant_message i t))) = written (JList [JObject ?b])"
    by (auto simp: assistant_content_def assistant_message_def raw_member positions)
  have "decode_text_block (written (JObject ?b), read_back (\<lambda>l. l) (JObject ?b)) = Some (''text'', clean t)"
    using read_member [of ?b] by (simp add: decode_text_block_def string_member positions clean_words)
  then have "decode_text_blocks (written (JList [JObject ?b])) = Some [(''text'', clean t)]"
    using struct_round_trip [of "\<lambda>l. l" "JList [JObject ?b]" False] struct_elems_read [of "\<lambda>l. l" "[JObject ?b]" False]
    by (simp add: decode_text_blocks_def del: read_back.simps(6))
  then show ?thesis
    unfolding extract_assistant_text_def content Let_def by (simp add: first_block_text_def clean_words)
qed

lemma user_event_object: "claude_user_event cwd sid parent ts w t =
  JObject (zip user_keys [uuid_or_null parent, JBool False, JString (dw_prompt w), JString ''user'', user_message t,
    JString (dw_uuid w), JString ts, JString ''default'', JString ''external'', JString ''cli'', JString cwd, JString sid,
    JString synthetic_version, JString ''main''])"
  by (simp add: claude_user_event_def user_keys_def user_message_def)

lemma assistant_event_object: "claude_assistant_event cwd sid parent ts w t =
  JObject (zip assistant_keys [uuid_or_null parent, JBool False, JString ''assistant'', JObject (assistant_message (dw_letters w) t),
    JString (dw_uuid w), JString ts, JString ''external'', JString ''cli'', JString cwd, JString sid,
    JString synthetic_version, JString ''main''])"
  by (simp add: claude_assistant_event_def assistant_keys_def assistant_message_def)

lemma plain_event: "plain_numbers (claude_user_event cwd sid parent ts w t)" "plain_numbers (claude_assistant_event cwd sid parent ts w t)"
  by (simp_all add: claude_user_event_def claude_assistant_event_def uuid_or_null_def zero_literal)

lemma decode_object:
  assumes "plain_numbers (JObject xs)"
  shows "decode_line (written (JObject xs)) = do {
     t \<leftarrow> string_field ''type'' (members_of xs); s \<leftarrow> string_field ''sessionId'' (members_of xs);
     c \<leftarrow> string_field ''cwd'' (members_of xs); ts \<leftarrow> string_field ''timestamp'' (members_of xs);
     Some \<lparr>jl_type = t, jl_session = s, jl_cwd = c, jl_timestamp = ts, jl_message = raw_field ''message'' (members_of xs)\<rparr> }"
  using read_struct [OF assms] by (auto simp: decode_line_def)

lemma key_at_less: "key_at name ks = Some i \<Longrightarrow> i < length ks"
proof -
  have "find P xs = Some i \<Longrightarrow> i \<in> set xs" for P xs
    by (induction xs) (auto split: if_splits)
  then show "key_at name ks = Some i \<Longrightarrow> ?thesis"
    unfolding key_at_def by fastforce
qed

lemma zip_members:
  assumes "length ks = length vs"
  shows "string_field name (members_of (zip ks vs)) = (case key_at name ks of
       None \<Rightarrow> Some [] | Some i \<Rightarrow> (case vs ! i of JString s \<Rightarrow> Some (clean s) | JNull \<Rightarrow> Some [] | _ \<Rightarrow> None))"
    and "raw_field name (members_of (zip ks vs)) = (case key_at name ks of None \<Rightarrow> [] | Some i \<Rightarrow> written (vs ! i))"
  unfolding string_member raw_member using assms by (auto simp: nth_zip dest!: key_at_less split: option.split)

lemma decode_user_event: "decode_line (written (claude_user_event cwd sid parent ts w t)) =
  Some \<lparr>jl_type = ''user'', jl_session = clean sid, jl_cwd = clean cwd, jl_timestamp = clean ts, jl_message = written (user_message t)\<rparr>"
  using plain_event(1) [of cwd sid parent ts w t] unfolding user_event_object
  by (subst decode_object, assumption) (subst zip_members, simp add: user_keys_def, simp add: key_positions clean_words)+

lemma decode_assistant_event: "decode_line (written (claude_assistant_event cwd sid parent ts w t)) =
  Some \<lparr>jl_type = ''assistant'', jl_session = clean sid, jl_cwd = clean cwd, jl_timestamp = clean ts,
    jl_message = written (JObject (assistant_message (dw_letters w) t))\<rparr>"
  using plain_event(2) [of cwd sid parent ts w t] unfolding assistant_event_object
  by (subst decode_object, assumption) (subst zip_members, simp add: assistant_keys_def, simp add: assistant_key_positions clean_words)+

text \<open>The entries a line adds to a session do not depend on the session.\<close>

definition line_entries :: "times \<Rightarrow> string \<Rightarrow> log_entry list" where
  "line_entries ti l = ns_entries (session_line ti l empty_native)"

lemma session_line_entries: "ns_entries (session_line ti l s) = ns_entries s @ line_entries ti l"
  by (simp add: line_entries_def session_line_def add_user_line_def add_assistant_line_def empty_native_def Let_def split: option.split)

lemma fold_entries: "ns_entries (fold (session_line ti) ls s) = ns_entries s @ concat (map (line_entries ti) ls)"
  by (induction ls arbitrary: s) (simp_all add: session_line_entries)

lemma parse_session_entries:
  "map_option ns_entries (parse_session ti c sid) = (case scan_lines session_line_size c of
     (ls, e) \<Rightarrow> if e then None else Some (concat (map (line_entries ti) ls)))"
  by (simp add: parse_session_def fold_entries empty_native_def split: prod.split)

text \<open>What is read of an event that has been written.\<close>

definition event_stamp :: "times \<Rightarrow> jsonl_event \<Rightarrow> string" where
  "event_stamp ti e = (if trim_space (je_timestamp e) = [] then ti_show_nano ti (ti_now ti) else trim_space (je_timestamp e))"

definition event_entries :: "times \<Rightarrow> jsonl_event \<Rightarrow> log_entry list" where
  "event_entries ti e =
     (let t = trim_space (clean (je_text e)); ts = normalize_jsonl_timestamp ti (clean (event_stamp ti e)) in
      if trim_space (je_type e) = ''user''
      then (if is_meaningful_prompt_text t then [plain_entry ''user'' txt_history_input t ts] else [])
      else if t = [] then [] else [plain_entry ''markdown'' [] t ts])"

definition message_event :: "jsonl_event \<Rightarrow> bool" where
  "message_event e \<longleftrightarrow> trim_space (je_type e) = ''user'' \<or> trim_space (je_type e) = ''assistant''"

lemma object_line: "drop_cr (written (JObject xs)) = written (JObject xs)"
  by (simp add: struct_text.simps(6) drop_cr_def)

lemma event_no_nl: "nl \<notin> set (written (claude_user_event cwd sid parent ts w t))" "nl \<notin> set (written (claude_assistant_event cwd sid parent ts w t))"
proof -
  have zero: "nl \<notin> set ''0''"
    by code_simp
  have "written j = struct_text False (\<lambda>_. ''0'') j"
    if "j = claude_user_event cwd sid parent ts w t \<or> j = claude_assistant_event cwd sid parent ts w t" for j
    using that by (auto simp: claude_user_event_def claude_assistant_event_def uuid_or_null_def struct_text.simps(6))
  then show "nl \<notin> set (written (claude_user_event cwd sid parent ts w t))" "nl \<notin> set (written (claude_assistant_event cwd sid parent ts w t))"
    using struct_text_no_nl [of "\<lambda>_. ''0''" False, OF zero] by simp_all
qed

lemma event_line:
  assumes "message_event e"
  shows "\<exists>xs next. encode_event ti cwd sid parent (e, w) = Some (JObject xs, next) \<and>
    nl \<notin> set (written (JObject xs)) \<and> drop_cr (written (JObject xs)) = written (JObject xs) \<and>
    line_entries ti (written (JObject xs)) = event_entries ti e"
proof (cases "trim_space (je_type e) = ''user''")
  case True
  then have "encode_event ti cwd sid parent (e, w) = Some (claude_user_event cwd sid parent (event_stamp ti e) w (je_text e), dw_uuid w)"
    by (simp add: encode_event_def event_stamp_def)
  moreover have "line_entries ti (written (claude_user_event cwd sid parent (event_stamp ti e) w (je_text e))) = event_entries ti e"
    using True by (simp add: line_entries_def session_line_def decode_user_event user_message_read clean_words add_user_line_def
        empty_native_def event_entries_def Let_def)
  ultimately show ?thesis
    using event_no_nl(1) object_line unfolding user_event_object by blast
next
  case False
  then have a: "trim_space (je_type e) = ''assistant''"
    using assms by (simp add: message_event_def)
  then have "encode_event ti cwd sid parent (e, w) = Some (claude_assistant_event cwd sid parent (event_stamp ti e) w (je_text e), dw_uuid w)"
    by (simp add: encode_event_def event_stamp_def)
  moreover have "line_entries ti (written (claude_assistant_event cwd sid parent (event_stamp ti e) w (je_text e))) = event_entries ti e"
    using False a by (simp add: line_entries_def session_line_def decode_assistant_event assistant_message_read clean_words add_assistant_line_def
        empty_native_def event_entries_def Let_def)
  ultimately show ?thesis
    using event_no_nl(2) object_line unfolding assistant_event_object by blast
qed

text \<open>The lines of message events, without their line breaks, and what is read of them.\<close>

lemma event_lines_read:
  assumes "\<forall>(e, w)\<in>set es. message_event e"
  shows "\<exists>ls. event_lines ti cwd sid parent es = map (\<lambda>l. l @ [nl]) ls \<and> (\<forall>l\<in>set ls. nl \<notin> set l \<and> drop_cr l = l) \<and>
    concat (map (line_entries ti) ls) = concat (map (\<lambda>(e, w). event_entries ti e) es)"
  using assms
proof (induction es arbitrary: parent)
  case (Cons ew es)
  obtain e w where ew: "ew = (e, w)"
    by force
  obtain xs u where e: "encode_event ti cwd sid parent (e, w) = Some (JObject xs, u)" "nl \<notin> set (written (JObject xs))"
      "drop_cr (written (JObject xs)) = written (JObject xs)"
      "line_entries ti (written (JObject xs)) = event_entries ti e"
    using event_line [of e ti cwd sid parent w] Cons.prems ew by auto
  obtain ls where "event_lines ti cwd sid u es = map (\<lambda>l. l @ [nl]) ls" "\<forall>l\<in>set ls. nl \<notin> set l \<and> drop_cr l = l"
      "concat (map (line_entries ti) ls) = concat (map (\<lambda>(e, w). event_entries ti e) es)"
    using Cons.IH [of u] Cons.prems by auto
  then show ?case
    using e ew by (intro exI [of _ "written (JObject xs) # ls"]) (simp add: event_text_def)
qed simp

section \<open>Properties\<close>

definition file_text :: "file_read \<Rightarrow> string" where
  "file_text f = (case f of Content c \<Rightarrow> c | _ \<Rightarrow> [])"

text \<open>The file ends at the end of a line, and no line that is added is too long to be read.\<close>

definition ready_for :: "claude_disk \<Rightarrow> times \<Rightarrow> string \<Rightarrow> string \<Rightarrow> string \<Rightarrow> (jsonl_event \<times> drawn) list \<Rightarrow> bool" where
  "ready_for d ti p cwd sid es \<longleftrightarrow>
     cd_files d p \<noteq> Unreadable \<and> (file_text (cd_files d p) = [] \<or> last (file_text (cd_files d p)) = nl) \<and>
     list_all (\<lambda>l. length l \<le> session_line_size) (event_lines ti cwd sid (read_last_uuid (cd_files d p)) es)"

definition file_entries :: "times \<Rightarrow> file_read \<Rightarrow> string \<Rightarrow> log_entry list option" where
  "file_entries ti f sid = (if f = Missing then Some [] else map_option ns_entries (parse_session_from_file ti f sid))"

lemma put_lines_all: "put_lines torn k ls = (t, False) \<Longrightarrow> t = concat ls"
  by (induction ls arbitrary: k t) (auto split: option.splits prod.splits)

lemma file_entries_append:
  assumes "file_entries ti f sid = Some es" and "f \<noteq> Unreadable" and "file_text f = [] \<or> last (file_text f) = nl"
    and "\<forall>l\<in>set ls. length l < session_line_size \<and> nl \<notin> set l \<and> drop_cr l = l"
  shows "file_entries ti (append_to f (concat (map (\<lambda>l. l @ [nl]) ls))) sid = Some (es @ concat (map (line_entries ti) ls))"
proof -
  let ?c = "file_text f" and ?new = "concat (map (\<lambda>l. l @ [nl]) ls)"
  obtain old where old: "scan_lines session_line_size ?c = (old, False)" "concat (map (line_entries ti) old) = es"
  proof (cases f)
    case Missing
    then show ?thesis
      using assms(1) that [of "[]"] by (simp add: file_entries_def file_text_def)
  next
    case (Content c)
    then show ?thesis
      using assms(1) that
      by (auto simp: file_entries_def file_text_def parse_session_from_file_def parse_session_entries split: prod.splits if_splits)
  qed (use assms(2) in simp)
  have "scan_lines session_line_size (?c @ ?new) = (old @ ls, False)"
    using scan_lines_append [OF assms(3) old(1), of ?new] scan_lines_concat [OF assms(4)] by simp
  moreover have "append_to f ?new = Content (?c @ ?new)"
    using assms(2) by (cases f) (simp_all add: append_to_def file_text_def)
  ultimately show ?thesis
    using old(2) by (simp add: file_entries_def parse_session_from_file_def parse_session_entries)
qed

lemma written_is_appended:
  assumes "write_session_to_jsonl d ti cwd sid es = (None, files')" and "claude_projects_dir d = Some projects"
    and "trim_space cwd \<noteq> []" and "trim_space sid \<noteq> []" and "es \<noteq> []"
  shows "files' = (cd_files d)(session_file projects cwd sid := append_to (cd_files d (session_file projects cwd sid))
    (concat (event_lines ti cwd sid (read_last_uuid (cd_files d (session_file projects cwd sid))) es)))"
  using assms put_lines_all [of "cd_torn d" 0]
  by (auto simp: write_session_to_jsonl_def Let_def split: if_splits prod.splits)

lemma message_lines_read:
  assumes "list_all (\<lambda>(e, w). message_event e) es" and "ready_for d ti p cwd sid es" and "file_entries ti (cd_files d p) sid = Some old"
  shows "file_entries ti (append_to (cd_files d p) (concat (event_lines ti cwd sid (read_last_uuid (cd_files d p)) es))) sid =
    Some (old @ concat (map (\<lambda>(e, w). event_entries ti e) es))"
proof -
  let ?ls = "event_lines ti cwd sid (read_last_uuid (cd_files d p)) es"
  obtain ls where ls: "?ls = map (\<lambda>l. l @ [nl]) ls" "\<forall>l\<in>set ls. nl \<notin> set l \<and> drop_cr l = l"
      "concat (map (line_entries ti) ls) = concat (map (\<lambda>(e, w). event_entries ti e) es)"
    using event_lines_read assms(1) unfolding list_all_iff by blast
  moreover have "\<forall>l\<in>set ls. length l < session_line_size"
    using assms(2) ls(1) by (auto simp: ready_for_def list_all_iff)
  ultimately show ?thesis
    using file_entries_append [OF assms(3), of ls] assms(2) by (simp add: ready_for_def)
qed

text \<open>
  C1: Messages that are written to a session of Claude are in it: when they have been written, the conversation read from
  the file is the one that was there, followed by the messages in their order, each with its text and its role; messages
  without a text, and placeholders of the user, are the only ones that are not shown.
\<close>

theorem written_messages_are_read:
  assumes "write_session_to_jsonl d ti cwd sid es = (None, files')" and "claude_projects_dir d = Some projects"
    and "trim_space cwd \<noteq> []" and "trim_space sid \<noteq> []"
    and "list_all (\<lambda>(e, w). message_event e) es" and "ready_for d ti (session_file projects cwd sid) cwd sid es"
    and "file_entries ti (cd_files d (session_file projects cwd sid)) sid = Some old"
  shows "file_entries ti (files' (session_file projects cwd sid)) sid = Some (old @ concat (map (\<lambda>(e, w). event_entries ti e) es))"
proof (cases "es = []")
  case True
  then show ?thesis
    using assms(1,7) by (simp add: write_session_to_jsonl_def)
next
  case False
  show ?thesis
    using written_is_appended [OF assms(1-4) False] message_lines_read [OF assms(5-7)] by simp
qed

lemma unseen_none: "unseen_entries seen xs = [] \<longleftrightarrow> (\<forall>e\<in>set xs. entry_dedup_key e = [] \<or> entry_dedup_key e \<in> seen)"
  by (induction xs arbitrary: seen) auto

lemma merge_entries_none:
  "fst (merge_entries native existing) = [] \<longleftrightarrow>
     (\<forall>e\<in>set native. entry_dedup_key e = [] \<or> entry_dedup_key e \<in> entry_dedup_key ` set existing)"
  unfolding merge_entries_def Let_def by (auto simp: unseen_none)

lemma entry_text_trimmed [simp]: "trim_space (entry_text e) = entry_text e"
  by (simp add: entry_text_def)

lemma extracted_key:
  assumes "ev \<in> set (extract_event e)" and "clean (entry_text e) = entry_text e" and "x \<in> set (event_entries ti ev)"
  shows "entry_dedup_key x = entry_dedup_key e"
proof -
  have words: "trim_space ''user'' = ''user''" "trim_space ''assistant'' = ''assistant''"
    by code_simp+
  consider (user) "ln_kind e = ''user''" "je_type ev = ''user''" | (assistant) "ln_kind e = ''markdown''" "je_type ev = ''assistant''"
    using assms(1) by (auto simp: extract_event_def split: if_splits)
  moreover have t: "je_text ev = entry_text e" "entry_text e \<noteq> []"
    using assms(1) by (auto simp: extract_event_def split: if_splits)
  ultimately have "x = plain_entry (ln_kind e) (ln_label x) (entry_text e) (ln_timestamp x)"
    using assms(2,3) words by cases (auto simp: event_entries_def Let_def plain_entry_def split: if_splits)
  moreover have "entry_text (plain_entry k l (entry_text e) ts) = entry_text e" for k l ts
    by (simp add: entry_text_def plain_entry_def)
  ultimately show ?thesis
    unfolding entry_dedup_key_def using t(2) by (metis log_entry.select_convs(1) plain_entry_def)
qed

lemma message_extracted: "ev \<in> set (extract_event e) \<Longrightarrow> message_event ev"
proof -
  have "trim_space ''user'' = ''user''" "trim_space ''assistant'' = ''assistant''"
    by code_simp+
  then show "ev \<in> set (extract_event e) \<Longrightarrow> ?thesis"
    by (auto simp: extract_event_def message_event_def split: if_splits)
qed

lemma merge_session_file:
  assumes "claude_projects_dir d = Some projects" and "trim_space cwd \<noteq> []" and "trim_space sid \<noteq> []"
    and "encode_cwd_to_project_dir cwd \<noteq> []"
  shows "merge_jsonl_to_session d ti cwd sid es = (case file_entries ti (cd_files d (session_file projects cwd sid)) sid of
     None \<Rightarrow> Inl Parse_error | Some old \<Rightarrow> Inr (merge_entries old es))"
  using assms by (auto simp: merge_jsonl_to_session_def file_entries_def Let_def merge_entries_def split: option.split)

text \<open>
  C2: What a session of the store has sent to Claude it does not take for something Claude has said: when nothing in
  Claude's file was new to the session, then after its messages have been written there, whichever of them were, there is
  still nothing new.
\<close>

theorem sync_is_not_merged_back:
  assumes "extract_jsonl_events es start = Some (evs, n)" and "length ws = length evs"
    and "write_session_to_jsonl d ti cwd sid (zip evs ws) = (None, files')" and "claude_projects_dir d = Some projects"
    and "ready_for d ti (session_file projects cwd sid) cwd sid (zip evs ws)"
    and "list_all (\<lambda>e. clean (entry_text e) = entry_text e) es"
    and "merge_jsonl_to_session d ti cwd sid es = Inr ([], k)"
  shows "merge_jsonl_to_session (d\<lparr>cd_files := files'\<rparr>) ti cwd sid es = Inr ([], 0)"
proof (cases "trim_space cwd = [] \<or> trim_space sid = [] \<or> encode_cwd_to_project_dir cwd = []")
  case True
  then show ?thesis
    using assms(4) by (auto simp: merge_jsonl_to_session_def claude_projects_dir_def)
next
  case False
  let ?p = "session_file projects cwd sid" and ?d = "d\<lparr>cd_files := files'\<rparr>"
  have home: "claude_projects_dir ?d = Some projects"
    using assms(4) by (simp add: claude_projects_dir_def)
  note merge = merge_session_file [OF assms(4)] merge_session_file [OF home]
  obtain old where old: "file_entries ti (cd_files d ?p) sid = Some old" "merge_entries old es = ([], k)"
    using assms(7) False merge(1) [of cwd sid ti es] by (auto split: option.splits)
  have from_es: "\<exists>e\<in>set es. ev \<in> set (extract_event e)" if "ev \<in> set evs" for ev
    using assms(1) that set_drop_subset [of "nat start" es] by (fastforce simp: extract_jsonl_events_def split: if_splits)
  have "list_all (\<lambda>(e, w). message_event e) (zip evs ws)"
    using from_es message_extracted by (fastforce simp: list_all_iff dest: set_zip_leftD)
  then have "file_entries ti (append_to (cd_files d ?p) (concat (event_lines ti cwd sid (read_last_uuid (cd_files d ?p)) (zip evs ws)))) sid =
      Some (old @ concat (map (\<lambda>(e, w). event_entries ti e) (zip evs ws)))"
    using assms(5) old(1) by (rule message_lines_read)
  then have read: "file_entries ti (files' ?p) sid = Some (old @ concat (map (\<lambda>(e, w). event_entries ti e) (zip evs ws)))"
    using written_is_appended [OF assms(3,4)] False assms(3) old(1)
    by (cases "zip evs ws = []") (auto simp: write_session_to_jsonl_def)
  have "entry_dedup_key x \<in> entry_dedup_key ` set es" if "ev \<in> set evs" "x \<in> set (event_entries ti ev)" for ev x
    using from_es [OF that(1)] extracted_key [OF _ _ that(2)] assms(6) by (auto simp: list_all_iff)
  moreover have "\<exists>ev\<in>set evs. x \<in> set (event_entries ti ev)" if "x \<in> set (concat (map (\<lambda>(e, w). event_entries ti e) (zip evs ws)))" for x
    using that by (auto dest: set_zip_leftD)
  moreover have "\<forall>x\<in>set old. entry_dedup_key x = [] \<or> entry_dedup_key x \<in> entry_dedup_key ` set es"
    using old(2) merge_entries_none [of old es] by simp
  ultimately have "fst (merge_entries (old @ concat (map (\<lambda>(e, w). event_entries ti e) (zip evs ws))) es) = []"
    unfolding merge_entries_none set_append by blast
  then have "merge_entries (old @ concat (map (\<lambda>(e, w). event_entries ti e) (zip evs ws))) es = ([], 0)"
    unfolding merge_entries_def Let_def by (simp split: if_splits)
  then show ?thesis
    using merge(2) [of cwd sid ti es] False read by simp
qed

section \<open>A message of each side\<close>

definition sample_times :: times where
  "sample_times = \<lparr>ti_now = 1, ti_parse = (\<lambda>_. None), ti_show = (\<lambda>_. ''T''), ti_show_nano = (\<lambda>_. ''T'')\<rparr>"

definition sample_disk :: claude_disk where
  "sample_disk = \<lparr>cd_home = Some ''/h'', cd_files = (\<lambda>_. Missing), cd_dirs = (\<lambda>_. No_dir), cd_stat = (\<lambda>_. No_stat), cd_abs = Some,
     cd_links = Some, cd_over = (\<lambda>_. False), cd_range = (\<lambda>ks. ks), cd_mix_files = (\<lambda>fs. fs), cd_mix_sessions = (\<lambda>ss. ss),
     cd_no_dir = (\<lambda>_. False), cd_no_append = (\<lambda>_. False), cd_torn = (\<lambda>_. None)\<rparr>"

definition sample_entries :: "log_entry list" where
  "sample_entries = [plain_entry ''user'' [] ''hi'' [], plain_entry ''markdown'' [] ''yo'' []]"

definition sample_events :: "(jsonl_event \<times> drawn) list" where
  "sample_events = [(\<lparr>je_type = ''user'', je_text = ''hi'', je_timestamp = []\<rparr>, \<lparr>dw_uuid = ''u'', dw_prompt = ''p'', dw_letters = ''x''\<rparr>),
     (\<lparr>je_type = ''assistant'', je_text = ''yo'', je_timestamp = []\<rparr>, \<lparr>dw_uuid = ''v'', dw_prompt = ''p'', dw_letters = ''x''\<rparr>)]"

lemma short_line: "length l \<le> 1000 \<Longrightarrow> length l \<le> session_line_size"
  by (simp add: session_line_size_def)

lemma sample_ready:
  assumes "list_all (\<lambda>l. length l \<le> 1000) (event_lines sample_times cwd sid [] es)"
  shows "ready_for sample_disk sample_times p cwd sid es"
proof -
  have "cd_files sample_disk p = Missing"
    by (simp add: sample_disk_def)
  then show ?thesis
    using assms short_line by (auto simp: ready_for_def file_text_def read_last_uuid_def list_all_iff)
qed

lemma sample_lines: "list_all (\<lambda>l. length l \<le> 1000) (event_lines sample_times ''/w'' ''s'' [] sample_events)"
  by code_simp

lemma sample_written: "fst (write_session_to_jsonl sample_disk sample_times ''/w'' ''s'' sample_events) = None"
  by code_simp

lemma sample_facts:
  "claude_projects_dir sample_disk = Some ''/h/.claude/projects''" "trim_space ''/w'' \<noteq> []" "trim_space ''s'' \<noteq> []"
  "list_all (\<lambda>(e, w). message_event e) sample_events" "merge_jsonl_to_session sample_disk sample_times ''/w'' ''s'' sample_entries = Inr ([], 0)"
  "extract_jsonl_events sample_entries 0 = Some (map fst sample_events, 2)" "list_all (\<lambda>e. clean (entry_text e) = entry_text e) sample_entries"
  by code_simp+

theorem written_messages_are_read_witness:
  "file_entries sample_times (snd (write_session_to_jsonl sample_disk sample_times ''/w'' ''s'' sample_events)
     (session_file ''/h/.claude/projects'' ''/w'' ''s'')) ''s'' =
     Some [plain_entry ''user'' txt_history_input ''hi'' ''T'', plain_entry ''markdown'' [] ''yo'' ''T'']"
proof -
  let ?w = "write_session_to_jsonl sample_disk sample_times ''/w'' ''s'' sample_events"
  have written: "?w = (None, snd ?w)"
    using sample_written by (metis prod.collapse)
  have "file_entries sample_times (cd_files sample_disk (session_file ''/h/.claude/projects'' ''/w'' ''s'')) ''s'' = Some []"
    by (simp add: file_entries_def sample_disk_def)
  moreover have "concat (map (\<lambda>(e, w). event_entries sample_times e) sample_events) =
      [plain_entry ''user'' txt_history_input ''hi'' ''T'', plain_entry ''markdown'' [] ''yo'' ''T'']"
    by code_simp
  ultimately show ?thesis
    using written_messages_are_read [OF written sample_facts(1-4) sample_ready [OF sample_lines]] by simp
qed

theorem sync_is_not_merged_back_witness:
  "merge_jsonl_to_session
     (sample_disk\<lparr>cd_files := snd (write_session_to_jsonl sample_disk sample_times ''/w'' ''s'' (zip (map fst sample_events) (map snd sample_events)))\<rparr>)
     sample_times ''/w'' ''s'' sample_entries = Inr ([], 0)"
proof -
  have zip: "zip (map fst sample_events) (map snd sample_events) = sample_events"
    by (simp add: zip_map_fst_snd)
  let ?w = "write_session_to_jsonl sample_disk sample_times ''/w'' ''s'' (zip (map fst sample_events) (map snd sample_events))"
  have written: "?w = (None, snd ?w)"
    using sample_written unfolding zip by (metis prod.collapse)
  show ?thesis
    using sample_ready [OF sample_lines]
    by (intro sync_is_not_merged_back [OF sample_facts(6) _ written sample_facts(1) _ sample_facts(7,5)]) (simp_all add: zip)
qed

section \<open>The list of sessions\<close>

lemma add_unseen_distinct: "distinct (map ns_session_id acc) \<Longrightarrow> distinct (map ns_session_id (foldl add_unseen acc ss))"
  by (induction ss arbitrary: acc) (auto simp: add_unseen_def)

lemma collect_dirs_distinct:
  "collect_dirs d ti projects cwds seen acc = Inr ss \<Longrightarrow> distinct (map ns_session_id acc) \<Longrightarrow> distinct (map ns_session_id ss)"
  by (induction d ti projects cwds seen acc rule: collect_dirs.induct)
    (auto simp: Let_def add_unseen_distinct split: if_splits dir_stat.splits bool.splits sum.splits)

lemma scan_ids_sources: "scan_ids d read ids = Inr ss \<Longrightarrow> s \<in> set ss \<Longrightarrow> \<exists>i\<in>set ids. read i = Some s"
  by (induction ids arbitrary: ss) (auto split: if_splits sum.splits option.splits)

lemma newest_sessions_order:
  assumes "\<And>xs. mset (cd_mix_sessions d xs) = mset xs"
  shows "sorted_wrt (\<lambda>s t. ns_updated t \<le> ns_updated s) (newest_sessions d ss)" and "mset (newest_sessions d ss) = mset ss"
  using assms sorted_sort_key [of "\<lambda>s. - ns_updated s" "cd_mix_sessions d ss"]
  by (simp_all add: newest_sessions_def sorted_map)

text \<open>
  The sessions of a directory are listed newest first and each once, whatever the ways its path can be written.
\<close>

theorem native_sessions_listed:
  assumes "\<And>xs. mset (cd_mix_sessions d xs) = mset xs" and "list_native_sessions d ti cwd = Inr ss"
  shows "distinct (map ns_session_id ss) \<and> sorted_wrt (\<lambda>s t. ns_updated t \<le> ns_updated s) ss"
proof (cases "candidate_project_cwds d cwd")
  case Nil
  then show ?thesis
    using assms(2) by (simp add: list_native_sessions_def)
next
  case (Cons c cs)
  then obtain projects acc where acc: "collect_dirs d ti projects (c # cs) {} [] = Inr acc" "ss = newest_sessions d acc"
    using assms(2) by (cases "claude_projects_dir d"; cases "collect_dirs d ti (the (claude_projects_dir d)) (c # cs) {} []")
      (auto simp: list_native_sessions_def simp del: collect_dirs.simps)
  then have "distinct (map ns_session_id acc)"
    by (intro collect_dirs_distinct [OF acc(1)]) simp
  moreover have "mset (map ns_session_id ss) = mset (map ns_session_id acc)"
    using newest_sessions_order(2) [OF assms(1)] acc(2) by simp
  ultimately show ?thesis
    using newest_sessions_order(1) [OF assms(1)] acc(2) using mset_eq_imp_distinct_iff by blast
qed

section \<open>Header lines\<close>

text \<open>Lines that come out of the loop stay as they are when it runs over them with the header written.\<close>

definition kept_line :: "string \<Rightarrow> bool" where
  "kept_line l \<longleftrightarrow> l \<noteq> [] \<and> trim_space l = l \<and> nl \<notin> set l"

lemma join_append: "xs \<noteq> [] \<Longrightarrow> ys \<noteq> [] \<Longrightarrow> join sep (xs @ ys) = join sep xs @ sep @ join sep ys"
proof (induction xs)
  case (Cons x xs)
  then show ?case
    by (cases xs; cases ys) auto
qed simp

lemma normalize_kept: "list_all kept_line ls \<Longrightarrow> normalize_lines header True (ls @ [[]]) = ls"
  by (induction ls) (simp_all add: kept_line_def)

lemma normalize_again:
  assumes "list_all kept_line ls" and "ls \<noteq> []" and "\<not> str_contains (hd ls) (dq ''~type~:~queue-operation~'')"
  shows "normalize_lines header False (ls @ [[]]) = header @ ls"
  using assms normalize_kept [of "tl ls" header] by (cases ls) (simp_all add: kept_line_def)

lemma nl_trim: "nl \<notin> set l \<Longrightarrow> nl \<notin> set (trim_space l)"
  using set_trim_left [of l] set_mono_prefix [OF prefix_trim_right, of "trim_left l"] unfolding trim_space_def by blast

lemma normalize_all_kept:
  "list_all (\<lambda>l. nl \<notin> set l) ls \<Longrightarrow> list_all kept_line header \<Longrightarrow> list_all kept_line (normalize_lines header b ls)"
  by (induction header b ls rule: normalize_lines.induct) (auto simp: Let_def kept_line_def nl_trim)

lemma normalize_starts:
  "normalize_lines header False ls = [] \<or> (\<exists>ls'. normalize_lines header False ls = header @ ls')"
  by (induction ls) (auto simp: Let_def)

lemma normalized_content_if: "normalized_content sid cwd ts c =
  (if normalize_lines (header_lines sid cwd ts) False (split_on nl c) = [] then None
   else Some (join [nl] (normalize_lines (header_lines sid cwd ts) False (split_on nl c)) @ [nl]))"
  by (simp add: normalized_content_def split: list.split)

text \<open>
  Every time a runner ends, the file of its session gets two more header lines: those of the last time are taken for
  entries of the session.
\<close>

theorem header_lines_accumulate:
  assumes "normalized_content sid cwd ts c = Some t"
    and "list_all kept_line (header_lines sid cwd ts)" and "\<not> str_contains (hd (header_lines sid cwd ts)) (dq ''~type~:~queue-operation~'')"
  shows "normalized_content sid cwd ts' t = Some (join [nl] (header_lines sid cwd ts') @ nl # t)"
proof -
  let ?ls = "normalize_lines (header_lines sid cwd ts) False (split_on nl c)"
  have ls: "?ls \<noteq> []" "t = join [nl] ?ls @ [nl]"
    using assms(1) by (auto simp: normalized_content_def split: list.splits)
  obtain rest where rest: "?ls = header_lines sid cwd ts @ rest"
    using normalize_starts ls(1) by metis
  have kept: "list_all kept_line ?ls"
    using assms(2) split_on_no_sep [of _ nl c] by (intro normalize_all_kept) (auto simp: list_all_iff)
  have head: "header_lines sid cwd ts \<noteq> []"
    by (simp add: header_lines_def Let_def)
  have "split_on nl t = ?ls @ [[]]"
    using ls kept split_on_append [of nl "join [nl] ?ls" "[]"] split_join [OF ls(1), of nl] by (simp add: list_all_iff kept_line_def)
  moreover have "normalize_lines (header_lines sid cwd ts') False (?ls @ [[]]) = header_lines sid cwd ts' @ ?ls"
    using assms(3) rest head by (intro normalize_again [OF kept ls(1)]) simp
  moreover have "join [nl] (header_lines sid cwd ts' @ ?ls) @ [nl] = join [nl] (header_lines sid cwd ts') @ nl # t"
    using ls join_append [of "header_lines sid cwd ts'" ?ls "[nl]"] by (simp add: header_lines_def Let_def)
  ultimately show ?thesis
    using ls(1) by (simp add: normalized_content_if)
qed

end
