(* ===== verification/Spec2Isabelle.thy ===== *)
theory Spec2Isabelle
  imports Prelude GoStrings Protocol EventBus LockMgr Scheduler Watchdog KernelState MemoryStore Moe Vibe Intake Feedback RuntimeRegistry
    SessionData Commands SessionList Controller Permissions ResumeCommand Service Projector ProjectionApply ProjectionEvents Ansi Parser PromptText Json CodexSession Paths PtyRunner ToolDiff ClaudeStream StoreRecords FileStore PermissionFlow ClaudeFiles
begin

text \<open>
  A model of VCOS, a server in Go that runs coding assistants (Claude, Codex, plain commands) on a machine and lets
  clients follow and steer them over a WebSocket. Every theory translates the Go files named here; the names of the
  definitions are those of the Go functions in lower case with underscores, the selectors of a record are the fields
  of the struct behind a short prefix.

  How the program is put together. A client talks to the gateway (\<open>gateway/\<close>), which keeps one runtime service per
  session (\<open>session/manager.go\<close>) with a controller that knows the phase of the session (\<open>session/session.go\<close>). The
  service owns at most one runner (\<open>engine/\<close>): a process of an assistant whose output is parsed into the events of
  \<open>protocol/event.go\<close>. Events go to the controller, to the projection that is stored (\<open>session/projection_apply.go\<close>) and
  to the listeners of the runtime session (\<open>kernel/registry.go\<close>), and are kept there for clients that reconnect. Sessions
  are stored as files (\<open>data/file_store.go\<close>). Beside this path the kernel (\<open>kernel/\<close>) has an event bus, a lock manager, a
  scheduler of intents and a watchdog over idle executions, and a memory with a router that the scheduler consults
  (\<open>memory/\<close>, \<open>cognition/\<close>, \<open>evolution/feedback\<close>).

  \<^bold>\<open>Shared theories.\<close>
  \<^item> \<open>Prelude\<close>: time, machine integers, and the list idioms of the code with their lemmas (keep the newest, replace the
    first match or append, iterate a map in some order), and the collections of rewrite rules.
  \<^item> \<open>GoStrings\<close>: strings as bytes and the functions of package \<open>strings\<close>; a wrapper type with the bytewise order as an
    instance of \<open>linorder\<close> stands in \<open>StoreRecords\<close>.
  \<^item> \<open>Paths\<close>: \<open>path/filepath\<close> on Unix. \<open>Json\<close>: what is used of \<open>encoding/json\<close>.

  \<^bold>\<open>Kernel.\<close>
  \<^item> \<open>Protocol\<close> (\<open>protocol/event.go\<close>): runtime metadata and its merge, which is a monoid; events, cursors, topics.
  \<^item> \<open>EventBus\<close> (\<open>kernel/eventbus\<close>): a transition system of publishers, dispatcher, subscribers and \<open>Close\<close>; delivery in
    order and at most once, bounds of the queues.
  \<^item> \<open>LockMgr\<close> (\<open>kernel/lockmgr\<close>): every operation and both halves of the expiry callback; exclusion, liveness of the
    time to live, the refinement of an abstract lock table, the panics of \<open>Close\<close>. The interface is the locale
    \<open>lock_service\<close>, interpreted on the model.
  \<^item> \<open>Scheduler\<close> (\<open>kernel/scheduler\<close>): the chain of rules, the decision and the lock it takes; exclusion of requests.
  \<^item> \<open>Watchdog\<close> (\<open>kernel/watchdog\<close>) and \<open>KernelState\<close> (\<open>kernel/kernel.go\<close>): the supervision of executions and its
    composition with bus and locks; an idle execution loses its lock.
  \<^item> \<open>RuntimeRegistry\<close> (\<open>kernel/registry.go\<close>): pending events and replay, client actions, listeners, release timers.
  \<^item> \<open>MemoryStore\<close> (\<open>memory/memstore.go\<close>, interface \<open>memory/store.go\<close> as the locale \<open>memory_store\<close>, interpreted on the
    model), \<open>Moe\<close> (\<open>memory/moe\<close>), \<open>Vibe\<close> (\<open>cognition/vibe\<close>), \<open>Intake\<close> (\<open>cognition/intake\<close>), \<open>Feedback\<close>
    (\<open>evolution/feedback\<close>).

  \<^bold>\<open>Sessions.\<close>
  \<^item> \<open>SessionData\<close> (\<open>data/store.go\<close>): the records. \<open>StoreRecords\<close> and \<open>FileStore\<close> (\<open>data/file_store.go\<close>): the normal forms
    of what is stored, and every operation of the store on files; what is stored is read back, what is deleted is gone,
    which sessions are listed.
  \<^item> \<open>Commands\<close> (\<open>kernel/helpers.go\<close>) and \<open>ResumeCommand\<close> (\<open>session/manager.go\<close>): command lines of assistants, what they
    resume, how they are rewritten. \<open>SessionList\<close> (\<open>gateway/gateway.go\<close>, \<open>kernel/helpers.go\<close>): the lists of sessions.
  \<^item> \<open>Controller\<close> (\<open>session/session.go\<close>) and \<open>Service\<close> (\<open>session/manager.go\<close>): the state machine of a session and the
    service around it, which refines it; one runner at a time, answers reach the request they are for.
  \<^item> \<open>Permissions\<close> (\<open>session/permission_rules.go\<close>, \<open>session/permission_router.go\<close>, \<open>session/interaction_helpers.go\<close>,
    \<open>gateway/permission_rules.go\<close>) and \<open>PermissionFlow\<close> (\<open>gateway/permission_decision.go\<close>, \<open>kernel/permission.go\<close>): the
    rules that answer a prompt without asking, the decisions and what they set in motion.
  \<^item> \<open>Projector\<close>, \<open>ProjectionApply\<close>, \<open>ProjectionEvents\<close> (the \<open>session/projection\<close> files and \<open>session/projector.go\<close>): the
    projection as the sum of the events, review groups and decisions, history and delta for a client.

  \<^bold>\<open>Engine.\<close>
  \<^item> \<open>Ansi\<close> (\<open>engine/ansi.go\<close>, \<open>engine/line_reader.go\<close>), \<open>Parser\<close> (\<open>engine/generic_parser.go\<close>, \<open>streamOutput\<close> of
    \<open>engine/exec_engine.go\<close>), \<open>PromptText\<close> (the judgement of terminal text in \<open>engine/pty_engine.go\<close>).
  \<^item> \<open>PtyRunner\<close>, \<open>ToolDiff\<close>, \<open>ClaudeStream\<close> (\<open>engine/pty_engine.go\<close>): the state of the interactive runner and its
    permission requests, the diffs of tools, the stream of JSON lines of Claude.
  \<^item> \<open>CodexSession\<close> (\<open>engine/codex_transport.go\<close>): calls, notifications and approvals of the Codex server.

  \<^bold>\<open>Conventions.\<close> A critical section of a mutex is one step. Where the code releases a mutex between two halves of an
  operation, or starts a goroutine or a timer, the halves are separate steps of an inductive relation, so that other
  steps can come between them. A mutable object that is shared (a runtime session, a subscription) has an address or a
  number, and a map of the code leads to it. A pointer or a map that may be nil is an option. An error is the left side
  of a sum or an option, a panic is a value of its own. Times are integers of nanoseconds since the zero time of Go, so
  zero is what \<open>IsZero\<close> says; durations are added without wrapping round, as the code adds constants of minutes to the
  clock. Cursors are
  integers: the code counts them one by one from zero in 64 bits.

  \<^bold>\<open>Parameters.\<close> What lies outside the repository is an argument of the definitions that use it: the clock (\<open>now\<close>,
  \<open>clk\<close>), the order in which a range over a map visits the keys (\<open>order\<close>), what the unstable \<open>sort.Slice\<close> makes of equal
  elements (\<open>mix\<close>, a permutation before a stable sort), the file system, the result of a write to a process, the
  rendering of times and floating-point numbers (\<open>fmt\<close>), the codec of the stored records. A theorem that depends on
  such a parameter says which documented behaviour it relies on, and has a witness with a concrete function.

  \<^bold>\<open>Loops, bounds and fuel.\<close> Loops are recursive functions with a termination proof. The reader of JSON takes the length
  of the text as fuel; every nested call has consumed a byte, so it is enough. The loop over the lines of a stream takes
  the size of the read buffer as an argument and terminates for every positive one. The polling loops of the service are
  folds over the list of the looks they take. The capacities of the bus are its options with the defaults of the
  code; the 512 replayed events and the 15 minutes until an orphan is released are its constants.

  \<^bold>\<open>Not modelled.\<close> Bodies that only do input and output or that run outside programs: the WebSocket and HTTP loops and
  request decoding of \<open>gateway/gateway.go\<close>, \<open>gateway/adb.go\<close>, push and speech services, \<open>cmd/\<close>, \<open>desktop/\<close>, the start
  and the reading of processes in \<open>engine/shell.go\<close> and the terminal mode of \<open>engine/pty_engine.go\<close>, process listings and
  model catalogues. The queries of \<open>memory/sqlite_store.go\<close> run in SQLite. \<open>memory/semantic\<close> is arithmetic on
  floating-point vectors. \<open>evolution/evolve\<close> and \<open>evolution/shadow\<close> run git and a language model. The native session files
  of Codex and Claude are scanned and written by \<open>data/codexsync\<close> and \<open>data/claudesync\<close>; of these only the identifiers
  are modelled. The sequences of calls in \<open>kernel/session_mgmt.go\<close>, \<open>kernel/catalog.go\<close> and \<open>kernel/ai_turn.go\<close> hand on
  to operations that are modelled.

  The theorems preceded by a text with a number of the form C\<open>n\<close> are the properties of the development, the most
  important ones first; the others are the library they rest on.
\<close>

end
